(* ===== verification/Prelude.thy ===== *)
theory Prelude
  imports Main "HOL-Library.Word" "HOL-Library.Monad_Syntax" "HOL-Library.Multiset"
begin

text \<open>
  The prelude of the development: how C is read in HOL.

  A C function that can run into undefined behaviour (a null or dangling pointer, an index
  outside its array, a read of memory nobody wrote, a division by zero, a failed
  \<open>assert\<close>) is a function into \<open>'a option\<close>: \<open>None\<close> is undefined behaviour, \<open>Some r\<close> is
  a regular return. The option monad of the library sequences such steps. An error code of
  the program (\<open>rsRetVal\<close> and its like) is an ordinary value inside \<open>Some\<close>.
\<close>

named_theorems c_defs \<open>definitions of small accessors, unfolded by the component proofs\<close>

type_synonym ptr = nat

section \<open>Undefined behaviour\<close>

definition c_guard :: "bool \<Rightarrow> unit option" where
  "c_guard b = (if b then Some () else None)"

lemma c_guard_True [simp]: "c_guard True = Some ()"
  by (simp add: c_guard_def)

lemma c_guard_False [simp]: "c_guard False = None"
  by (simp add: c_guard_def)

lemma c_guard_eq_Some [simp]: "c_guard b = Some u \<longleftrightarrow> b"
  by (simp add: c_guard_def)

lemma c_guard_bind_eq_Some [simp]:
  "Option.bind (c_guard b) f = Some r \<longleftrightarrow> b \<and> f () = Some r"
  by (simp add: c_guard_def)

text \<open>Array access: inside the bounds or undefined.\<close>

definition c_get :: "'a list \<Rightarrow> nat \<Rightarrow> 'a option" where
  "c_get xs i = (if i < length xs then Some (xs ! i) else None)"

definition c_set :: "'a list \<Rightarrow> nat \<Rightarrow> 'a \<Rightarrow> 'a list option" where
  "c_set xs i v = (if i < length xs then Some (xs[i := v]) else None)"

lemma c_get_in [simp]: "i < length xs \<Longrightarrow> c_get xs i = Some (xs ! i)"
  by (simp add: c_get_def)

lemma c_get_out [simp]: "\<not> i < length xs \<Longrightarrow> c_get xs i = None"
  by (simp add: c_get_def)

lemma c_get_eq_Some: "c_get xs i = Some v \<longleftrightarrow> i < length xs \<and> xs ! i = v"
  by (auto simp: c_get_def)

lemma c_set_in [simp]: "i < length xs \<Longrightarrow> c_set xs i v = Some (xs[i := v])"
  by (simp add: c_set_def)

lemma c_set_out [simp]: "\<not> i < length xs \<Longrightarrow> c_set xs i v = None"
  by (simp add: c_set_def)

lemma c_set_eq_Some: "c_set xs i v = Some ys \<longleftrightarrow> i < length xs \<and> ys = xs[i := v]"
  by (auto simp: c_set_def)

text \<open>C's integer division truncates towards zero; by zero it is undefined.\<close>

definition c_div :: "int \<Rightarrow> int \<Rightarrow> int option" where
  "c_div a b = (if b = 0 then None else Some (sgn a * sgn b * (\<bar>a\<bar> div \<bar>b\<bar>)))"

lemma c_div_pos: "0 \<le> a \<Longrightarrow> 0 < b \<Longrightarrow> c_div a b = Some (a div b)"
  by (cases "a = 0") (auto simp: c_div_def)

lemma c_div_zero [simp]: "c_div a 0 = None"
  by (simp add: c_div_def)

section \<open>Return codes of the runtime\<close>

text \<open>
  \<open>enum rsRetVal_\<close> of runtime/rsyslog.h, the members the modelled code names. Every
  other member a module may return is \<open>RS_RET_other n\<close>, its number kept.
\<close>

datatype rsRetVal =
    RS_RET_OK
  | RS_RET_ERR
  | RS_RET_OUT_OF_MEMORY
  | RS_RET_NOT_FOUND
  | RS_RET_PARAM_ERROR
  | RS_RET_QSIZE_ZERO
  | RS_RET_QUEUE_FULL
  | RS_RET_FORCE_TERM
  | RS_RET_IDLE
  | RS_RET_TERMINATE_NOW
  | RS_RET_TERMINATE_WHEN_IDLE
  | RS_RET_DISCARDMSG
  | RS_RET_SUSPENDED
  | RS_RET_DISABLE_ACTION
  | RS_RET_DEFER_COMMIT
  | RS_RET_PREVIOUS_COMMITTED
  | RS_RET_ACTION_FAILED
  | RS_RET_DATAFAIL
  | RS_RET_ERR_QUEUE_EMERGENCY
  | RS_RET_END_OF_LINKEDLIST
  | RS_RET_EMPTY_LIST
  | RS_RET_OK_DELETE_LISTENTRY
  | RS_RET_INVLD_TIME
  | RS_RET_COULD_NOT_PARSE
  | RS_RET_other int

fun rs_code :: "rsRetVal \<Rightarrow> int" where
  "rs_code RS_RET_OK = 0"
| "rs_code RS_RET_ERR = -3000"
| "rs_code RS_RET_OUT_OF_MEMORY = -6"
| "rs_code RS_RET_NOT_FOUND = -3003"
| "rs_code RS_RET_PARAM_ERROR = -1000"
| "rs_code RS_RET_QSIZE_ZERO = -2042"
| "rs_code RS_RET_QUEUE_FULL = -2105"
| "rs_code RS_RET_FORCE_TERM = -2153"
| "rs_code RS_RET_IDLE = 4"
| "rs_code RS_RET_TERMINATE_NOW = 2"
| "rs_code RS_RET_TERMINATE_WHEN_IDLE = 5"
| "rs_code RS_RET_DISCARDMSG = -2002"
| "rs_code RS_RET_SUSPENDED = -2007"
| "rs_code RS_RET_DISABLE_ACTION = -2006"
| "rs_code RS_RET_DEFER_COMMIT = -2121"
| "rs_code RS_RET_PREVIOUS_COMMITTED = -2122"
| "rs_code RS_RET_ACTION_FAILED = -2123"
| "rs_code RS_RET_DATAFAIL = -2218"
| "rs_code RS_RET_ERR_QUEUE_EMERGENCY = -2183"
| "rs_code RS_RET_END_OF_LINKEDLIST = -2014"
| "rs_code RS_RET_EMPTY_LIST = -2017"
| "rs_code RS_RET_OK_DELETE_LISTENTRY = 1"
| "rs_code RS_RET_INVLD_TIME = -2107"
| "rs_code RS_RET_COULD_NOT_PARSE = -2160"
| "rs_code (RS_RET_other n) = n"

section \<open>Lists\<close>

lemma take_Suc_drop_nth:
  "i < length xs \<Longrightarrow> drop i xs = xs ! i # drop (Suc i) xs"
  by (simp add: Cons_nth_drop_Suc)

lemma mset_remove1_add: "x \<in> set xs \<Longrightarrow> mset xs = add_mset x (mset (remove1 x xs))"
  by simp

lemma tl_append_ne: "xs \<noteq> [] \<Longrightarrow> tl (xs @ ys) = tl xs @ ys"
  by simp

lemma hd_conv_nth0: "xs \<noteq> [] \<Longrightarrow> xs ! 0 = hd xs"
  by (simp add: hd_conv_nth)

lemma drop_tl_pred: "0 < n \<Longrightarrow> drop (n - 1) (tl xs) = drop n xs"
  by (cases n) (simp_all add: drop_Suc)

lemma mset_concat_update:
  "i < length t \<Longrightarrow> mset (concat (t[i := b])) + mset (t ! i) = mset (concat t) + mset b"
proof (induction t arbitrary: i)
  case (Cons x xs)
  then show ?case by (cases i) (auto simp: ac_simps)
qed simp

section \<open>Decimal numbers\<close>

text \<open>What \<open>%d\<close> prints for a non-negative number.\<close>

fun dec :: "nat \<Rightarrow> string" where
  "dec n = (if n < 10 then [char_of (48 + n)] else dec (n div 10) @ [char_of (48 + n mod 10)])"

declare dec.simps [simp del]

lemma dec_not_empty [simp]: "dec n \<noteq> []"
  by (subst dec.simps) simp

end
