(* ===== verification/Bytes.thy ===== *)
theory Bytes
  imports Prelude
begin

text \<open>
  Bytes and buffers of bytes as the C libraries use them: cells that may be unwritten, \<open>memcpy\<close>,
  the character classes of the C locale, and the decimal text of numbers with its value.
\<close>

type_synonym byte = "8 word"

section \<open>Buffers\<close>

text \<open>A read of one cell.\<close>

definition rd :: "'a option list \<Rightarrow> nat \<Rightarrow> 'a option" where
  "rd c i = Option.bind (c_get c i) (\<lambda>x. x)"

text \<open>\<open>memcpy\<close> of \<open>len\<close> bytes of \<open>src\<close> to cell \<open>off\<close>.\<close>

definition memcpy :: "byte option list \<Rightarrow> nat \<Rightarrow> byte option list \<Rightarrow> nat \<Rightarrow> byte option list option" where
  "memcpy c off src len =
     (if len \<le> length src \<and> off + len \<le> length c \<and> None \<notin> set (take len src)
      then Some (take off c @ take len src @ drop (off + len) c) else None)"

section \<open>Character classes\<close>

text \<open>The C locale.\<close>

definition tolower :: "byte \<Rightarrow> byte" where
  "tolower c = (if 65 \<le> c \<and> c \<le> 90 then c + 32 else c)"

definition isdigit :: "byte \<Rightarrow> bool" where
  "isdigit c \<longleftrightarrow> 48 \<le> c \<and> c \<le> 57"

definition isxdigit :: "byte \<Rightarrow> bool" where
  "isxdigit c \<longleftrightarrow> isdigit c \<or> 65 \<le> c \<and> c \<le> 70 \<or> 97 \<le> c \<and> c \<le> 102"

definition isalpha :: "byte \<Rightarrow> bool" where
  "isalpha c \<longleftrightarrow> 65 \<le> c \<and> c \<le> 90 \<or> 97 \<le> c \<and> c \<le> 122"

text \<open>The bytes of a string literal, without its terminator.\<close>

definition lit :: "string \<Rightarrow> byte list" where
  "lit s = map of_char s"

section \<open>Integers of C\<close>

text \<open>A signed sum of 32 bits is undefined outside its range; a \<open>size_t\<close> wraps at 64 bits.\<close>

definition c_int :: "int \<Rightarrow> int option" where
  "c_int x = (if - 2147483648 \<le> x \<and> x \<le> 2147483647 then Some x else None)"

lemma c_int_in [simp]: "- 2147483648 \<le> x \<Longrightarrow> x \<le> 2147483647 \<Longrightarrow> c_int x = Some x"
  by (simp add: c_int_def)

definition size_t :: "int \<Rightarrow> nat" where
  "size_t x = nat (x mod 18446744073709551616)"

lemma size_t_in [simp]: "0 \<le> x \<Longrightarrow> x < 18446744073709551616 \<Longrightarrow> size_t x = nat x"
  by (simp add: size_t_def)

definition int_of_size :: "nat \<Rightarrow> int" where
  "int_of_size n = sint (of_nat n :: 32 word)"

lemma int_of_size_in [simp]: "n < 2147483648 \<Longrightarrow> int_of_size n = int n"
  by (simp add: int_of_size_def signed_of_nat signed_take_bit_int_eq_self)

section \<open>Decimal text\<close>

fun digs :: "nat \<Rightarrow> byte list" where
  "digs n = (if n = 0 then [] else digs (n div 10) @ [of_nat (n mod 10 + 48)])"

declare digs.simps [simp del]

lemma digs_0 [simp]: "digs 0 = []"
  by (simp add: digs.simps)

lemma digs_pos: "0 < n \<Longrightarrow> digs n = digs (n div 10) @ [of_nat (n mod 10 + 48)]"
  by (subst digs.simps) simp

lemma uint_digit: "n < 10 \<Longrightarrow> uint (of_nat (n + 48) :: byte) = int n + 48"
  by (simp add: unsigned_of_nat take_bit_nat_eq_self del: of_nat_add)

lemma digs_digit: "d \<in> set (digs n) \<Longrightarrow> isdigit d"
proof (induction n rule: digs.induct)
  case (1 n)
  show ?case
  proof (cases "n = 0")
    case False
    have "uint (of_nat (n mod 10 + 48) :: byte) = int (n mod 10) + 48" by (rule uint_digit) simp
    then have "isdigit (of_nat (n mod 10 + 48))"
      by (simp add: isdigit_def word_le_def del: of_nat_add)
    then show ?thesis using 1 False by (auto simp: digs_pos)
  qed (use 1 in simp)
qed

lemma digs_length: "n < 10 ^ k \<Longrightarrow> length (digs n) \<le> k"
proof (induction k arbitrary: n)
  case (Suc k)
  then have "n div 10 < 10 ^ k" by (simp add: less_mult_imp_div_less mult.commute)
  then show ?case using Suc.IH [of "n div 10"] by (cases "n = 0") (auto simp: digs_pos)
qed simp

definition dval :: "int \<Rightarrow> byte list \<Rightarrow> int" where
  "dval num xs = foldl (\<lambda>a d. a * 10 + (uint d - 48)) num xs"

lemma dval_Cons: "dval num (x # xs) = dval (num * 10 + (uint x - 48)) xs"
  by (simp add: dval_def)

lemma isdigit_uint: "isdigit d \<longleftrightarrow> 48 \<le> uint d \<and> uint d \<le> 57"
  by (simp add: isdigit_def word_le_def)

lemma dval_mono: "0 \<le> num \<Longrightarrow> \<forall>d \<in> set xs. isdigit d \<Longrightarrow> num \<le> dval num xs"
proof (induction xs arbitrary: num)
  case (Cons x xs)
  then have "num * 10 + (uint x - 48) \<le> dval (num * 10 + (uint x - 48)) xs"
    by (intro Cons.IH) (auto simp: isdigit_uint)
  then show ?case using Cons.prems by (auto simp: dval_Cons isdigit_uint)
qed (simp add: dval_def)

lemma dval_digs: "dval 0 (digs n) = int n"
proof (induction n rule: digs.induct)
  case (1 n)
  show ?case
  proof (cases "n = 0")
    case False
    have "uint (of_nat (n mod 10 + 48) :: byte) = int (n mod 10) + 48" by (rule uint_digit) simp
    then have "dval 0 (digs n) = int (n div 10) * 10 + int (n mod 10)"
      using 1 False by (simp add: digs_pos dval_def del: of_nat_add)
    then show ?thesis by presburger
  qed (simp add: dval_def)
qed

lemma hd_digs: "0 < n \<Longrightarrow> \<exists>d ds. digs n = d # ds \<and> d \<noteq> 48 \<and> d \<noteq> 45"
proof (induction n rule: digs.induct)
  case (1 n)
  show ?case
  proof (cases "n div 10 = 0")
    case True
    then have n: "n < 10" "digs n = [of_nat (n + 48)]" using 1 by (simp_all add: digs_pos)
    have "uint (of_nat (n + 48) :: byte) = int n + 48" by (rule uint_digit [OF n(1)])
    then have "(of_nat (n + 48) :: byte) \<noteq> 48 \<and> (of_nat (n + 48) :: byte) \<noteq> 45"
      using 1 by (auto simp: word_uint_eq_iff simp del: of_nat_add)
    then show ?thesis using n by simp
  next
    case False
    then obtain d ds where "digs (n div 10) = d # ds" "d \<noteq> 48" "d \<noteq> 45" using 1 by auto
    then show ?thesis using 1(2) by (simp add: digs_pos [of n])
  qed
qed

text \<open>The decimal text of a number.\<close>

definition numtxt :: "int \<Rightarrow> byte list" where
  "numtxt n = (if n = 0 then [48] else (if n < 0 then [45] else []) @ digs (nat \<bar>n\<bar>))"

end
