(* ===== verification/DateParse.thy ===== *)
theory DateParse
  imports Bytes
begin

text \<open>
  The timestamp parsers of runtime/datetime.c. A text is a list of bytes that includes its
  terminator, a parse pointer is a position in it, and the length that the code carries along
  is an \<open>int\<close>. A step of a parser is \<open>None\<close> for undefined behaviour, an error code, or its
  result; \<open>andThen\<close> goes on after a result as the code does when it does not jump to its
  \<open>finalize_it\<close> label.
\<close>

section \<open>Timestamps\<close>

text \<open>Conversions to \<open>intTiny\<close>, a \<open>char\<close>, and to \<open>short\<close>.\<close>

definition intTiny :: "int \<Rightarrow> int" where
  "intTiny x = sint (word_of_int x :: 8 word)"

definition c_short :: "int \<Rightarrow> int" where
  "c_short x = sint (word_of_int x :: 16 word)"

record syslogTime =
  timeType :: int
  month :: int
  day :: int
  hour :: int
  minute :: int
  second :: int
  secfracPrecision :: int
  OffsetMinute :: int
  OffsetHour :: int
  OffsetMode :: byte
  year :: int
  secfrac :: int
  inUTC :: int

record tzinfo =
  tz_id :: "byte list"
  offsMode :: byte
  offsHour :: int
  offsMin :: int

text \<open>A search by \<open>bsearch\<close> in a table of time zones sorted by their names.\<close>

definition glblFindTimezoneInfo :: "tzinfo list \<Rightarrow> byte list \<Rightarrow> tzinfo option" where
  "glblFindTimezoneInfo tzinfos s = find (\<lambda>t. tz_id t = s) tzinfos"

section \<open>Steps of a parser\<close>

type_synonym 'a parsed = "(rsRetVal + 'a) option"

definition andThen :: "'a parsed \<Rightarrow> ('a \<Rightarrow> 'b parsed) \<Rightarrow> 'b parsed" where
  "andThen m f = Option.bind m (\<lambda>r. case r of Inl e \<Rightarrow> Some (Inl e) | Inr x \<Rightarrow> f x)"

definition invalid_time :: "'a parsed" where
  "invalid_time = Some (Inl RS_RET_INVLD_TIME)"

definition accept :: "'a \<Rightarrow> 'a parsed" where
  "accept x = Some (Inr x)"

text \<open>A check of the code that jumps to the end when it fails.\<close>

definition check :: "bool \<Rightarrow> unit parsed" where
  "check b = (if b then accept () else invalid_time)"

text \<open>The character at the parse pointer.\<close>

definition look :: "byte list \<Rightarrow> nat \<Rightarrow> byte parsed" where
  "look buf p = map_option Inr (c_get buf p)"

text \<open>The test \<open>lenStr == 0 || *pszTS++ != c\<close>, followed by \<open>--lenStr\<close>.\<close>

definition eat :: "byte list \<Rightarrow> nat \<Rightarrow> int \<Rightarrow> byte \<Rightarrow> (nat \<times> int) parsed" where
  "eat buf p len c =
     (if len = 0 then invalid_time
      else andThen (look buf p) (\<lambda>x.
        if x \<noteq> c then invalid_time else accept (Suc p, len - 1)))"

text \<open>The guard of the loop is the one of the code, \<open>i < INT_MAX/10-1\<close>.\<close>

function parse_digits :: "byte list \<Rightarrow> nat \<Rightarrow> int \<Rightarrow> int \<Rightarrow> (int \<times> nat \<times> int) option" where
  "parse_digits buf p len i =
     (if len > 0 then do {
        c \<leftarrow> c_get buf p;
        if 48 \<le> c \<and> c \<le> 57 \<and> i < 2147483647 div 10 - 1 then do {
          i \<leftarrow> c_int (i * 10 + uint c);
          parse_digits buf (Suc p) (len - 1) (i - 48)
        } else Some (i, p, len)
      } else Some (i, p, len))"
  by pat_completeness auto
termination by (relation "measure (\<lambda>(buf, p, len, i). nat len)") auto

declare parse_digits.simps [simp del]

definition srSLMGParseInt32 :: "byte list \<Rightarrow> nat \<Rightarrow> int \<Rightarrow> (int \<times> nat \<times> int) parsed" where
  "srSLMGParseInt32 buf p len = map_option Inr (parse_digits buf p len 0)"

section \<open>RFC 3339\<close>

text \<open>Year, month and day, with the \<open>T\<close> behind them.\<close>

definition date3339 :: "byte list \<Rightarrow> nat \<Rightarrow> int \<Rightarrow> ((int \<times> int \<times> int) \<times> nat \<times> int) parsed" where
  "date3339 buf p len =
     andThen (srSLMGParseInt32 buf p len) (\<lambda>(y, p, len).
     andThen (eat buf p len 45) (\<lambda>(p, len).
     andThen (check (\<not> (y < 0 \<or> y \<ge> 2100))) (\<lambda>_.
     andThen (srSLMGParseInt32 buf p len) (\<lambda>(mo, p, len).
     andThen (check (\<not> (mo < 1 \<or> mo > 12))) (\<lambda>_.
     andThen (eat buf p len 45) (\<lambda>(p, len).
     andThen (srSLMGParseInt32 buf p len) (\<lambda>(d, p, len).
     andThen (check (\<not> (d < 1 \<or> d > 31))) (\<lambda>_.
     andThen (eat buf p len 84) (\<lambda>(p, len).
     accept ((y, mo, d), p, len))))))))))"

text \<open>Minute and second behind an hour, common to both formats.\<close>

definition min_sec :: "byte list \<Rightarrow> nat \<Rightarrow> int \<Rightarrow> ((int \<times> int) \<times> nat \<times> int) parsed" where
  "min_sec buf p len =
     andThen (eat buf p len 58) (\<lambda>(p, len).
     andThen (srSLMGParseInt32 buf p len) (\<lambda>(mi, p, len).
     andThen (check (\<not> (mi < 0 \<or> mi > 59))) (\<lambda>_.
     andThen (eat buf p len 58) (\<lambda>(p, len).
     andThen (srSLMGParseInt32 buf p len) (\<lambda>(s, p, len).
     andThen (check (\<not> (s < 0 \<or> s > 60))) (\<lambda>_.
     accept ((mi, s), p, len)))))))"

definition time3339 :: "byte list \<Rightarrow> nat \<Rightarrow> int \<Rightarrow> ((int \<times> int \<times> int) \<times> nat \<times> int) parsed" where
  "time3339 buf p len =
     andThen (srSLMGParseInt32 buf p len) (\<lambda>(h, p, len).
     andThen (check (\<not> (h < 0 \<or> h > 23))) (\<lambda>_.
     andThen (min_sec buf p len) (\<lambda>((mi, s), p, len).
     accept ((h, mi, s), p, len))))"

text \<open>The fraction of the second and the number of its digits, common to both formats.\<close>

definition parse_secfrac :: "byte list \<Rightarrow> nat \<Rightarrow> int \<Rightarrow> ((int \<times> int) \<times> nat \<times> int) parsed" where
  "parse_secfrac buf p len =
     (if len > 0 then
        andThen (look buf p) (\<lambda>c.
        if c = 46 then
          andThen (srSLMGParseInt32 buf (Suc p) (len - 1)) (\<lambda>(f, q, len).
          accept ((f, int q - int (Suc p)), q, len))
        else accept ((0, 0), p, len))
      else accept ((0, 0), p, len))"

definition zone3339 :: "byte list \<Rightarrow> nat \<Rightarrow> int \<Rightarrow> ((byte \<times> int \<times> int) \<times> nat \<times> int) parsed" where
  "zone3339 buf p len =
     andThen (check (len \<noteq> 0)) (\<lambda>_.
     andThen (look buf p) (\<lambda>c.
     if c = 90 then accept ((90, 0, 0), Suc p, len - 1)
     else if c = 43 \<or> c = 45 then
       andThen (srSLMGParseInt32 buf (Suc p) (len - 1)) (\<lambda>(oh, p, len).
       andThen (check (\<not> (oh < 0 \<or> oh > 23))) (\<lambda>_.
       andThen (eat buf p len 58) (\<lambda>(p, len).
       andThen (srSLMGParseInt32 buf p len) (\<lambda>(om, p, len).
       andThen (check (\<not> (om < 0 \<or> om > 59))) (\<lambda>_.
       accept ((c, oh, om), p, len))))))
     else invalid_time))"

text \<open>A space must follow if anything does; common to both formats.\<close>

definition skip_space :: "byte list \<Rightarrow> nat \<Rightarrow> int \<Rightarrow> (nat \<times> int) parsed" where
  "skip_space buf p len =
     (if len > 0 then
        andThen (look buf p) (\<lambda>c.
        if c \<noteq> 32 then invalid_time else accept (Suc p, len - 1))
      else accept (p, len))"

text \<open>The result of a parser: its code, the timestamp, the parse pointer and the length.\<close>

definition finalize ::
    "syslogTime \<Rightarrow> nat \<Rightarrow> int \<Rightarrow> (syslogTime \<times> nat \<times> int) parsed
     \<Rightarrow> (rsRetVal \<times> syslogTime \<times> nat \<times> int) option" where
  "finalize t p len m = map_option (\<lambda>r. case r of
     Inl e \<Rightarrow> (e, t, p, len) | Inr (t', p', len') \<Rightarrow> (RS_RET_OK, t', p', len')) m"

definition ParseTIMESTAMP3339 ::
    "syslogTime \<Rightarrow> byte list \<Rightarrow> nat \<Rightarrow> int \<Rightarrow> (rsRetVal \<times> syslogTime \<times> nat \<times> int) option" where
  "ParseTIMESTAMP3339 pTime buf p0 len0 = finalize pTime p0 len0 (
     andThen (date3339 buf p0 len0) (\<lambda>((y, mo, d), p, len).
     andThen (time3339 buf p len) (\<lambda>((h, mi, s), p, len).
     andThen (parse_secfrac buf p len) (\<lambda>((f, prec), p, len).
     andThen (zone3339 buf p len) (\<lambda>((om, oh, omi), p, len).
     andThen (skip_space buf p len) (\<lambda>(p, len).
     accept (pTime\<lparr>timeType := 2, year := c_short y, month := intTiny mo, day := intTiny d,
       hour := intTiny h, minute := intTiny mi, second := intTiny s, secfrac := f,
       secfracPrecision := intTiny prec, OffsetMode := om, OffsetHour := intTiny oh,
       OffsetMinute := intTiny omi\<rparr>, p, len)))))))"

section \<open>RFC 3164\<close>

text \<open>A character in either case, \<open>l\<close> the code of the small letter.\<close>

definition letter :: "byte \<Rightarrow> byte \<Rightarrow> bool" where
  "letter l c \<longleftrightarrow> c = l \<or> c = l - 32"

definition third :: "byte list \<Rightarrow> nat \<Rightarrow> byte \<Rightarrow> int \<Rightarrow> (int \<times> nat) parsed" where
  "third buf p l m = andThen (look buf p) (\<lambda>c.
     if letter l c then accept (m, Suc p) else invalid_time)"

definition third2 :: "byte list \<Rightarrow> nat \<Rightarrow> byte \<Rightarrow> int \<Rightarrow> byte \<Rightarrow> int \<Rightarrow> (int \<times> nat) parsed" where
  "third2 buf p l m l' m' = andThen (look buf p) (\<lambda>c.
     if letter l c then accept (m, Suc p)
     else if letter l' c then accept (m', Suc p)
     else invalid_time)"

definition second_third :: "byte list \<Rightarrow> nat \<Rightarrow> byte \<Rightarrow> byte \<Rightarrow> int \<Rightarrow> (int \<times> nat) parsed" where
  "second_third buf p l l3 m = andThen (look buf p) (\<lambda>c.
     if letter l c then third buf (Suc p) l3 m else invalid_time)"

definition month3164 :: "byte list \<Rightarrow> nat \<Rightarrow> (int \<times> nat) parsed" where
  "month3164 buf p0 = andThen (look buf p0) (\<lambda>c. let p = Suc p0 in
     if letter 106 c then andThen (look buf p) (\<lambda>c.
       if letter 97 c then third buf (Suc p) 110 1
       else if letter 117 c then third2 buf (Suc p) 110 6 108 7
       else invalid_time)
     else if letter 102 c then second_third buf p 101 98 2
     else if letter 109 c then andThen (look buf p) (\<lambda>c.
       if letter 97 c then third2 buf (Suc p) 114 3 121 5 else invalid_time)
     else if letter 97 c then andThen (look buf p) (\<lambda>c.
       if letter 112 c then third buf (Suc p) 114 4
       else if letter 117 c then third buf (Suc p) 103 8
       else invalid_time)
     else if letter 115 c then second_third buf p 101 112 9
     else if letter 111 c then second_third buf p 99 116 10
     else if letter 110 c then second_third buf p 111 118 11
     else if letter 100 c then second_third buf p 101 99 12
     else invalid_time)"

text \<open>A year in front. The space behind it is skipped, but not taken off the length.\<close>

definition year_in_front :: "byte list \<Rightarrow> nat \<Rightarrow> int \<Rightarrow> (int \<times> nat \<times> int) parsed" where
  "year_in_front buf p len =
     andThen (look buf p) (\<lambda>c.
     if 48 \<le> c \<and> c \<le> 57 then
       andThen (srSLMGParseInt32 buf p len) (\<lambda>(y, p, len).
       andThen (look buf p) (\<lambda>c.
       if y < 1970 \<or> y > 2100 \<or> c \<noteq> 32 then invalid_time else accept (y, Suc p, len)))
     else accept (0, p, len))"

definition day3164 :: "byte list \<Rightarrow> nat \<Rightarrow> int \<Rightarrow> (int \<times> nat \<times> int) parsed" where
  "day3164 buf p len =
     andThen (eat buf p len 32) (\<lambda>(p, len).
     andThen (look buf p) (\<lambda>c.
     let (p, len) = if c = 32 then (Suc p, len - 1) else (p, len) in
     andThen (srSLMGParseInt32 buf p len) (\<lambda>(d, p, len).
     andThen (check (\<not> (d < 1 \<or> d > 31))) (\<lambda>_.
     andThen (eat buf p len 32) (\<lambda>(p, len).
     accept (d, p, len))))))"

text \<open>The hour, with a year in front of it.\<close>

definition hour3164 :: "int \<Rightarrow> byte list \<Rightarrow> nat \<Rightarrow> int \<Rightarrow> ((int \<times> int) \<times> nat \<times> int) parsed" where
  "hour3164 y buf p len =
     andThen (srSLMGParseInt32 buf p len) (\<lambda>(h, p, len).
     andThen (if y = 0 \<and> h > 1970 \<and> h < 2100 then
         andThen (eat buf p len 32) (\<lambda>(p, len).
         andThen (srSLMGParseInt32 buf p len) (\<lambda>(h', p, len).
         accept ((h, h'), p, len)))
       else accept ((y, h), p, len)) (\<lambda>((y, h), p, len).
     andThen (check (\<not> (h < 0 \<or> h > 23))) (\<lambda>_.
     accept ((y, h), p, len))))"

function tz_loop :: "byte list \<Rightarrow> nat \<Rightarrow> int \<Rightarrow> byte list \<Rightarrow> (byte list \<times> nat \<times> int) option" where
  "tz_loop buf p len tz =
     (if len > 0 \<and> length tz < 15 then do {
        c \<leftarrow> c_get buf p;
        if c \<noteq> 58 \<and> c \<noteq> 32 then tz_loop buf (Suc p) (len - 1) (tz @ [c]) else Some (tz, p, len)
      } else Some (tz, p, len))"
  by pat_completeness auto
termination by (relation "measure (\<lambda>(buf, p, len, tz). nat len)") auto

declare tz_loop.simps [simp del]

text \<open>The name of a time zone; \<open>OffsetMode\<close> 0 is no update.\<close>

definition tz3164 :: "tzinfo list \<Rightarrow> bool \<Rightarrow> byte list \<Rightarrow> nat \<Rightarrow> int
    \<Rightarrow> ((byte \<times> int \<times> int) \<times> nat \<times> int) parsed" where
  "tz3164 tzinfos bParseTZ buf p len =
     (if bParseTZ \<and> len > 2 then
        andThen (look buf p) (\<lambda>c.
        if c = 32 then
          andThen (map_option Inr (tz_loop buf (Suc p) (len - 1) [])) (\<lambda>(tz, p, len).
          if tz \<noteq> [] then
            (case glblFindTimezoneInfo tzinfos (takeWhile (\<lambda>c. c \<noteq> 0) tz) of
               None \<Rightarrow> accept ((0, 0, 0), p, len)
             | Some t \<Rightarrow> accept ((offsMode t, offsHour t, offsMin t), p, len))
          else accept ((0, 0, 0), p, len))
        else accept ((0, 0, 0), p, len))
      else accept ((0, 0, 0), p, len))"

function year_digits :: "byte list \<Rightarrow> nat \<Rightarrow> nat \<Rightarrow> int \<Rightarrow> int option" where
  "year_digits buf p j y =
     (if j < 5 then do {
        c \<leftarrow> c_get buf (p + j);
        if c < 48 \<or> c > 57 then Some y else year_digits buf p (Suc j) (10 * y + uint c - 48)
      } else Some y)"
  by pat_completeness auto
termination by (relation "measure (\<lambda>(buf, p, j, y). 5 - j)") auto

declare year_digits.simps [simp del]

definition year_behind :: "bool \<Rightarrow> int \<Rightarrow> byte list \<Rightarrow> nat \<Rightarrow> int \<Rightarrow> (int \<times> nat \<times> int) parsed" where
  "year_behind bDetectYearAfterTime year0 buf p len =
     (if bDetectYearAfterTime \<and> year0 = 0 \<and> len > 5 then
        andThen (look buf p) (\<lambda>c.
        if c = 32 then
          andThen (map_option Inr (year_digits buf p 1 0)) (\<lambda>y.
          andThen (if len > 6 then map_option Inr (map_option (\<lambda>c. if c \<noteq> 32 then 0 else y)
                     (c_get buf (p + 5))) else accept y) (\<lambda>y.
          if 2000 \<le> y \<and> y < 2100 then accept (y, p + 5, len - 5) else accept (year0, p, len)))
        else accept (year0, p, len))
      else accept (year0, p, len))"

definition skip_colon :: "byte list \<Rightarrow> nat \<Rightarrow> int \<Rightarrow> (nat \<times> int) parsed" where
  "skip_colon buf p len =
     (if len > 0 then
        andThen (look buf p) (\<lambda>c. if c = 58 then accept (Suc p, len - 1) else accept (p, len))
      else accept (p, len))"

definition update3164 ::
    "syslogTime \<Rightarrow> int \<Rightarrow> int \<Rightarrow> int \<Rightarrow> int \<Rightarrow> int \<Rightarrow> int \<Rightarrow> int \<times> int \<Rightarrow> byte \<times> int \<times> int \<Rightarrow> syslogTime"
    where
  "update3164 t0 mo y d h mi s frac tz =
     (let t1 = t0\<lparr>timeType := 1, month := intTiny mo\<rparr>;
          t2 = (if y > 0 then t1\<lparr>year := c_short y\<rparr> else t1);
          t3 = t2\<lparr>day := intTiny d, hour := intTiny h, minute := intTiny mi, second := intTiny s,
                 secfrac := fst frac, secfracPrecision := intTiny (snd frac)\<rparr>
      in if fst tz \<noteq> 0
         then t3\<lparr>OffsetMode := fst tz, OffsetHour := intTiny (fst (snd tz)),
                 OffsetMinute := intTiny (snd (snd tz))\<rparr>
         else t3)"

definition ParseTIMESTAMP3164 ::
    "tzinfo list \<Rightarrow> syslogTime \<Rightarrow> byte list \<Rightarrow> nat \<Rightarrow> int \<Rightarrow> bool \<Rightarrow> bool
     \<Rightarrow> (rsRetVal \<times> syslogTime \<times> nat \<times> int) option" where
  "ParseTIMESTAMP3164 tzinfos pTime buf p0 len0 bParseTZ bDetectYearAfterTime =
     finalize pTime p0 len0 (
     andThen (check (\<not> len0 < 3)) (\<lambda>_.
     andThen (year_in_front buf p0 len0) (\<lambda>(y, p, len).
     andThen (month3164 buf p) (\<lambda>(mo, p).
     andThen (day3164 buf p (len - 3)) (\<lambda>(d, p, len).
     andThen (hour3164 y buf p len) (\<lambda>((y, h), p, len).
     andThen (min_sec buf p len) (\<lambda>((mi, s), p, len).
     andThen (parse_secfrac buf p len) (\<lambda>(frac, p, len).
     andThen (tz3164 tzinfos bParseTZ buf p len) (\<lambda>(tz, p, len).
     andThen (year_behind bDetectYearAfterTime y buf p len) (\<lambda>(y, p, len).
     andThen (skip_colon buf p len) (\<lambda>(p, len).
     andThen (skip_space buf p len) (\<lambda>(p, len).
     accept (update3164 pTime mo y d h mi s frac tz, p, len)))))))))))))"

text \<open>The default time zone of an input, a text like +01:00.\<close>

definition applyDfltTZ :: "syslogTime \<Rightarrow> byte list \<Rightarrow> syslogTime option" where
  "applyDfltTZ pTime tz = do {
     c0 \<leftarrow> c_get tz 0; c1 \<leftarrow> c_get tz 1; c2 \<leftarrow> c_get tz 2; c4 \<leftarrow> c_get tz 4; c5 \<leftarrow> c_get tz 5;
     Some (pTime\<lparr>OffsetMode := c0,
       OffsetHour := intTiny ((sint c1 - 48) * 10 + (sint c2 - 48)),
       OffsetMinute := intTiny ((sint c4 - 48) * 10 + (sint c5 - 48))\<rparr>)
   }"

end
