(* ===== verification/DateSafe.thy ===== *)
theory DateSafe
  imports DateParse
begin

text \<open>
  The parsers of timestamps stay inside their buffer and keep timestamps well-formed.
\<close>

section \<open>Reasoning about steps\<close>

definition yields :: "('a \<Rightarrow> bool) \<Rightarrow> 'a parsed \<Rightarrow> bool" where
  "yields P m \<longleftrightarrow> m = Some (Inl RS_RET_INVLD_TIME) \<or> (\<exists>x. m = Some (Inr x) \<and> P x)"

lemma yields_andThen:
  "yields P m \<Longrightarrow> (\<And>x. P x \<Longrightarrow> yields Q (f x)) \<Longrightarrow> yields Q (andThen m f)"
  unfolding yields_def andThen_def by fastforce

lemma yields_accept: "P x \<Longrightarrow> yields P (accept x)"
  by (simp add: yields_def accept_def)

lemma yields_invalid: "yields P invalid_time"
  by (simp add: yields_def invalid_time_def)

lemma yields_check: "yields (\<lambda>_. b) (check b)"
  by (simp add: yields_def check_def accept_def invalid_time_def)

lemma yields_look: "p < length buf \<Longrightarrow> yields (\<lambda>c. c = buf ! p) (look buf p)"
  by (simp add: yields_def look_def)

lemma yields_Inr: "m = Some x \<Longrightarrow> P x \<Longrightarrow> yields P (map_option Inr m)"
  by (simp add: yields_def)

lemma yields_if: "(b \<Longrightarrow> yields P m) \<Longrightarrow> (\<not> b \<Longrightarrow> yields P m') \<Longrightarrow> yields P (if b then m else m')"
  by simp

lemma yields_mono: "yields P m \<Longrightarrow> (\<And>x. P x \<Longrightarrow> Q x) \<Longrightarrow> yields Q m"
  by (auto simp: yields_def)

section \<open>Positions in a text\<close>

text \<open>The text ends at cell \<open>n\<close>; \<open>extra\<close> is what the length is too large by.\<close>

definition ends_at :: "byte list \<Rightarrow> nat \<Rightarrow> bool" where
  "ends_at buf n \<longleftrightarrow> n < length buf \<and> buf ! n = 0"

definition pos :: "nat \<Rightarrow> int \<Rightarrow> nat \<Rightarrow> int \<Rightarrow> bool" where
  "pos n extra p len \<longleftrightarrow> p \<le> n \<and> 0 \<le> extra \<and> extra \<le> 1 \<and> int p + len = int n + extra"

text \<open>Behind a time zone the pointer can be behind the terminator.\<close>

definition wpos :: "nat \<Rightarrow> int \<Rightarrow> nat \<Rightarrow> int \<Rightarrow> bool" where
  "wpos n extra p len \<longleftrightarrow> 0 \<le> len \<and> 0 \<le> extra \<and> extra \<le> 1 \<and> int p + len = int n + extra"

text \<open>No run of digits that overflows the \<open>int\<close> of the number parser.\<close>

definition digits_fit :: "byte list \<Rightarrow> bool" where
  "digits_fit buf \<longleftrightarrow> (\<forall>i k. i + k < length buf \<and> (\<forall>j\<le>k. isdigit (buf ! (i + j)))
     \<longrightarrow> dval 0 (take k (drop i buf)) \<notin> {214748360..214748362})"

lemma pos_wpos: "pos n e p len \<Longrightarrow> wpos n e p len"
  by (simp add: pos_def wpos_def)

lemma dval_snoc: "dval a (xs @ [x]) = dval a xs * 10 + (uint x - 48)"
  by (simp add: dval_def)

lemma digit_range: "48 \<le> c \<and> c \<le> 57 \<longleftrightarrow> isdigit c"
  by (simp add: isdigit_def)

lemma parse_digits_ok:
  assumes "ends_at buf n" and "digits_fit buf" and "p0 \<le> p" and "pos n e p len"
    and "\<forall>j. p0 \<le> j \<and> j < p \<longrightarrow> isdigit (buf ! j)"
    and "i = dval 0 (take (p - p0) (drop p0 buf))" and "0 \<le> i" "i \<le> 2147483647"
  shows "\<exists>i' p' len'. parse_digits buf p len i = Some (i', p', len') \<and> 0 \<le> i' \<and> i' \<le> 2147483647
     \<and> pos n e p' len' \<and> p \<le> p'"
  using assms(3-8)
proof (induction "nat len" arbitrary: p len i rule: less_induct)
  case less
  show ?case
  proof (cases "0 < len \<and> isdigit (buf ! p) \<and> i < 214748363")
    case True
    have p: "p \<le> n" "n < length buf" using less.prems assms(1) by (auto simp: pos_def ends_at_def)
    then have lt: "p < n" using True assms(1) by (cases "p = n") (auto simp: ends_at_def isdigit_def)
    have c: "48 \<le> uint (buf ! p)" "uint (buf ! p) \<le> 57" using True by (auto simp: isdigit_uint)
    have dig: "\<forall>j \<le> p - p0. isdigit (buf ! (p0 + j))"
    proof (intro allI impI)
      fix j assume "j \<le> p - p0"
      then show "isdigit (buf ! (p0 + j))"
        using less.prems(1,3) True by (cases "p0 + j = p") auto
    qed
    have "p0 + (p - p0) < length buf" using lt p less.prems(1) by simp
    then have "dval 0 (take (p - p0) (drop p0 buf)) \<notin> {214748360..214748362}"
      using assms(2) dig unfolding digits_fit_def by blast
    then have "i \<notin> {214748360..214748362}" using less.prems(4) by simp
    then have fits: "i * 10 + uint (buf ! p) \<le> 2147483647" using True c by auto
    have i': "i * 10 + uint (buf ! p) - 48 = dval 0 (take (Suc p - p0) (drop p0 buf))"
      using less.prems(1,4) lt p by (simp add: Suc_diff_le take_Suc_conv_app_nth dval_snoc)
    have "parse_digits buf p len i = parse_digits buf (Suc p) (len - 1) (i * 10 + uint (buf ! p) - 48)"
      using True lt p c fits less.prems(5)
      by (subst parse_digits.simps) (simp add: isdigit_def)
    moreover have "\<exists>i' p' len'. parse_digits buf (Suc p) (len - 1) (i * 10 + uint (buf ! p) - 48)
        = Some (i', p', len') \<and> 0 \<le> i' \<and> i' \<le> 2147483647 \<and> pos n e p' len' \<and> Suc p \<le> p'"
    proof (rule less.hyps)
      show "nat (len - 1) < nat len" using True by simp
      show "pos n e (Suc p) (len - 1)" using less.prems(2) lt by (simp add: pos_def)
      show "\<forall>j. p0 \<le> j \<and> j < Suc p \<longrightarrow> isdigit (buf ! j)"
        using less.prems(3) True by (auto simp: less_Suc_eq)
    qed (use i' c fits less.prems(1,5) in auto)
    ultimately show ?thesis using Suc_leD by fastforce
  next
    case False
    have "parse_digits buf p len i = Some (i, p, len)"
    proof (cases "0 < len")
      case True
      then have "p < length buf" using less.prems(2) assms(1) by (auto simp: pos_def ends_at_def)
      then show ?thesis using False True
        by (subst parse_digits.simps) (auto simp: isdigit_def)
    qed (subst parse_digits.simps, simp)
    then show ?thesis using less.prems by auto
  qed
qed

lemma number_ok:
  assumes "ends_at buf n" and "digits_fit buf" and "pos n e p len"
  shows "yields (\<lambda>(i, p', len'). 0 \<le> i \<and> i \<le> 2147483647 \<and> pos n e p' len')
     (srSLMGParseInt32 buf p len)"
proof -
  have "\<exists>i' p' len'. parse_digits buf p len 0 = Some (i', p', len') \<and> 0 \<le> i' \<and> i' \<le> 2147483647
     \<and> pos n e p' len' \<and> p \<le> p'"
    by (rule parse_digits_ok [OF assms(1,2) order_refl assms(3)]) (auto simp: dval_def)
  then show ?thesis by (auto simp: srSLMGParseInt32_def yields_def)
qed

section \<open>The steps\<close>

text \<open>A step that starts at a good position ends at one.\<close>

definition text_ok :: "byte list \<Rightarrow> nat \<Rightarrow> bool" where
  "text_ok buf n \<longleftrightarrow> ends_at buf n \<and> digits_fit buf"

lemma number_step:
  "\<lbrakk>text_ok buf n; pos n e p len;
    \<And>i p len. \<lbrakk>0 \<le> i; i \<le> 2147483647; pos n e p len\<rbrakk> \<Longrightarrow> yields Q (f (i, p, len))\<rbrakk>
   \<Longrightarrow> yields Q (andThen (srSLMGParseInt32 buf p len) f)"
  by (rule yields_andThen [OF number_ok]) (auto simp: text_ok_def)

lemma check_step: "(b \<Longrightarrow> yields Q (f ())) \<Longrightarrow> yields Q (andThen (check b) f)"
  by (rule yields_andThen [OF yields_check]) auto

lemma look_step:
  "\<lbrakk>text_ok buf n; p \<le> n; \<And>c. c = buf ! p \<Longrightarrow> yields Q (f c)\<rbrakk> \<Longrightarrow> yields Q (andThen (look buf p) f)"
  by (rule yields_andThen [OF yields_look]) (auto simp: text_ok_def ends_at_def)

lemma next_pos:
  "\<lbrakk>text_ok buf n; pos n e p len; buf ! p \<noteq> 0\<rbrakk> \<Longrightarrow> pos n e (Suc p) (len - 1)"
  by (cases "p = n") (auto simp: text_ok_def ends_at_def pos_def)

lemma eat_step:
  assumes "text_ok buf n" and "pos n e p len" and "c \<noteq> 0"
    and "\<And>p len. pos n e p len \<Longrightarrow> yields Q (f (p, len))"
  shows "yields Q (andThen (eat buf p len c) f)"
proof (rule yields_andThen)
  show "yields (\<lambda>(p, len). pos n e p len) (eat buf p len c)"
    unfolding eat_def using assms(2)
    by (auto intro!: yields_if yields_invalid look_step [OF assms(1)] yields_accept
        next_pos [OF assms(1)] simp: assms(3)) (simp add: pos_def)
qed (auto intro: assms(4))

lemmas steps = check_step number_step eat_step look_step yields_accept yields_invalid yields_if

lemma date3339_ok:
  assumes t: "text_ok buf n" and "pos n e p len"
  shows "yields (\<lambda>((y, mo, d), p, len). 0 \<le> y \<and> y < 2100 \<and> 1 \<le> mo \<and> mo \<le> 12 \<and> 1 \<le> d \<and> d \<le> 31
     \<and> pos n e p len) (date3339 buf p len)"
  unfolding date3339_def using assms by (auto intro!: steps)

lemma min_sec_ok:
  assumes t: "text_ok buf n" and "pos n e p len"
  shows "yields (\<lambda>((mi, s), p, len). 0 \<le> mi \<and> mi \<le> 59 \<and> 0 \<le> s \<and> s \<le> 60 \<and> pos n e p len)
     (min_sec buf p len)"
  unfolding min_sec_def using assms by (auto intro!: steps)

lemma secfrac_ok:
  assumes t: "text_ok buf n" and "pos n e p len"
  shows "yields (\<lambda>((f, prec), p, len). 0 \<le> f \<and> f \<le> 2147483647 \<and> pos n e p len)
     (parse_secfrac buf p len)"
proof -
  have "pos n e (Suc p) (len - 1)" if "buf ! p = 46"
    by (rule next_pos [OF assms]) (simp add: that)
  then show ?thesis
    unfolding parse_secfrac_def using assms by (auto intro!: steps simp: pos_def)
qed

lemma zone_ok:
  assumes t: "text_ok buf n" and "pos n e p len"
  shows "yields (\<lambda>((om, oh, omi), p, len). om \<in> {43, 45, 90} \<and> 0 \<le> oh \<and> oh \<le> 23 \<and> 0 \<le> omi \<and> omi \<le> 59
     \<and> pos n e p len) (zone3339 buf p len)"
proof -
  have "pos n e (Suc p) (len - 1)" if "buf ! p \<in> {43, 45, 90}"
    by (rule next_pos [OF assms]) (use that in auto)
  then show ?thesis
    unfolding zone3339_def using assms by (auto intro!: steps simp: pos_def)
qed

lemma time3339_ok:
  assumes t: "text_ok buf n" and "pos n e p len"
  shows "yields (\<lambda>((h, mi, s), p, len). 0 \<le> h \<and> h \<le> 23 \<and> 0 \<le> mi \<and> mi \<le> 59 \<and> 0 \<le> s \<and> s \<le> 60
     \<and> pos n e p len) (time3339 buf p len)"
  unfolding time3339_def using assms
  by (auto intro!: steps yields_andThen [OF min_sec_ok])

lemma space_ok:
  assumes t: "text_ok buf n" and p: "wpos n e p len"
  shows "yields (\<lambda>(p, len). wpos n e p len) (skip_space buf p len)"
  unfolding skip_space_def using p by (auto intro!: steps look_step [OF t] simp: wpos_def)

lemma colon_ok:
  assumes t: "text_ok buf n" and p: "wpos n e p len"
  shows "yields (\<lambda>(p, len). wpos n e p len) (skip_colon buf p len)"
  unfolding skip_colon_def using p by (auto intro!: steps look_step [OF t] simp: wpos_def)

section \<open>Well-formed timestamps\<close>

definition time_ok :: "syslogTime \<Rightarrow> bool" where
  "time_ok t \<longleftrightarrow> timeType t \<in> {0, 1, 2} \<and> 1 \<le> month t \<and> month t \<le> 12 \<and> 1 \<le> day t \<and> day t \<le> 31
     \<and> 0 \<le> hour t \<and> hour t \<le> 23 \<and> 0 \<le> minute t \<and> minute t \<le> 59 \<and> 0 \<le> second t \<and> second t \<le> 60
     \<and> - 128 \<le> secfracPrecision t \<and> secfracPrecision t \<le> 127
     \<and> 0 \<le> OffsetMinute t \<and> OffsetMinute t \<le> 59 \<and> 0 \<le> OffsetHour t \<and> OffsetHour t \<le> 23
     \<and> 0 \<le> year t \<and> year t \<le> 2100 \<and> 0 \<le> secfrac t \<and> secfrac t \<le> 2147483647"

lemma intTiny_in [simp]: "- 128 \<le> x \<Longrightarrow> x \<le> 127 \<Longrightarrow> intTiny x = x"
  by (simp add: intTiny_def signed_of_int signed_take_bit_int_eq_self)

lemma c_short_in [simp]: "- 32768 \<le> x \<Longrightarrow> x \<le> 32767 \<Longrightarrow> c_short x = x"
  by (simp add: c_short_def signed_of_int signed_take_bit_int_eq_self)

lemma intTiny_range: "- 128 \<le> intTiny x" "intTiny x \<le> 127"
  using sint_range_size [of "word_of_int x :: 8 word"] by (simp_all add: intTiny_def word_size)

text \<open>What a parser does: it is defined, and changes nothing or succeeds.\<close>

definition parsed_ok :: "(syslogTime \<Rightarrow> nat \<Rightarrow> int \<Rightarrow> bool) \<Rightarrow> syslogTime \<Rightarrow> nat \<Rightarrow> int
    \<Rightarrow> (rsRetVal \<times> syslogTime \<times> nat \<times> int) option \<Rightarrow> bool" where
  "parsed_ok P t p len r \<longleftrightarrow> r = Some (RS_RET_INVLD_TIME, t, p, len)
     \<or> (\<exists>t' p' len'. r = Some (RS_RET_OK, t', p', len') \<and> P t' p' len')"

lemma finalize_ok:
  "yields (\<lambda>(t', p', len'). P t' p' len') m \<Longrightarrow> parsed_ok P t p len (finalize t p len m)"
  by (auto simp: yields_def parsed_ok_def finalize_def)

lemma update3339_ok:
  assumes "time_ok t" and "0 \<le> y" "y < 2100" "1 \<le> mo" "mo \<le> 12" "1 \<le> d" "d \<le> 31"
    and "0 \<le> h" "h \<le> 23" "0 \<le> mi" "mi \<le> 59" "0 \<le> s" "s \<le> 60" "0 \<le> f" "f \<le> 2147483647"
    and "0 \<le> oh" "oh \<le> 23" "0 \<le> omi" "omi \<le> 59"
  shows "time_ok (t\<lparr>timeType := 2, year := c_short y, month := intTiny mo, day := intTiny d,
       hour := intTiny h, minute := intTiny mi, second := intTiny s, secfrac := f,
       secfracPrecision := intTiny prec, OffsetMode := om, OffsetHour := intTiny oh,
       OffsetMinute := intTiny omi\<rparr>)"
  using assms by (simp add: time_ok_def intTiny_range)

lemma parse3339_ok:
  assumes t: "text_ok buf n" and p: "p \<le> n" and ok: "time_ok t"
  shows "parsed_ok (\<lambda>t' p' len'. time_ok t' \<and> p' \<le> n \<and> int p' + len' = int n) t p (int n - int p)
     (ParseTIMESTAMP3339 t buf p (int n - int p))"
proof -
  have "pos n 0 p (int n - int p)" using p by (simp add: pos_def)
  then show ?thesis
    unfolding ParseTIMESTAMP3339_def
    apply (intro finalize_ok)
    apply (rule yields_andThen [OF date3339_ok [OF t]], assumption, clarify)
    apply (rule yields_andThen [OF time3339_ok [OF t]], assumption, clarify)
    apply (rule yields_andThen [OF secfrac_ok [OF t]], assumption, clarify)
    apply (rule yields_andThen [OF zone_ok [OF t]], assumption, clarify)
    apply (rule yields_andThen [OF space_ok [OF t pos_wpos]], assumption, clarify)
    apply (rule yields_accept, clarify)
    apply (intro conjI update3339_ok ok; (assumption | simp add: wpos_def))
    done
qed

section \<open>RFC 3164\<close>

text \<open>Behind a character that is not the terminator.\<close>

lemma next_char: "\<lbrakk>text_ok buf n; p \<le> n; buf ! p \<noteq> 0\<rbrakk> \<Longrightarrow> Suc p \<le> n"
  by (cases "p = n") (auto simp: text_ok_def ends_at_def)

lemma letter_nz: "letter l c \<Longrightarrow> l \<noteq> 0 \<Longrightarrow> l \<noteq> 32 \<Longrightarrow> c \<noteq> 0"
  by (auto simp: letter_def)

lemma letter_step:
  assumes t: "text_ok buf n" and p: "p \<le> n"
    and f: "\<And>c. c = buf ! p \<Longrightarrow> (\<And>l. letter l c \<Longrightarrow> l \<noteq> 0 \<Longrightarrow> l \<noteq> 32 \<Longrightarrow> Suc p \<le> n) \<Longrightarrow> yields Q (f c)"
  shows "yields Q (andThen (look buf p) f)"
  by (rule look_step [OF t p]) (use next_char [OF t p] letter_nz f in blast)

lemma third_ok:
  assumes t: "text_ok buf n" and "p \<le> n" "l \<noteq> 0" "l \<noteq> 32"
  shows "yields (\<lambda>(m', p'). m' = m \<and> p' = Suc p \<and> p' \<le> n) (third buf p l m)"
  unfolding third_def using assms by (auto intro!: letter_step [OF t] yields_if yields_accept yields_invalid)

lemma third2_ok:
  assumes t: "text_ok buf n" and "p \<le> n" "l \<noteq> 0" "l \<noteq> 32" "l' \<noteq> 0" "l' \<noteq> 32"
  shows "yields (\<lambda>(k, p'). (k = m \<or> k = m') \<and> p' = Suc p \<and> p' \<le> n) (third2 buf p l m l' m')"
  unfolding third2_def using assms by (auto intro!: letter_step [OF t] yields_if yields_accept yields_invalid)

lemma second_third_ok:
  assumes t: "text_ok buf n" and "p \<le> n" "l \<noteq> 0" "l \<noteq> 32" "l3 \<noteq> 0" "l3 \<noteq> 32"
  shows "yields (\<lambda>(m', p'). m' = m \<and> p' = Suc (Suc p) \<and> p' \<le> n) (second_third buf p l l3 m)"
  unfolding second_third_def using assms
  by (auto intro!: letter_step [OF t] yields_if yields_invalid third_ok [OF t])

definition month_at :: "nat \<Rightarrow> nat \<Rightarrow> int \<times> nat \<Rightarrow> bool" where
  "month_at n p r \<longleftrightarrow> 1 \<le> fst r \<and> fst r \<le> 12 \<and> snd r = p + 3 \<and> p + 3 \<le> n"

lemma month_third:
  "\<lbrakk>text_ok buf n; Suc (Suc p) \<le> n; l \<noteq> 0; l \<noteq> 32; 1 \<le> m; m \<le> 12\<rbrakk>
   \<Longrightarrow> yields (month_at n p) (third buf (Suc (Suc p)) l m)"
  by (erule (3) yields_mono [OF third_ok]) (auto simp: month_at_def)

lemma month_third2:
  "\<lbrakk>text_ok buf n; Suc (Suc p) \<le> n; l \<noteq> 0; l \<noteq> 32; l' \<noteq> 0; l' \<noteq> 32; 1 \<le> m; m \<le> 12; 1 \<le> m'; m' \<le> 12\<rbrakk>
   \<Longrightarrow> yields (month_at n p) (third2 buf (Suc (Suc p)) l m l' m')"
  by (erule (5) yields_mono [OF third2_ok]) (auto simp: month_at_def)

lemma month_second:
  "\<lbrakk>text_ok buf n; Suc p \<le> n; l \<noteq> 0; l \<noteq> 32; l3 \<noteq> 0; l3 \<noteq> 32; 1 \<le> m; m \<le> 12\<rbrakk>
   \<Longrightarrow> yields (month_at n p) (second_third buf (Suc p) l l3 m)"
  by (erule (5) yields_mono [OF second_third_ok]) (auto simp: month_at_def)

lemma month_ok:
  assumes t: "text_ok buf n" and p: "p \<le> n"
  shows "yields (month_at n p) (month3164 buf p)"
  unfolding month3164_def Let_def
  by (intro letter_step [OF t] p yields_if month_third [OF t] month_third2 [OF t] month_second [OF t]
      yields_invalid; (assumption | simp)?)

text \<open>What the length is too large by behind a year in front.\<close>

definition extra :: "byte list \<Rightarrow> nat \<Rightarrow> int" where
  "extra buf p = (if isdigit (buf ! p) then 1 else 0)"

lemma year_in_front_ok:
  assumes t: "text_ok buf n" and p: "pos n 0 p len"
  shows "yields (\<lambda>(y, p', len). (y = 0 \<or> 1970 \<le> y \<and> y \<le> 2100) \<and> pos n (extra buf p) p' len)
     (year_in_front buf p len)"
proof -
  have "pos n 1 (Suc q) l" if "pos n 0 q l" "buf ! q = 32" for q l
    using next_pos [OF t that(1)] that by (simp add: pos_def)
  then show ?thesis
    unfolding year_in_front_def using p
    by (auto intro!: steps number_step [OF t] look_step [OF t] simp: pos_def extra_def isdigit_def)
qed

lemma day3164_ok:
  assumes t: "text_ok buf n" and p: "pos n e p len"
  shows "yields (\<lambda>(d, p, len). 1 \<le> d \<and> d \<le> 31 \<and> pos n e p len) (day3164 buf p len)"
proof -
  have sp: "pos n e (Suc q) (l - 1)" if "pos n e q l" "buf ! q = 32" for q l
    using next_pos [OF t that(1)] that by simp
  have le: "q \<le> n" if "pos n e q l" for q l using that by (simp add: pos_def)
  show ?thesis
    unfolding day3164_def using p
    by (auto intro!: check_step number_step [OF t, of e] eat_step [OF t, of e] look_step [OF t] yields_accept sp
        dest: le split: prod.splits if_splits)
qed

lemma hour3164_ok:
  assumes t: "text_ok buf n" and p: "pos n e p len" and y: "y = 0 \<or> 1970 \<le> y \<and> y \<le> 2100"
  shows "yields (\<lambda>((y, h), p, len). (y = 0 \<or> 1970 \<le> y \<and> y \<le> 2100) \<and> 0 \<le> h \<and> h \<le> 23 \<and> pos n e p len)
     (hour3164 y buf p len)"
  unfolding hour3164_def using p y
  by (auto intro!: steps number_step [OF t, of e] eat_step [OF t, of e]
      yields_andThen [of "\<lambda>((y, h), p, len). (y = 0 \<or> 1970 \<le> y \<and> y \<le> 2100) \<and> pos n e p len"])

lemma tz_loop_ok:
  assumes t: "text_ok buf n" and p: "wpos n e p len"
  shows "\<exists>tz' p' len'. tz_loop buf p len tz = Some (tz', p', len') \<and> wpos n e p' len'"
  using p
proof (induction "nat len" arbitrary: p len tz rule: less_induct)
  case less
  show ?case
  proof (cases "0 < len \<and> length tz < 15 \<and> buf ! p \<noteq> 58 \<and> buf ! p \<noteq> 32")
    case True
    have "p < length buf" using True less.prems t by (auto simp: wpos_def text_ok_def ends_at_def)
    then have "tz_loop buf p len tz = tz_loop buf (Suc p) (len - 1) (tz @ [buf ! p])"
      using True by (subst tz_loop.simps) simp
    moreover have "wpos n e (Suc p) (len - 1)" using True less.prems by (simp add: wpos_def)
    ultimately show ?thesis using True less.hyps [of "len - 1" "Suc p" "tz @ [buf ! p]"] by simp
  next
    case False
    then have "tz_loop buf p len tz = Some (tz, p, len)"
      using less.prems t by (subst tz_loop.simps) (auto simp: wpos_def text_ok_def ends_at_def)
    then show ?thesis using less.prems by simp
  qed
qed

definition zone_in :: "tzinfo list \<Rightarrow> byte \<times> int \<times> int \<Rightarrow> bool" where
  "zone_in tzinfos z \<longleftrightarrow> z = (0, 0, 0) \<or> (\<exists>t \<in> set tzinfos. z = (offsMode t, offsHour t, offsMin t))"

lemma tz3164_ok:
  assumes t: "text_ok buf n" and p: "wpos n e p len"
  shows "yields (\<lambda>(z, p, len). zone_in tzs z \<and> wpos n e p len) (tz3164 tzs bParseTZ buf p len)"
proof -
  have loop: "yields (\<lambda>(tz, p, len). wpos n e p len) (map_option Inr (tz_loop buf (Suc p) (len - 1) []))"
    if "2 < len"
    using tz_loop_ok [OF t, of e "Suc p" "len - 1" "[]"] p that by (auto simp: wpos_def yields_def)
  have zone: "zone_in tzs (0, 0, 0)" by (simp add: zone_in_def)
  have found: "zone_in tzs (offsMode z, offsHour z, offsMin z)" if "glblFindTimezoneInfo tzs s = Some z" for s z
  proof -
    have "z \<in> set tzs" using that by (auto simp: glblFindTimezoneInfo_def find_Some_iff)
    then show ?thesis by (auto simp: zone_in_def)
  qed
  have "p \<le> n" if "2 < len" using p that by (simp add: wpos_def)
  then show ?thesis
    unfolding tz3164_def using p
    by (auto intro!: yields_if look_step [OF t] yields_accept zone found yields_andThen [OF loop]
        split: option.splits)
qed

lemma year_digits_ok:
  "p + 4 < length buf \<Longrightarrow> j \<le> 5 \<Longrightarrow> \<exists>y'. year_digits buf p j y = Some y'"
proof (induction "5 - j" arbitrary: j y)
  case 0
  then show ?case by (subst year_digits.simps) simp
next
  case (Suc k)
  then show ?case by (subst year_digits.simps) simp
qed

lemma year_behind_ok:
  assumes t: "text_ok buf n" and p: "wpos n e p len" and y: "y = 0 \<or> 1970 \<le> y \<and> y \<le> 2100"
  shows "yields (\<lambda>(y, p, len). (y = 0 \<or> 1970 \<le> y \<and> y \<le> 2100) \<and> wpos n e p len)
     (year_behind bY y buf p len)"
proof -
  have b: "p + 4 < length buf" "p \<le> n" if "5 < len"
    using t p that by (auto simp: wpos_def text_ok_def ends_at_def)
  have digits: "yields (\<lambda>_. True) (map_option Inr (year_digits buf p 1 0))" if "5 < len"
    using year_digits_ok [OF b(1) [OF that], of 1 0] by (auto simp: yields_def)
  have cell: "yields (\<lambda>_. True) (map_option Inr (map_option (\<lambda>c. if c \<noteq> 32 then 0 else y') (c_get buf (p + 5))))"
    if "6 < len" for y' :: int
    using t p that by (auto simp: wpos_def text_ok_def ends_at_def yields_def)
  have test: "yields (\<lambda>_. True) (if 6 < len then map_option Inr (map_option (\<lambda>c. if c \<noteq> 32 then 0 else y')
      (c_get buf (p + 5))) else accept y')" for y' :: int
    by (auto intro!: yields_if cell yields_accept)
  show ?thesis
    unfolding year_behind_def using p y
    by (auto intro!: yields_if look_step [OF t] b yields_accept yields_andThen [OF digits] yields_andThen [OF test]
        simp: wpos_def)
qed

definition zones_ok :: "tzinfo list \<Rightarrow> bool" where
  "zones_ok tzs \<longleftrightarrow> (\<forall>z \<in> set tzs. 0 \<le> offsHour z \<and> offsHour z \<le> 23 \<and> 0 \<le> offsMin z \<and> offsMin z \<le> 59)"

lemma update3164_ok:
  assumes "time_ok t" and "y = 0 \<or> 1970 \<le> y \<and> y \<le> 2100" "1 \<le> mo" "mo \<le> 12" "1 \<le> d" "d \<le> 31"
    and "0 \<le> h" "h \<le> 23" "0 \<le> mi" "mi \<le> 59" "0 \<le> s" "s \<le> 60" "0 \<le> f" "f \<le> 2147483647"
    and "zone_in tzs z" and "zones_ok tzs"
  shows "time_ok (update3164 t mo y d h mi s (f, prec) z)"
  using assms by (auto simp: time_ok_def intTiny_range update3164_def Let_def zone_in_def zones_ok_def)

lemma parse3164_ok:
  assumes t: "text_ok buf n" and p: "p \<le> n" and ok: "time_ok t" and tzs: "zones_ok tzs"
  shows "parsed_ok (\<lambda>t' p' len'. time_ok t' \<and> 0 \<le> len' \<and> int p' + len' = int n + extra buf p) t p (int n - int p)
     (ParseTIMESTAMP3164 tzs t buf p (int n - int p) bParseTZ bYear)"
proof -
  have "pos n 0 p (int n - int p)" using p by (simp add: pos_def)
  moreover have "pos n e (p' + 3) (len - 3)" if "pos n e p' len" "p' + 3 \<le> n" for e p' len
    using that by (simp add: pos_def)
  moreover have "q \<le> n" if "pos n e q l" for e q l using that by (simp add: pos_def)
  ultimately show ?thesis
    unfolding ParseTIMESTAMP3164_def
    apply (intro finalize_ok check_step)
    apply (rule yields_andThen [OF year_in_front_ok [OF t]], assumption, clarify)
    apply (rule yields_andThen [OF month_ok [OF t]], blast, clarsimp simp: month_at_def)
    apply (rule yields_andThen [OF day3164_ok [OF t, of "extra buf p"]], simp, clarify)
    apply (rule yields_andThen [OF hour3164_ok [OF t, of "extra buf p"]], assumption, assumption, clarify)
    apply (rule yields_andThen [OF min_sec_ok [OF t]], assumption, clarify)
    apply (rule yields_andThen [OF secfrac_ok [OF t]], assumption, clarify)
    apply (rule yields_andThen [OF tz3164_ok [OF t pos_wpos]], assumption, clarify)
    apply (rule yields_andThen [OF year_behind_ok [OF t]], assumption, assumption, clarify)
    apply (rule yields_andThen [OF colon_ok [OF t]], assumption, clarify)
    apply (rule yields_andThen [OF space_ok [OF t]], assumption, clarify)
    apply (rule yields_accept, clarify)
    apply (intro conjI update3164_ok ok; (assumption | rule tzs | simp add: wpos_def))
    done
qed

section \<open>The parsers\<close>

text \<open>C33: Given a text that ends with its terminator, at any position in it and with no run of
  digits that overflows, both timestamp parsers never read outside the text; they either
  report an invalid time and change nothing, or return a timestamp all of whose fields are in
  their ranges, and a position in the text with the length that is left. The length behind a
  timestamp with a year in front is one too large.\<close>

theorem timestamps_stay_well_formed:
  assumes "ends_at buf n" and "digits_fit buf" and "p \<le> n" and "time_ok t" and "zones_ok tzs"
  shows "parsed_ok (\<lambda>t' p' len'. time_ok t' \<and> p' \<le> n \<and> int p' + len' = int n) t p (int n - int p)
      (ParseTIMESTAMP3339 t buf p (int n - int p))
    \<and> parsed_ok (\<lambda>t' p' len'. time_ok t' \<and> 0 \<le> len'
        \<and> int p' + len' = int n + (if isdigit (buf ! p) then 1 else 0)) t p (int n - int p)
      (ParseTIMESTAMP3164 tzs t buf p (int n - int p) bParseTZ bDetectYearAfterTime)"
  using parse3339_ok [of buf n p t] parse3164_ok [of buf n p t tzs bParseTZ bDetectYearAfterTime] assms
  by (simp add: text_ok_def extra_def)

lemma digits_fitI:
  assumes "\<And>i. i + 9 < length buf \<Longrightarrow> \<exists>j \<le> 9. \<not> isdigit (buf ! (i + j))"
  shows "digits_fit buf"
  unfolding digits_fit_def
proof (intro allI impI)
  fix i k
  assume k: "i + k < length buf \<and> (\<forall>j\<le>k. isdigit (buf ! (i + j)))"
  have "k < 9"
  proof (rule ccontr)
    assume "\<not> k < 9"
    then show False using assms [of i] k by (metis le_trans linorder_not_less nat_add_left_cancel_le order_le_less_trans)
  qed
  define ds where "ds = take k (drop i buf)"
  have ds: "length ds \<le> 8" using \<open>k < 9\<close> k by (simp add: ds_def)
  have dig: "\<forall>d \<in> set ds. isdigit d" using k by (auto simp: ds_def in_set_conv_nth)
  have "dval 0 ds < 10 ^ length ds" using dig
  proof (induction ds rule: rev_induct)
    case (snoc d ds)
    then have "uint d \<le> 57" "dval 0 ds < 10 ^ length ds" by (simp_all add: isdigit_uint)
    then show ?case by (simp add: dval_snoc)
  qed (simp add: dval_def)
  also have "(10 :: int) ^ length ds \<le> 10 ^ 8" by (rule power_increasing) (use ds in simp_all)
  finally show "dval 0 (take k (drop i buf)) \<notin> {214748360..214748362}" by (simp add: ds_def)
qed

definition time_ex :: syslogTime where
  "time_ex = \<lparr>timeType = 1, month = 10, day = 11, hour = 22, minute = 14, second = 15, secfracPrecision = 3,
     OffsetMinute = 0, OffsetHour = 2, OffsetMode = 43, year = 2003, secfrac = 3, inUTC = 0\<rparr>"

definition date_ex :: "byte list" where
  "date_ex = [74, 97, 110, 32, 32, 49, 32, 48, 49, 58, 48, 50, 58, 48, 51, 0]"

lemma date_ex_ok: "ends_at date_ex 15" "digits_fit date_ex" "time_ok time_ex" "zones_ok []"
proof -
  show "digits_fit date_ex"
  proof (rule digits_fitI)
    fix i assume "i + 9 < length date_ex"
    then have "i < 7" by (simp add: date_ex_def)
    then consider "i \<le> 3" | "3 < i" "i \<le> 6" by linarith
    then show "\<exists>j \<le> 9. \<not> isdigit (date_ex ! (i + j))"
    proof cases
      case 1
      then show ?thesis by (intro exI [of _ "3 - i"]) (simp add: date_ex_def isdigit_def)
    next
      case 2
      then show ?thesis by (intro exI [of _ "9 - i"]) (simp add: date_ex_def isdigit_def)
    qed
  qed
qed (simp_all add: ends_at_def date_ex_def time_ex_def time_ok_def zones_ok_def)

theorem timestamps_stay_well_formed_witness:
  "parsed_ok (\<lambda>t' p' len'. time_ok t' \<and> p' \<le> 15 \<and> int p' + len' = 15) time_ex 0 15
     (ParseTIMESTAMP3339 time_ex date_ex 0 15)"
  using timestamps_stay_well_formed [OF date_ex_ok(1,2) _ date_ex_ok(3,4), of 0] by simp

end
