(* ===== verification/DateFormat.thy ===== *)
theory DateFormat
  imports DateSafe "HOL-Library.Signed_Division" "HOL-Library.Sublist"
begin

text \<open>
  The printers of timestamps of runtime/datetime.c and their round trips through the parsers.
  A printer writes its buffer from the start without knowing its size: the model returns
  what it writes, terminator included, and its return value.
\<close>

section \<open>Printers\<close>

text \<open>The last digit of a number, \<open>x % 10 + '0'\<close>; division in C truncates.\<close>

definition dig :: "int \<Rightarrow> byte" where
  "dig x = word_of_int (x smod 10 + 48)"

definition two :: "int \<Rightarrow> byte list" where
  "two x = [dig (x sdiv 10), dig x]"

definition four :: "int \<Rightarrow> byte list" where
  "four x = [dig (x sdiv 1000), dig (x sdiv 100), dig (x sdiv 10), dig x]"

definition formatTimestampToMySQL :: "syslogTime \<Rightarrow> byte list \<times> int" where
  "formatTimestampToMySQL ts =
     (four (year ts) @ two (month ts) @ two (day ts) @ two (hour ts) @ two (minute ts) @ two (second ts)
      @ [0], 15)"

definition formatTimestampToPgSQL :: "syslogTime \<Rightarrow> byte list \<times> int" where
  "formatTimestampToPgSQL ts =
     (four (year ts) @ [45] @ two (month ts) @ [45] @ two (day ts) @ [32]
      @ two (hour ts) @ [58] @ two (minute ts) @ [58] @ two (second ts) @ [0], 19)"

definition tenPowers :: "int list" where
  "tenPowers = [1, 10, 100, 1000, 10000, 100000]"

text \<open>The loop over the digits of the fraction; \<open>digit\<close> is a \<open>short\<close>.\<close>

function frac_digits :: "int \<Rightarrow> int \<Rightarrow> byte list option" where
  "frac_digits pw sf =
     (if pw > 0 then do {
        let digit = c_short (sf sdiv pw);
        prod \<leftarrow> c_int (digit * pw);
        sf \<leftarrow> c_int (sf - prod);
        ds \<leftarrow> frac_digits (pw sdiv 10) sf;
        Some (word_of_int (digit + 48) # ds)
      } else Some [])"
  by pat_completeness auto
termination by (relation "measure (\<lambda>(pw, sf). nat pw)") (auto simp: signed_divide_int_def)

declare frac_digits.simps [simp del]

definition fraction :: "syslogTime \<Rightarrow> byte list option" where
  "fraction ts = do {
     pw \<leftarrow> c_get tenPowers (nat ((secfracPrecision ts - 1) smod 6));
     frac_digits pw (secfrac ts)
   }"

definition formatTimestampSecFrac :: "syslogTime \<Rightarrow> (byte list \<times> int) option" where
  "formatTimestampSecFrac ts = do {
     ds \<leftarrow> (if secfracPrecision ts > 0 then fraction ts else Some [48]);
     Some (ds @ [0], int (length ds))
   }"

definition zone_text :: "syslogTime \<Rightarrow> byte list" where
  "zone_text ts =
     (if OffsetMode ts = 90 then [90]
      else [OffsetMode ts] @ two (OffsetHour ts) @ [58] @ two (OffsetMinute ts))"

definition formatTimestamp3339 :: "syslogTime \<Rightarrow> (byte list \<times> int) option" where
  "formatTimestamp3339 ts = do {
     let fixed = four (year ts) @ [45] @ two (month ts) @ [45] @ two (day ts) @ [84]
       @ two (hour ts) @ [58] @ two (minute ts) @ [58] @ two (second ts);
     frac \<leftarrow> (if secfracPrecision ts > 0 then map_option (\<lambda>ds. 46 # ds) (fraction ts) else Some []);
     let buf = fixed @ frac @ zone_text ts;
     Some (buf @ [0], int (length buf))
   }"

definition monthNames :: "byte list list" where
  "monthNames = [lit ''Jan'', lit ''Feb'', lit ''Mar'', lit ''Apr'', lit ''May'', lit ''Jun'',
     lit ''Jul'', lit ''Aug'', lit ''Sep'', lit ''Oct'', lit ''Nov'', lit ''Dec'']"

text \<open>A month below 1 would index in front of the table.\<close>

definition formatTimestamp3164 :: "syslogTime \<Rightarrow> bool \<Rightarrow> (byte list \<times> int) option" where
  "formatTimestamp3164 ts bBuggyDay = do {
     _ \<leftarrow> c_guard (0 \<le> (month ts - 1) smod 12);
     m \<leftarrow> c_get monthNames (nat ((month ts - 1) smod 12));
     let iDay = day ts sdiv 10 smod 10;
     Some (m @ [32, if bBuggyDay \<or> iDay > 0 then word_of_int (iDay + 48) else 32, dig (day ts), 32]
       @ two (hour ts) @ [58] @ two (minute ts) @ [58] @ two (second ts) @ [0], 16)
   }"

section \<open>Numbers of fixed width\<close>

lemma smod_pos: "0 \<le> x \<Longrightarrow> x smod 10 = x mod (10 :: int)"
  by (cases "x = 0") (simp_all add: signed_modulo_int_def)

lemma sdiv_pos: "0 \<le> x \<Longrightarrow> 0 < k \<Longrightarrow> x sdiv k = x div (k :: int)"
  by (cases "x = 0") (simp_all add: signed_divide_int_def)

lemma uint_char: "0 \<le> d \<Longrightarrow> d \<le> 9 \<Longrightarrow> uint (word_of_int (d + 48) :: byte) = d + 48"
  by (simp add: unsigned_of_int take_bit_int_eq_self del: of_int_add)

lemma uint_dig: "0 \<le> x \<Longrightarrow> uint (dig x) = x mod 10 + 48"
  using pos_mod_bound [of 10 x] by (simp add: dig_def smod_pos uint_char del: of_int_add)

lemma dig_digit: "0 \<le> x \<Longrightarrow> isdigit (dig x)"
  using pos_mod_bound [of 10 x] by (auto simp: isdigit_uint uint_dig)

lemma two_ok:
  assumes "0 \<le> x" "x < 100"
  shows "length (two x) = 2" "\<forall>c \<in> set (two x). isdigit c" "dval 0 (two x) = x"
proof -
  show "length (two x) = 2" by (simp add: two_def)
  show "\<forall>c \<in> set (two x). isdigit c" using assms by (simp add: two_def dig_digit sdiv_pos)
  have "x div 10 mod 10 = x div 10" using assms by simp
  then have "x div 10 mod 10 * 10 + x mod 10 = x" by (simp only: div_mult_mod_eq)
  then show "dval 0 (two x) = x" using assms by (simp add: two_def dval_def uint_dig sdiv_pos)
qed

lemma four_ok:
  assumes "0 \<le> x" "x < 10000"
  shows "length (four x) = 4" "\<forall>c \<in> set (four x). isdigit c" "dval 0 (four x) = x"
proof -
  show "length (four x) = 4" by (simp add: four_def)
  show "\<forall>c \<in> set (four x). isdigit c" using assms by (simp add: four_def dig_digit sdiv_pos)
  have "((x div 1000 mod 10 * 10 + x div 100 mod 10) * 10 + x div 10 mod 10) * 10 + x mod 10 = x"
  proof -
    have "x div 1000 = x div 100 div 10" using zdiv_zmult2_eq [of 10 x 100] by simp
    then have "x div 1000 mod 10 = x div 100 div 10" using assms by simp
    then have s1: "x div 1000 mod 10 * 10 + x div 100 mod 10 = x div 100" by (simp only: div_mult_mod_eq)
    have e: "x div 100 = x div 10 div 10" using zdiv_zmult2_eq [of 10 x 10] by simp
    have s2: "x div 100 * 10 + x div 10 mod 10 = x div 10" unfolding e by (rule div_mult_mod_eq)
    show ?thesis by (simp only: s1 s2 div_mult_mod_eq)
  qed
  moreover have "uint (dig (x sdiv 1000)) = x div 1000 mod 10 + 48" "uint (dig (x sdiv 100)) = x div 100 mod 10 + 48"
    "uint (dig (x sdiv 10)) = x div 10 mod 10 + 48" "uint (dig x) = x mod 10 + 48"
    using assms by (simp_all only: uint_dig sdiv_pos pos_imp_zdiv_nonneg_iff zero_less_numeral)
  ultimately show "dval 0 (four x) = x"
    by (simp only: four_def dval_def foldl_Cons foldl_Nil add_diff_cancel_right' mult_zero_left add_0)
qed

lemma dval_acc: "dval a xs = a * 10 ^ length xs + dval 0 xs"
proof (induction xs arbitrary: a)
  case (Cons x xs)
  then have "dval (a * 10 + (uint x - 48)) xs = (a * 10 + (uint x - 48)) * 10 ^ length xs + dval 0 xs"
    "dval (uint x - 48) xs = (uint x - 48) * 10 ^ length xs + dval 0 xs" by blast+
  then show ?case by (simp add: dval_Cons algebra_simps)
qed (simp add: dval_def)

lemma frac_ok:
  "k \<le> 5 \<Longrightarrow> 0 \<le> f \<Longrightarrow> f < 10 ^ Suc k \<Longrightarrow>
   \<exists>ds. frac_digits (10 ^ k) f = Some ds \<and> length ds = Suc k \<and> (\<forall>c \<in> set ds. isdigit c) \<and> dval 0 ds = f"
proof (induction k arbitrary: f)
  case 0
  then show ?case
    by (auto simp: frac_digits.simps [of 1] frac_digits.simps [of 0] sdiv_pos isdigit_uint
        uint_char dval_def simp del: of_int_add)
next
  case (Suc k)
  define d where "d = f div 10 ^ Suc k"
  have m: "f - d * 10 ^ Suc k = f mod 10 ^ Suc k" by (simp add: d_def minus_div_mult_eq_mod)
  have "0 \<le> d" using Suc.prems by (simp add: d_def pos_imp_zdiv_nonneg_iff)
  moreover have "\<not> 10 \<le> d"
  proof
    assume "10 \<le> d"
    then have "10 * 10 ^ Suc k \<le> d * 10 ^ Suc k" by (intro mult_right_mono) auto
    moreover have "f < 10 * 10 ^ Suc k" "0 \<le> f mod 10 ^ Suc k" using Suc.prems(3) by simp_all
    ultimately show False using m by linarith
  qed
  ultimately have d: "0 \<le> d" "d \<le> 9" by simp_all
  have r: "0 \<le> f mod 10 ^ Suc k" "f mod 10 ^ Suc k < 10 ^ Suc k" by simp_all
  have "(10 :: int) ^ Suc k \<le> 10 ^ 5" by (rule power_increasing) (use Suc.prems in auto)
  then have b: "(10 :: int) ^ Suc k \<le> 100000" by (simp del: power_Suc)
  obtain ds where ds: "frac_digits (10 ^ k) (f mod 10 ^ Suc k) = Some ds" "length ds = Suc k"
      "\<forall>c \<in> set ds. isdigit c" "dval 0 ds = f mod 10 ^ Suc k"
    using Suc.IH [OF _ r] Suc.prems by auto
  have "d * 10 ^ Suc k \<le> 9 * 100000" using d b by (intro mult_mono) auto
  then have c: "c_int (d * 10 ^ Suc k) = Some (d * 10 ^ Suc k)" using d
    by (intro c_int_in) (auto simp del: power_Suc intro: order_trans [OF _ mult_nonneg_nonneg])
  have c': "c_int (f mod 10 ^ Suc k) = Some (f mod 10 ^ Suc k)" using r b by (intro c_int_in) linarith+
  have sd: "f sdiv 10 ^ Suc k = d" using Suc.prems by (simp add: d_def sdiv_pos)
  have nx: "10 ^ Suc k sdiv 10 = (10 :: int) ^ k" by (simp add: sdiv_pos)
  have "frac_digits (10 ^ Suc k) f = Some (word_of_int (d + 48) # ds)"
    using d by (subst frac_digits.simps) (simp add: sd nx c c' m ds(1) del: power_Suc)
  moreover have u: "uint (word_of_int (d + 48) :: byte) = d + 48"
    using d by (rule uint_char)
  moreover have "dval 0 (word_of_int (d + 48) # ds) = f"
  proof -
    have "dval 0 (word_of_int (d + 48) # ds) = dval d ds" by (simp only: dval_Cons u) simp
    also have "\<dots> = d * 10 ^ Suc k + f mod 10 ^ Suc k" using dval_acc [of d ds] ds(2,4) by simp
    also have "\<dots> = f" using m by linarith
    finally show ?thesis .
  qed
  ultimately show ?case using d ds(2,3) by (auto simp: isdigit_uint)
qed

section \<open>Reading what is there\<close>

text \<open>The text from the parse pointer on.\<close>

definition rest :: "byte list \<Rightarrow> nat \<Rightarrow> byte list \<Rightarrow> bool" where
  "rest buf p xs \<longleftrightarrow> p + length xs = length buf \<and> drop p buf = xs"

lemma rest_Cons: "rest buf p (x # xs) \<Longrightarrow> c_get buf p = Some x \<and> rest buf (Suc p) xs"
  by (auto simp: rest_def c_get_eq_Some drop_Suc nth_via_drop simp flip: tl_drop)

lemma rest_append: "rest buf p (xs @ ys) \<Longrightarrow> rest buf (p + length xs) ys"
  by (simp add: rest_def add.commute [of p] flip: drop_drop)

lemma andThen_accept [simp]: "andThen (accept x) f = f x"
  by (simp add: andThen_def accept_def)

lemma check_True [simp]: "check True = accept ()"
  by (simp add: check_def)

lemma look_rest: "rest buf p (x # xs) \<Longrightarrow> look buf p = accept x"
  using rest_Cons [of buf p x xs] by (simp add: look_def accept_def)

lemma eat_rest: "rest buf p (c # xs) \<Longrightarrow> len \<noteq> 0 \<Longrightarrow> eat buf p len c = accept (Suc p, len - 1)"
  by (simp add: eat_def look_rest)

text \<open>A number ends where the length does or at another character.\<close>

definition number_ends :: "int \<Rightarrow> byte list \<Rightarrow> bool" where
  "number_ends len xs \<longleftrightarrow> len = 0 \<or> 0 < len \<and> xs \<noteq> [] \<and> \<not> isdigit (hd xs)"

lemma parse_digits_read:
  "\<lbrakk>rest buf p (ds @ xs); \<forall>c \<in> set ds. isdigit c; 0 \<le> i; i < 10 ^ k; k + length ds \<le> 9;
    number_ends (len - int (length ds)) xs\<rbrakk>
   \<Longrightarrow> parse_digits buf p len i = Some (dval i ds, p + length ds, len - int (length ds))"
proof (induction ds arbitrary: p len i k)
  case Nil
  show ?case
  proof (cases xs)
    case (Cons x ys)
    then show ?thesis using Nil rest_Cons [of buf p x ys]
      by (subst parse_digits.simps) (auto simp: number_ends_def isdigit_def dval_def)
  qed (use Nil in \<open>subst parse_digits.simps; simp add: number_ends_def dval_def\<close>)
next
  case (Cons d ds)
  have r: "c_get buf p = Some d" "rest buf (Suc p) (ds @ xs)" using rest_Cons [of buf p d "ds @ xs"] Cons.prems by auto
  have "isdigit d" using Cons.prems by simp
  then have d: "48 \<le> uint d" "uint d \<le> 57" "48 \<le> d" "d \<le> 57"
    unfolding isdigit_uint by (simp_all add: word_le_def)
  have "(10 :: int) ^ k \<le> 10 ^ 8" using Cons.prems(5) by (intro power_increasing) auto
  then have i: "i < 100000000" using Cons.prems(4) by simp
  have l: "0 < len" using Cons.prems(6) by (auto simp: number_ends_def)
  have "parse_digits buf (Suc p) (len - 1) (i * 10 + uint d - 48)
      = Some (dval (i * 10 + uint d - 48) ds, Suc p + length ds, len - 1 - int (length ds))"
    by (rule Cons.IH [OF r(2), of _ "Suc k"]) (use Cons.prems d in \<open>auto simp: algebra_simps\<close>)
  moreover have "parse_digits buf p len i = parse_digits buf (Suc p) (len - 1) (i * 10 + uint d - 48)"
    using l r(1) d i Cons.prems(3) by (subst parse_digits.simps) simp
  ultimately show ?case by (simp add: dval_Cons add_diff_eq)
qed

lemma number_read:
  "\<lbrakk>rest buf p (ds @ xs); \<forall>c \<in> set ds. isdigit c; length ds \<le> 9; number_ends (len - int (length ds)) xs\<rbrakk>
   \<Longrightarrow> srSLMGParseInt32 buf p len = accept (dval 0 ds, p + length ds, len - int (length ds))"
  using parse_digits_read [of buf p ds xs 0 0 len] by (simp add: srSLMGParseInt32_def accept_def)

text \<open>The position of the last part of a text.\<close>

definition at :: "byte list \<Rightarrow> byte list \<Rightarrow> nat" where
  "at buf xs = length buf - length xs"

lemma rest_at: "suffix xs buf \<Longrightarrow> rest buf (at buf xs) xs"
  by (auto simp: rest_def at_def suffix_def)

lemma at_rest: "rest buf p xs \<Longrightarrow> p = at buf xs \<and> suffix xs buf"
  by (auto simp: rest_def at_def suffix_drop)

lemma suffix_next: "suffix (c # xs) buf \<Longrightarrow> suffix xs buf"
  by (metis suffix_ConsD2 suffix_def append_Cons suffix_order.trans suffix_order.refl suffix_Cons)

lemma look_at: "suffix (c # xs) buf \<Longrightarrow> look buf (at buf (c # xs)) = accept c"
  by (rule look_rest [OF rest_at])

lemma Suc_at: "suffix (c # xs) buf \<Longrightarrow> Suc (at buf (c # xs)) = at buf xs"
  by (auto simp: at_def suffix_def)

lemma at_end: "suffix xs buf \<Longrightarrow> at buf xs + length xs = length buf"
  by (auto simp: at_def suffix_def)

lemma eat_at: "suffix (c # xs) buf \<Longrightarrow> len \<noteq> 0 \<Longrightarrow> eat buf (at buf (c # xs)) len c = accept (at buf xs, len - 1)"
  by (simp add: eat_rest [OF rest_at] Suc_at)

lemma number_at:
  assumes "suffix (ds @ xs) buf" and "\<forall>c \<in> set ds. isdigit c" "length ds \<le> 9"
    and "number_ends (len - int (length ds)) xs"
  shows "srSLMGParseInt32 buf (at buf (ds @ xs)) len = accept (dval 0 ds, at buf xs, len - int (length ds))"
proof -
  have "at buf (ds @ xs) + length ds = at buf xs" using assms(1) by (auto simp: at_def suffix_def)
  then show ?thesis using number_read [OF rest_at [OF assms(1)] assms(2-4)] by simp
qed

lemma two_at:
  "\<lbrakk>suffix (two x @ xs) buf; 0 \<le> x; x < 100; number_ends (len - 2) xs\<rbrakk>
   \<Longrightarrow> srSLMGParseInt32 buf (at buf (two x @ xs)) len = accept (x, at buf xs, len - 2)"
  using number_at [of "two x" xs buf len] two_ok [of x] by simp

lemma four_at:
  "\<lbrakk>suffix (four x @ xs) buf; 0 \<le> x; x < 10000; number_ends (len - 4) xs\<rbrakk>
   \<Longrightarrow> srSLMGParseInt32 buf (at buf (four x @ xs)) len = accept (x, at buf xs, len - 4)"
  using number_at [of "four x" xs buf len] four_ok [of x] by simp

lemma ends_char: "0 < len \<Longrightarrow> \<not> isdigit c \<Longrightarrow> number_ends len (c # xs)"
  by (simp add: number_ends_def)

lemma seps [simp]: "\<not> isdigit 45" "\<not> isdigit 58" "\<not> isdigit 84" "\<not> isdigit 46" "\<not> isdigit 32" "\<not> isdigit 0"
    "\<not> isdigit 90" "\<not> isdigit 43"
  by (simp_all add: isdigit_def)

lemmas reads = four_at two_at eat_at look_at ends_char

lemma date_read:
  assumes "suffix (four y @ 45 # two mo @ 45 # two d @ 84 # xs) buf" and "11 \<le> len"
    and "0 \<le> y" "y < 2100" "1 \<le> mo" "mo \<le> 12" "1 \<le> d" "d \<le> 31"
  shows "suffix xs buf" "date3339 buf (at buf (four y @ 45 # two mo @ 45 # two d @ 84 # xs)) len
     = accept ((y, mo, d), at buf xs, len - 11)"
proof -
  note s1 = suffix_appendD [OF assms(1)] note s2 = suffix_next [OF s1] note s3 = suffix_appendD [OF s2]
  note s4 = suffix_next [OF s3] note s5 = suffix_appendD [OF s4]
  show "suffix xs buf" by (rule suffix_next [OF s5])
  show "date3339 buf (at buf (four y @ 45 # two mo @ 45 # two d @ 84 # xs)) len
     = accept ((y, mo, d), at buf xs, len - 11)"
    using assms(2-) unfolding date3339_def by (simp add: reads assms(1) s1 s2 s3 s4 s5)
qed

lemma min_sec_read:
  assumes "suffix (58 # two mi @ 58 # two s @ xs) buf" and "number_ends (len - 6) xs" "6 \<le> len"
    and "0 \<le> mi" "mi \<le> 59" "0 \<le> s" "s \<le> 60"
  shows "suffix xs buf" "min_sec buf (at buf (58 # two mi @ 58 # two s @ xs)) len = accept ((mi, s), at buf xs, len - 6)"
proof -
  note s2 = suffix_next [OF assms(1)] note s3 = suffix_appendD [OF s2] note s4 = suffix_next [OF s3]
  show "suffix xs buf" by (rule suffix_appendD [OF s4])
  show "min_sec buf (at buf (58 # two mi @ 58 # two s @ xs)) len = accept ((mi, s), at buf xs, len - 6)"
    using assms(2-) unfolding min_sec_def by (simp add: reads assms(1) s2 s3 s4)
qed

lemma time_read:
  assumes "suffix (two h @ 58 # two mi @ 58 # two s @ xs) buf" and "number_ends (len - 8) xs" "8 \<le> len"
    and "0 \<le> h" "h \<le> 23" "0 \<le> mi" "mi \<le> 59" "0 \<le> s" "s \<le> 60"
  shows "suffix xs buf" "time3339 buf (at buf (two h @ 58 # two mi @ 58 # two s @ xs)) len
     = accept ((h, mi, s), at buf xs, len - 8)"
proof -
  note s1 = suffix_appendD [OF assms(1)]
  show "suffix xs buf" by (rule min_sec_read(1) [OF s1, of "len - 2"]) (use assms(2-) in simp_all)
  show "time3339 buf (at buf (two h @ 58 # two mi @ 58 # two s @ xs)) len = accept ((h, mi, s), at buf xs, len - 8)"
    using assms(2-) unfolding time3339_def by (simp add: reads assms(1) min_sec_read(2) s1)
qed

lemma secfrac_none:
  "(0 < len \<Longrightarrow> suffix (c # xs) buf \<and> c \<noteq> 46 \<and> zs = c # xs)
   \<Longrightarrow> parse_secfrac buf (at buf zs) len = accept ((0, 0), at buf zs, len)"
  by (auto simp: parse_secfrac_def look_at)

lemma secfrac_some:
  assumes "suffix (46 # ds @ xs) buf" and "\<forall>c \<in> set ds. isdigit c" "length ds \<le> 9"
    and "number_ends (len - 1 - int (length ds)) xs" "0 < len"
  shows "parse_secfrac buf (at buf (46 # ds @ xs)) len
     = accept ((dval 0 ds, int (length ds)), at buf xs, len - 1 - int (length ds))"
proof -
  have "int (at buf xs) - int (at buf (ds @ xs)) = int (length ds)"
    using suffix_next [OF assms(1)] by (auto simp: at_def suffix_def)
  then show ?thesis
    using assms unfolding parse_secfrac_def
    by (simp add: look_at Suc_at number_at suffix_next)
qed

definition zone_len :: "syslogTime \<Rightarrow> int" where
  "zone_len t = int (length (zone_text t))"

definition zone_valid :: "syslogTime \<Rightarrow> bool" where
  "zone_valid t \<longleftrightarrow> OffsetMode t = 90 \<and> OffsetHour t = 0 \<and> OffsetMinute t = 0 \<or> OffsetMode t \<in> {43, 45}"

lemma zone_read:
  assumes "suffix (zone_text t @ xs) buf" and "number_ends (len - zone_len t) xs" "zone_len t \<le> len"
    and "time_ok t" "zone_valid t"
  shows "zone3339 buf (at buf (zone_text t @ xs)) len
     = accept ((OffsetMode t, OffsetHour t, OffsetMinute t), at buf xs, len - zone_len t)"
proof (cases "OffsetMode t = 90")
  case True
  then show ?thesis using assms
    by (auto simp: zone3339_def zone_text_def zone_len_def zone_valid_def look_at Suc_at)
next
  case False
  have "suffix (OffsetMode t # two (OffsetHour t) @ 58 # two (OffsetMinute t) @ xs) buf"
    using assms(1) False by (simp add: zone_text_def)
  note s1 = this suffix_next [OF this] note s2 = suffix_appendD [OF s1(2)]
  note s3 = suffix_next [OF s2]
  have z: "zone_text t @ xs = OffsetMode t # two (OffsetHour t) @ 58 # two (OffsetMinute t) @ xs"
    "zone_len t = 6" using False by (simp_all add: zone_text_def zone_len_def two_def)
  show ?thesis
    using assms(2-) False unfolding z zone3339_def
    by (auto simp: reads Suc_at s1 s2 s3 time_ok_def zone_valid_def)
qed

lemma space_read:
  "suffix xs buf \<Longrightarrow> len = 0 \<or> 0 < len \<and> xs = 32 # ys \<Longrightarrow>
   skip_space buf (at buf xs) len = accept (at buf xs + (if 0 < len then 1 else 0), len - (if 0 < len then 1 else 0))"
  by (auto simp: skip_space_def look_at)

section \<open>Round trips\<close>

text \<open>A fraction of at most six digits.\<close>

definition frac_valid :: "syslogTime \<Rightarrow> bool" where
  "frac_valid t \<longleftrightarrow> 0 \<le> secfracPrecision t \<and> secfracPrecision t \<le> 6
     \<and> secfrac t < 10 ^ nat (secfracPrecision t)"

lemma tenPowers_ok: "k < 6 \<Longrightarrow> c_get tenPowers k = Some (10 ^ k)"
  by (auto simp: tenPowers_def less_Suc_eq numeral_eq_Suc c_get_def)

lemma fraction_ok:
  assumes "frac_valid t" and "0 < secfracPrecision t" and "0 \<le> secfrac t"
  shows "\<exists>ds. fraction t = Some ds \<and> int (length ds) = secfracPrecision t \<and> (\<forall>c \<in> set ds. isdigit c)
     \<and> dval 0 ds = secfrac t"
proof -
  define k where "k = nat (secfracPrecision t - 1)"
  have k: "k \<le> 5" "secfracPrecision t = int (Suc k)" "nat (secfracPrecision t) = Suc k"
    using assms by (auto simp: frac_valid_def k_def)
  have "(secfracPrecision t - 1) smod 6 = int k"
    using k by (simp add: signed_modulo_int_def sgn_if)
  then have "fraction t = frac_digits (10 ^ k) (secfrac t)"
    using k by (simp add: fraction_def tenPowers_ok)
  moreover obtain ds where "frac_digits (10 ^ k) (secfrac t) = Some ds" "length ds = Suc k"
      "\<forall>c \<in> set ds. isdigit c" "dval 0 ds = secfrac t"
    using frac_ok [of k "secfrac t"] k assms by (auto simp: frac_valid_def)
  ultimately show ?thesis using k by auto
qed

text \<open>The text of a fraction is read as the fraction, whatever follows it.\<close>

definition reads_frac :: "syslogTime \<Rightarrow> byte list \<Rightarrow> bool" where
  "reads_frac t fs \<longleftrightarrow> (\<forall>buf c xs len. suffix (fs @ c # xs) buf \<and> \<not> isdigit c \<and> c \<noteq> 46 \<and> int (length fs) < len
     \<longrightarrow> parse_secfrac buf (at buf (fs @ c # xs)) len
        = accept ((secfrac t, secfracPrecision t), at buf (c # xs), len - int (length fs)))"

lemma secfrac_read:
  assumes "frac_valid t" and "time_ok t"
  obtains fs where "(if secfracPrecision t > 0 then map_option (\<lambda>ds. 46 # ds) (fraction t) else Some []) = Some fs"
    and "length fs \<le> 7" and "reads_frac t fs"
proof (cases "secfracPrecision t > 0")
  case True
  then obtain ds where ds: "fraction t = Some ds" "int (length ds) = secfracPrecision t"
      "\<forall>c \<in> set ds. isdigit c" "dval 0 ds = secfrac t"
    using fraction_ok [OF assms(1) True] assms by (auto simp: time_ok_def)
  have "reads_frac t (46 # ds)"
    unfolding reads_frac_def
  proof (intro allI impI)
    fix buf c xs len
    assume "suffix ((46 # ds) @ c # xs) buf \<and> \<not> isdigit c \<and> c \<noteq> 46 \<and> int (length (46 # ds)) < len"
    then show "parse_secfrac buf (at buf ((46 # ds) @ c # xs)) len
        = accept ((secfrac t, secfracPrecision t), at buf (c # xs), len - int (length (46 # ds)))"
      using secfrac_some [of ds "c # xs" buf len] ds assms(1)
      by (simp add: frac_valid_def ends_char algebra_simps)
  qed
  then show ?thesis using ds True assms by (intro that [of "46 # ds"]) (auto simp: frac_valid_def)
next
  case False
  then have "secfrac t = 0" "secfracPrecision t = 0" using assms by (auto simp: frac_valid_def time_ok_def)
  then show ?thesis using secfrac_none by (intro that [of "[]"]) (auto simp: reads_frac_def)
qed

lemma accept_finalize [simp]: "finalize t p len (accept (t', p', len')) = Some (RS_RET_OK, t', p', len')"
  by (simp add: finalize_def accept_def)

lemma zone_head: "zone_valid t \<Longrightarrow> \<exists>c z. zone_text t = c # z \<and> c \<in> {43, 45, 90}"
  by (auto simp: zone_text_def zone_valid_def)

lemma syslogTime_update:
  "t0\<lparr>timeType := 2, year := year t, month := month t, day := day t, hour := hour t, minute := minute t,
     second := second t, secfrac := secfrac t, secfracPrecision := secfracPrecision t,
     OffsetMode := OffsetMode t, OffsetHour := OffsetHour t, OffsetMinute := OffsetMinute t\<rparr>
   = t\<lparr>timeType := 2, inUTC := inUTC t0\<rparr>"
  for t t0 :: syslogTime
  by (rule syslogTime.equality) simp_all

lemma number_ends_tail: "len = 0 \<or> 0 < len \<and> xs = 32 # ys \<Longrightarrow> number_ends len xs"
  by (auto simp: number_ends_def)

definition stamp3339 :: "syslogTime \<Rightarrow> byte list \<Rightarrow> byte list" where
  "stamp3339 t fs = four (year t) @ 45 # two (month t) @ 45 # two (day t) @ 84
      # two (hour t) @ 58 # two (minute t) @ 58 # two (second t) @ fs @ zone_text t"

lemma parse_stamp3339:
  assumes t: "time_ok t" "year t < 2100" "zone_valid t"
    and fs: "reads_frac t fs"
    and hd: "fs = [] \<or> hd fs = 46"
    and prec: "intTiny (secfracPrecision t) = secfracPrecision t"
    and buf: "suffix (stamp3339 t fs @ tail) buf"
    and tail: "n = 0 \<or> 0 < n \<and> tail = 32 # ys"
  shows "ParseTIMESTAMP3339 t0 buf (at buf (stamp3339 t fs @ tail)) (19 + int (length fs) + zone_len t + n)
     = Some (RS_RET_OK, t\<lparr>timeType := 2, inUTC := inUTC t0\<rparr>,
         at buf tail + (if 0 < n then 1 else 0), n - (if 0 < n then 1 else 0))"
proof -
  obtain c z where z: "zone_text t = c # z" "c \<in> {43, 45, 90}" using zone_head [OF t(3)] by blast
  have e: "stamp3339 t fs @ tail = four (year t) @ 45 # two (month t) @ 45 # two (day t) @ 84
      # two (hour t) @ 58 # two (minute t) @ 58 # two (second t) @ fs @ c # z @ tail"
    using z by (simp add: stamp3339_def)
  have ok: "year t \<ge> 0" "1 \<le> month t" "month t \<le> 12" "1 \<le> day t" "day t \<le> 31" "0 \<le> hour t" "hour t \<le> 23"
      "0 \<le> minute t" "minute t \<le> 59" "0 \<le> second t" "second t \<le> 60"
    using t(1) by (simp_all add: time_ok_def)
  define L where "L = 19 + int (length fs) + zone_len t + n"
  have L: "L = 19 + int (length fs) + zone_len t + n" "0 \<le> n" "1 \<le> zone_len t" "0 \<le> zone_len t"
    using tail by (auto simp: L_def zone_len_def zone_text_def)
  have nz: "number_ends (L - 19) (fs @ c # z @ tail)"
    using L(1-3) z(2) hd by (cases fs) (auto simp: number_ends_def)
  have s1: "suffix (two (hour t) @ 58 # two (minute t) @ 58 # two (second t) @ fs @ c # z @ tail) buf"
    by (rule date_read(1) [OF buf [unfolded e], of L]) (use L ok t(2) in simp_all)
  have s2: "suffix (fs @ c # z @ tail) buf"
    by (rule time_read(1) [OF s1, of "L - 11"]) (use nz L ok in simp_all)
  have s3: "suffix (zone_text t @ tail) buf" using suffix_appendD [OF s2] z(1) by simp
  have run_date: "date3339 buf (at buf (stamp3339 t fs @ tail)) L = accept ((year t, month t, day t),
        at buf (two (hour t) @ 58 # two (minute t) @ 58 # two (second t) @ fs @ c # z @ tail), L - 11)"
    unfolding e by (rule date_read(2) [OF buf [unfolded e]]) (use L ok t(2) in simp_all)
  have run_time: "time3339 buf (at buf (two (hour t) @ 58 # two (minute t) @ 58 # two (second t) @ fs @ c # z @ tail))
        (L - 11) = accept ((hour t, minute t, second t), at buf (fs @ c # z @ tail), L - 19)"
    using time_read(2) [OF s1, of "L - 11"] nz L ok by simp
  have run_frac: "parse_secfrac buf (at buf (fs @ c # z @ tail)) (L - 19)
        = accept ((secfrac t, secfracPrecision t), at buf (zone_text t @ tail), zone_len t + n)"
    using fs s2 z L by (auto simp: reads_frac_def)
  have run_zone: "zone3339 buf (at buf (zone_text t @ tail)) (zone_len t + n)
        = accept ((OffsetMode t, OffsetHour t, OffsetMinute t), at buf tail, n)"
    using zone_read [OF s3, of "zone_len t + n"] number_ends_tail [OF tail] L t(1,3) by simp
  have tiny: "c_short (year t) = year t" "intTiny (month t) = month t" "intTiny (day t) = day t"
      "intTiny (hour t) = hour t" "intTiny (minute t) = minute t" "intTiny (second t) = second t"
      "intTiny (OffsetHour t) = OffsetHour t" "intTiny (OffsetMinute t) = OffsetMinute t"
    using t(1) by (simp_all add: time_ok_def)
  show ?thesis
    unfolding L_def [symmetric] ParseTIMESTAMP3339_def run_date andThen_accept prod.case run_time run_frac
      run_zone space_read [OF suffix_appendD [OF s3] tail] accept_finalize tiny prec syslogTime_update by simp
qed

text \<open>C34: A well-formed timestamp with at most six digits of the second, printed in the format
  of RFC 3339, has at most 32 characters and is read back field by field from any text it
  stands in, if a space follows or the text ends there.\<close>

theorem timestamp3339_round_trip:
  assumes t: "time_ok t" "year t < 2100" "frac_valid t" "zone_valid t"
  shows "\<exists>tx. formatTimestamp3339 t = Some (tx @ [0], int (length tx)) \<and> length tx \<le> 32
    \<and> (\<forall>t0 pre tail len. len = 0 \<or> 0 < len \<and> (\<exists>ys. tail = 32 # ys) \<longrightarrow>
         ParseTIMESTAMP3339 t0 (pre @ tx @ tail) (length pre) (int (length tx) + len)
           = Some (RS_RET_OK, t\<lparr>timeType := 2, inUTC := inUTC t0\<rparr>,
               length pre + length tx + (if 0 < len then 1 else 0), len - (if 0 < len then 1 else 0)))"
proof -
  obtain fs where fs: "(if secfracPrecision t > 0 then map_option (\<lambda>ds. 46 # ds) (fraction t) else Some []) = Some fs"
    "length fs \<le> 7" and read: "reads_frac t fs"
    using secfrac_read [OF t(3,1)] by blast
  have hd: "fs = [] \<or> hd fs = 46" using fs(1) by (auto split: if_splits)
  define tx where "tx = stamp3339 t fs"
  have len: "int (length tx) = 19 + int (length fs) + zone_len t" "zone_len t \<le> 6"
    by (simp_all add: tx_def stamp3339_def four_def two_def zone_len_def zone_text_def)
  show ?thesis
  proof (intro exI [of _ tx] conjI allI impI)
    show "formatTimestamp3339 t = Some (tx @ [0], int (length tx))"
      using fs(1) by (simp add: formatTimestamp3339_def tx_def stamp3339_def Let_def)
    fix t0 :: syslogTime and pre tail :: "byte list" and n :: int
    assume "n = 0 \<or> 0 < n \<and> (\<exists>ys. tail = 32 # ys)"
    then obtain ys where tail: "n = 0 \<or> 0 < n \<and> tail = 32 # ys" by blast
    define buf where "buf = pre @ tx @ tail"
    have b: "suffix (tx @ tail) buf" "length pre = at buf (tx @ tail)" "at buf tail = length pre + length tx"
      by (simp_all add: buf_def suffix_def at_def)
    have prec: "intTiny (secfracPrecision t) = secfracPrecision t" using t(1) by (simp add: time_ok_def)
    have "ParseTIMESTAMP3339 t0 buf (at buf (tx @ tail)) (int (length tx) + n)
        = Some (RS_RET_OK, t\<lparr>timeType := 2, inUTC := inUTC t0\<rparr>,
            at buf tail + (if 0 < n then 1 else 0), n - (if 0 < n then 1 else 0))"
      using parse_stamp3339 [OF t(1,2,4) read hd prec b(1) [unfolded tx_def] tail, of t0]
      unfolding len(1) unfolding tx_def .
    then show "ParseTIMESTAMP3339 t0 (pre @ tx @ tail) (length pre) (int (length tx) + n)
        = Some (RS_RET_OK, t\<lparr>timeType := 2, inUTC := inUTC t0\<rparr>,
            length pre + length tx + (if 0 < n then 1 else 0), n - (if 0 < n then 1 else 0))"
      unfolding b(2) [symmetric] b(3) unfolding buf_def .
  qed (use len fs(2) in simp)
qed

subsection \<open>RFC 3164\<close>

definition month_words :: "(byte \<times> byte \<times> byte \<times> int) list" where
  "month_words = [(74, 97, 110, 1), (70, 101, 98, 2), (77, 97, 114, 3), (65, 112, 114, 4), (77, 97, 121, 5),
     (74, 117, 110, 6), (74, 117, 108, 7), (65, 117, 103, 8), (83, 101, 112, 9), (79, 99, 116, 10),
     (78, 111, 118, 11), (68, 101, 99, 12)]"

lemma month_names: "1 \<le> m \<Longrightarrow> m \<le> 12 \<Longrightarrow> \<exists>a b c. monthNames ! nat (m - 1) = [a, b, c] \<and> (a, b, c, m) \<in> set month_words"
proof -
  assume "1 \<le> m" "m \<le> 12"
  then have "m = 1 \<or> m = 2 \<or> m = 3 \<or> m = 4 \<or> m = 5 \<or> m = 6 \<or> m = 7 \<or> m = 8 \<or> m = 9 \<or> m = 10 \<or> m = 11 \<or> m = 12"
    by arith
  then show ?thesis by (elim disjE) (simp_all add: monthNames_def lit_def month_words_def)
qed

lemma month_word:
  assumes "(a, b, c, m) \<in> set month_words" and "suffix (a # b # c # xs) buf"
  shows "month3164 buf (at buf (a # b # c # xs)) = accept (m, at buf xs)"
proof -
  note s1 = assms(2) note s2 = suffix_next [OF s1] note s3 = suffix_next [OF s2]
  note l = look_at [OF s1] look_at [OF s2] look_at [OF s3] Suc_at [OF s1] Suc_at [OF s2] Suc_at [OF s3]
  show ?thesis
    unfolding month3164_def Let_def second_third_def third_def third2_def l andThen_accept
    using assms(1) unfolding month_words_def list.set insert_iff empty_iff prod.inject
    by (elim disjE conjE FalseE; simp add: letter_def)
qed

definition day_text :: "int \<Rightarrow> bool \<Rightarrow> byte list" where
  "day_text d buggy = (if buggy \<or> 10 \<le> d then two d else [32, dig d])"

lemma suffix_tail: "suffix (xs @ ys) buf \<Longrightarrow> suffix ys buf"
  by (rule suffix_appendD)

lemma day_read:
  assumes "suffix (32 # day_text d buggy @ 32 # xs) buf" and "4 \<le> len" and "1 \<le> d" "d \<le> 31"
  shows "day3164 buf (at buf (32 # day_text d buggy @ 32 # xs)) len = accept (d, at buf xs, len - 4)"
proof -
  note s1 = suffix_next [OF assms(1)] note s2 = suffix_tail [OF s1]
  show ?thesis
  proof (cases "buggy \<or> 10 \<le> d")
    case True
    have hd: "dig (d sdiv 10) \<noteq> 32"
      using dig_digit [of "d sdiv 10"] assms(3) seps(5) by (metis sdiv_pos pos_imp_zdiv_nonneg_iff zero_less_numeral order_trans zero_le_one)
    have e: "day_text d buggy = two d" using True by (simp add: day_text_def)
    have "look buf (at buf (two d @ 32 # xs)) = accept (dig (d sdiv 10))"
      using s1 unfolding e by (simp add: two_def look_at)
    then show ?thesis
      using assms(2-4) s2 hd unfolding day3164_def
      by (simp add: e assms(1) [unfolded e] s1 [unfolded e] reads)
  next
    case False
    then have e: "day_text d buggy = [32, dig d]" by (simp add: day_text_def)
    have s3: "suffix (32 # dig d # 32 # xs) buf" using s1 unfolding e by simp
    have "srSLMGParseInt32 buf (at buf ([dig d] @ 32 # xs)) (len - 2) = accept (dval 0 [dig d], at buf (32 # xs), len - 3)"
      using number_at [of "[dig d]" "32 # xs" buf "len - 2"] suffix_next [OF s3] assms(2-4)
      by (simp add: dig_digit ends_char)
    moreover have "dval 0 [dig d] = d" using False assms(3) by (simp add: dval_def uint_dig)
    ultimately show ?thesis
      using assms(2-4) s2 unfolding day3164_def e
      by (simp add: assms(1) [unfolded e, simplified] s3 reads Suc_at)
  qed
qed

lemma hour_read:
  assumes "suffix (two h @ xs) buf" and "number_ends (len - 2) xs" "0 \<le> h" "h \<le> 23"
  shows "hour3164 y buf (at buf (two h @ xs)) len = accept ((y, h), at buf xs, len - 2)"
  using assms unfolding hour3164_def by (simp add: two_at)

lemma colon_read:
  "\<lbrakk>suffix xs buf; n = 0 \<or> 0 < n \<and> xs = 32 # ys\<rbrakk> \<Longrightarrow> skip_colon buf (at buf xs) n = accept (at buf xs, n)"
  by (auto simp: skip_colon_def look_at)

definition stamp3164 :: "syslogTime \<Rightarrow> bool \<Rightarrow> byte list" where
  "stamp3164 t buggy = monthNames ! nat (month t - 1) @ 32 # day_text (day t) buggy @ 32
     # two (hour t) @ 58 # two (minute t) @ 58 # two (second t)"

lemma format_stamp3164:
  assumes "time_ok t"
  shows "formatTimestamp3164 t buggy = Some (stamp3164 t buggy @ [0], 16)" "length (stamp3164 t buggy) = 15"
proof -
  have m: "(month t - 1) smod 12 = month t - 1" "0 \<le> month t - 1" "nat (month t - 1) < length monthNames"
    using assms by (auto simp: time_ok_def signed_modulo_int_def sgn_if monthNames_def)
  have d: "day t sdiv 10 smod 10 > 0 \<longleftrightarrow> 10 \<le> day t"
    using assms by (auto simp: time_ok_def sdiv_pos smod_pos)
  show "formatTimestamp3164 t buggy = Some (stamp3164 t buggy @ [0], 16)"
    unfolding formatTimestamp3164_def m(1) c_get_in [OF m(3)] using m(2) d
    by (simp add: stamp3164_def day_text_def two_def [of "day t"] dig_def [of "day t sdiv 10"])
  obtain a b c where "monthNames ! nat (month t - 1) = [a, b, c]"
    using month_names [of "month t"] assms by (auto simp: time_ok_def)
  then show "length (stamp3164 t buggy) = 15" by (simp add: stamp3164_def day_text_def two_def)
qed

lemma parse_stamp3164:
  assumes t: "time_ok t" and buf: "suffix (stamp3164 t buggy @ tail) buf"
    and tail: "n = 0 \<or> 0 < n \<and> tail = 32 # ys"
  shows "ParseTIMESTAMP3164 tzs t0 buf (at buf (stamp3164 t buggy @ tail)) (15 + n) False False
     = Some (RS_RET_OK, t0\<lparr>timeType := 1, month := month t, day := day t, hour := hour t,
         minute := minute t, second := second t, secfrac := 0, secfracPrecision := 0\<rparr>,
         at buf tail + (if 0 < n then 1 else 0), n - (if 0 < n then 1 else 0))"
proof -
  have ok: "1 \<le> month t" "month t \<le> 12" "1 \<le> day t" "day t \<le> 31" "0 \<le> hour t" "hour t \<le> 23"
      "0 \<le> minute t" "minute t \<le> 59" "0 \<le> second t" "second t \<le> 60" "0 \<le> n"
    using t tail by (auto simp: time_ok_def)
  obtain a b c where w: "monthNames ! nat (month t - 1) = [a, b, c]" "(a, b, c, month t) \<in> set month_words"
    using month_names [OF ok(1,2)] by blast
  define z1 where "z1 = two (hour t) @ 58 # two (minute t) @ 58 # two (second t) @ tail"
  have e: "stamp3164 t buggy @ tail = a # b # c # 32 # day_text (day t) buggy @ 32 # z1"
    using w(1) by (simp add: stamp3164_def z1_def)
  have a: "\<not> (48 \<le> a \<and> a \<le> 57)" using w(2) by (auto simp: month_words_def)
  note s1 = buf [unfolded e]
  have s2: "suffix (32 # day_text (day t) buggy @ 32 # z1) buf"
    using suffix_next [OF suffix_next [OF suffix_next [OF s1]]] .
  have s3: "suffix z1 buf" using suffix_next [OF suffix_tail [OF suffix_next [OF s2]]] .
  have s4: "suffix (58 # two (minute t) @ 58 # two (second t) @ tail) buf"
    using suffix_tail [OF s3 [unfolded z1_def]] .
  have run_year: "year_in_front buf (at buf (a # b # c # 32 # day_text (day t) buggy @ 32 # z1)) (15 + n)
      = accept (0, at buf (a # b # c # 32 # day_text (day t) buggy @ 32 # z1), 15 + n)"
    using a unfolding year_in_front_def look_at [OF s1] andThen_accept by (simp only: if_False)
  have run_hour: "hour3164 0 buf (at buf z1) (8 + n)
      = accept ((0, hour t), at buf (58 # two (minute t) @ 58 # two (second t) @ tail), 6 + n)"
    using hour_read [OF s3 [unfolded z1_def], of "8 + n"] ok by (simp add: z1_def ends_char)
  have run_min: "min_sec buf (at buf (58 # two (minute t) @ 58 # two (second t) @ tail)) (6 + n)
      = accept ((minute t, second t), at buf tail, n)"
    using min_sec_read(2) [OF s4, of "6 + n"] number_ends_tail [OF tail] ok by simp
  have s5: "suffix tail buf"
    by (rule min_sec_read(1) [OF s4, of "6 + n"]) (use number_ends_tail [OF tail] ok in simp_all)
  have run_frac: "parse_secfrac buf (at buf tail) n = accept ((0, 0), at buf tail, n)"
    by (rule secfrac_none [of _ 32 ys]) (use tail s5 in auto)
  have run_day: "day3164 buf (at buf (32 # day_text (day t) buggy @ 32 # z1)) (12 + n) = accept (day t, at buf z1, 8 + n)"
    using day_read [OF s2, of "12 + n"] ok by simp
  have l: "15 + n - 3 = 12 + n" "\<not> 15 + n < 3" using ok(11) by simp_all
  show ?thesis
    unfolding ParseTIMESTAMP3164_def e l(1) run_year andThen_accept prod.case month_word [OF w(2) s1] run_day run_hour
      run_min run_frac using ok l(2)
    by (simp add: tz3164_def year_behind_def colon_read [OF s5 tail] space_read [OF s5 tail] update3164_def)
qed

text \<open>A well-formed timestamp printed in the format of RFC 3164, with either form of days
  below ten, has 15 characters and is read back from any text it stands in: month, day
  and time of day, while year, zone and the rest of the receiving timestamp stay.\<close>

theorem timestamp3164_round_trip:
  assumes t: "time_ok t"
  shows "\<exists>tx. formatTimestamp3164 t bBuggyDay = Some (tx @ [0], 16) \<and> length tx = 15
    \<and> (\<forall>t0 pre tail len. len = 0 \<or> 0 < len \<and> (\<exists>ys. tail = 32 # ys) \<longrightarrow>
         ParseTIMESTAMP3164 tzs t0 (pre @ tx @ tail) (length pre) (15 + len) False False
           = Some (RS_RET_OK, t0\<lparr>timeType := 1, month := month t, day := day t, hour := hour t,
                 minute := minute t, second := second t, secfrac := 0, secfracPrecision := 0\<rparr>,
               length pre + 15 + (if 0 < len then 1 else 0), len - (if 0 < len then 1 else 0)))"
proof (intro exI conjI allI impI)
  show "formatTimestamp3164 t bBuggyDay = Some (stamp3164 t bBuggyDay @ [0], 16)"
    by (rule format_stamp3164(1) [OF t])
  show "length (stamp3164 t bBuggyDay) = 15" by (rule format_stamp3164(2) [OF t])
  fix t0 :: syslogTime and pre tail :: "byte list" and n :: int
  assume "n = 0 \<or> 0 < n \<and> (\<exists>ys. tail = 32 # ys)"
  then obtain ys where tail: "n = 0 \<or> 0 < n \<and> tail = 32 # ys" by blast
  define buf where "buf = pre @ stamp3164 t bBuggyDay @ tail"
  have b: "suffix (stamp3164 t bBuggyDay @ tail) buf" "at buf (stamp3164 t bBuggyDay @ tail) = length pre"
    "at buf tail = length pre + 15"
    by (simp_all add: buf_def suffix_def at_def format_stamp3164(2) [OF t])
  show "ParseTIMESTAMP3164 tzs t0 (pre @ stamp3164 t bBuggyDay @ tail) (length pre) (15 + n) False False
      = Some (RS_RET_OK, t0\<lparr>timeType := 1, month := month t, day := day t, hour := hour t,
          minute := minute t, second := second t, secfrac := 0, secfracPrecision := 0\<rparr>,
          length pre + 15 + (if 0 < n then 1 else 0), n - (if 0 < n then 1 else 0))"
    using parse_stamp3164 [OF t b(1) tail, of tzs t0] unfolding b(2,3) unfolding buf_def .
qed

lemma time_ex_valid: "time_ok time_ex" "year time_ex < 2100" "frac_valid time_ex" "zone_valid time_ex"
  by (simp_all add: time_ex_def time_ok_def frac_valid_def zone_valid_def)

theorem timestamp3339_round_trip_witness:
  "\<exists>tx. formatTimestamp3339 time_ex = Some (tx @ [0], int (length tx))
     \<and> ParseTIMESTAMP3339 time_ex (tx @ [0]) 0 (int (length tx))
       = Some (RS_RET_OK, time_ex\<lparr>timeType := 2\<rparr>, length tx, 0)"
proof -
  obtain tx where tx: "formatTimestamp3339 time_ex = Some (tx @ [0], int (length tx))"
    "\<forall>t0 pre tail len. len = 0 \<or> 0 < len \<and> (\<exists>ys. tail = 32 # ys) \<longrightarrow>
         ParseTIMESTAMP3339 t0 (pre @ tx @ tail) (length pre) (int (length tx) + len)
           = Some (RS_RET_OK, time_ex\<lparr>timeType := 2, inUTC := inUTC t0\<rparr>,
               length pre + length tx + (if 0 < len then 1 else 0), len - (if 0 < len then 1 else 0))"
    using timestamp3339_round_trip [OF time_ex_valid] by blast
  have "ParseTIMESTAMP3339 time_ex ([] @ tx @ [0]) (length []) (int (length tx) + 0)
      = Some (RS_RET_OK, time_ex\<lparr>timeType := 2, inUTC := inUTC time_ex\<rparr>, length [] + length tx + 0, 0)"
    using tx(2) [rule_format, of 0 "[0]" time_ex "[]"] by simp
  then show ?thesis using tx(1) by (intro exI [of _ tx]) (simp add: time_ex_def)
qed

theorem timestamp3164_round_trip_witness:
  "\<exists>tx. formatTimestamp3164 time_ex False = Some (tx @ [0], 16) \<and> length tx = 15"
  using timestamp3164_round_trip [OF time_ex_valid(1), of False "[]"] by blast

end
