(* ===== verification/MsgText.thy ===== *)
theory MsgText
  imports DateFormat
begin

text \<open>
  The parsed content of a message object, runtime/msg.c: the raw message and the offsets into
  it, the header fields of both protocols, the functions that set them, and those that
  derive one from another when it is asked for. The raw message is the list of its written
  bytes, terminator included; a read behind them is \<open>None\<close>. A field that was never set is
  \<open>None\<close> too. \<open>mem\<close> is whether memory can be allocated.
\<close>

unbundle bit_operations_syntax

section \<open>The record\<close>

record pmsg =
  pszRawMsg :: "byte list"
  iLenRawMsg :: int
  offAfterPRI :: int
  offMSG :: int
  iLenMSG :: int
  iFacility :: int
  iSeverity :: int
  iProtocolVersion :: int
  pflags :: "32 word"
  pszHOSTNAME :: "byte list option"
  TAG :: "byte list"
  PROGNAME :: "byte list option"
  pCSAPPNAME :: "byte list option"
  pCSPROCID :: "byte list option"
  pCSMSGID :: "byte list option"
  pszStrucData :: "byte list option"
  tRcvdAt :: syslogTime
  tTIMESTAMP :: syslogTime
  dfltTZ :: "byte list"

definition INTERNAL_MSG :: "32 word" where "INTERNAL_MSG = 1"
definition IGNDATE :: "32 word" where "IGNDATE = 4"
definition NEEDS_PARSING :: "32 word" where "NEEDS_PARSING = 16"
definition PARSE_HOSTNAME :: "32 word" where "PARSE_HOSTNAME = 32"
definition NO_PRI_IN_RAW :: "32 word" where "NO_PRI_IN_RAW = 256"

definition has_flag :: "pmsg \<Rightarrow> 32 word \<Rightarrow> bool" where
  "has_flag m f \<longleftrightarrow> pflags m AND f \<noteq> 0"

text \<open>The text up to the first 0.\<close>

definition c_text :: "byte list \<Rightarrow> byte list" where
  "c_text s = takeWhile (\<lambda>c. c \<noteq> 0) s"

section \<open>Priorities\<close>

definition LOG_MAXPRI :: int where "LOG_MAXPRI = 191"
definition LOG_FAC_INVLD :: int where "LOG_FAC_INVLD = 24"
definition LOG_PRI_INVLD :: int where "LOG_PRI_INVLD = 199"
definition DEFUPRI :: int where "DEFUPRI = 13"

definition pri2fac :: "int \<Rightarrow> int" where
  "pri2fac pri = (let fac = pri div 8 in if fac > 23 then LOG_FAC_INVLD else fac)"

definition msgSetPRI :: "pmsg \<Rightarrow> int \<Rightarrow> pmsg" where
  "msgSetPRI m pri0 =
     (let pri = (if pri0 > LOG_MAXPRI then LOG_PRI_INVLD else pri0)
      in m\<lparr>iFacility := pri2fac pri, iSeverity := pri mod 8\<rparr>)"

definition getPRIi :: "pmsg \<Rightarrow> int" where
  "getPRIi m = (let pri = iFacility m * 8 + iSeverity m in if pri > 191 then LOG_PRI_INVLD else pri)"

definition MsgSetAfterPRIOffs :: "pmsg \<Rightarrow> int \<Rightarrow> pmsg" where
  "MsgSetAfterPRIOffs m offs = m\<lparr>offAfterPRI := c_short offs\<rparr>"

section \<open>The raw message\<close>

definition MsgSetRawMsgSize :: "pmsg \<Rightarrow> nat \<Rightarrow> pmsg option" where
  "MsgSetRawMsgSize m newLen = do {
     _ \<leftarrow> c_guard (int newLen \<le> iLenRawMsg m);
     let m = m\<lparr>iLenRawMsg := int newLen\<rparr>;
     raw \<leftarrow> c_set (pszRawMsg m) newLen 0;
     Some (m\<lparr>pszRawMsg := raw\<rparr>)
   }"

text \<open>A copy of a text; without memory the first 100 bytes, what the record has room for.\<close>

definition MsgSetRawMsg :: "bool \<Rightarrow> pmsg \<Rightarrow> byte list \<Rightarrow> pmsg" where
  "MsgSetRawMsg mem m s =
     (let deltaSize = int (length s) - iLenRawMsg m;
          s' = (if length s < 101 \<or> mem then s else take 100 s);
          m1 = m\<lparr>iLenRawMsg := int (length s'), pszRawMsg := s' @ [0]\<rparr>
      in if iLenRawMsg m1 > offMSG m1 then m1\<lparr>iLenMSG := iLenMSG m1 + deltaSize\<rparr> else m1\<lparr>iLenMSG := 0\<rparr>)"

definition MsgTruncateToMaxSize :: "int \<Rightarrow> pmsg \<Rightarrow> pmsg option" where
  "MsgTruncateToMaxSize maxMsgSize m = do {
     _ \<leftarrow> c_guard (iLenRawMsg m > maxMsgSize);
     let deltaSize = iLenRawMsg m - maxMsgSize;
     raw \<leftarrow> c_set (pszRawMsg m) (nat maxMsgSize) 0;
     let m1 = m\<lparr>pszRawMsg := raw, iLenRawMsg := maxMsgSize\<rparr>;
     Some (if iLenMSG m1 < deltaSize then m1\<lparr>iLenMSG := 0\<rparr> else m1\<lparr>iLenMSG := iLenMSG m1 - deltaSize\<rparr>)
   }"

text \<open>The offset of the MSG part is a \<open>short\<close>.\<close>

definition MsgSetMSGoffs :: "pmsg \<Rightarrow> int \<Rightarrow> pmsg option" where
  "MsgSetMSGoffs m offs0 =
     (let offs = c_short offs0; m1 = m\<lparr>offMSG := offs\<rparr>
      in if offs > iLenRawMsg m1
         then (if offs - 1 = iLenRawMsg m1 then Some (m1\<lparr>iLenMSG := 0\<rparr>) else None)
         else Some (m1\<lparr>iLenMSG := iLenRawMsg m1 - offs\<rparr>))"

text \<open>The MSG part, as many bytes from its offset as its length says.\<close>

definition getMSG :: "pmsg \<Rightarrow> byte list option" where
  "getMSG m =
     (if iLenMSG m = 0 then Some []
      else if 0 \<le> offMSG m \<and> 0 \<le> iLenMSG m \<and> offMSG m + iLenMSG m \<le> int (length (pszRawMsg m))
      then Some (take (nat (iLenMSG m)) (drop (nat (offMSG m)) (pszRawMsg m))) else None)"

definition getRawMsgAfterPRI :: "pmsg \<Rightarrow> (byte list \<times> int) option" where
  "getRawMsgAfterPRI m = do {
     c0 \<leftarrow> c_get (pszRawMsg m) 0;
     off \<leftarrow> (if c0 = 60 then do {
         c2 \<leftarrow> c_get (pszRawMsg m) 2;
         if c2 = 62 then Some 3 else do {
           c3 \<leftarrow> c_get (pszRawMsg m) 3;
           if c3 = 62 then Some 4 else do {
             c4 \<leftarrow> c_get (pszRawMsg m) 4;
             Some (if c4 = 62 then 5 else 0) } } }
       else Some 0);
     Some (drop off (pszRawMsg m), iLenRawMsg m - int off)
   }"

section \<open>Fields\<close>

definition setProtocolVersion :: "pmsg \<Rightarrow> int \<Rightarrow> pmsg" where
  "setProtocolVersion m v = m\<lparr>iProtocolVersion := (if v \<noteq> 0 \<and> v \<noteq> 1 then 0 else v)\<rparr>"

text \<open>The setters of these fields copy a C string; memory for it is taken as available.\<close>

definition MsgSetAPPNAME :: "pmsg \<Rightarrow> byte list \<Rightarrow> pmsg" where
  "MsgSetAPPNAME m s = m\<lparr>pCSAPPNAME := Some (c_text s)\<rparr>"

definition MsgSetPROCID :: "pmsg \<Rightarrow> byte list \<Rightarrow> pmsg" where
  "MsgSetPROCID m s = m\<lparr>pCSPROCID := Some (c_text s)\<rparr>"

definition MsgSetMSGID :: "pmsg \<Rightarrow> byte list \<Rightarrow> pmsg" where
  "MsgSetMSGID m s = m\<lparr>pCSMSGID := Some (c_text s)\<rparr>"

definition MsgSetStructuredData :: "pmsg \<Rightarrow> byte list \<Rightarrow> pmsg" where
  "MsgSetStructuredData m s = m\<lparr>pszStrucData := Some (c_text s)\<rparr>"

text \<open>The hostname and the tag are copied with a length that the caller gives, from a buffer
  that must hold as many bytes.\<close>

definition MsgSetHOSTNAME :: "bool \<Rightarrow> pmsg \<Rightarrow> byte list \<Rightarrow> nat \<Rightarrow> pmsg option" where
  "MsgSetHOSTNAME mem m buf len =
     (let n = (if len < 32 \<or> mem then len else 31)
      in if n \<le> length buf then Some (m\<lparr>pszHOSTNAME := Some (take n buf)\<rparr>) else None)"

definition MsgSetTAG :: "bool \<Rightarrow> pmsg \<Rightarrow> byte list \<Rightarrow> nat \<Rightarrow> pmsg option" where
  "MsgSetTAG mem m buf len =
     (let n = (if len < 32 \<or> mem then len else 31)
      in if n \<le> length buf then Some (m\<lparr>TAG := take n buf\<rparr>) else None)"

section \<open>Derived fields\<close>

definition isprint :: "byte \<Rightarrow> bool" where
  "isprint c \<longleftrightarrow> 32 \<le> c \<and> c \<le> 126"

text \<open>The process id between the first brackets of the tag of a legacy message.\<close>

definition aquirePROCIDFromTAG :: "pmsg \<Rightarrow> pmsg" where
  "aquirePROCIDFromTAG m =
     (if pCSPROCID m \<noteq> None \<or> iProtocolVersion m \<noteq> 0 then m
      else let s = dropWhile (\<lambda>c. c \<noteq> 91) (TAG m)
        in if s = [] then m
           else let t = takeWhile (\<lambda>c. c \<noteq> 93) (tl s)
             in if length t = length (tl s) then m else m\<lparr>pCSPROCID := Some t\<rparr>)"

definition aquireProgramName :: "bool \<Rightarrow> pmsg \<Rightarrow> pmsg" where
  "aquireProgramName bPermitSlashInProgramname m =
     m\<lparr>PROGNAME := Some (takeWhile (\<lambda>c. isprint c \<and> c \<noteq> 0 \<and> c \<noteq> 58 \<and> c \<noteq> 91
        \<and> (bPermitSlashInProgramname \<or> c \<noteq> 47)) (TAG m))\<rparr>"

definition getPROCID :: "pmsg \<Rightarrow> byte list \<times> pmsg" where
  "getPROCID m =
     (let m1 = (if pCSPROCID m = None then aquirePROCIDFromTAG m else m)
      in (case pCSPROCID m1 of None \<Rightarrow> [45] | Some s \<Rightarrow> s, m1))"

text \<open>The application name of a message of protocol version 1, where nothing is emulated.\<close>

definition appname1 :: "pmsg \<Rightarrow> byte list" where
  "appname1 m = (case pCSAPPNAME m of None \<Rightarrow> [] | Some s \<Rightarrow> s)"

text \<open>\<open>snprintf\<close> into a buffer of 512 bytes returns the length the text would have.\<close>

definition tryEmulateTAG :: "bool \<Rightarrow> pmsg \<Rightarrow> pmsg option" where
  "tryEmulateTAG mem m =
     (if TAG m \<noteq> [] then Some m
      else if iProtocolVersion m = 1 then do {
        let (procid, m1) = getPROCID m;
        m2 \<leftarrow> (if procid = [45] then MsgSetTAG mem m1 (appname1 m1 @ [0]) (length (appname1 m1))
          else let s = appname1 m1 @ [91] @ procid @ [93]
            in MsgSetTAG mem m1 (take 511 s @ replicate (512 - min 511 (length s)) 0) (length s));
        Some (m2\<lparr>PROGNAME := None\<rparr>)
      } else Some m)"

definition getTAG :: "bool \<Rightarrow> pmsg \<Rightarrow> (byte list \<times> pmsg) option" where
  "getTAG mem m = do {
     m1 \<leftarrow> (if TAG m = [] then tryEmulateTAG mem m else Some m);
     Some (TAG m1, m1)
   }"

definition getProgramName :: "bool \<Rightarrow> bool \<Rightarrow> pmsg \<Rightarrow> (byte list \<times> pmsg) option" where
  "getProgramName mem bSlash m =
     (case PROGNAME m of
        Some s \<Rightarrow> Some (s, m)
      | None \<Rightarrow> do {
          m1 \<leftarrow> (if TAG m = [] then map_option snd (getTAG mem m) else Some m);
          let m2 = aquireProgramName bSlash m1;
          s \<leftarrow> PROGNAME m2;
          Some (s, m2)
        })"

definition getAPPNAME :: "bool \<Rightarrow> bool \<Rightarrow> pmsg \<Rightarrow> (byte list \<times> pmsg) option" where
  "getAPPNAME mem bSlash m =
     (case pCSAPPNAME m of
        Some s \<Rightarrow> Some (s, m)
      | None \<Rightarrow> if iProtocolVersion m = 0 then do {
            (s, m1) \<leftarrow> getProgramName mem bSlash m;
            let m2 = MsgSetAPPNAME m1 s;
            Some (appname1 m2, m2)
          } else Some ([], m))"

definition getMSGID :: "pmsg \<Rightarrow> byte list" where
  "getMSGID m = (case pCSMSGID m of None \<Rightarrow> [45] | Some s \<Rightarrow> s)"

text \<open>The text and its length, which is kept in 16 bits.\<close>

definition MsgGetStructuredData :: "pmsg \<Rightarrow> byte list \<times> nat" where
  "MsgGetStructuredData m = (case pszStrucData m of None \<Rightarrow> ([45], 1) | Some s \<Rightarrow> (s, length s mod 65536))"

section \<open>Reading a message\<close>

lemma at_nth: "suffix (c # xs) buf \<Longrightarrow> c_get buf (at buf (c # xs)) = Some c"
  using rest_Cons [OF rest_at] by blast

lemma getMSG_eq:
  assumes "iLenMSG m = int (length xs)" "offMSG m = int k" "drop k (pszRawMsg m) = xs @ ys" "xs \<noteq> []"
  shows "getMSG m = Some xs"
proof -
  have "length (pszRawMsg m) - k = length xs + length ys" using arg_cong [OF assms(3), of length] by simp
  moreover have "0 < length xs" using assms(4) by simp
  ultimately have "k + length xs \<le> length (pszRawMsg m)" by linarith
  then have "int k + int (length xs) \<le> int (length (pszRawMsg m))" by linarith
  then show ?thesis using assms by (simp add: getMSG_def)
qed

lemma offset_set:
  assumes "suffix (x @ [0]) (pszRawMsg m)" and "iLenRawMsg m = int (length (pszRawMsg m)) - 1"
    and "at (pszRawMsg m) (x @ [0]) \<le> 32767"
  defines "m' \<equiv> m\<lparr>offMSG := int (at (pszRawMsg m) (x @ [0])), iLenMSG := int (length x)\<rparr>"
  shows "MsgSetMSGoffs m (int (at (pszRawMsg m) (x @ [0]))) = Some m'" and "getMSG m' = Some x"
proof -
  obtain pre where raw: "pszRawMsg m = pre @ x @ [0]" using assms(1) by (auto simp: suffix_def)
  then have p: "at (pszRawMsg m) (x @ [0]) = length pre" by (simp add: at_def)
  show "MsgSetMSGoffs m (int (at (pszRawMsg m) (x @ [0]))) = Some m'"
    using assms(2,3) unfolding m'_def p by (simp add: MsgSetMSGoffs_def Let_def raw)
  show "getMSG m' = Some x" unfolding m'_def p by (simp add: getMSG_def raw)
qed

text \<open>A received message, for examples.\<close>

definition pmsg_ex :: "byte list \<Rightarrow> pmsg" where
  "pmsg_ex s = \<lparr>pszRawMsg = s @ [0], iLenRawMsg = int (length s), offAfterPRI = 0, offMSG = 0, iLenMSG = 0,
     iFacility = 1, iSeverity = 5, iProtocolVersion = 0, pflags = PARSE_HOSTNAME, pszHOSTNAME = None, TAG = [],
     PROGNAME = None, pCSAPPNAME = None, pCSPROCID = None, pCSMSGID = None, pszStrucData = None,
     tRcvdAt = time_ex, tTIMESTAMP = time_ex, dfltTZ = [0]\<rparr>"

lemma pmsg_ex_sel [simp]:
  "pszRawMsg (pmsg_ex s) = s @ [0]" "iLenRawMsg (pmsg_ex s) = int (length s)" "offAfterPRI (pmsg_ex s) = 0"
  "iFacility (pmsg_ex s) = 1" "tTIMESTAMP (pmsg_ex s) = time_ex" "dfltTZ (pmsg_ex s) = [0]"
  "has_flag (pmsg_ex s) PARSE_HOSTNAME" "\<not> has_flag (pmsg_ex s) INTERNAL_MSG" "\<not> has_flag (pmsg_ex s) NO_PRI_IN_RAW"
  by (simp_all add: pmsg_ex_def has_flag_def PARSE_HOSTNAME_def INTERNAL_MSG_def NO_PRI_IN_RAW_def)

text \<open>The text of the example timestamp, 2003-10-11T22:14:15.003+02:00.\<close>

definition stamp_ex :: "byte list" where
  "stamp_ex = [50, 48, 48, 51, 45, 49, 48, 45, 49, 49, 84, 50, 50, 58, 49, 52, 58, 49, 53, 46, 48, 48, 51,
     43, 48, 50, 58, 48, 48]"

lemma stamp_ex_format: "formatTimestamp3339 time_ex = Some (stamp_ex @ [0], 29)"
  by code_simp

end
