(* ===== verification/PriFilter.thy ===== *)
theory PriFilter
  imports MsgText
begin

text \<open>
  Priority filters: the mask of a filter, one byte per facility with one bit per severity,
  the operations of the optimizer on it (grammar/rainerscript.c), the test of a message and the
  parser of the traditional selectors such as \<open>mail,news.info;*.=crit\<close> (runtime/conf.c).

  A \<open>uchar *\<close> into a string is the list of the bytes from it to the end of its array; reading
  behind the end is undefined. The terminator is an ordinary byte of that list.
\<close>

unbundle bit_operations_syntax

type_synonym pmask = "byte list"

text \<open>\<open>LOG_NFACILITIES+1\<close>, where \<open>LOG_NFACILITIES\<close> is \<open>24+1\<close>: the number of entries of a mask.\<close>

definition N_PMASK :: nat where "N_PMASK = 26"
definition TABLE_NOPRI :: byte where "TABLE_NOPRI = 0"
definition TABLE_ALLPRI :: int where "TABLE_ALLPRI = 255"
definition INTERNAL_NOPRI :: int where "INTERNAL_NOPRI = 16"

definition ALL_BITS :: byte where "ALL_BITS = of_int TABLE_ALLPRI"

datatype compop =
    CMP_EQ | CMP_NE | CMP_LE | CMP_GE | CMP_LT | CMP_GT
  | CMP_CONTAINS | CMP_CONTAINSI | CMP_STARTSWITH | CMP_STARTSWITHI

section \<open>Masks\<close>

text \<open>\<open>1 << n\<close> in an \<open>int\<close>, stored into a byte.\<close>

definition shl1 :: "int \<Rightarrow> byte option" where
  "shl1 n = (if 0 \<le> n \<and> n \<le> 30 then Some (of_int (2 ^ nat n)) else None)"

definition prifiltInvert :: "pmask \<Rightarrow> pmask" where
  "prifiltInvert pm = map (\<lambda>b. NOT b) pm"

definition lessthanmasks :: "byte list" where
  "lessthanmasks = [0x00, 0x01, 0x03, 0x07, 0x0f, 0x1f, 0x3f, 0x7f, 0xff]"

definition lessthan :: "int \<Rightarrow> byte option" where
  "lessthan n = (if n < 0 then None else c_get lessthanmasks (nat n))"

definition sevBits :: "int \<Rightarrow> compop \<Rightarrow> byte \<Rightarrow> byte option" where
  "sevBits sev mode old =
     (if mode = CMP_EQ \<or> mode = CMP_NE then shl1 sev
      else if mode = CMP_LT then lessthan sev
      else if mode = CMP_LE then lessthan (sev + 1)
      else if mode = CMP_GT then map_option (\<lambda>b. NOT b) (lessthan (sev + 1))
      else if mode = CMP_GE then map_option (\<lambda>b. NOT b) (lessthan sev)
      else Some old)"

definition prifiltSetSeverity :: "pmask \<Rightarrow> int \<Rightarrow> compop \<Rightarrow> pmask option" where
  "prifiltSetSeverity pm sev mode = do {
     pm1 \<leftarrow> those (map (sevBits sev mode) pm);
     Some (if mode = CMP_NE then prifiltInvert pm1 else pm1)
   }"

text \<open>The loops set the entries from \<open>a\<close> up to, but not including, \<open>b\<close>.\<close>

definition setRange :: "pmask \<Rightarrow> int \<Rightarrow> int \<Rightarrow> pmask option" where
  "setRange pm a b =
     (if a < b \<and> (a < 0 \<or> int (length pm) < b) then None
      else Some (map (\<lambda>i. if a \<le> int i \<and> int i < b then ALL_BITS else pm ! i) [0..<length pm]))"

definition prifiltSetFacility :: "pmask \<Rightarrow> int \<Rightarrow> compop \<Rightarrow> pmask option" where
  "prifiltSetFacility pm0 fac mode =
     (let pm = map (\<lambda>_. 0) pm0
      in case mode of
           CMP_EQ \<Rightarrow> setRange pm fac (fac + 1)
         | CMP_NE \<Rightarrow> map_option prifiltInvert (setRange pm fac (fac + 1))
         | CMP_LT \<Rightarrow> setRange pm 0 fac
         | CMP_LE \<Rightarrow> setRange pm 0 (fac + 1)
         | CMP_GE \<Rightarrow> setRange pm fac (int N_PMASK)
         | CMP_GT \<Rightarrow> setRange pm (fac + 1) (int N_PMASK)
         | _ \<Rightarrow> Some pm)"

definition prifiltCombine :: "pmask \<Rightarrow> pmask \<Rightarrow> bool \<Rightarrow> pmask" where
  "prifiltCombine pm pm2 isAnd = map2 (\<lambda>a b. if isAnd then a AND b else a OR b) pm pm2"

text \<open>The test of a message, as a function call in an expression and as a statement.\<close>

definition prifilt_match :: "pmask \<Rightarrow> pmsg \<Rightarrow> bool option" where
  "prifilt_match pm m = do {
     b \<leftarrow> (if iFacility m < 0 then None else c_get pm (nat (iFacility m)));
     _ \<leftarrow> c_guard (b = TABLE_NOPRI \<or> 0 \<le> iSeverity m \<and> iSeverity m \<le> 30);
     Some (\<not> (b = TABLE_NOPRI \<or> uint b AND 2 ^ nat (iSeverity m) = 0))
   }"

definition pmask_always :: "pmask \<Rightarrow> bool" where
  "pmask_always pm \<longleftrightarrow> list_all (\<lambda>b. b = 0xff) pm"

section \<open>Names\<close>

definition syslogPriNames :: "(byte list \<times> int) list" where
  "syslogPriNames = [(lit ''alert'', 1), (lit ''crit'', 2), (lit ''debug'', 7), (lit ''emerg'', 0),
     (lit ''err'', 3), (lit ''error'', 3), (lit ''info'', 6), (lit ''none'', INTERNAL_NOPRI),
     (lit ''notice'', 5), (lit ''panic'', 0), (lit ''warn'', 4), (lit ''warning'', 4),
     (lit ''*'', TABLE_ALLPRI)]"

definition syslogFacNames :: "(byte list \<times> int) list" where
  "syslogFacNames = [(lit ''auth'', 32), (lit ''authpriv'', 80), (lit ''cron'', 72), (lit ''daemon'', 24),
     (lit ''kern'', 0), (lit ''lpr'', 48), (lit ''mail'', 16), (lit ''mark'', 200), (lit ''news'', 56),
     (lit ''ntp'', 96), (lit ''security'', 32), (lit ''bsd_security'', 104), (lit ''syslog'', 40),
     (lit ''user'', 8), (lit ''uucp'', 64), (lit ''ftp'', 88), (lit ''console'', 112),
     (lit ''local0'', 128), (lit ''local1'', 136), (lit ''local2'', 144), (lit ''local3'', 152),
     (lit ''local4'', 160), (lit ''local5'', 168), (lit ''local6'', 176), (lit ''local7'', 184),
     (lit ''invld'', 192)]"

text \<open>
  \<open>atoi\<close> of a text that begins with a digit; a value that is no \<open>int\<close> is undefined. A name of 79
  bytes or more leaves no terminator in the buffer it is copied to, and the byte behind it was
  never written.
\<close>

definition atoi :: "byte list \<Rightarrow> int option" where
  "atoi s = c_int (dval 0 (takeWhile isdigit s))"

definition decodeSyslogName :: "byte list \<Rightarrow> (byte list \<times> int) list \<Rightarrow> int option" where
  "decodeSyslogName name codetab =
     (if name \<noteq> [] \<and> isdigit (hd name) then atoi name
      else if length name \<ge> 79 then None
      else Some (case map_of codetab (map tolower name) of None \<Rightarrow> -1 | Some v \<Rightarrow> v))"

section \<open>The traditional selector\<close>

text \<open>The end of the list of facilities: behind the dot.\<close>

fun facEnd :: "byte list \<Rightarrow> byte list option" where
  "facEnd [] = None"
| "facEnd (c # cs) =
     (if c = 0 \<or> c = 9 then Some (c # cs) else if c = 46 then Some cs else facEnd cs)"

text \<open>Copying a name up to one of the given characters, as long as the buffer has room.\<close>

fun collect :: "byte list \<Rightarrow> nat \<Rightarrow> byte list \<Rightarrow> (byte list \<times> byte list) option" where
  "collect stops room [] = None"
| "collect stops room (c # cs) =
     (if c = 0 \<or> c \<in> set stops \<or> room = 0 then Some ([], c # cs)
      else do { (b, q) \<leftarrow> collect stops (room - 1) cs; Some (c # b, q) })"

text \<open>\<open>while (strchr(",;", *q)) q++\<close>, where \<open>strchr\<close> finds the terminator of \<open>",;"\<close> as well.\<close>

fun skipCruft :: "byte list \<Rightarrow> byte list option" where
  "skipCruft [] = None"
| "skipCruft (c # cs) = (if c = 44 \<or> c = 59 \<or> c = 0 then skipCruft cs else Some (c # cs))"

fun skipSep :: "byte list \<Rightarrow> byte list option" where
  "skipSep [] = None"
| "skipSep (c # cs) = (if c = 44 \<or> c = 32 then skipSep cs else Some (c # cs))"

text \<open>What one selector does to the entry of a facility.\<close>

fun levelBits :: "bool \<Rightarrow> nat \<Rightarrow> byte \<Rightarrow> byte option" where
  "levelBits ignorepri 0 b = Some b"
| "levelBits ignorepri (Suc i) b = do {
     b1 \<leftarrow> levelBits ignorepri i b;
     v \<leftarrow> shl1 (int i);
     Some (if ignorepri then b1 AND NOT v else b1 OR v)
   }"

definition applyPri :: "int \<Rightarrow> bool \<Rightarrow> bool \<Rightarrow> byte \<Rightarrow> byte option" where
  "applyPri pri singlpri ignorepri b =
     (if pri = INTERNAL_NOPRI then Some (if ignorepri then ALL_BITS else TABLE_NOPRI)
      else if singlpri then do {
        v \<leftarrow> shl1 pri;
        Some (if ignorepri then b AND NOT v else b OR v) }
      else if pri = TABLE_ALLPRI then Some (if ignorepri then TABLE_NOPRI else ALL_BITS)
      else levelBits ignorepri (nat (pri + 1)) b)"

definition applyFac :: "byte list \<Rightarrow> int \<Rightarrow> bool \<Rightarrow> bool \<Rightarrow> pmask \<Rightarrow> (rsRetVal \<times> pmask) option" where
  "applyFac buf pri singlpri ignorepri pm =
     (if buf \<noteq> [] \<and> hd buf = 42
      then map_option (Pair RS_RET_OK) (those (map (applyPri pri singlpri ignorepri) pm))
      else do {
        i \<leftarrow> decodeSyslogName buf syslogFacNames;
        if i < 0 then Some (RS_RET_ERR, pm)
        else do {
          b \<leftarrow> c_get pm (nat i div 8);
          b1 \<leftarrow> applyPri pri singlpri ignorepri b;
          map_option (Pair RS_RET_OK) (c_set pm (nat i div 8) b1) } })"

lemma skipSep_length: "skipSep p = Some q \<Longrightarrow> length q \<le> length p"
  by (induction p) (auto split: if_splits)

lemma collect_length: "collect st n p = Some (b, q) \<Longrightarrow> length b + length q = length p"
  by (induction st n p arbitrary: b q rule: collect.induct) (auto split: if_splits bind_splits)

lemma decode_empty: "decodeSyslogName [] syslogFacNames = Some (-1)"
  by (simp add: decodeSyslogName_def syslogFacNames_def lit_def)

lemma applyFac_empty: "applyFac [] pri s ig pm = Some (RS_RET_ERR, pm)"
  by (simp add: applyFac_def decode_empty)

function facLoop :: "int \<Rightarrow> bool \<Rightarrow> bool \<Rightarrow> byte list \<Rightarrow> pmask \<Rightarrow> (rsRetVal \<times> pmask) option" where
  "facLoop pri singlpri ignorepri p pm =
     (case p of
        [] \<Rightarrow> None
      | c # cs \<Rightarrow>
          if c = 0 \<or> c \<in> set [9, 32, 46, 59] then Some (RS_RET_OK, pm)
          else (case collect [9, 32, 44, 59, 46] 2047 p of
              None \<Rightarrow> None
            | Some (buf, p1) \<Rightarrow>
                (case applyFac buf pri singlpri ignorepri pm of
                   None \<Rightarrow> None
                 | Some (r, pm1) \<Rightarrow>
                     if r \<noteq> RS_RET_OK then Some (r, pm1)
                     else (case skipSep p1 of
                         None \<Rightarrow> None
                       | Some p2 \<Rightarrow> facLoop pri singlpri ignorepri p2 pm1))))"
  by pat_completeness auto
termination
proof (relation "measure (\<lambda>(pri, s, ig, p, pm). length p)", goal_cases)
  case (2 pri s ig p pm c cs r buf p1 r' ret pm1 p2)
  have "buf \<noteq> []" using 2 applyFac_empty by auto
  then have "length p1 < length p" using collect_length [of "[9, 32, 44, 59, 46]" 2047 p buf p1] 2(1,3,4)
    by (cases buf) (simp_all del: collect.simps)
  then show ?case using skipSep_length [of p1 p2] 2 by simp
qed simp

declare facLoop.simps [simp del]

text \<open>One selector: its priority, read from behind the dot, then the facilities in front of it.\<close>

definition decodePri :: "byte list \<Rightarrow> (int \<times> bool \<times> bool) option" where
  "decodePri buf0 =
     (let ignorepri = (buf0 \<noteq> [] \<and> hd buf0 = 33);
          buf = (if ignorepri then tl buf0 else buf0);
          singlpri = (buf \<noteq> [] \<and> hd buf = 61)
      in do {
        pri \<leftarrow> decodeSyslogName (if singlpri then tl buf else buf) syslogPriNames;
        Some (pri, singlpri, ignorepri) })"

definition selector_pri :: "byte list \<Rightarrow> ((int \<times> bool \<times> bool) \<times> byte list) option" where
  "selector_pri p = do {
     q0 \<leftarrow> facEnd p;
     (buf, q1) \<leftarrow> collect [9, 32, 44, 59] 2047 q0;
     c \<leftarrow> c_get q1 0;
     q \<leftarrow> (if c \<noteq> 0 then skipCruft q1 else Some q1);
     pri \<leftarrow> decodePri buf;
     Some (pri, q)
   }"

definition selector :: "byte list \<Rightarrow> pmask \<Rightarrow> (rsRetVal \<times> byte list \<times> pmask) option" where
  "selector p pm = do {
     ((pri, singlpri, ignorepri), q) \<leftarrow> selector_pri p;
     if pri < 0 then Some (RS_RET_ERR, q, pm)
     else do {
       (r, pm1) \<leftarrow> facLoop pri singlpri ignorepri p pm;
       Some (r, q, pm1) }
   }"

lemma facEnd_le: "facEnd p = Some q \<Longrightarrow> length q \<le> length p"
  by (induction p) (auto split: if_splits)

lemma facEnd_length: "facEnd (c # cs) = Some q \<Longrightarrow> c \<noteq> 0 \<Longrightarrow> c \<noteq> 9 \<Longrightarrow> length q \<le> length cs"
  using facEnd_le by (auto split: if_splits)

lemma skipCruft_length: "skipCruft p = Some q \<Longrightarrow> length q \<le> length p"
  by (induction p) (auto split: if_splits)

lemma selector_pri_length:
  assumes "selector_pri (c # cs) = Some (pri, q)" "c \<noteq> 0" "c \<noteq> 9"
  shows "length q < Suc (length cs)"
proof -
  have le: "(if d \<noteq> 0 then skipCruft q1 else Some q1) = Some q \<Longrightarrow> length q \<le> length q1" for d :: byte and q1
    using skipCruft_length by (auto split: if_splits)
  show ?thesis using assms unfolding selector_pri_def
    by (auto simp del: facEnd.simps collect.simps simp: bind_eq_Some_conv split: prod.splits
        dest!: facEnd_length collect_length le)
qed

lemma selector_length:
  "selector (c # cs) pm = Some (r, q, pm1) \<Longrightarrow> c \<noteq> 0 \<Longrightarrow> c \<noteq> 9 \<Longrightarrow> length q < Suc (length cs)"
  using selector_pri_length [of c cs] unfolding selector_def
  by (auto simp: bind_eq_Some_conv split: if_splits)

function priLoop :: "byte list \<Rightarrow> pmask \<Rightarrow> (rsRetVal \<times> pmask) option" where
  "priLoop p pm =
     (case p of
        [] \<Rightarrow> None
      | c # cs \<Rightarrow>
          if c = 0 \<or> c = 9 \<or> c = 32 then Some (RS_RET_OK, pm)
          else (case selector (c # cs) pm of
              None \<Rightarrow> None
            | Some (r, q, pm1) \<Rightarrow> if r \<noteq> RS_RET_OK then Some (r, pm1) else priLoop q pm1))"
  by pat_completeness auto
termination
  by (relation "measure (\<lambda>(p, pm). length p)") (use selector_length in auto)

declare priLoop.simps [simp del]

definition DecodePRIFilter :: "byte list \<Rightarrow> pmask \<Rightarrow> (rsRetVal \<times> pmask) option" where
  "DecodePRIFilter pline pm = priLoop pline (map (\<lambda>_. TABLE_NOPRI) pm)"

section \<open>What a mask means\<close>

lemma bit_uint_and: "uint (b :: byte) AND 2 ^ n = 0 \<longleftrightarrow> \<not> bit b n"
  by (auto simp: bit_uint_iff and_exp_eq_0_iff_not_bit dest: bit_imp_le_length)

lemma prifilt_match_bit:
  assumes "0 \<le> iFacility m" "nat (iFacility m) < length pm" "0 \<le> iSeverity m" "iSeverity m \<le> 30"
  shows "prifilt_match pm m = Some (bit (pm ! nat (iFacility m)) (nat (iSeverity m)))"
  using assms by (auto simp: prifilt_match_def TABLE_NOPRI_def bit_uint_and)

lemma prifilt_match_iff:
  assumes "0 \<le> iFacility m" "iFacility m < int N_PMASK" "0 \<le> iSeverity m" "iSeverity m \<le> 7" "length pm = N_PMASK"
  shows "prifilt_match pm m = Some (bit (pm ! nat (iFacility m)) (nat (iSeverity m)))"
  using assms by (intro prifilt_match_bit) simp_all

lemma shl1_bit: "0 \<le> n \<Longrightarrow> n \<le> 30 \<Longrightarrow> \<exists>v. shl1 n = Some v \<and> (\<forall>k. bit v k \<longleftrightarrow> k < 8 \<and> int k = n)"
  by (auto simp: shl1_def bit_exp_iff possible_bit_def)

lemma lessthan_mask: "s < 9 \<Longrightarrow> lessthanmasks ! s = mask s"
proof -
  have "list_all (\<lambda>s. lessthanmasks ! s = mask s) [0..<9]" by code_simp
  then show "s < 9 \<Longrightarrow> lessthanmasks ! s = mask s" by (simp add: list_all_iff)
qed

lemma lessthan_bit:
  "0 \<le> s \<Longrightarrow> s \<le> 8 \<Longrightarrow> \<exists>v. lessthan s = Some v \<and> (\<forall>k < 8. bit v k \<longleftrightarrow> int k < s)"
  by (auto simp: lessthan_def lessthan_mask bit_mask_iff possible_bit_def c_get_def)
     (simp_all add: lessthanmasks_def)

fun cmpNum :: "compop \<Rightarrow> int \<Rightarrow> int \<Rightarrow> bool" where
  "cmpNum CMP_EQ a b = (a = b)"
| "cmpNum CMP_NE a b = (a \<noteq> b)"
| "cmpNum CMP_LE a b = (a \<le> b)"
| "cmpNum CMP_GE a b = (a \<ge> b)"
| "cmpNum CMP_LT a b = (a < b)"
| "cmpNum CMP_GT a b = (a > b)"
| "cmpNum _ a b = False"

definition num_ops :: "compop set" where "num_ops = {CMP_EQ, CMP_NE, CMP_LE, CMP_GE, CMP_LT, CMP_GT}"

lemma those_map_const: "(\<And>x. x \<in> set xs \<Longrightarrow> f x = Some (g x)) \<Longrightarrow> those (map f xs) = Some (map g xs)"
  by (induction xs) auto

lemma sevBits_ok:
  assumes "0 \<le> sev" "sev \<le> 7" "mode \<in> num_ops"
  shows "\<exists>v. (\<forall>old. sevBits sev mode old = Some v) \<and>
    (\<forall>k < 8. bit (if mode = CMP_NE then NOT v else v) k \<longleftrightarrow> cmpNum mode (int k) sev)"
proof -
  obtain e where e: "shl1 sev = Some e" "\<forall>k. bit e k \<longleftrightarrow> k < 8 \<and> int k = sev"
    using shl1_bit [of sev] assms(1,2) by auto
  obtain a where a: "lessthan sev = Some a" "\<forall>k < 8. bit a k \<longleftrightarrow> int k < sev"
    using lessthan_bit [of sev] assms(1,2) by auto
  obtain b where b: "lessthan (sev + 1) = Some b" "\<forall>k < 8. bit b k \<longleftrightarrow> int k < sev + 1"
    using lessthan_bit [of "sev + 1"] assms(1,2) by auto
  show ?thesis using assms(3) e a b by (auto simp: num_ops_def sevBits_def bit_not_iff)
qed

text \<open>
  For every severity 0 to 7 and each of the six comparisons the mask that the optimizer
  computes for a comparison of the severity lets exactly those messages pass whose severity
  compares that way, whatever the mask was before.
\<close>

lemma severity_filter:
  assumes "0 \<le> sev" "sev \<le> 7" "mode \<in> num_ops" and "length pm = N_PMASK"
    and "0 \<le> iFacility m" "iFacility m < int N_PMASK" "0 \<le> iSeverity m" "iSeverity m \<le> 7"
  shows "\<exists>pm'. prifiltSetSeverity pm sev mode = Some pm' \<and> length pm' = N_PMASK \<and>
    prifilt_match pm' m = Some (cmpNum mode (iSeverity m) sev)"
proof -
  obtain v where v: "\<forall>old. sevBits sev mode old = Some v"
    "\<forall>k < 8. bit (if mode = CMP_NE then NOT v else v) k \<longleftrightarrow> cmpNum mode (int k) sev"
    using sevBits_ok [OF assms(1-3)] by blast
  have "those (map (sevBits sev mode) pm) = Some (map (\<lambda>_. v) pm)"
    using v(1) by (intro those_map_const) simp
  then show ?thesis using v(2) [rule_format, of "nat (iSeverity m)"] assms(4-)
      nat_less_iff [of "iSeverity m" 8]
    by (auto simp: prifiltSetSeverity_def prifiltInvert_def prifilt_match_iff nth_map split: if_splits)
qed

lemma setRange_bit:
  assumes "0 \<le> a" "b \<le> int (length pm)"
  shows "\<exists>pm'. setRange pm a b = Some pm' \<and> length pm' = length pm \<and>
    (\<forall>f < length pm. \<forall>k < 8. bit (pm' ! f) k \<longleftrightarrow> (if a \<le> int f \<and> int f < b then True else bit (pm ! f) k))"
proof -
  have "ALL_BITS = (-1 :: byte)" by (simp add: ALL_BITS_def TABLE_ALLPRI_def)
  then have "bit ALL_BITS k" if "k < 8" for k using that unfolding \<open>ALL_BITS = -1\<close> bit_minus_1_iff by simp
  then show ?thesis using assms by (auto simp: setRange_def)
qed

lemma zero_mask: "length (map (\<lambda>_. 0 :: byte) pm) = length pm" "f < length pm \<Longrightarrow> map (\<lambda>_. 0 :: byte) pm ! f = 0"
  by simp_all

text \<open>
  The same holds for the comparison of a facility with a number from 0 to 24: the mask
  lets exactly those messages pass whose facility compares that way, with every severity.
\<close>

lemma facility_filter:
  assumes "0 \<le> fac" "fac \<le> 24" "mode \<in> num_ops" and "length pm = N_PMASK"
    and "0 \<le> iFacility m" "iFacility m < int N_PMASK" "0 \<le> iSeverity m" "iSeverity m \<le> 7"
  shows "\<exists>pm'. prifiltSetFacility pm fac mode = Some pm' \<and> length pm' = N_PMASK \<and>
    prifilt_match pm' m = Some (cmpNum mode (iFacility m) fac)"
proof -
  define z where "z = map (\<lambda>_. 0 :: byte) pm"
  have z: "length z = N_PMASK" "\<And>f. f < N_PMASK \<Longrightarrow> z ! f = 0" using assms(4) by (simp_all add: z_def)
  have N: "N_PMASK = 26" by (simp add: N_PMASK_def)
  have r: "\<exists>pm'. setRange z a b = Some pm' \<and> length pm' = N_PMASK \<and>
    (\<forall>f < N_PMASK. \<forall>k < 8. bit (pm' ! f) k \<longleftrightarrow> a \<le> int f \<and> int f < b)" if "0 \<le> a" "b \<le> int N_PMASK" for a b
    using setRange_bit [of a b z] that z by auto
  have i: "fac + 1 \<le> int N_PMASK" using assms(2) by (simp add: N)
  show ?thesis using assms(3) unfolding num_ops_def
    using r [of fac "fac + 1"] r [of 0 fac] r [of 0 "fac + 1"] r [of fac "int N_PMASK"] r [of "fac + 1" "int N_PMASK"] assms(1,2,5-8) i
      nat_less_iff [of "iSeverity m" 8] nat_less_iff [of "iFacility m" N_PMASK]
    by (auto simp: prifiltSetFacility_def z_def [symmetric] prifilt_match_iff prifiltInvert_def bit_not_iff)
qed

end
