(* ===== verification/PriSelect.thy ===== *)
theory PriSelect
  imports PriFilter
begin

text \<open>
  What the traditional selectors mean and that the parser decodes them into a mask with that
  meaning; the two ways in which it leaves its arrays.
\<close>

unbundle bit_operations_syntax

section \<open>What a selector means\<close>

text \<open>
  Selectors as the documentation describes them: a list of facilities, \<open>!\<close> and \<open>=\<close>, and the name
  of a priority.
\<close>

record prisel =
  ps_facs :: "byte list list"
  ps_not :: bool
  ps_single :: bool
  ps_pri :: "byte list"

fun join :: "byte \<Rightarrow> byte list list \<Rightarrow> byte list" where
  "join c [] = []"
| "join c [x] = x"
| "join c (x # xs) = x @ c # join c xs"

definition sel_text :: "prisel \<Rightarrow> byte list" where
  "sel_text x = join 44 (ps_facs x) @ [46] @ (if ps_not x then [33] else []) @
     (if ps_single x then [61] else []) @ ps_pri x"

definition fac_in :: "byte list \<Rightarrow> nat \<Rightarrow> bool" where
  "fac_in t f \<longleftrightarrow> t = [42] \<or> map_of syslogFacNames t = Some (8 * int f)"

definition in_level :: "int \<Rightarrow> bool \<Rightarrow> nat \<Rightarrow> bool" where
  "in_level v single k \<longleftrightarrow> v = TABLE_ALLPRI \<or> (if single then int k = v else int k \<le> v)"

definition pri_pass :: "int \<Rightarrow> bool \<Rightarrow> bool \<Rightarrow> nat \<Rightarrow> bool \<Rightarrow> bool" where
  "pri_pass v single neg k old =
     (if v = INTERNAL_NOPRI then neg else if in_level v single k then \<not> neg else old)"

definition sel_pass :: "nat \<Rightarrow> nat \<Rightarrow> prisel \<Rightarrow> bool \<Rightarrow> bool" where
  "sel_pass f k x old =
     (if \<exists>t \<in> set (ps_facs x). fac_in t f
      then pri_pass (the (map_of syslogPriNames (ps_pri x))) (ps_single x) (ps_not x) k old else old)"

definition sel_valid :: "prisel \<Rightarrow> bool" where
  "sel_valid x \<longleftrightarrow> ps_facs x \<noteq> [] \<and> (\<forall>t \<in> set (ps_facs x). t = [42] \<or> t \<in> fst ` set syslogFacNames) \<and>
     ps_pri x \<in> fst ` set syslogPriNames \<and> \<not> (ps_single x \<and> ps_pri x = [42])"

text \<open>The names of the tables.\<close>

definition name_char :: "byte \<Rightarrow> bool" where
  "name_char c \<longleftrightarrow> c \<notin> set [0, 9, 32, 44, 46, 59]"

lemma fac_names:
  "list_all (\<lambda>(t, v). t \<noteq> [] \<and> list_all name_char t \<and> length t < 79 \<and> map tolower t = t \<and> \<not> isdigit (hd t) \<and>
     hd t \<noteq> 42 \<and> 0 \<le> v \<and> v = 8 * (v div 8) \<and> v div 8 < 26 \<and> map_of syslogFacNames t = Some v) syslogFacNames"
  by code_simp

lemma pri_names:
  "list_all (\<lambda>(t, v). t \<noteq> [] \<and> list_all name_char t \<and> length t < 79 \<and> map tolower t = t \<and> \<not> isdigit (hd t) \<and>
     hd t \<noteq> 33 \<and> hd t \<noteq> 61 \<and> (0 \<le> v \<and> v \<le> 7 \<or> v = 16 \<or> v = 255 \<and> t = [42]) \<and>
     map_of syslogPriNames t = Some v) syslogPriNames"
  by code_simp

lemma decode_fac:
  assumes "t \<in> fst ` set syslogFacNames"
  shows "\<exists>f < 26. decodeSyslogName t syslogFacNames = Some (8 * int f) \<and>
    map_of syslogFacNames t = Some (8 * int f) \<and> t \<noteq> [] \<and> hd t \<noteq> 42 \<and> list_all name_char t \<and> length t < 79"
proof -
  obtain v where "(t, v) \<in> set syslogFacNames" using assms by auto
  then have "t \<noteq> [] \<and> list_all name_char t \<and> length t < 79 \<and> map tolower t = t \<and> \<not> isdigit (hd t) \<and>
     hd t \<noteq> 42 \<and> 0 \<le> v \<and> v = 8 * (v div 8) \<and> v div 8 < 26 \<and> map_of syslogFacNames t = Some v"
    using fac_names by (auto simp: list_all_iff)
  then show ?thesis by (intro exI [of _ "nat (v div 8)"]) (auto simp: decodeSyslogName_def)
qed

lemma decode_pri:
  assumes "t \<in> fst ` set syslogPriNames"
  shows "\<exists>v. decodeSyslogName t syslogPriNames = Some v \<and> map_of syslogPriNames t = Some v \<and>
    (0 \<le> v \<and> v \<le> 7 \<or> v = 16 \<or> v = 255 \<and> t = [42]) \<and> t \<noteq> [] \<and> hd t \<noteq> 33 \<and> hd t \<noteq> 61 \<and> list_all name_char t \<and> length t < 79"
proof -
  obtain v where "(t, v) \<in> set syslogPriNames" using assms by auto
  then have "t \<noteq> [] \<and> list_all name_char t \<and> length t < 79 \<and> map tolower t = t \<and> \<not> isdigit (hd t) \<and>
     hd t \<noteq> 33 \<and> hd t \<noteq> 61 \<and> (0 \<le> v \<and> v \<le> 7 \<or> v = 16 \<or> v = 255 \<and> t = [42]) \<and>
     map_of syslogPriNames t = Some v"
    using pri_names by (auto simp: list_all_iff)
  then show ?thesis by (auto simp: decodeSyslogName_def)
qed

text \<open>One entry of the mask.\<close>

lemma levelBits_ok:
  "n \<le> 31 \<Longrightarrow> \<exists>b'. levelBits ig n b = Some b' \<and> (\<forall>k < 8. bit b' k \<longleftrightarrow> (if k < n then \<not> ig else bit b k))"
proof (induction n)
  case (Suc n)
  then obtain b' where b': "levelBits ig n b = Some b'" "\<forall>k < 8. bit b' k \<longleftrightarrow> (if k < n then \<not> ig else bit b k)"
    by auto
  obtain v where "shl1 (int n) = Some v" "\<forall>k. bit v k \<longleftrightarrow> k < 8 \<and> k = n"
    using shl1_bit [of "int n"] Suc.prems by auto
  then show ?case using b' by (auto simp: bit_and_iff bit_or_iff bit_not_iff)
qed simp

lemma applyPri_ok:
  assumes "0 \<le> v \<and> v \<le> 7 \<or> v = 16 \<or> v = 255" "\<not> (s \<and> v = 255)"
  shows "\<exists>b'. applyPri v s ig b = Some b' \<and> (\<forall>k < 8. bit b' k \<longleftrightarrow> pri_pass v s ig k (bit b k))"
proof -
  have all: "ALL_BITS = -1" by (simp add: ALL_BITS_def TABLE_ALLPRI_def)
  have bits: "bit ALL_BITS k" if "k < 8" for k using that unfolding all bit_minus_1_iff by simp
  consider "v = 16" | "v = 255" "\<not> s" | "0 \<le> v" "v \<le> 7" "s" | "0 \<le> v" "v \<le> 7" "\<not> s" using assms by blast
  then show ?thesis
  proof cases
    case 3
    obtain e where "shl1 v = Some e" "\<forall>k. bit e k \<longleftrightarrow> k < 8 \<and> int k = v" using shl1_bit [of v] 3 by auto
    then show ?thesis using 3
      by (auto simp: applyPri_def pri_pass_def in_level_def INTERNAL_NOPRI_def TABLE_ALLPRI_def bit_and_iff bit_or_iff bit_not_iff)
  next
    case 4
    then show ?thesis using levelBits_ok [of "nat (v + 1)" ig b]
      by (auto simp: applyPri_def pri_pass_def in_level_def INTERNAL_NOPRI_def TABLE_ALLPRI_def nat_less_iff zless_nat_eq_int_zless)
  qed (auto simp: applyPri_def pri_pass_def in_level_def INTERNAL_NOPRI_def TABLE_ALLPRI_def TABLE_NOPRI_def bits)
qed

lemma pri_pass_idem: "pri_pass v s ig k (pri_pass v s ig k b) = pri_pass v s ig k b"
  by (simp add: pri_pass_def)

text \<open>One facility of a selector, then all of them.\<close>

definition pm_upd :: "(nat \<Rightarrow> bool) \<Rightarrow> int \<Rightarrow> bool \<Rightarrow> bool \<Rightarrow> pmask \<Rightarrow> pmask \<Rightarrow> bool" where
  "pm_upd P v s ig pm pm' \<longleftrightarrow> length pm' = N_PMASK \<and> (\<forall>f < N_PMASK. \<forall>k < 8.
     bit (pm' ! f) k \<longleftrightarrow> (if P f then pri_pass v s ig k (bit (pm ! f) k) else bit (pm ! f) k))"

lemma those_map_ex:
  "(\<And>x. x \<in> set xs \<Longrightarrow> \<exists>y. f x = Some y \<and> Q x y) \<Longrightarrow>
   \<exists>ys. those (map f xs) = Some ys \<and> list_all2 Q xs ys"
proof (induction xs)
  case (Cons x xs)
  obtain y where "f x = Some y" "Q x y" using Cons.prems by auto
  moreover obtain ys where "those (map f xs) = Some ys" "list_all2 Q xs ys" using Cons by auto
  ultimately show ?case by auto
qed simp

lemma applyFac_ok:
  assumes "0 \<le> v \<and> v \<le> 7 \<or> v = 16 \<or> v = 255" "\<not> (s \<and> v = 255)" and "length pm = N_PMASK"
    and "t = [42] \<or> t \<in> fst ` set syslogFacNames"
  shows "\<exists>pm'. applyFac t v s ig pm = Some (RS_RET_OK, pm') \<and> pm_upd (fac_in t) v s ig pm pm'"
proof (cases "t = [42]")
  case True
  define Q where "Q = (\<lambda>b b' :: byte. \<forall>k < 8. bit b' k \<longleftrightarrow> pri_pass v s ig k (bit (b :: byte) k))"
  have "\<exists>pm'. those (map (applyPri v s ig) pm) = Some pm' \<and> list_all2 Q pm pm'"
    unfolding Q_def by (rule those_map_ex) (rule applyPri_ok [OF assms(1,2)])
  then obtain pm' where th: "those (map (applyPri v s ig) pm) = Some pm'" "list_all2 Q pm pm'" by blast
  then have "length pm' = N_PMASK" "\<forall>f < N_PMASK. \<forall>k < 8. bit (pm' ! f) k \<longleftrightarrow> pri_pass v s ig k (bit (pm ! f) k)"
    using assms(3) by (simp_all add: list_all2_conv_all_nth Q_def)
  moreover have "applyFac t v s ig pm = Some (RS_RET_OK, pm')"
    using True th(1) by (simp add: applyFac_def)
  moreover have "fac_in t f" for f using True by (simp add: fac_in_def)
  ultimately show ?thesis unfolding pm_upd_def by simp
next
  case False
  then obtain f where f: "f < 26" "decodeSyslogName t syslogFacNames = Some (8 * int f)"
    "map_of syslogFacNames t = Some (8 * int f)" "t \<noteq> []" "hd t \<noteq> 42"
    using assms(4) decode_fac by blast
  have fl: "f < length pm" using f(1) assms(3) by (simp add: N_PMASK_def)
  obtain b' where b': "applyPri v s ig (pm ! f) = Some b'" "\<forall>k < 8. bit b' k \<longleftrightarrow> pri_pass v s ig k (bit (pm ! f) k)"
    using applyPri_ok [OF assms(1,2)] by blast
  have n: "nat (8 * int f) div 8 = f" by (simp add: nat_mult_distrib)
  have i: "fac_in t g \<longleftrightarrow> g = f" for g using False f(3) by (auto simp: fac_in_def)
  have "applyFac t v s ig pm = Some (RS_RET_OK, pm[f := b'])"
    using f(2,4,5) b'(1) fl by (simp add: applyFac_def n)
  moreover have "pm_upd (fac_in t) v s ig pm (pm[f := b'])"
    using b'(2) fl assms(3) by (auto simp: pm_upd_def i nth_list_update)
  ultimately show ?thesis by blast
qed

lemma pm_upd_trans:
  "pm_upd P v s ig pm pm1 \<Longrightarrow> pm_upd Q v s ig pm1 pm2 \<Longrightarrow> pm_upd (\<lambda>f. P f \<or> Q f) v s ig pm pm2"
  by (auto simp: pm_upd_def pri_pass_idem)

lemma collect_app:
  "\<forall>x \<in> set xs. x \<noteq> 0 \<and> x \<notin> set st \<Longrightarrow> c = 0 \<or> c \<in> set st \<Longrightarrow> length xs \<le> n \<Longrightarrow>
   collect st n (xs @ c # r) = Some (xs, c # r)"
  by (induction xs arbitrary: n) auto

lemma fac_text:
  assumes "t = [42] \<or> t \<in> fst ` set syslogFacNames"
  shows "t \<noteq> [] \<and> list_all name_char t \<and> length t < 79"
  using assms decode_fac [of t] by (auto simp: name_char_def)

lemma hd_name: "t \<noteq> [] \<Longrightarrow> list_all name_char t \<Longrightarrow> \<exists>c cs. t = c # cs \<and> name_char c"
  by (cases t) auto

lemma facLoop_done: "facLoop v s ig (46 # r) pm = Some (RS_RET_OK, pm)"
  by (simp add: facLoop.simps)

lemma facLoop_one:
  assumes t: "t \<noteq> [] \<and> list_all name_char t \<and> length t < 79" and c: "c \<in> {44, 46}"
    and a: "applyFac t v s ig pm = Some (RS_RET_OK, pm1)" and sk: "skipSep (c # r) = Some r1"
  shows "facLoop v s ig (t @ c # r) pm = facLoop v s ig r1 pm1"
proof -
  obtain d ds where d: "t = d # ds" "name_char d" using t hd_name by blast
  have "collect [9, 32, 44, 59, 46] 2047 (t @ c # r) = Some (t, c # r)"
    using t c by (intro collect_app) (auto simp: list_all_iff name_char_def)
  then have "collect [9, 32, 44, 59, 46] 2047 (d # ds @ c # r) = Some (d # ds, c # r)"
    using d(1) by simp
  then show ?thesis using d a sk
    by (subst facLoop.simps) (simp add: name_char_def del: collect.simps skipSep.simps)
qed

lemma facLoop_ok:
  assumes "0 \<le> v \<and> v \<le> 7 \<or> v = 16 \<or> v = 255" "\<not> (s \<and> v = 255)"
  shows "facs \<noteq> [] \<Longrightarrow> \<forall>t \<in> set facs. t = [42] \<or> t \<in> fst ` set syslogFacNames \<Longrightarrow> length pm = N_PMASK \<Longrightarrow>
    \<exists>pm'. facLoop v s ig (join 44 facs @ 46 # r) pm = Some (RS_RET_OK, pm') \<and>
      pm_upd (\<lambda>f. \<exists>t \<in> set facs. fac_in t f) v s ig pm pm'"
proof (induction facs arbitrary: pm rule: induct_list012)
  case (2 t)
  obtain pm1 where pm1: "applyFac t v s ig pm = Some (RS_RET_OK, pm1)" "pm_upd (fac_in t) v s ig pm pm1"
    using applyFac_ok [OF assms 2(3), of t ig] 2(2) by auto
  have "facLoop v s ig (t @ 46 # r) pm = facLoop v s ig (46 # r) pm1"
    by (rule facLoop_one [OF _ _ pm1(1)]) (use 2(2) fac_text in auto)
  then show ?case using pm1(2) by (auto simp: facLoop_done)
next
  case (3 t u us)
  obtain pm1 where pm1: "applyFac t v s ig pm = Some (RS_RET_OK, pm1)" "pm_upd (fac_in t) v s ig pm pm1"
    using applyFac_ok [OF assms 3(5), of t ig] 3(4) by auto
  have l: "length pm1 = N_PMASK" using pm1(2) by (simp add: pm_upd_def)
  obtain e es where e: "u = e # es" "name_char e" using 3(4) fac_text hd_name by (metis list.set_intros(1,2))
  then obtain es' where j: "join 44 (u # us) = e # es'" by (cases us) auto
  obtain pm2 where pm2: "facLoop v s ig (join 44 (u # us) @ 46 # r) pm1 = Some (RS_RET_OK, pm2)"
    "pm_upd (\<lambda>f. \<exists>t \<in> set (u # us). fac_in t f) v s ig pm1 pm2"
    using 3(2) [OF _ _ l] 3(4) by auto
  have "facLoop v s ig (t @ 44 # join 44 (u # us) @ 46 # r) pm = facLoop v s ig (join 44 (u # us) @ 46 # r) pm1"
    by (rule facLoop_one [OF _ _ pm1(1)]) (use 3(4) fac_text e(2) in \<open>auto simp: j name_char_def\<close>)
  then show ?case using pm2 pm_upd_trans [OF pm1(2) pm2(2)] by simp
qed simp

lemma facEnd_app: "\<forall>x \<in> set xs. x \<noteq> 0 \<and> x \<noteq> 9 \<and> x \<noteq> 46 \<Longrightarrow> facEnd (xs @ 46 # r) = Some r"
  by (induction xs) auto

lemma join_chars: "set (join c xs) \<subseteq> insert c (\<Union> (set ` set xs))"
  by (induction c xs rule: join.induct) auto

lemma sel_start: "sel_valid x \<Longrightarrow> \<exists>c cs. sel_text x = c # cs \<and> name_char c"
proof -
  assume v: "sel_valid x"
  then obtain t ts where t: "ps_facs x = t # ts" by (cases "ps_facs x") (auto simp: sel_valid_def)
  obtain c cs where "t = c # cs" "name_char c" using hd_name [of t] fac_text [of t] v t by (auto simp: sel_valid_def)
  then show ?thesis using t by (cases ts) (auto simp: sel_text_def)
qed

definition sel_end :: "prisel \<Rightarrow> byte list" where
  "sel_end x = (if ps_not x then [33] else []) @ (if ps_single x then [61] else []) @ ps_pri x"

lemma sel_text_end: "sel_text x @ r = join 44 (ps_facs x) @ 46 # sel_end x @ r"
  by (simp add: sel_text_def sel_end_def)

lemma decodePri_ok:
  assumes "sel_valid x"
  shows "\<exists>v. decodePri (sel_end x) = Some (v, ps_single x, ps_not x) \<and> map_of syslogPriNames (ps_pri x) = Some v \<and>
    (0 \<le> v \<and> v \<le> 7 \<or> v = 16 \<or> v = 255) \<and> \<not> (ps_single x \<and> v = 255)"
proof -
  obtain v where v: "decodeSyslogName (ps_pri x) syslogPriNames = Some v" "map_of syslogPriNames (ps_pri x) = Some v"
    "0 \<le> v \<and> v \<le> 7 \<or> v = 16 \<or> v = 255 \<and> ps_pri x = [42]" "ps_pri x \<noteq> []" "hd (ps_pri x) \<noteq> 33" "hd (ps_pri x) \<noteq> 61"
    using decode_pri [of "ps_pri x"] assms unfolding sel_valid_def by blast
  have "decodePri (sel_end x) = Some (v, ps_single x, ps_not x)"
    using v by (cases "ps_not x"; cases "ps_single x") (simp_all add: decodePri_def sel_end_def)
  then show ?thesis using v assms by (auto simp: sel_valid_def)
qed

lemma sel_end_chars:
  assumes "sel_valid x"
  shows "list_all name_char (sel_end x)" "length (sel_end x) \<le> 2047"
proof -
  have "list_all name_char (ps_pri x) \<and> length (ps_pri x) < 79"
    using decode_pri [of "ps_pri x"] assms unfolding sel_valid_def by blast
  then show "list_all name_char (sel_end x)" "length (sel_end x) \<le> 2047"
    by (auto simp: sel_end_def name_char_def)
qed

lemma selector_pri_ok:
  assumes "sel_valid x" and c: "c \<in> {0, 44, 59}"
  shows "\<exists>v. selector_pri (sel_text x @ c # r) =
      map_option (Pair (v, ps_single x, ps_not x)) (if c \<noteq> 0 then skipCruft (c # r) else Some (c # r)) \<and>
    map_of syslogPriNames (ps_pri x) = Some v \<and> (0 \<le> v \<and> v \<le> 7 \<or> v = 16 \<or> v = 255) \<and> \<not> (ps_single x \<and> v = 255)"
proof -
  obtain v where v: "decodePri (sel_end x) = Some (v, ps_single x, ps_not x)" "map_of syslogPriNames (ps_pri x) = Some v"
    "0 \<le> v \<and> v \<le> 7 \<or> v = 16 \<or> v = 255" "\<not> (ps_single x \<and> v = 255)"
    using decodePri_ok [OF assms(1)] by blast
  have "\<forall>d \<in> set (join 44 (ps_facs x)). d = 44 \<or> name_char d"
  proof
    fix d assume "d \<in> set (join 44 (ps_facs x))"
    then consider "d = 44" | t where "t \<in> set (ps_facs x)" "d \<in> set t" using join_chars [of 44 "ps_facs x"] by blast
    then show "d = 44 \<or> name_char d"
    proof cases
      case 2
      then have "list_all name_char t" using fac_text [of t] assms(1) unfolding sel_valid_def by blast
      then show ?thesis using 2 by (simp add: list_all_iff)
    qed simp
  qed
  then have "facEnd (join 44 (ps_facs x) @ 46 # sel_end x @ c # r) = Some (sel_end x @ c # r)"
    by (intro facEnd_app) (auto simp: name_char_def)
  moreover have "collect [9, 32, 44, 59] 2047 (sel_end x @ c # r) = Some (sel_end x, c # r)"
    using sel_end_chars [OF assms(1)] c by (intro collect_app) (auto simp: list_all_iff name_char_def)
  ultimately have "selector_pri (sel_text x @ c # r) =
      map_option (Pair (v, ps_single x, ps_not x)) (if c \<noteq> 0 then skipCruft (c # r) else Some (c # r))"
    unfolding sel_text_end selector_pri_def
    by (simp add: v(1) map_conv_bind_option comp_def del: skipCruft.simps collect.simps facEnd.simps)
  then show ?thesis using v by blast
qed

definition pm_is :: "pmask \<Rightarrow> (nat \<Rightarrow> nat \<Rightarrow> bool) \<Rightarrow> bool" where
  "pm_is pm P \<longleftrightarrow> length pm = N_PMASK \<and> (\<forall>f < N_PMASK. \<forall>k < 8. bit (pm ! f) k \<longleftrightarrow> P f k)"

lemma selector_ok:
  assumes "sel_valid x" "pm_is pm P" "c \<in> {0, 44, 59}"
    and "(if c \<noteq> 0 then skipCruft (c # r) else Some (c # r)) = Some q"
  shows "\<exists>pm'. selector (sel_text x @ c # r) pm = Some (RS_RET_OK, q, pm') \<and>
    pm_is pm' (\<lambda>f k. sel_pass f k x (P f k))"
proof -
  obtain v where v: "selector_pri (sel_text x @ c # r) = Some ((v, ps_single x, ps_not x), q)"
    "map_of syslogPriNames (ps_pri x) = Some v" "0 \<le> v \<and> v \<le> 7 \<or> v = 16 \<or> v = 255" "\<not> (ps_single x \<and> v = 255)"
    using selector_pri_ok [OF assms(1,3), of r] unfolding assms(4) by auto
  obtain pm' where "facLoop v (ps_single x) (ps_not x) (sel_text x @ c # r) pm = Some (RS_RET_OK, pm')"
    "pm_upd (\<lambda>f. \<exists>t \<in> set (ps_facs x). fac_in t f) v (ps_single x) (ps_not x) pm pm'"
    using facLoop_ok [OF v(3,4), of "ps_facs x" pm "ps_not x" "sel_end x @ c # r"] assms(1,2)
    unfolding sel_text_end by (auto simp: sel_valid_def pm_is_def)
  then show ?thesis using v assms(2)
    by (auto simp: selector_def pm_is_def pm_upd_def sel_pass_def)
qed

lemma priLoop_sel:
  assumes "sel_valid x" "selector (sel_text x @ r) pm = Some (RS_RET_OK, q, pm')"
  shows "priLoop (sel_text x @ r) pm = priLoop q pm'"
proof -
  obtain d ds where d: "sel_text x = d # ds" "name_char d" using sel_start [OF assms(1)] by blast
  then show ?thesis using assms(2) by (subst priLoop.simps) (simp add: name_char_def)
qed

lemma priLoop_ok:
  "\<forall>x \<in> set xs. sel_valid x \<Longrightarrow> pm_is pm P \<Longrightarrow>
   \<exists>pm'. priLoop (join 59 (map sel_text xs) @ [0]) pm = Some (RS_RET_OK, pm') \<and>
     pm_is pm' (\<lambda>f k. fold (sel_pass f k) xs (P f k))"
proof (induction xs arbitrary: pm P rule: induct_list012)
  case 1
  then show ?case by (simp add: priLoop.simps)
next
  case (2 x)
  obtain pm' where "selector (sel_text x @ [0]) pm = Some (RS_RET_OK, [0], pm')"
    "pm_is pm' (\<lambda>f k. sel_pass f k x (P f k))"
    using selector_ok [of x pm P 0 "[]" "[0]"] 2 by auto
  moreover have "priLoop [0] pm' = Some (RS_RET_OK, pm')" by (simp add: priLoop.simps)
  ultimately show ?case using priLoop_sel [of x "[0]" pm "[0]" pm'] 2(1) by simp
next
  case (3 x y zs)
  obtain d ds where d: "sel_text y = d # ds" "name_char d" using sel_start [of y] 3(3) by auto
  let ?j = "join 59 (map sel_text (y # zs)) @ [0]"
  have "skipCruft (59 # ?j) = Some ?j" using d by (cases zs) (auto simp: name_char_def)
  then obtain pm1 where pm1: "selector (sel_text x @ 59 # ?j) pm = Some (RS_RET_OK, ?j, pm1)"
    "pm_is pm1 (\<lambda>f k. sel_pass f k x (P f k))"
    using selector_ok [of x pm P 59 ?j ?j] 3(3,4) by auto
  obtain pm' where pm': "priLoop ?j pm1 = Some (RS_RET_OK, pm')"
    "pm_is pm' (\<lambda>f k. fold (sel_pass f k) (y # zs) (sel_pass f k x (P f k)))"
    using 3(2) [OF _ pm1(2)] 3(3) by auto
  have "priLoop (sel_text x @ 59 # ?j) pm = priLoop ?j pm1" using priLoop_sel [OF _ pm1(1)] 3(3) by simp
  then show ?case using pm' by simp
qed

text \<open>
  A traditional filter made of well-formed selectors is decoded without undefined behaviour
  into the mask that the documentation describes: a message passes when the selectors, applied
  from left to right, let its facility and severity pass; a selector adds the severities at
  least as urgent as the one named, or exactly that one behind \<open>=\<close>, or all; \<open>!\<close> removes them, and
  \<open>none\<close> removes all of a facility.
\<close>

theorem pri_filter_decoded:
  assumes "\<forall>x \<in> set xs. sel_valid x" and "length pm = N_PMASK"
    and "0 \<le> iFacility m" "iFacility m < int N_PMASK" "0 \<le> iSeverity m" "iSeverity m \<le> 7"
  shows "\<exists>pm'. DecodePRIFilter (join 59 (map sel_text xs) @ [0]) pm = Some (RS_RET_OK, pm') \<and>
    prifilt_match pm' m = Some (fold (sel_pass (nat (iFacility m)) (nat (iSeverity m))) xs False)"
proof -
  have "pm_is (map (\<lambda>_. TABLE_NOPRI) pm) (\<lambda>_ _. False)"
    using assms(2) by (simp add: pm_is_def TABLE_NOPRI_def)
  then obtain pm' where "DecodePRIFilter (join 59 (map sel_text xs) @ [0]) pm = Some (RS_RET_OK, pm')"
    "pm_is pm' (\<lambda>f k. fold (sel_pass f k) xs False)"
    unfolding DecodePRIFilter_def using priLoop_ok [OF assms(1)] by blast
  moreover have "nat (iFacility m) < N_PMASK" "nat (iSeverity m) < 8" using assms(3-6) by linarith+
  ultimately show ?thesis using assms(3-6) by (auto simp: prifilt_match_iff pm_is_def)
qed

text \<open>
  A filter that ends in a comma or a semicolon is read beyond its terminator: the loop that
  skips separators looks for the byte in \<open>",;"\<close> with \<open>strchr\<close>, which finds the terminator too.
\<close>

theorem trailing_separator_over_reads:
  assumes "sel_valid x" and "c \<in> {44, 59}"
  shows "DecodePRIFilter (sel_text x @ [c, 0]) pm = None"
proof -
  obtain d ds where d: "sel_text x = d # ds" "name_char d" using sel_start [OF assms(1)] by blast
  have "selector_pri (sel_text x @ [c, 0]) = None" using selector_pri_ok [of x c "[0]"] assms by auto
  then show ?thesis using d by (simp add: DecodePRIFilter_def priLoop.simps selector_def name_char_def)
qed

lemma digs_hd: "0 < n \<Longrightarrow> \<exists>d ds. digs n = d # ds \<and> isdigit d"
  using hd_digs [of n] digs_digit [of _ n] by fastforce

lemma digit_name: "isdigit d \<Longrightarrow> name_char d \<and> d \<noteq> 42"
  by (auto simp: isdigit_def name_char_def)

text \<open>
  A facility can be given by its number, which is used as an index of the mask without a
  test: any number from 208 on writes behind the mask.
\<close>

theorem numeric_facility_out_of_bounds:
  assumes "208 \<le> n" "n \<le> 2147483647" and "p \<in> fst ` set syslogPriNames" and "length pm = N_PMASK"
  shows "DecodePRIFilter (digs n @ 46 # p @ [0]) pm = None"
proof -
  obtain d ds where d: "digs n = d # ds" "isdigit d" using digs_hd [of n] assms(1) by auto
  obtain v where v: "decodeSyslogName p syslogPriNames = Some v" "0 \<le> v" "p \<noteq> []" "hd p \<noteq> 33" "hd p \<noteq> 61"
    "list_all name_char p" "length p < 79"
    using decode_pri [OF assms(3)] by auto
  have nc: "\<forall>x \<in> set (digs n). name_char x" using digs_digit digit_name by blast
  have len: "length (digs n) \<le> 10" by (rule digs_length) (use assms(2) in simp)
  have "facEnd (digs n @ 46 # p @ [0]) = Some (p @ [0])"
    using nc by (intro facEnd_app) (auto simp: name_char_def)
  moreover have "collect [9, 32, 44, 59] 2047 (p @ 0 # []) = Some (p, 0 # [])"
    using v(6,7) by (intro collect_app) (auto simp: list_all_iff name_char_def)
  ultimately have sp: "selector_pri (digs n @ 46 # p @ [0]) = Some ((v, False, False), [0])"
    using v by (simp add: selector_pri_def decodePri_def)
  have tw: "takeWhile isdigit (digs n) = digs n" using digs_digit by (simp add: takeWhile_eq_all_conv)
  have "atoi (digs n) = Some (int n)" unfolding atoi_def tw dval_digs using assms(2) by simp
  then have "decodeSyslogName (digs n) syslogFacNames = Some (int n)"
    using d by (simp add: decodeSyslogName_def)
  then have af: "applyFac (digs n) v False False (map (\<lambda>_. TABLE_NOPRI) pm) = None"
    using d digit_name assms(1,4) by (simp add: applyFac_def N_PMASK_def)
  have "collect [9, 32, 44, 59, 46] 2047 (digs n @ 46 # p @ [0]) = Some (digs n, 46 # p @ [0])"
    using nc len by (intro collect_app) (auto simp: name_char_def)
  then have "facLoop v False False (digs n @ 46 # p @ [0]) (map (\<lambda>_. TABLE_NOPRI) pm) = None"
    using af d digit_name [OF d(2)] by (subst facLoop.simps) (simp add: name_char_def del: collect.simps)
  then have "selector (digs n @ 46 # p @ [0]) (map (\<lambda>_. TABLE_NOPRI) pm) = None"
    using sp v(2) by (simp add: selector_def)
  then show ?thesis
    using d digit_name [OF d(2)] by (simp add: DecodePRIFilter_def priLoop.simps name_char_def)
qed

section \<open>Examples\<close>

definition pri_ex :: "prisel list" where
  "pri_ex = [\<lparr>ps_facs = [lit ''mail'', lit ''news''], ps_not = False, ps_single = False, ps_pri = lit ''info''\<rparr>,
     \<lparr>ps_facs = [[42]], ps_not = False, ps_single = True, ps_pri = lit ''crit''\<rparr>]"

lemma pri_ex_valid: "list_all sel_valid pri_ex"
  by code_simp

theorem pri_filter_decoded_witness:
  "\<exists>pm'. DecodePRIFilter (join 59 (map sel_text pri_ex) @ [0]) (replicate 26 0) = Some (RS_RET_OK, pm') \<and>
    prifilt_match pm' (pmsg_ex []) =
      Some (fold (sel_pass (nat (iFacility (pmsg_ex []))) (nat (iSeverity (pmsg_ex [])))) pri_ex False)"
  by (rule pri_filter_decoded) (use pri_ex_valid in \<open>simp_all add: list_all_iff N_PMASK_def pmsg_ex_def\<close>)

theorem trailing_separator_over_reads_witness:
  "DecodePRIFilter (sel_text (hd pri_ex) @ [59, 0]) (replicate 26 0) = None"
  by (rule trailing_separator_over_reads) (use pri_ex_valid in \<open>simp_all add: pri_ex_def\<close>)

theorem numeric_facility_out_of_bounds_witness:
  "DecodePRIFilter (digs 999 @ 46 # lit ''info'' @ [0]) (replicate 26 0) = None"
  by (rule numeric_facility_out_of_bounds) (simp_all add: N_PMASK_def syslogPriNames_def)

end
