(* ===== verification/Estr.thy ===== *)
theory Estr
  imports Bytes "HOL-Library.List_Lexorder"
begin

text \<open>
  The string library libestr (src/string.c): strings of bytes with a length and a buffer size,
  both of 32 bits, that grow by reallocation. A buffer is a list of cells, \<open>None\<close> a cell nobody
  wrote; reading such a cell or a cell outside the buffer is undefined. Indices are natural
  numbers: they stay below the length of the string plus three. \<open>malloc\<close> and \<open>realloc\<close> are the
  boolean arguments.
\<close>

record es_str =
  lenStr :: "32 word"
  lenBuf :: "32 word"
  es_buf :: "byte option list"

definition ENOMEM :: int where "ENOMEM = 12"

definition sizeof_es_str :: "32 word" where "sizeof_es_str = 8"

section \<open>Creating and growing\<close>

definition es_extendBuf :: "bool \<Rightarrow> es_str \<Rightarrow> 32 word \<Rightarrow> int \<times> es_str" where
  "es_extendBuf reallocOK s minNeeded =
     (let newSize = (if minNeeded > lenBuf s then lenBuf s + minNeeded else 2 * lenBuf s);
          newAlloc = newSize + sizeof_es_str
      in if newSize < minNeeded then (ENOMEM, s)
         else if newAlloc < newSize then (ENOMEM, s)
         else if \<not> reallocOK then (ENOMEM, s)
         else (0, s\<lparr>lenBuf := newSize,
                    es_buf := take (unat newSize) (es_buf s) @ replicate (unat newSize - length (es_buf s)) None\<rparr>))"

text \<open>
  \<open>sizeof(es_str_t) + lenhint\<close> is a sum of 64 bits, so the test for an overflow never holds;
  the rounding is one of 32 bits.
\<close>

definition es_newStr :: "bool \<Rightarrow> 32 word \<Rightarrow> es_str option" where
  "es_newStr mallocOK lenhint0 =
     (let lenhint = (if and lenhint0 7 \<noteq> 0 then lenhint0 - and lenhint0 7 + 8 else lenhint0);
          l64 = (ucast lenhint :: 64 word)
      in if 8 + l64 < l64 \<or> \<not> mallocOK then None
         else Some \<lparr>lenStr = 0, lenBuf = lenhint, es_buf = replicate (unat lenhint) None\<rparr>)"

definition es_newStrFromCStr :: "bool \<Rightarrow> byte list \<Rightarrow> 32 word \<Rightarrow> es_str option option" where
  "es_newStrFromCStr mallocOK cstr len =
     (case es_newStr mallocOK len of
        None \<Rightarrow> Some None
      | Some s \<Rightarrow> do { b \<leftarrow> memcpy (es_buf s) 0 (map Some cstr) (unat len);
                       Some (Some (s\<lparr>es_buf := b, lenStr := len\<rparr>)) })"

definition es_newStrFromBuf :: "bool \<Rightarrow> byte list \<Rightarrow> 32 word \<Rightarrow> es_str option option" where
  "es_newStrFromBuf mallocOK buf len =
     (case es_newStr mallocOK len of
        None \<Rightarrow> Some None
      | Some s \<Rightarrow> do { b \<leftarrow> memcpy (es_buf s) 0 (map Some buf) (unat len);
                       Some (Some (s\<lparr>es_buf := b, lenStr := len\<rparr>)) })"

definition es_newStrFromSubStr :: "bool \<Rightarrow> es_str \<Rightarrow> 32 word \<Rightarrow> 32 word \<Rightarrow> es_str option option" where
  "es_newStrFromSubStr mallocOK str start len0 =
     (if start + len0 < start then Some None
      else case es_newStr mallocOK len0 of
          None \<Rightarrow> Some None
        | Some s \<Rightarrow>
            if start > lenStr str then Some (Some s)
            else (let len = (if start + len0 > lenStr str - 1 then lenStr str - start else len0)
                  in do { b \<leftarrow> memcpy (es_buf s) 0 (drop (unat start) (es_buf str)) (unat len);
                          Some (Some (s\<lparr>es_buf := b, lenStr := len\<rparr>)) }))"

definition es_addChar :: "bool \<Rightarrow> es_str \<Rightarrow> byte \<Rightarrow> (int \<times> es_str) option" where
  "es_addChar reallocOK s c =
     (let (r, s1) = (if lenStr s \<ge> lenBuf s then es_extendBuf reallocOK s 1 else (0, s))
      in if r \<noteq> 0 then Some (r, s1)
         else do { b \<leftarrow> c_set (es_buf s1) (unat (lenStr s1)) (Some c);
                   Some (0, s1\<lparr>es_buf := b, lenStr := lenStr s1 + 1\<rparr>) })"

definition es_addBuf :: "bool \<Rightarrow> es_str \<Rightarrow> byte list \<Rightarrow> 32 word \<Rightarrow> (int \<times> es_str) option" where
  "es_addBuf reallocOK s1 buf len =
     (if len = 0 then Some (0, s1)
      else let newlen = lenStr s1 + len
      in if unat newlen \<noteq> unat (lenStr s1) + unat len then Some (ENOMEM, s1)
         else let (r, s2) = (if lenBuf s1 < newlen then es_extendBuf reallocOK s1 (newlen - lenBuf s1) else (0, s1))
         in if r \<noteq> 0 then Some (r, s2)
            else do { b \<leftarrow> memcpy (es_buf s2) (unat (lenStr s2)) (map Some buf) (unat len);
                      Some (0, s2\<lparr>es_buf := b, lenStr := newlen\<rparr>) })"

section \<open>Comparing\<close>

text \<open>The loop of both buffer comparisons, \<open>cv\<close> the identity or \<open>tolower\<close>.\<close>

function bufcmpLoop :: "(byte \<Rightarrow> byte) \<Rightarrow> byte option list \<Rightarrow> nat \<Rightarrow> byte list \<Rightarrow> nat \<Rightarrow> nat \<Rightarrow> int option" where
  "bufcmpLoop cv c n buf m i =
     (if \<not> i < n then Some 0
      else if i = m then Some 1
      else case (rd c i, c_get buf i) of
          (Some x, Some y) \<Rightarrow> if cv x \<noteq> cv y then Some (uint (cv x) - uint (cv y))
                              else bufcmpLoop cv c n buf m (Suc i)
        | _ \<Rightarrow> None)"
  by pat_completeness auto
termination by (relation "measure (\<lambda>(cv, c, n, buf, m, i). n - i)") auto

declare bufcmpLoop.simps [simp del]

definition bufcmp :: "(byte \<Rightarrow> byte) \<Rightarrow> es_str \<Rightarrow> byte list \<Rightarrow> 32 word \<Rightarrow> int option" where
  "bufcmp cv s buf len =
     do { r \<leftarrow> bufcmpLoop cv (es_buf s) (unat (lenStr s)) buf (unat len) 0;
          Some (if r = 0 \<and> lenStr s < len then -1 else r) }"

definition es_strbufcmp :: "es_str \<Rightarrow> byte list \<Rightarrow> 32 word \<Rightarrow> int option" where
  "es_strbufcmp s buf len = bufcmp (\<lambda>x. x) s buf len"

definition es_strcasebufcmp :: "es_str \<Rightarrow> byte list \<Rightarrow> 32 word \<Rightarrow> int option" where
  "es_strcasebufcmp s buf len = bufcmp tolower s buf len"

text \<open>
  The loop of \<open>es_strncmp\<close> and \<open>es_strncasecmp\<close>; the latter tests the length of its first string
  where the former tests the one of the second, the argument \<open>n2\<close>.
\<close>

function ncmpLoop :: "(byte \<Rightarrow> byte) \<Rightarrow> byte option list \<Rightarrow> nat \<Rightarrow> byte option list \<Rightarrow> nat \<Rightarrow> nat \<Rightarrow> nat \<Rightarrow> int option" where
  "ncmpLoop cv c1 n1 c2 n2 len i =
     (if \<not> i < len then Some 0
      else if i \<ge> n1 then (if i \<ge> n2 then Some 0 else Some (-1))
      else if i \<ge> n2 then Some 1
      else case (rd c1 i, rd c2 i) of
          (Some x, Some y) \<Rightarrow> if cv x \<noteq> cv y then Some (uint (cv x) - uint (cv y))
                              else ncmpLoop cv c1 n1 c2 n2 len (Suc i)
        | _ \<Rightarrow> None)"
  by pat_completeness auto
termination by (relation "measure (\<lambda>(cv, c1, n1, c2, n2, len, i). len - i)") auto

declare ncmpLoop.simps [simp del]

definition es_strncmp :: "es_str \<Rightarrow> es_str \<Rightarrow> 32 word \<Rightarrow> int option" where
  "es_strncmp s1 s2 len =
     ncmpLoop (\<lambda>x. x) (es_buf s1) (unat (lenStr s1)) (es_buf s2) (unat (lenStr s2)) (unat len) 0"

definition es_strncasecmp :: "es_str \<Rightarrow> es_str \<Rightarrow> 32 word \<Rightarrow> int option" where
  "es_strncasecmp s1 s2 len =
     ncmpLoop tolower (es_buf s1) (unat (lenStr s1)) (es_buf s2) (unat (lenStr s1)) (unat len) 0"

section \<open>Well-formed strings\<close>

definition es_ok :: "es_str \<Rightarrow> bool" where
  "es_ok s \<longleftrightarrow> length (es_buf s) = unat (lenBuf s) \<and> lenStr s \<le> lenBuf s \<and>
     None \<notin> set (take (unat (lenStr s)) (es_buf s))"

definition content :: "es_str \<Rightarrow> byte list" where
  "content s = map the (take (unat (lenStr s)) (es_buf s))"

lemma es_len: "es_ok s \<Longrightarrow> length (content s) = unat (lenStr s)"
  by (simp add: es_ok_def content_def word_le_nat_alt)

lemma es_buf_split: "es_ok s \<Longrightarrow> es_buf s = map Some (content s) @ drop (unat (lenStr s)) (es_buf s)"
proof -
  assume "es_ok s"
  then have "map (Some \<circ> the) (take (unat (lenStr s)) (es_buf s)) = take (unat (lenStr s)) (es_buf s)"
    by (intro map_idI) (metis comp_apply es_ok_def option.collapse)
  then show ?thesis by (simp add: content_def)
qed

lemma rd_content: "es_ok s \<Longrightarrow> i < length (content s) \<Longrightarrow> rd (es_buf s) i = Some (content s ! i)"
  by (subst es_buf_split) (auto simp: rd_def c_get_def nth_append es_len)

lemma es_okI: "es_buf s = map Some xs @ r \<Longrightarrow> unat (lenStr s) = length xs \<Longrightarrow>
   length xs + length r = unat (lenBuf s) \<Longrightarrow> es_ok s \<and> content s = xs"
  by (auto simp: es_ok_def content_def word_le_nat_alt comp_def)


section \<open>The comparison they implement\<close>

fun lcmp :: "byte list \<Rightarrow> byte list \<Rightarrow> int" where
  "lcmp [] [] = 0"
| "lcmp [] (y # ys) = -1"
| "lcmp (x # xs) [] = 1"
| "lcmp (x # xs) (y # ys) = (if x \<noteq> y then uint x - uint y else lcmp xs ys)"

lemma uint_diff_zero: "uint (x :: byte) = uint y \<longleftrightarrow> x = y"
  by (simp flip: word_uint_eq_iff)

lemma lcmp_zero: "lcmp xs ys = 0 \<longleftrightarrow> xs = ys"
  by (induction xs ys rule: lcmp.induct) (auto simp: uint_diff_zero)

lemma lcmp_less: "lcmp xs ys < 0 \<longleftrightarrow> xs < ys"
  by (induction xs ys rule: lcmp.induct) (auto simp: word_less_def)

lemma bufcmpLoop_ref:
  "i \<le> length xs \<Longrightarrow> i \<le> length ys \<Longrightarrow>
   \<exists>r. bufcmpLoop cv (map Some xs @ rest) (length xs) ys (length ys) i = Some r \<and>
       (if r = 0 \<and> length xs < length ys then -1 else r) = lcmp (map cv (drop i xs)) (map cv (drop i ys))"
proof (induction "length xs - i" arbitrary: i)
  case 0
  then show ?case by (cases "drop i ys") (auto simp: bufcmpLoop.simps)
next
  case (Suc d)
  then have i: "i < length xs" by simp
  then have x: "drop i xs = xs ! i # drop (Suc i) xs" by (simp add: Cons_nth_drop_Suc)
  show ?case
  proof (cases "i = length ys")
    case True
    then show ?thesis using i x by (simp add: bufcmpLoop.simps)
  next
    case False
    then have y: "i < length ys" "drop i ys = ys ! i # drop (Suc i) ys"
      using Suc.prems by (simp_all add: Cons_nth_drop_Suc)
    have r: "rd (map Some xs @ rest) i = Some (xs ! i)" using i by (simp add: rd_def nth_append)
    show ?thesis
    proof (cases "cv (xs ! i) = cv (ys ! i)")
      case True
      then show ?thesis using Suc.hyps(1) [of "Suc i"] Suc.hyps(2) i y x r False
        by (subst bufcmpLoop.simps) auto
    next
      case neq: False
      then show ?thesis using i y x r False
        by (subst bufcmpLoop.simps) (auto simp: uint_diff_zero)
    qed
  qed
qed

lemma bufcmp_ref:
  assumes "es_ok s" "length buf = unat len"
  shows "bufcmp cv s buf len = Some (lcmp (map cv (content s)) (map cv buf))"
proof -
  let ?r = "drop (unat (lenStr s)) (es_buf s)"
  have b: "es_buf s = map Some (content s) @ ?r" using es_buf_split [OF assms(1)] .
  obtain r where "bufcmpLoop cv (map Some (content s) @ ?r) (length (content s)) buf (length buf) 0 = Some r"
    "(if r = 0 \<and> length (content s) < length buf then -1 else r) = lcmp (map cv (content s)) (map cv buf)"
    using bufcmpLoop_ref [of 0 "content s" buf cv ?r] by auto
  then show ?thesis using assms es_len [OF assms(1)] b
    by (simp add: bufcmp_def word_less_nat_alt)
qed

lemma ncmpLoop_ref:
  "i \<le> length xs \<Longrightarrow> i \<le> length ys \<Longrightarrow>
   ncmpLoop cv (map Some xs @ r1) (length xs) (map Some ys @ r2) (length ys) len i =
     Some (lcmp (map cv (take (len - i) (drop i xs))) (map cv (take (len - i) (drop i ys))))"
proof (induction "len - i" arbitrary: i)
  case 0
  then show ?case by (simp add: ncmpLoop.simps)
next
  case (Suc d)
  then have len: "len - i = Suc (len - Suc i)" "i < len" by simp_all
  show ?case
  proof (cases "i < length xs \<and> i < length ys")
    case True
    then have "drop i xs = xs ! i # drop (Suc i) xs" "drop i ys = ys ! i # drop (Suc i) ys"
      "rd (map Some xs @ r1) i = Some (xs ! i)" "rd (map Some ys @ r2) i = Some (ys ! i)"
      by (simp_all add: Cons_nth_drop_Suc rd_def nth_append)
    then show ?thesis using Suc.hyps(1) [of "Suc i"] Suc.hyps(2) True len
      by (subst ncmpLoop.simps) auto
  next
    case False
    then show ?thesis using Suc.prems len
      by (cases "drop i xs"; cases "drop i ys") (auto simp: ncmpLoop.simps)
  qed
qed

text \<open>
  The two buffer comparisons never read outside the string or the buffer and decide the
  lexicographic order of the bytes, the second one of the bytes in lower case: zero for equal,
  negative for smaller.
\<close>

theorem buffer_comparison_is_lexicographic:
  assumes "es_ok s" and "length buf = unat len"
  shows "\<exists>r q. es_strbufcmp s buf len = Some r \<and> es_strcasebufcmp s buf len = Some q \<and>
     (r = 0 \<longleftrightarrow> content s = buf) \<and> (r < 0 \<longleftrightarrow> content s < buf) \<and>
     (q = 0 \<longleftrightarrow> map tolower (content s) = map tolower buf) \<and>
     (q < 0 \<longleftrightarrow> map tolower (content s) < map tolower buf)"
  using bufcmp_ref [OF assms] by (simp add: es_strbufcmp_def es_strcasebufcmp_def lcmp_zero lcmp_less)

lemma strncmp_ref:
  assumes "es_ok s1" "es_ok s2"
  shows "es_strncmp s1 s2 len = Some (lcmp (take (unat len) (content s1)) (take (unat len) (content s2)))"
  unfolding es_strncmp_def
  using ncmpLoop_ref [of 0 "content s1" "content s2" "\<lambda>x. x" "drop (unat (lenStr s1)) (es_buf s1)"
      "drop (unat (lenStr s2)) (es_buf s2)" "unat len"] assms
  by (simp add: es_len es_buf_split [symmetric])

lemma lcmp_prefix: "lcmp (xs @ y # ys) xs > 0 \<and> lcmp xs (xs @ y # ys) < 0"
  by (induction xs) auto

text \<open>
  \<open>es_strncasecmp\<close> takes the length of its first string for both. When the first string is
  a proper prefix of the second, whatever the case of the letters, it reports them as equal
  although more bytes are to be compared; with the arguments exchanged it reads behind the end
  of the shorter string, which is undefined when its buffer is full.
\<close>

theorem case_compare_takes_first_length:
  assumes "es_ok s1" and "es_ok s2" and "map tolower (content s2) = map tolower (content s1) @ z # zs"
    and "lenStr s1 < len" and "lenBuf s1 = lenStr s1"
  shows "es_strncasecmp s1 s2 len = Some 0 \<and>
    lcmp (map tolower (take (unat len) (content s1))) (map tolower (take (unat len) (content s2))) < 0 \<and>
    es_strncasecmp s2 s1 len = None"
proof -
  let ?xs = "content s1" and ?ys = "content s2" let ?n = "length ?xs"
  have n: "unat (lenStr s1) = ?n" "unat (lenStr s2) = length ?ys" using es_len assms(1,2) by simp_all
  have len: "?n < unat len" using assms(4) n by (simp add: word_less_nat_alt)
  have le: "?n < length ?ys" using arg_cong [OF assms(3), of length] by simp
  have pre: "map tolower (take ?n ?ys) = map tolower ?xs"
    using assms(3) by (metis append_eq_conv_conj length_map take_map)
  have b1: "es_buf s1 = map Some ?xs"
    using es_buf_split [OF assms(1)] assms(1,5) by (simp add: es_ok_def)
  obtain r2 where b2: "es_buf s2 = map Some ?ys @ r2" using es_buf_split [OF assms(2)] by blast
  then have b2': "es_buf s2 = map Some (take ?n ?ys) @ (map Some (drop ?n ?ys) @ r2)"
    by (metis append.assoc append_take_drop_id map_append)
  have "es_strncasecmp s1 s2 len = Some (lcmp (map tolower ?xs) (map tolower (take ?n ?ys)))"
    using ncmpLoop_ref [of 0 ?xs "take ?n ?ys" tolower "[]" "map Some (drop ?n ?ys) @ r2" "unat len"] le len
    unfolding es_strncasecmp_def n b1 b2' by (simp add: min_absorb2)
  then have 1: "es_strncasecmp s1 s2 len = Some 0" unfolding pre by (simp add: lcmp_zero)
  have ze: "map tolower (take (unat len) ?ys) = map tolower ?xs @ z # take (unat len - Suc ?n) zs"
    using assms(3) len by (simp add: take_map [symmetric] take_Cons')
  have 2: "lcmp (map tolower (take (unat len) ?xs)) (map tolower (take (unat len) ?ys)) < 0"
    using len lcmp_prefix unfolding ze by simp
  have 3: "i \<le> ?n \<Longrightarrow> ncmpLoop tolower (es_buf s2) (length ?ys) (es_buf s1) (length ?ys) (unat len) i = None" for i
  proof (induction "?n - i" arbitrary: i)
    case 0
    then show ?case using le len b1 by (subst ncmpLoop.simps) (auto simp: rd_def split: option.splits)
  next
    case (Suc d)
    then have i: "i < ?n" by simp
    then have "rd (es_buf s2) i = Some (?ys ! i)" "rd (es_buf s1) i = Some (?xs ! i)"
      using le b1 b2 by (simp_all add: rd_def nth_append)
    moreover have "tolower (?ys ! i) = tolower (?xs ! i)"
      using arg_cong [OF pre, of "\<lambda>l. l ! i"] i le by simp
    ultimately show ?case using Suc.hyps(1) [of "Suc i"] Suc.hyps(2) i le len by (subst ncmpLoop.simps) simp
  qed
  show ?thesis using 1 2 3 [of 0] by (simp add: es_strncasecmp_def n)
qed

section \<open>Growing keeps the content\<close>

lemma no_wrap:
  fixes a b :: "32 word"
  shows "\<not> a + b < b \<Longrightarrow> unat (a + b) = unat a + unat b"
  using unsigned_less [of a, where 'a = nat]
  by (auto simp: word_less_nat_alt unat_plus_if' split: if_splits)

lemma extend_ok:
  assumes "es_ok s" "es_extendBuf ok s m = (r, s')" "m \<le> lenBuf s \<longrightarrow> unat (lenBuf s) < 2 ^ 31"
  shows "r \<in> {0, ENOMEM} \<and> es_ok s' \<and> content s' = content s \<and> lenStr s' = lenStr s \<and>
    (r = 0 \<longrightarrow> unat (lenBuf s) + unat m \<le> unat (lenBuf s')) \<and> (r \<noteq> 0 \<longrightarrow> s' = s)"
proof (cases "r = 0")
  case False
  then show ?thesis using assms by (auto simp: es_extendBuf_def Let_def split: if_splits)
next
  case True
  let ?n = "if m > lenBuf s then lenBuf s + m else 2 * lenBuf s"
  have n: "\<not> ?n < m" "s' = s\<lparr>lenBuf := ?n, es_buf := take (unat ?n) (es_buf s) @ replicate (unat ?n - length (es_buf s)) None\<rparr>"
    using assms(2) True by (auto simp: es_extendBuf_def Let_def ENOMEM_def split: if_splits)
  have grow: "unat (lenBuf s) + unat m \<le> unat ?n"
  proof (cases "m > lenBuf s")
    case True
    have "unat (lenBuf s + m) = unat (lenBuf s) + unat m"
      using n(1) True no_wrap [of "lenBuf s" m] by simp
    then show ?thesis using True by simp
  next
    case False
    then have "unat (2 * lenBuf s) = 2 * unat (lenBuf s)" using assms(3)
      by (simp add: unat_word_ariths)
    then show ?thesis using False by (simp add: word_less_nat_alt)
  qed
  let ?r = "drop (unat (lenStr s)) (es_buf s) @ replicate (unat ?n - length (es_buf s)) None"
  have b: "es_buf s' = map Some (content s) @ ?r"
    using n(2) grow assms(1) es_buf_split [OF assms(1)] by (simp add: es_ok_def)
  have "es_ok s' \<and> content s' = content s"
    by (rule es_okI [OF b]) (use n(2) grow assms(1) in \<open>auto simp: es_len es_ok_def word_le_nat_alt\<close>)
  then show ?thesis using True n(2) grow by simp
qed


text \<open>
  Appending works in place or in a larger buffer: as long as the buffer is below two
  gigabytes, or a larger piece than the buffer is appended, \<open>es_addBuf\<close> writes only inside the
  buffer and either appends exactly the bytes given or reports that memory is out and leaves
  the string as it was.
\<close>

theorem addBuf_appends:
  assumes "es_ok s" and "length buf = unat len" and "unat (lenBuf s) < 2 ^ 31"
  shows "\<exists>r s'. es_addBuf reallocOK s buf len = Some (r, s') \<and> es_ok s' \<and>
    (r = 0 \<and> content s' = content s @ buf \<or> r = ENOMEM \<and> s' = s)"
proof (cases "len = 0 \<or> unat (lenStr s + len) \<noteq> unat (lenStr s) + unat len")
  case True
  then show ?thesis using assms by (cases "len = 0") (auto simp: es_addBuf_def Let_def)
next
  case False
  let ?n = "lenStr s + len"
  obtain r s2 where e: "(if lenBuf s < ?n then es_extendBuf reallocOK s (?n - lenBuf s) else (0, s)) = (r, s2)"
    by fastforce
  have s2: "r \<in> {0, ENOMEM}" "es_ok s2" "content s2 = content s" "lenStr s2 = lenStr s" "r \<noteq> 0 \<longrightarrow> s2 = s"
    using e extend_ok [of s reallocOK "?n - lenBuf s" r s2] assms(1,3) by (auto split: if_splits)
  have room: "unat ?n \<le> unat (lenBuf s2)" if "r = 0"
  proof (cases "lenBuf s < ?n")
    case True
    then have "unat (lenBuf s) + unat (?n - lenBuf s) = unat ?n"
      by (simp add: unat_sub word_less_nat_alt word_le_nat_alt)
    then show ?thesis using True e extend_ok [of s reallocOK "?n - lenBuf s" r s2] assms(1,3) that by simp
  next
    case False
    then have "s2 = s" using e by simp
    then show ?thesis using False by (simp add: word_le_nat_alt not_less)
  qed
  show ?thesis
  proof (cases "r = 0")
    case True
    let ?b = "es_buf s2" let ?d = "drop (unat (lenStr s) + unat len) ?b"
    have l: "length ?b = unat (lenBuf s2)" "unat (lenStr s) + unat len \<le> length ?b" "length (content s) = unat (lenStr s)"
      using s2(2) room True False assms(1) by (simp_all add: es_ok_def es_len)
    have t: "take (unat (lenStr s)) ?b = map Some (content s)"
      using es_buf_split [OF s2(2)] l(3) s2(3,4) by (metis append_eq_conv_conj length_map)
    let ?s = "s2\<lparr>es_buf := map Some (content s @ buf) @ ?d, lenStr := ?n\<rparr>"
    have "es_ok ?s \<and> content ?s = content s @ buf"
      by (rule es_okI [where r = ?d]) (use l assms(2) False in simp_all)
    moreover have "es_addBuf reallocOK s buf len = Some (0, ?s)"
      using False e True s2(4) l t assms(2) by (auto simp: es_addBuf_def Let_def memcpy_def)
    ultimately show ?thesis by blast
  next
    case f: False
    then have "es_addBuf reallocOK s buf len = Some (r, s)"
      using False e s2(5) by (auto simp: es_addBuf_def Let_def)
    then show ?thesis using s2(1) f assms(1) by auto
  qed
qed

text \<open>
  Beyond two gigabytes doubling the buffer wraps: adding one character to a full string
  of that size shrinks the buffer to what is left of the product and then writes outside it.
\<close>

theorem addChar_overflows_large_string:
  assumes "es_ok s" and "lenStr s = lenBuf s" and "2 ^ 31 < unat (lenBuf s)" and "unat (lenBuf s) < 2 ^ 32 - 4"
  shows "es_addChar True s c = None"
proof -
  let ?n = "2 * lenBuf s"
  have n: "unat ?n = 2 * unat (lenBuf s) - 2 ^ 32"
    using assms(3,4) by (simp add: unat_word_ariths mod_if)
  then have big: "\<not> ?n < 1" using assms(3) by (simp add: word_less_nat_alt)
  have "unat (?n + 8) = unat ?n + 8" using n assms(4) by (simp add: unat_plus_if')
  then have a: "\<not> ?n + 8 < ?n" by (simp add: word_less_nat_alt)
  have "\<not> 1 > lenBuf s" using assms(3) by (simp add: word_less_nat_alt)
  then have e: "es_extendBuf True s 1 = (0, s\<lparr>lenBuf := ?n, es_buf := take (unat ?n) (es_buf s)\<rparr>)"
    using big a assms n by (simp add: es_extendBuf_def Let_def sizeof_es_str_def es_ok_def)
  have "\<not> unat (lenStr s) < length (take (unat ?n) (es_buf s))"
    using n assms(1,2,4) by (simp add: es_ok_def)
  then show ?thesis using e assms(2) by (simp add: es_addChar_def c_set_def)
qed


section \<open>New strings\<close>

lemma and_7: "unat (and w (7 :: 32 word)) = unat w mod 8"
proof -
  have "and w 7 = take_bit 3 w" by (simp add: take_bit_eq_mask mask_eq_exp_minus_1)
  then have "unat (and w 7) = take_bit 3 (unat w)" by (simp only: unsigned_take_bit_eq)
  then show ?thesis by (simp add: take_bit_eq_mod)
qed

lemma newStr_ok:
  assumes "unat len \<le> 2 ^ 32 - 8"
  shows "\<exists>l. es_newStr True len = Some \<lparr>lenStr = 0, lenBuf = l, es_buf = replicate (unat l) None\<rparr> \<and> len \<le> l"
proof -
  let ?l = "if and len 7 \<noteq> 0 then len - and len 7 + 8 else len"
  have "len \<le> ?l"
  proof (cases "and len 7 = 0")
    case False
    then have m: "0 < unat len mod 8" using and_7 [of len] by (metis gr0I unat_0_iff)
    have le: "and len 7 \<le> len" using and_7 [of len] by (simp add: word_le_nat_alt)
    have "unat (len - and len 7) = unat len - unat len mod 8"
      using unat_sub [OF le] and_7 [of len] by simp
    moreover have "unat len - unat len mod 8 + 8 < 2 ^ 32"
    proof -
      have "unat len < 2 ^ 32 - 8" using assms m by (cases "unat len = 2 ^ 32 - 8") auto
      then show ?thesis using m by simp
    qed
    ultimately have "unat (len - and len 7 + 8) = unat len - unat len mod 8 + 8"
      by (simp add: unat_plus_if')
    then show ?thesis using False by (simp add: word_le_nat_alt)
  qed simp
  moreover have "\<not> 8 + (ucast ?l :: 64 word) < ucast ?l"
  proof -
    have "unat (ucast ?l :: 64 word) = unat ?l" by (simp add: unsigned_ucast_eq take_bit_nat_eq_self_iff unsigned_less [where 'a = nat, THEN less_le_trans])
    then show ?thesis using unsigned_less [of ?l, where 'a = nat]
      by (simp add: word_less_nat_alt unat_plus_if')
  qed
  ultimately show ?thesis by (simp add: es_newStr_def Let_def)
qed


lemma memcpy_all: "n \<le> length c \<Longrightarrow> length xs = n \<Longrightarrow> memcpy c 0 (map Some xs) n = Some (map Some xs @ drop n c)"
  by (auto simp: memcpy_def)

lemma fill_ok:
  assumes "es_newStr True len = Some s" "unat len \<le> 2 ^ 32 - 8" "length xs = unat len"
  shows "memcpy (es_buf s) 0 (map Some xs) (unat len) = Some (map Some xs @ drop (unat len) (es_buf s)) \<and>
    es_ok (s\<lparr>es_buf := map Some xs @ drop (unat len) (es_buf s), lenStr := len\<rparr>) \<and>
    content (s\<lparr>es_buf := map Some xs @ drop (unat len) (es_buf s), lenStr := len\<rparr>) = xs"
proof -
  obtain l where l: "s = \<lparr>lenStr = 0, lenBuf = l, es_buf = replicate (unat l) None\<rparr>" "len \<le> l"
    using newStr_ok [OF assms(2)] assms(1) by auto
  have "memcpy (es_buf s) 0 (map Some xs) (unat len) = Some (map Some xs @ drop (unat len) (es_buf s))"
    using l assms(3) by (intro memcpy_all) (auto simp: word_le_nat_alt)
  then show ?thesis
    using es_okI [of "s\<lparr>es_buf := map Some xs @ drop (unat len) (es_buf s), lenStr := len\<rparr>" xs "drop (unat len) (es_buf s)"]
      l assms(3) by (auto simp: word_le_nat_alt)
qed

text \<open>
  A string made from a buffer holds its bytes; within the last seven lengths below four
  gigabytes the rounding of the size wraps to an empty buffer and the copy writes outside it.
\<close>

theorem newStrFromBuf_content:
  assumes "length buf = unat len"
  shows "if unat len \<le> 2 ^ 32 - 8
    then \<exists>s. es_newStrFromBuf True buf len = Some (Some s) \<and> es_ok s \<and> content s = buf
    else es_newStrFromBuf True buf len = None"
proof (cases "unat len \<le> 2 ^ 32 - 8")
  case True
  then obtain s where s: "es_newStr True len = Some s" using newStr_ok by blast
  show ?thesis using True fill_ok [OF s True assms] s by (auto simp: es_newStrFromBuf_def)
next
  case False
  define k where "k = unat len - 4294967288"
  have k: "unat len = k + 4294967288" "0 < k" "k < 8"
    using False unsigned_less [of len, where 'a = nat] by (simp_all add: k_def)
  have "(k + 536870911 * 8) mod 8 = k" using k(3) by (simp only: mod_mult_self1 mod_less)
  then have m: "unat len mod 8 = k" using k(1) by simp
  have "and len 7 \<le> len" using and_7 [of len] by (simp add: word_le_nat_alt)
  then have "unat (len - and len 7) = 4294967288" using m and_7 [of len] k by (simp add: unat_sub)
  then have "unat (len - and len 7 + 8) = 0" by (simp add: unat_word_ariths)
  then have "len - and len 7 + 8 = 0" by (simp only: unat_eq_zero)
  moreover have "and len 7 \<noteq> 0" using m and_7 [of len] k(2) by auto
  ultimately have "es_newStr True len = Some \<lparr>lenStr = 0, lenBuf = 0, es_buf = []\<rparr>"
    by (simp add: es_newStr_def)
  then show ?thesis using False k by (simp add: es_newStrFromBuf_def memcpy_def)
qed


text \<open>
  A substring is what the documentation promises, except of the empty string, where the bound
  \<open>es_strlen - 1\<close> wraps and the copy reads bytes the string does not have.
\<close>

theorem substr_content:
  assumes "es_ok s" and "lenStr s \<noteq> 0" and "unat len \<le> 2 ^ 32 - 8" and "unat start + unat len < 2 ^ 32"
  shows "\<exists>t. es_newStrFromSubStr True s start len = Some (Some t) \<and> es_ok t \<and>
    content t = take (unat len) (drop (unat start) (content s))"
proof -
  let ?xs = "content s"
  have n: "unat (lenStr s) = length ?xs" using es_len [OF assms(1)] by simp
  obtain R where b: "es_buf s = map Some ?xs @ R" using es_buf_split [OF assms(1)] by blast
  have sl: "unat (start + len) = unat start + unat len" using assms(4) by (simp add: unat_plus_if')
  have l1: "unat (lenStr s - 1) = length ?xs - 1" using n assms(2) by (simp add: unat_minus_one)
  obtain l where e: "es_newStr True len = Some \<lparr>lenStr = 0, lenBuf = l, es_buf = replicate (unat l) None\<rparr>" "len \<le> l"
    using newStr_ok [OF assms(3)] by blast
  let ?t = "\<lparr>lenStr = 0, lenBuf = l, es_buf = replicate (unat l) (None :: byte option)\<rparr>"
  have nw: "\<not> start + len < start" using sl by (simp add: word_less_nat_alt)
  show ?thesis
  proof (cases "start > lenStr s")
    case True
    then have "length ?xs < unat start" using n by (simp add: word_less_nat_alt)
    then show ?thesis using True e nw
      by (auto simp: es_newStrFromSubStr_def es_ok_def content_def)
  next
    case False
    let ?len = "if start + len > lenStr s - 1 then lenStr s - start else len"
    have st: "unat start \<le> length ?xs" using False n by (simp add: word_less_nat_alt)
    then have "unat (lenStr s - start) = length ?xs - unat start"
      using n by (simp add: unat_sub word_le_nat_alt)
    then have ul: "unat ?len = min (unat len) (length ?xs - unat start)"
      using st sl l1 assms(2) n by (auto simp: word_less_nat_alt min_def unat_eq_zero)
    let ?ys = "take (unat len) (drop (unat start) ?xs)"
    have ly: "length ?ys = unat ?len" using ul by simp
    have "take (unat ?len) (drop (unat start) (es_buf s)) = map Some ?ys"
      unfolding b using ul st by (auto simp: take_map drop_map min_def)
    then have "memcpy (es_buf ?t) 0 (drop (unat start) (es_buf s)) (unat ?len) =
        Some (map Some ?ys @ drop (unat ?len) (es_buf ?t))"
      using e(2) ul n assms(1) by (auto simp: memcpy_def word_le_nat_alt es_ok_def)
    moreover have "es_ok (?t\<lparr>es_buf := map Some ?ys @ drop (unat ?len) (es_buf ?t), lenStr := ?len\<rparr>) \<and>
       content (?t\<lparr>es_buf := map Some ?ys @ drop (unat ?len) (es_buf ?t), lenStr := ?len\<rparr>) = ?ys"
      by (rule es_okI [where r = "drop (unat ?len) (es_buf ?t)"]) (use ly ul e(2) in \<open>auto simp: word_le_nat_alt\<close>)
    ultimately show ?thesis using False e(1) nw
      by (simp add: es_newStrFromSubStr_def Let_def)
  qed
qed

section \<open>Witnesses\<close>

definition str_ex :: "byte list \<Rightarrow> nat \<Rightarrow> es_str" where
  "str_ex xs k = \<lparr>lenStr = of_nat (length xs), lenBuf = of_nat (length xs + k), es_buf = map Some xs @ replicate k None\<rparr>"

lemma str_ex_ok:
  assumes "length xs + k < 2 ^ 32"
  shows "es_ok (str_ex xs k) \<and> content (str_ex xs k) = xs"
  by (rule es_okI [where r = "replicate k None"])
    (use assms in \<open>simp_all add: str_ex_def unsigned_of_nat take_bit_nat_eq_self del: of_nat_add\<close>)

theorem buffer_comparison_is_lexicographic_witness:
  "\<exists>r q. es_strbufcmp (str_ex [97, 66] 1) [97, 98] 2 = Some r \<and> es_strcasebufcmp (str_ex [97, 66] 1) [97, 98] 2 = Some q \<and>
     (r = 0 \<longleftrightarrow> content (str_ex [97, 66] 1) = [97, 98]) \<and> (r < 0 \<longleftrightarrow> content (str_ex [97, 66] 1) < [97, 98]) \<and>
     (q = 0 \<longleftrightarrow> map tolower (content (str_ex [97, 66] 1)) = map tolower [97, 98]) \<and>
     (q < 0 \<longleftrightarrow> map tolower (content (str_ex [97, 66] 1)) < map tolower [97, 98])"
  by (rule buffer_comparison_is_lexicographic) (simp_all add: str_ex_ok)

theorem case_compare_takes_first_length_witness:
  "es_strncasecmp (str_ex [97] 0) (str_ex [65, 98] 0) 2 = Some 0 \<and>
    lcmp (map tolower (take (unat (2 :: 32 word)) (content (str_ex [97] 0)))) (map tolower (take (unat (2 :: 32 word)) (content (str_ex [65, 98] 0)))) < 0 \<and>
    es_strncasecmp (str_ex [65, 98] 0) (str_ex [97] 0) 2 = None"
  by (rule case_compare_takes_first_length [where z = 98 and zs = "[]"])
    (simp_all add: str_ex_ok, simp_all add: tolower_def str_ex_def)

theorem addBuf_appends_witness:
  "\<exists>r s'. es_addBuf True (str_ex [97] 0) [98, 99] 2 = Some (r, s') \<and> es_ok s' \<and>
    (r = 0 \<and> content s' = content (str_ex [97] 0) @ [98, 99] \<or> r = ENOMEM \<and> s' = str_ex [97] 0)"
  by (rule addBuf_appends) (simp_all add: str_ex_ok, simp add: str_ex_def)

theorem newStrFromBuf_content_witness:
  "\<exists>s. es_newStrFromBuf True [97, 98] 2 = Some (Some s) \<and> es_ok s \<and> content s = [97, 98]"
  using newStrFromBuf_content [of "[97, 98]" 2] by simp

end
