(* ===== verification/EstrConv.thy ===== *)
theory EstrConv
  imports Estr
begin

text \<open>
  Conversions of libestr strings (src/string.c): to and from numbers, the expansion of escape
  sequences in place, the search for a substring, the copy to a C string. \<open>long long\<close> has 64
  bits; an overflow of a signed sum is undefined.
\<close>

definition es_tolower :: "es_str \<Rightarrow> es_str option" where
  "es_tolower s =
     (let n = unat (lenStr s)
      in if n \<le> length (es_buf s) \<and> None \<notin> set (take n (es_buf s))
         then Some (s\<lparr>es_buf := map (map_option tolower) (take n (es_buf s)) @ drop n (es_buf s)\<rparr>)
         else None)"

section \<open>Numbers\<close>

definition LLONG_MAX :: int where "LLONG_MAX = 9223372036854775807"

definition ll :: "int \<Rightarrow> int option" where
  "ll x = (if - LLONG_MAX - 1 \<le> x \<and> x \<le> LLONG_MAX then Some x else None)"

text \<open>One step of the three conversions: the sum is evaluated from the left.\<close>

definition addDigit :: "int \<Rightarrow> int \<Rightarrow> int \<Rightarrow> int \<Rightarrow> int option" where
  "addDigit base num c zero =
     do { a \<leftarrow> ll (num * base); b \<leftarrow> ll (a + c); ll (b - zero) }"

text \<open>
  The loop: \<open>off\<close> is where the pointer into the buffer starts, \<open>ok\<close> the test for a digit and
  \<open>step\<close> what a digit does to the number. The result is the number and where the loop stopped.
\<close>

function str2numLoop :: "byte option list \<Rightarrow> nat \<Rightarrow> nat \<Rightarrow> (byte \<Rightarrow> bool) \<Rightarrow> (int \<Rightarrow> byte \<Rightarrow> int option) \<Rightarrow>
    nat \<Rightarrow> int \<Rightarrow> (int \<times> nat) option" where
  "str2numLoop c off n ok step i num =
     (if \<not> i < n then Some (num, i)
      else case rd c (off + i) of
          None \<Rightarrow> None
        | Some x \<Rightarrow>
            if \<not> ok x then Some (num, i)
            else case step num x of
                None \<Rightarrow> None
              | Some num' \<Rightarrow> str2numLoop c off n ok step (Suc i) num')"
  by pat_completeness auto
termination by (relation "measure (\<lambda>(c, off, n, ok, step, i, num). n - i)") auto

declare str2numLoop.simps [simp del]

definition es_str2num_dec :: "es_str \<Rightarrow> nat \<Rightarrow> (int \<times> bool) option" where
  "es_str2num_dec s i =
     do { (num, j) \<leftarrow> str2numLoop (es_buf s) 0 (unat (lenStr s)) isdigit (\<lambda>num c. addDigit 10 num (uint c) 48) i 0;
          Some (num, j = unat (lenStr s)) }"

definition es_str2num_oct :: "es_str \<Rightarrow> (int \<times> bool) option" where
  "es_str2num_oct s =
     do { (num, j) \<leftarrow> str2numLoop (es_buf s) 0 (unat (lenStr s)) (\<lambda>c. 48 \<le> c \<and> c \<le> 55)
                         (\<lambda>num c. addDigit 8 num (uint c) 48) 0 0;
          Some (num, j = unat (lenStr s)) }"

definition es_str2num_hex :: "es_str \<Rightarrow> (int \<times> bool) option" where
  "es_str2num_hex s =
     do { (num, j) \<leftarrow> str2numLoop (es_buf s) 2 (unat (lenStr s)) isxdigit
                         (\<lambda>num c. if isdigit c then addDigit 16 num (uint c) 48
                                  else addDigit 16 num (uint (tolower c)) 97) 0 0;
          Some (num, j = unat (lenStr s)) }"

definition es_str2num :: "es_str \<Rightarrow> (int \<times> bool) option" where
  "es_str2num s =
     (if lenStr s = 0 then Some (0, False)
      else do {
        c0 \<leftarrow> rd (es_buf s) 0;
        if c0 = 45 then do { (num, ok) \<leftarrow> es_str2num_dec s 1; m \<leftarrow> ll (- num); Some (m, ok) }
        else if c0 = 48
        then if lenStr s > 1
             then do { c1 \<leftarrow> rd (es_buf s) 1; if c1 = 120 then es_str2num_hex s else es_str2num_oct s }
             else es_str2num_oct s
        else es_str2num_dec s 0
      })"

text \<open>
  The digits, least significant first, into the buffer of 20 bytes; then the string is built
  from the back.
\<close>

function revDigits :: "byte option list \<Rightarrow> nat \<Rightarrow> nat \<Rightarrow> (byte option list \<times> nat) option" where
  "revDigits numbuf i num =
     (if num = 0 then Some (numbuf, i)
      else case c_set numbuf i (Some (of_nat (num mod 10 + 48))) of
          None \<Rightarrow> None
        | Some b \<Rightarrow> revDigits b (Suc i) (num div 10))"
  by pat_completeness auto
termination by (relation "measure (\<lambda>(b, i, num). num)") auto

declare revDigits.simps [simp del]

definition es_newStrFromNumber :: "bool \<Rightarrow> int \<Rightarrow> es_str option option" where
  "es_newStrFromNumber mallocOK num =
     (if num = - LLONG_MAX - 1
      then es_newStrFromCStr mallocOK (map (\<lambda>c. of_char c) ''-9223372036854775808'') 20
      else do {
        (b, i) \<leftarrow> revDigits (replicate 20 None) 0 (nat \<bar>num\<bar>);
        (b, i) \<leftarrow> (if i = 0 then map_option (\<lambda>b'. (b', i + 1)) (c_set b i (Some 48)) else Some (b, i));
        (b, i) \<leftarrow> (if num < 0 then map_option (\<lambda>b'. (b', i + 1)) (c_set b i (Some 45)) else Some (b, i));
        (case es_newStr mallocOK (of_nat i) of
           None \<Rightarrow> Some None
         | Some s \<Rightarrow> do { d \<leftarrow> memcpy (es_buf s) 0 (rev (take i b)) i;
                          Some (Some (s\<lparr>lenStr := of_nat i, es_buf := d\<rparr>)) })
      })"


section \<open>Numbers round trip\<close>

lemma str2numLoop_dec:
  "es_buf s = map Some (pre @ xs) @ r \<Longrightarrow> \<forall>d \<in> set xs. isdigit d \<Longrightarrow> 0 \<le> num \<Longrightarrow> dval num xs \<le> LLONG_MAX - 48 \<Longrightarrow>
   str2numLoop (es_buf s) 0 (length pre + length xs) isdigit (\<lambda>num c. addDigit 10 num (uint c) 48) (length pre) num =
     Some (dval num xs, length pre + length xs)"
proof (induction xs arbitrary: pre num)
  case Nil
  then show ?case by (simp add: str2numLoop.simps dval_def)
next
  case (Cons x xs)
  let ?num = "num * 10 + (uint x - 48)"
  have x: "48 \<le> uint x" "uint x \<le> 57" "isdigit x" using Cons.prems(2) by (simp_all add: isdigit_uint)
  have le: "?num \<le> LLONG_MAX - 48"
    using dval_mono [of ?num xs] Cons.prems x by (auto simp: dval_Cons)
  have "rd (es_buf s) (length pre) = Some x" using Cons.prems(1) by (simp add: rd_def nth_append)
  moreover have "addDigit 10 num (uint x) 48 = Some ?num"
    using x le Cons.prems(3) by (simp add: addDigit_def ll_def LLONG_MAX_def)
  moreover have "str2numLoop (es_buf s) 0 (length (pre @ [x]) + length xs) isdigit
      (\<lambda>num c. addDigit 10 num (uint c) 48) (length (pre @ [x])) ?num =
      Some (dval ?num xs, length (pre @ [x]) + length xs)"
    by (rule Cons.IH) (use Cons.prems x in \<open>auto simp: dval_Cons\<close>)
  ultimately show ?case using x by (subst str2numLoop.simps) (simp add: dval_Cons)
qed

lemma revDigits_ok:
  "i + length (digs n) \<le> length b \<Longrightarrow>
   revDigits b i n = Some (take i b @ map Some (rev (digs n)) @ drop (i + length (digs n)) b, i + length (digs n))"
proof (induction n arbitrary: b i rule: less_induct)
  case (less n)
  show ?case
  proof (cases "n = 0")
    case True
    then show ?thesis by (simp add: revDigits.simps)
  next
    case False
    let ?d = "of_nat (n mod 10 + 48) :: byte"
    have l: "length (digs n) = Suc (length (digs (n div 10)))" using False by (simp add: digs_pos)
    have "revDigits (b[i := Some ?d]) (Suc i) (n div 10) =
       Some (take (Suc i) (b[i := Some ?d]) @ map Some (rev (digs (n div 10))) @
             drop (Suc i + length (digs (n div 10))) (b[i := Some ?d]), Suc i + length (digs (n div 10)))"
      by (rule less.IH) (use False less.prems l in auto)
    then show ?thesis using False l less.prems
      by (subst revDigits.simps) (simp add: digs_pos take_Suc_conv_app_nth del: of_nat_add)
  qed
qed


lemma numtxt_length: "\<bar>n\<bar> \<le> LLONG_MAX \<Longrightarrow> length (numtxt n) \<le> 20"
proof -
  assume "\<bar>n\<bar> \<le> LLONG_MAX"
  then have "nat \<bar>n\<bar> < 10 ^ 19" by (simp add: LLONG_MAX_def)
  then show ?thesis using digs_length [of "nat \<bar>n\<bar>" 19] by (cases "n < 0") (auto simp: numtxt_def)
qed

lemma fromNumber_ok:
  assumes "\<bar>n\<bar> \<le> LLONG_MAX"
  shows "\<exists>s. es_newStrFromNumber True n = Some (Some s) \<and> es_ok s \<and> content s = numtxt n"
proof -
  let ?D = "digs (nat \<bar>n\<bar>)" let ?L = "length ?D" and ?t = "numtxt n"
  have L: "?L \<le> 19" using digs_length [of "nat \<bar>n\<bar>" 19] assms by (simp add: LLONG_MAX_def)
  have tl: "length ?t \<le> 20" using numtxt_length [OF assms] .
  then have ul: "unat (of_nat (length ?t) :: 32 word) = length ?t"
    by (simp add: unsigned_of_nat take_bit_nat_eq_self)
  obtain s where s: "es_newStr True (of_nat (length ?t)) = Some s" using newStr_ok [of "of_nat (length ?t)"] ul tl by auto
  note f = fill_ok [OF s, of ?t, unfolded ul]
  have r: "revDigits (replicate 20 None) 0 (nat \<bar>n\<bar>) = Some (map Some (rev ?D) @ replicate (20 - ?L) None, ?L)"
    using revDigits_ok [of 0 "nat \<bar>n\<bar>" "replicate 20 None"] L by simp
  have n: "n \<noteq> - LLONG_MAX - 1" using assms by auto
  have D: "?L = 0 \<longleftrightarrow> n = 0" by (cases "n = 0") (simp_all add: digs_pos)
  have "es_newStrFromNumber True n = Some (Some (s\<lparr>es_buf := map Some ?t @ drop (length ?t) (es_buf s), lenStr := of_nat (length ?t)\<rparr>))"
  proof -
    consider "n = 0" | "n > 0" | "n < 0" by linarith
    then show ?thesis
    proof cases
      case 1
      have "c_set (replicate 20 (None :: byte option)) 0 (Some 48) = Some (Some 48 # replicate 19 None)"
        by (simp add: replicate_Suc [of 19, simplified])
      then show ?thesis using n r f s tl 1
        by (simp add: es_newStrFromNumber_def numtxt_def)
    next
      case 2
      then show ?thesis using n r f s tl D
        by (simp add: es_newStrFromNumber_def numtxt_def rev_map [symmetric] rev_rev_ident)
    next
      case 3
      have "c_set (map Some (rev ?D) @ replicate (20 - ?L) None) ?L (Some 45) =
        Some (map Some (rev ?D) @ Some 45 # replicate (19 - ?L) None)"
        using L by (cases "20 - ?L") (auto simp: list_update_append)
      then show ?thesis using n r f s tl D 3
        by (simp add: es_newStrFromNumber_def numtxt_def rev_map [symmetric])
    qed
  qed
  then show ?thesis using f tl by auto
qed

lemma str2num_dec_ok:
  assumes "es_ok s" "content s = pre @ digs m" "int m \<le> LLONG_MAX - 48"
  shows "es_str2num_dec s (length pre) = Some (int m, True)"
proof -
  have "str2numLoop (es_buf s) 0 (length pre + length (digs m)) isdigit (\<lambda>num c. addDigit 10 num (uint c) 48) (length pre) 0 =
     Some (dval 0 (digs m), length pre + length (digs m))"
    using es_buf_split [OF assms(1)] assms(2,3) digs_digit
    by (intro str2numLoop_dec [where r = "drop (unat (lenStr s)) (es_buf s)"]) (auto simp: dval_digs)
  moreover have "unat (lenStr s) = length pre + length (digs m)"
    using es_len [OF assms(1)] assms(2) by simp
  ultimately show ?thesis by (simp add: es_str2num_dec_def dval_digs)
qed

text \<open>
  C40: Every number whose absolute value is at most 48 below the largest survives the way
  through its decimal text: printing stays inside the buffer of 20 bytes and never runs out of
  range, and parsing the string succeeds, has no overflow and gives the number back.
\<close>

theorem number_round_trip:
  assumes "\<bar>n\<bar> \<le> LLONG_MAX - 48"
  shows "\<exists>s. es_newStrFromNumber True n = Some (Some s) \<and> es_ok s \<and> es_str2num s = Some (n, True)"
proof -
  obtain s where s: "es_newStrFromNumber True n = Some (Some s)" "es_ok s" "content s = numtxt n"
    using fromNumber_ok [of n] assms by auto
  have len: "unat (lenStr s) = length (numtxt n)" using es_len s by metis
  have c0: "numtxt n = x # xs \<Longrightarrow> rd (es_buf s) 0 = Some x" for x xs
    using rd_content [OF s(2), of 0] s(3) by simp
  consider "n = 0" | "n > 0" | "n < 0" by linarith
  then have "es_str2num s = Some (n, True)"
  proof cases
    case 1
    then have "numtxt n = [48]" "lenStr s = 1" using len by (simp_all add: numtxt_def word_unat_eq_iff)
    then show ?thesis using c0 1
      by (simp add: es_str2num_def es_str2num_oct_def str2numLoop.simps addDigit_def ll_def LLONG_MAX_def)
  next
    case 2
    then obtain d ds where d: "numtxt n = d # ds" "d \<noteq> 48" "d \<noteq> 45"
      using hd_digs [of "nat n"] by (auto simp: numtxt_def)
    then have "lenStr s \<noteq> 0" using len by auto
    then show ?thesis using 2 d c0 [OF d(1)] str2num_dec_ok [OF s(2), of "[]" "nat n"] s(3) assms
      by (simp add: es_str2num_def numtxt_def)
  next
    case 3
    then have t: "numtxt n = [45] @ digs (nat (- n))" by (simp add: numtxt_def)
    then have "lenStr s \<noteq> 0" using len by auto
    then show ?thesis using 3 t c0 str2num_dec_ok [OF s(2), of "[45]" "nat (- n)"] s(3) assms
      by (simp add: es_str2num_def ll_def LLONG_MAX_def)
  qed
  then show ?thesis using s by blast
qed


lemma hexLoop_none:
  "es_buf s = map Some (48 # 120 # hs) \<Longrightarrow> \<forall>h \<in> set hs. isxdigit h \<Longrightarrow> i \<le> length hs \<Longrightarrow>
   str2numLoop (es_buf s) 2 (length hs + 2) isxdigit step i num = None"
proof (induction "length hs - i" arbitrary: i num)
  case 0
  then show ?case by (subst str2numLoop.simps) (simp add: rd_def)
next
  case (Suc d)
  then have "rd (es_buf s) (2 + i) = Some (hs ! i)" "isxdigit (hs ! i)" by (simp_all add: rd_def)
  then show ?case using Suc.hyps(1) [of "Suc i"] Suc.hyps(2) Suc.prems
    by (subst str2numLoop.simps) (auto split: option.split)
qed

text \<open>
  No hexadecimal number is converted correctly: the pointer is moved behind the prefix but
  the length is not, so the loop reads two bytes too far, outside the buffer when it is full.
\<close>

theorem hex_number_reads_past_end:
  assumes "es_ok s" and "content s = 48 # 120 # hs" and "\<forall>h \<in> set hs. isxdigit h" and "lenBuf s = lenStr s"
  shows "es_str2num s = None"
proof -
  have n: "unat (lenStr s) = length hs + 2" using es_len [OF assms(1)] assms(2) by simp
  have b: "es_buf s = map Some (48 # 120 # hs)"
    using es_buf_split [OF assms(1)] assms(1,2,4) by (simp add: es_ok_def)
  have "es_str2num_hex s = None"
    unfolding es_str2num_hex_def n using hexLoop_none [OF b assms(3)] by simp
  moreover have "lenStr s \<noteq> 0" "lenStr s > 1" using n by (auto simp: word_less_nat_alt)
  moreover have "rd (es_buf s) 0 = Some 48" "rd (es_buf s) 1 = Some 120" unfolding b by (simp_all add: rd_def)
  ultimately show ?thesis by (simp add: es_str2num_def)
qed

section \<open>Escape sequences\<close>

text \<open>\<open>char\<close> is signed; the first operand is shifted only in sequences whose digit is not negative.\<close>

definition hexDigitVal :: "byte \<Rightarrow> int" where
  "hexDigitVal c =
     (if sint c < 65 then sint c - 48 else if sint c < 97 then sint c - 65 + 10 else sint c - 97 + 10)"

definition simpleEsc :: "byte \<Rightarrow> byte option" where
  "simpleEsc c =
     map_of [(48, 0), (97, 7), (98, 8), (102, 12), (110, 10), (114, 13), (116, 9), (39, 39), (34, 34), (63, 63), (92, 92)] c"

text \<open>The value written for two digits; the new buffer and the new source position.\<close>

definition hexByte :: "byte \<Rightarrow> byte \<Rightarrow> byte" where
  "hexByte p q = of_int (hexDigitVal p * 16 + hexDigitVal q)"

definition doUnescape :: "byte option list \<Rightarrow> nat \<Rightarrow> nat \<Rightarrow> nat \<Rightarrow> (byte option list \<times> nat) option" where
  "doUnescape c n i d =
     do {
       x \<leftarrow> rd c i;
       if x \<noteq> 92 then map_option (\<lambda>c'. (c', i)) (c_set c d (Some x))
       else do {
         let j = i + 1;
         c1 \<leftarrow> (if j = n then c_set c d (Some 92) else Some c);
         y \<leftarrow> rd c1 j;
         (case simpleEsc y of
            Some v \<Rightarrow> map_option (\<lambda>c'. (c', j)) (c_set c1 d (Some v))
          | None \<Rightarrow>
              if y = 120
              then if j + 1 = n then Some (c1, j + 1)
                   else do {
                     short \<leftarrow> (if j + 2 = n then Some True
                              else do { a \<leftarrow> rd c1 (j + 1);
                                        if \<not> isxdigit a then Some True
                                        else map_option (\<lambda>b. \<not> isxdigit b) (rd c1 (j + 2)) });
                     c2 \<leftarrow> (if short then c_set c1 d (Some 92) else Some c1);
                     let k = (if short then i else j);
                     p \<leftarrow> rd c2 (k + 1);
                     q \<leftarrow> rd c2 (k + 2);
                     c3 \<leftarrow> c_set c2 d (Some (hexByte p q));
                     Some (c3, k + 2)
                   }
              else map_option (\<lambda>c'. (c', i)) (c_set c1 d (Some 92)))
       }
     }"

lemma doUnescape_forward: "doUnescape c n i d = Some (c', i') \<Longrightarrow> i \<le> i'"
  by (auto simp: doUnescape_def Let_def bind_eq_Some_conv split: if_splits option.splits)

function unescapeLoop :: "byte option list \<Rightarrow> nat \<Rightarrow> nat \<Rightarrow> nat \<Rightarrow> (byte option list \<times> nat) option" where
  "unescapeLoop c n i d =
     (if \<not> i < n then Some (c, d)
      else case doUnescape c n i d of
          None \<Rightarrow> None
        | Some (c', i') \<Rightarrow> unescapeLoop c' n (i' + 1) (d + 1))"
  by pat_completeness auto
termination by (relation "measure (\<lambda>(c, n, i, d). n - i)") (auto dest!: doUnescape_forward)

declare unescapeLoop.simps [simp del]

function scanEsc :: "byte option list \<Rightarrow> nat \<Rightarrow> nat \<Rightarrow> nat option" where
  "scanEsc c n i =
     (if \<not> i < n then Some i
      else case rd c i of None \<Rightarrow> None | Some x \<Rightarrow> if x = 92 then Some i else scanEsc c n (Suc i))"
  by pat_completeness auto
termination by (relation "measure (\<lambda>(c, n, i). n - i)") auto

declare scanEsc.simps [simp del]

definition es_unescapeStr :: "es_str \<Rightarrow> es_str option" where
  "es_unescapeStr s =
     do {
       let n = unat (lenStr s);
       i \<leftarrow> scanEsc (es_buf s) n 0;
       if i = n then Some s
       else do {
         (c, d) \<leftarrow> unescapeLoop (es_buf s) n i i;
         Some (s\<lparr>es_buf := c, lenStr := of_nat d\<rparr>)
       }
     }"

text \<open>
  The documented meaning, on complete sequences: the text after the expansion, \<open>None\<close> when the
  text ends inside a sequence or a hexadecimal one has no two digits. An unknown sequence
  stands for itself.
\<close>

fun unesc :: "byte list \<Rightarrow> byte list option" where
  "unesc [] = Some []"
| "unesc (x # xs) =
     (if x \<noteq> 92 then map_option (Cons x) (unesc xs)
      else case xs of
          [] \<Rightarrow> None
        | y # ys \<Rightarrow>
            (case simpleEsc y of
               Some v \<Rightarrow> map_option (Cons v) (unesc ys)
             | None \<Rightarrow>
                 if y = 120
                 then (case ys of
                         a # b # zs \<Rightarrow> if isxdigit a \<and> isxdigit b then map_option (Cons (hexByte a b)) (unesc zs) else None
                       | _ \<Rightarrow> None)
                 else map_option (Cons 92) (unesc xs)))"


text \<open>
  In the loop the buffer is the expanded text, cells free for it, the text to come and the rest
  of the buffer.
\<close>

abbreviation segs :: "byte list \<Rightarrow> byte option list \<Rightarrow> byte list \<Rightarrow> byte option list \<Rightarrow> byte option list" where
  "segs out M xs R \<equiv> map Some out @ M @ map Some xs @ R"

lemma rd_segs:
  "k < length xs \<Longrightarrow> rd (segs out M xs R) (length out + length M + k) = Some (xs ! k)"
  by (simp add: rd_def nth_append)

lemma set_segs:
  "p \<noteq> [] \<Longrightarrow> c_set (segs out M (p @ xs) R) (length out) (Some v) =
     Some (segs (out @ [v]) (tl (M @ map Some p)) xs R)"
  by (cases M; cases p) (auto simp: c_set_def list_update_append)

lemma doUnescape_plain:
  assumes "x \<noteq> 92"
  shows "doUnescape (segs out M (x # xs) R) n (length out + length M) (length out) =
    Some (segs (out @ [x]) (tl (M @ [Some x])) xs R, length out + length M)"
  using assms rd_segs [of 0 "x # xs" out M R] set_segs [of "[x]" out M xs R x]
  by (simp add: doUnescape_def)

lemma doUnescape_simple:
  assumes "simpleEsc y = Some v" "n = length out + length M + 2 + length ys"
  shows "doUnescape (segs out M (92 # y # ys) R) n (length out + length M) (length out) =
    Some (segs (out @ [v]) (tl (M @ map Some [92, y])) ys R, length out + length M + 1)"
  using assms rd_segs [of 0 "92 # y # ys" out M R] rd_segs [of 1 "92 # y # ys" out M R]
    set_segs [of "[92, y]" out M ys R v]
  by (simp add: doUnescape_def Let_def)

lemma doUnescape_unknown:
  assumes "simpleEsc y = None" "y \<noteq> 120" "n = length out + length M + 2 + length ys"
  shows "doUnescape (segs out M (92 # y # ys) R) n (length out + length M) (length out) =
    Some (segs (out @ [92]) (tl (M @ [Some 92])) (y # ys) R, length out + length M)"
  using assms rd_segs [of 0 "92 # y # ys" out M R] rd_segs [of 1 "92 # y # ys" out M R]
    set_segs [of "[92]" out M "y # ys" R 92]
  by (simp add: doUnescape_def Let_def)

lemma doUnescape_hex_aux:
  assumes "rd c i = Some 92" "rd c (i + 1) = Some 120" "rd c (i + 2) = Some a" "rd c (i + 3) = Some b"
    and "c_set c d (Some (hexByte a b)) = Some c'"
    and "isxdigit a" "isxdigit b" "n \<noteq> i + 1" "n \<noteq> i + 2" "n \<noteq> i + 3"
  shows "doUnescape c n i d = Some (c', i + 3)"
proof -
  have e: "i + 1 + 1 = i + 2" "i + 1 + 2 = i + 3" by simp_all
  show ?thesis unfolding doUnescape_def Let_def e using assms by (simp add: simpleEsc_def numeral_3_eq_3)
qed

lemma doUnescape_hex:
  assumes "isxdigit a" "isxdigit b" "n = length out + length M + 4 + length zs"
  shows "doUnescape (segs out M (92 # 120 # a # b # zs) R) n (length out + length M) (length out) =
    Some (segs (out @ [hexByte a b]) (tl (M @ map Some [92, 120, a, b])) zs R, length out + length M + 3)"
proof -
  let ?xs = "92 # 120 # a # b # zs" let ?c = "segs out M ?xs R"
  define i where "i = length out + length M"
  have "rd ?c i = Some 92" "rd ?c (i + 1) = Some 120" "rd ?c (i + 2) = Some a" "rd ?c (i + 3) = Some b"
    unfolding i_def using rd_segs [of 0 ?xs out M R] rd_segs [of 1 ?xs out M R] rd_segs [of 2 ?xs out M R]
      rd_segs [of 3 ?xs out M R] by simp_all
  moreover have "c_set ?c (length out) (Some (hexByte a b)) =
      Some (segs (out @ [hexByte a b]) (tl (M @ map Some [92, 120, a, b])) zs R)"
    using set_segs [of "[92, 120, a, b]" out M zs R] by simp
  ultimately show ?thesis unfolding i_def [symmetric]
    by (rule doUnescape_hex_aux) (use assms in \<open>simp_all add: i_def\<close>)
qed


lemma unescapeLoop_ok:
  "unesc xs = Some ys \<Longrightarrow> n = length out + length M + length xs \<Longrightarrow>
   \<exists>M'. unescapeLoop (segs out M xs R) n (length out + length M) (length out) =
          Some (map Some (out @ ys) @ M' @ R, length out + length ys) \<and>
        length M' + length ys = length M + length xs"
proof (induction "length xs" arbitrary: xs ys out M rule: less_induct)
  case less
  have step: "\<exists>M'. unescapeLoop (segs out M xs R) n (length out + length M) (length out) =
          Some (map Some (out @ ys) @ M' @ R, length out + length ys) \<and>
        length M' + length ys = length M + length xs"
    if p: "xs = p @ zs" "p \<noteq> []" "ys = v # vs" "unesc zs = Some vs"
      "doUnescape (segs out M xs R) n (length out + length M) (length out) =
        Some (segs (out @ [v]) (tl (M @ map Some p)) zs R, length out + length M + length p - 1)" for p zs v vs
  proof -
    let ?M = "tl (M @ map Some p)"
    have l: "length ?M = length M + length p - 1" by simp
    have lt: "length zs < length xs" using p(1,2) by simp
    have "length p > 0" using p(2) by simp
    then have i: "length out + length M + length p - 1 + 1 = length (out @ [v]) + length ?M"
      "n = length (out @ [v]) + length ?M + length zs"
      using less.prems(2) p(1) l by simp_all
    obtain M' where "unescapeLoop (segs (out @ [v]) ?M zs R) n (length (out @ [v]) + length ?M) (length (out @ [v])) =
        Some (map Some ((out @ [v]) @ vs) @ M' @ R, length (out @ [v]) + length vs)"
      "length M' + length vs = length ?M + length zs"
      using less.hyps [OF lt p(4) i(2)] by blast
    moreover have "length out + length M < n" using less.prems(2) p(1,2) by simp
    ultimately show ?thesis using p l i(1) \<open>length p > 0\<close>
      by (subst unescapeLoop.simps) (cases p; auto simp: add.assoc)
  qed
  show ?case
  proof (cases xs)
    case Nil
    then show ?thesis using less.prems by (subst unescapeLoop.simps) auto
  next
    case (Cons x r)
    show ?thesis
    proof (cases "x = 92")
      case False
      then obtain vs where "unesc r = Some vs" "ys = x # vs" using less.prems(1) Cons by auto
      then show ?thesis using Cons False doUnescape_plain [OF False] by (intro step [of "[x]" r]) auto
    next
      case True
      then obtain y zs where r: "r = y # zs" using less.prems(1) Cons by (cases r) auto
      show ?thesis
      proof (cases "simpleEsc y")
        case (Some v)
        then obtain vs where "unesc zs = Some vs" "ys = v # vs" using less.prems(1) Cons True r by auto
        then show ?thesis using Cons True r less.prems(2) doUnescape_simple [OF Some, of n out M zs R]
          by (intro step [of "[92, y]" zs]) auto
      next
        case None
        show ?thesis
        proof (cases "y = 120")
          case False
          then obtain vs where "unesc r = Some vs" "ys = 92 # vs" using less.prems(1) Cons True r None by auto
          then show ?thesis using Cons True r less.prems(2) doUnescape_unknown [OF None False, of n out M zs R]
            by (intro step [of "[92]" r]) auto
        next
          case hex: True
          then obtain a b ws where w: "zs = a # b # ws" "isxdigit a" "isxdigit b"
            using less.prems(1) Cons True r None by (auto split: list.splits if_splits)
          then obtain vs where "unesc ws = Some vs" "ys = hexByte a b # vs"
            using less.prems(1) Cons True r None hex by auto
          then show ?thesis using Cons True r hex w less.prems(2) doUnescape_hex [OF w(2,3), of n out M ws R]
            by (intro step [of "[92, 120, a, b]" ws]) auto
        qed
      qed
    qed
  qed
qed


lemma scanEsc_ok:
  "i \<le> length xs \<Longrightarrow> \<exists>j. scanEsc (map Some xs @ R) (length xs) i = Some j \<and> i \<le> j \<and> j \<le> length xs \<and>
     (\<forall>k. i \<le> k \<and> k < j \<longrightarrow> xs ! k \<noteq> 92) \<and> (j < length xs \<longrightarrow> xs ! j = 92)"
proof (induction "length xs - i" arbitrary: i)
  case 0
  then show ?case by (auto simp: scanEsc.simps)
next
  case (Suc d)
  have "i < length xs" using Suc.hyps(2) by simp
  then have i: "i < length xs" "rd (map Some xs @ R) i = Some (xs ! i)" by (simp_all add: rd_def nth_append)
  show ?case
  proof (cases "xs ! i = 92")
    case True
    then show ?thesis using i by (intro exI [of _ i]) (auto simp: scanEsc.simps)
  next
    case False
    have "d = length xs - Suc i" "Suc i \<le> length xs" using Suc.hyps(2) i(1) by simp_all
    from Suc.hyps(1) [OF this] obtain j where "scanEsc (map Some xs @ R) (length xs) (Suc i) = Some j"
      "Suc i \<le> j" "j \<le> length xs" "\<forall>k. Suc i \<le> k \<and> k < j \<longrightarrow> xs ! k \<noteq> 92"
      "j < length xs \<longrightarrow> xs ! j = 92" by blast
    then show ?thesis using False i
      by (intro exI [of _ j]) (auto simp: scanEsc.simps [of _ _ i] not_less_eq_eq dest: le_neq_implies_less Suc_leI)
  qed
qed

lemma unesc_plain: "\<forall>x \<in> set ps. x \<noteq> 92 \<Longrightarrow> unesc (ps @ xs) = map_option ((@) ps) (unesc xs)"
  by (induction ps) (cases "unesc xs"; simp)+

text \<open>
  The expansion of escape sequences in place agrees with their documented meaning for
  every text whose sequences are complete: it reads and writes only inside the string, keeps it
  well formed and leaves exactly the expanded text.
\<close>

theorem unescape_expands:
  assumes "es_ok s" and "unesc (content s) = Some ys"
  shows "\<exists>s'. es_unescapeStr s = Some s' \<and> es_ok s' \<and> content s' = ys"
proof -
  let ?xs = "content s" let ?R = "drop (unat (lenStr s)) (es_buf s)"
  have n: "unat (lenStr s) = length ?xs" using es_len [OF assms(1)] by simp
  have b: "es_buf s = map Some ?xs @ ?R" using es_buf_split [OF assms(1)] .
  obtain j where j: "scanEsc (es_buf s) (unat (lenStr s)) 0 = Some j" "j \<le> length ?xs" "\<forall>k < j. ?xs ! k \<noteq> 92"
    using scanEsc_ok [of 0 ?xs ?R] unfolding b [symmetric] n [symmetric] by auto
  have split: "?xs = take j ?xs @ drop j ?xs" by simp
  have "\<forall>x \<in> set (take j ?xs). x \<noteq> 92" using j(2,3) by (auto simp: in_set_conv_nth)
  then obtain vs where vs: "unesc (drop j ?xs) = Some vs" "ys = take j ?xs @ vs"
    using assms(2) unesc_plain [of "take j ?xs" "drop j ?xs"]
    by (cases "unesc (drop j ?xs)") auto
  show ?thesis
  proof (cases "j = length ?xs")
    case True
    then have "ys = ?xs" using vs by simp
    moreover have "es_unescapeStr s = Some s" using j(1) n True by (simp add: es_unescapeStr_def Let_def)
    ultimately show ?thesis using assms(1) by simp
  next
    case False
    have lj: "length (take j ?xs) = j" using j(2) by simp
    obtain M' where M: "unescapeLoop (segs (take j ?xs) [] (drop j ?xs) ?R) (length ?xs) j j =
        Some (map Some (take j ?xs @ vs) @ M' @ ?R, j + length vs)" "length M' + length vs = length ?xs - j"
      using unescapeLoop_ok [OF vs(1), of "length ?xs" "take j ?xs" "[]" ?R] j(2) lj by auto
    have "segs (take j ?xs) [] (drop j ?xs) ?R = es_buf s"
      unfolding append_Nil append_assoc [symmetric] map_append [symmetric] split [symmetric] by (rule b [symmetric])
    then have u: "es_unescapeStr s = Some (s\<lparr>es_buf := map Some ys @ M' @ ?R, lenStr := of_nat (length ys)\<rparr>)"
      using j(1) n False M vs(2) lj by (simp add: es_unescapeStr_def Let_def)
    have ly: "length ys + length M' = length ?xs" using M(2) vs(2) lj j(2) by simp
    have "length ?xs < 2 ^ 32" using n unsigned_less [of "lenStr s", where 'a = nat] by simp
    then have ul: "unat (of_nat (length ys) :: 32 word) = length ys"
      using ly by (simp add: unsigned_of_nat take_bit_nat_eq_self)
    have "es_ok (s\<lparr>es_buf := map Some ys @ M' @ ?R, lenStr := of_nat (length ys)\<rparr>) \<and>
       content (s\<lparr>es_buf := map Some ys @ M' @ ?R, lenStr := of_nat (length ys)\<rparr>) = ys"
      by (rule es_okI [where r = "M' @ ?R"]) (use ul ly n assms(1) in \<open>auto simp: es_ok_def word_le_nat_alt\<close>)
    then show ?thesis using u by blast
  qed
qed

text \<open>
  A text that ends in a single backslash makes the expansion read the byte behind the
  string, which is undefined when the buffer is full: the error branch does not leave.
\<close>

theorem unescape_trailing_backslash_undefined:
  assumes "es_ok s" and "content s = ps @ [92]" and "92 \<notin> set ps" and "lenBuf s = lenStr s"
  shows "es_unescapeStr s = None"
proof -
  have n: "unat (lenStr s) = length ps + 1" using es_len [OF assms(1)] assms(2) by simp
  have b: "es_buf s = map Some (ps @ [92])"
    using es_buf_split [OF assms(1)] assms(1,2,4) by (simp add: es_ok_def)
  have nth: "i < length ps \<Longrightarrow> (ps @ [92]) ! i \<noteq> 92" for i
    using assms(3) by (metis nth_append nth_mem)
  obtain j where j: "scanEsc (es_buf s) (unat (lenStr s)) 0 = Some j" "j \<le> length ps + 1" "\<forall>k < j. (ps @ [92]) ! k \<noteq> 92"
    "j < length ps + 1 \<longrightarrow> (ps @ [92]) ! j = 92"
    using scanEsc_ok [of 0 "ps @ [92]" "[]"] unfolding b n by auto
  have "\<not> length ps < j" using j(3) by (metis nth_append_length)
  moreover have "\<not> j < length ps" using j(4) nth [of j] by auto
  ultimately have "j = length ps" by simp
  moreover have "doUnescape (es_buf s) (length ps + 1) (length ps) (length ps) = None"
    unfolding b by (simp add: doUnescape_def Let_def rd_def nth_append)
  ultimately show ?thesis using j(1) n
    by (simp add: es_unescapeStr_def Let_def unescapeLoop.simps [of _ _ "length ps"])
qed


section \<open>Searching and copying\<close>

text \<open>The inner loop of the search: whether it reaches the end of the second string.\<close>

function containsAt :: "(byte \<Rightarrow> byte) \<Rightarrow> byte option list \<Rightarrow> byte option list \<Rightarrow> nat \<Rightarrow> nat \<Rightarrow> nat \<Rightarrow> bool option" where
  "containsAt cv c1 c2 n2 i j =
     (if \<not> j < n2 then Some True
      else case (rd c1 (i + j), rd c2 j) of
          (Some x, Some y) \<Rightarrow> if cv x \<noteq> cv y then Some False else containsAt cv c1 c2 n2 i (Suc j)
        | _ \<Rightarrow> None)"
  by pat_completeness auto
termination by (relation "measure (\<lambda>(cv, c1, c2, n2, i, j). n2 - j)") auto

declare containsAt.simps [simp del]

function containsLoop :: "(byte \<Rightarrow> byte) \<Rightarrow> byte option list \<Rightarrow> byte option list \<Rightarrow> nat \<Rightarrow> nat \<Rightarrow> nat \<Rightarrow> int option" where
  "containsLoop cv c1 c2 n2 mx i =
     (if \<not> i < mx then Some (-1)
      else case containsAt cv c1 c2 n2 i 0 of
          None \<Rightarrow> None
        | Some b \<Rightarrow> if b then Some (sint (of_nat i :: 32 word)) else containsLoop cv c1 c2 n2 mx (Suc i))"
  by pat_completeness auto
termination by (relation "measure (\<lambda>(cv, c1, c2, n2, mx, i). mx - i)") auto

declare containsLoop.simps [simp del]

text \<open>The two searches are one with and without the conversion; the bound is a sum of 32 bits.\<close>

definition strContains :: "(byte \<Rightarrow> byte) \<Rightarrow> es_str \<Rightarrow> es_str \<Rightarrow> int option" where
  "strContains cv s1 s2 =
     (if lenStr s2 > lenStr s1 then Some (-1)
      else containsLoop cv (es_buf s1) (es_buf s2) (unat (lenStr s2)) (unat (lenStr s1 - lenStr s2 + 1)) 0)"

definition es_strContains :: "es_str \<Rightarrow> es_str \<Rightarrow> int option" where
  "es_strContains s1 s2 = strContains (\<lambda>x. x) s1 s2"

definition es_strCaseContains :: "es_str \<Rightarrow> es_str \<Rightarrow> int option" where
  "es_strCaseContains s1 s2 = strContains tolower s1 s2"

text \<open>The first position at which one list is inside another.\<close>

fun position :: "'a list \<Rightarrow> 'a list \<Rightarrow> nat option" where
  "position ys [] = (if ys = [] then Some 0 else None)"
| "position ys (x # xs) =
     (if take (length ys) (x # xs) = ys then Some 0 else map_option Suc (position ys xs))"

text \<open>The copy to a C string; the size is computed with 32 bits, the escape text is optional.\<close>

definition es_str2cstr :: "bool \<Rightarrow> es_str \<Rightarrow> byte list option \<Rightarrow> byte list option option" where
  "es_str2cstr mallocOK s nulEsc =
     (let n = unat (lenStr s); cs = take n (es_buf s) in
      if length cs < n \<or> None \<in> set cs then None
      else let bs = map the cs; nbrNUL = length (filter (\<lambda>b. b = 0) bs) in
        if nbrNUL = 0
        then (if \<not> mallocOK then Some None
              else if n < unat (lenStr s + 1) then Some (Some (bs @ [0])) else None)
        else let esc = (case nulEsc of None \<Rightarrow> [] | Some e \<Rightarrow> e);
                 sz = lenStr s + of_nat nbrNUL * (of_nat (length esc) - 1) + 1;
                 out = concat (map (\<lambda>b. if b = 0 then esc else [b]) bs) in
             if \<not> mallocOK then Some None
             else if length out < unat sz then Some (Some (out @ [0])) else None)"


lemma containsAt_ok:
  "i + length ys \<le> length xs \<Longrightarrow> j \<le> length ys \<Longrightarrow>
   containsAt cv (map Some xs @ r1) (map Some ys @ r2) (length ys) i j =
     Some (map cv (take (length ys - j) (drop (i + j) xs)) = map cv (drop j ys))"
proof (induction "length ys - j" arbitrary: j)
  case 0
  then show ?case by (simp add: containsAt.simps)
next
  case (Suc d)
  have j: "j < length ys" "i + j < length xs" using Suc.hyps(2) Suc.prems by simp_all
  then have r: "rd (map Some xs @ r1) (i + j) = Some (xs ! (i + j))" "rd (map Some ys @ r2) j = Some (ys ! j)"
    by (simp_all add: rd_def nth_append)
  have e: "drop (i + j) xs = xs ! (i + j) # drop (i + Suc j) xs" "drop j ys = ys ! j # drop (Suc j) ys"
    "length ys - j = Suc (length ys - Suc j)"
    using j by (simp_all add: Cons_nth_drop_Suc)
  have "d = length ys - Suc j" "Suc j \<le> length ys" using Suc.hyps(2) j by simp_all
  from Suc.hyps(1) [OF this(1) Suc.prems(1) this(2)] show ?case
    using j r unfolding e by (subst containsAt.simps) simp
qed

lemma position_short: "length xs < length ys \<Longrightarrow> position ys xs = None"
  by (induction xs) (auto dest: arg_cong [of _ _ length])

lemma position_hit: "take (length ys) xs = ys \<Longrightarrow> position ys xs = Some 0"
  by (cases xs) auto

lemma position_miss:
  "take (length ys) xs \<noteq> ys \<Longrightarrow> position ys xs = map_option Suc (position ys (tl xs))"
  by (cases xs) (auto split: if_splits)

lemma containsLoop_ok:
  assumes "length ys \<le> length xs" "length xs < 2 ^ 31" "ys \<noteq> []"
  shows "i \<le> length xs - length ys + 1 \<Longrightarrow>
    containsLoop cv (map Some xs @ r1) (map Some ys @ r2) (length ys) (length xs - length ys + 1) i =
      Some (case position (map cv ys) (map cv (drop i xs)) of None \<Rightarrow> -1 | Some k \<Rightarrow> int (i + k))"
proof (induction "length xs - length ys + 1 - i" arbitrary: i)
  case 0
  then have "length (map cv (drop i xs)) < length (map cv ys)" using assms(1,3) by (cases ys) auto
  then show ?case using 0 by (subst containsLoop.simps) (simp add: position_short)
next
  case (Suc d)
  then have i: "i + length ys \<le> length xs" "i < length xs - length ys + 1" using assms(1) by simp_all
  have si: "sint (of_nat i :: 32 word) = int i"
    using i(1) assms(2) by (simp add: signed_of_nat signed_take_bit_int_eq_self)
  note a = containsAt_ok [OF i(1), of 0 cv r1 r2, simplified]
  show ?case
  proof (cases "map cv (take (length ys) (drop i xs)) = map cv ys")
    case True
    then show ?thesis using i(2) a si position_hit [of "map cv ys" "map cv (drop i xs)"]
      by (subst containsLoop.simps) (simp add: take_map)
  next
    case False
    have "tl (drop i xs) = drop (Suc i) xs" by (simp add: drop_Suc tl_drop)
    then have p: "position (map cv ys) (map cv (drop i xs)) = map_option Suc (position (map cv ys) (map cv (drop (Suc i) xs)))"
      using False by (subst position_miss) (simp_all add: take_map flip: map_tl)
    have "d = length xs - length ys + 1 - Suc i" "Suc i \<le> length xs - length ys + 1" using Suc.hyps(2) i(2) by simp_all
    from Suc.hyps(1) [OF this] show ?thesis using i(2) a False p
      by (subst containsLoop.simps) (auto split: option.split)
  qed
qed

text \<open>
  The two searches return the first position at which the second string, or its lower case
  form, is found in the first, -1 when there is none, for strings below two gigabytes; they
  never read outside the strings.
\<close>

theorem contains_first_position:
  assumes "es_ok s1" and "es_ok s2" and "unat (lenStr s1) < 2 ^ 31"
  shows "es_strContains s1 s2 =
      Some (case position (content s2) (content s1) of None \<Rightarrow> -1 | Some k \<Rightarrow> int k) \<and>
    es_strCaseContains s1 s2 =
      Some (case position (map tolower (content s2)) (map tolower (content s1)) of None \<Rightarrow> -1 | Some k \<Rightarrow> int k)"
proof -
  let ?xs = "content s1" and ?ys = "content s2"
  have n: "unat (lenStr s1) = length ?xs" "unat (lenStr s2) = length ?ys" using es_len assms(1,2) by simp_all
  obtain r1 r2 where b: "es_buf s1 = map Some ?xs @ r1" "es_buf s2 = map Some ?ys @ r2"
    using es_buf_split assms(1,2) by blast
  have "strContains cv s1 s2 = Some (case position (map cv ?ys) (map cv ?xs) of None \<Rightarrow> -1 | Some k \<Rightarrow> int k)" for cv
  proof (cases "lenStr s2 > lenStr s1")
    case True
    then show ?thesis using n position_short [of "map cv ?xs" "map cv ?ys"]
      by (simp add: strContains_def word_less_nat_alt)
  next
    case False
    then have le: "length ?ys \<le> length ?xs" "lenStr s2 \<le> lenStr s1" using n by (simp_all add: word_less_nat_alt word_le_nat_alt)
    have "unat (lenStr s1 - lenStr s2) = length ?xs - length ?ys" using unat_sub [OF le(2)] n by simp
    then have mx: "unat (lenStr s1 - lenStr s2 + 1) = length ?xs - length ?ys + 1"
      using assms(3) n by (simp add: unat_plus_if')
    show ?thesis
    proof (cases "?ys = []")
      case True
      then have "containsLoop cv (es_buf s1) (es_buf s2) 0 (length ?xs + 1) 0 = Some 0"
        by (simp add: containsLoop.simps containsAt.simps)
      then show ?thesis using True False mx n position_hit [of "[]" "map cv ?xs"] by (simp add: strContains_def)
    next
      case ne: False
      show ?thesis using containsLoop_ok [OF le(1) _ ne, of 0 cv r1 r2] assms(3) False
        unfolding strContains_def mx n(2) b by (auto simp: n split: option.split)
    qed
  qed
  from this [of "\<lambda>x. x"] this [of tolower] show ?thesis
    by (simp add: es_strContains_def es_strCaseContains_def)
qed


section \<open>Witnesses\<close>

theorem number_round_trip_witness:
  "\<exists>s. es_newStrFromNumber True (- 907) = Some (Some s) \<and> es_ok s \<and> es_str2num s = Some (- 907, True)"
  by (rule number_round_trip) (simp add: LLONG_MAX_def)

theorem hex_number_reads_past_end_witness: "es_str2num (str_ex [48, 120, 49, 102] 0) = None"
  by (rule hex_number_reads_past_end [where hs = "[49, 102]"])
    (simp_all add: str_ex_ok, simp_all add: isxdigit_def isdigit_def str_ex_def)

theorem unescape_expands_witness:
  "\<exists>s'. es_unescapeStr (str_ex [97, 92, 120, 52, 49, 92, 110] 1) = Some s' \<and> es_ok s' \<and> content s' = [97, 65, 10]"
  by (rule unescape_expands)
    (simp_all add: str_ex_ok, simp add: simpleEsc_def isxdigit_def isdigit_def hexByte_def hexDigitVal_def)

theorem unescape_trailing_backslash_undefined_witness: "es_unescapeStr (str_ex [97, 92] 0) = None"
  by (rule unescape_trailing_backslash_undefined [where ps = "[97]"])
    (simp_all add: str_ex_ok, simp add: str_ex_def)

theorem contains_first_position_witness:
  "es_strContains (str_ex [97, 66] 0) (str_ex [98] 0) =
      Some (case position (content (str_ex [98] 0)) (content (str_ex [97, 66] 0)) of None \<Rightarrow> -1 | Some k \<Rightarrow> int k) \<and>
    es_strCaseContains (str_ex [97, 66] 0) (str_ex [98] 0) =
      Some (case position (map tolower (content (str_ex [98] 0))) (map tolower (content (str_ex [97, 66] 0))) of
              None \<Rightarrow> -1 | Some k \<Rightarrow> int k)"
  by (rule contains_first_position) (simp_all add: str_ex_ok, simp add: str_ex_def)

end
