(* ===== verification/ScriptVal.thy ===== *)
theory ScriptVal
  imports PriFilter EstrConv
begin

text \<open>
  The values of RainerScript expressions (\<open>struct svar\<close> of grammar/rainerscript.c), their
  conversion into numbers and strings, and the comparisons of strings that expressions use.

  A string value is its content; the lemmas of the second section connect the functions on
  contents with the ones of libestr on string objects.
\<close>

unbundle bit_operations_syntax

section \<open>Values\<close>

text \<open>
  A JSON object is what the program sees of it here: its address, and what
  \<open>json_object_get_int64\<close> and \<open>json_object_get_string\<close> give for it.
\<close>

record jsonobj =
  j_addr :: int
  j_int :: int
  j_text :: "byte list"

datatype svar = SNum int | SStr "byte list" | SJson "jsonobj option"

definition is_num :: "svar \<Rightarrow> bool" where
  "is_num v \<longleftrightarrow> (case v of SNum _ \<Rightarrow> True | _ \<Rightarrow> False)"

text \<open>The member \<open>d.n\<close> of the union, whatever the datatype: for a JSON value it is the pointer.\<close>

definition raw_n :: "svar \<Rightarrow> int" where
  "raw_n v = (case v of SNum n \<Rightarrow> n | SJson (Some j) \<Rightarrow> j_addr j | _ \<Rightarrow> 0)"

text \<open>\<open>num = num * 10 + c[i] - '0'\<close> in \<open>int64_t\<close>.\<close>

fun digitLoop :: "int \<Rightarrow> byte list \<Rightarrow> (int \<times> bool) option" where
  "digitLoop num [] = Some (num, True)"
| "digitLoop num (c # cs) =
     (if isdigit c then do { n \<leftarrow> addDigit 10 num (uint c) 48; digitLoop n cs } else Some (num, False))"

definition str2num :: "byte list \<Rightarrow> (int \<times> bool) option" where
  "str2num s =
     (if s = [] then Some (0, True)
      else do {
        let neg = (hd s = 45);
        (num, ok) \<leftarrow> digitLoop 0 (if neg then tl s else s);
        num \<leftarrow> ll (num * (if neg then -1 else 1));
        Some (num, ok) })"

definition var2Number :: "svar \<Rightarrow> (int \<times> bool) option" where
  "var2Number v =
     (case v of
        SStr s \<Rightarrow> str2num s
      | SJson None \<Rightarrow> Some (0, True)
      | SJson (Some j) \<Rightarrow> Some (j_int j, True)
      | SNum n \<Rightarrow> Some (n, True))"

definition var2String :: "svar \<Rightarrow> byte list" where
  "var2String v =
     (case v of
        SNum n \<Rightarrow> numtxt n
      | SJson None \<Rightarrow> []
      | SJson (Some j) \<Rightarrow> c_text (j_text j)
      | SStr s \<Rightarrow> s)"

text \<open>The C string of a string: zero bytes are left out.\<close>

definition cstr_of :: "byte list \<Rightarrow> byte list" where
  "cstr_of s = filter (\<lambda>b. b \<noteq> 0) s"

definition var2CString :: "svar \<Rightarrow> byte list" where
  "var2CString v = cstr_of (var2String v)"

section \<open>Comparing strings\<close>

text \<open>\<open>es_strncmp\<close> with the length of the second string.\<close>

definition starts_with :: "byte list \<Rightarrow> byte list \<Rightarrow> bool" where
  "starts_with s p \<longleftrightarrow> lcmp (take (length p) s) p = 0"

text \<open>\<open>es_strncasecmp\<close> with the length of the second string: it stops at the end of the first.\<close>

definition starts_with_i :: "byte list \<Rightarrow> byte list \<Rightarrow> bool" where
  "starts_with_i s p \<longleftrightarrow>
     (let n = min (length s) (length p) in lcmp (map tolower (take n s)) (map tolower (take n p)) = 0)"

definition str_contains :: "byte list \<Rightarrow> byte list \<Rightarrow> bool" where
  "str_contains s p \<longleftrightarrow> position p s \<noteq> None"

definition str_contains_i :: "byte list \<Rightarrow> byte list \<Rightarrow> bool" where
  "str_contains_i s p \<longleftrightarrow> position (map tolower p) (map tolower s) \<noteq> None"

text \<open>
  \<open>bsearch\<close> on the array: what the C standard asks for is that the members smaller than the key,
  equal to it and larger than it come in that order; otherwise the call is undefined.
\<close>

definition bsearch_str :: "byte list \<Rightarrow> byte list list \<Rightarrow> bool option" where
  "bsearch_str key xs =
     (if sorted (map (\<lambda>x. sgn (lcmp x key)) xs) then Some (key \<in> set xs) else None)"

definition evalStrArrayCmp :: "byte list \<Rightarrow> byte list list \<Rightarrow> compop \<Rightarrow> int option" where
  "evalStrArrayCmp l ar cmpop =
     (case cmpop of
        CMP_EQ \<Rightarrow> map_option of_bool (bsearch_str l ar)
      | CMP_NE \<Rightarrow> map_option (\<lambda>b. of_bool (\<not> b)) (bsearch_str l ar)
      | CMP_STARTSWITH \<Rightarrow> Some (of_bool (list_ex (starts_with l) ar))
      | CMP_STARTSWITHI \<Rightarrow> Some (of_bool (list_ex (starts_with_i l) ar))
      | CMP_CONTAINS \<Rightarrow> Some (of_bool (list_ex (str_contains l) ar))
      | CMP_CONTAINSI \<Rightarrow> Some (of_bool (list_ex (str_contains_i l) ar))
      | _ \<Rightarrow> Some 0)"

text \<open>The result of \<open>es_strcmp\<close> as the six comparisons use it; \<open>!=\<close> hands it on as it is.\<close>

definition strRes :: "compop \<Rightarrow> int \<Rightarrow> int" where
  "strRes cop d = (if cop = CMP_NE then d else of_bool (cmpNum cop d 0))"

definition numRes :: "compop \<Rightarrow> int \<Rightarrow> int \<Rightarrow> int" where
  "numRes cop a b = of_bool (cmpNum cop a b)"

text \<open>Comparing two values, the part the six comparisons share.\<close>

definition cmpVals :: "compop \<Rightarrow> svar \<Rightarrow> svar \<Rightarrow> int option" where
  "cmpVals cop l r =
     (case l of
        SNum nl \<Rightarrow>
          (case r of
             SStr sr \<Rightarrow> do {
               (nr, convok) \<leftarrow> var2Number r;
               Some (if convok then numRes cop nl nr else strRes cop (lcmp sr (var2String l))) }
           | _ \<Rightarrow> Some (numRes cop nl (raw_n r)))
      | _ \<Rightarrow>
          (case r of
             SStr sr \<Rightarrow> Some (strRes cop (lcmp (var2String l) sr))
           | _ \<Rightarrow> do {
               (nl, convok) \<leftarrow> var2Number l;
               Some (if convok then numRes cop nl (raw_n r)
                     else strRes cop (lcmp (var2String l) (var2String r))) }))"

section \<open>The string objects of libestr\<close>

lemma strcmp_content:
  assumes "es_ok s1" "es_ok s2"
  shows "es_strbufcmp s1 (content s2) (lenStr s2) = Some (lcmp (content s1) (content s2))"
  using bufcmp_ref [of s1 "content s2" "lenStr s2" "\<lambda>x. x"] assms es_len by (simp add: es_strbufcmp_def)

lemma starts_with_strncmp:
  assumes "es_ok s1" "es_ok s2"
  shows "es_strncmp s1 s2 (lenStr s2) = Some (lcmp (take (length (content s2)) (content s1)) (content s2))"
  using strncmp_ref [OF assms, of "lenStr s2"] es_len [OF assms(2)] by simp

lemma lcmp_pos: "0 < lcmp xs ys \<longleftrightarrow> ys < xs"
  using lcmp_less [of xs ys] lcmp_zero [of xs ys] by (auto simp: not_less_iff_gr_or_eq)

lemma ncmp_short:
  "i \<le> n1 \<Longrightarrow> n1 \<le> length xs \<Longrightarrow> len \<le> length ys \<Longrightarrow>
   ncmpLoop cv (map Some xs @ r1) n1 (map Some ys @ r2) n1 len i =
     Some (lcmp (map cv (drop i (take (min n1 len) xs))) (map cv (drop i (take (min n1 len) ys))))"
proof (induction "n1 - i" arbitrary: i)
  case 0
  then show ?case by (subst ncmpLoop.simps) simp
next
  case (Suc d)
  then have i: "i < n1" by simp
  show ?case
  proof (cases "i < len")
    case True
    have r: "rd (map Some xs @ r1) i = Some (xs ! i)" "rd (map Some ys @ r2) i = Some (ys ! i)"
      using i True Suc.prems by (simp_all add: rd_def nth_append)
    have "drop i (take (min n1 len) xs) = xs ! i # drop (Suc i) (take (min n1 len) xs)"
      "drop i (take (min n1 len) ys) = ys ! i # drop (Suc i) (take (min n1 len) ys)"
      using i True Suc.prems Cons_nth_drop_Suc [of i "take (min n1 len) xs"]
        Cons_nth_drop_Suc [of i "take (min n1 len) ys"] by simp_all
    then show ?thesis using Suc.hyps(1) [of "Suc i"] Suc.hyps(2) Suc.prems i True r
      by (subst ncmpLoop.simps) simp
  qed (simp add: ncmpLoop.simps)
qed

lemma starts_with_i_strncasecmp:
  assumes "es_ok s1" "es_ok s2"
  shows "\<exists>d. es_strncasecmp s1 s2 (lenStr s2) = Some d \<and> (d = 0 \<longleftrightarrow> starts_with_i (content s1) (content s2))"
  unfolding es_strncasecmp_def starts_with_i_def Let_def
  using ncmp_short [of 0 "unat (lenStr s1)" "content s1" "unat (lenStr s2)" "content s2" tolower
      "drop (unat (lenStr s1)) (es_buf s1)" "drop (unat (lenStr s2)) (es_buf s2)"] assms
  by (simp add: es_len es_buf_split [symmetric])

lemma str_contains_es:
  assumes "es_ok s1" "es_ok s2" "unat (lenStr s1) < 2 ^ 31"
  shows "(es_strContains s1 s2 \<noteq> Some (-1)) = str_contains (content s1) (content s2) \<and>
    (es_strCaseContains s1 s2 \<noteq> Some (-1)) = str_contains_i (content s1) (content s2)"
  using contains_first_position [OF assms]
  by (auto simp: str_contains_def str_contains_i_def split: option.splits)

lemma cstr_of_es:
  assumes "es_ok s" and "unat (lenStr s) < 2 ^ 32 - 1"
  shows "es_str2cstr True s None = Some (Some (cstr_of (content s) @ [0]))"
proof -
  let ?n = "unat (lenStr s)"
  have t: "take ?n (es_buf s) = map Some (content s)"
    using es_buf_split [OF assms(1)] es_len [OF assms(1)] by (metis append_eq_conv_conj length_map)
  have lb: "?n \<le> length (es_buf s)" using assms(1) by (simp add: es_ok_def word_le_nat_alt)
  have bs: "map the (map Some (content s)) = content s" by (simp add: comp_def)
  have l: "unat (lenStr s + 1) = Suc ?n" using assms(2) by (simp add: unat_plus_if')
  have out: "concat (map (\<lambda>b. if b = 0 then [] else [b]) xs) = cstr_of xs" for xs :: "byte list"
    by (induction xs) (auto simp: cstr_of_def)
  have len: "length (filter (\<lambda>b. b = 0) xs) + length (cstr_of xs) = length xs" for xs :: "byte list"
    by (induction xs) (auto simp: cstr_of_def)
  have sz: "unat (lenStr s + of_nat k * (of_nat 0 - 1) + 1 :: 32 word) = Suc ?n - k" if "k \<le> ?n" for k
  proof -
    have "lenStr s + of_nat k * (of_nat 0 - 1) + 1 = (of_nat (Suc ?n - k) :: 32 word)"
      using that by (simp add: of_nat_diff)
    moreover have "Suc ?n - k < 2 ^ 32" using assms(2) by linarith
    ultimately show ?thesis by (simp add: unat_of_nat take_bit_nat_eq_self del: of_nat_diff of_nat_Suc)
  qed
  show ?thesis
  proof (cases "length (filter (\<lambda>b. b = 0) (content s)) = 0")
    case True
    then have "cstr_of (content s) = content s" by (simp add: cstr_of_def filter_id_conv filter_empty_conv)
    then show ?thesis using True t l lb es_len [OF assms(1)]
      by (simp add: es_str2cstr_def Let_def bs)
  next
    case False
    then show ?thesis using t lb sz [of "length (filter (\<lambda>b. b = 0) (content s))"] len [of "content s"] es_len [OF assms(1)]
      by (simp add: es_str2cstr_def Let_def bs out del: of_nat_0)
  qed
qed

section \<open>Numbers\<close>

lemma addDigit_in:
  assumes "0 \<le> num" "isdigit c" "num * 10 + (uint c - 48) \<le> LLONG_MAX - 48"
  shows "addDigit 10 num (uint c) 48 = Some (num * 10 + (uint c - 48))"
  using assms by (auto simp: addDigit_def ll_def isdigit_uint LLONG_MAX_def)

lemma digitLoop_ok:
  "\<forall>d \<in> set xs. isdigit d \<Longrightarrow> 0 \<le> num \<Longrightarrow> dval num xs \<le> LLONG_MAX - 48 \<Longrightarrow>
   digitLoop num xs = Some (dval num xs, True)"
proof (induction xs arbitrary: num)
  case (Cons x xs)
  have d: "isdigit x" using Cons.prems by simp
  have n: "0 \<le> num * 10 + (uint x - 48)" using Cons.prems(2) d by (simp add: isdigit_uint)
  then have "num * 10 + (uint x - 48) \<le> dval num (x # xs)"
    using dval_mono [of "num * 10 + (uint x - 48)" xs] Cons.prems(1) by (simp add: dval_Cons)
  then have "addDigit 10 num (uint x) 48 = Some (num * 10 + (uint x - 48))"
    using addDigit_in [of num x] Cons.prems d by linarith
  then show ?case using Cons.IH [OF _ n] Cons.prems d by (simp add: dval_Cons)
qed (simp add: dval_def)

lemma addDigit_cases:
  assumes "0 \<le> num" "isdigit c"
  shows "addDigit 10 num (uint c) 48 = None \<or>
    addDigit 10 num (uint c) 48 = Some (num * 10 + (uint c - 48)) \<and> num * 10 + (uint c - 48) \<le> LLONG_MAX"
  using assms by (auto simp: addDigit_def ll_def isdigit_uint)

lemma digitLoop_overflow:
  "\<forall>d \<in> set xs. isdigit d \<Longrightarrow> 0 \<le> num \<Longrightarrow> num \<le> LLONG_MAX \<Longrightarrow> LLONG_MAX < dval num xs \<Longrightarrow> digitLoop num xs = None"
proof (induction xs arbitrary: num)
  case (Cons x xs)
  have d: "isdigit x" using Cons.prems by simp
  have n: "0 \<le> num * 10 + (uint x - 48)" using Cons.prems(2) d by (simp add: isdigit_uint)
  then show ?case using addDigit_cases [OF Cons.prems(2) d] Cons.IH [OF _ n] Cons.prems d
    by (auto simp: dval_Cons)
qed (simp add: dval_def)

lemma not_sign: "isdigit d \<Longrightarrow> d \<noteq> 45"
  by (auto simp: isdigit_def)

text \<open>
  A text of digits is its decimal value, but a number too large for 64 bits (which a
  message can contain) overflows a signed integer, which is undefined.
\<close>

theorem numbers_overflow:
  assumes "xs \<noteq> []" and "\<forall>d \<in> set xs. isdigit d"
  shows "(dval 0 xs \<le> LLONG_MAX - 48 \<longrightarrow> str2num xs = Some (dval 0 xs, True)) \<and>
    (LLONG_MAX < dval 0 xs \<longrightarrow> str2num xs = None)"
proof -
  have n: "hd xs \<noteq> 45" using assms not_sign by (cases xs) auto
  have "0 \<le> dval 0 xs" using dval_mono [of 0 xs] assms(2) by simp
  then show ?thesis using digitLoop_ok [OF assms(2), of 0] digitLoop_overflow [OF assms(2), of 0] n assms(1)
    by (auto simp: str2num_def ll_def LLONG_MAX_def)
qed

lemma str2num_numtxt:
  assumes "\<bar>n\<bar> \<le> LLONG_MAX - 48"
  shows "str2num (numtxt n) = Some (n, True)"
proof -
  have L: "LLONG_MAX - 48 = 9223372036854775759" by (simp add: LLONG_MAX_def)
  have z: "digitLoop 0 (digs (nat \<bar>n\<bar>)) = Some (\<bar>n\<bar>, True)"
    using digitLoop_ok [of "digs (nat \<bar>n\<bar>)" 0] digs_digit assms by (simp add: dval_digs)
  consider "n = 0" | "0 < n" | "n < 0" by linarith
  then show ?thesis
  proof cases
    case 1
    then show ?thesis by (simp add: str2num_def numtxt_def isdigit_def addDigit_def ll_def LLONG_MAX_def)
  next
    case 2
    then obtain d ds where "digs (nat n) = d # ds" "d \<noteq> 45" using hd_digs [of "nat n"] by auto
    then show ?thesis using 2 z assms L by (simp add: str2num_def numtxt_def ll_def LLONG_MAX_def)
  next
    case 3
    then show ?thesis using z assms L by (simp add: str2num_def numtxt_def ll_def LLONG_MAX_def)
  qed
qed

lemma starts_with_i_short: "map tolower p = map tolower s @ r \<Longrightarrow> starts_with_i s p"
proof -
  assume a: "map tolower p = map tolower s @ r"
  have l: "length s \<le> length p" using arg_cong [OF a, of length] by simp
  have "map tolower (take (length s) p) = map tolower s"
    using arg_cong [OF a, of "take (length s)"] by (simp add: take_map)
  then show ?thesis using l by (simp add: starts_with_i_def min_absorb1 lcmp_zero)
qed

lemma bsearch_sorted: "sorted xs \<Longrightarrow> bsearch_str key xs = Some (key \<in> set xs)"
proof -
  assume s: "sorted xs"
  have m: "x \<le> y \<Longrightarrow> sgn (lcmp x key) \<le> sgn (lcmp y key)" for x y
    using lcmp_less [of x key] lcmp_pos [of x key] lcmp_less [of y key] lcmp_pos [of y key]
    by (auto simp: sgn_if not_less_iff_gr_or_eq)
  have "sorted (map (\<lambda>x. sgn (lcmp x key)) xs)" using s by (induction xs) (auto simp: m)
  then show ?thesis by (simp add: bsearch_str_def)
qed

theorem numbers_overflow_witness:
  "(dval 0 (lit ''99999999999999999999'') \<le> LLONG_MAX - 48 \<longrightarrow>
      str2num (lit ''99999999999999999999'') = Some (dval 0 (lit ''99999999999999999999''), True)) \<and>
    (LLONG_MAX < dval 0 (lit ''99999999999999999999'') \<longrightarrow> str2num (lit ''99999999999999999999'') = None)"
  by (rule numbers_overflow) (simp_all add: lit_def isdigit_def)

end
