(* ===== verification/ScriptFun.thy ===== *)
theory ScriptFun
  imports ScriptVal
begin

text \<open>
  The functions of RainerScript on evaluated arguments (\<open>doFunct_*\<close> of grammar/rainerscript.c).

  A C string is its content without the terminator where the code only looks at it through
  \<open>strlen\<close> or \<open>strstr\<close>; where it walks a pointer, the terminator and the end of the array are in
  the model. A buffer that is filled byte by byte is a list of cells.
\<close>

unbundle bit_operations_syntax

section \<open>Lengths, cases, blanks\<close>

definition doFunct_StrLen :: "svar \<Rightarrow> svar" where
  "doFunct_StrLen v = SNum (int (length (var2String v)))"

definition doFunct_ToLower :: "svar \<Rightarrow> svar" where
  "doFunct_ToLower v = SStr (map tolower (var2String v))"

definition doFunct_CStr :: "svar \<Rightarrow> svar" where
  "doFunct_CStr v = SStr (var2String v)"

definition doFunct_LTrim :: "svar \<Rightarrow> svar" where
  "doFunct_LTrim v = SStr (dropWhile (\<lambda>c. c = 32) (var2CString v))"

text \<open>\<open>for (i = len - 1; i > 0; i--) if (str[i] != ' ') break;\<close>\<close>

fun rtrimLoop :: "byte list \<Rightarrow> nat \<Rightarrow> nat" where
  "rtrimLoop str 0 = 0"
| "rtrimLoop str (Suc i) = (if str ! Suc i \<noteq> 32 then Suc i else rtrimLoop str i)"

definition doFunct_RTrim :: "svar \<Rightarrow> svar" where
  "doFunct_RTrim v =
     (let str = var2CString v
      in if str = [] then SStr []
         else let i = rtrimLoop str (length str - 1)
              in SStr (if i > 0 \<or> str ! 0 \<noteq> 32 then take (i + 1) str else []))"

section \<open>Substrings\<close>

text \<open>
  The numbers become \<open>int\<close> and then \<open>es_size_t\<close>: their last 32 bits. \<open>es_newStrFromSubStr\<close> can
  return a null pointer; every use of such a string dereferences it. Behind the content of the
  operand there are no bytes to be read.
\<close>

definition es_str_of :: "byte list \<Rightarrow> es_str" where
  "es_str_of s = \<lparr>lenStr = of_nat (length s), lenBuf = of_nat (length s), es_buf = map Some s\<rparr>"

definition doFunct_Substring :: "svar \<Rightarrow> svar \<Rightarrow> svar \<Rightarrow> svar option" where
  "doFunct_Substring v a b = do {
     (start, _) \<leftarrow> var2Number a;
     (subStrLen, _) \<leftarrow> var2Number b;
     r \<leftarrow> es_newStrFromSubStr True (es_str_of (var2String v)) (of_int start) (of_int subStrLen);
     t \<leftarrow> r;
     Some (SStr (content t))
   }"

section \<open>Fields\<close>

text \<open>The loops work on a pointer: the bytes from it to the end of the array.\<close>

fun fieldEnd :: "byte \<Rightarrow> byte list \<Rightarrow> byte list option" where
  "fieldEnd delim [] = None"
| "fieldEnd delim (c # cs) = (if c \<noteq> 0 \<and> c \<noteq> delim then fieldEnd delim cs else Some (c # cs))"

lemma fieldEnd_length: "fieldEnd d p = Some q \<Longrightarrow> length q \<le> length p"
  by (induction p) (auto split: if_splits)

function fieldSkip :: "byte \<Rightarrow> int \<Rightarrow> byte list \<Rightarrow> int \<Rightarrow> (byte list \<times> int) option" where
  "fieldSkip delim matchnbr p iCurrFld =
     (case p of
        [] \<Rightarrow> None
      | c # cs \<Rightarrow>
          if c \<noteq> 0 \<and> iCurrFld < matchnbr
          then (case fieldEnd delim p of
                  Some (d # ds) \<Rightarrow>
                    if d = delim then fieldSkip delim matchnbr ds (iCurrFld + 1) else Some (d # ds, iCurrFld)
                | _ \<Rightarrow> None)
          else Some (p, iCurrFld))"
  by pat_completeness auto
termination
  by (relation "measure (\<lambda>(d, m, p, i). length p)") (auto dest: fieldEnd_length simp del: fieldEnd.simps)

declare fieldSkip.simps [simp del]

definition FIELD_NOT_FOUND :: "byte list" where
  "FIELD_NOT_FOUND = lit ''***FIELD NOT FOUND***''"

definition doExtractFieldByChar :: "byte list \<Rightarrow> byte \<Rightarrow> int \<Rightarrow> byte list option option" where
  "doExtractFieldByChar str delim matchnbr = do {
     (p, iCurrFld) \<leftarrow> fieldSkip delim matchnbr (str @ [0]) 1;
     if iCurrFld = matchnbr
     then do {
       e \<leftarrow> fieldEnd delim p;
       Some (Some (take (length p - length e) p)) }
     else Some None
   }"

text \<open>The strings of \<open>strstr\<close> are without their terminators; \<open>lenDelim\<close> is the length of the string.\<close>

function fieldSkipStr :: "byte list \<Rightarrow> nat \<Rightarrow> int \<Rightarrow> byte list \<Rightarrow> int \<Rightarrow> (byte list option \<times> int) option" where
  "fieldSkipStr delim lenDelim matchnbr p iCurrFld =
     (if iCurrFld < matchnbr
      then (case position delim p of
              None \<Rightarrow> Some (None, iCurrFld)
            | Some k \<Rightarrow>
                if k + lenDelim \<le> length p
                then fieldSkipStr delim lenDelim matchnbr (drop (k + lenDelim) p) (iCurrFld + 1)
                else None)
      else Some (Some p, iCurrFld))"
  by pat_completeness auto
termination
  by (relation "measure (\<lambda>(d, l, m, p, i). nat (m - i))") auto

declare fieldSkipStr.simps [simp del]

definition doExtractFieldByStr :: "byte list \<Rightarrow> byte list \<Rightarrow> nat \<Rightarrow> int \<Rightarrow> byte list option option" where
  "doExtractFieldByStr str delim lenDelim matchnbr = do {
     (pFld, iCurrFld) \<leftarrow> fieldSkipStr delim lenDelim matchnbr str 1;
     if iCurrFld = matchnbr
     then do {
       p \<leftarrow> pFld;
       Some (Some (case position delim p of None \<Rightarrow> p | Some k \<Rightarrow> take k p)) }
     else Some None
   }"

text \<open>A number converted to \<open>int\<close>, and from there to \<open>char\<close>.\<close>

definition to_int :: "int \<Rightarrow> int" where
  "to_int n = sint (of_int n :: 32 word)"

definition doFunct_Field :: "svar \<Rightarrow> svar \<Rightarrow> svar \<Rightarrow> svar option" where
  "doFunct_Field v d n = do {
     let str = var2CString v;
     (nbr, _) \<leftarrow> var2Number n;
     let matchnbr = to_int nbr;
     r \<leftarrow> (case d of
             SStr ds \<Rightarrow> doExtractFieldByStr str (cstr_of ds) (length ds) matchnbr
           | _ \<Rightarrow> do { (delim, _) \<leftarrow> var2Number d; doExtractFieldByChar str (of_int delim) matchnbr });
     Some (SStr (case r of None \<Rightarrow> FIELD_NOT_FOUND | Some s \<Rightarrow> s))
   }"

section \<open>Replacing\<close>

text \<open>
  The first pass computes the length of the result, the second one writes it. The first pass is
  a state of the source index, the number of bytes of the search string matched and the length;
  the second one has the destination index and the destination instead. On a mismatch behind a
  partial match the first pass goes back \<open>j - 1\<close> bytes and the second one \<open>j\<close>, both before the
  increment of the loop.
\<close>

function replaceLen :: "byte list \<Rightarrow> byte list \<Rightarrow> nat \<Rightarrow> nat \<Rightarrow> nat \<Rightarrow> int \<Rightarrow> int option" where
  "replaceLen src needle lRep i j lDst =
     (if i \<le> length src
      then let (j', l') = (if j = length needle then (0, lDst - int (length needle) + int lRep) else (j, lDst))
           in if i = length src then Some l'
              else if j' < length needle
                then if src ! i = needle ! j' then replaceLen src needle lRep (i + 1) (j' + 1) (l' + 1)
                     else if j' > 0 then replaceLen src needle lRep (i - (j' - 1) + 1) 0 (l' - int (j' - 1) + 1)
                     else replaceLen src needle lRep (i + 1) 0 (l' + 1)
                else None
      else Some lDst)"
  by pat_completeness auto
termination
  by (relation "measures [\<lambda>(src, needle, r, i, j, l). length src + 1 + j - i, \<lambda>(src, needle, r, i, j, l). length needle - j]")
     (auto split: if_splits simp del: length_0_conv length_greater_0_conv)

declare replaceLen.simps [simp del]

fun writeAll :: "byte option list \<Rightarrow> nat \<Rightarrow> byte list \<Rightarrow> byte option list option" where
  "writeAll dest s [] = Some dest"
| "writeAll dest s (b # bs) = do { d \<leftarrow> c_set dest s (Some b); writeAll d (s + 1) bs }"

text \<open>The last bytes of the source, when they are the beginning of a match.\<close>

fun writeTail :: "byte list \<Rightarrow> byte option list \<Rightarrow> nat \<Rightarrow> nat \<Rightarrow> nat \<Rightarrow> byte option list option" where
  "writeTail src dest s i 0 = Some dest"
| "writeTail src dest s i (Suc k) = do {
     d \<leftarrow> writeTail src dest s i k;
     c \<leftarrow> (if i < Suc k then None else c_get src (i - Suc k));
     if s < Suc k then None else c_set d (s - Suc k) (Some c)
   }"

function replaceWrite :: "byte list \<Rightarrow> byte list \<Rightarrow> byte list \<Rightarrow> nat \<Rightarrow> nat \<Rightarrow> nat \<Rightarrow> byte option list \<Rightarrow> byte option list option" where
  "replaceWrite src needle rep i j s dest =
     (if i \<le> length src
      then (case (if j = length needle
                  then (if s < j then None
                        else map_option (\<lambda>d. (0, s - j + length rep, d)) (writeAll dest (s - j) rep))
                  else Some (j, s, dest)) of
              None \<Rightarrow> None
            | Some (j', s', d') \<Rightarrow>
                if i = length src then writeTail src d' s' i j'
                else if j' < length needle
                  then if src ! i = needle ! j' then replaceWrite src needle rep (i + 1) (j' + 1) (s' + 1) d'
                       else if s' < j' then None
                       else (case c_set d' (s' - j') (Some (src ! (i - j'))) of
                               None \<Rightarrow> None
                             | Some d'' \<Rightarrow> replaceWrite src needle rep (i - j' + 1) 0 (s' - j' + 1) d'')
                  else None)
      else writeTail src dest s i j)"
  by pat_completeness auto
termination
  by (relation "measures [\<lambda>(src, needle, rep, i, j, s, d). length src + 1 + j - i, \<lambda>(src, needle, rep, i, j, s, d). length needle - j]")
     (auto split: if_splits simp del: length_0_conv length_greater_0_conv)

declare replaceWrite.simps [simp del]

text \<open>A result with a byte that nobody wrote is undefined.\<close>

definition doFuncReplace :: "byte list \<Rightarrow> byte list \<Rightarrow> byte list \<Rightarrow> byte list option" where
  "doFuncReplace str needle replaceWith = do {
     lDst \<leftarrow> replaceLen str needle (length replaceWith) 0 0 0;
     res \<leftarrow> es_newStr True (of_int lDst);
     dest \<leftarrow> replaceWrite str needle replaceWith 0 0 0 (es_buf res);
     let n = unat (of_int lDst :: 32 word);
     if n \<le> length dest \<and> None \<notin> set (take n dest) then Some (map the (take n dest)) else None
   }"

definition doFunct_Replace :: "svar \<Rightarrow> svar \<Rightarrow> svar \<Rightarrow> svar option" where
  "doFunct_Replace v f r = map_option SStr (doFuncReplace (var2String v) (var2String f) (var2String r))"

definition doFunct_Wrap :: "svar \<Rightarrow> svar \<Rightarrow> svar option \<Rightarrow> svar option" where
  "doFunct_Wrap v w esc = do {
     src \<leftarrow> (case esc of
               None \<Rightarrow> Some (var2String v)
             | Some e \<Rightarrow> doFuncReplace (var2String v) (var2String w) (var2String e));
     let wrapper = var2String w;
     let totalLen = length src + 2 * length wrapper;
     _ \<leftarrow> c_guard (totalLen < 2 ^ 32 - 7);
     Some (SStr (wrapper @ src @ wrapper))
   }"

section \<open>IPv4 addresses\<close>

record ipstate =
  ip_num :: "32 word list"
  ip_cyc :: nat
  ip_prevdot :: bool
  ip_startblank :: bool
  ip_endblank :: bool

text \<open>One character; \<open>None\<close> is a wrong format.\<close>

definition ipStep :: "bool \<Rightarrow> byte \<Rightarrow> ipstate \<Rightarrow> ipstate option" where
  "ipStep isFirst c s =
     (if isdigit c
      then if ip_endblank s then None
           else Some (s\<lparr>ip_prevdot := False, ip_startblank := False,
                  ip_num := (ip_num s)[ip_cyc s := ip_num s ! ip_cyc s * 10 + (ucast c - 48)]\<rparr>)
      else if c = 32
      then if isFirst \<or> ip_startblank s then Some (s\<lparr>ip_prevdot := False, ip_startblank := True\<rparr>)
           else Some (s\<lparr>ip_prevdot := False, ip_endblank := True\<rparr>)
      else if c = 46
      then if ip_endblank s \<or> ip_prevdot s \<or> ip_cyc s + 1 > 3 then None
           else Some (s\<lparr>ip_startblank := False, ip_prevdot := True, ip_cyc := ip_cyc s + 1\<rparr>)
      else None)"

fun ipLoop :: "bool \<Rightarrow> byte list \<Rightarrow> ipstate \<Rightarrow> ipstate option" where
  "ipLoop isFirst [] s = Some s"
| "ipLoop isFirst (c # cs) s = do { s1 \<leftarrow> ipStep isFirst c s; ipLoop False cs s1 }"

definition ip_init :: ipstate where
  "ip_init = \<lparr>ip_num = [0, 0, 0, 0], ip_cyc = 0, ip_prevdot = False, ip_startblank = False, ip_endblank = False\<rparr>"

definition ip_value :: "32 word list \<Rightarrow> int" where
  "ip_value num = uint (num ! 0 * 256 * 256 * 256 + num ! 1 * 256 * 256 + num ! 2 * 256 + num ! 3)"

definition doFunct_Ipv42num :: "svar \<Rightarrow> svar" where
  "doFunct_Ipv42num v =
     SNum (case ipLoop True (var2CString v) ip_init of
             None \<Rightarrow> -1
           | Some s \<Rightarrow> if ip_cyc s \<noteq> 3 then -1 else ip_value (ip_num s))"

definition doFunct_num2ipv4 :: "svar \<Rightarrow> svar option" where
  "doFunct_num2ipv4 v = do {
     (num, success) \<leftarrow> var2Number v;
     Some (SStr (if \<not> success \<or> num < 0 \<or> num > 4294967295 then lit ''-1''
       else numtxt (num div 16777216 mod 256) @ [46] @ numtxt (num div 65536 mod 256) @ [46] @
            numtxt (num div 256 mod 256) @ [46] @ numtxt (num mod 256)))
   }"

section \<open>Other functions on numbers\<close>

fun hexDigits :: "nat \<Rightarrow> byte list" where
  "hexDigits n = (let d = n mod 16; c = (if d < 10 then of_nat (48 + d) else of_nat (87 + d))
     in if n < 16 then [c] else hexDigits (n div 16) @ [c])"

declare hexDigits.simps [simp del]

text \<open>\<open>%llx\<close> prints the 64 bits of the number.\<close>

definition doFunct_Int2Hex :: "svar \<Rightarrow> svar option" where
  "doFunct_Int2Hex v = do {
     (num, success) \<leftarrow> var2Number v;
     Some (SStr (if \<not> success then lit ''NAN'' else hexDigits (nat (num mod 18446744073709551616))))
   }"

text \<open>C's remainder has the sign of the dividend; \<open>LLONG_MIN % -1\<close> is undefined.\<close>

definition c_mod :: "int \<Rightarrow> int \<Rightarrow> int option" where
  "c_mod a b = do { q \<leftarrow> c_div a b; _ \<leftarrow> ll q; Some (a - q * b) }"

text \<open>\<open>x\<close> is the \<open>long int\<close> that \<open>randomNumber\<close> read.\<close>

definition doFunct_RandomGen :: "int \<Rightarrow> svar \<Rightarrow> svar option" where
  "doFunct_RandomGen x v = do {
     (mx, success) \<leftarrow> var2Number v;
     if \<not> success \<or> mx = 0 then Some (SNum 0)
     else map_option SNum (c_mod x mx)
   }"

end
