(* ===== verification/Expr.thy ===== *)
theory Expr
  imports ScriptFun
begin

text \<open>
  RainerScript expressions and their evaluation: \<open>struct cnfexpr\<close> and \<open>cnfexprEval\<close> of
  grammar/rainerscript.c.

  The message an expression is evaluated for gives its facility and severity; the other
  properties, the JSON variables and the functions that are not modelled are given by the
  context. A value that the context gives for a variable is a string or a JSON value.
\<close>

section \<open>Expressions\<close>

datatype arithop = OP_ADD | OP_SUB | OP_MUL | OP_DIV | OP_MOD

text \<open>The function pointer of a call; \<open>F_null\<close> is an unknown function.\<close>

datatype scriptfn =
    F_strlen | F_tolower | F_cstr | F_cnum | F_ltrim | F_rtrim | F_substring | F_field
  | F_replace | F_wrap | F_ip42num | F_num2ipv4 | F_int2hex
  | F_prifilt pmask
  | F_null
  | F_other "byte list"

datatype cnfexpr =
    E_cmp compop cnfexpr cnfexpr
  | E_or cnfexpr cnfexpr
  | E_and cnfexpr cnfexpr
  | E_not cnfexpr
  | E_num int
  | E_str "byte list"
  | E_arr "byte list list"
  | E_var "byte list"
  | E_cat cnfexpr cnfexpr
  | E_arith arithop cnfexpr cnfexpr
  | E_neg cnfexpr
  | E_fun scriptfn "cnfexpr list"

record evalctx =
  cx_msg :: pmsg
  cx_json :: "byte list \<Rightarrow> svar"
  cx_prop :: "byte list \<Rightarrow> byte list"
  cx_call :: "byte list \<Rightarrow> svar list \<Rightarrow> svar option"

section \<open>Variables\<close>

datatype propid =
    PROP_SYSLOGFACILITY | PROP_SYSLOGFACILITY_TEXT | PROP_SYSLOGSEVERITY | PROP_SYSLOGSEVERITY_TEXT
  | PROP_JSON | PROP_OTHER

definition is_json_name :: "byte list \<Rightarrow> bool" where
  "is_json_name n \<longleftrightarrow>
     (case n of
        c # d # _ \<Rightarrow> c = 33 \<or> c = 46 \<or> c = 47 \<or> c = 36 \<and> (d = 33 \<or> d = 46 \<or> d = 47)
      | [c] \<Rightarrow> c = 33 \<or> c = 46 \<or> c = 47
      | [] \<Rightarrow> False)"

text \<open>Names of properties are compared without regard to case; all-json is not a variable.\<close>

definition propNameToID :: "byte list \<Rightarrow> propid" where
  "propNameToID name =
     (let n = map tolower name
      in if n = lit ''syslogfacility'' then PROP_SYSLOGFACILITY
         else if n = lit ''syslogfacility-text'' then PROP_SYSLOGFACILITY_TEXT
         else if n = lit ''syslogseverity'' \<or> n = lit ''syslogpriority'' then PROP_SYSLOGSEVERITY
         else if n = lit ''syslogseverity-text'' \<or> n = lit ''syslogpriority-text'' then PROP_SYSLOGSEVERITY_TEXT
         else if n = lit ''$!all-json'' \<or> n = lit ''$!all-json-plain'' then PROP_OTHER
         else if is_json_name n then PROP_JSON
         else PROP_OTHER)"

definition syslog_severity_names :: "byte list list" where
  "syslog_severity_names = map lit [''emerg'', ''alert'', ''crit'', ''err'', ''warning'', ''notice'', ''info'', ''debug'']"

definition syslog_fac_names :: "byte list list" where
  "syslog_fac_names = map lit [''kern'', ''user'', ''mail'', ''daemon'', ''auth'', ''syslog'', ''lpr'',
     ''news'', ''uucp'', ''cron'', ''authpriv'', ''ftp'', ''ntp'', ''audit'', ''alert'', ''clock'',
     ''local0'', ''local1'', ''local2'', ''local3'', ''local4'', ''local5'', ''local6'', ''local7'', ''invld'']"

definition syslog_number_names :: "byte list list" where
  "syslog_number_names = map lit [''0'', ''1'', ''2'', ''3'', ''4'', ''5'', ''6'', ''7'', ''8'', ''9'', ''10'',
     ''11'', ''12'', ''13'', ''14'', ''15'', ''16'', ''17'', ''18'', ''19'', ''20'', ''21'', ''22'', ''23'', ''24'']"

definition name_at :: "byte list list \<Rightarrow> int \<Rightarrow> int \<Rightarrow> byte list option" where
  "name_at names mx i = (if i > mx then Some (lit ''invld'') else if i < 0 then None else c_get names (nat i))"

definition getSeverity :: "pmsg \<Rightarrow> byte list option" where
  "getSeverity m = name_at syslog_number_names 7 (iSeverity m)"

definition getSeverityStr :: "pmsg \<Rightarrow> byte list option" where
  "getSeverityStr m = name_at syslog_severity_names 7 (iSeverity m)"

definition getFacility :: "pmsg \<Rightarrow> byte list option" where
  "getFacility m = name_at syslog_number_names 23 (iFacility m)"

definition getFacilityStr :: "pmsg \<Rightarrow> byte list option" where
  "getFacilityStr m = name_at syslog_fac_names 23 (iFacility m)"

definition evalVar :: "evalctx \<Rightarrow> byte list \<Rightarrow> svar option" where
  "evalVar cx name =
     (case propNameToID name of
        PROP_JSON \<Rightarrow> Some (cx_json cx name)
      | PROP_SYSLOGFACILITY \<Rightarrow> map_option SStr (getFacility (cx_msg cx))
      | PROP_SYSLOGFACILITY_TEXT \<Rightarrow> map_option SStr (getFacilityStr (cx_msg cx))
      | PROP_SYSLOGSEVERITY \<Rightarrow> map_option SStr (getSeverity (cx_msg cx))
      | PROP_SYSLOGSEVERITY_TEXT \<Rightarrow> map_option SStr (getSeverityStr (cx_msg cx))
      | PROP_OTHER \<Rightarrow> Some (SStr (cx_prop cx name)))"

section \<open>Operators\<close>

text \<open>
  Comparison with \<open>r\<close> evaluated. An array on the right is an array for a string or a JSON value
  on the left of \<open>==\<close>, and for a string on the left of \<open>!=\<close>; else it is its first member.
\<close>

definition cmpEq :: "svar \<Rightarrow> byte list list option \<Rightarrow> svar option \<Rightarrow> int option" where
  "cmpEq l ar r =
     (case ar of
        Some xs \<Rightarrow> if is_num l then Option.bind r (cmpVals CMP_EQ l) else evalStrArrayCmp (var2String l) xs CMP_EQ
      | None \<Rightarrow> Option.bind r (cmpVals CMP_EQ l))"

definition cmpNe :: "svar \<Rightarrow> byte list list option \<Rightarrow> svar option \<Rightarrow> int option" where
  "cmpNe l ar r = do {
     rv \<leftarrow> r;
     case (l, ar) of
       (SStr s, Some xs) \<Rightarrow> evalStrArrayCmp s xs CMP_NE
     | _ \<Rightarrow> cmpVals CMP_NE l rv
   }"

definition cmpStr :: "compop \<Rightarrow> svar \<Rightarrow> byte list list option \<Rightarrow> svar option \<Rightarrow> int option" where
  "cmpStr cop l ar r =
     (case ar of
        Some xs \<Rightarrow> evalStrArrayCmp (var2String l) xs cop
      | None \<Rightarrow> do {
          rv \<leftarrow> r;
          let s = var2String l;
          let p = var2String rv;
          Some (of_bool (if cop = CMP_STARTSWITH then starts_with s p
            else if cop = CMP_STARTSWITHI then starts_with_i s p
            else if cop = CMP_CONTAINS then str_contains s p
            else str_contains_i s p)) })"

definition cmpEval :: "compop \<Rightarrow> svar \<Rightarrow> byte list list option \<Rightarrow> svar option \<Rightarrow> int option" where
  "cmpEval cop l ar r =
     (if cop = CMP_EQ then cmpEq l ar r
      else if cop = CMP_NE then cmpNe l ar r
      else if cop = CMP_LE \<or> cop = CMP_GE \<or> cop = CMP_LT \<or> cop = CMP_GT then Option.bind r (cmpVals cop l)
      else cmpStr cop l ar r)"

text \<open>Sums, differences and products of 64 bits; a quotient by zero is zero.\<close>

definition arithEval :: "arithop \<Rightarrow> svar \<Rightarrow> svar \<Rightarrow> int option" where
  "arithEval aop l r =
     (if aop = OP_DIV \<or> aop = OP_MOD
      then do {
        (n, _) \<leftarrow> var2Number r;
        if n = 0 then Some 0
        else do { (a, _) \<leftarrow> var2Number l; if aop = OP_DIV then Option.bind (c_div a n) ll else c_mod a n } }
      else do {
        (a, _) \<leftarrow> var2Number l;
        (b, _) \<leftarrow> var2Number r;
        ll (if aop = OP_ADD then a + b else if aop = OP_SUB then a - b else a * b) })"

definition isTrue :: "svar \<Rightarrow> bool option" where
  "isTrue v = map_option (\<lambda>(n, _). n \<noteq> 0) (var2Number v)"

definition callFn :: "evalctx \<Rightarrow> scriptfn \<Rightarrow> svar list \<Rightarrow> svar option" where
  "callFn cx f vs =
     (case (f, vs) of
        (F_strlen, [v]) \<Rightarrow> Some (doFunct_StrLen v)
      | (F_tolower, [v]) \<Rightarrow> Some (doFunct_ToLower v)
      | (F_cstr, [v]) \<Rightarrow> Some (doFunct_CStr v)
      | (F_cnum, [v]) \<Rightarrow> map_option (\<lambda>(n, _). SNum n) (var2Number v)
      | (F_ltrim, [v]) \<Rightarrow> Some (doFunct_LTrim v)
      | (F_rtrim, [v]) \<Rightarrow> Some (doFunct_RTrim v)
      | (F_substring, [v, a, b]) \<Rightarrow> doFunct_Substring v a b
      | (F_field, [v, d, n]) \<Rightarrow> doFunct_Field v d n
      | (F_replace, [v, a, b]) \<Rightarrow> doFunct_Replace v a b
      | (F_wrap, [v, w]) \<Rightarrow> doFunct_Wrap v w None
      | (F_wrap, [v, w, e]) \<Rightarrow> doFunct_Wrap v w (Some e)
      | (F_ip42num, [v]) \<Rightarrow> Some (doFunct_Ipv42num v)
      | (F_num2ipv4, [v]) \<Rightarrow> doFunct_num2ipv4 v
      | (F_int2hex, [v]) \<Rightarrow> doFunct_Int2Hex v
      | (F_other name, _) \<Rightarrow> cx_call cx name vs
      | _ \<Rightarrow> None)"

section \<open>Evaluation\<close>

definition arr_of :: "cnfexpr \<Rightarrow> byte list list option" where
  "arr_of e = (case e of E_arr xs \<Rightarrow> Some xs | _ \<Rightarrow> None)"

text \<open>
  \<open>cnum\<close> of a constant is evaluated by \<open>es_str2num\<close>, of anything else by \<open>var2Number\<close>. A call of an
  unknown function is 0, and neither it nor \<open>prifilt\<close> evaluates its parameters.
\<close>

fun cnfexprEval :: "evalctx \<Rightarrow> cnfexpr \<Rightarrow> svar option" where
  "cnfexprEval cx (E_cmp cop l r) = do {
     lv \<leftarrow> cnfexprEval cx l;
     map_option SNum (cmpEval cop lv (arr_of r) (cnfexprEval cx r)) }"
| "cnfexprEval cx (E_or l r) = do {
     lv \<leftarrow> cnfexprEval cx l;
     tl \<leftarrow> isTrue lv;
     if tl then Some (SNum 1)
     else do { rv \<leftarrow> cnfexprEval cx r; tr \<leftarrow> isTrue rv; Some (SNum (of_bool tr)) } }"
| "cnfexprEval cx (E_and l r) = do {
     lv \<leftarrow> cnfexprEval cx l;
     tl \<leftarrow> isTrue lv;
     if tl then do { rv \<leftarrow> cnfexprEval cx r; tr \<leftarrow> isTrue rv; Some (SNum (of_bool tr)) }
     else Some (SNum 0) }"
| "cnfexprEval cx (E_not r) = do {
     rv \<leftarrow> cnfexprEval cx r;
     tr \<leftarrow> isTrue rv;
     Some (SNum (of_bool (\<not> tr))) }"
| "cnfexprEval cx (E_num n) = Some (SNum n)"
| "cnfexprEval cx (E_str s) = Some (SStr s)"
| "cnfexprEval cx (E_arr xs) = map_option SStr (c_get xs 0)"
| "cnfexprEval cx (E_var name) = evalVar cx name"
| "cnfexprEval cx (E_cat l r) = do {
     lv \<leftarrow> cnfexprEval cx l;
     rv \<leftarrow> cnfexprEval cx r;
     Some (SStr (var2String lv @ var2String rv)) }"
| "cnfexprEval cx (E_arith aop l r) = do {
     lv \<leftarrow> cnfexprEval cx l;
     rv \<leftarrow> cnfexprEval cx r;
     map_option SNum (arithEval aop lv rv) }"
| "cnfexprEval cx (E_neg r) = do {
     rv \<leftarrow> cnfexprEval cx r;
     (n, _) \<leftarrow> var2Number rv;
     map_option SNum (ll (- n)) }"
| "cnfexprEval cx (E_fun f args) =
     (case (f, args) of
        (F_null, _) \<Rightarrow> Some (SNum 0)
      | (F_prifilt pm, _) \<Rightarrow> map_option (\<lambda>b. SNum (of_bool b)) (prifilt_match pm (cx_msg cx))
      | (F_cnum, [E_str s]) \<Rightarrow> map_option (\<lambda>(n, _). SNum n) (es_str2num (es_str_of s))
      | _ \<Rightarrow> Option.bind (those (map (cnfexprEval cx) args)) (callFn cx f))"

text \<open>The truth of a filter: \<open>long long\<close> to \<open>int\<close> in \<open>cnfexprEvalBool\<close>, to \<open>signed char\<close> in \<open>execIf\<close>.\<close>

definition cnfexprEvalBool :: "evalctx \<Rightarrow> cnfexpr \<Rightarrow> int option" where
  "cnfexprEvalBool cx e = do {
     v \<leftarrow> cnfexprEval cx e;
     (n, _) \<leftarrow> var2Number v;
     Some (to_int n) }"

definition if_condition :: "evalctx \<Rightarrow> cnfexpr \<Rightarrow> bool option" where
  "if_condition cx e = map_option (\<lambda>n. (of_int n :: byte) \<noteq> 0) (cnfexprEvalBool cx e)"

end
