(* ===== verification/ExprOpt.thy ===== *)
theory ExprOpt
  imports Expr
begin

text \<open>
  The optimizer of expressions (\<open>cnfexprOptimize\<close> of grammar/rainerscript.c).

  The optimizer works on the tree in place and returns the node that takes the place of the one
  it was given. The second component of the result tells whether that is another node, the old
  one being freed. The folding of constants ignores the result for its operands; when an operand
  was replaced, the node keeps a pointer to freed memory, which is undefined.
\<close>

section \<open>Constants\<close>

definition is_const :: "cnfexpr \<Rightarrow> bool" where
  "is_const e \<longleftrightarrow> (case e of E_num _ \<Rightarrow> True | E_str _ \<Rightarrow> True | _ \<Rightarrow> False)"

definition constVal :: "cnfexpr \<Rightarrow> int option" where
  "constVal e = (case e of E_num n \<Rightarrow> Some n | E_str s \<Rightarrow> map_option fst (es_str2num (es_str_of s)) | _ \<Rightarrow> None)"

definition getConstNumber :: "cnfexpr \<Rightarrow> cnfexpr \<Rightarrow> (int \<times> int) option option" where
  "getConstNumber l r =
     (if is_const l \<and> is_const r then do { a \<leftarrow> constVal l; b \<leftarrow> constVal r; Some (Some (a, b)) }
      else Some None)"

definition foldArith :: "arithop \<Rightarrow> cnfexpr \<Rightarrow> cnfexpr \<Rightarrow> cnfexpr option" where
  "foldArith aop l r = do {
     c \<leftarrow> getConstNumber l r;
     case c of
       None \<Rightarrow> Some (E_arith aop l r)
     | Some (ln, rn) \<Rightarrow> map_option E_num
         (if aop = OP_ADD then ll (ln + rn)
          else if aop = OP_SUB then ll (ln - rn)
          else if aop = OP_MUL then ll (ln * rn)
          else if rn = 0 then Some 0
          else if aop = OP_DIV then Option.bind (c_div ln rn) ll
          else c_mod ln rn)
   }"

definition constText :: "cnfexpr \<Rightarrow> byte list option" where
  "constText e = (case e of E_num n \<Rightarrow> Some (numtxt n) | E_str s \<Rightarrow> Some s | _ \<Rightarrow> None)"

definition constFoldConcat :: "cnfexpr \<Rightarrow> cnfexpr \<Rightarrow> cnfexpr" where
  "constFoldConcat l r =
     (case (constText l, constText r) of
        (Some a, Some b) \<Rightarrow> E_str (a @ b)
      | _ \<Rightarrow> E_cat l r)"

section \<open>Comparisons of facility and severity\<close>

definition cnffuncNew_prifilt :: "int \<Rightarrow> pmask option" where
  "cnffuncNew_prifilt fac0 =
     (let fac = fac0 div 8
      in if fac \<ge> int N_PMASK \<or> fac < 0 then None
         else Some ((replicate N_PMASK 0)[nat fac := ALL_BITS]))"

definition prifiltNode :: "pmask \<Rightarrow> cnfexpr" where
  "prifiltNode pm = E_fun (F_prifilt pm) []"

definition cnfexprOptimize_CMP_severity_facility :: "compop \<Rightarrow> cnfexpr \<Rightarrow> cnfexpr \<Rightarrow> (cnfexpr \<times> bool) option" where
  "cnfexprOptimize_CMP_severity_facility cop l r =
     (case (l, r) of
        (E_var name, E_num v) \<Rightarrow>
          if name = lit ''syslogseverity''
          then let sev = to_int v
               in if sev \<ge> 0 \<and> sev \<le> 7
                  then do {
                    pm \<leftarrow> cnffuncNew_prifilt 0;
                    pm1 \<leftarrow> prifiltSetSeverity pm sev cop;
                    Some (prifiltNode pm1, True) }
                  else Some (E_cmp cop l r, False)
          else if name = lit ''syslogfacility''
          then let fac = to_int v
               in if fac \<ge> 0 \<and> fac \<le> 24
                  then do {
                    pm \<leftarrow> cnffuncNew_prifilt 0;
                    pm1 \<leftarrow> prifiltSetFacility pm fac cop;
                    Some (prifiltNode pm1, True) }
                  else Some (E_cmp cop l r, False)
          else Some (E_cmp cop l r, False)
      | _ \<Rightarrow> Some (E_cmp cop l r, False))"

text \<open>The function node can be a null pointer, which the caller dereferences.\<close>

definition cnfexprOptimize_CMP_var :: "compop \<Rightarrow> byte list \<Rightarrow> cnfexpr \<Rightarrow> (cnfexpr \<times> bool) option" where
  "cnfexprOptimize_CMP_var cop name r =
     (if name = lit ''syslogfacility-text''
      then (case r of
              E_str s \<Rightarrow> do {
                fac \<leftarrow> decodeSyslogName (cstr_of s) syslogFacNames;
                if fac = -1 then Some (E_cmp cop (E_var name) r, False)
                else do {
                  pm \<leftarrow> cnffuncNew_prifilt fac;
                  Some (prifiltNode (if cop = CMP_NE then prifiltInvert pm else pm), True) } }
            | _ \<Rightarrow> Some (E_cmp cop (E_var name) r, False))
      else if name = lit ''syslogseverity-text''
      then (case r of
              E_str s \<Rightarrow> do {
                sev \<leftarrow> decodeSyslogName (cstr_of s) syslogPriNames;
                if sev = -1 then Some (E_cmp cop (E_var name) r, False)
                else do {
                  pm \<leftarrow> cnffuncNew_prifilt 0;
                  pm1 \<leftarrow> prifiltSetSeverity pm sev cop;
                  Some (prifiltNode pm1, True) } }
            | _ \<Rightarrow> Some (E_cmp cop (E_var name) r, False))
      else cnfexprOptimize_CMP_severity_facility cop (E_var name) r)"

section \<open>The optimizer\<close>

definition swapArr :: "cnfexpr \<Rightarrow> cnfexpr \<Rightarrow> cnfexpr \<times> cnfexpr" where
  "swapArr l r = (if arr_of l \<noteq> None \<and> arr_of r = None then (r, l) else (l, r))"

text \<open>\<open>qsort\<close> with \<open>es_strcmp\<close>.\<close>

definition cnfexprOptimize_CMPEQ_arr :: "cnfexpr \<Rightarrow> cnfexpr" where
  "cnfexprOptimize_CMPEQ_arr r = (case r of E_arr xs \<Rightarrow> E_arr (sort xs) | _ \<Rightarrow> r)"

definition optCmpEq :: "compop \<Rightarrow> cnfexpr \<Rightarrow> cnfexpr \<Rightarrow> (cnfexpr \<times> bool) option" where
  "optCmpEq cop l0 r0 =
     (let (l, r1) = swapArr l0 r0; r = cnfexprOptimize_CMPEQ_arr r1
      in case l of E_var name \<Rightarrow> cnfexprOptimize_CMP_var cop name r | _ \<Rightarrow> Some (E_cmp cop l r, False))"

definition prifilt_of :: "cnfexpr \<Rightarrow> (pmask \<times> cnfexpr list) option" where
  "prifilt_of e = (case e of E_fun (F_prifilt pm) args \<Rightarrow> Some (pm, args) | _ \<Rightarrow> None)"

definition cnfexprOptimize_AND_OR :: "bool \<Rightarrow> cnfexpr \<Rightarrow> cnfexpr \<Rightarrow> cnfexpr \<times> bool" where
  "cnfexprOptimize_AND_OR isAnd l r =
     (case (prifilt_of l, prifilt_of r) of
        (Some (pl, args), Some (pr, _)) \<Rightarrow> (E_fun (F_prifilt (prifiltCombine pl pr isAnd)) args, True)
      | _ \<Rightarrow> (if isAnd then E_and l r else E_or l r, False))"

definition cnfexprOptimize_NOT :: "cnfexpr \<Rightarrow> cnfexpr \<times> bool" where
  "cnfexprOptimize_NOT r =
     (case prifilt_of r of
        Some (pm, args) \<Rightarrow> (E_fun (F_prifilt (prifiltInvert pm)) args, True)
      | None \<Rightarrow> (E_not r, False))"

fun cnfexprOptimize :: "cnfexpr \<Rightarrow> (cnfexpr \<times> bool) option" where
  "cnfexprOptimize (E_cat l r) = do {
     (l1, ml) \<leftarrow> cnfexprOptimize l;
     (r1, mr) \<leftarrow> cnfexprOptimize r;
     _ \<leftarrow> c_guard (\<not> ml \<and> \<not> mr);
     Some (constFoldConcat l1 r1, False) }"
| "cnfexprOptimize (E_arith aop l r) = do {
     (l1, ml) \<leftarrow> cnfexprOptimize l;
     (r1, mr) \<leftarrow> cnfexprOptimize r;
     _ \<leftarrow> c_guard (\<not> ml \<and> \<not> mr);
     e \<leftarrow> foldArith aop l1 r1;
     Some (e, False) }"
| "cnfexprOptimize (E_cmp cop l r) = do {
     (l1, _) \<leftarrow> cnfexprOptimize l;
     (r1, _) \<leftarrow> cnfexprOptimize r;
     if cop = CMP_EQ \<or> cop = CMP_NE then optCmpEq cop l1 r1
     else if cop = CMP_LE \<or> cop = CMP_GE \<or> cop = CMP_LT \<or> cop = CMP_GT
     then cnfexprOptimize_CMP_severity_facility cop l1 r1
     else Some (E_cmp cop l1 r1, False) }"
| "cnfexprOptimize (E_and l r) = do {
     (l1, _) \<leftarrow> cnfexprOptimize l;
     (r1, _) \<leftarrow> cnfexprOptimize r;
     Some (cnfexprOptimize_AND_OR True l1 r1) }"
| "cnfexprOptimize (E_or l r) = do {
     (l1, _) \<leftarrow> cnfexprOptimize l;
     (r1, _) \<leftarrow> cnfexprOptimize r;
     Some (cnfexprOptimize_AND_OR False l1 r1) }"
| "cnfexprOptimize (E_not r) = do {
     (r1, _) \<leftarrow> cnfexprOptimize r;
     Some (cnfexprOptimize_NOT r1) }"
| "cnfexprOptimize e = Some (e, False)"

section \<open>Where the optimizer keeps the meaning\<close>

text \<open>
  The conditions under which the program means the same before and after: the flag tells
  whether the value of the expression is used, or only its truth. Constants that are folded
  must be the same number for \<open>es_str2num\<close> and for the evaluation; an array is on the right of
  \<open>==\<close> and \<open>!=\<close>, with a text on the left; numbers and names that facility and severity are compared
  with must be those of one facility or severity.
\<close>

definition plain_const :: "cnfexpr \<Rightarrow> bool" where
  "plain_const e \<longleftrightarrow>
     (case e of E_str s \<Rightarrow> map_option fst (es_str2num (es_str_of s)) = map_option fst (str2num s) | _ \<Rightarrow> True)"

fun is_text :: "cnfexpr \<Rightarrow> bool" where
  "is_text (E_str s) \<longleftrightarrow> True"
| "is_text (E_cat l r) \<longleftrightarrow> True"
| "is_text (E_var n) \<longleftrightarrow> propNameToID n \<noteq> PROP_JSON"
| "is_text _ \<longleftrightarrow> False"

definition is_jvar :: "cnfexpr \<Rightarrow> bool" where
  "is_jvar e \<longleftrightarrow> (case e of E_var n \<Rightarrow> True | _ \<Rightarrow> False)"

definition fac_text_ok :: "byte list \<Rightarrow> bool" where
  "fac_text_ok s \<longleftrightarrow>
     (case decodeSyslogName (cstr_of s) syslogFacNames of
        None \<Rightarrow> True
      | Some fac \<Rightarrow> fac = -1 \<or> list_all (\<lambda>f. (syslog_fac_names ! f = s) = (fac div 8 = int f)) [0..<25])"

definition sev_text_ok :: "byte list \<Rightarrow> bool" where
  "sev_text_ok s \<longleftrightarrow>
     (case decodeSyslogName (cstr_of s) syslogPriNames of
        None \<Rightarrow> True
      | Some sev \<Rightarrow> sev = -1 \<or> list_all (\<lambda>k. (syslog_severity_names ! k = s) = (sev = int k)) [0..<8])"

definition pri_cmp_ok :: "bool \<Rightarrow> compop \<Rightarrow> byte list \<Rightarrow> cnfexpr \<Rightarrow> bool" where
  "pri_cmp_ok v cop name r \<longleftrightarrow>
     (case r of
        E_num k \<Rightarrow>
          (name = lit ''syslogseverity'' \<longrightarrow> to_int k = k) \<and>
          (name = lit ''syslogfacility'' \<longrightarrow> to_int k = k \<and> k \<noteq> 24 \<and> \<not> (v \<and> cop = CMP_NE))
      | E_str s \<Rightarrow>
          (cop = CMP_EQ \<or> cop = CMP_NE \<longrightarrow>
            (name = lit ''syslogfacility-text'' \<longrightarrow> fac_text_ok s \<and> \<not> (v \<and> cop = CMP_NE)) \<and>
            (name = lit ''syslogseverity-text'' \<longrightarrow> sev_text_ok s \<and> \<not> (v \<and> cop = CMP_NE)))
      | _ \<Rightarrow> True)"

definition cmp_ok :: "bool \<Rightarrow> compop \<Rightarrow> cnfexpr \<Rightarrow> cnfexpr \<Rightarrow> bool" where
  "cmp_ok v cop l r \<longleftrightarrow>
     ((cop = CMP_EQ \<or> cop = CMP_NE) \<longrightarrow> arr_of l = None \<and>
        (arr_of r \<noteq> None \<longrightarrow> is_text l \<or> cop = CMP_EQ \<and> is_jvar l)) \<and>
     (case l of E_var name \<Rightarrow> pri_cmp_ok v cop name r | _ \<Rightarrow> True)"

definition opt_of :: "cnfexpr \<Rightarrow> cnfexpr" where
  "opt_of e = (case cnfexprOptimize e of None \<Rightarrow> e | Some (e1, _) \<Rightarrow> e1)"

fun opt_ok :: "bool \<Rightarrow> cnfexpr \<Rightarrow> bool" where
  "opt_ok v (E_cmp cop l r) \<longleftrightarrow> opt_ok True l \<and> opt_ok True r \<and> cmp_ok v cop (opt_of l) (opt_of r)"
| "opt_ok v (E_or l r) \<longleftrightarrow> opt_ok False l \<and> opt_ok False r"
| "opt_ok v (E_and l r) \<longleftrightarrow> opt_ok False l \<and> opt_ok False r"
| "opt_ok v (E_not r) \<longleftrightarrow> opt_ok False r"
| "opt_ok v (E_cat l r) \<longleftrightarrow> opt_ok True l \<and> opt_ok True r"
| "opt_ok v (E_arith aop l r) \<longleftrightarrow> opt_ok True l \<and> opt_ok True r \<and> plain_const (opt_of l) \<and> plain_const (opt_of r)"
| "opt_ok v (E_fun (F_prifilt pm) args) \<longleftrightarrow> length pm = N_PMASK"
| "opt_ok v _ \<longleftrightarrow> True"

end
