(* ===== verification/ScriptFunOk.thy ===== *)
theory ScriptFunOk
  imports ScriptFun
begin

text \<open>
  What the functions of RainerScript compute: fields, replacement, addresses; and the arguments
  with which replacement and substring leave their buffers.
\<close>

section \<open>Fields\<close>

fun fields :: "byte \<Rightarrow> byte list \<Rightarrow> byte list list" where
  "fields d [] = [[]]"
| "fields d (c # cs) =
     (if c = d then [] # fields d cs else (c # hd (fields d cs)) # tl (fields d cs))"

lemma fields_ne [simp]: "fields d s \<noteq> []"
  by (cases s) auto

lemma fieldEnd_text: "d \<noteq> 0 \<Longrightarrow> 0 \<notin> set s \<Longrightarrow> fieldEnd d (s @ [0]) = Some (dropWhile (\<lambda>c. c \<noteq> d) s @ [0])"
  by (induction s) auto

lemma fields_split:
  "fields d s = takeWhile (\<lambda>c. c \<noteq> d) s #
     (case dropWhile (\<lambda>c. c \<noteq> d) s of [] \<Rightarrow> [] | _ # r \<Rightarrow> fields d r)"
  by (induction s) auto

lemma fieldSkip_ok:
  assumes d: "d \<noteq> 0"
  shows "0 \<notin> set s \<Longrightarrow> i \<le> n \<Longrightarrow> \<exists>q k. fieldSkip d n (s @ [0]) i = Some (q @ [0], k) \<and> 0 \<notin> set q \<and>
    (if nat (n - i) < length (fields d s) then k = n \<and> fields d q = drop (nat (n - i)) (fields d s) else k < n)"
proof (induction "length s" arbitrary: s i rule: less_induct)
  case less
  consider "i = n" | "i < n" "s = []" | c cs where "i < n" "s = c # cs" using less(3) by (cases s) fastforce+
  then show ?case
  proof cases
    case 1
    then have "fieldSkip d n (s @ [0]) i = Some (s @ [0], i)"
      by (subst fieldSkip.simps) (auto split: list.split)
    then show ?thesis using 1 less(2) by auto
  next
    case 2
    then show ?thesis by (subst fieldSkip.simps) auto
  next
    case 3
    let ?t = "dropWhile (\<lambda>c. c \<noteq> d) s"
    have e: "fieldEnd d (s @ [0]) = Some (?t @ [0])" by (rule fieldEnd_text [OF d less(2)])
    have n: "nat (n - i) = Suc (nat (n - (i + 1)))" using 3(1) by linarith
    show ?thesis
    proof (cases ?t)
      case Nil
      then have "fieldSkip d n (s @ [0]) i = Some ([] @ [0], i)"
        using 3 e less(2) d by (subst fieldSkip.simps) (auto simp del: fieldEnd.simps)
      moreover have "length (fields d s) = 1" unfolding fields_split [of d s] Nil by simp
      ultimately show ?thesis using 3(1) n by auto
    next
      case (Cons y r)
      have y: "y = d" using hd_dropWhile [of "\<lambda>c. c \<noteq> d" s] Cons by auto
      have f: "fields d s = takeWhile (\<lambda>c. c \<noteq> d) s # fields d r" by (subst fields_split) (simp add: Cons)
      have "length ?t \<le> length s" by (rule length_dropWhile_le)
      then have l: "length r < length s" using Cons by simp
      have z: "0 \<notin> set r" using less(2) set_dropWhileD [of 0 "\<lambda>c. c \<noteq> d" s] Cons by auto
      have "fieldSkip d n (s @ [0]) i = fieldSkip d n (r @ [0]) (i + 1)"
        using 3 e Cons y less(2) by (subst fieldSkip.simps) (auto simp del: fieldEnd.simps)
      obtain q k where q: "fieldSkip d n (r @ [0]) (i + 1) = Some (q @ [0], k)" "0 \<notin> set q"
        "if nat (n - (i + 1)) < length (fields d r) then k = n \<and> fields d q = drop (nat (n - (i + 1))) (fields d r) else k < n"
        using less(1) [OF l z, of "i + 1"] 3(1) by auto
      then show ?thesis using \<open>fieldSkip d n (s @ [0]) i = _\<close> n
        by (intro exI [of _ q] exI [of _ k]) (simp add: f)
    qed
  qed
qed

text \<open>
  The function \<open>field\<close> with a character gives the field with the number asked for, counted
  from one, of the text split at that character, or reports that there is none.
\<close>

theorem field_extracted:
  assumes "0 \<notin> set s" and "d \<noteq> 0"
  shows "doExtractFieldByChar s d n =
    Some (if 1 \<le> n \<and> nat n \<le> length (fields d s) then Some (fields d s ! (nat n - 1)) else None)"
proof (cases "1 \<le> n")
  case False
  then have "fieldSkip d n (s @ [0]) 1 = Some (s @ [0], 1)"
    by (subst fieldSkip.simps) (auto split: list.split)
  then show ?thesis using False by (simp add: doExtractFieldByChar_def)
next
  case True
  then obtain q k where q: "fieldSkip d n (s @ [0]) 1 = Some (q @ [0], k)" "0 \<notin> set q"
    "if nat (n - 1) < length (fields d s) then k = n \<and> fields d q = drop (nat (n - 1)) (fields d s) else k < n"
    using fieldSkip_ok [OF assms(2,1), of 1 n] by auto
  have e: "fieldEnd d (q @ [0]) = Some (dropWhile (\<lambda>c. c \<noteq> d) q @ [0])" by (rule fieldEnd_text [OF assms(2) q(2)])
  have "length (takeWhile (\<lambda>c. c \<noteq> d) q) + length (dropWhile (\<lambda>c. c \<noteq> d) q) = length q"
    by (metis length_append takeWhile_dropWhile_id)
  then have "length (q @ [0]) - length (dropWhile (\<lambda>c. c \<noteq> d) q @ [0]) = length (takeWhile (\<lambda>c. c \<noteq> d) q)" by simp
  moreover have "take (length (takeWhile (\<lambda>c. c \<noteq> d) q)) (q @ [0]) = takeWhile (\<lambda>c. c \<noteq> d) q"
    by (metis append.assoc append_eq_conv_conj takeWhile_dropWhile_id)
  ultimately have t: "take (length (q @ [0]) - length (dropWhile (\<lambda>c. c \<noteq> d) q @ [0])) (q @ [0]) = takeWhile (\<lambda>c. c \<noteq> d) q"
    by simp
  have n: "nat (n - 1) = nat n - 1" "0 < nat n" using True by simp_all
  show ?thesis
  proof (cases "nat (n - 1) < length (fields d s)")
    case T: True
    then have "fields d q = drop (nat n - 1) (fields d s)" "k = n" using q(3) n by simp_all
    then have "takeWhile (\<lambda>c. c \<noteq> d) q = fields d s ! (nat n - 1)"
      using fields_split [of d q] T n by (metis hd_drop_conv_nth list.sel(1))
    then show ?thesis using True T n q(1) e t \<open>k = n\<close> by (auto simp: doExtractFieldByChar_def simp del: length_append)
  next
    case False
    then show ?thesis using True q n by (auto simp: doExtractFieldByChar_def)
  qed
qed

section \<open>Blanks at the end\<close>

lemma rtrimLoop_le: "rtrimLoop s i \<le> i"
  by (induction i) (auto simp: le_SucI)

lemma rtrimLoop_ok:
  "i < length s \<Longrightarrow>
   (let k = rtrimLoop s i in if k > 0 \<or> s ! 0 \<noteq> 32 then take (k + 1) s else []) =
   rev (dropWhile (\<lambda>c. c = 32) (rev (take (Suc i) s)))"
proof (induction i)
  case 0
  then show ?case by (cases s) auto
next
  case (Suc i)
  have "take (Suc (Suc i)) s = take (Suc i) s @ [s ! Suc i]" using Suc.prems by (simp add: take_Suc_conv_app_nth)
  then show ?case using Suc by (auto simp: Let_def)
qed

lemma rtrim_ok: "doFunct_RTrim v = SStr (rev (dropWhile (\<lambda>c. c = 32) (rev (var2CString v))))"
  using rtrimLoop_ok [of "length (var2CString v) - 1" "var2CString v"]
  by (auto simp: doFunct_RTrim_def Let_def)

section \<open>Addresses\<close>

lemma ip_digits:
  "\<forall>c \<in> set ds. isdigit c \<Longrightarrow> ds \<noteq> [] \<Longrightarrow> \<not> ip_endblank s \<Longrightarrow> ip_cyc s < length (ip_num s) \<Longrightarrow>
   ipLoop b (ds @ zs) s = ipLoop False zs (s\<lparr>ip_prevdot := False, ip_startblank := False,
     ip_num := (ip_num s)[ip_cyc s := foldl (\<lambda>a c. a * 10 + (ucast c - 48)) (ip_num s ! ip_cyc s) ds]\<rparr>)"
proof (induction ds arbitrary: b s)
  case (Cons c ds)
  let ?s1 = "s\<lparr>ip_prevdot := False, ip_startblank := False,
     ip_num := (ip_num s)[ip_cyc s := ip_num s ! ip_cyc s * 10 + (ucast c - 48)]\<rparr>"
  have st: "ipStep b c s = Some ?s1" using Cons.prems by (simp add: ipStep_def)
  show ?case
  proof (cases "ds = []")
    case True
    then show ?thesis by (simp add: st)
  next
    case False
    then show ?thesis using Cons.IH [of ?s1 False] Cons.prems st by simp
  qed
qed simp

lemma foldl_dval:
  "\<forall>c \<in> set ds. isdigit c \<Longrightarrow> foldl (\<lambda>a c. a * 10 + (ucast c - 48)) (of_int x) ds = (of_int (dval x ds) :: 32 word)"
proof (induction ds arbitrary: x)
  case (Cons c ds)
  have "(of_int x * 10 + (ucast c - 48) :: 32 word) = of_int (x * 10 + (uint c - 48))"
    by simp
  then show ?case using Cons.IH [of "x * 10 + (uint c - 48)"] Cons.prems by (simp add: dval_Cons)
qed (simp add: dval_def)

lemma numtxt_decimal: "0 \<le> n \<Longrightarrow> (\<forall>c \<in> set (numtxt n). isdigit c) \<and> numtxt n \<noteq> [] \<and> dval 0 (numtxt n) = n"
proof -
  assume n: "0 \<le> n"
  have "digs (nat n) \<noteq> []" if "n \<noteq> 0" using hd_digs [of "nat n"] that n by auto
  moreover have "dval 0 [48] = 0" by (simp add: dval_def)
  ultimately show ?thesis using n digs_digit [of _ "nat n"]
    by (auto simp: numtxt_def dval_digs isdigit_def)
qed

lemma ip_octet:
  assumes "0 \<le> v" "\<not> ip_endblank s" "ip_cyc s < length (ip_num s)" "ip_num s ! ip_cyc s = 0"
  shows "ipLoop b (numtxt v @ zs) s =
    ipLoop False zs (s\<lparr>ip_prevdot := False, ip_startblank := False, ip_num := (ip_num s)[ip_cyc s := of_int v]\<rparr>)"
  using ip_digits [of "numtxt v" s b zs] foldl_dval [of "numtxt v" 0] numtxt_decimal [OF assms(1)] assms by simp

lemma cstr_numtxt: "0 \<le> n \<Longrightarrow> cstr_of (numtxt n) = numtxt n"
  using numtxt_decimal [of n] by (force simp: cstr_of_def filter_id_conv isdigit_def)

lemma octets_sum:
  assumes "0 \<le> n" "n \<le> 4294967295"
  shows "ip_value [of_int (n div 16777216 mod 256), of_int (n div 65536 mod 256), of_int (n div 256 mod 256), of_int (n mod 256)] = n"
proof -
  have "(of_int (n div 16777216 mod 256) * 256 * 256 * 256 + of_int (n div 65536 mod 256) * 256 * 256 +
      of_int (n div 256 mod 256) * 256 + of_int (n mod 256) :: 32 word) =
    of_int (n div 16777216 mod 256 * 256 * 256 * 256 + n div 65536 mod 256 * 256 * 256 + n div 256 mod 256 * 256 + n mod 256)"
    by simp
  also have "n div 16777216 mod 256 * 256 * 256 * 256 + n div 65536 mod 256 * 256 * 256 + n div 256 mod 256 * 256 + n mod 256 = n"
  proof -
    have e: "n div 65536 = n div 256 div 256" "n div 16777216 = n div 256 div 256 div 256"
      by (simp_all add: zdiv_zmult2_eq [symmetric])
    have "n div 256 div 256 div 256 < 256" using assms by (simp add: zdiv_zmult2_eq [symmetric])
    then have m: "n div 256 div 256 div 256 mod 256 = n div 256 div 256 div 256"
      using assms by (intro mod_pos_pos_trivial) (simp_all add: pos_imp_zdiv_nonneg_iff)
    show ?thesis unfolding e m
      using div_mult_mod_eq [of "n div 256 div 256" 256] div_mult_mod_eq [of "n div 256" 256] div_mult_mod_eq [of n 256]
      by linarith
  qed
  finally show ?thesis using assms by (simp add: ip_value_def take_bit_int_eq_self unsigned_of_int)
qed

lemma ip_dot:
  "\<not> ip_endblank s \<Longrightarrow> \<not> ip_prevdot s \<Longrightarrow> ip_cyc s < 3 \<Longrightarrow>
   ipLoop b (46 # zs) s = ipLoop False zs (s\<lparr>ip_startblank := False, ip_prevdot := True, ip_cyc := ip_cyc s + 1\<rparr>)"
  by (simp add: ipStep_def isdigit_def)

lemma ip_four:
  assumes "0 \<le> a" "0 \<le> b" "0 \<le> c" "0 \<le> d"
  shows "ipLoop True (numtxt a @ 46 # numtxt b @ 46 # numtxt c @ 46 # numtxt d) ip_init =
    Some \<lparr>ip_num = [of_int a, of_int b, of_int c, of_int d], ip_cyc = 3, ip_prevdot = False, ip_startblank = False, ip_endblank = False\<rparr>"
proof -
  let ?s = "\<lambda>xs k p. \<lparr>ip_num = xs, ip_cyc = k, ip_prevdot = p, ip_startblank = False, ip_endblank = False\<rparr>"
  let ?A = "of_int a :: 32 word" and ?B = "of_int b :: 32 word" and ?C = "of_int c :: 32 word" and ?D = "of_int d :: 32 word"
  have 1: "ipLoop True (numtxt a @ zs) ip_init = ipLoop False zs (?s [?A, 0, 0, 0] 0 False)" for zs
    using ip_octet [OF assms(1), of ip_init True zs] by (simp add: ip_init_def)
  have 2: "ipLoop False (46 # zs) (?s xs k False) = ipLoop False zs (?s xs (Suc k) True)" if "k < 3" for zs xs k
    using ip_dot [of "?s xs k False" False zs] that by simp
  have 3: "ipLoop False (numtxt b @ zs) (?s [?A, 0, 0, 0] (Suc 0) True) = ipLoop False zs (?s [?A, ?B, 0, 0] (Suc 0) False)" for zs
    using ip_octet [OF assms(2), of "?s [?A, 0, 0, 0] (Suc 0) True" False zs] by simp
  have 4: "ipLoop False (numtxt c @ zs) (?s [?A, ?B, 0, 0] (Suc (Suc 0)) True) = ipLoop False zs (?s [?A, ?B, ?C, 0] (Suc (Suc 0)) False)" for zs
    using ip_octet [OF assms(3), of "?s [?A, ?B, 0, 0] (Suc (Suc 0)) True" False zs] by simp
  have 5: "ipLoop False (numtxt d) (?s [?A, ?B, ?C, 0] (Suc (Suc (Suc 0))) True) = Some (?s [?A, ?B, ?C, ?D] (Suc (Suc (Suc 0))) False)"
    using ip_octet [OF assms(4), of "?s [?A, ?B, ?C, 0] (Suc (Suc (Suc 0))) True" False "[]"] by simp
  have l: "0 < (3 :: nat)" "Suc 0 < 3" "Suc (Suc 0) < 3" by simp_all
  show ?thesis unfolding 1 2 [OF l(1)] 3 2 [OF l(2)] 4 2 [OF l(3)] 5
    by (simp add: numeral_3_eq_3)
qed

text \<open>
  Every number of 32 bits that \<open>num2ipv4\<close> writes as an address is read back by \<open>ip42num\<close>.
\<close>

theorem ipv4_round_trip:
  assumes "0 \<le> n" and "n \<le> 4294967295"
  shows "\<exists>t. doFunct_num2ipv4 (SNum n) = Some t \<and> doFunct_Ipv42num t = SNum n"
proof -
  define a b c d where o: "a = n div 16777216 mod 256" "b = n div 65536 mod 256" "c = n div 256 mod 256" "d = n mod 256"
  let ?t = "numtxt a @ 46 # numtxt b @ 46 # numtxt c @ 46 # numtxt d"
  have p: "0 \<le> a" "0 \<le> b" "0 \<le> c" "0 \<le> d" by (simp_all add: o)
  have v: "ip_value [of_int a, of_int b, of_int c, of_int d] = n" unfolding o by (rule octets_sum [OF assms])
  have "cstr_of ?t = ?t" using p cstr_numtxt by (simp add: cstr_of_def)
  then have "doFunct_Ipv42num (SStr ?t) = SNum n"
    using ip_four [OF p] v by (simp add: doFunct_Ipv42num_def var2CString_def var2String_def)
  moreover have "doFunct_num2ipv4 (SNum n) = Some (SStr ?t)"
    using assms by (simp add: doFunct_num2ipv4_def var2Number_def o)
  ultimately show ?thesis by blast
qed

section \<open>Replacement\<close>

lemma writeAll_ok:
  "length bs \<le> length r \<Longrightarrow> writeAll (map Some xs @ r) (length xs) bs = Some (map Some (xs @ bs) @ drop (length bs) r)"
proof (induction bs arbitrary: xs r)
  case (Cons b bs)
  then obtain c r' where r: "r = c # r'" by (cases r) auto
  have "c_set (map Some xs @ r) (length xs) (Some b) = Some (map Some (xs @ [b]) @ r')"
    by (simp add: r list_update_append)
  then show ?case using Cons.IH [of r' "xs @ [b]"] Cons.prems r by simp
qed simp

lemma writeAll_out: "bs \<noteq> [] \<Longrightarrow> length d < s + length bs \<Longrightarrow> writeAll d s bs = None"
proof (induction bs arbitrary: d s)
  case (Cons b bs)
  then show ?case using Cons.IH [of "d[s := Some b]" "s + 1"]
    by (cases "s < length d"; cases "bs = []") auto
qed simp

text \<open>Replacing one byte.\<close>

definition subst1 :: "byte \<Rightarrow> byte list \<Rightarrow> byte list \<Rightarrow> byte list" where
  "subst1 f r s = concat (map (\<lambda>c. if c = f then r else [c]) s)"

lemma subst1_Cons: "subst1 f r (c # s) = (if c = f then r else [c]) @ subst1 f r s"
  by (simp add: subst1_def)

lemma len1_eat: "i \<le> length src \<Longrightarrow> replaceLen src [f] n i (Suc 0) l = replaceLen src [f] n i 0 (l - 1 + int n)"
  by (subst (1 2) replaceLen.simps) simp

lemma len1_ok:
  "i \<le> length src \<Longrightarrow> replaceLen src [f] (length r) i 0 l = Some (l + int (length (subst1 f r (drop i src))))"
proof (induction "length src - i" arbitrary: i l)
  case 0
  then show ?case by (subst replaceLen.simps) (simp add: subst1_def)
next
  case (Suc k)
  then have i: "i < length src" by simp
  have d: "drop i src = src ! i # drop (Suc i) src" using i by (rule take_Suc_drop_nth)
  show ?case
  proof (cases "src ! i = f")
    case True
    then have "replaceLen src [f] (length r) i 0 l = replaceLen src [f] (length r) (Suc i) 0 (l + int (length r))"
      using i len1_eat [of "Suc i" src f "length r" "l + 1"] by (subst replaceLen.simps) simp
    then show ?thesis using Suc.hyps(1) [of "Suc i" "l + int (length r)"] Suc.hyps(2) i True
      by (simp add: d subst1_Cons)
  next
    case False
    then have "replaceLen src [f] (length r) i 0 l = replaceLen src [f] (length r) (Suc i) 0 (l + 1)"
      using i by (subst replaceLen.simps) simp
    then show ?thesis using Suc.hyps(1) [of "Suc i" "l + 1"] Suc.hyps(2) i False
      by (simp add: d subst1_Cons)
  qed
qed

lemma write1_eat:
  "i \<le> length src \<Longrightarrow> replaceWrite src [f] r i (Suc 0) (Suc s) d =
   (case writeAll d s r of None \<Rightarrow> None | Some d' \<Rightarrow> replaceWrite src [f] r i 0 (s + length r) d')"
  by (subst (1 2) replaceWrite.simps) (simp split: option.split)

lemma write1_ok:
  "i \<le> length src \<Longrightarrow> length (subst1 f r (drop i src)) \<le> length zs \<Longrightarrow>
   replaceWrite src [f] r i 0 (length xs) (map Some xs @ zs) =
     Some (map Some (xs @ subst1 f r (drop i src)) @ drop (length (subst1 f r (drop i src))) zs)"
proof (induction "length src - i" arbitrary: i xs zs)
  case 0
  then show ?case by (subst replaceWrite.simps) (simp add: subst1_def)
next
  case (Suc k)
  then have i: "i < length src" by simp
  have d: "drop i src = src ! i # drop (Suc i) src" using i by (rule take_Suc_drop_nth)
  show ?case
  proof (cases "src ! i = f")
    case True
    have "replaceWrite src [f] r i 0 (length xs) (map Some xs @ zs) =
        replaceWrite src [f] r (Suc i) 0 (length (xs @ r)) (map Some (xs @ r) @ drop (length r) zs)"
      using i write1_eat [of "Suc i" src f r "length xs"] Suc.prems(2) True writeAll_ok [of r zs xs]
      by (subst replaceWrite.simps) (simp add: d subst1_Cons)
    then show ?thesis using Suc.hyps(1) [of "Suc i" "drop (length r) zs" "xs @ r"] Suc.hyps(2) Suc.prems(2) i True
      by (simp add: d subst1_Cons add.commute)
  next
    case False
    then obtain z zs' where z: "zs = z # zs'" using Suc.prems(2) by (cases zs) (auto simp: d subst1_Cons)
    have "c_set (map Some xs @ zs) (length xs) (Some (src ! i)) = Some (map Some (xs @ [src ! i]) @ zs')"
      by (simp add: z list_update_append)
    then have "replaceWrite src [f] r i 0 (length xs) (map Some xs @ zs) =
        replaceWrite src [f] r (Suc i) 0 (length (xs @ [src ! i])) (map Some (xs @ [src ! i]) @ zs')"
      using i False by (subst replaceWrite.simps) simp
    then show ?thesis using Suc.hyps(1) [of "Suc i" zs' "xs @ [src ! i]"] Suc.hyps(2) Suc.prems(2) i False z
      by (simp add: d subst1_Cons)
  qed
qed

lemma newStr_len:
  assumes "n \<le> 2 ^ 32 - 8"
  shows "\<exists>r. es_newStr True (of_nat n) = Some r \<and> (\<exists>k \<le> 7. es_buf r = replicate (n + k) None)"
proof -
  let ?len = "of_nat n :: 32 word" let ?l = "if and ?len 7 \<noteq> 0 then ?len - and ?len 7 + 8 else ?len"
  have n: "unat ?len = n" using assms by (simp add: unat_of_nat take_bit_nat_eq_self)
  obtain l where l: "es_newStr True ?len = Some \<lparr>lenStr = 0, lenBuf = l, es_buf = replicate (unat l) None\<rparr>" "?len \<le> l"
    using newStr_ok [of ?len] n assms by auto
  then have e: "l = ?l" by (auto simp: es_newStr_def Let_def split: if_splits)
  have le: "and ?len 7 \<le> ?len" using and_7 [of ?len] by (simp add: word_le_nat_alt)
  have s: "unat (?len - and ?len 7) = n - n mod 8" using unat_sub [OF le] and_7 [of ?len] n by simp
  have "unat ?l \<le> n + 7"
  proof (cases "and ?len 7 = 0")
    case False
    then have m: "0 < n mod 8" using and_7 [of ?len] n by (metis gr0I unat_0_iff)
    have "unat (?len - and ?len 7 + 8) \<le> unat (?len - and ?len 7) + 8"
      by (simp add: unat_plus_if') presburger
    then show ?thesis using False s m by (simp; linarith)
  qed (simp add: n)
  moreover have "n \<le> unat ?l" using l(2) e n by (simp add: word_le_nat_alt)
  ultimately show ?thesis using l(1) e
    by (intro exI [of _ "\<lparr>lenStr = 0, lenBuf = l, es_buf = replicate (unat l) None\<rparr>"] conjI exI [of _ "unat l - n"])
       (auto simp del: replicate_add)
qed

text \<open>
  Replacing a text of one byte puts the replacement in the place of every such byte.
\<close>

theorem one_byte_replaced:
  assumes "length (subst1 f r s) \<le> 2 ^ 32 - 8"
  shows "doFuncReplace s [f] r = Some (subst1 f r s)"
proof -
  let ?n = "length (subst1 f r s)"
  obtain o' k where o': "es_newStr True (of_nat ?n) = Some o'" "es_buf o' = replicate (?n + k) None"
    using newStr_len [OF assms] by blast
  have "unat (of_nat ?n :: 32 word) = ?n" using assms by (simp add: unat_of_nat take_bit_nat_eq_self)
  moreover have "replaceWrite s [f] r 0 0 0 (replicate (?n + k) None) = Some (map Some (subst1 f r s) @ replicate k None)"
    using write1_ok [of 0 s f r "replicate (?n + k) None" "[]"] by simp
  ultimately show ?thesis using o' len1_ok [of 0 s f r 0]
    by (simp add: doFuncReplace_def comp_def)
qed

text \<open>Two bytes searched for.\<close>

lemma len2_skip:
  "a \<notin> set xs \<Longrightarrow> i \<le> length xs \<Longrightarrow>
   replaceLen (xs @ ys) [a, b] n i 0 l = replaceLen (xs @ ys) [a, b] n (length xs) 0 (l + int (length xs - i))"
proof (induction "length xs - i" arbitrary: i l)
  case (Suc k)
  then have i: "i < length xs" by simp
  then have "xs ! i \<noteq> a" using Suc.prems(1) nth_mem by metis
  then have "replaceLen (xs @ ys) [a, b] n i 0 l = replaceLen (xs @ ys) [a, b] n (Suc i) 0 (l + 1)"
    using i by (subst replaceLen.simps) (simp add: nth_append)
  then show ?case using Suc.hyps(1) [of "Suc i" "l + 1"] Suc.hyps(2) Suc.prems i
    by (simp add: of_nat_diff)
qed simp

lemma write2_skip:
  "a \<notin> set xs \<Longrightarrow> i \<le> length xs \<Longrightarrow> length xs \<le> length d \<Longrightarrow>
   \<exists>d'. replaceWrite (xs @ ys) [a, b] r i 0 i d = replaceWrite (xs @ ys) [a, b] r (length xs) 0 (length xs) d' \<and>
     length d' = length d"
proof (induction "length xs - i" arbitrary: i d)
  case (Suc k)
  then have i: "i < length xs" by simp
  then have "xs ! i \<noteq> a" using Suc.prems(1) nth_mem by metis
  then have "replaceWrite (xs @ ys) [a, b] r i 0 i d =
      replaceWrite (xs @ ys) [a, b] r (Suc i) 0 (Suc i) (d[i := Some (xs ! i)])"
    using i Suc.prems(3) by (subst replaceWrite.simps) (simp add: nth_append)
  then show ?case using Suc.hyps(1) [of "Suc i" "d[i := Some (xs ! i)]"] Suc.hyps(2) Suc.prems i by simp
qed auto

text \<open>
  The pass that computes the length misses a match that begins right behind a false start,
  the one that writes finds it: replacing \<open>ab\<close> in any text \<open>..aab\<close> by a text of ten bytes or more
  writes behind the buffer of the result.
\<close>

theorem replace_overflows:
  assumes "a \<noteq> b" and "a \<notin> set xs" and "10 \<le> length r" and "length xs < 2 ^ 31"
  shows "doFuncReplace (xs @ [a, a, b]) [a, b] r = None"
proof -
  let ?src = "xs @ [a, a, b]" and ?n = "length xs"
  have "replaceLen ?src [a, b] (length r) ?n 0 l = Some (l + 3)" for l
    using assms(1) by (simp add: replaceLen.simps nth_append)
  then have len: "replaceLen ?src [a, b] (length r) 0 0 0 = Some (int (?n + 3))"
    using len2_skip [OF assms(2), of 0 "[a, a, b]" b "length r" 0] by simp
  obtain o' k where o': "es_newStr True (of_nat (?n + 3)) = Some o'" "k \<le> 7" "es_buf o' = replicate (?n + 3 + k) None"
    using newStr_len [of "?n + 3"] assms(4) by auto
  have "replaceWrite ?src [a, b] r ?n 0 ?n d = None" if "length d = ?n + 3 + k" for d
  proof -
    have "writeAll (d[?n := Some a]) (Suc ?n) r = None"
      using that o'(2) assms(3) by (intro writeAll_out) auto
    then show ?thesis using assms(1) that by (simp add: replaceWrite.simps nth_append)
  qed
  then have "replaceWrite ?src [a, b] r 0 0 0 (es_buf o') = None"
    using write2_skip [OF assms(2), of 0 "es_buf o'" "[a, a, b]" b r] o'(3) by force
  moreover have "(of_int (int (?n + 3)) :: 32 word) = of_nat (?n + 3)" by simp
  ultimately show ?thesis using len o'(1)
    by (simp add: doFuncReplace_def del: of_nat_add of_int_of_nat_eq)
qed

section \<open>Substrings\<close>

lemma es_str_of_ok:
  assumes "length s < 2 ^ 32"
  shows "es_ok (es_str_of s)" "content (es_str_of s) = s" "unat (lenStr (es_str_of s)) = length s"
  using assms by (auto simp: es_str_of_def es_ok_def content_def unat_of_nat take_bit_nat_eq_self comp_def)

lemma neg_newStr:
  "list_all (\<lambda>b. es_newStr True (of_int b) = Some \<lparr>lenStr = 0, lenBuf = 0, es_buf = []\<rparr>) [-7, -6, -5, -4, -3, -2, -1]"
  by code_simp

text \<open>
  With a start and a length that are not negative, \<open>substring\<close> gives that part of the text.
  A negative start with a longer length gives a null pointer, and a negative length of up to
  seven bytes allocates no buffer for the copy of the whole text: both are undefined.
\<close>

theorem substring_arguments:
  assumes "s \<noteq> []" and "length s < 2 ^ 31"
  shows "(0 \<le> a \<and> 0 \<le> b \<and> a + b < 2 ^ 31 \<longrightarrow>
      doFunct_Substring (SStr s) (SNum a) (SNum b) = Some (SStr (take (nat b) (drop (nat a) s)))) \<and>
    (- (2 ^ 31) \<le> a \<and> a < 0 \<and> 0 \<le> a + b \<and> b < 2 ^ 31 \<longrightarrow> doFunct_Substring (SStr s) (SNum a) (SNum b) = None) \<and>
    (-7 \<le> b \<and> b < 0 \<longrightarrow> doFunct_Substring (SStr s) (SNum 0) (SNum b) = None)"
proof (intro conjI impI)
  have s: "es_ok (es_str_of s)" "content (es_str_of s) = s" "unat (lenStr (es_str_of s)) = length s"
    using es_str_of_ok [of s] assms(2) by simp_all
  then have n: "lenStr (es_str_of s) \<noteq> 0" using assms(1) by auto
  {
    assume ab: "0 \<le> a \<and> 0 \<le> b \<and> a + b < 2 ^ 31"
    have u: "unat (of_int x :: 32 word) = nat x" if "0 \<le> x" "x < 2 ^ 31" for x
      using that by (simp add: unsigned_of_int take_bit_int_eq_self nat_mod_distrib)
    have "nat b \<le> 2 ^ 32 - 8" "nat a + nat b < 2 ^ 32" using ab by (auto simp flip: nat_add_distrib)
    then obtain t where "es_newStrFromSubStr True (es_str_of s) (of_int a) (of_int b) = Some (Some t)"
      "content t = take (nat b) (drop (nat a) s)"
      using substr_content [OF s(1) n, of "of_int b" "of_int a"] u [of a] u [of b] s(2) ab by auto
    then show "doFunct_Substring (SStr s) (SNum a) (SNum b) = Some (SStr (take (nat b) (drop (nat a) s)))"
      by (simp add: doFunct_Substring_def var2Number_def var2String_def)
  }
  {
    assume ab: "- (2 ^ 31) \<le> a \<and> a < 0 \<and> 0 \<le> a + b \<and> b < 2 ^ 31"
    have "uint (of_int a :: 32 word) = a mod 2 ^ 32" by (simp add: unsigned_of_int take_bit_eq_mod)
    moreover have "a mod 2 ^ 32 = a + 2 ^ 32" using mod_pos_pos_trivial [of "a + 2 ^ 32" "2 ^ 32"] ab by simp
    moreover have "uint (of_int a + of_int b :: 32 word) = (a + b) mod 2 ^ 32"
      by (simp add: take_bit_eq_mod unsigned_of_int flip: of_int_add)
    moreover have "(a + b) mod 2 ^ 32 = a + b" using ab by (intro mod_pos_pos_trivial) auto
    ultimately have "(of_int a + of_int b :: 32 word) < of_int a" using ab by (simp add: word_less_def)
    then show "doFunct_Substring (SStr s) (SNum a) (SNum b) = None"
      by (simp add: doFunct_Substring_def var2Number_def var2String_def es_newStrFromSubStr_def)
  }
  {
    assume b: "-7 \<le> b \<and> b < 0"
    then have "b \<in> set [-7, -6, -5, -4, -3, -2, -1]" by auto
    then have m: "es_newStr True (of_int b) = Some \<lparr>lenStr = 0, lenBuf = 0, es_buf = []\<rparr>"
      using neg_newStr unfolding list_all_iff by blast
    have "uint (of_int b :: 32 word) = b mod 2 ^ 32" by (simp add: unsigned_of_int take_bit_eq_mod)
    moreover have "b mod 2 ^ 32 = b + 2 ^ 32" using mod_pos_pos_trivial [of "b + 2 ^ 32" "2 ^ 32"] b by simp
    moreover have "uint (lenStr (es_str_of s) - 1) = int (length s) - 1"
      using s(3) n assms(1) by (cases s) (simp_all add: uint_nat unat_minus_one)
    ultimately have "lenStr (es_str_of s) - 1 < of_int b" using assms(2) b by (simp add: word_less_def)
    then have "es_newStrFromSubStr True (es_str_of s) 0 (of_int b) = None"
      using m s(3) assms(1) by (simp add: es_newStrFromSubStr_def memcpy_def)
    then show "doFunct_Substring (SStr s) (SNum 0) (SNum b) = None"
      by (simp add: doFunct_Substring_def var2Number_def var2String_def)
  }
qed

section \<open>Examples\<close>

theorem field_extracted_witness:
  "doExtractFieldByChar (lit ''a,bc,'') 44 3 =
    Some (if 1 \<le> (3 :: int) \<and> nat 3 \<le> length (fields 44 (lit ''a,bc,'')) then Some (fields 44 (lit ''a,bc,'') ! (nat 3 - 1)) else None)"
  by (rule field_extracted) (simp_all add: lit_def)

theorem ipv4_round_trip_witness:
  "\<exists>t. doFunct_num2ipv4 (SNum 3232235777) = Some t \<and> doFunct_Ipv42num t = SNum 3232235777"
  by (rule ipv4_round_trip) simp_all

theorem one_byte_replaced_witness:
  "doFuncReplace (lit ''a b '') [32] (lit ''__'') = Some (subst1 32 (lit ''__'') (lit ''a b ''))"
  by (rule one_byte_replaced) (simp add: lit_def subst1_def)

theorem replace_overflows_witness:
  "doFuncReplace (lit ''x'' @ [97, 97, 98]) [97, 98] (lit ''0123456789'') = None"
  by (rule replace_overflows) (simp_all add: lit_def)

theorem substring_arguments_witness:
  "(0 \<le> (- 1 :: int) \<and> 0 \<le> (5 :: int) \<and> - 1 + (5 :: int) < 2 ^ 31 \<longrightarrow>
      doFunct_Substring (SStr [97]) (SNum (- 1)) (SNum 5) = Some (SStr (take (nat 5) (drop (nat (- 1)) [97])))) \<and>
    (- (2 ^ 31) \<le> (- 1 :: int) \<and> - 1 < (0 :: int) \<and> 0 \<le> - 1 + (5 :: int) \<and> 5 < (2 :: int) ^ 31 \<longrightarrow>
      doFunct_Substring (SStr [97]) (SNum (- 1)) (SNum 5) = None) \<and>
    (-7 \<le> (5 :: int) \<and> 5 < (0 :: int) \<longrightarrow> doFunct_Substring (SStr [97]) (SNum 0) (SNum 5) = None)"
  by (rule substring_arguments) simp_all

end
