(* ===== verification/ExprSame.thy ===== *)
theory ExprSame
  imports ExprOpt ScriptFunOk
begin

text \<open>
  The optimizer of expressions keeps their meaning, and where it does not.
\<close>

unbundle bit_operations_syntax

section \<open>The shape of the result\<close>

lemma those_length: "those xs = Some ys \<Longrightarrow> length ys = length xs"
  by (induction xs arbitrary: ys) (auto split: option.splits)

lemma setSeverity_length: "prifiltSetSeverity pm sev cop = Some pm1 \<Longrightarrow> length pm1 = length pm"
  by (auto simp: prifiltSetSeverity_def prifiltInvert_def bind_eq_Some_conv dest: those_length)

lemma setRange_length: "setRange pm a b = Some pm1 \<Longrightarrow> length pm1 = length pm"
  by (auto simp: setRange_def split: if_splits)

lemma setFacility_length: "prifiltSetFacility pm fac cop = Some pm1 \<Longrightarrow> length pm1 = length pm"
  by (auto simp: prifiltSetFacility_def prifiltInvert_def Let_def dest!: setRange_length split: compop.splits)

lemma newPrifilt_length: "cnffuncNew_prifilt fac = Some pm \<Longrightarrow> length pm = N_PMASK"
  by (auto simp: cnffuncNew_prifilt_def Let_def split: if_splits)

text \<open>What a comparison turns into: itself, with operands swapped or sorted, or a mask.\<close>

definition is_cmp :: "cnfexpr \<Rightarrow> bool" where
  "is_cmp e \<longleftrightarrow> (case e of E_cmp _ _ _ \<Rightarrow> True | _ \<Rightarrow> False)"

definition good_node :: "cnfexpr \<Rightarrow> bool" where
  "good_node e \<longleftrightarrow> (case e of E_cmp _ _ _ \<Rightarrow> True | E_fun (F_prifilt pm) _ \<Rightarrow> length pm = N_PMASK | _ \<Rightarrow> False)"

lemma good_simps [simp]: "good_node (E_cmp c l r)" "length pm = N_PMASK \<Longrightarrow> good_node (prifiltNode pm)"
  by (simp_all add: good_node_def prifiltNode_def)

lemma sevfac_good: "cnfexprOptimize_CMP_severity_facility cop l r = Some (e, m) \<Longrightarrow> good_node e"
  unfolding cnfexprOptimize_CMP_severity_facility_def Let_def
  by (auto split: cnfexpr.splits if_splits simp: bind_eq_Some_conv
      dest!: setSeverity_length setFacility_length newPrifilt_length)

lemma cmpvar_good: "cnfexprOptimize_CMP_var cop name r = Some (e, m) \<Longrightarrow> good_node e"
  unfolding cnfexprOptimize_CMP_var_def
  by (auto split: cnfexpr.splits if_splits simp: bind_eq_Some_conv prifiltInvert_def
      dest!: setSeverity_length newPrifilt_length dest: sevfac_good)

lemma cmpeq_good: "optCmpEq cop l r = Some (e, m) \<Longrightarrow> good_node e"
  unfolding optCmpEq_def Let_def
  by (auto split: cnfexpr.splits prod.splits dest: cmpvar_good)

lemma opt_cmp_good: "cnfexprOptimize (E_cmp cop l r) = Some (e, m) \<Longrightarrow> good_node e"
  by (auto simp: bind_eq_Some_conv split: if_splits dest: sevfac_good cmpeq_good)

lemma concat_shape: "constFoldConcat l r = E_cat l r \<or> (\<exists>s. constFoldConcat l r = E_str s)"
  by (auto simp: constFoldConcat_def split: option.split)

lemma arith_shape: "foldArith aop l r = Some e \<Longrightarrow> e = E_arith aop l r \<or> (\<exists>n. e = E_num n)"
  by (auto simp: foldArith_def bind_eq_Some_conv split: option.splits)

lemma andor_shape:
  "cnfexprOptimize_AND_OR x l r = (e, m) \<Longrightarrow> e = (if x then E_and l r else E_or l r) \<or> (\<exists>p a. e = E_fun (F_prifilt p) a)"
  by (auto simp: cnfexprOptimize_AND_OR_def split: option.splits)

lemma not_shape: "cnfexprOptimize_NOT r = (e, m) \<Longrightarrow> e = E_not r \<or> (\<exists>p a. e = E_fun (F_prifilt p) a)"
  by (auto simp: cnfexprOptimize_NOT_def split: option.splits)

lemma opt_arr_of: "cnfexprOptimize e = Some (e1, m) \<Longrightarrow> arr_of e1 = arr_of e"
proof (cases e)
  case (E_cmp c l r)
  then show "cnfexprOptimize e = Some (e1, m) \<Longrightarrow> arr_of e1 = arr_of e"
    using opt_cmp_good [of c l r e1 m] by (auto simp: arr_of_def good_node_def split: cnfexpr.splits)
next
  case (E_cat l r)
  assume "cnfexprOptimize e = Some (e1, m)"
  then obtain l1 r1 where "e1 = constFoldConcat l1 r1" using E_cat by (auto simp: bind_eq_Some_conv)
  then show ?thesis using concat_shape [of l1 r1] E_cat by (auto simp: arr_of_def)
next
  case (E_arith a l r)
  assume "cnfexprOptimize e = Some (e1, m)"
  then obtain l1 r1 where "foldArith a l1 r1 = Some e1" using E_arith by (auto simp: bind_eq_Some_conv)
  then show ?thesis using arith_shape [of a l1 r1 e1] E_arith by (auto simp: arr_of_def)
next
  case (E_and l r)
  assume "cnfexprOptimize e = Some (e1, m)"
  then obtain l1 r1 where "cnfexprOptimize_AND_OR True l1 r1 = (e1, m)" using E_and by (auto simp: bind_eq_Some_conv)
  then show ?thesis using andor_shape [of True l1 r1 e1 m] E_and by (auto simp: arr_of_def)
next
  case (E_or l r)
  assume "cnfexprOptimize e = Some (e1, m)"
  then obtain l1 r1 where "cnfexprOptimize_AND_OR False l1 r1 = (e1, m)" using E_or by (auto simp: bind_eq_Some_conv)
  then show ?thesis using andor_shape [of False l1 r1 e1 m] E_or by (auto simp: arr_of_def)
next
  case (E_not r)
  assume "cnfexprOptimize e = Some (e1, m)"
  then obtain r1 where "cnfexprOptimize_NOT r1 = (e1, m)" using E_not by (auto simp: bind_eq_Some_conv)
  then show ?thesis using not_shape [of r1 e1 m] E_not by (auto simp: arr_of_def)
qed auto

lemma combine_length: "length a = N_PMASK \<Longrightarrow> length b = N_PMASK \<Longrightarrow> length (prifiltCombine a b x) = N_PMASK"
  by (simp add: prifiltCombine_def)

lemma prifilt_of_simps [simp]:
  "prifilt_of (E_fun (F_prifilt pm) args) = Some (pm, args)"
  "prifilt_of (E_and l r) = None" "prifilt_of (E_or l r) = None" "prifilt_of (E_not r) = None"
  "prifilt_of (E_cmp c l r) = None" "prifilt_of (E_num n) = None" "prifilt_of (E_str str) = None"
  "prifilt_of (E_arr xs) = None" "prifilt_of (E_var name) = None" "prifilt_of (E_cat l r) = None"
  "prifilt_of (E_arith a l r) = None" "prifilt_of (E_neg r) = None"
  by (simp_all add: prifilt_of_def)

lemma prifilt_of_Some: "prifilt_of e = Some (pm, args) \<Longrightarrow> e = E_fun (F_prifilt pm) args"
  by (auto simp: prifilt_of_def split: cnfexpr.splits scriptfn.splits)

lemma andor_mask:
  assumes "cnfexprOptimize_AND_OR x l r = (e, m)" "prifilt_of e = Some (pm, args)"
    and "\<And>p a. prifilt_of l = Some (p, a) \<Longrightarrow> length p = N_PMASK" "\<And>p a. prifilt_of r = Some (p, a) \<Longrightarrow> length p = N_PMASK"
  shows "length pm = N_PMASK"
  using assms by (auto simp: cnfexprOptimize_AND_OR_def combine_length split: option.splits if_splits)

lemma not_mask:
  assumes "cnfexprOptimize_NOT r = (e, m)" "prifilt_of e = Some (pm, args)"
    and "\<And>p a. prifilt_of r = Some (p, a) \<Longrightarrow> length p = N_PMASK"
  shows "length pm = N_PMASK"
  using assms by (auto simp: cnfexprOptimize_NOT_def prifiltInvert_def split: option.splits)

lemma opt_mask:
  "cnfexprOptimize e = Some (e1, m) \<Longrightarrow> opt_ok v e \<Longrightarrow> prifilt_of e1 = Some (pm, args) \<Longrightarrow> length pm = N_PMASK"
proof (induction e arbitrary: e1 m v pm args)
  case (E_cmp c l r)
  then show ?case using opt_cmp_good [of c l r e1 m] prifilt_of_Some [of e1 pm args]
    by (simp add: good_node_def)
next
  case (E_or l r)
  obtain l1 ml r1 mr where o: "cnfexprOptimize l = Some (l1, ml)" "cnfexprOptimize r = Some (r1, mr)"
    "cnfexprOptimize_AND_OR False l1 r1 = (e1, m)" using E_or.prems(1) by (auto simp: bind_eq_Some_conv)
  show ?case using andor_mask [OF o(3) E_or.prems(3)] E_or.IH(1) [OF o(1)] E_or.IH(2) [OF o(2)] E_or.prems(2) by auto
next
  case (E_and l r)
  obtain l1 ml r1 mr where o: "cnfexprOptimize l = Some (l1, ml)" "cnfexprOptimize r = Some (r1, mr)"
    "cnfexprOptimize_AND_OR True l1 r1 = (e1, m)" using E_and.prems(1) by (auto simp: bind_eq_Some_conv)
  show ?case using andor_mask [OF o(3) E_and.prems(3)] E_and.IH(1) [OF o(1)] E_and.IH(2) [OF o(2)] E_and.prems(2) by auto
next
  case (E_not r)
  obtain r1 mr where o: "cnfexprOptimize r = Some (r1, mr)" "cnfexprOptimize_NOT r1 = (e1, m)"
    using E_not.prems(1) by (auto simp: bind_eq_Some_conv)
  show ?case using not_mask [OF o(2) E_not.prems(3)] E_not.IH [OF o(1)] E_not.prems(2) by auto
next
  case (E_fun f xs)
  then show ?case using prifilt_of_Some [of e1 pm args] by auto
next
  case (E_cat l r)
  obtain l1 r1 where "e1 = constFoldConcat l1 r1" using E_cat.prems(1) by (auto simp: bind_eq_Some_conv)
  then show ?case using concat_shape [of l1 r1] E_cat.prems(3) by auto
next
  case (E_arith a l r)
  obtain l1 r1 where "foldArith a l1 r1 = Some e1" using E_arith.prems(1) by (auto simp: bind_eq_Some_conv)
  then show ?case using arith_shape [of a l1 r1 e1] E_arith.prems(3) by auto
qed auto

section \<open>Masks and messages\<close>

definition ctx_ok :: "evalctx \<Rightarrow> bool" where
  "ctx_ok cx \<longleftrightarrow> 0 \<le> iFacility (cx_msg cx) \<and> iFacility (cx_msg cx) \<le> 24 \<and>
     0 \<le> iSeverity (cx_msg cx) \<and> iSeverity (cx_msg cx) \<le> 7 \<and> (\<forall>n. \<not> is_num (cx_json cx n))"

definition mbit :: "pmask \<Rightarrow> evalctx \<Rightarrow> bool" where
  "mbit pm cx = bit (pm ! nat (iFacility (cx_msg cx))) (nat (iSeverity (cx_msg cx)))"

lemma eval_prifilt:
  "ctx_ok cx \<Longrightarrow> length pm = N_PMASK \<Longrightarrow> cnfexprEval cx (E_fun (F_prifilt pm) args) = Some (SNum (of_bool (mbit pm cx)))"
  by (simp add: prifilt_match_iff mbit_def ctx_ok_def N_PMASK_def)

lemma ctx_bounds: "ctx_ok cx \<Longrightarrow> nat (iFacility (cx_msg cx)) < N_PMASK \<and> nat (iSeverity (cx_msg cx)) < 8"
  by (auto simp: ctx_ok_def N_PMASK_def)

lemma mbit_invert: "ctx_ok cx \<Longrightarrow> length pm = N_PMASK \<Longrightarrow> mbit (prifiltInvert pm) cx = (\<not> mbit pm cx)"
  using ctx_bounds [of cx] by (simp add: mbit_def prifiltInvert_def bit_not_iff)

lemma mbit_combine:
  "ctx_ok cx \<Longrightarrow> length a = N_PMASK \<Longrightarrow> length b = N_PMASK \<Longrightarrow>
   mbit (prifiltCombine a b x) cx = (if x then mbit a cx \<and> mbit b cx else mbit a cx \<or> mbit b cx)"
  using ctx_bounds [of cx] by (simp add: mbit_def prifiltCombine_def bit_and_iff bit_or_iff)

lemma isTrue_num [simp]: "isTrue (SNum n) = Some (n \<noteq> 0)"
  by (simp add: isTrue_def var2Number_def)

definition same :: "bool \<Rightarrow> svar \<Rightarrow> svar \<Rightarrow> bool" where
  "same v a b \<longleftrightarrow> (if v then b = a else isTrue b = isTrue a)"

lemma same_refl [simp]: "same v a a"
  by (simp add: same_def)

lemma same_False: "same False a b \<longleftrightarrow> isTrue b = isTrue a"
  by (simp add: same_def)

lemma same_True: "same True a b \<longleftrightarrow> b = a"
  by (simp add: same_def)

section \<open>One comparison\<close>

lemma cmpEval_mono:
  "cmpEval cop lv ar ro = Some x \<Longrightarrow> (\<And>rv. ro = Some rv \<Longrightarrow> ro' = Some rv) \<Longrightarrow> cmpEval cop lv ar ro' = Some x"
  unfolding cmpEval_def cmpEq_def cmpNe_def cmpStr_def
  by (auto simp: bind_eq_Some_conv split: option.splits if_splits)

lemma text_val: "is_text e \<Longrightarrow> cnfexprEval cx e = Some lv \<Longrightarrow> \<exists>s. lv = SStr s"
  by (cases e) (auto simp: evalVar_def bind_eq_Some_conv split: propid.splits)

lemma jvar_val: "is_jvar e \<Longrightarrow> ctx_ok cx \<Longrightarrow> cnfexprEval cx e = Some lv \<Longrightarrow> \<not> is_num lv"
  by (cases e) (auto simp: is_jvar_def evalVar_def ctx_ok_def is_num_def split: propid.splits)

lemma bsearch_sort: "bsearch_str k xs = Some b \<Longrightarrow> bsearch_str k (sort xs) = Some b"
proof -
  assume a: "bsearch_str k xs = Some b"
  have "bsearch_str k (sort xs) = Some (k \<in> set (sort xs))" by (rule bsearch_sorted) simp
  then show ?thesis using a by (simp add: bsearch_str_def split: if_splits)
qed

lemma arrayCmp_sort:
  assumes "cop = CMP_EQ \<or> cop = CMP_NE" "evalStrArrayCmp k xs cop = Some x"
  shows "evalStrArrayCmp k (sort xs) cop = Some x"
proof -
  obtain b where b: "bsearch_str k xs = Some b" using assms by (auto simp: evalStrArrayCmp_def)
  show ?thesis using assms unfolding evalStrArrayCmp_def b bsearch_sort [OF b] by (elim disjE) simp_all
qed

lemma sort_step:
  assumes "cop = CMP_EQ \<or> cop = CMP_NE" "is_text l \<or> cop = CMP_EQ \<and> is_jvar l" "ctx_ok cx"
    and "cnfexprEval cx (E_cmp cop l (E_arr xs)) = Some w"
  shows "cnfexprEval cx (E_cmp cop l (E_arr (sort xs))) = Some w"
proof -
  obtain lv x where lv: "cnfexprEval cx l = Some lv" "cmpEval cop lv (Some xs) (map_option SStr (c_get xs 0)) = Some x" "w = SNum x"
    using assms(4) by (auto simp: bind_eq_Some_conv arr_of_def)
  have g: "c_get xs 0 = Some y \<Longrightarrow> \<exists>z. c_get (sort xs) 0 = Some z" for y by (auto simp: c_get_def split: if_splits)
  have nn: "\<not> is_num lv" using assms(2,3) lv(1) text_val jvar_val by (fastforce simp: is_num_def)
  have "cmpEval cop lv (Some (sort xs)) (map_option SStr (c_get (sort xs) 0)) = Some x"
  proof (cases "cop = CMP_EQ")
    case True
    then show ?thesis using lv(2) nn arrayCmp_sort [OF assms(1), of "var2String lv" xs x]
      by (simp add: cmpEval_def cmpEq_def)
  next
    case False
    then have c: "cop = CMP_NE" "is_text l" using assms(1,2) by auto
    then obtain s where "lv = SStr s" using text_val lv(1) by blast
    then show ?thesis using lv(2) c g arrayCmp_sort [OF assms(1), of s xs x]
      by (auto simp: cmpEval_def cmpNe_def bind_eq_Some_conv)
  qed
  then show ?thesis using lv by (simp add: arr_of_def)
qed

section \<open>Comparisons of facility and severity\<close>

lemma number_names: "list_all (\<lambda>k. str2num (syslog_number_names ! k) = Some (int k, True)) [0..<24]"
  by code_simp

lemma number_name:
  "0 \<le> i \<Longrightarrow> i \<le> mx \<Longrightarrow> mx \<le> 23 \<Longrightarrow> \<exists>s. name_at syslog_number_names mx i = Some s \<and> str2num s = Some (i, True)"
proof -
  assume i: "0 \<le> i" "i \<le> mx" "mx \<le> 23"
  have "nat i \<in> set [0..<24]" using i by auto
  then have "str2num (syslog_number_names ! nat i) = Some (i, True)" using number_names i(1) by (auto simp: list_all_iff)
  moreover have "nat i < length syslog_number_names" using i by (simp add: syslog_number_names_def)
  ultimately show ?thesis using i by (simp add: name_at_def)
qed

definition six :: "compop \<Rightarrow> bool" where
  "six cop \<longleftrightarrow> cop = CMP_EQ \<or> cop = CMP_NE \<or> cop = CMP_LE \<or> cop = CMP_GE \<or> cop = CMP_LT \<or> cop = CMP_GT"

lemma six_num_ops: "six cop \<Longrightarrow> cop \<in> num_ops"
  by (auto simp: six_def num_ops_def)

lemma cmp_const:
  assumes "six cop" "cnfexprEval cx l = Some lv" "arr_of r = None" "cnfexprEval cx r = Some rv"
  shows "cnfexprEval cx (E_cmp cop l r) = map_option SNum (cmpVals cop lv rv)"
  using assms by (auto simp: six_def cmpEval_def cmpEq_def cmpNe_def split: svar.splits)

lemma invld_greater: "0 \<le> k \<Longrightarrow> 0 < lcmp (lit ''invld'') (numtxt k)"
proof -
  assume "0 \<le> k"
  then obtain d ds where d: "numtxt k = d # ds" "isdigit d" using numtxt_decimal [of k] by (cases "numtxt k") auto
  have "uint (105 :: byte) = 105" by simp
  then show ?thesis using d by (auto simp: lit_def isdigit_uint)
qed

lemma invld_num: "str2num (lit ''invld'') = Some (0, False)"
  by code_simp

lemma sev_step:
  assumes "six cop" "ctx_ok cx" "0 \<le> k" "k \<le> 7"
  shows "cnfexprEval cx (E_cmp cop (E_var (lit ''syslogseverity'')) (E_num k)) =
    Some (SNum (of_bool (cmpNum cop (iSeverity (cx_msg cx)) k)))"
proof -
  obtain s where s: "getSeverity (cx_msg cx) = Some s" "str2num s = Some (iSeverity (cx_msg cx), True)"
    using number_name [of "iSeverity (cx_msg cx)" 7] assms(2) by (auto simp: ctx_ok_def getSeverity_def)
  have "propNameToID (lit ''syslogseverity'') = PROP_SYSLOGSEVERITY" by code_simp
  then have v: "cnfexprEval cx (E_var (lit ''syslogseverity'')) = Some (SStr s)" using s(1) by (simp add: evalVar_def)
  show ?thesis using cmp_const [OF assms(1) v, of "E_num k" "SNum k"] s(2)
    by (simp add: arr_of_def cmpVals_def var2Number_def raw_n_def numRes_def)
qed

lemma fac_step:
  assumes "six cop" "ctx_ok cx" "0 \<le> k" "k \<le> 23"
  shows "\<exists>x. cnfexprEval cx (E_cmp cop (E_var (lit ''syslogfacility'')) (E_num k)) = Some (SNum x) \<and>
    (x \<noteq> 0 \<longleftrightarrow> cmpNum cop (iFacility (cx_msg cx)) k) \<and> (cop \<noteq> CMP_NE \<longrightarrow> x = of_bool (cmpNum cop (iFacility (cx_msg cx)) k))"
proof -
  have p: "propNameToID (lit ''syslogfacility'') = PROP_SYSLOGFACILITY" by code_simp
  show ?thesis
  proof (cases "iFacility (cx_msg cx) \<le> 23")
    case True
    then obtain s where s: "getFacility (cx_msg cx) = Some s" "str2num s = Some (iFacility (cx_msg cx), True)"
      using number_name [of "iFacility (cx_msg cx)" 23] assms(2) by (auto simp: ctx_ok_def getFacility_def)
    have v: "cnfexprEval cx (E_var (lit ''syslogfacility'')) = Some (SStr s)" using s(1) p by (simp add: evalVar_def)
    show ?thesis using cmp_const [OF assms(1) v, of "E_num k" "SNum k"] s(2)
      by (simp add: arr_of_def cmpVals_def var2Number_def raw_n_def numRes_def)
  next
    case False
    then have f: "iFacility (cx_msg cx) = 24" using assms(2) by (simp add: ctx_ok_def)
    then have v: "cnfexprEval cx (E_var (lit ''syslogfacility'')) = Some (SStr (lit ''invld''))"
      using p by (simp add: evalVar_def getFacility_def name_at_def)
    have "cnfexprEval cx (E_cmp cop (E_var (lit ''syslogfacility'')) (E_num k)) =
        Some (SNum (strRes cop (lcmp (lit ''invld'') (numtxt k))))"
      using cmp_const [OF assms(1) v, of "E_num k" "SNum k"] invld_num
      by (simp add: arr_of_def cmpVals_def var2Number_def var2String_def)
    then show ?thesis using invld_greater [OF assms(3)] assms(1,4) f
      by (auto simp: six_def strRes_def)
  qed
qed

lemma newPrifilt_0: "\<exists>pm. cnffuncNew_prifilt 0 = Some pm \<and> length pm = N_PMASK"
  by (simp add: cnffuncNew_prifilt_def N_PMASK_def)

lemma sevfac_step:
  assumes "six cop" "ctx_ok cx" and ok: "case l of E_var name \<Rightarrow> pri_cmp_ok v cop name r | _ \<Rightarrow> True"
    and o: "cnfexprOptimize_CMP_severity_facility cop l r = Some (e, m)"
    and w: "cnfexprEval cx (E_cmp cop l r) = Some w"
  shows "\<exists>b. cnfexprEval cx e = Some b \<and> same v w b"
proof (cases "e = E_cmp cop l r")
  case True
  then show ?thesis using w by simp
next
  case False
  obtain name k where lr: "l = E_var name" "r = E_num k"
    using o False by (cases l; cases r) (auto simp: cnfexprOptimize_CMP_severity_facility_def)
  obtain pm where pm: "cnffuncNew_prifilt 0 = Some pm" "length pm = N_PMASK" using newPrifilt_0 by blast
  have c: "0 \<le> iFacility (cx_msg cx)" "iFacility (cx_msg cx) < int N_PMASK" "0 \<le> iSeverity (cx_msg cx)" "iSeverity (cx_msg cx) \<le> 7"
    using assms(2) by (auto simp: ctx_ok_def N_PMASK_def)
  have ne: "lit ''syslogfacility'' \<noteq> lit ''syslogseverity''" by code_simp
  consider "name = lit ''syslogseverity''" "0 \<le> to_int k" "to_int k \<le> 7" |
      "name = lit ''syslogfacility''" "0 \<le> to_int k" "to_int k \<le> 24"
    using o False lr by (auto simp: cnfexprOptimize_CMP_severity_facility_def Let_def split: if_splits)
  then show ?thesis
  proof cases
    case 1
    then have k: "to_int k = k" "0 \<le> k" "k \<le> 7" using ok lr by (auto simp: pri_cmp_ok_def)
    obtain pm1 where "prifiltSetSeverity pm k cop = Some pm1"
      "prifilt_match pm1 (cx_msg cx) = Some (cmpNum cop (iSeverity (cx_msg cx)) k)"
      using severity_filter [OF k(2,3) six_num_ops [OF assms(1)] pm(2) c] by blast
    then have "cnfexprEval cx e = Some (SNum (of_bool (cmpNum cop (iSeverity (cx_msg cx)) k)))"
      using o 1 lr k pm by (auto simp: cnfexprOptimize_CMP_severity_facility_def prifiltNode_def)
    then show ?thesis using w sev_step [OF assms(1,2) k(2,3)] 1(1) lr by simp
  next
    case 2
    then have k: "to_int k = k" "0 \<le> k" "k \<le> 23" "\<not> (v \<and> cop = CMP_NE)" using ok lr by (auto simp: pri_cmp_ok_def)
    obtain pm1 where "prifiltSetFacility pm k cop = Some pm1"
      "prifilt_match pm1 (cx_msg cx) = Some (cmpNum cop (iFacility (cx_msg cx)) k)"
      using facility_filter [OF k(2) _ six_num_ops [OF assms(1)] pm(2) c] k(3) by auto
    then have "cnfexprEval cx e = Some (SNum (of_bool (cmpNum cop (iFacility (cx_msg cx)) k)))"
      using o 2 lr k pm ne by (auto simp: cnfexprOptimize_CMP_severity_facility_def prifiltNode_def)
    then show ?thesis using w fac_step [OF assms(1,2) k(2,3)] 2(1) lr k(4)
      by (auto simp: same_def)
  qed
qed

section \<open>Comparisons of their names\<close>

lemma names_len: "length syslog_fac_names = 25" "length syslog_severity_names = 8"
  "syslog_fac_names ! 24 = lit ''invld''"
  by (simp_all add: syslog_fac_names_def syslog_severity_names_def)

lemma facStr: "ctx_ok cx \<Longrightarrow> getFacilityStr (cx_msg cx) = Some (syslog_fac_names ! nat (iFacility (cx_msg cx)))"
  by (cases "iFacility (cx_msg cx) = 24") (auto simp: getFacilityStr_def name_at_def ctx_ok_def names_len)

lemma sevStr: "ctx_ok cx \<Longrightarrow> getSeverityStr (cx_msg cx) = Some (syslog_severity_names ! nat (iSeverity (cx_msg cx)))"
  by (auto simp: getSeverityStr_def name_at_def ctx_ok_def names_len)

lemma text_cmp:
  assumes "cop = CMP_EQ \<or> cop = CMP_NE" "cnfexprEval cx l = Some (SStr t)"
  shows "\<exists>x. cnfexprEval cx (E_cmp cop l (E_str s)) = Some (SNum x) \<and> (x \<noteq> 0 \<longleftrightarrow> (cop = CMP_EQ) = (t = s)) \<and>
    (cop = CMP_EQ \<longrightarrow> x = of_bool (t = s))"
proof -
  have "six cop" using assms(1) by (auto simp: six_def)
  then show ?thesis using cmp_const [OF _ assms(2), of cop "E_str s" "SStr s"] assms(1)
    by (auto simp: arr_of_def cmpVals_def var2String_def strRes_def lcmp_zero)
qed

lemma setSev_eq_ne:
  assumes "prifiltSetSeverity pm sev cop = Some pm1" "cop = CMP_EQ \<or> cop = CMP_NE" "length pm = N_PMASK" "ctx_ok cx"
  shows "length pm1 = N_PMASK \<and> mbit pm1 cx = ((cop = CMP_EQ) = (iSeverity (cx_msg cx) = sev))"
proof -
  have l: "length pm1 = N_PMASK" using setSeverity_length [OF assms(1)] assms(3) by simp
  obtain xs where xs: "those (map (sevBits sev cop) pm) = Some xs" using assms(1) by (auto simp: prifiltSetSeverity_def bind_eq_Some_conv)
  have sb: "sevBits sev cop = (\<lambda>_. shl1 sev)" using assms(2) by (auto simp: sevBits_def fun_eq_iff)
  have pm: "pm \<noteq> []" using assms(3) by (auto simp: N_PMASK_def)
  then obtain e where e: "shl1 sev = Some e" using xs unfolding sb by (cases pm) (auto split: option.splits)
  then have r: "0 \<le> sev" "sev \<le> 30" by (auto simp: shl1_def split: if_splits)
  then have b: "\<forall>k. bit e k \<longleftrightarrow> k < 8 \<and> int k = sev" using shl1_bit [OF r] e by (metis option.inject)
  have "those (map (sevBits sev cop) pm) = Some (map (\<lambda>_. e) pm)"
    by (rule those_map_const) (simp add: sb e)
  then have "pm1 = (if cop = CMP_NE then prifiltInvert (map (\<lambda>_. e) pm) else map (\<lambda>_. e) pm)"
    using assms(1) by (simp add: prifiltSetSeverity_def)
  then show ?thesis using l b assms(2-4) ctx_bounds [OF assms(4)]
    by (auto simp: mbit_def prifiltInvert_def bit_not_iff ctx_ok_def)
qed

lemma newPrifilt_bit:
  assumes "cnffuncNew_prifilt fac = Some pm" "ctx_ok cx"
  shows "length pm = N_PMASK \<and> mbit pm cx = (fac div 8 = iFacility (cx_msg cx))"
proof -
  have all: "ALL_BITS = (-1 :: byte)" by (simp add: ALL_BITS_def TABLE_ALLPRI_def)
  have bits: "bit ALL_BITS k" if "k < 8" for k using that unfolding all bit_minus_1_iff by simp
  show ?thesis using assms ctx_bounds [OF assms(2)] bits
    by (auto simp: cnffuncNew_prifilt_def Let_def mbit_def nth_list_update ctx_ok_def split: if_splits)
qed

lemma option_same: "x = Some a \<Longrightarrow> x = Some b \<Longrightarrow> b = a"
  by simp

lemma cmpvar_step:
  assumes c: "cop = CMP_EQ \<or> cop = CMP_NE" and x: "ctx_ok cx" and ok: "pri_cmp_ok v cop name r"
    and o: "cnfexprOptimize_CMP_var cop name r = Some (e, m)"
    and w: "cnfexprEval cx (E_cmp cop (E_var name) r) = Some w"
  shows "\<exists>b. cnfexprEval cx e = Some b \<and> same v w b"
proof (cases "e = E_cmp cop (E_var name) r")
  case True
  then show ?thesis using w by simp
next
  case False
  have s6: "six cop" using c by (auto simp: six_def)
  have ne: "lit ''syslogseverity-text'' \<noteq> lit ''syslogfacility-text''" by code_simp
  have p: "propNameToID (lit ''syslogfacility-text'') = PROP_SYSLOGFACILITY_TEXT"
    "propNameToID (lit ''syslogseverity-text'') = PROP_SYSLOGSEVERITY_TEXT" by code_simp+
  consider "name = lit ''syslogfacility-text''" | "name = lit ''syslogseverity-text''" |
      "cnfexprOptimize_CMP_severity_facility cop (E_var name) r = Some (e, m)"
    using o by (auto simp: cnfexprOptimize_CMP_var_def split: if_splits)
  then show ?thesis
  proof cases
    case 1
    obtain s where r: "r = E_str s" using o 1 False by (cases r) (auto simp: cnfexprOptimize_CMP_var_def)
    obtain fac pm where f: "decodeSyslogName (cstr_of s) syslogFacNames = Some fac" "fac \<noteq> -1" "cnffuncNew_prifilt fac = Some pm"
      "e = prifiltNode (if cop = CMP_NE then prifiltInvert pm else pm)"
      using o 1 r False by (auto simp: cnfexprOptimize_CMP_var_def bind_eq_Some_conv split: if_splits)
    have q: "fac_text_ok s" "\<not> (v \<and> cop = CMP_NE)" using ok 1 r c by (auto simp: pri_cmp_ok_def)
    have i: "nat (iFacility (cx_msg cx)) \<in> set [0..<25]" using x by (auto simp: ctx_ok_def)
    let ?t = "syslog_fac_names ! nat (iFacility (cx_msg cx))"
    have t: "(?t = s) = (fac div 8 = iFacility (cx_msg cx))"
      using q(1) f(1,2) i x unfolding fac_text_ok_def list_all_iff by (auto simp: ctx_ok_def)
    have pm: "length pm = N_PMASK" "mbit pm cx = (?t = s)" using newPrifilt_bit [OF f(3) x] t by auto
    have "cnfexprEval cx (E_var name) = Some (SStr ?t)" using facStr [OF x] p 1 by (simp add: evalVar_def)
    then obtain y where y0: "cnfexprEval cx (E_cmp cop (E_var name) (E_str s)) = Some (SNum y)"
      and y1: "y \<noteq> 0 \<longleftrightarrow> (cop = CMP_EQ) = (?t = s)" "cop = CMP_EQ \<longrightarrow> y = of_bool (?t = s)"
      using text_cmp [OF c, of cx "E_var name" ?t s] by blast
    have "w = SNum y" using y0 w unfolding r by (rule option_same)
    note y = this y1
    have "cnfexprEval cx e = Some (SNum (of_bool ((cop = CMP_EQ) = (?t = s))))"
      using eval_prifilt [OF x, of "if cop = CMP_NE then prifiltInvert pm else pm" "[]"] pm c mbit_invert [OF x pm(1)]
      unfolding f(4) prifiltNode_def by (auto simp: prifiltInvert_def)
    then show ?thesis using y q(2) c by (auto simp: same_def)
  next
    case 2
    obtain s where r: "r = E_str s" using o 2 ne False by (cases r) (auto simp: cnfexprOptimize_CMP_var_def)
    obtain sev pm pm1 where f: "decodeSyslogName (cstr_of s) syslogPriNames = Some sev" "sev \<noteq> -1" "cnffuncNew_prifilt 0 = Some pm"
      "prifiltSetSeverity pm sev cop = Some pm1" "e = prifiltNode pm1"
      using o 2 ne r False by (auto simp: cnfexprOptimize_CMP_var_def bind_eq_Some_conv split: if_splits)
    have q: "sev_text_ok s" "\<not> (v \<and> cop = CMP_NE)" using ok 2 ne r c by (auto simp: pri_cmp_ok_def)
    have i: "nat (iSeverity (cx_msg cx)) \<in> set [0..<8]" using x by (auto simp: ctx_ok_def)
    let ?t = "syslog_severity_names ! nat (iSeverity (cx_msg cx))"
    have t: "(?t = s) = (iSeverity (cx_msg cx) = sev)"
      using q(1) f(1,2) i x unfolding sev_text_ok_def list_all_iff by (auto simp: ctx_ok_def)
    have pm: "length pm1 = N_PMASK" "mbit pm1 cx = ((cop = CMP_EQ) = (?t = s))"
      using setSev_eq_ne [OF f(4) c newPrifilt_length [OF f(3)] x] t by auto
    have "cnfexprEval cx (E_var name) = Some (SStr ?t)" using sevStr [OF x] p 2 by (simp add: evalVar_def)
    then obtain y where y0: "cnfexprEval cx (E_cmp cop (E_var name) (E_str s)) = Some (SNum y)"
      and y1: "y \<noteq> 0 \<longleftrightarrow> (cop = CMP_EQ) = (?t = s)" "cop = CMP_EQ \<longrightarrow> y = of_bool (?t = s)"
      using text_cmp [OF c, of cx "E_var name" ?t s] by blast
    have "w = SNum y" using y0 w unfolding r by (rule option_same)
    note y = this y1
    have "cnfexprEval cx e = Some (SNum (of_bool ((cop = CMP_EQ) = (?t = s))))"
      using eval_prifilt [OF x pm(1), of "[]"] pm(2) unfolding f(5) prifiltNode_def by simp
    then show ?thesis using y q(2) c by (auto simp: same_def)
  next
    case 3
    show ?thesis by (rule sevfac_step [OF s6 x _ 3 w]) (use ok in simp)
  qed
qed

section \<open>The optimizer\<close>

text \<open>\<open>e1\<close> stands for \<open>e\<close>: where \<open>e\<close> has a value, so has \<open>e1\<close>, and it is the same one.\<close>

definition stands_for :: "bool \<Rightarrow> evalctx \<Rightarrow> cnfexpr \<Rightarrow> cnfexpr \<Rightarrow> bool" where
  "stands_for v cx e e1 \<longleftrightarrow>
     (\<forall>a. cnfexprEval cx e = Some a \<longrightarrow> (\<exists>b. cnfexprEval cx e1 = Some b \<and> same v a b))"

lemma stands_forI: "(\<And>a. cnfexprEval cx e = Some a \<Longrightarrow> \<exists>b. cnfexprEval cx e1 = Some b \<and> same v a b) \<Longrightarrow> stands_for v cx e e1"
  by (simp add: stands_for_def)

lemma stands_forD: "stands_for v cx e e1 \<Longrightarrow> cnfexprEval cx e = Some a \<Longrightarrow> \<exists>b. cnfexprEval cx e1 = Some b \<and> same v a b"
  by (simp add: stands_for_def)

lemma stands_for_refl: "stands_for v cx e e"
  by (simp add: stands_for_def)

lemma stands_for_trans: "stands_for True cx e e1 \<Longrightarrow> stands_for v cx e1 e2 \<Longrightarrow> stands_for v cx e e2"
  by (auto simp: stands_for_def same_def)

lemma stands_value: "stands_for True cx e e1 \<Longrightarrow> cnfexprEval cx e = Some a \<Longrightarrow> cnfexprEval cx e1 = Some a"
  by (auto simp: stands_for_def same_def)

lemma stands_True: "stands_for True cx e e1 \<longleftrightarrow> (\<forall>a. cnfexprEval cx e = Some a \<longrightarrow> cnfexprEval cx e1 = Some a)"
  by (auto simp: stands_for_def same_def)

lemma stands_truth:
  "stands_for False cx e e1 \<Longrightarrow> cnfexprEval cx e = Some a \<Longrightarrow> \<exists>b. cnfexprEval cx e1 = Some b \<and> isTrue b = isTrue a"
  by (auto simp: stands_for_def same_def)

lemma cmp_operands:
  assumes "stands_for True cx l l1" "stands_for True cx r r1" "arr_of r1 = arr_of r"
  shows "stands_for True cx (E_cmp cop l r) (E_cmp cop l1 r1)"
proof (rule stands_forI)
  fix a assume "cnfexprEval cx (E_cmp cop l r) = Some a"
  then obtain lv x where l: "cnfexprEval cx l = Some lv" "cmpEval cop lv (arr_of r) (cnfexprEval cx r) = Some x" "a = SNum x"
    by (auto simp: bind_eq_Some_conv)
  have "cmpEval cop lv (arr_of r1) (cnfexprEval cx r1) = Some x"
    unfolding assms(3) by (rule cmpEval_mono [OF l(2)]) (rule stands_value [OF assms(2)])
  then show "\<exists>b. cnfexprEval cx (E_cmp cop l1 r1) = Some b \<and> same True a b"
    using stands_value [OF assms(1) l(1)] l(3) by simp
qed

lemma cmp_eq_stands:
  assumes "cop = CMP_EQ \<or> cop = CMP_NE" "ctx_ok cx" "cmp_ok v cop l r" "optCmpEq cop l r = Some (e, m)"
  shows "stands_for v cx (E_cmp cop l r) e"
proof (rule stands_forI)
  fix a assume a: "cnfexprEval cx (E_cmp cop l r) = Some a"
  let ?r = "cnfexprOptimize_CMPEQ_arr r"
  have arr: "arr_of l = None" using assms(1,3) by (simp add: cmp_ok_def)
  have s: "cnfexprEval cx (E_cmp cop l ?r) = Some a"
  proof (cases r)
    case (E_arr xs)
    then have "is_text l \<or> cop = CMP_EQ \<and> is_jvar l" using assms(1,3) by (simp add: cmp_ok_def arr_of_def)
    from sort_step [OF assms(1) this assms(2), of xs a] a E_arr show ?thesis by (simp add: cnfexprOptimize_CMPEQ_arr_def)
  qed (use a in \<open>simp_all add: cnfexprOptimize_CMPEQ_arr_def\<close>)
  have o: "(case l of E_var name \<Rightarrow> cnfexprOptimize_CMP_var cop name ?r | _ \<Rightarrow> Some (E_cmp cop l ?r, False)) = Some (e, m)"
    using assms(4) arr by (simp add: optCmpEq_def swapArr_def Let_def)
  show "\<exists>b. cnfexprEval cx e = Some b \<and> same v a b"
  proof (cases "\<exists>name. l = E_var name")
    case True
    then obtain name where l: "l = E_var name" by blast
    have "pri_cmp_ok v cop name ?r"
      using assms(3) l by (cases r) (auto simp: cmp_ok_def pri_cmp_ok_def cnfexprOptimize_CMPEQ_arr_def)
    from cmpvar_step [OF assms(1,2) this _ s [unfolded l]] o l show ?thesis by simp
  next
    case False
    then have "e = E_cmp cop l ?r" using o by (cases l) auto
    then show ?thesis using s by simp
  qed
qed

lemma constText_eval: "constText e = Some s \<Longrightarrow> \<exists>v. cnfexprEval cx e = Some v \<and> var2String v = s"
  by (auto simp: constText_def var2String_def split: cnfexpr.splits)

lemma concat_stands: "stands_for True cx (E_cat l r) (constFoldConcat l r)"
proof (cases "constText l = None \<or> constText r = None")
  case True
  then show ?thesis by (auto simp: constFoldConcat_def stands_for_refl split: option.split)
next
  case False
  then obtain s t where "constText l = Some s" "constText r = Some t" by auto
  then show ?thesis using constText_eval [of l s cx] constText_eval [of r t cx]
    by (auto simp: constFoldConcat_def stands_for_def)
qed

lemma constVal_const: "constVal e = Some n \<Longrightarrow> is_const e"
  by (cases e) (simp_all add: constVal_def is_const_def)

lemma fold_nonconst: "foldArith aop l r = Some e \<Longrightarrow> e = E_arith aop l r \<or> constVal l \<noteq> None \<and> constVal r \<noteq> None"
  by (cases "is_const l \<and> is_const r")
    (auto simp: foldArith_def getConstNumber_def bind_eq_Some_conv)

lemma constVal_eval:
  "constVal e = Some n \<Longrightarrow> plain_const e \<Longrightarrow> \<exists>v ok. cnfexprEval cx e = Some v \<and> var2Number v = Some (n, ok)"
  unfolding constVal_def plain_const_def
  by (cases e) (auto simp: var2Number_def dest: sym)

lemma fold_const:
  "constVal l = Some a \<Longrightarrow> constVal r = Some b \<Longrightarrow> foldArith aop l r =
     map_option E_num
         (if aop = OP_ADD then ll (a + b)
          else if aop = OP_SUB then ll (a - b)
          else if aop = OP_MUL then ll (a * b)
          else if b = 0 then Some 0
          else if aop = OP_DIV then Option.bind (c_div a b) ll
          else c_mod a b)"
  using constVal_const [of l a] constVal_const [of r b] by (simp add: foldArith_def getConstNumber_def)

lemma arith_const:
  "var2Number va = Some (a, oa) \<Longrightarrow> var2Number vb = Some (b, ob) \<Longrightarrow> arithEval aop va vb =
     (if aop = OP_ADD then ll (a + b)
      else if aop = OP_SUB then ll (a - b)
      else if aop = OP_MUL then ll (a * b)
      else if b = 0 then Some 0
      else if aop = OP_DIV then Option.bind (c_div a b) ll
      else c_mod a b)"
  by (cases aop) (simp_all add: arithEval_def)

lemma arith_stands:
  assumes "foldArith aop l r = Some e" "plain_const l" "plain_const r"
  shows "stands_for True cx (E_arith aop l r) e"
proof (cases "e = E_arith aop l r")
  case False
  then obtain a b where ab: "constVal l = Some a" "constVal r = Some b"
    using fold_nonconst [OF assms(1)] by auto
  obtain va oa vb ob where v: "cnfexprEval cx l = Some va" "var2Number va = Some (a, oa)"
      "cnfexprEval cx r = Some vb" "var2Number vb = Some (b, ob)"
    using constVal_eval [OF ab(1) assms(2), of cx] constVal_eval [OF ab(2) assms(3), of cx] by blast
  obtain n where n: "arithEval aop va vb = Some n" "e = E_num n"
    using assms(1) unfolding fold_const [OF ab] arith_const [OF v(2,4)] by auto
  then show ?thesis using v by (auto simp: stands_for_def)
qed (simp add: stands_for_refl)

lemma eval_match: "ctx_ok cx \<Longrightarrow> length pm = N_PMASK \<Longrightarrow> prifilt_match pm (cx_msg cx) = Some (mbit pm cx)"
  by (simp add: prifilt_match_iff mbit_def ctx_ok_def N_PMASK_def)

lemma opt_of_Some: "cnfexprOptimize e = Some (e1, m) \<Longrightarrow> opt_of e = e1"
  by (simp add: opt_of_def)

lemma and_or_eval:
  "cnfexprEval cx (if x then E_and l r else E_or l r) = Some a \<longleftrightarrow>
     (\<exists>lv tl. cnfexprEval cx l = Some lv \<and> isTrue lv = Some tl \<and>
        (if tl = x then \<exists>rv tr. cnfexprEval cx r = Some rv \<and> isTrue rv = Some tr \<and> a = SNum (of_bool tr)
         else a = SNum (of_bool (\<not> x))))"
  by (cases x) (auto simp: bind_eq_Some_conv)

lemma and_or_operands:
  assumes "stands_for False cx l l1" "stands_for False cx r r1"
  shows "stands_for True cx (if x then E_and l r else E_or l r) (if x then E_and l1 r1 else E_or l1 r1)"
proof (rule stands_forI)
  fix a assume "cnfexprEval cx (if x then E_and l r else E_or l r) = Some a"
  then obtain lv tl where l: "cnfexprEval cx l = Some lv" "isTrue lv = Some tl"
    and r: "if tl = x then \<exists>rv tr. cnfexprEval cx r = Some rv \<and> isTrue rv = Some tr \<and> a = SNum (of_bool tr)
       else a = SNum (of_bool (\<not> x))" unfolding and_or_eval by blast
  obtain lv1 where l1: "cnfexprEval cx l1 = Some lv1" "isTrue lv1 = Some tl"
    using stands_truth [OF assms(1) l(1)] l(2) by auto
  have "if tl = x then \<exists>rv tr. cnfexprEval cx r1 = Some rv \<and> isTrue rv = Some tr \<and> a = SNum (of_bool tr)
       else a = SNum (of_bool (\<not> x))"
    using r stands_truth [OF assms(2)] by (auto split: if_splits) metis+
  with l1 have "cnfexprEval cx (if x then E_and l1 r1 else E_or l1 r1) = Some a" unfolding and_or_eval by blast
  then show "\<exists>b. cnfexprEval cx (if x then E_and l1 r1 else E_or l1 r1) = Some b \<and> same True a b" by simp
qed

lemma and_or_stands:
  assumes "cnfexprOptimize_AND_OR x l r = (e, m)" "ctx_ok cx"
    and "\<And>p a. prifilt_of l = Some (p, a) \<Longrightarrow> length p = N_PMASK" "\<And>p a. prifilt_of r = Some (p, a) \<Longrightarrow> length p = N_PMASK"
  shows "stands_for True cx (if x then E_and l r else E_or l r) e"
proof (cases "e = (if x then E_and l r else E_or l r)")
  case False
  then obtain pl al pr ar where p: "prifilt_of l = Some (pl, al)" "prifilt_of r = Some (pr, ar)"
      "e = E_fun (F_prifilt (prifiltCombine pl pr x)) al"
    using assms(1) by (auto simp: cnfexprOptimize_AND_OR_def split: option.splits if_splits)
  have n: "length pl = N_PMASK" "length pr = N_PMASK" using assms(3,4) p by blast+
  have lr: "l = E_fun (F_prifilt pl) al" "r = E_fun (F_prifilt pr) ar" using p prifilt_of_Some by blast+
  show ?thesis
    unfolding p(3) lr
    by (rule stands_forI)
      (auto simp: eval_match [OF assms(2)] n combine_length [OF n] mbit_combine [OF assms(2) n] same_def split: if_splits)
qed (simp add: stands_for_refl)

lemma not_operands:
  assumes "stands_for False cx r r1"
  shows "stands_for True cx (E_not r) (E_not r1)"
proof (rule stands_forI)
  fix a assume "cnfexprEval cx (E_not r) = Some a"
  then obtain rv tr where "cnfexprEval cx r = Some rv" "isTrue rv = Some tr" "a = SNum (of_bool (\<not> tr))"
    by (auto simp: bind_eq_Some_conv)
  then show "\<exists>b. cnfexprEval cx (E_not r1) = Some b \<and> same True a b" using stands_truth [OF assms] by fastforce
qed

lemma not_stands:
  assumes "cnfexprOptimize_NOT r = (e, m)" "ctx_ok cx" "\<And>p a. prifilt_of r = Some (p, a) \<Longrightarrow> length p = N_PMASK"
  shows "stands_for True cx (E_not r) e"
proof (cases "prifilt_of r")
  case (Some x)
  obtain pm al where p: "prifilt_of r = Some (pm, al)" using Some by (cases x) auto
  then have r: "r = E_fun (F_prifilt pm) al" and n: "length pm = N_PMASK" using prifilt_of_Some assms(3) by blast+
  have "e = E_fun (F_prifilt (prifiltInvert pm)) al" using assms(1) p by (simp add: cnfexprOptimize_NOT_def)
  moreover have "length (prifiltInvert pm) = N_PMASK" using n by (simp add: prifiltInvert_def)
  ultimately show ?thesis unfolding r
    by (auto simp: stands_for_def same_def eval_match [OF assms(2)] n mbit_invert [OF assms(2) n])
qed (use assms(1) in \<open>simp add: cnfexprOptimize_NOT_def stands_for_refl\<close>)

lemma weaken: "stands_for True cx e e1 \<Longrightarrow> stands_for v cx e e1"
  by (auto simp: stands_for_def same_def)

lemma cat_operands: "stands_for True cx l l1 \<Longrightarrow> stands_for True cx r r1 \<Longrightarrow> stands_for True cx (E_cat l r) (E_cat l1 r1)"
  by (auto simp: stands_True bind_eq_Some_conv)

lemma arith_operands:
  "stands_for True cx l l1 \<Longrightarrow> stands_for True cx r r1 \<Longrightarrow> stands_for True cx (E_arith aop l r) (E_arith aop l1 r1)"
  by (auto simp: stands_True bind_eq_Some_conv)

lemma optimize_stands:
  "cnfexprOptimize e = Some (e1, m) \<Longrightarrow> opt_ok v e \<Longrightarrow> ctx_ok cx \<Longrightarrow> stands_for v cx e e1"
proof (induction e arbitrary: v e1 m)
  case (E_cmp cop l r)
  obtain l1 ml r1 mr where o: "cnfexprOptimize l = Some (l1, ml)" "cnfexprOptimize r = Some (r1, mr)"
    using E_cmp.prems(1) by (auto simp: bind_eq_Some_conv)
  have ok: "opt_ok True l" "opt_ok True r" "cmp_ok v cop l1 r1" using E_cmp.prems(2) opt_of_Some o by auto
  have ops: "stands_for True cx (E_cmp cop l r) (E_cmp cop l1 r1)"
    using cmp_operands E_cmp.IH(1) [OF o(1) ok(1)] E_cmp.IH(2) [OF o(2) ok(2)] E_cmp.prems(3) opt_arr_of [OF o(2)] by blast
  show ?case
  proof (cases "cop = CMP_EQ \<or> cop = CMP_NE")
    case True
    then have "optCmpEq cop l1 r1 = Some (e1, m)" using E_cmp.prems(1) o by simp
    from cmp_eq_stands [OF True E_cmp.prems(3) ok(3) this] ops show ?thesis by (rule stands_for_trans [rotated])
  next
    case no: False
    show ?thesis
    proof (cases "cop = CMP_LE \<or> cop = CMP_GE \<or> cop = CMP_LT \<or> cop = CMP_GT")
      case True
      then have s: "six cop" "cnfexprOptimize_CMP_severity_facility cop l1 r1 = Some (e1, m)"
        using E_cmp.prems(1) o no by (auto simp: six_def)
      have p: "case l1 of E_var name \<Rightarrow> pri_cmp_ok v cop name r1 | _ \<Rightarrow> True" using ok(3) by (simp add: cmp_ok_def)
      have "stands_for v cx (E_cmp cop l1 r1) e1"
        by (rule stands_forI) (rule sevfac_step [OF s(1) E_cmp.prems(3) p s(2)])
      with ops show ?thesis by (rule stands_for_trans)
    next
      case False
      then have "e1 = E_cmp cop l1 r1" using E_cmp.prems(1) o no by simp
      then show ?thesis using weaken [OF ops] by simp
    qed
  qed
next
  case (E_or l r)
  obtain l1 ml r1 mr where o: "cnfexprOptimize l = Some (l1, ml)" "cnfexprOptimize r = Some (r1, mr)"
    "cnfexprOptimize_AND_OR False l1 r1 = (e1, m)" using E_or.prems(1) by (auto simp: bind_eq_Some_conv)
  have ok: "opt_ok False l" "opt_ok False r" using E_or.prems(2) by auto
  have "stands_for True cx (E_or l1 r1) e1"
    using and_or_stands [OF o(3) E_or.prems(3)] opt_mask [OF o(1) ok(1)] opt_mask [OF o(2) ok(2)] by simp
  moreover have "stands_for True cx (E_or l r) (E_or l1 r1)"
    using and_or_operands [of cx l l1 r r1 False] E_or.IH(1) [OF o(1) ok(1)] E_or.IH(2) [OF o(2) ok(2)] E_or.prems(3) by simp
  ultimately show ?case by (blast intro: weaken stands_for_trans)
next
  case (E_and l r)
  obtain l1 ml r1 mr where o: "cnfexprOptimize l = Some (l1, ml)" "cnfexprOptimize r = Some (r1, mr)"
    "cnfexprOptimize_AND_OR True l1 r1 = (e1, m)" using E_and.prems(1) by (auto simp: bind_eq_Some_conv)
  have ok: "opt_ok False l" "opt_ok False r" using E_and.prems(2) by auto
  have "stands_for True cx (E_and l1 r1) e1"
    using and_or_stands [OF o(3) E_and.prems(3)] opt_mask [OF o(1) ok(1)] opt_mask [OF o(2) ok(2)] by simp
  moreover have "stands_for True cx (E_and l r) (E_and l1 r1)"
    using and_or_operands [of cx l l1 r r1 True] E_and.IH(1) [OF o(1) ok(1)] E_and.IH(2) [OF o(2) ok(2)] E_and.prems(3) by simp
  ultimately show ?case by (blast intro: weaken stands_for_trans)
next
  case (E_not r)
  obtain r1 mr where o: "cnfexprOptimize r = Some (r1, mr)" "cnfexprOptimize_NOT r1 = (e1, m)"
    using E_not.prems(1) by (auto simp: bind_eq_Some_conv)
  have ok: "opt_ok False r" using E_not.prems(2) by simp
  have "stands_for True cx (E_not r1) e1" using not_stands [OF o(2) E_not.prems(3)] opt_mask [OF o(1) ok] by simp
  with not_operands [OF E_not.IH [OF o(1) ok E_not.prems(3)]] show ?case by (rule weaken [OF stands_for_trans])
next
  case (E_cat l r)
  obtain l1 ml r1 mr where o: "cnfexprOptimize l = Some (l1, ml)" "cnfexprOptimize r = Some (r1, mr)"
    "e1 = constFoldConcat l1 r1" using E_cat.prems(1) by (auto simp: bind_eq_Some_conv)
  have ok: "opt_ok True l" "opt_ok True r" using E_cat.prems(2) by auto
  have "stands_for True cx (E_cat l r) (E_cat l1 r1)"
    by (rule cat_operands [OF E_cat.IH(1) [OF o(1) ok(1) E_cat.prems(3)] E_cat.IH(2) [OF o(2) ok(2) E_cat.prems(3)]])
  moreover have "stands_for True cx (E_cat l1 r1) e1" using concat_stands [of cx l1 r1] o(3) by simp
  ultimately show ?case by (blast intro: weaken stands_for_trans)
next
  case (E_arith aop l r)
  obtain l1 ml r1 mr where o: "cnfexprOptimize l = Some (l1, ml)" "cnfexprOptimize r = Some (r1, mr)"
    "foldArith aop l1 r1 = Some e1" using E_arith.prems(1) by (auto simp: bind_eq_Some_conv)
  have ok: "opt_ok True l" "opt_ok True r" "plain_const l1" "plain_const r1"
    using E_arith.prems(2) opt_of_Some o by auto
  have "stands_for True cx (E_arith aop l r) (E_arith aop l1 r1)"
    by (rule arith_operands [OF E_arith.IH(1) [OF o(1) ok(1) E_arith.prems(3)] E_arith.IH(2) [OF o(2) ok(2) E_arith.prems(3)]])
  moreover have "stands_for True cx (E_arith aop l1 r1) e1" using arith_stands [OF o(3) ok(3,4)] by simp
  ultimately show ?case by (blast intro: weaken stands_for_trans)
qed (auto intro: stands_for_refl)

text \<open>
  Where the optimizer has a result, the optimized expression has a value wherever the original
  has one, and it is the same value, or as a truth value the same where only that is used.
\<close>

theorem optimizer_keeps_meaning:
  assumes "cnfexprOptimize e = Some (e1, m)" and "opt_ok v e" and "ctx_ok cx"
    and "cnfexprEval cx e = Some a"
  shows "\<exists>b. cnfexprEval cx e1 = Some b \<and> (if v then b = a else isTrue b = isTrue a)"
  using stands_forD [OF optimize_stands [OF assms(1-3)] assms(4)] by (simp add: same_def)

text \<open>
  An operand of an arithmetic or a concatenation that the optimizer replaces by another node is
  used after it was freed.
\<close>

theorem folding_uses_freed_operand:
  assumes "cnfexprOptimize l = Some (l1, True)" and "cnfexprOptimize r \<noteq> None"
  shows "cnfexprOptimize (E_arith aop l r) = None \<and> cnfexprOptimize (E_cat l r) = None"
  using assms by (auto simp: c_guard_def)

end
