(* ===== verification/Msg.thy ===== *)
theory Msg
  imports Prelude
begin

text \<open>
  Message objects (runtime/msg.c, runtime/msg.h). The queue, the rate limiter and the
  actions pass \<open>smsg_t *\<close> pointers around and share the objects by reference counting,
  so the model keeps a heap from pointers to objects. The record holds the members the
  modelled code reads; the reference count is the one \<open>MsgAddRef\<close> and \<open>msgDestruct\<close>
  maintain. A freed object is absent from the heap, so that any further use is undefined.
\<close>

section \<open>The object\<close>

datatype flowControl_t = eFLOWCTL_NO_DELAY | eFLOWCTL_LIGHT_DELAY | eFLOWCTL_FULL_DELAY

record smsg =
  flowCtlType :: flowControl_t
  iRefCount :: int
  iSeverity :: int
  msgFlags :: "32 word"
  iLenRawMsg :: int
  ttGenTime :: int
  msgMSG :: string        \<comment> \<open>what \<open>getMSG\<close> returns: the MSG part of the raw message\<close>
  msgHOSTNAME :: string
  msgPROCID :: string
  msgAPPNAME :: string

type_synonym msgptr = ptr
type_synonym msgheap = "msgptr \<rightharpoonup> smsg"

definition msg_MARK :: "32 word" where "msg_MARK = 0x008"
definition msg_NEEDS_PARSING :: "32 word" where "msg_NEEDS_PARSING = 0x010"

section \<open>Reference counting\<close>

definition MsgAddRef :: "msgheap \<Rightarrow> msgptr \<Rightarrow> msgheap option" where
  "MsgAddRef h p =
     (case h p of
        None \<Rightarrow> None
      | Some m \<Rightarrow> Some (h(p \<mapsto> m\<lparr>iRefCount := iRefCount m + 1\<rparr>)))"

text \<open>\<open>msgDestruct\<close> drops one reference and frees the object when it was the last one.\<close>

definition msgDestruct :: "msgheap \<Rightarrow> msgptr \<Rightarrow> msgheap option" where
  "msgDestruct h p =
     (case h p of
        None \<Rightarrow> None
      | Some m \<Rightarrow>
          (let currRefCount = iRefCount m - 1
           in if currRefCount = 0 then Some (h(p := None))
              else Some (h(p \<mapsto> m\<lparr>iRefCount := currRefCount\<rparr>))))"

definition MsgGetSeverity :: "msgheap \<Rightarrow> msgptr \<Rightarrow> (rsRetVal \<times> int) option" where
  "MsgGetSeverity h p = (case h p of None \<Rightarrow> None | Some m \<Rightarrow> Some (RS_RET_OK, iSeverity m))"

text \<open>
  \<open>MsgDup\<close>: \<open>new\<close> is the object \<open>msgConstructWithTime\<close> allocates, \<open>None\<close> when that or a copy
  of a member fails (the new object is destroyed again then). The copy counts one reference
  and has the constructor's flow control type.
\<close>

definition MsgDup :: "msgptr option \<Rightarrow> msgheap \<Rightarrow> msgptr \<Rightarrow> (msgptr option \<times> msgheap) option" where
  "MsgDup new h p =
     (case h p of
        None \<Rightarrow> None
      | Some m \<Rightarrow>
          (case new of
             None \<Rightarrow> Some (None, h)
           | Some q \<Rightarrow> Some (Some q, h(q \<mapsto> m\<lparr>flowCtlType := eFLOWCTL_NO_DELAY, iRefCount := 1\<rparr>))))"

section \<open>Ownership\<close>

text \<open>
  \<open>refs_ok own h\<close>: the references counted in \<open>own\<close> are exactly those the messages count. A
  message is live iff somebody holds it, and its counter is the number of times it is held: no
  holder has a dangling pointer, and no message is kept alive by a reference nobody holds.
\<close>

definition refs_ok :: "msgptr multiset \<Rightarrow> msgheap \<Rightarrow> bool" where
  "refs_ok own h \<longleftrightarrow>
     (\<forall>p. case h p of None \<Rightarrow> p \<notin># own | Some m \<Rightarrow> p \<in># own \<and> iRefCount m = int (count own p))"

lemma refs_okI:
  "(\<And>p. h p = None \<Longrightarrow> p \<notin># own) \<Longrightarrow>
   (\<And>p m. h p = Some m \<Longrightarrow> p \<in># own \<and> iRefCount m = int (count own p)) \<Longrightarrow> refs_ok own h"
  by (auto simp: refs_ok_def split: option.split)

lemma refs_okD:
  "refs_ok own h \<Longrightarrow> p \<in># own \<Longrightarrow> \<exists>m. h p = Some m \<and> iRefCount m = int (count own p)"
  unfolding refs_ok_def by (drule spec [of _ p]) (simp split: option.splits)

lemma refs_ok_held: "refs_ok own h \<Longrightarrow> h p = Some m \<Longrightarrow> p \<in># own \<and> iRefCount m = int (count own p)"
  unfolding refs_ok_def by (drule spec [of _ p]) simp

lemma refs_ok_dead: "refs_ok own h \<Longrightarrow> h p = None \<Longrightarrow> p \<notin># own"
  unfolding refs_ok_def by (drule spec [of _ p]) simp

lemma refs_ok_empty [simp]: "refs_ok {#} h \<longleftrightarrow> h = Map.empty"
  by (auto simp: refs_ok_def split: option.splits)

lemma refs_ok_live: "refs_ok own h \<Longrightarrow> p \<in># own \<Longrightarrow> \<exists>m. h p = Some m"
  by (auto dest: refs_okD)

text \<open>The counters determine the holders.\<close>

lemma refs_ok_unique: "refs_ok a h \<Longrightarrow> refs_ok b h \<Longrightarrow> a = b"
proof (rule multiset_eqI)
  fix p assume a: "refs_ok a h" and b: "refs_ok b h"
  show "count a p = count b p"
  proof (cases "h p")
    case None
    then show ?thesis using refs_ok_dead [OF a] refs_ok_dead [OF b] by (simp add: not_in_iff)
  next
    case (Some m)
    then show ?thesis using refs_ok_held [OF a Some] refs_ok_held [OF b Some] by simp
  qed
qed

lemma MsgAddRef_refs:
  assumes "refs_ok own h" and "p \<in># own"
  shows "\<exists>h'. MsgAddRef h p = Some h' \<and> refs_ok (add_mset p own) h'"
proof -
  from assms obtain m where m: "h p = Some m" "iRefCount m = int (count own p)"
    using refs_okD by blast
  have "refs_ok (add_mset p own) (h(p \<mapsto> m\<lparr>iRefCount := iRefCount m + 1\<rparr>))"
    by (rule refs_okI) (use assms m in \<open>auto split: if_splits dest: refs_ok_dead refs_ok_held\<close>)
  with m show ?thesis by (simp add: MsgAddRef_def)
qed

lemma msgDestruct_refs:
  assumes "refs_ok (add_mset p own) h"
  shows "\<exists>h'. msgDestruct h p = Some h' \<and> refs_ok own h'"
proof -
  from assms obtain m where m: "h p = Some m" "iRefCount m = int (count (add_mset p own) p)"
    using refs_okD [of "add_mset p own" h p] by auto
  note held = refs_ok_held [OF assms] and dead = refs_ok_dead [OF assms]
  show ?thesis
  proof (cases "iRefCount m - 1 = 0")
    case True
    with m have none: "p \<notin># own" by (simp add: not_in_iff)
    have "refs_ok own (h(p := None))"
    proof (rule refs_okI)
      show "q \<notin># own" if "(h(p := None)) q = None" for q
        using none dead [of q] that by (auto split: if_splits)
      show "q \<in># own \<and> iRefCount m' = int (count own q)" if "(h(p := None)) q = Some m'" for q m'
        using held [of q m'] that by (auto split: if_splits)
    qed
    with m True show ?thesis by (simp add: msgDestruct_def)
  next
    case False
    with m have pos: "p \<in># own" by (simp add: count_greater_zero_iff [symmetric] del: count_greater_zero_iff)
    have "refs_ok own (h(p \<mapsto> m\<lparr>iRefCount := iRefCount m - 1\<rparr>))"
    proof (rule refs_okI)
      show "q \<notin># own" if "(h(p \<mapsto> m\<lparr>iRefCount := iRefCount m - 1\<rparr>)) q = None" for q
        using dead [of q] that by (auto split: if_splits)
      show "q \<in># own \<and> iRefCount m' = int (count own q)"
        if "(h(p \<mapsto> m\<lparr>iRefCount := iRefCount m - 1\<rparr>)) q = Some m'" for q m'
        using held [of q m'] pos m(2) that by (cases "q = p") auto
    qed
    moreover have "msgDestruct h p = Some (h(p \<mapsto> m\<lparr>iRefCount := iRefCount m - 1\<rparr>))"
      using m(1) False by (simp add: msgDestruct_def Let_def)
    ultimately show ?thesis by blast
  qed
qed

text \<open>A new message, counted once, for a holder of its own.\<close>

lemma refs_ok_new:
  assumes "refs_ok own h" "h p = None" "iRefCount m = 1"
  shows "refs_ok (add_mset p own) (h(p \<mapsto> m))"
proof (rule refs_okI)
  have p: "count own p = 0" using refs_ok_dead [OF assms(1,2)] by (simp add: not_in_iff)
  show "q \<notin># add_mset p own" if "(h(p \<mapsto> m)) q = None" for q
    using refs_ok_dead [OF assms(1), of q] that by (auto split: if_splits)
  show "q \<in># add_mset p own \<and> iRefCount m' = int (count (add_mset p own) q)"
    if "(h(p \<mapsto> m)) q = Some m'" for q m'
    using refs_ok_held [OF assms(1), of q m'] assms(3) p that by (auto split: if_splits)
qed

text \<open>The counters are all a holder sees: any other member may change.\<close>

lemma refs_ok_cong:
  "refs_ok own h \<Longrightarrow> (\<And>p. map_option iRefCount (h' p) = map_option iRefCount (h p)) \<Longrightarrow> refs_ok own h'"
proof (rule refs_okI)
  assume a: "refs_ok own h" and e: "\<And>p. map_option iRefCount (h' p) = map_option iRefCount (h p)"
  show "p \<notin># own" if "h' p = None" for p
    using refs_ok_dead [OF a, of p] e [of p] that by simp
  show "p \<in># own \<and> iRefCount m = int (count own p)" if "h' p = Some m" for p m
    using e [of p] that refs_ok_held [OF a, of p] by (cases "h p") auto
qed

lemma MsgGetSeverity_refs:
  "refs_ok own h \<Longrightarrow> p \<in># own \<Longrightarrow> \<exists>sev. MsgGetSeverity h p = Some (RS_RET_OK, sev)"
  by (auto simp: MsgGetSeverity_def dest: refs_ok_live)

lemma MsgGetSeverity_ret: "MsgGetSeverity h p = Some (r, sev) \<Longrightarrow> r = RS_RET_OK"
  by (auto simp: MsgGetSeverity_def split: option.splits)

text \<open>Counting up or down leaves the rest of every message that stays alive.\<close>

lemma MsgAddRef_frame:
  "MsgAddRef h p = Some h' \<Longrightarrow> map_option iSeverity (h' q) = map_option iSeverity (h q)"
  by (auto simp: MsgAddRef_def split: option.splits)

lemma msgDestruct_frame:
  "msgDestruct h p = Some h' \<Longrightarrow> h' q \<noteq> None \<Longrightarrow> map_option iSeverity (h' q) = map_option iSeverity (h q)"
  by (auto simp: msgDestruct_def Let_def split: option.splits if_splits)

lemma MsgDup_refs:
  assumes "refs_ok own h" and "p \<in># own" and "\<forall>q. new = Some q \<longrightarrow> h q = None"
  shows "\<exists>r h'. MsgDup new h p = Some (r, h') \<and> r = new \<and>
    refs_ok (own + (case new of None \<Rightarrow> {#} | Some q \<Rightarrow> {#q#})) h' \<and>
    (new = None \<longrightarrow> h' = h) \<and>
    (\<forall>q. new = Some q \<longrightarrow> h' = h(q \<mapsto> (the (h p))\<lparr>flowCtlType := eFLOWCTL_NO_DELAY, iRefCount := 1\<rparr>))"
proof -
  from assms(1,2) obtain m where m: "h p = Some m" using refs_ok_live by blast
  show ?thesis
  proof (cases new)
    case None
    with m assms(1) show ?thesis by (simp add: MsgDup_def)
  next
    case (Some q)
    with assms(3) have "h q = None" by simp
    then have "refs_ok (add_mset q own) (h(q \<mapsto> m\<lparr>flowCtlType := eFLOWCTL_NO_DELAY, iRefCount := 1\<rparr>))"
      by (intro refs_ok_new [OF assms(1)]) simp_all
    with m Some show ?thesis by (simp add: MsgDup_def)
  qed
qed

end
