(* ===== verification/QueueDriver.thy ===== *)
theory QueueDriver
  imports Msg
begin

text \<open>
  The type-specific handlers of the in-memory queues (runtime/queue.c): the fixed array,
  a ring buffer with separate dequeue and delete positions, and the linked list, a chain of
  heap nodes with a dequeue and a delete root. The C queue object reaches them through the
  function pointers \<open>qConstruct\<close>, \<open>qAdd\<close>, \<open>qDeq\<close>, \<open>qDel\<close>; here they are the fields of
  \<open>qdriver\<close>, and the locale \<open>queue_driver\<close> states what the generic queue code relies on.

  Deletion is two-phase: \<open>qDeq\<close> hands an element out but keeps it in the store, \<open>qDel\<close>
  removes the oldest one later, when its batch was processed.
\<close>

section \<open>The handler table\<close>

record 's qdriver =
  qConstruct :: "int \<Rightarrow> bool \<Rightarrow> 's \<Rightarrow> rsRetVal \<times> 's"
  qAdd :: "int \<Rightarrow> bool \<Rightarrow> 's \<Rightarrow> msgptr \<Rightarrow> (rsRetVal \<times> 's) option"
  qDeq :: "int \<Rightarrow> 's \<Rightarrow> (rsRetVal \<times> msgptr \<times> 's) option"
  qDel :: "int \<Rightarrow> 's \<Rightarrow> (rsRetVal \<times> 's) option"

text \<open>
  The first argument is \<open>pThis->iMaxQueueSize\<close>, which the array handlers read; the boolean
  is whether \<open>MALLOC\<close> succeeds. \<open>rep mx s xs k\<close>: the store \<open>s\<close> holds the elements
  \<open>xs\<close>, oldest first, of which the first \<open>k\<close> were dequeued but not yet deleted.
\<close>

locale queue_driver =
  fixes drv :: "'s qdriver"
    and rep :: "int \<Rightarrow> 's \<Rightarrow> msgptr list \<Rightarrow> nat \<Rightarrow> bool"
    and room :: "int \<Rightarrow> nat \<Rightarrow> bool"
  assumes rep_construct:
      "qConstruct drv mx ok s = (RS_RET_OK, s') \<Longrightarrow> 0 \<le> mx \<Longrightarrow> rep mx s' [] 0"
    and rep_le: "rep mx s xs k \<Longrightarrow> k \<le> length xs"
    and rep_add:
      "rep mx s xs k \<Longrightarrow> room mx (length xs) \<Longrightarrow>
       \<exists>r s'. qAdd drv mx ok s m = Some (r, s') \<and>
         (r = RS_RET_OK \<and> rep mx s' (xs @ [m]) k \<or> r = RS_RET_OUT_OF_MEMORY \<and> s' = s \<and> \<not> ok)"
    and rep_deq:
      "rep mx s xs k \<Longrightarrow> k < length xs \<Longrightarrow>
       \<exists>s'. qDeq drv mx s = Some (RS_RET_OK, xs ! k, s') \<and> rep mx s' xs (Suc k)"
    and rep_del:
      "rep mx s xs k \<Longrightarrow> 0 < k \<Longrightarrow>
       \<exists>s'. qDel drv mx s = Some (RS_RET_OK, s') \<and> rep mx s' (tl xs) (k - 1)"
    and rep_room: "rep mx s xs k \<Longrightarrow> mx = 0 \<or> int (length xs) < mx \<Longrightarrow> room mx (length xs)"

section \<open>Fixed array\<close>

record farray =
  deqhead :: nat
  head :: nat
  tail :: nat
  pBuf :: "msgptr option list"

definition qConstructFixedArray :: "int \<Rightarrow> bool \<Rightarrow> farray \<Rightarrow> rsRetVal \<times> farray" where
  "qConstructFixedArray iMaxQueueSize mallocOK s =
     (if iMaxQueueSize = 0 then (RS_RET_QSIZE_ZERO, s)
      else if \<not> mallocOK then (RS_RET_OUT_OF_MEMORY, s)
      else (RS_RET_OK,
        s\<lparr>pBuf := replicate (nat iMaxQueueSize) None, deqhead := 0, head := 0, tail := 0\<rparr>))"

definition qAddFixedArray :: "int \<Rightarrow> bool \<Rightarrow> farray \<Rightarrow> msgptr \<Rightarrow> (rsRetVal \<times> farray) option" where
  "qAddFixedArray iMaxQueueSize mallocOK s m =
     do {
       b \<leftarrow> c_set (pBuf s) (tail s) (Some m);
       let t = tail s + 1;
       Some (RS_RET_OK, s\<lparr>pBuf := b, tail := (if int t = iMaxQueueSize then 0 else t)\<rparr>)
     }"

definition qDeqFixedArray :: "int \<Rightarrow> farray \<Rightarrow> (rsRetVal \<times> msgptr \<times> farray) option" where
  "qDeqFixedArray iMaxQueueSize s =
     do {
       cell \<leftarrow> c_get (pBuf s) (deqhead s);
       out \<leftarrow> cell;
       let d = deqhead s + 1;
       Some (RS_RET_OK, out, s\<lparr>deqhead := (if int d = iMaxQueueSize then 0 else d)\<rparr>)
     }"

definition qDelFixedArray :: "int \<Rightarrow> farray \<Rightarrow> (rsRetVal \<times> farray) option" where
  "qDelFixedArray iMaxQueueSize s =
     (let h = head s + 1
      in Some (RS_RET_OK, s\<lparr>head := (if int h = iMaxQueueSize then 0 else h)\<rparr>))"

definition farray_driver :: "farray qdriver" where
  "farray_driver =
     \<lparr>qConstruct = qConstructFixedArray, qAdd = qAddFixedArray,
      qDeq = qDeqFixedArray, qDel = qDelFixedArray\<rparr>"

definition farray_rep :: "int \<Rightarrow> farray \<Rightarrow> msgptr list \<Rightarrow> nat \<Rightarrow> bool" where
  "farray_rep mx s xs k \<longleftrightarrow>
     0 < mx \<and> length (pBuf s) = nat mx \<and> head s < nat mx \<and>
     k \<le> length xs \<and> length xs \<le> nat mx \<and>
     deqhead s = (head s + k) mod nat mx \<and>
     tail s = (head s + length xs) mod nat mx \<and>
     (\<forall>i < length xs. pBuf s ! ((head s + i) mod nat mx) = Some (xs ! i))"

lemma ring_succ: "h < n \<Longrightarrow> (if Suc h = n then 0 else Suc h) = Suc h mod n"
  by (cases "Suc h = n") auto

lemma ring_succ_int: "0 < mx \<Longrightarrow> h < nat mx \<Longrightarrow>
    (if int (Suc h) = mx then 0 else Suc h) = Suc h mod nat mx"
  by (cases "Suc h = nat mx") auto

lemma ring_inj:
  assumes "(h + i) mod n = (h + j) mod n" and "i < n" and "j < (n::nat)"
  shows "i = j"
proof -
  from assms(1) have "i mod n = j mod n"
    by (simp add: nat_mod_eq_iff)
  with assms(2,3) show ?thesis by simp
qed

lemma farray_rep_construct:
  assumes "qConstructFixedArray mx ok s = (RS_RET_OK, s')" and "0 \<le> mx"
  shows "farray_rep mx s' [] 0"
  using assms by (auto simp: qConstructFixedArray_def farray_rep_def split: if_splits)

lemma farray_rep_add:
  assumes r: "farray_rep mx s xs k" and room: "int (length xs) < mx"
  shows "\<exists>r s'. qAddFixedArray mx ok s m = Some (r, s') \<and> r = RS_RET_OK \<and> farray_rep mx s' (xs @ [m]) k"
proof -
  let ?n = "nat mx"
  let ?t = "(head s + length xs) mod ?n"
  from r room have n: "0 < mx" "0 < ?n" "length xs < ?n" "length (pBuf s) = ?n" "tail s = ?t"
    by (auto simp: farray_rep_def)
  then have t: "tail s < ?n" by simp
  let ?s' = "s\<lparr>pBuf := (pBuf s)[?t := Some m], tail := Suc ?t mod ?n\<rparr>"
  have "qAddFixedArray mx ok s m = Some (RS_RET_OK, ?s')"
    using n(4) t ring_succ_int [OF n(1) t] n(5) [symmetric]
    by (auto simp: qAddFixedArray_def Let_def)
  moreover have "farray_rep mx ?s' (xs @ [m]) k"
  proof -
    have cells: "(pBuf s)[?t := Some m] ! ((head s + i) mod ?n) = Some ((xs @ [m]) ! i)"
      if i: "i < Suc (length xs)" for i
    proof (cases "i = length xs")
      case True
      with n t show ?thesis by (simp add: nth_append)
    next
      case False
      with i have i': "i < length xs" by simp
      have "(head s + i) mod ?n \<noteq> ?t"
      proof
        assume "(head s + i) mod ?n = ?t"
        then have "i = length xs" by (rule ring_inj) (use i' n in simp_all)
        with False show False by simp
      qed
      with i' r show ?thesis by (simp add: nth_append farray_rep_def)
    qed
    show ?thesis
      using r n cells by (auto simp: farray_rep_def mod_Suc_eq)
  qed
  ultimately show ?thesis by blast
qed

lemma farray_rep_deq:
  assumes r: "farray_rep mx s xs k" and k: "k < length xs"
  shows "\<exists>s'. qDeqFixedArray mx s = Some (RS_RET_OK, xs ! k, s') \<and> farray_rep mx s' xs (Suc k)"
proof -
  let ?n = "nat mx"
  from r have n: "0 < mx" "length (pBuf s) = ?n" "deqhead s = (head s + k) mod ?n"
    by (auto simp: farray_rep_def)
  then have d: "deqhead s < ?n" by simp
  have cell: "pBuf s ! deqhead s = Some (xs ! k)"
    using r k by (auto simp: farray_rep_def)
  have "qDeqFixedArray mx s = Some (RS_RET_OK, xs ! k, s\<lparr>deqhead := Suc (deqhead s) mod ?n\<rparr>)"
    using n(2) d cell ring_succ_int [OF n(1) d] by (auto simp: qDeqFixedArray_def Let_def)
  moreover have "farray_rep mx (s\<lparr>deqhead := Suc (deqhead s) mod ?n\<rparr>) xs (Suc k)"
    using r k by (auto simp: farray_rep_def mod_Suc_eq)
  ultimately show ?thesis by blast
qed

lemma farray_rep_del:
  assumes r: "farray_rep mx s xs k" and k: "0 < k"
  shows "\<exists>s'. qDelFixedArray mx s = Some (RS_RET_OK, s') \<and> farray_rep mx s' (tl xs) (k - 1)"
proof -
  let ?n = "nat mx"
  from r have n: "0 < mx" "head s < ?n" by (auto simp: farray_rep_def)
  from r k obtain x ys where xs: "xs = x # ys" by (cases xs) (auto simp: farray_rep_def)
  from k obtain j where j: "k = Suc j" by (cases k) auto
  have "qDelFixedArray mx s = Some (RS_RET_OK, s\<lparr>head := Suc (head s) mod ?n\<rparr>)"
    using n ring_succ_int [of mx "head s"] by (simp add: qDelFixedArray_def Let_def)
  moreover have "farray_rep mx (s\<lparr>head := Suc (head s) mod ?n\<rparr>) (tl xs) (k - 1)"
  proof -
    have cells: "pBuf s ! ((Suc (head s) mod ?n + i) mod ?n) = Some (ys ! i)" if "i < length ys" for i
    proof -
      have "(Suc (head s) mod ?n + i) mod ?n = (head s + Suc i) mod ?n"
        by (simp add: mod_add_left_eq)
      then show ?thesis using r xs that by (auto simp: farray_rep_def)
    qed
    show ?thesis
      using r j xs n cells by (auto simp: farray_rep_def mod_add_left_eq)
  qed
  ultimately show ?thesis by blast
qed

interpretation fa: queue_driver farray_driver farray_rep "\<lambda>mx n. int n < mx"
proof unfold_locales
  show "farray_rep mx s' [] 0"
    if "qConstruct farray_driver mx ok s = (RS_RET_OK, s')" "0 \<le> mx" for mx ok s s'
    using that by (simp add: farray_driver_def farray_rep_construct)
  show "k \<le> length xs" if "farray_rep mx s xs k" for mx s xs k
    using that by (simp add: farray_rep_def)
  show "\<exists>r s'. qAdd farray_driver mx ok s m = Some (r, s') \<and>
      (r = RS_RET_OK \<and> farray_rep mx s' (xs @ [m]) k \<or> r = RS_RET_OUT_OF_MEMORY \<and> s' = s \<and> \<not> ok)"
    if "farray_rep mx s xs k" "int (length xs) < mx" for mx s xs k ok m
    using farray_rep_add [OF that, of ok m] by (auto simp: farray_driver_def)
  show "int (length xs) < mx" if "farray_rep mx s xs k" "mx = 0 \<or> int (length xs) < mx" for mx s xs k
    using that by (auto simp: farray_rep_def)
qed (use farray_rep_deq farray_rep_del in \<open>simp_all add: farray_driver_def\<close>)

section \<open>Linked list\<close>

text \<open>
  The nodes live in a heap of their own; \<open>fresh\<close> is the address the next \<open>MALLOC\<close>
  returns. \<open>free\<close> removes a node, so a stale pointer to it is undefined to follow.
\<close>

record qLinkedList =
  ll_pNext :: "ptr option"
  ll_pMsg :: msgptr

record linklist =
  pDeqRoot :: "ptr option"
  pDelRoot :: "ptr option"
  pLast :: "ptr option"
  nodes :: "ptr \<rightharpoonup> qLinkedList"
  fresh :: ptr

definition qConstructLinkedList :: "int \<Rightarrow> bool \<Rightarrow> linklist \<Rightarrow> rsRetVal \<times> linklist" where
  "qConstructLinkedList iMaxQueueSize mallocOK s =
     (RS_RET_OK, s\<lparr>pDeqRoot := None, pDelRoot := None, pLast := None\<rparr>)"

definition qAddLinkedList :: "int \<Rightarrow> bool \<Rightarrow> linklist \<Rightarrow> msgptr \<Rightarrow> (rsRetVal \<times> linklist) option" where
  "qAddLinkedList iMaxQueueSize mallocOK s m =
     (if \<not> mallocOK then Some (RS_RET_OUT_OF_MEMORY, s)
      else
        (let pEntry = fresh s;
             s1 = s\<lparr>nodes := (nodes s)(pEntry \<mapsto> \<lparr>ll_pNext = None, ll_pMsg = m\<rparr>), fresh := Suc pEntry\<rparr>
         in do {
           s2 \<leftarrow> (if pDelRoot s1 = None
                 then Some (s1\<lparr>pDelRoot := Some pEntry, pDeqRoot := Some pEntry, pLast := Some pEntry\<rparr>)
                 else do {
                   l \<leftarrow> pLast s1;
                   n \<leftarrow> nodes s1 l;
                   Some (s1\<lparr>nodes := (nodes s1)(l \<mapsto> n\<lparr>ll_pNext := Some pEntry\<rparr>), pLast := Some pEntry\<rparr>)
                 });
           Some (RS_RET_OK, if pDeqRoot s2 = None then s2\<lparr>pDeqRoot := Some pEntry\<rparr> else s2)
         }))"

definition qDeqLinkedList :: "int \<Rightarrow> linklist \<Rightarrow> (rsRetVal \<times> msgptr \<times> linklist) option" where
  "qDeqLinkedList iMaxQueueSize s =
     do {
       pEntry \<leftarrow> pDeqRoot s;
       n \<leftarrow> nodes s pEntry;
       Some (RS_RET_OK, ll_pMsg n, s\<lparr>pDeqRoot := ll_pNext n\<rparr>)
     }"

text \<open>\<open>free(NULL)\<close> does nothing; any other pointer must be allocated.\<close>

definition free_node :: "linklist \<Rightarrow> ptr option \<Rightarrow> linklist option" where
  "free_node s p =
     (case p of
        None \<Rightarrow> Some s
      | Some a \<Rightarrow> (case nodes s a of None \<Rightarrow> None | Some _ \<Rightarrow> Some (s\<lparr>nodes := (nodes s)(a := None)\<rparr>)))"

definition qDelLinkedList :: "int \<Rightarrow> linklist \<Rightarrow> (rsRetVal \<times> linklist) option" where
  "qDelLinkedList iMaxQueueSize s =
     (let pEntry = pDelRoot s
      in do {
        s1 \<leftarrow> (if pDelRoot s = pLast s
              then Some (s\<lparr>pDelRoot := None, pDeqRoot := None, pLast := None\<rparr>)
              else do { e \<leftarrow> pEntry; n \<leftarrow> nodes s e; Some (s\<lparr>pDelRoot := ll_pNext n\<rparr>) });
        s2 \<leftarrow> free_node s1 pEntry;
        Some (RS_RET_OK, s2)
      })"

definition linklist_driver :: "linklist qdriver" where
  "linklist_driver =
     \<lparr>qConstruct = qConstructLinkedList, qAdd = qAddLinkedList,
      qDeq = qDeqLinkedList, qDel = qDelLinkedList\<rparr>"

text \<open>\<open>chain ns p ps\<close>: following \<open>pNext\<close> from \<open>p\<close> visits exactly the nodes \<open>ps\<close>, then NULL.\<close>

fun chain :: "(ptr \<rightharpoonup> qLinkedList) \<Rightarrow> ptr option \<Rightarrow> ptr list \<Rightarrow> bool" where
  "chain ns p [] \<longleftrightarrow> p = None"
| "chain ns p (a # ps) \<longleftrightarrow> p = Some a \<and> (\<exists>n. ns a = Some n \<and> chain ns (ll_pNext n) ps)"

definition ll_rep :: "linklist \<Rightarrow> ptr list \<Rightarrow> msgptr list \<Rightarrow> nat \<Rightarrow> bool" where
  "ll_rep s ps xs k \<longleftrightarrow>
     chain (nodes s) (pDelRoot s) ps \<and> distinct ps \<and> length ps = length xs \<and>
     (\<forall>i < length xs. map_option ll_pMsg (nodes s (ps ! i)) = Some (xs ! i)) \<and>
     (\<forall>p \<in> set ps. p < fresh s) \<and>
     pLast s = (if ps = [] then None else Some (last ps)) \<and>
     pDeqRoot s = (if k < length ps then Some (ps ! k) else None) \<and> k \<le> length xs"

definition linklist_rep :: "int \<Rightarrow> linklist \<Rightarrow> msgptr list \<Rightarrow> nat \<Rightarrow> bool" where
  "linklist_rep mx s xs k \<longleftrightarrow> (\<exists>ps. ll_rep s ps xs k)"

lemma chain_nth:
  "chain ns p ps \<Longrightarrow> i < length ps \<Longrightarrow>
   \<exists>n. ns (ps ! i) = Some n \<and> ll_pNext n = (if Suc i < length ps then Some (ps ! Suc i) else None)"
proof (induction ps arbitrary: p i)
  case Nil
  then show ?case by simp
next
  case (Cons a ps)
  then obtain n where n: "ns a = Some n" "chain ns (ll_pNext n) ps" by auto
  show ?case
  proof (cases i)
    case 0
    with n show ?thesis by (cases ps) auto
  next
    case (Suc j)
    with Cons.prems Cons.IH [OF n(2), of j] show ?thesis by auto
  qed
qed

lemma chain_upd_outside: "a \<notin> set ps \<Longrightarrow> chain (ns(a := v)) p ps = chain ns p ps"
  by (induction ps arbitrary: p) auto

lemma chain_snoc:
  assumes "chain ns p ps" and "ps \<noteq> []" and "distinct ps" and "e \<notin> set ps"
    and "ns (last ps) = Some n" and "ns e = Some \<lparr>ll_pNext = None, ll_pMsg = m\<rparr>"
  shows "chain (ns(last ps \<mapsto> n\<lparr>ll_pNext := Some e\<rparr>)) p (ps @ [e])"
  using assms
proof (induction ps arbitrary: p)
  case Nil
  then show ?case by simp
next
  case (Cons a ps)
  then obtain na where na: "ns a = Some na" "chain ns (ll_pNext na) ps" "p = Some a" by auto
  show ?case
  proof (cases "ps = []")
    case True
    with Cons.prems na show ?thesis by auto
  next
    case False
    let ?ns = "ns(last ps \<mapsto> n\<lparr>ll_pNext := Some e\<rparr>)"
    from False Cons.prems have "a \<noteq> last ps" by auto
    with na have a: "?ns a = Some na" by simp
    have "chain ?ns (ll_pNext na) (ps @ [e])"
      by (rule Cons.IH [OF na(2)]) (use Cons.prems False in auto)
    with a have "chain ?ns p (a # ps @ [e])" unfolding na(3) chain.simps by blast
    with False show ?thesis by (simp only: append_Cons last.simps if_False)
  qed
qed

lemma linklist_rep_add:
  assumes "linklist_rep mx s xs k"
  shows "\<exists>r s'. qAddLinkedList mx ok s m = Some (r, s') \<and>
    (r = RS_RET_OK \<and> linklist_rep mx s' (xs @ [m]) k \<or> r = RS_RET_OUT_OF_MEMORY \<and> s' = s \<and> \<not> ok)"
proof (cases ok)
  case False
  then show ?thesis by (simp add: qAddLinkedList_def)
next
  case True
  from assms obtain ps where r: "ll_rep s ps xs k" by (auto simp: linklist_rep_def)
  let ?e = "fresh s"
  let ?node = "\<lparr>ll_pNext = None, ll_pMsg = m\<rparr>"
  show ?thesis
  proof (cases "ps = []")
    case ps: True
    from r ps have del: "pDelRoot s = None" "xs = []" "k = 0" by (auto simp: ll_rep_def)
    let ?s' = "s\<lparr>nodes := (nodes s)(?e \<mapsto> ?node), fresh := Suc ?e, pDelRoot := Some ?e,
        pDeqRoot := Some ?e, pLast := Some ?e\<rparr>"
    have "qAddLinkedList mx ok s m = Some (RS_RET_OK, ?s')"
      using True del by (simp add: qAddLinkedList_def Let_def)
    moreover have "ll_rep ?s' [?e] [m] 0" by (simp add: ll_rep_def)
    ultimately show ?thesis using del by (auto simp: linklist_rep_def)
  next
    case ps: False
    have last_in: "last ps \<in> set ps" using ps by simp
    from r ps have del: "pDelRoot s \<noteq> None" "pLast s = Some (last ps)" by (cases ps; auto simp: ll_rep_def)+
    from r have e: "?e \<notin> set ps" by (auto simp: ll_rep_def)
    obtain n where n: "nodes s (last ps) = Some n"
      using chain_nth [of "nodes s" "pDelRoot s" ps "length ps - 1"] r ps
      by (auto simp: ll_rep_def last_conv_nth)
    let ?ns = "(nodes s)(?e \<mapsto> ?node, last ps \<mapsto> n\<lparr>ll_pNext := Some ?e\<rparr>)"
    let ?s' = "s\<lparr>nodes := ?ns, fresh := Suc ?e, pLast := Some ?e,
        pDeqRoot := (if pDeqRoot s = None then Some ?e else pDeqRoot s)\<rparr>"
    have ne: "last ps \<noteq> ?e" using e last_in by auto
    have run: "qAddLinkedList mx ok s m = Some (RS_RET_OK, ?s')"
      using True del n ne by (auto simp: qAddLinkedList_def Let_def)
    have chain': "chain ?ns (pDelRoot s) (ps @ [?e])"
      using chain_snoc [of "(nodes s)(?e \<mapsto> ?node)" "pDelRoot s" ps ?e n m] r ps e n ne
      by (simp add: ll_rep_def chain_upd_outside)
    have msgs: "map_option ll_pMsg (?ns ((ps @ [?e]) ! i)) = Some ((xs @ [m]) ! i)"
      if "i < Suc (length xs)" for i
    proof (cases "i < length xs")
      case True
      with r have "map_option ll_pMsg (nodes s (ps ! i)) = Some (xs ! i)" "ps ! i \<noteq> ?e"
        using e by (auto simp: ll_rep_def) (metis nth_mem)
      moreover have "length ps = length xs" using r by (simp add: ll_rep_def)
      ultimately show ?thesis using True n by (auto simp: nth_append)
    next
      case False
      with that have "i = length xs" by simp
      moreover have "length ps = length xs" using r by (simp add: ll_rep_def)
      ultimately show ?thesis using ne by (simp add: nth_append)
    qed
    have "ll_rep ?s' (ps @ [?e]) (xs @ [m]) k"
      using r chain' msgs e by (auto simp: ll_rep_def nth_append)
    with run show ?thesis unfolding linklist_rep_def by blast
  qed
qed

lemma linklist_rep_deq:
  assumes "linklist_rep mx s xs k" and "k < length xs"
  shows "\<exists>s'. qDeqLinkedList mx s = Some (RS_RET_OK, xs ! k, s') \<and> linklist_rep mx s' xs (Suc k)"
proof -
  from assms obtain ps where r: "ll_rep s ps xs k" by (auto simp: linklist_rep_def)
  with assms(2) have k: "k < length ps" "pDeqRoot s = Some (ps ! k)" by (auto simp: ll_rep_def)
  from r have ch: "chain (nodes s) (pDelRoot s) ps" by (simp add: ll_rep_def)
  from chain_nth [OF ch k(1)] obtain n where n: "nodes s (ps ! k) = Some n"
      "ll_pNext n = (if Suc k < length ps then Some (ps ! Suc k) else None)" by blast
  have "ll_pMsg n = xs ! k" using r n assms(2) by (auto simp: ll_rep_def)
  with k n have "qDeqLinkedList mx s = Some (RS_RET_OK, xs ! k, s\<lparr>pDeqRoot := ll_pNext n\<rparr>)"
    by (simp add: qDeqLinkedList_def)
  moreover have "ll_rep (s\<lparr>pDeqRoot := ll_pNext n\<rparr>) ps xs (Suc k)"
    using r n assms(2) by (auto simp: ll_rep_def)
  ultimately show ?thesis by (auto simp: linklist_rep_def)
qed

lemma linklist_rep_del:
  assumes "linklist_rep mx s xs k" and "0 < k"
  shows "\<exists>s'. qDelLinkedList mx s = Some (RS_RET_OK, s') \<and> linklist_rep mx s' (tl xs) (k - 1)"
proof -
  from assms obtain ps where r: "ll_rep s ps xs k" by (auto simp: linklist_rep_def)
  with assms(2) have "ps \<noteq> []" by (auto simp: ll_rep_def)
  then obtain a qs where ps: "ps = a # qs" by (cases ps) auto
  with r obtain x ys where xs: "xs = x # ys" by (cases xs) (auto simp: ll_rep_def)
  from r ps obtain n where n: "nodes s a = Some n" "chain (nodes s) (ll_pNext n) qs" "pDelRoot s = Some a"
    by (auto simp: ll_rep_def)
  from assms(2) obtain j where j: "k = Suc j" by (cases k) auto
  have a: "a \<notin> set qs" using r ps by (auto simp: ll_rep_def)
  show ?thesis
  proof (cases "qs = []")
    case True
    let ?s' = "s\<lparr>pDelRoot := None, pDeqRoot := None, pLast := None, nodes := (nodes s)(a := None)\<rparr>"
    have "qDelLinkedList mx s = Some (RS_RET_OK, ?s')"
      using r ps n True by (simp add: qDelLinkedList_def free_node_def ll_rep_def)
    moreover have "ll_rep ?s' [] [] 0" by (simp add: ll_rep_def)
    moreover have "ys = []" "j = 0" using r ps xs True j by (auto simp: ll_rep_def)
    ultimately show ?thesis using xs j by (auto simp: linklist_rep_def)
  next
    case False
    let ?s' = "s\<lparr>pDelRoot := ll_pNext n, nodes := (nodes s)(a := None)\<rparr>"
    have "pLast s \<noteq> Some a" using r ps False a by (auto simp: ll_rep_def)
    then have "qDelLinkedList mx s = Some (RS_RET_OK, ?s')"
      using n by (auto simp: qDelLinkedList_def free_node_def)
    moreover have "ll_rep ?s' qs ys j"
    proof -
      have msgs: "map_option ll_pMsg (((nodes s)(a := None)) (qs ! i)) = Some (ys ! i)" if "i < length ys" for i
      proof -
        from r have all: "\<forall>i < length xs. map_option ll_pMsg (nodes s (ps ! i)) = Some (xs ! i)"
          and len: "length ps = length xs" by (auto simp: ll_rep_def)
        from all [rule_format, of "Suc i"] that ps xs
        have "map_option ll_pMsg (nodes s (qs ! i)) = Some (ys ! i)" by simp
        moreover have "qs ! i \<noteq> a" using a that len ps xs by (metis length_Cons nat.inject nth_mem)
        ultimately show ?thesis by simp
      qed
      show ?thesis
        using r ps xs n False a j msgs by (auto simp: ll_rep_def chain_upd_outside)
    qed
    ultimately show ?thesis using xs j by (auto simp: linklist_rep_def)
  qed
qed

interpretation ll: queue_driver linklist_driver linklist_rep "\<lambda>mx n. True"
proof unfold_locales
  show "linklist_rep mx s' [] 0"
    if "qConstruct linklist_driver mx ok s = (RS_RET_OK, s')" "0 \<le> mx" for mx ok s s'
    using that by (auto simp: linklist_driver_def qConstructLinkedList_def linklist_rep_def ll_rep_def)
  show "k \<le> length xs" if "linklist_rep mx s xs k" for mx s xs k
    using that by (auto simp: linklist_rep_def ll_rep_def)
qed (use linklist_rep_add linklist_rep_deq linklist_rep_del in \<open>simp_all add: linklist_driver_def\<close>)

end
