(* ===== verification/Queue.thy ===== *)
theory Queue
  imports QueueDriver
begin

text \<open>
  The generic queue object (runtime/queue.c) over a memory store: counters, water marks,
  the discard check, flow control and the enqueue path. The disk store is not modelled: the
  branches the code takes for \<open>QUEUETYPE_DISK\<close> alone are absent, and the functions below
  are those the code runs for the array and the linked list.
\<close>

section \<open>The object\<close>

datatype queueType_t =
  QUEUETYPE_FIXED_ARRAY | QUEUETYPE_LINKEDLIST | QUEUETYPE_DISK | QUEUETYPE_DIRECT

type_synonym qDeqID = "64 word"

text \<open>
  \<open>pszFilePrefix != NULL\<close> and \<open>pqParent != NULL\<close> are the booleans \<open>hasFilePrefix\<close> and
  \<open>isChild\<close>; \<open>msgCnt\<close> is the function-static sampling counter of \<open>qqueueAdd\<close>;
  \<open>GatherStats\<close> is the global that switches the statistics counters on.
\<close>

record 's qqueue =
  qType :: queueType_t
  nLogDeq :: int
  bEnqOnly :: bool
  iQueueSize :: int
  iMaxQueueSize :: int
  iNumWorkerThreads :: int
  iMinMsgsPerWrkr :: int
  iUpdsSincePersist :: int
  iPersistUpdCnt :: int
  iHighWtrMrk :: int
  iLowWtrMrk :: int
  iDiscardMrk :: int
  iFullDlyMrk :: int
  iLightDlyMrk :: int
  iDiscardSeverity :: int
  toDeleteLst :: "(qDeqID \<times> nat) list"
  toEnq :: int
  iDeqBatchSize :: int
  iDeqtWinFromHr :: int
  iDeqtWinToHr :: int
  hasFilePrefix :: bool
  sizeOnDiskMax :: int
  deqIDAdd :: qDeqID
  deqIDDel :: qDeqID
  bIsDA :: bool
  isChild :: bool
  sizeOnDisk :: int
  ctrEnqueued :: nat
  ctrFull :: nat
  ctrFDscrd :: nat
  ctrNFDscrd :: nat
  ctrMaxqsize :: int
  iSmpInterval :: int
  msgCnt :: int
  GatherStats :: bool
  tVars :: 's

type_synonym 's qworld = "'s qqueue \<times> msgheap"

definition statsInc :: "'s qqueue \<Rightarrow> nat \<Rightarrow> nat" where
  "statsInc q c = (if GatherStats q then Suc c else c)"

text \<open>
  The constructor: \<open>calloc\<close> and the preset members. \<open>cnt\<close> and \<open>gs\<close> are the current values
  of the two globals kept in the record; \<open>t\<close> is the store before its own constructor runs.
\<close>

definition qqueueConstruct ::
    "bool \<Rightarrow> int \<Rightarrow> bool \<Rightarrow> 's \<Rightarrow> queueType_t \<Rightarrow> int \<Rightarrow> int \<Rightarrow> rsRetVal \<times> 's qqueue option" where
  "qqueueConstruct allocOK cnt gs t qt iWorkerThreads mx =
     (if \<not> allocOK then (RS_RET_OUT_OF_MEMORY, None)
      else (RS_RET_OK, Some
        \<lparr>qType = qt, nLogDeq = 0, bEnqOnly = False, iQueueSize = 0, iMaxQueueSize = mx,
         iNumWorkerThreads = iWorkerThreads, iMinMsgsPerWrkr = 0, iUpdsSincePersist = 0,
         iPersistUpdCnt = 0, iHighWtrMrk = 0, iLowWtrMrk = 0, iDiscardMrk = 0,
         iFullDlyMrk = -1, iLightDlyMrk = -1, iDiscardSeverity = 0, toDeleteLst = [],
         toEnq = 0, iDeqBatchSize = 8, iDeqtWinFromHr = 0, iDeqtWinToHr = 25,
         hasFilePrefix = False, sizeOnDiskMax = 0, deqIDAdd = 0, deqIDDel = 0,
         bIsDA = False, isChild = False, sizeOnDisk = 0, ctrEnqueued = 0, ctrFull = 0,
         ctrFDscrd = 0, ctrNFDscrd = 0, ctrMaxqsize = 0, iSmpInterval = 0, msgCnt = cnt,
         GatherStats = gs, tVars = t\<rparr>))"

definition qqueueSetDefaultsActionQueue :: "'s qqueue \<Rightarrow> 's qqueue" where
  "qqueueSetDefaultsActionQueue q =
     q\<lparr>qType := QUEUETYPE_DIRECT, iMaxQueueSize := 1000, iDeqBatchSize := 128,
       iHighWtrMrk := -1, iLowWtrMrk := -1, iDiscardMrk := -1, iDiscardSeverity := 8,
       iNumWorkerThreads := 1, iPersistUpdCnt := 0, toEnq := 2000, iMinMsgsPerWrkr := -1,
       sizeOnDiskMax := 0, iDeqtWinFromHr := 0, iDeqtWinToHr := 25, iSmpInterval := 0\<rparr>"

definition qqueueSetDefaultsRulesetQueue :: "'s qqueue \<Rightarrow> 's qqueue" where
  "qqueueSetDefaultsRulesetQueue q =
     q\<lparr>qType := QUEUETYPE_FIXED_ARRAY, iMaxQueueSize := 50000, iDeqBatchSize := 1024,
       iHighWtrMrk := -1, iLowWtrMrk := -1, iDiscardMrk := -1, iDiscardSeverity := 8,
       iNumWorkerThreads := 1, iPersistUpdCnt := 0, toEnq := 2000, iMinMsgsPerWrkr := -1,
       sizeOnDiskMax := 0, iDeqtWinFromHr := 0, iDeqtWinToHr := 25, iSmpInterval := 0\<rparr>"

definition getPhysicalQueueSize :: "'s qqueue \<Rightarrow> int" where
  "getPhysicalQueueSize q = iQueueSize q"

definition getLogicalQueueSize :: "'s qqueue \<Rightarrow> int" where
  "getLogicalQueueSize q = iQueueSize q - nLogDeq q"

text \<open>
  The number of workers \<open>qqueueAdviseMaxWorkers\<close> advises: whether the DA worker is woken,
  and the maximum for the regular pool (\<open>None\<close> inside: an enqueue-only queue advises none).
\<close>

definition qqueueAdviseMaxWorkers :: "'s qqueue \<Rightarrow> (bool \<times> int) option option" where
  "qqueueAdviseMaxWorkers q =
     (if bEnqOnly q then Some None
      else do {
        let da = bIsDA q \<and> getLogicalQueueSize q \<ge> iHighWtrMrk q;
        n \<leftarrow> (if getLogicalQueueSize q = 0 then Some 0
             else if qType q = QUEUETYPE_DISK \<or> iMinMsgsPerWrkr q = 0 then Some 1
             else map_option (\<lambda>d. d + 1) (c_div (getLogicalQueueSize q) (iMinMsgsPerWrkr q)));
        Some (Some (da, n))
      })"

definition qqueueChkIsDA :: "'s qqueue \<Rightarrow> 's qqueue" where
  "qqueueChkIsDA q = (if hasFilePrefix q then q\<lparr>bIsDA := True\<rparr> else q)"

text \<open>The type-specific constructor, followed by the check every memory constructor ends with.\<close>

definition qqueueConstructStore :: "'s qdriver \<Rightarrow> bool \<Rightarrow> 's qqueue \<Rightarrow> rsRetVal \<times> 's qqueue" where
  "qqueueConstructStore drv mallocOK q =
     (case qConstruct drv (iMaxQueueSize q) mallocOK (tVars q) of
        (r, t) \<Rightarrow> if r = RS_RET_OK then (r, qqueueChkIsDA (q\<lparr>tVars := t\<rparr>)) else (r, q\<lparr>tVars := t\<rparr>))"

section \<open>Parameter correction at start\<close>

text \<open>
  The parameter corrections and defaults of \<open>qqueueStart\<close>. The division by the number of
  worker threads is undefined when that number is zero.
\<close>

definition startHighWtrMrk :: "int \<Rightarrow> int \<Rightarrow> int option" where
  "startHighWtrMrk mx high =
     (if high < 2 \<or> high > mx
      then do { p \<leftarrow> c_div mx 100; Some (if p * 90 = 0 then mx else p * 90) }
      else Some high)"

definition startLowWtrMrk :: "int \<Rightarrow> int \<Rightarrow> int \<Rightarrow> int option" where
  "startLowWtrMrk mx high low =
     (if low < 2 \<or> low > mx \<or> low > high
      then do { p \<leftarrow> c_div mx 100; Some (if p * 70 = 0 then 1 else p * 70) }
      else Some low)"

definition startDlyMrk :: "int \<Rightarrow> int \<Rightarrow> int \<Rightarrow> int option" where
  "startDlyMrk pct mx mrk =
     (if mrk = -1 \<or> mrk > mx
      then do {
        p \<leftarrow> c_div mx 100;
        Some (if p * pct = 0 then (if mx = 1 then 1 else mx - 1) else p * pct)
      }
      else Some mrk)"

definition startDiscardMrk :: "int \<Rightarrow> int \<Rightarrow> int option" where
  "startDiscardMrk mx mrk =
     (if mrk < 1 \<or> mrk > mx
      then do { p \<leftarrow> c_div mx 100; Some (if p * 98 = 0 then mx else p * 98) }
      else Some mrk)"

definition qqueueStartParams :: "'s qqueue \<Rightarrow> 's qqueue option" where
  "qqueueStartParams q =
     do {
       let mx = iMaxQueueSize q;
       high \<leftarrow> startHighWtrMrk mx (iHighWtrMrk q);
       low \<leftarrow> startLowWtrMrk mx high (iLowWtrMrk q);
       wrk \<leftarrow> (if iMinMsgsPerWrkr q < 1 \<or> iMinMsgsPerWrkr q > mx
              then c_div mx (iNumWorkerThreads q) else Some (iMinMsgsPerWrkr q));
       full \<leftarrow> startDlyMrk 97 mx (iFullDlyMrk q);
       light \<leftarrow> startDlyMrk 70 mx (iLightDlyMrk q);
       disc \<leftarrow> startDiscardMrk mx (iDiscardMrk q);
       let bs = (if mx > 0 \<and> iDeqBatchSize q > mx then mx else iDeqBatchSize q);
       Some (q\<lparr>iHighWtrMrk := high, iLowWtrMrk := low, iMinMsgsPerWrkr := wrk,
               iFullDlyMrk := full, iLightDlyMrk := light, iDiscardMrk := disc,
               iDeqBatchSize := bs\<rparr>)
     }"

text \<open>
  The middle of \<open>qqueueStart\<close> for a memory queue: the corrections, the type-specific
  constructor and, for a disk-assisted queue, the limit on the full delay mark.
\<close>

definition qqueueStart :: "'s qdriver \<Rightarrow> bool \<Rightarrow> 's qqueue \<Rightarrow> (rsRetVal \<times> 's qqueue) option" where
  "qqueueStart drv mallocOK q =
     do {
       q1 \<leftarrow> qqueueStartParams q;
       let (r, q2) = qqueueConstructStore drv mallocOK q1;
       if r \<noteq> RS_RET_OK then Some (r, q2)
       else if bIsDA q2
       then do {
         p \<leftarrow> c_div (iHighWtrMrk q2) 100;
         let wrk = iHighWtrMrk q2 - p * 50;
         Some (RS_RET_OK, if wrk < iFullDlyMrk q2 then q2\<lparr>iFullDlyMrk := wrk\<rparr> else q2)
       }
       else Some (RS_RET_OK, q2)
     }"

section \<open>Adding, dequeueing, discarding\<close>

definition qqueueAdd :: "'s qdriver \<Rightarrow> bool \<Rightarrow> 's qworld \<Rightarrow> msgptr \<Rightarrow> (rsRetVal \<times> 's qworld) option" where
  "qqueueAdd drv mallocOK w pMsg =
     (case w of (q, h) \<Rightarrow>
       let cnt = (msgCnt q + 1) mod iSmpInterval q;
           q1 = (if iSmpInterval q > 0 then q\<lparr>msgCnt := cnt\<rparr> else q)
       in if iSmpInterval q > 0 \<and> cnt \<noteq> 0
          then do { h1 \<leftarrow> msgDestruct h pMsg; Some (RS_RET_OK, q1, h1) }
          else do {
            (r, t) \<leftarrow> qAdd drv (iMaxQueueSize q1) mallocOK (tVars q1) pMsg;
            let q2 = q1\<lparr>tVars := t\<rparr>;
            Some (r,
              if r = RS_RET_OK \<and> qType q2 \<noteq> QUEUETYPE_DIRECT
              then q2\<lparr>iQueueSize := iQueueSize q2 + 1\<rparr> else q2, h)
          })"

definition qqueueDeq :: "'s qdriver \<Rightarrow> 's qqueue \<Rightarrow> (rsRetVal \<times> msgptr \<times> 's qqueue) option" where
  "qqueueDeq drv q =
     do {
       (r, m, t) \<leftarrow> qDeq drv (iMaxQueueSize q) (tVars q);
       Some (r, m, q\<lparr>tVars := t, nLogDeq := nLogDeq q + 1\<rparr>)
     }"

definition qqueueChkDiscardMsg :: "'s qworld \<Rightarrow> int \<Rightarrow> msgptr \<Rightarrow> (rsRetVal \<times> 's qworld) option" where
  "qqueueChkDiscardMsg w sz pMsg =
     (case w of (q, h) \<Rightarrow>
       if iDiscardMrk q > 0 \<and> sz \<ge> iDiscardMrk q
       then do {
         (r, sev) \<leftarrow> MsgGetSeverity h pMsg;
         if r = RS_RET_OK \<and> sev \<ge> iDiscardSeverity q
         then do {
           h1 \<leftarrow> msgDestruct h pMsg;
           Some (RS_RET_QUEUE_FULL, q\<lparr>ctrNFDscrd := statsInc q (ctrNFDscrd q)\<rparr>, h1)
         }
         else Some (RS_RET_OK, q, h)
       }
       else Some (RS_RET_OK, q, h))"

text \<open>
  \<open>queueDrain\<close> decrements the size first and stops when the result is not positive; the
  recursion is over that size.
\<close>

function queueDrain :: "'s qdriver \<Rightarrow> 's qworld \<Rightarrow> 's qworld option" where
  "queueDrain drv w =
     (case w of (q, h) \<Rightarrow>
       let q1 = q\<lparr>iQueueSize := iQueueSize q - 1\<rparr>
       in if iQueueSize q1 > 0
          then (case qDeq drv (iMaxQueueSize q1) (tVars q1) of
                  None \<Rightarrow> None
                | Some (r, m, t) \<Rightarrow>
                    (case msgDestruct h m of
                       None \<Rightarrow> None
                     | Some h1 \<Rightarrow>
                         (case qDel drv (iMaxQueueSize q1) t of
                            None \<Rightarrow> None
                          | Some (r2, t2) \<Rightarrow> queueDrain drv (q1\<lparr>tVars := t2\<rparr>, h1))))
          else Some (q1, h))"
  by pat_completeness auto
termination
  by (relation "measure (\<lambda>(drv, (q, h)). nat (iQueueSize q))") auto

declare queueDrain.simps [simp del]

text \<open>The type-specific destructors of the two memory stores.\<close>

definition qDestructFixedArray :: "farray qworld \<Rightarrow> (rsRetVal \<times> farray qworld) option" where
  "qDestructFixedArray w =
     do {
       (q, h) \<leftarrow> queueDrain farray_driver w;
       Some (RS_RET_OK, q\<lparr>tVars := (tVars q)\<lparr>pBuf := []\<rparr>\<rparr>, h)
     }"

definition qDestructLinkedList :: "linklist qworld \<Rightarrow> (rsRetVal \<times> linklist qworld) option" where
  "qDestructLinkedList w = do { w1 \<leftarrow> queueDrain linklist_driver w; Some (RS_RET_OK, w1) }"

section \<open>Enqueueing one message\<close>

text \<open>
  While \<open>doEnqSingleObj\<close> waits on a condition variable the queue mutex is released. A
  \<open>wait_event\<close> is one such wait: the result of \<open>pthread_cond_timedwait\<close>, what the other
  threads did to the queue and the messages meanwhile, and the input-termination flag seen
  afterwards. A call consumes a list of them; when the list ends inside a wait the call is
  still \<open>Waiting\<close>.
\<close>

datatype cond_result = COND_OK | COND_ETIMEDOUT | COND_ERR int

record 's wait_event =
  wret :: cond_result
  wothers :: "'s qworld \<Rightarrow> 's qworld"
  wterm :: bool

datatype 'a progress = Waiting | Done 'a

fun fullDelayWait :: "'s wait_event list \<Rightarrow> bool \<Rightarrow> 's qworld \<Rightarrow>
    ('s wait_event list \<times> bool \<times> 's qworld) progress" where
  "fullDelayWait ws trm w =
     (if iQueueSize (fst w) \<ge> iFullDlyMrk (fst w) \<and> \<not> trm
      then (case ws of
              [] \<Rightarrow> Waiting
            | e # ws' \<Rightarrow>
                (case wret e of
                   COND_ERR n \<Rightarrow> Done (ws', wterm e, wothers e w)
                 | _ \<Rightarrow> fullDelayWait ws' (wterm e) (wothers e w)))
      else Done (ws, trm, w))"

declare fullDelayWait.simps [simp del]

definition lightDelayWait :: "'s wait_event list \<Rightarrow> bool \<Rightarrow> 's qworld \<Rightarrow>
    ('s wait_event list \<times> bool \<times> 's qworld) progress" where
  "lightDelayWait ws trm w =
     (if \<not> trm \<and> iQueueSize (fst w) \<ge> iLightDlyMrk (fst w)
      then (case ws of [] \<Rightarrow> Waiting | e # ws' \<Rightarrow> Done (ws', wterm e, wothers e w))
      else Done (ws, trm, w))"

definition flowControl :: "flowControl_t \<Rightarrow> 's wait_event list \<Rightarrow> bool \<Rightarrow> 's qworld \<Rightarrow>
    ('s wait_event list \<times> bool \<times> 's qworld) progress" where
  "flowControl f ws trm w =
     (case f of
        eFLOWCTL_FULL_DELAY \<Rightarrow> fullDelayWait ws trm w
      | eFLOWCTL_LIGHT_DELAY \<Rightarrow> lightDelayWait ws trm w
      | eFLOWCTL_NO_DELAY \<Rightarrow> Done (ws, trm, w))"

definition queueIsFull :: "'s qqueue \<Rightarrow> bool" where
  "queueIsFull q \<longleftrightarrow>
     (iMaxQueueSize q > 0 \<and> iQueueSize q \<ge> iMaxQueueSize q) \<or>
     ((qType q = QUEUETYPE_DISK \<or> bIsDA q) \<and> sizeOnDiskMax q \<noteq> 0 \<and> sizeOnDisk q > sizeOnDiskMax q)"

text \<open>The wait for room. It returns \<open>RS_RET_OK\<close> when there is room, else why it gave up.\<close>

fun queueFullWait :: "'s wait_event list \<Rightarrow> bool \<Rightarrow> 's qworld \<Rightarrow> msgptr \<Rightarrow>
    (rsRetVal \<times> 's qworld) progress option" where
  "queueFullWait ws trm w pMsg =
     (case w of (q, h) \<Rightarrow>
       if queueIsFull q
       then
         let q1 = q\<lparr>ctrFull := statsInc q (ctrFull q)\<rparr>
         in if toEnq q1 = 0 \<or> bEnqOnly q1
            then do {
              h1 \<leftarrow> msgDestruct h pMsg;
              Some (Done (RS_RET_QUEUE_FULL, q1\<lparr>ctrFDscrd := statsInc q1 (ctrFDscrd q1)\<rparr>, h1))
            }
            else if trm then Some (Done (RS_RET_FORCE_TERM, q1, h))
            else (case ws of
                    [] \<Rightarrow> Some Waiting
                  | e # ws' \<Rightarrow>
                      (case wret e of
                         COND_OK \<Rightarrow> queueFullWait ws' (wterm e) (wothers e (q1, h)) pMsg
                       | _ \<Rightarrow>
                           (case wothers e (q1, h) of (q2, h2) \<Rightarrow> do {
                              h3 \<leftarrow> msgDestruct h2 pMsg;
                              Some (Done (RS_RET_QUEUE_FULL,
                                q2\<lparr>ctrFDscrd := statsInc q2 (ctrFDscrd q2)\<rparr>, h3))
                            })))
       else Some (Done (RS_RET_OK, q, h)))"

declare queueFullWait.simps [simp del]

definition doEnqSingleObj :: "'s qdriver \<Rightarrow> bool \<Rightarrow> 's wait_event list \<Rightarrow> bool \<Rightarrow> flowControl_t \<Rightarrow>
    's qworld \<Rightarrow> msgptr \<Rightarrow> (rsRetVal \<times> 's qworld) progress option" where
  "doEnqSingleObj drv mallocOK ws trm fc w pMsg =
     do {
       let w0 = (fst w\<lparr>ctrEnqueued := statsInc (fst w) (ctrEnqueued (fst w))\<rparr>, snd w);
       (r, w1) \<leftarrow> qqueueChkDiscardMsg w0 (iQueueSize (fst w0)) pMsg;
       if r \<noteq> RS_RET_OK then Some (Done (r, w1))
       else (case flowControl fc ws trm w1 of
               Waiting \<Rightarrow> Some Waiting
             | Done (ws', trm', w2) \<Rightarrow> do {
                 p \<leftarrow> queueFullWait ws' trm' w2 pMsg;
                 (case p of
                    Waiting \<Rightarrow> Some Waiting
                  | Done (r2, w3) \<Rightarrow>
                      if r2 \<noteq> RS_RET_OK then Some (Done (r2, w3))
                      else do {
                        (r3, w4) \<leftarrow> qqueueAdd drv mallocOK w3 pMsg;
                        if r3 \<noteq> RS_RET_OK then Some (Done (r3, w4))
                        else (let q4 = fst w4
                              in Some (Done (RS_RET_OK,
                                   (if GatherStats q4 \<and> iQueueSize q4 > ctrMaxqsize q4
                                    then q4\<lparr>ctrMaxqsize := iQueueSize q4\<rparr> else q4, snd w4))))
                      })
               })
     }"

text \<open>The persist bookkeeping; writing a memory queue's .qi file has no effect on the object.\<close>

definition qqueueChkPersist :: "'s qqueue \<Rightarrow> int \<Rightarrow> 's qqueue" where
  "qqueueChkPersist q nUpdates =
     (if nUpdates = 0 then q
      else let q1 = q\<lparr>iUpdsSincePersist := iUpdsSincePersist q + nUpdates\<rparr>
           in if iPersistUpdCnt q1 \<noteq> 0 \<and> iUpdsSincePersist q1 \<ge> iPersistUpdCnt q1
              then q1\<lparr>iUpdsSincePersist := 0\<rparr> else q1)"

text \<open>The entry point, without the worker advice that follows it.\<close>

definition qqueueEnqMsg :: "'s qdriver \<Rightarrow> bool \<Rightarrow> 's wait_event list \<Rightarrow> bool \<Rightarrow> flowControl_t \<Rightarrow>
    's qworld \<Rightarrow> msgptr \<Rightarrow> (rsRetVal \<times> 's qworld) progress option" where
  "qqueueEnqMsg drv mallocOK ws trm fc w pMsg =
     do {
       p \<leftarrow> doEnqSingleObj drv mallocOK ws trm fc w pMsg;
       (case p of
          Waiting \<Rightarrow> Some Waiting
        | Done (r, w1) \<Rightarrow>
            Some (Done (r, if r = RS_RET_OK then (qqueueChkPersist (fst w1) 1, snd w1) else w1)))
     }"

text \<open>
  Enqueueing a multi-submit structure. Each message comes with what its own call meets:
  whether \<open>MALLOC\<close> succeeds, its waits and the input-termination flag.
\<close>

type_synonym 's submission = "msgptr \<times> bool \<times> 's wait_event list \<times> bool"

fun multiEnqLoop :: "'s qdriver \<Rightarrow> 's submission list \<Rightarrow> 's qworld \<Rightarrow> (rsRetVal \<times> 's qworld) progress option" where
  "multiEnqLoop drv [] w = Some (Done (RS_RET_OK, w))"
| "multiEnqLoop drv ((pMsg, mallocOK, ws, trm) # subs) w =
     (case snd w pMsg of
        None \<Rightarrow> None
      | Some m \<Rightarrow>
          (case doEnqSingleObj drv mallocOK ws trm (flowCtlType m) w pMsg of
             None \<Rightarrow> None
           | Some Waiting \<Rightarrow> Some Waiting
           | Some (Done (localRet, w1)) \<Rightarrow>
               if localRet \<noteq> RS_RET_OK \<and> localRet \<noteq> RS_RET_QUEUE_FULL
               then Some (Done (localRet, w1))
               else multiEnqLoop drv subs w1))"

definition qqueueMultiEnqObjNonDirect :: "'s qdriver \<Rightarrow> 's submission list \<Rightarrow> 's qworld \<Rightarrow>
    (rsRetVal \<times> 's qworld) progress option" where
  "qqueueMultiEnqObjNonDirect drv subs w =
     do {
       p \<leftarrow> multiEnqLoop drv subs w;
       (case p of
          Waiting \<Rightarrow> Some Waiting
        | Done (r, w1) \<Rightarrow>
            Some (Done (r, if r = RS_RET_OK
                           then (qqueueChkPersist (fst w1) (int (length subs)), snd w1) else w1)))
     }"

end
