(* ===== verification/QueuePhases.thy ===== *)
theory QueuePhases
  imports Queue
begin

text \<open>
  One enqueue (\<open>doEnqSingleObj\<close> of runtime/queue.c) cut at its waits, for the state machine of Pipeline.thy in which other threads
  run meanwhile: \<open>Blocked st w\<close> is the call asleep at \<open>st\<close>, the mutex released with the queue
  and messages as in \<open>w\<close>; \<open>enqWake\<close> goes on from the world found after the wait.
  \<open>doEnqSingleObj_phases\<close> says that the phases are \<open>doEnqSingleObj\<close>.
\<close>

datatype stage = At_fullDelay | At_lightDelay | At_full

datatype 's enq_state = Blocked stage "'s qworld" | Ended rsRetVal "'s qworld"

definition enqInsert :: "'s qdriver \<Rightarrow> bool \<Rightarrow> 's qworld \<Rightarrow> msgptr \<Rightarrow> 's enq_state option" where
  "enqInsert drv mallocOK w pMsg =
     do {
       (r, w1) \<leftarrow> qqueueAdd drv mallocOK w pMsg;
       Some (Ended r
         (if r = RS_RET_OK \<and> GatherStats (fst w1) \<and> iQueueSize (fst w1) > ctrMaxqsize (fst w1)
          then (fst w1\<lparr>ctrMaxqsize := iQueueSize (fst w1)\<rparr>, snd w1) else w1))
     }"

definition enqAtFull :: "'s qdriver \<Rightarrow> bool \<Rightarrow> bool \<Rightarrow> 's qworld \<Rightarrow> msgptr \<Rightarrow> 's enq_state option" where
  "enqAtFull drv mallocOK trm w pMsg =
     (case w of (q, h) \<Rightarrow>
       if queueIsFull q
       then
         let q1 = q\<lparr>ctrFull := statsInc q (ctrFull q)\<rparr>
         in if toEnq q1 = 0 \<or> bEnqOnly q1
            then do {
              h1 \<leftarrow> msgDestruct h pMsg;
              Some (Ended RS_RET_QUEUE_FULL (q1\<lparr>ctrFDscrd := statsInc q1 (ctrFDscrd q1)\<rparr>, h1))
            }
            else if trm then Some (Ended RS_RET_FORCE_TERM (q1, h))
            else Some (Blocked At_full (q1, h))
       else enqInsert drv mallocOK (q, h) pMsg)"

definition enqAtFlow :: "'s qdriver \<Rightarrow> bool \<Rightarrow> flowControl_t \<Rightarrow> bool \<Rightarrow> 's qworld \<Rightarrow> msgptr \<Rightarrow> 's enq_state option" where
  "enqAtFlow drv mallocOK fc trm w pMsg =
     (if fc = eFLOWCTL_FULL_DELAY \<and> iQueueSize (fst w) \<ge> iFullDlyMrk (fst w) \<and> \<not> trm
      then Some (Blocked At_fullDelay w)
      else if fc = eFLOWCTL_LIGHT_DELAY \<and> \<not> trm \<and> iQueueSize (fst w) \<ge> iLightDlyMrk (fst w)
      then Some (Blocked At_lightDelay w)
      else enqAtFull drv mallocOK trm w pMsg)"

definition enqStart :: "'s qdriver \<Rightarrow> bool \<Rightarrow> bool \<Rightarrow> flowControl_t \<Rightarrow> 's qworld \<Rightarrow> msgptr \<Rightarrow> 's enq_state option" where
  "enqStart drv mallocOK trm fc w pMsg =
     do {
       let w0 = (fst w\<lparr>ctrEnqueued := statsInc (fst w) (ctrEnqueued (fst w))\<rparr>, snd w);
       (r, w1) \<leftarrow> qqueueChkDiscardMsg w0 (iQueueSize (fst w0)) pMsg;
       if r \<noteq> RS_RET_OK then Some (Ended r w1) else enqAtFlow drv mallocOK fc trm w1 pMsg
     }"

definition enqWake :: "'s qdriver \<Rightarrow> bool \<Rightarrow> stage \<Rightarrow> cond_result \<Rightarrow> bool \<Rightarrow> 's qworld \<Rightarrow> msgptr \<Rightarrow> 's enq_state option" where
  "enqWake drv mallocOK st ret trm w pMsg =
     (case st of
        At_fullDelay \<Rightarrow>
          (case ret of
             COND_ERR n \<Rightarrow> enqAtFull drv mallocOK trm w pMsg
           | _ \<Rightarrow> enqAtFlow drv mallocOK eFLOWCTL_FULL_DELAY trm w pMsg)
      | At_lightDelay \<Rightarrow> enqAtFull drv mallocOK trm w pMsg
      | At_full \<Rightarrow>
          (case ret of
             COND_OK \<Rightarrow> enqAtFull drv mallocOK trm w pMsg
           | _ \<Rightarrow> do {
               h1 \<leftarrow> msgDestruct (snd w) pMsg;
               Some (Ended RS_RET_QUEUE_FULL
                 (fst w\<lparr>ctrFDscrd := statsInc (fst w) (ctrFDscrd (fst w))\<rparr>, h1))
             }))"

fun enqRun :: "'s qdriver \<Rightarrow> bool \<Rightarrow> msgptr \<Rightarrow> 's wait_event list \<Rightarrow> 's enq_state \<Rightarrow>
    (rsRetVal \<times> 's qworld) progress option" where
  "enqRun drv mallocOK pMsg ws (Ended r w) = Some (Done (r, w))"
| "enqRun drv mallocOK pMsg [] (Blocked st w) = Some Waiting"
| "enqRun drv mallocOK pMsg (e # ws) (Blocked st w) =
     do {
       s \<leftarrow> enqWake drv mallocOK st (wret e) (wterm e) (wothers e w) pMsg;
       enqRun drv mallocOK pMsg ws s
     }"

text \<open>What follows the waits of \<open>doEnqSingleObj\<close>, as one function of the events left.\<close>

definition enqRest :: "'s qdriver \<Rightarrow> bool \<Rightarrow> 's wait_event list \<Rightarrow> bool \<Rightarrow> 's qworld \<Rightarrow> msgptr \<Rightarrow>
    (rsRetVal \<times> 's qworld) progress option" where
  "enqRest drv mallocOK ws trm w pMsg =
     do {
       p \<leftarrow> queueFullWait ws trm w pMsg;
       (case p of
          Waiting \<Rightarrow> Some Waiting
        | Done (r2, w3) \<Rightarrow>
            if r2 \<noteq> RS_RET_OK then Some (Done (r2, w3))
            else do { s \<leftarrow> enqInsert drv mallocOK w3 pMsg; enqRun drv mallocOK pMsg [] s })
     }"

lemma enqInsert_Ended: "enqInsert drv ok w m = Some s \<Longrightarrow> \<exists>r w'. s = Ended r w'"
  by (auto simp: enqInsert_def split: bind_splits)

lemma enqInsert_run:
  "do { s \<leftarrow> enqInsert drv ok w m; enqRun drv ok m ws s } = do { s \<leftarrow> enqInsert drv ok w m; enqRun drv ok m [] s }"
proof (cases "enqInsert drv ok w m")
  case (Some s)
  with enqInsert_Ended [OF this] show ?thesis by auto
qed simp

text \<open>One test of the wait for room.\<close>

lemma queueFullWait_room: "\<not> queueIsFull q \<Longrightarrow> queueFullWait ws trm (q, h) m = Some (Done (RS_RET_OK, q, h))"
  by (simp add: queueFullWait.simps)

lemma queueFullWait_discard:
  "queueIsFull q \<Longrightarrow> toEnq q = 0 \<or> bEnqOnly q \<Longrightarrow> queueFullWait ws trm (q, h) m =
     do {
       h1 \<leftarrow> msgDestruct h m;
       Some (Done (RS_RET_QUEUE_FULL, q\<lparr>ctrFull := statsInc q (ctrFull q),
         ctrFDscrd := statsInc q (ctrFDscrd q)\<rparr>, h1))
     }"
  by (subst queueFullWait.simps) (auto simp: Let_def statsInc_def)

lemma queueFullWait_term:
  "queueIsFull q \<Longrightarrow> toEnq q \<noteq> 0 \<Longrightarrow> \<not> bEnqOnly q \<Longrightarrow>
   queueFullWait ws True (q, h) m = Some (Done (RS_RET_FORCE_TERM, q\<lparr>ctrFull := statsInc q (ctrFull q)\<rparr>, h))"
  by (subst queueFullWait.simps) (simp add: Let_def)

lemma queueFullWait_sleep:
  "queueIsFull q \<Longrightarrow> toEnq q \<noteq> 0 \<Longrightarrow> \<not> bEnqOnly q \<Longrightarrow> queueFullWait [] False (q, h) m = Some Waiting"
  by (subst queueFullWait.simps) (simp add: Let_def)

lemma queueFullWait_event:
  "queueIsFull q \<Longrightarrow> toEnq q \<noteq> 0 \<Longrightarrow> \<not> bEnqOnly q \<Longrightarrow>
   queueFullWait (e # es) False (q, h) m =
     (let w2 = wothers e (q\<lparr>ctrFull := statsInc q (ctrFull q)\<rparr>, h)
      in case wret e of
           COND_OK \<Rightarrow> queueFullWait es (wterm e) w2 m
         | _ \<Rightarrow> do {
             h3 \<leftarrow> msgDestruct (snd w2) m;
             Some (Done (RS_RET_QUEUE_FULL, fst w2\<lparr>ctrFDscrd := statsInc (fst w2) (ctrFDscrd (fst w2))\<rparr>, h3))
           })"
  by (subst queueFullWait.simps) (simp add: Let_def split: cond_result.split prod.split)

lemma enqRest_phases:
  "enqRest drv ok ws trm w m = do { s \<leftarrow> enqAtFull drv ok trm w m; enqRun drv ok m ws s }"
proof (induction ws arbitrary: trm w)
  case Nil
  obtain q h where w: "w = (q, h)" by (cases w)
  consider "\<not> queueIsFull q" | "queueIsFull q" "toEnq q = 0 \<or> bEnqOnly q"
    | "queueIsFull q" "toEnq q \<noteq> 0" "\<not> bEnqOnly q" trm | "queueIsFull q" "toEnq q \<noteq> 0" "\<not> bEnqOnly q" "\<not> trm"
    by blast
  then show ?case
  proof cases
    case 1
    then show ?thesis by (simp add: enqRest_def enqAtFull_def w queueFullWait_room)
  next
    case 2
    then show ?thesis
      by (cases "msgDestruct h m") (simp_all add: enqRest_def enqAtFull_def w queueFullWait_discard Let_def statsInc_def)
  next
    case 3
    then show ?thesis by (simp add: enqRest_def enqAtFull_def w queueFullWait_term Let_def)
  next
    case 4
    then show ?thesis by (simp add: enqRest_def enqAtFull_def w queueFullWait_sleep Let_def)
  qed
next
  case (Cons e es)
  obtain q h where w: "w = (q, h)" by (cases w)
  let ?q1 = "q\<lparr>ctrFull := statsInc q (ctrFull q)\<rparr>"
  consider "\<not> queueIsFull q" | "queueIsFull q" "toEnq q = 0 \<or> bEnqOnly q"
    | "queueIsFull q" "toEnq q \<noteq> 0" "\<not> bEnqOnly q" trm | "queueIsFull q" "toEnq q \<noteq> 0" "\<not> bEnqOnly q" "\<not> trm"
    by blast
  then show ?case
  proof cases
    case 1
    then show ?thesis
      by (simp add: enqRest_def enqAtFull_def w queueFullWait_room enqInsert_run [of _ _ _ _ "e # es"])
  next
    case 2
    then show ?thesis
      by (cases "msgDestruct h m") (simp_all add: enqRest_def enqAtFull_def w queueFullWait_discard Let_def statsInc_def)
  next
    case 3
    then show ?thesis by (simp add: enqRest_def enqAtFull_def w queueFullWait_term Let_def)
  next
    case 4
    then have r: "enqAtFull drv ok trm w m = Some (Blocked At_full (?q1, h))"
      by (simp add: enqAtFull_def w Let_def)
    show ?thesis
    proof (cases "wret e = COND_OK")
      case True
      with 4 have "enqRest drv ok (e # es) trm w m = enqRest drv ok es (wterm e) (wothers e (?q1, h)) m"
        by (simp add: enqRest_def w queueFullWait_event Let_def)
      with r True Cons.IH [of "wterm e" "wothers e (?q1, h)"] show ?thesis by (simp add: enqWake_def)
    next
      case False
      let ?w2 = "wothers e (?q1, h)"
      have "queueFullWait (e # es) trm w m = do {
          h3 \<leftarrow> msgDestruct (snd ?w2) m;
          Some (Done (RS_RET_QUEUE_FULL, fst ?w2\<lparr>ctrFDscrd := statsInc (fst ?w2) (ctrFDscrd (fst ?w2))\<rparr>, h3)) }"
        using 4 False by (cases "wret e") (simp_all add: w queueFullWait_event Let_def)
      moreover have "enqWake drv ok At_full (wret e) (wterm e) ?w2 m = do {
          h1 \<leftarrow> msgDestruct (snd ?w2) m;
          Some (Ended RS_RET_QUEUE_FULL (fst ?w2\<lparr>ctrFDscrd := statsInc (fst ?w2) (ctrFDscrd (fst ?w2))\<rparr>, h1)) }"
        using False by (cases "wret e") (simp_all add: enqWake_def)
      ultimately show ?thesis
        using r by (cases "msgDestruct (snd ?w2) m") (simp_all add: enqRest_def)
    qed
  qed
qed

lemma enqFlow_phases:
  "(case flowControl fc ws trm w of
      Waiting \<Rightarrow> Some Waiting | Done (ws', trm', w2) \<Rightarrow> enqRest drv ok ws' trm' w2 m) =
   do { s \<leftarrow> enqAtFlow drv ok fc trm w m; enqRun drv ok m ws s }"
proof (cases fc)
  case eFLOWCTL_NO_DELAY
  then show ?thesis by (simp add: flowControl_def enqAtFlow_def enqRest_phases)
next
  case eFLOWCTL_LIGHT_DELAY
  then show ?thesis
    by (cases ws) (auto simp: flowControl_def lightDelayWait_def enqAtFlow_def enqRest_phases enqWake_def)
next
  case eFLOWCTL_FULL_DELAY
  have "(case fullDelayWait ws trm w of
      Waiting \<Rightarrow> Some Waiting | Done (ws', trm', w2) \<Rightarrow> enqRest drv ok ws' trm' w2 m) =
   do { s \<leftarrow> enqAtFlow drv ok eFLOWCTL_FULL_DELAY trm w m; enqRun drv ok m ws s }"
  proof (induction ws arbitrary: trm w)
    case Nil
    show ?case by (auto simp: fullDelayWait.simps [of "[]"] enqAtFlow_def enqRest_phases)
  next
    case (Cons e es)
    show ?case
      using Cons.IH [of "wterm e" "wothers e w"]
      by (cases "wret e")
        (auto simp: fullDelayWait.simps [of "e # es"] enqAtFlow_def enqRest_phases enqWake_def)
  qed
  with eFLOWCTL_FULL_DELAY show ?thesis by (simp add: flowControl_def)
qed

lemma doEnqSingleObj_rest:
  "doEnqSingleObj drv ok ws trm fc w m =
     do {
       let w0 = (fst w\<lparr>ctrEnqueued := statsInc (fst w) (ctrEnqueued (fst w))\<rparr>, snd w);
       (r, w1) \<leftarrow> qqueueChkDiscardMsg w0 (iQueueSize (fst w0)) m;
       if r \<noteq> RS_RET_OK then Some (Done (r, w1))
       else (case flowControl fc ws trm w1 of
          Waiting \<Rightarrow> Some Waiting | Done (ws', trm', w2) \<Rightarrow> enqRest drv ok ws' trm' w2 m)
     }"
proof -
  have tail: "do {
        (r3, w4) \<leftarrow> qqueueAdd drv ok w3 m;
        if r3 \<noteq> RS_RET_OK then Some (Done (r3, w4))
        else (let q4 = fst w4 in Some (Done (RS_RET_OK,
               (if GatherStats q4 \<and> iQueueSize q4 > ctrMaxqsize q4
                then q4\<lparr>ctrMaxqsize := iQueueSize q4\<rparr> else q4, snd w4))))
      } = do { s \<leftarrow> enqInsert drv ok w3 m; enqRun drv ok m [] s }" for w3
    by (auto simp: enqInsert_def Let_def split: bind_split)
  show ?thesis
    unfolding doEnqSingleObj_def tail enqRest_def by simp
qed

lemma doEnqSingleObj_phases:
  "doEnqSingleObj drv ok ws trm fc w m = do { s \<leftarrow> enqStart drv ok trm fc w m; enqRun drv ok m ws s }"
proof -
  let ?w0 = "(fst w\<lparr>ctrEnqueued := statsInc (fst w) (ctrEnqueued (fst w))\<rparr>, snd w)"
  show ?thesis
  proof (cases "qqueueChkDiscardMsg ?w0 (iQueueSize (fst ?w0)) m")
    case None
    then show ?thesis unfolding doEnqSingleObj_rest enqStart_def Let_def by simp
  next
    case (Some x)
    then show ?thesis
      unfolding doEnqSingleObj_rest enqFlow_phases enqStart_def Let_def by (cases x) simp
  qed
qed

end
