(* ===== verification/QueueRefs.thy ===== *)
theory QueueRefs
  imports QueuePhases
begin

text \<open>
  What the enqueue path keeps (runtime/queue.c): the invariant of the queue, the exact count of
  the references to every message, and the result of a call on every branch, for any store that
  keeps the laws of the drivers.
\<close>

section \<open>The invariant\<close>

text \<open>
  \<open>q_inv rep q xs k\<close>: the store holds \<open>xs\<close>, the first \<open>k\<close> of them dequeued but not
  deleted, and the counters say so; a bounded queue is within its bound. The to-delete list is
  empty, which every operation keeps: \<open>DeleteBatchFromQStore\<close> only adds to a list that is not
  empty already. \<open>world_ok\<close> adds the messages: the queue holds one reference to every element
  not dequeued, the rest of the program the references \<open>own\<close>, and the counters of all messages
  are exactly that. The other two parameters frame a worker: \<open>d\<close> dequeued elements are still to
  be deleted by somebody, and batches have room for \<open>bs\<close> elements, the configured maximum.
\<close>

definition q_inv :: "(int \<Rightarrow> 's \<Rightarrow> msgptr list \<Rightarrow> nat \<Rightarrow> bool) \<Rightarrow> 's qqueue \<Rightarrow> msgptr list \<Rightarrow> nat \<Rightarrow> bool" where
  "q_inv rep q xs k \<longleftrightarrow>
     rep (iMaxQueueSize q) (tVars q) xs k \<and>
     iQueueSize q = int (length xs) \<and> nLogDeq q = int k \<and> toDeleteLst q = [] \<and>
     qType q \<in> {QUEUETYPE_FIXED_ARRAY, QUEUETYPE_LINKEDLIST} \<and>
     0 \<le> iMaxQueueSize q \<and> (0 < iMaxQueueSize q \<longrightarrow> iQueueSize q \<le> iMaxQueueSize q)"

definition world_ok :: "(int \<Rightarrow> 's \<Rightarrow> msgptr list \<Rightarrow> nat \<Rightarrow> bool) \<Rightarrow> nat \<Rightarrow> nat \<Rightarrow> msgptr multiset \<Rightarrow> 's qworld \<Rightarrow> bool" where
  "world_ok rep bs d own w \<longleftrightarrow>
     iDeqBatchSize (fst w) \<le> int bs \<and>
     (\<exists>xs k. q_inv rep (fst w) xs k \<and> d \<le> k \<and> refs_ok (mset (drop k xs) + own) (snd w))"

text \<open>A message an enqueue added: the newest element of the store.\<close>

definition world_added :: "(int \<Rightarrow> 's \<Rightarrow> msgptr list \<Rightarrow> nat \<Rightarrow> bool) \<Rightarrow> nat \<Rightarrow> nat \<Rightarrow> msgptr multiset \<Rightarrow> 's qworld \<Rightarrow> msgptr \<Rightarrow> bool" where
  "world_added rep bs d own w m \<longleftrightarrow>
     iDeqBatchSize (fst w) \<le> int bs \<and>
     (\<exists>xs k. q_inv rep (fst w) (xs @ [m]) k \<and> k \<le> length xs \<and> d \<le> k \<and>
        refs_ok (mset (drop k (xs @ [m])) + own) (snd w))"

text \<open>The sampling of \<open>qqueueAdd\<close> drops a message when its counter is not at the interval.\<close>

definition sampled_out :: "'s qqueue \<Rightarrow> bool" where
  "sampled_out q \<longleftrightarrow> iSmpInterval q > 0 \<and> msgCnt q \<noteq> 0"

text \<open>
  The result of an enqueue of \<open>m\<close> whose reference the caller hands over while the rest of the
  program holds \<open>own\<close>: OK means the message is the newest element (or was released by
  sampling), queue full that it was released, and input termination or a failed allocation
  that the caller still holds its reference.
\<close>

definition enq_result :: "(int \<Rightarrow> 's \<Rightarrow> msgptr list \<Rightarrow> nat \<Rightarrow> bool) \<Rightarrow> nat \<Rightarrow> nat \<Rightarrow> msgptr multiset \<Rightarrow>
    bool \<Rightarrow> msgptr \<Rightarrow> rsRetVal \<Rightarrow> 's qworld \<Rightarrow> bool" where
  "enq_result rep bs d own ok m r w \<longleftrightarrow>
     r = RS_RET_OK \<and> (if sampled_out (fst w) then world_ok rep bs d own w else world_added rep bs d own w m) \<or>
     r = RS_RET_QUEUE_FULL \<and> world_ok rep bs d own w \<or>
     (r = RS_RET_FORCE_TERM \<or> r = RS_RET_OUT_OF_MEMORY \<and> \<not> ok) \<and> world_ok rep bs d (add_mset m own) w"

text \<open>The configuration an operation on the queue does not change.\<close>

definition same_cfg :: "'s qqueue \<Rightarrow> 's qqueue \<Rightarrow> bool" where
  "same_cfg q q' \<longleftrightarrow>
     iMaxQueueSize q' = iMaxQueueSize q \<and> iDiscardMrk q' = iDiscardMrk q \<and>
     iDiscardSeverity q' = iDiscardSeverity q \<and> iSmpInterval q' = iSmpInterval q \<and>
     bIsDA q' = bIsDA q \<and> iDeqBatchSize q' = iDeqBatchSize q"

text \<open>
  What a wait may do. The calling thread holds \<open>own\<close> and answers for \<open>d\<close> dequeued elements;
  the other threads answer for \<open>fst g\<close> more and hold the references \<open>snd g\<close>. They may enqueue,
  dequeue, delete their batches, create and release messages: after the wait they have
  \<open>g'\<close>. \<open>waits_ok\<close> follows their shares through the waits of a call.
\<close>

type_synonym share = "nat \<times> msgptr multiset"

definition event_ok :: "(int \<Rightarrow> 's \<Rightarrow> msgptr list \<Rightarrow> nat \<Rightarrow> bool) \<Rightarrow> nat \<Rightarrow> nat \<Rightarrow> msgptr multiset \<Rightarrow>
    share \<Rightarrow> 's wait_event \<Rightarrow> share \<Rightarrow> bool" where
  "event_ok rep bs d own g e g' \<longleftrightarrow>
     (\<forall>w. world_ok rep bs (d + fst g) (own + snd g) w \<longrightarrow>
        world_ok rep bs (d + fst g') (own + snd g') (wothers e w))"

fun waits_ok :: "(int \<Rightarrow> 's \<Rightarrow> msgptr list \<Rightarrow> nat \<Rightarrow> bool) \<Rightarrow> nat \<Rightarrow> nat \<Rightarrow> msgptr multiset \<Rightarrow>
    share \<Rightarrow> 's wait_event list \<Rightarrow> share list \<Rightarrow> bool" where
  "waits_ok rep bs d own g [] gs = (gs = [])"
| "waits_ok rep bs d own g (e # ws) [] = False"
| "waits_ok rep bs d own g (e # ws) (g' # gs) =
     (event_ok rep bs d own g e g' \<and> waits_ok rep bs d own g' ws gs)"

lemma world_okI:
  "q_inv rep q xs k \<Longrightarrow> iDeqBatchSize q \<le> int bs \<Longrightarrow> d \<le> k \<Longrightarrow>
   refs_ok (mset (drop k xs) + own) h \<Longrightarrow> world_ok rep bs d own (q, h)"
  by (auto simp: world_ok_def)

lemma world_okE:
  assumes "world_ok rep bs d own w"
  obtains xs k where "q_inv rep (fst w) xs k" "iDeqBatchSize (fst w) \<le> int bs" "d \<le> k"
    "refs_ok (mset (drop k xs) + own) (snd w)"
  using assms by (auto simp: world_ok_def)

lemma world_addedD: "world_added rep bs d own w m \<Longrightarrow> world_ok rep bs d own w"
  unfolding world_added_def world_ok_def by blast

lemma enq_result_ok:
  "enq_result rep bs d own ok m r w \<Longrightarrow>
   r \<in> {RS_RET_OK, RS_RET_QUEUE_FULL} \<and> world_ok rep bs d own w \<or>
   r \<in> {RS_RET_FORCE_TERM, RS_RET_OUT_OF_MEMORY} \<and> world_ok rep bs d (add_mset m own) w"
  by (auto simp: enq_result_def dest: world_addedD split: if_splits)

text \<open>Counters, marks and signals are outside the invariant.\<close>

lemma q_inv_frame [simp]:
  "q_inv rep (q\<lparr>ctrEnqueued := n\<rparr>) xs k = q_inv rep q xs k"
  "q_inv rep (q\<lparr>ctrFull := n\<rparr>) xs k = q_inv rep q xs k"
  "q_inv rep (q\<lparr>ctrFDscrd := n\<rparr>) xs k = q_inv rep q xs k"
  "q_inv rep (q\<lparr>ctrNFDscrd := n\<rparr>) xs k = q_inv rep q xs k"
  "q_inv rep (q\<lparr>ctrMaxqsize := i\<rparr>) xs k = q_inv rep q xs k"
  "q_inv rep (q\<lparr>msgCnt := i\<rparr>) xs k = q_inv rep q xs k"
  "q_inv rep (q\<lparr>iUpdsSincePersist := i\<rparr>) xs k = q_inv rep q xs k"
  "q_inv rep (q\<lparr>deqIDAdd := d\<rparr>) xs k = q_inv rep q xs k"
  "q_inv rep (q\<lparr>deqIDDel := d\<rparr>) xs k = q_inv rep q xs k"
  by (simp_all add: q_inv_def)

lemma world_ok_frame [simp]:
  "world_ok rep bs d own (q\<lparr>ctrEnqueued := n\<rparr>, h) = world_ok rep bs d own (q, h)"
  "world_ok rep bs d own (q\<lparr>ctrFull := n\<rparr>, h) = world_ok rep bs d own (q, h)"
  "world_ok rep bs d own (q\<lparr>ctrFDscrd := n\<rparr>, h) = world_ok rep bs d own (q, h)"
  "world_ok rep bs d own (q\<lparr>ctrNFDscrd := n\<rparr>, h) = world_ok rep bs d own (q, h)"
  "world_ok rep bs d own (q\<lparr>ctrMaxqsize := i\<rparr>, h) = world_ok rep bs d own (q, h)"
  "world_ok rep bs d own (q\<lparr>msgCnt := i\<rparr>, h) = world_ok rep bs d own (q, h)"
  "world_ok rep bs d own (q\<lparr>iUpdsSincePersist := i\<rparr>, h) = world_ok rep bs d own (q, h)"
  "world_ok rep bs d own (q\<lparr>deqIDAdd := j\<rparr>, h) = world_ok rep bs d own (q, h)"
  by (simp_all add: world_ok_def)

lemma world_added_frame [simp]:
  "world_added rep bs d own (q\<lparr>ctrMaxqsize := i\<rparr>, h) m = world_added rep bs d own (q, h) m"
  "world_added rep bs d own (q\<lparr>iUpdsSincePersist := i\<rparr>, h) m = world_added rep bs d own (q, h) m"
  by (simp_all add: world_added_def)

lemma world_ok_chkPersist [simp]:
  "world_ok rep bs d own (qqueueChkPersist q n, h) = world_ok rep bs d own (q, h)"
  "world_added rep bs d own (qqueueChkPersist q n, h) m = world_added rep bs d own (q, h) m"
  by (simp_all add: qqueueChkPersist_def Let_def)

lemma sampled_frame [simp]:
  "sampled_out (q\<lparr>ctrMaxqsize := i\<rparr>) = sampled_out q"
  "sampled_out (q\<lparr>iQueueSize := i\<rparr>) = sampled_out q"
  "sampled_out (q\<lparr>tVars := t\<rparr>) = sampled_out q"
  "sampled_out (qqueueChkPersist q n) = sampled_out q"
  by (simp_all add: sampled_out_def qqueueChkPersist_def Let_def)

lemma world_ok_destruct:
  assumes "world_ok rep bs d (add_mset m own) (q, h)"
  shows "\<exists>h'. msgDestruct h m = Some h' \<and> world_ok rep bs d own (q, h')"
proof -
  from assms obtain xs k where i: "q_inv rep q xs k" "refs_ok (add_mset m (mset (drop k xs) + own)) h"
      "iDeqBatchSize q \<le> int bs" "d \<le> k"
    by (auto simp: world_ok_def)
  from msgDestruct_refs [OF i(2)] i show ?thesis by (auto intro: world_okI)
qed

lemma world_ok_addref:
  assumes "world_ok rep bs d (add_mset m own) (q, h)"
  shows "\<exists>h'. MsgAddRef h m = Some h' \<and> world_ok rep bs d (add_mset m (add_mset m own)) (q, h')"
proof -
  from assms obtain xs k where i: "q_inv rep q xs k" "iDeqBatchSize q \<le> int bs" "d \<le> k"
    "refs_ok (mset (drop k xs) + add_mset m own) h" by (auto elim: world_okE)
  from MsgAddRef_refs [OF i(4), of m] obtain h' where "MsgAddRef h m = Some h'"
    "refs_ok (mset (drop k xs) + add_mset m (add_mset m own)) h'" by auto
  with i show ?thesis by (auto intro: world_okI)
qed

lemma world_ok_severity:
  "world_ok rep bs d (add_mset m own) (q, h) \<Longrightarrow> \<exists>sev. MsgGetSeverity h m = Some (RS_RET_OK, sev)"
  by (auto simp: world_ok_def intro: MsgGetSeverity_refs)

lemma world_ok_live: "world_ok rep bs d (add_mset m own) w \<Longrightarrow> \<exists>x. snd w m = Some x"
  by (auto simp: world_ok_def dest: refs_ok_live [where p = m])

lemma world_ok_less: "world_ok rep bs d own w \<Longrightarrow> d' \<le> d \<Longrightarrow> world_ok rep bs d' own w"
  unfolding world_ok_def by (meson order_trans)

text \<open>A new message is its creator's.\<close>

lemma world_ok_new:
  assumes "world_ok rep bs d own (q, h)" "h p = None" "iRefCount m = 1"
  shows "world_ok rep bs d (add_mset p own) (q, h(p \<mapsto> m))"
proof -
  from assms(1) obtain xs k where w: "q_inv rep q xs k" "iDeqBatchSize q \<le> int bs" "d \<le> k"
    "refs_ok (mset (drop k xs) + own) h" by (auto elim: world_okE)
  from refs_ok_new [OF w(4) assms(2,3)] show ?thesis by (intro world_okI [OF w(1-3)]) simp
qed

lemma chkDiscard_ok:
  assumes "world_ok rep bs d (add_mset m own) w"
  shows "\<exists>r w'. qqueueChkDiscardMsg w sz m = Some (r, w') \<and>
    (r = RS_RET_OK \<and> w' = w \<or> r = RS_RET_QUEUE_FULL \<and> world_ok rep bs d own w')"
proof -
  obtain q h where w: "w = (q, h)" by (cases w)
  from assms w obtain sev where "MsgGetSeverity h m = Some (RS_RET_OK, sev)"
    using world_ok_severity by blast
  moreover from assms w obtain h' where "msgDestruct h m = Some h'" "world_ok rep bs d own (q, h')"
    using world_ok_destruct by blast
  ultimately show ?thesis by (auto simp: qqueueChkDiscardMsg_def w)
qed

section \<open>The enqueue path on any store that keeps the driver's laws\<close>

text \<open>What a phase leaves: a call that sleeps still holds the message, an ended one has a result.\<close>

fun phase_ok :: "(int \<Rightarrow> 's \<Rightarrow> msgptr list \<Rightarrow> nat \<Rightarrow> bool) \<Rightarrow> nat \<Rightarrow> nat \<Rightarrow> msgptr multiset \<Rightarrow>
    bool \<Rightarrow> msgptr \<Rightarrow> 's enq_state \<Rightarrow> bool" where
  "phase_ok rep bs d own ok m (Blocked st w) = world_ok rep bs d (add_mset m own) w"
| "phase_ok rep bs d own ok m (Ended r w) = enq_result rep bs d own ok m r w"

context queue_driver
begin

lemma not_full_room:
  "q_inv rep q xs k \<Longrightarrow> \<not> queueIsFull q \<Longrightarrow> room (iMaxQueueSize q) (length xs)"
  by (rule rep_room [of _ "tVars q" xs k]) (auto simp: q_inv_def queueIsFull_def)

lemma q_inv_added:
  assumes "q_inv rep q xs k" and "\<not> queueIsFull q" and "rep (iMaxQueueSize q) t (xs @ [m]) k"
  shows "q_inv rep (q\<lparr>tVars := t, iQueueSize := iQueueSize q + 1\<rparr>) (xs @ [m]) k"
  using assms by (auto simp: q_inv_def queueIsFull_def)

lemma add_steps:
  assumes "q_inv rep q xs k" and "\<not> queueIsFull q"
  shows "\<exists>r t. qAdd drv (iMaxQueueSize q) ok (tVars q) m = Some (r, t) \<and>
    (r = RS_RET_OK \<and> q_inv rep (q\<lparr>tVars := t, iQueueSize := iQueueSize q + 1\<rparr>) (xs @ [m]) k \<or>
     r = RS_RET_OUT_OF_MEMORY \<and> t = tVars q \<and> \<not> ok)"
proof -
  have r: "rep (iMaxQueueSize q) (tVars q) xs k" using assms(1) by (simp add: q_inv_def)
  from rep_add [OF r not_full_room [OF assms], of ok m] show ?thesis
    using q_inv_added [OF assms] by blast
qed

lemma refs_append:
  "k \<le> length xs \<Longrightarrow> mset (drop k (xs @ [m])) + own = mset (drop k xs) + add_mset m own"
  by simp

lemma q_inv_le: "q_inv rep q xs k \<Longrightarrow> k \<le> length xs"
  by (auto simp: q_inv_def dest: rep_le)

lemma qqueueAdd_ok:
  assumes "world_ok rep bs d (add_mset m own) w" and "\<not> queueIsFull (fst w)"
  shows "\<exists>r w'. qqueueAdd drv ok w m = Some (r, w') \<and>
    (r = RS_RET_OK \<and> (if sampled_out (fst w') then world_ok rep bs d own w' else world_added rep bs d own w' m) \<or>
     r = RS_RET_OUT_OF_MEMORY \<and> \<not> ok \<and> world_ok rep bs d (add_mset m own) w')"
proof -
  obtain q h where w: "w = (q, h)" by (cases w)
  let ?cnt = "(msgCnt q + 1) mod iSmpInterval q"
  let ?q1 = "if iSmpInterval q > 0 then q\<lparr>msgCnt := ?cnt\<rparr> else q"
  from assms w obtain xs k where i: "q_inv rep q xs k" "refs_ok (mset (drop k xs) + add_mset m own) h"
      "iDeqBatchSize q \<le> int bs" "d \<le> k"
    by (auto elim: world_okE)
  show ?thesis
  proof (cases "iSmpInterval q > 0 \<and> ?cnt \<noteq> 0")
    case True
    from assms(1) w obtain h' where "msgDestruct h m = Some h'" "world_ok rep bs d own (q, h')"
      using world_ok_destruct by blast
    with True w show ?thesis by (simp add: qqueueAdd_def sampled_out_def)
  next
    case False
    have i1: "q_inv rep ?q1 xs k" using i(1) by simp
    have nf: "\<not> queueIsFull ?q1" using assms(2) w by (simp add: queueIsFull_def)
    from add_steps [OF i1 nf, of ok m] obtain r t where
      t: "qAdd drv (iMaxQueueSize ?q1) ok (tVars ?q1) m = Some (r, t)"
      and d: "r = RS_RET_OK \<and> q_inv rep (?q1\<lparr>tVars := t, iQueueSize := iQueueSize ?q1 + 1\<rparr>) (xs @ [m]) k \<or>
         r = RS_RET_OUT_OF_MEMORY \<and> t = tVars ?q1 \<and> \<not> ok" by blast
    have ty: "qType q \<noteq> QUEUETYPE_DIRECT" using i(1) by (auto simp: q_inv_def)
    from False t w have run: "qqueueAdd drv ok w m = Some (r,
        if r = RS_RET_OK \<and> qType q \<noteq> QUEUETYPE_DIRECT
        then ?q1\<lparr>tVars := t, iQueueSize := iQueueSize ?q1 + 1\<rparr> else ?q1\<lparr>tVars := t\<rparr>, h)"
      by (auto simp: qqueueAdd_def Let_def)
    from d show ?thesis
    proof
      assume ok: "r = RS_RET_OK \<and> q_inv rep (?q1\<lparr>tVars := t, iQueueSize := iQueueSize ?q1 + 1\<rparr>) (xs @ [m]) k"
      have "refs_ok (mset (drop k (xs @ [m])) + own) h"
        unfolding refs_append [OF q_inv_le [OF i(1)]] by (rule i(2))
      then have "world_added rep bs d own (?q1\<lparr>tVars := t, iQueueSize := iQueueSize ?q1 + 1\<rparr>, h) m"
        unfolding world_added_def using i(3,4) conjunct2 [OF ok] q_inv_le [OF i(1)]
        by (intro conjI exI [of _ xs] exI [of _ k]) simp_all
      moreover have "\<not> sampled_out ?q1" using False by (auto simp: sampled_out_def)
      ultimately show ?thesis using ok run ty by simp
    next
      assume oom: "r = RS_RET_OUT_OF_MEMORY \<and> t = tVars ?q1 \<and> \<not> ok"
      have "world_ok rep bs d (add_mset m own) (?q1, h)" using i by (intro world_okI [OF i1]) simp_all
      with oom run show ?thesis by simp
    qed
  qed
qed

text \<open>
  Every phase of an enqueue takes the caller's reference: it ends in the queue or is dropped.
  The two exceptions are input termination and a failed allocation, where the caller still
  holds it.
\<close>

lemma enqInsert_ok:
  assumes "world_ok rep bs d (add_mset m own) w" and "\<not> queueIsFull (fst w)"
  shows "\<exists>s. enqInsert drv ok w m = Some s \<and> phase_ok rep bs d own ok m s"
proof -
  from qqueueAdd_ok [OF assms, of ok] obtain r q' h' where
    a: "qqueueAdd drv ok w m = Some (r, q', h')" and
    b: "r = RS_RET_OK \<and> (if sampled_out q' then world_ok rep bs d own (q', h') else world_added rep bs d own (q', h') m) \<or>
      r = RS_RET_OUT_OF_MEMORY \<and> \<not> ok \<and> world_ok rep bs d (add_mset m own) (q', h')" by force
  show ?thesis using a b by (auto simp: enqInsert_def enq_result_def)
qed

lemma enqAtFull_ok:
  assumes "world_ok rep bs d (add_mset m own) w"
  shows "\<exists>s. enqAtFull drv ok trm w m = Some s \<and> phase_ok rep bs d own ok m s"
proof -
  obtain q h where w: "w = (q, h)" by (cases w)
  from assms w obtain h' where "msgDestruct h m = Some h'" "world_ok rep bs d own (q, h')"
    using world_ok_destruct by blast
  then show ?thesis
    using enqInsert_ok [OF assms, of ok] assms by (auto simp: enqAtFull_def w Let_def enq_result_def)
qed

lemma enqAtFlow_ok:
  "world_ok rep bs d (add_mset m own) w \<Longrightarrow>
   \<exists>s. enqAtFlow drv ok fc trm w m = Some s \<and> phase_ok rep bs d own ok m s"
  using enqAtFull_ok by (auto simp: enqAtFlow_def)

lemma enqStart_ok:
  assumes "world_ok rep bs d (add_mset m own) w"
  shows "\<exists>s. enqStart drv ok trm fc w m = Some s \<and> phase_ok rep bs d own ok m s"
proof -
  let ?w0 = "(fst w\<lparr>ctrEnqueued := statsInc (fst w) (ctrEnqueued (fst w))\<rparr>, snd w)"
  have w0: "world_ok rep bs d (add_mset m own) ?w0" using assms by simp
  from chkDiscard_ok [OF w0, of "iQueueSize (fst ?w0)"] obtain r w1 where
    c: "qqueueChkDiscardMsg ?w0 (iQueueSize (fst ?w0)) m = Some (r, w1)"
    and c': "r = RS_RET_OK \<and> w1 = ?w0 \<or> r = RS_RET_QUEUE_FULL \<and> world_ok rep bs d own w1" by blast
  show ?thesis
  proof (cases "r = RS_RET_OK")
    case True
    with c' have "w1 = ?w0" by simp
    with True c enqAtFlow_ok [OF w0, of ok fc trm] show ?thesis unfolding enqStart_def Let_def by simp
  next
    case False
    with c c' show ?thesis unfolding enqStart_def Let_def by (simp add: enq_result_def)
  qed
qed

lemma enqWake_ok:
  assumes "world_ok rep bs d (add_mset m own) w"
  shows "\<exists>s. enqWake drv ok st ret trm w m = Some s \<and> phase_ok rep bs d own ok m s"
proof -
  obtain q h where w: "w = (q, h)" by (cases w)
  from assms w obtain h' where "msgDestruct h m = Some h'" "world_ok rep bs d own (q, h')"
    using world_ok_destruct by blast
  then show ?thesis
    using enqAtFull_ok [OF assms, of ok trm] enqAtFlow_ok [OF assms, of ok eFLOWCTL_FULL_DELAY trm]
    by (cases st; cases ret) (simp_all add: enqWake_def enq_result_def w)
qed

text \<open>A whole call, whatever the other threads do with their shares in its waits.\<close>

lemma enqRun_ok:
  assumes "waits_ok rep bs d (add_mset m own) g ws gs"
    and "phase_ok rep bs (d + fst g) (own + snd g) ok m s"
  shows "\<exists>p. enqRun drv ok m ws s = Some p \<and>
    (\<forall>r w'. p = Done (r, w') \<longrightarrow>
       (\<exists>g' \<in> set (g # gs). enq_result rep bs (d + fst g') (own + snd g') ok m r w'))"
  using assms
proof (induction ws arbitrary: g gs s)
  case Nil
  then show ?case by (cases s) auto
next
  case (Cons e es)
  then obtain g1 gs1 where gs: "gs = g1 # gs1" and e: "event_ok rep bs d (add_mset m own) g e g1"
    and ev: "waits_ok rep bs d (add_mset m own) g1 es gs1" by (cases gs) auto
  show ?case
  proof (cases s)
    case (Ended r w)
    with Cons.prems(2) show ?thesis by (cases w) auto
  next
    case (Blocked st w)
    with Cons.prems(2) have "world_ok rep bs (d + fst g) (add_mset m own + snd g) w" by simp
    with e have "world_ok rep bs (d + fst g1) (add_mset m own + snd g1) (wothers e w)"
      unfolding event_ok_def by blast
    then have "world_ok rep bs (d + fst g1) (add_mset m (own + snd g1)) (wothers e w)" by simp
    from enqWake_ok [OF this, of ok st "wret e" "wterm e"] obtain s1 where
      s1: "enqWake drv ok st (wret e) (wterm e) (wothers e w) m = Some s1"
        "phase_ok rep bs (d + fst g1) (own + snd g1) ok m s1" by blast
    from Cons.IH [OF ev s1(2)] s1(1) Blocked gs show ?thesis by auto
  qed
qed

lemma enq_ok:
  assumes "waits_ok rep bs d (add_mset m own) g ws gs"
    and "world_ok rep bs (d + fst g) (add_mset m own + snd g) w"
  shows "\<exists>p. doEnqSingleObj drv ok ws trm fc w m = Some p \<and>
    (\<forall>r w'. p = Done (r, w') \<longrightarrow>
       (\<exists>g' \<in> set (g # gs). enq_result rep bs (d + fst g') (own + snd g') ok m r w'))"
proof -
  have "world_ok rep bs (d + fst g) (add_mset m (own + snd g)) w" using assms(2) by simp
  from enqStart_ok [OF this, of ok trm fc] obtain s where
    "enqStart drv ok trm fc w m = Some s" "phase_ok rep bs (d + fst g) (own + snd g) ok m s" by blast
  with enqRun_ok [OF assms(1) this(2)] show ?thesis by (simp add: doEnqSingleObj_phases)
qed

lemma enq_result_persist:
  "enq_result rep bs d own ok m RS_RET_OK (qqueueChkPersist q n, h) = enq_result rep bs d own ok m RS_RET_OK (q, h)"
  by (simp add: enq_result_def)

lemma enqMsg_ok:
  assumes "waits_ok rep bs d (add_mset m own) g ws gs"
    and "world_ok rep bs (d + fst g) (add_mset m own + snd g) w"
  shows "\<exists>p. qqueueEnqMsg drv ok ws trm fc w m = Some p \<and>
    (\<forall>r w'. p = Done (r, w') \<longrightarrow>
       (\<exists>g' \<in> set (g # gs). enq_result rep bs (d + fst g') (own + snd g') ok m r w'))"
proof -
  from enq_ok [OF assms, of ok trm fc] obtain p where
    p: "doEnqSingleObj drv ok ws trm fc w m = Some p" and
    d: "\<And>r w'. p = Done (r, w') \<Longrightarrow>
       \<exists>g' \<in> set (g # gs). enq_result rep bs (d + fst g') (own + snd g') ok m r w'" by blast
  show ?thesis
  proof (cases p)
    case Waiting
    with p show ?thesis by (simp add: qqueueEnqMsg_def)
  next
    case (Done x)
    obtain r q' h' where x: "x = (r, q', h')" by (cases x) auto
    from d [of r "(q', h')"] Done x p show ?thesis
      by (cases "r = RS_RET_OK") (auto simp: qqueueEnqMsg_def enq_result_persist)
  qed
qed

text \<open>
  A multi-submit structure whose calls do not have to wait: every reference is taken over when
  it returns OK; otherwise those from the message on that stopped it are still the caller's.
\<close>

lemma multi_ok:
  assumes "\<forall>(m, ok, ws, trm) \<in> set subs. ws = []"
    and "world_ok rep bs d (mset (map fst subs) + own) w"
  shows "\<exists>p. multiEnqLoop drv subs w = Some p \<and>
    (\<forall>r w'. p = Done (r, w') \<longrightarrow>
       r = RS_RET_OK \<and> world_ok rep bs d own w' \<or>
       r \<in> {RS_RET_FORCE_TERM, RS_RET_OUT_OF_MEMORY} \<and>
         (\<exists>j < length subs. world_ok rep bs d (mset (map fst (drop j subs)) + own) w'))"
  using assms
proof (induction subs arbitrary: w)
  case Nil
  then show ?case by (cases w) auto
next
  case (Cons sub subs)
  obtain m ok trm where sub: "sub = (m, ok, [], trm)" using Cons.prems(1) by (cases sub) auto
  let ?own = "mset (map fst subs) + own"
  from Cons.prems(2) sub have w: "world_ok rep bs d (add_mset m ?own) w" by simp
  then obtain x where x: "snd w m = Some x" using world_ok_live by blast
  from enq_ok [of bs d m ?own "(0, {#})" "[]" "[]" w ok trm "flowCtlType x"] w obtain p where
    p: "doEnqSingleObj drv ok [] trm (flowCtlType x) w m = Some p" and
    d: "\<And>r w'. p = Done (r, w') \<Longrightarrow> enq_result rep bs d ?own ok m r w'" by auto
  show ?case
  proof (cases p)
    case Waiting
    with p x sub show ?thesis by simp
  next
    case (Done y)
    obtain r w1 where y: "y = (r, w1)" by (cases y)
    from enq_result_ok [OF d [of r w1]] Done y have d1:
      "r \<in> {RS_RET_OK, RS_RET_QUEUE_FULL} \<and> world_ok rep bs d ?own w1 \<or>
       r \<in> {RS_RET_FORCE_TERM, RS_RET_OUT_OF_MEMORY} \<and> world_ok rep bs d (add_mset m ?own) w1" by simp
    show ?thesis
    proof (cases "r \<in> {RS_RET_OK, RS_RET_QUEUE_FULL}")
      case True
      with d1 have w1: "world_ok rep bs d ?own w1" by auto
      have step: "multiEnqLoop drv (sub # subs) w = multiEnqLoop drv subs w1"
        using True p x sub Done y by auto
      have "\<forall>(m, ok, ws, trm) \<in> set subs. ws = []" using Cons.prems(1) by simp
      from Cons.IH [OF this w1] obtain p' where p': "multiEnqLoop drv subs w1 = Some p'" and
        d': "\<And>r w'. p' = Done (r, w') \<Longrightarrow> r = RS_RET_OK \<and> world_ok rep bs d own w' \<or>
         r \<in> {RS_RET_FORCE_TERM, RS_RET_OUT_OF_MEMORY} \<and>
         (\<exists>j < length subs. world_ok rep bs d (mset (map fst (drop j subs)) + own) w')" by blast
      show ?thesis unfolding step
      proof (intro exI [of _ p'] conjI p' allI impI)
        fix r' w' assume "p' = Done (r', w')"
        from d' [OF this] show "r' = RS_RET_OK \<and> world_ok rep bs d own w' \<or>
         r' \<in> {RS_RET_FORCE_TERM, RS_RET_OUT_OF_MEMORY} \<and>
         (\<exists>j < length (sub # subs). world_ok rep bs d (mset (map fst (drop j (sub # subs))) + own) w')"
          by (metis Suc_less_eq drop_Suc_Cons length_Cons)
      qed
    next
      case False
      then have step: "multiEnqLoop drv (sub # subs) w = Some (Done (r, w1))"
        using p x sub Done y by auto
      have "world_ok rep bs d (mset (map fst (drop 0 (sub # subs))) + own) w1" and
          r: "r \<in> {RS_RET_FORCE_TERM, RS_RET_OUT_OF_MEMORY}"
        using False d1 sub by auto
      then show ?thesis unfolding step by (intro exI [of _ "Done (r, w1)"]) (auto simp del: drop_0)
    qed
  qed
qed

end

text \<open>The discard check lets a message pass.\<close>

definition passes :: "'s qqueue \<Rightarrow> msgheap \<Rightarrow> int \<Rightarrow> msgptr \<Rightarrow> bool" where
  "passes q h sz m \<longleftrightarrow> iDiscardMrk q \<le> 0 \<or> sz < iDiscardMrk q \<or>
     (\<exists>x. h m = Some x \<and> iSeverity x < iDiscardSeverity q)"

lemma chkDiscard_pass:
  "passes q h sz m \<Longrightarrow> qqueueChkDiscardMsg (q, h) sz m = Some (RS_RET_OK, q, h)"
  by (auto simp: passes_def qqueueChkDiscardMsg_def MsgGetSeverity_def)

lemma chkDiscard_drop:
  "\<not> passes q h sz m \<Longrightarrow> msgDestruct h m = Some h' \<Longrightarrow>
   qqueueChkDiscardMsg (q, h) sz m =
     Some (RS_RET_QUEUE_FULL, q\<lparr>ctrNFDscrd := statsInc q (ctrNFDscrd q)\<rparr>, h')"
  by (auto simp: passes_def qqueueChkDiscardMsg_def MsgGetSeverity_def msgDestruct_def not_less
      split: option.splits)

context queue_driver
begin

text \<open>With room and nothing to discard, sample or wait for, the message becomes the last element.\<close>

lemma enq_appends_cfg:
  assumes i: "q_inv rep q xs k" and nf: "\<not> queueIsFull q"
    and nd: "passes q h (iQueueSize q) m" and ns: "iSmpInterval q \<le> 0"
    and fc: "fc = eFLOWCTL_NO_DELAY \<or>
       iQueueSize q < iFullDlyMrk q \<and> iQueueSize q < iLightDlyMrk q"
  shows "\<exists>q'. doEnqSingleObj drv True ws trm fc (q, h) m = Some (Done (RS_RET_OK, (q', h))) \<and>
    q_inv rep q' (xs @ [m]) k \<and> same_cfg q q'"
proof -
  let ?q0 = "q\<lparr>ctrEnqueued := statsInc q (ctrEnqueued q)\<rparr>"
  have i0: "q_inv rep ?q0 xs k" and nf0: "\<not> queueIsFull ?q0" using i nf by (simp_all add: queueIsFull_def)
  from add_steps [OF i0 nf0, of True m] obtain t where
    t: "qAdd drv (iMaxQueueSize ?q0) True (tVars ?q0) m = Some (RS_RET_OK, t)" and
    i1: "q_inv rep (?q0\<lparr>tVars := t, iQueueSize := iQueueSize ?q0 + 1\<rparr>) (xs @ [m]) k" by blast
  have ty: "qType q \<noteq> QUEUETYPE_DIRECT" using i by (auto simp: q_inv_def)
  have "passes ?q0 h (iQueueSize ?q0) m" using nd by (simp add: passes_def)
  note c = chkDiscard_pass [OF this]
  have f: "flowControl fc ws trm (?q0, h) = Done (ws, trm, ?q0, h)"
    using fc by (auto simp: flowControl_def lightDelayWait_def fullDelayWait.simps [of ws]
        split: flowControl_t.splits)
  have b: "queueFullWait ws trm (?q0, h) m = Some (Done (RS_RET_OK, ?q0, h))"
    using nf0 by (simp add: queueFullWait.simps)
  have a: "qqueueAdd drv True (?q0, h) m =
      Some (RS_RET_OK, ?q0\<lparr>tVars := t, iQueueSize := iQueueSize ?q0 + 1\<rparr>, h)"
    using ns t ty by (simp add: qqueueAdd_def)
  show ?thesis
    using c f b a i1 by (auto simp: doEnqSingleObj_def Let_def same_cfg_def)
qed

lemma enq_appends:
  assumes i: "q_inv rep q xs k" and nf: "\<not> queueIsFull q"
    and nd: "passes q h (iQueueSize q) m" and ns: "iSmpInterval q \<le> 0"
    and fc: "fc = eFLOWCTL_NO_DELAY \<or>
       iQueueSize q < iFullDlyMrk q \<and> iQueueSize q < iLightDlyMrk q"
  shows "\<exists>q'. doEnqSingleObj drv True ws trm fc (q, h) m = Some (Done (RS_RET_OK, (q', h))) \<and>
    q_inv rep q' (xs @ [m]) k"
  using enq_appends_cfg [OF assms] by blast

text \<open>
  \<open>queueDrain\<close> hands out one element and deletes one in each round; the \<open>k\<close> elements that
  were dequeued before stay in front of it.
\<close>

lemma drain_loop:
  assumes "rep (iMaxQueueSize q) (tVars q) xs k" and "iQueueSize q = int n"
    and "0 < n" and "k + n \<le> Suc (length xs)"
    and "refs_ok (mset (drop k xs) + ext) h"
  shows "\<exists>q' h'. queueDrain drv (q, h) = Some (q', h') \<and> iQueueSize q' = 0 \<and>
    rep (iMaxQueueSize q') (tVars q') (drop (n - 1) xs) k \<and>
    refs_ok (mset (drop (k + (n - 1)) xs) + ext) h'"
  using assms
proof (induction n arbitrary: q h xs)
  case 0
  then show ?case by simp
next
  case (Suc n)
  show ?case
  proof (cases "n = 0")
    case True
    with Suc.prems show ?thesis by (simp add: queueDrain.simps)
  next
    case False
    let ?q1 = "q\<lparr>iQueueSize := iQueueSize q - 1\<rparr>"
    let ?mx = "iMaxQueueSize q"
    from False Suc.prems(4) have k: "k < length xs" by simp
    from rep_deq [OF Suc.prems(1) k] obtain t where
      t: "qDeq drv ?mx (tVars q) = Some (RS_RET_OK, xs ! k, t)" "rep ?mx t xs (Suc k)" by blast
    from rep_del [OF t(2)] obtain t2 where
      t2: "qDel drv ?mx t = Some (RS_RET_OK, t2)" "rep ?mx t2 (tl xs) k" by auto
    have dr: "drop k xs = xs ! k # drop k (tl xs)"
      using k by (metis Cons_nth_drop_Suc drop_Suc drop_tl)
    from Suc.prems(5) have "refs_ok (add_mset (xs ! k) (mset (drop k (tl xs)) + ext)) h"
      unfolding dr by simp
    from msgDestruct_refs [OF this] obtain h1 where
      h1: "msgDestruct h (xs ! k) = Some h1" "refs_ok (mset (drop k (tl xs)) + ext) h1" by blast
    let ?q2 = "?q1\<lparr>tVars := t2\<rparr>"
    have step: "queueDrain drv (q, h) = queueDrain drv (?q2, h1)"
      using t(1) t2(1) h1(1) Suc.prems(2) False by (subst queueDrain.simps) (simp add: Let_def)
    have "\<exists>q' h'. queueDrain drv (?q2, h1) = Some (q', h') \<and> iQueueSize q' = 0 \<and>
      rep (iMaxQueueSize q') (tVars q') (drop (n - 1) (tl xs)) k \<and>
      refs_ok (mset (drop (k + (n - 1)) (tl xs)) + ext) h'"
      by (rule Suc.IH) (use False Suc.prems t2(2) h1(2) in auto)
    moreover have "drop (n - 1) (tl xs) = drop n xs" "drop (k + (n - 1)) (tl xs) = drop (k + n) xs"
      using False drop_tl_pred [of n xs] drop_tl_pred [of "k + n" xs] by simp_all
    ultimately show ?thesis using step by simp
  qed
qed

lemma drain_ok:
  assumes "q_inv rep q xs 0" and "xs \<noteq> []" and "refs_ok (mset xs + ext) h"
  shows "\<exists>q' h'. queueDrain drv (q, h) = Some (q', h') \<and> iQueueSize q' = 0 \<and>
    rep (iMaxQueueSize q') (tVars q') [last xs] 0 \<and> refs_ok (add_mset (last xs) ext) h'"
proof -
  have "drop (length xs - 1) xs = [last xs]"
    using assms(2) by (metis append_butlast_last_id append_eq_conv_conj length_butlast)
  then show ?thesis
    using drain_loop [of q xs 0 "length xs" ext h] assms by (auto simp: q_inv_def)
qed

end

section \<open>Start parameters and worker advice\<close>

lemma c_div_100: "0 \<le> mx \<Longrightarrow> c_div mx 100 = Some (mx div 100)"
  by (simp add: c_div_pos)

lemma startHighWtrMrk_range:
  "0 < mx \<Longrightarrow> \<exists>v. startHighWtrMrk mx hi = Some v \<and> 1 \<le> v \<and> v \<le> mx"
  by (auto simp: startHighWtrMrk_def c_div_100 Let_def)

lemma startLowWtrMrk_range:
  "0 < mx \<Longrightarrow> \<exists>v. startLowWtrMrk mx hi lo = Some v \<and> 1 \<le> v \<and> v \<le> mx"
  by (auto simp: startLowWtrMrk_def c_div_100 Let_def)

lemma startDlyMrk_range:
  "0 < mx \<Longrightarrow> 0 < pct \<Longrightarrow> pct \<le> 100 \<Longrightarrow>
   \<exists>v. startDlyMrk pct mx mrk = Some v \<and> v \<le> mx \<and> (mrk = -1 \<or> 0 < mrk \<longrightarrow> 1 \<le> v)"
proof -
  assume a: "0 < mx" "0 < pct" "pct \<le> 100"
  have b: "mx div 100 * pct \<le> mx"
  proof -
    have "mx div 100 * pct \<le> mx div 100 * 100" using a by (intro mult_left_mono) auto
    then show ?thesis by linarith
  qed
  have c: "0 < mx div 100 * pct" if "mx div 100 \<noteq> 0"
  proof -
    have "0 < mx div 100" using that a(1) by presburger
    with a(2) show ?thesis by simp
  qed
  then have c: "1 \<le> mx div 100 * pct" if "mx div 100 \<noteq> 0" using that by fastforce
  show ?thesis using a b c by (auto simp: startDlyMrk_def c_div_100 Let_def)
qed

lemma startDiscardMrk_range:
  "0 < mx \<Longrightarrow> \<exists>v. startDiscardMrk mx mrk = Some v \<and> 1 \<le> v \<and> v \<le> mx"
  by (auto simp: startDiscardMrk_def c_div_100 Let_def)

lemma advise_total: "\<exists>a. qqueueAdviseMaxWorkers q = Some a"
  by (auto simp: qqueueAdviseMaxWorkers_def c_div_def Let_def)

lemma fullDelay_stuck:
  assumes "0 \<le> iQueueSize (fst w)" and "iFullDlyMrk (fst w) \<le> 0"
    and "\<forall>e \<in> set ws. (\<forall>n. wret e \<noteq> COND_ERR n) \<and> \<not> wterm e \<and>
       (\<forall>w. 0 \<le> iQueueSize (fst w) \<and> iFullDlyMrk (fst w) \<le> 0 \<longrightarrow>
          0 \<le> iQueueSize (fst (wothers e w)) \<and> iFullDlyMrk (fst (wothers e w)) \<le> 0)"
  shows "fullDelayWait ws False w = Waiting"
  using assms
proof (induction ws arbitrary: w)
  case Nil
  then show ?case by (simp add: fullDelayWait.simps)
next
  case (Cons e es)
  have "fullDelayWait es False (wothers e w) = Waiting"
    by (rule Cons.IH) (use Cons.prems in \<open>cases w; auto\<close>)+
  then show ?case
    using Cons.prems by (cases "wret e") (auto simp: fullDelayWait.simps [of "e # es"])
qed

section \<open>Properties\<close>

text \<open>Concrete objects for the witnesses.\<close>

definition msg_ex :: "int \<Rightarrow> smsg" where
  "msg_ex sev = \<lparr>flowCtlType = eFLOWCTL_NO_DELAY, iRefCount = 1, iSeverity = sev, msgFlags = 0,
     iLenRawMsg = 0, ttGenTime = 0, msgMSG = [], msgHOSTNAME = [], msgPROCID = [], msgAPPNAME = []\<rparr>"

definition ll_ex :: linklist where
  "ll_ex = \<lparr>pDeqRoot = None, pDelRoot = None, pLast = None, nodes = Map.empty, fresh = 0\<rparr>"

definition fa_ex :: farray where
  "fa_ex = \<lparr>deqhead = 0, head = 0, tail = 0, pBuf = [None, None]\<rparr>"

definition llq_ex :: "linklist qqueue" where
  "llq_ex = (the (snd (qqueueConstruct True 0 True ll_ex QUEUETYPE_LINKEDLIST 1 2)))"

definition faq_ex :: "farray qqueue" where
  "faq_ex = (the (snd (qqueueConstruct True 0 True fa_ex QUEUETYPE_FIXED_ARRAY 1 2)))"

lemma llq_ex_inv: "q_inv linklist_rep llq_ex [] 0"
  by (auto simp: q_inv_def llq_ex_def qqueueConstruct_def ll_ex_def linklist_rep_def ll_rep_def)

lemma faq_ex_inv: "q_inv farray_rep faq_ex [] 0"
  by (auto simp: q_inv_def faq_ex_def qqueueConstruct_def fa_ex_def farray_rep_def)

lemma llq_ex_bs: "iDeqBatchSize llq_ex = 8"
  by (simp add: llq_ex_def qqueueConstruct_def)

lemma faq_ex_bs: "iDeqBatchSize faq_ex = 8"
  by (simp add: faq_ex_def qqueueConstruct_def)

lemma refs_msg_ex: "refs_ok {#m#} [m \<mapsto> msg_ex sev]"
  by (rule refs_okI) (auto simp: msg_ex_def split: if_splits)

text \<open>
  C11: Enqueueing one message into a linked-list queue never runs into undefined behaviour and
  accounts exactly for every reference, whatever the other threads do with their own shares of
  the queue and the messages during the waits: on OK the message is the newest element of the
  queue (or was released, when sampling leaves it out), on queue-full it was released, and on
  input termination or a failed allocation the caller still holds its reference; every other
  reference is held as before.
\<close>

theorem enqueue_conserves_references:
  assumes "waits_ok linklist_rep bs d (add_mset m own) g ws gs"
    and "world_ok linklist_rep bs (d + fst g) (add_mset m own + snd g) w"
  shows "\<exists>p. qqueueEnqMsg linklist_driver ok ws trm fc w m = Some p \<and>
    (\<forall>r w'. p = Done (r, w') \<longrightarrow>
       (\<exists>g' \<in> set (g # gs). enq_result linklist_rep bs (d + fst g') (own + snd g') ok m r w'))"
  using assms by (rule ll.enqMsg_ok)

text \<open>
  The witness: the queue of two elements is full with the messages 7 and 8, the first dequeued by
  a worker that holds it; the call for message 9 sleeps until that worker deleted its batch.
\<close>

definition llq4_ex :: "linklist qqueue" where
  "llq4_ex = llq_ex\<lparr>iQueueSize := 2, nLogDeq := 1, toEnq := 10, iDiscardMrk := 2, iDiscardSeverity := 8, tVars :=
     \<lparr>pDeqRoot = Some 1, pDelRoot = Some 0, pLast = Some 1,
      nodes = [0 \<mapsto> \<lparr>ll_pNext = Some 1, ll_pMsg = 7\<rparr>, 1 \<mapsto> \<lparr>ll_pNext = None, ll_pMsg = 8\<rparr>], fresh = 2\<rparr>\<rparr>"

lemma llq4_ex_inv: "q_inv linklist_rep llq4_ex [7, 8] 1"
  by (auto simp: q_inv_def llq4_ex_def llq_ex_def qqueueConstruct_def linklist_rep_def ll_rep_def
      less_Suc_eq intro!: exI [of _ "[0, 1]"])

definition llq5_ex :: "linklist qqueue" where
  "llq5_ex = llq_ex\<lparr>iQueueSize := 1, nLogDeq := 0, toEnq := 10, iDiscardMrk := 2, iDiscardSeverity := 8, tVars :=
     \<lparr>pDeqRoot = Some 1, pDelRoot = Some 1, pLast = Some 1,
      nodes = [1 \<mapsto> \<lparr>ll_pNext = None, ll_pMsg = 8\<rparr>], fresh = 2\<rparr>\<rparr>"

lemma llq5_ex_inv: "q_inv linklist_rep llq5_ex [8] 0"
  by (auto simp: q_inv_def llq5_ex_def llq_ex_def qqueueConstruct_def linklist_rep_def ll_rep_def
      less_Suc_eq intro!: exI [of _ "[1]"])

definition wake_ex :: "linklist wait_event" where
  "wake_ex = \<lparr>wret = COND_OK, wothers = (\<lambda>_. (llq5_ex, [8 \<mapsto> msg_ex 3, 9 \<mapsto> msg_ex 4])), wterm = False\<rparr>"

lemma llq_ex_bss: "iDeqBatchSize llq4_ex = 8" "iDeqBatchSize llq5_ex = 8"
  by (simp_all add: llq4_ex_def llq5_ex_def llq_ex_bs)

lemma wake_ex_ok: "waits_ok linklist_rep 8 0 {#9#} (1, {#7#}) [wake_ex] [(0, {#})]"
proof -
  have "refs_ok (mset (drop 0 [8]) + {#9#}) [8 \<mapsto> msg_ex 3, 9 \<mapsto> msg_ex 4]"
    by (rule refs_okI) (auto simp: msg_ex_def split: if_splits)
  then show ?thesis
    by (auto simp: event_ok_def wake_ex_def llq_ex_bss intro!: world_okI [OF llq5_ex_inv])
qed

theorem enqueue_conserves_references_witness:
  "\<exists>p. qqueueEnqMsg linklist_driver True [wake_ex] False eFLOWCTL_NO_DELAY
      (llq4_ex, [7 \<mapsto> msg_ex 2, 8 \<mapsto> msg_ex 3, 9 \<mapsto> msg_ex 4]) 9 = Some p \<and>
    (\<forall>r w'. p = Done (r, w') \<longrightarrow>
       (\<exists>g' \<in> set [(1, {#7#}), (0, {#})]. enq_result linklist_rep 8 (0 + fst g') ({#} + snd g') True 9 r w'))"
proof (rule enqueue_conserves_references [OF wake_ex_ok])
  have "refs_ok (mset (drop 1 [7, 8]) + ({#9#} + {#7#})) [7 \<mapsto> msg_ex 2, 8 \<mapsto> msg_ex 3, 9 \<mapsto> msg_ex 4]"
    by (rule refs_okI) (auto simp: msg_ex_def split: if_splits)
  then show "world_ok linklist_rep 8 (0 + fst (1, {#7#})) ({#9#} + snd (1, {#7#}))
      (llq4_ex, [7 \<mapsto> msg_ex 2, 8 \<mapsto> msg_ex 3, 9 \<mapsto> msg_ex 4])"
    by (intro world_okI [OF llq4_ex_inv]) (simp_all add: llq_ex_bss)
qed

text \<open>
  Submitting a batch of messages to a fixed-array queue never runs into undefined
  behaviour and accounts for every reference, when no call has to wait. When it returns OK every
  reference was taken over; when it stops early (input termination, no memory) the caller holds
  those from the message that stopped it on.
\<close>

theorem multi_submit_conserves_references:
  assumes "\<forall>(m, ok, ws, trm) \<in> set subs. ws = []"
    and "world_ok farray_rep bs d (mset (map fst subs) + own) w"
  shows "\<exists>p. qqueueMultiEnqObjNonDirect farray_driver subs w = Some p \<and>
    (\<forall>r w'. p = Done (r, w') \<longrightarrow>
       r = RS_RET_OK \<and> world_ok farray_rep bs d own w' \<or>
       r \<in> {RS_RET_FORCE_TERM, RS_RET_OUT_OF_MEMORY} \<and>
         (\<exists>j < length subs. world_ok farray_rep bs d (mset (map fst (drop j subs)) + own) w'))"
proof -
  from fa.multi_ok [OF assms] obtain p where p: "multiEnqLoop farray_driver subs w = Some p" and
    d: "\<forall>r w'. p = Done (r, w') \<longrightarrow> r = RS_RET_OK \<and> world_ok farray_rep bs d own w' \<or>
       r \<in> {RS_RET_FORCE_TERM, RS_RET_OUT_OF_MEMORY} \<and>
         (\<exists>j < length subs. world_ok farray_rep bs d (mset (map fst (drop j subs)) + own) w')" by blast
  show ?thesis
  proof (cases p)
    case Waiting
    with p show ?thesis by (simp add: qqueueMultiEnqObjNonDirect_def)
  next
    case (Done x)
    obtain r q' h' where x: "x = (r, q', h')" by (cases x) auto
    have "qqueueMultiEnqObjNonDirect farray_driver subs w =
        Some (Done (r, if r = RS_RET_OK then (qqueueChkPersist q' (int (length subs)), h') else (q', h')))"
      using p Done x by (simp add: qqueueMultiEnqObjNonDirect_def)
    then show ?thesis using d [rule_format, of r "(q', h')"] Done x by (cases "r = RS_RET_OK") auto
  qed
qed

theorem multi_submit_conserves_references_witness:
  "\<exists>p. qqueueMultiEnqObjNonDirect farray_driver [(7, True, [], False)] (faq_ex, [7 \<mapsto> msg_ex 3]) = Some p \<and>
    (\<forall>r w'. p = Done (r, w') \<longrightarrow>
       r = RS_RET_OK \<and> world_ok farray_rep 8 0 {#} w' \<or>
       r \<in> {RS_RET_FORCE_TERM, RS_RET_OUT_OF_MEMORY} \<and>
         (\<exists>j < length [(7 :: msgptr, True, [] :: farray wait_event list, False)].
            world_ok farray_rep 8 0 (mset (map fst (drop j [(7, True, [] :: farray wait_event list, False)])) + {#}) w'))"
  by (rule multi_submit_conserves_references [where own = "{#}"])
    (auto simp: faq_ex_bs intro!: world_okI [OF faq_ex_inv] refs_msg_ex)

text \<open>
  First in, first out: with room, a message the discard check lets pass, no sampling and no flow
  control due, an
  enqueue into a fixed-array queue returns OK, appends the message as the last element and
  touches neither the others nor the messages.
\<close>

theorem enqueue_appends:
  assumes "q_inv farray_rep q xs k" and "\<not> queueIsFull q"
    and "passes q h (iQueueSize q) m" and "iSmpInterval q \<le> 0"
    and "fc = eFLOWCTL_NO_DELAY \<or> iQueueSize q < iFullDlyMrk q \<and> iQueueSize q < iLightDlyMrk q"
  shows "\<exists>q'. doEnqSingleObj farray_driver True ws trm fc (q, h) m = Some (Done (RS_RET_OK, (q', h))) \<and>
    q_inv farray_rep q' (xs @ [m]) k"
  using assms by (rule fa.enq_appends)

theorem enqueue_appends_witness:
  "\<exists>q'. doEnqSingleObj farray_driver True [] False eFLOWCTL_NO_DELAY (faq_ex, [7 \<mapsto> msg_ex 3]) 7 =
      Some (Done (RS_RET_OK, (q', [7 \<mapsto> msg_ex 3]))) \<and> q_inv farray_rep q' ([] @ [7]) 0"
  by (rule enqueue_appends [OF faq_ex_inv])
    (simp_all add: queueIsFull_def passes_def faq_ex_def qqueueConstruct_def)

text \<open>
  Destroying a linked-list queue that still holds messages releases all of them but the
  newest: \<open>queueDrain\<close> decrements before it tests, so the last message keeps its reference
  and its list node stays allocated although the recorded size is 0.
\<close>

theorem destruct_leaves_last_message:
  assumes "q_inv linklist_rep q xs 0" and "xs \<noteq> []" and "refs_ok (mset xs + ext) h"
  shows "\<exists>q' h'. qDestructLinkedList (q, h) = Some (RS_RET_OK, q', h') \<and> iQueueSize q' = 0 \<and>
    linklist_rep (iMaxQueueSize q') (tVars q') [last xs] 0 \<and> refs_ok (add_mset (last xs) ext) h'"
proof -
  from ll.drain_ok [OF assms] obtain q' h' where
    "queueDrain linklist_driver (q, h) = Some (q', h')" "iQueueSize q' = 0"
    "linklist_rep (iMaxQueueSize q') (tVars q') [last xs] 0" "refs_ok (add_mset (last xs) ext) h'" by blast
  then show ?thesis by (simp add: qDestructLinkedList_def)
qed

definition llq1_ex :: "linklist qqueue" where
  "llq1_ex = llq_ex\<lparr>iQueueSize := 1, tVars :=
     \<lparr>pDeqRoot = Some 0, pDelRoot = Some 0, pLast = Some 0,
      nodes = [0 \<mapsto> \<lparr>ll_pNext = None, ll_pMsg = 7\<rparr>], fresh = 1\<rparr>\<rparr>"

lemma llq1_ex_inv: "q_inv linklist_rep llq1_ex [7] 0"
  by (auto simp: q_inv_def llq1_ex_def llq_ex_def qqueueConstruct_def linklist_rep_def ll_rep_def
      intro!: exI [of _ "[0]"])

theorem destruct_leaves_last_message_witness:
  "\<exists>q' h'. qDestructLinkedList (llq1_ex, [7 \<mapsto> msg_ex 3]) = Some (RS_RET_OK, q', h') \<and> iQueueSize q' = 0 \<and>
    linklist_rep (iMaxQueueSize q') (tVars q') [last [7]] 0 \<and> refs_ok (add_mset (last [7]) {#}) h'"
  by (rule destruct_leaves_last_message [OF llq1_ex_inv]) (simp_all add: refs_msg_ex)

text \<open>
  \<open>qqueueStart\<close> on a bounded queue with at least one worker corrects every water mark
  into the queue's size: high, low and discard marks end up between 1 and the size, delay
  marks that were unset or positive do too, and the batch size is at most the queue size.
\<close>

theorem start_marks_in_range:
  assumes "0 < iMaxQueueSize q" and "0 < iNumWorkerThreads q"
  shows "\<exists>q'. qqueueStartParams q = Some q' \<and>
    iHighWtrMrk q' \<in> {1..iMaxQueueSize q} \<and> iLowWtrMrk q' \<in> {1..iMaxQueueSize q} \<and>
    iDiscardMrk q' \<in> {1..iMaxQueueSize q} \<and>
    (iFullDlyMrk q = -1 \<or> 0 < iFullDlyMrk q \<longrightarrow> iFullDlyMrk q' \<in> {1..iMaxQueueSize q}) \<and>
    (iLightDlyMrk q = -1 \<or> 0 < iLightDlyMrk q \<longrightarrow> iLightDlyMrk q' \<in> {1..iMaxQueueSize q}) \<and>
    iMinMsgsPerWrkr q' \<in> {0..iMaxQueueSize q} \<and> iDeqBatchSize q' \<le> iMaxQueueSize q"
proof -
  let ?mx = "iMaxQueueSize q"
  from startHighWtrMrk_range [OF assms(1)] obtain hi where
    hi: "startHighWtrMrk ?mx (iHighWtrMrk q) = Some hi" "1 \<le> hi" "hi \<le> ?mx" by blast
  from startLowWtrMrk_range [OF assms(1)] obtain lo where
    lo: "startLowWtrMrk ?mx hi (iLowWtrMrk q) = Some lo" "1 \<le> lo" "lo \<le> ?mx" by blast
  from startDlyMrk_range [OF assms(1), of 97] obtain fu where
    fu: "startDlyMrk 97 ?mx (iFullDlyMrk q) = Some fu" "fu \<le> ?mx"
      "iFullDlyMrk q = -1 \<or> 0 < iFullDlyMrk q \<longrightarrow> 1 \<le> fu" by auto
  from startDlyMrk_range [OF assms(1), of 70] obtain li where
    li: "startDlyMrk 70 ?mx (iLightDlyMrk q) = Some li" "li \<le> ?mx"
      "iLightDlyMrk q = -1 \<or> 0 < iLightDlyMrk q \<longrightarrow> 1 \<le> li" by auto
  from startDiscardMrk_range [OF assms(1)] obtain di where
    di: "startDiscardMrk ?mx (iDiscardMrk q) = Some di" "1 \<le> di" "di \<le> ?mx" by blast
  have dv: "c_div ?mx (iNumWorkerThreads q) = Some (?mx div iNumWorkerThreads q)"
    and dv0: "0 \<le> ?mx div iNumWorkerThreads q" and dv1: "?mx div iNumWorkerThreads q \<le> ?mx"
    using assms by (simp_all add: c_div_pos pos_imp_zdiv_nonneg_iff)
      (smt (verit) zdiv_mono2 div_by_1)
  show ?thesis
    using hi lo fu li di dv dv0 dv1 assms(1) by (auto simp: qqueueStartParams_def Let_def)
qed

theorem start_marks_in_range_witness:
  "\<exists>q'. qqueueStartParams faq_ex = Some q' \<and>
    iHighWtrMrk q' \<in> {1..iMaxQueueSize faq_ex} \<and> iLowWtrMrk q' \<in> {1..iMaxQueueSize faq_ex} \<and>
    iDiscardMrk q' \<in> {1..iMaxQueueSize faq_ex} \<and>
    (iFullDlyMrk faq_ex = -1 \<or> 0 < iFullDlyMrk faq_ex \<longrightarrow> iFullDlyMrk q' \<in> {1..iMaxQueueSize faq_ex}) \<and>
    (iLightDlyMrk faq_ex = -1 \<or> 0 < iLightDlyMrk faq_ex \<longrightarrow> iLightDlyMrk q' \<in> {1..iMaxQueueSize faq_ex}) \<and>
    iMinMsgsPerWrkr q' \<in> {0..iMaxQueueSize faq_ex} \<and> iDeqBatchSize q' \<le> iMaxQueueSize faq_ex"
  by (rule start_marks_in_range) (simp_all add: faq_ex_def qqueueConstruct_def)

text \<open>
  Started with size 0 (unlimited) and the default delay mark, a queue gets the mark -1,
  below every size, so an enqueue of a fully delayable message keeps waiting through every
  wakeup and timeout for as long as inputs are not being terminated.
\<close>

theorem unlimited_queue_blocks_full_delay:
  assumes "qqueueStartParams q = Some q'" and "iMaxQueueSize q = 0" and "iFullDlyMrk q = -1"
    and "0 \<le> iQueueSize q" and "iDiscardMrk q \<le> 0"
    and "\<forall>e \<in> set ws. (\<forall>n. wret e \<noteq> COND_ERR n) \<and> \<not> wterm e \<and>
       (\<forall>w. 0 \<le> iQueueSize (fst w) \<and> iFullDlyMrk (fst w) \<le> 0 \<longrightarrow>
          0 \<le> iQueueSize (fst (wothers e w)) \<and> iFullDlyMrk (fst (wothers e w)) \<le> 0)"
  shows "doEnqSingleObj drv ok ws False eFLOWCTL_FULL_DELAY (q', h) m = Some Waiting"
proof -
  have d0: "c_div 0 100 = Some 0" by (simp add: c_div_def)
  from assms(1,2,3,5) have q': "iFullDlyMrk q' = -1" "iQueueSize q' = iQueueSize q" "iDiscardMrk q' = 0"
    by (auto simp: qqueueStartParams_def startDlyMrk_def startDiscardMrk_def d0 Let_def
        split: if_splits bind_splits)
  let ?w = "(q'\<lparr>ctrEnqueued := statsInc q' (ctrEnqueued q')\<rparr>, h)"
  have "fullDelayWait ws False ?w = Waiting"
    by (rule fullDelay_stuck) (use q' assms(4,6) in simp_all)
  moreover have "qqueueChkDiscardMsg ?w (iQueueSize q') m = Some (RS_RET_OK, ?w)"
    using q' by (simp add: qqueueChkDiscardMsg_def)
  ultimately show ?thesis by (simp add: doEnqSingleObj_def flowControl_def)
qed

theorem unlimited_queue_blocks_full_delay_witness:
  "\<exists>q'. qqueueStartParams (llq_ex\<lparr>iMaxQueueSize := 0\<rparr>) = Some q' \<and>
     doEnqSingleObj linklist_driver True [\<lparr>wret = COND_ETIMEDOUT, wothers = id, wterm = False\<rparr>]
       False eFLOWCTL_FULL_DELAY (q', Map.empty) 7 = Some Waiting"
proof -
  have "\<exists>q'. qqueueStartParams (llq_ex\<lparr>iMaxQueueSize := 0\<rparr>) = Some q'"
    by (simp add: qqueueStartParams_def startHighWtrMrk_def startLowWtrMrk_def startDlyMrk_def
        startDiscardMrk_def c_div_def llq_ex_def qqueueConstruct_def)
  then obtain q' where q': "qqueueStartParams (llq_ex\<lparr>iMaxQueueSize := 0\<rparr>) = Some q'" ..
  have "doEnqSingleObj linklist_driver True [\<lparr>wret = COND_ETIMEDOUT, wothers = id, wterm = False\<rparr>]
       False eFLOWCTL_FULL_DELAY (q', Map.empty) 7 = Some Waiting"
    by (rule unlimited_queue_blocks_full_delay [OF q']) (simp_all add: llq_ex_def qqueueConstruct_def)
  with q' show ?thesis by blast
qed

end
