(* ===== verification/QueueBatch.thy ===== *)
theory QueueBatch
  imports QueueRefs
begin

text \<open>
  The consumer side of the queue (runtime/queue.c, runtime/batch.h): a worker dequeues a
  batch, processes it without the queue mutex and, when it comes back for more, has the
  processed elements deleted and the unprocessed ones enqueued again. The functions run
  with the mutex held; waits inside a re-enqueue are the \<open>wait_event\<close>s of the enqueue path.
\<close>

section \<open>The batch\<close>

datatype batch_state =
    BATCH_STATE_RDY | BATCH_STATE_BAD | BATCH_STATE_SUB | BATCH_STATE_COMM | BATCH_STATE_DISC

record batch =
  maxElem :: nat
  nElem :: nat
  nElemDeq :: nat
  deqID :: qDeqID
  pElem :: "msgptr option list"
  eltState :: "batch_state list"

definition batchInit :: "bool \<Rightarrow> batch \<Rightarrow> nat \<Rightarrow> rsRetVal \<times> batch" where
  "batchInit allocOK b mx =
     (if allocOK
      then (RS_RET_OK, b\<lparr>maxElem := mx, pElem := replicate mx None,
                        eltState := replicate mx BATCH_STATE_RDY\<rparr>)
      else (RS_RET_OUT_OF_MEMORY, b\<lparr>maxElem := mx\<rparr>))"

definition batchSetElemState :: "batch \<Rightarrow> nat \<Rightarrow> batch_state \<Rightarrow> batch option" where
  "batchSetElemState b i st =
     do {
       old \<leftarrow> c_get (eltState b) i;
       if old \<noteq> BATCH_STATE_DISC
       then Some (b\<lparr>eltState := (eltState b)[i := st]\<rparr>) else Some b
     }"

section \<open>The to-delete list\<close>

definition getNextDeqID :: "'s qqueue \<Rightarrow> qDeqID \<times> 's qqueue" where
  "getNextDeqID q = (deqIDAdd q, q\<lparr>deqIDAdd := deqIDAdd q + 1\<rparr>)"

definition tdlPeek :: "'s qqueue \<Rightarrow> (qDeqID \<times> nat) option" where
  "tdlPeek q = (case toDeleteLst q of [] \<Rightarrow> None | x # _ \<Rightarrow> Some x)"

definition tdlPop :: "'s qqueue \<Rightarrow> 's qqueue option" where
  "tdlPop q = (case toDeleteLst q of [] \<Rightarrow> None | _ # xs \<Rightarrow> Some (q\<lparr>toDeleteLst := xs\<rparr>))"

text \<open>
  The search of \<open>tdlAdd\<close>: it stops at the first entry whose ID is not below the new one and
  links the new entry behind it. \<open>None\<close> is the search that found no such entry.
\<close>

fun tdlLink :: "qDeqID \<Rightarrow> nat \<Rightarrow> (qDeqID \<times> nat) list \<Rightarrow> (qDeqID \<times> nat) list option" where
  "tdlLink i n [] = None"
| "tdlLink i n (x # xs) =
     (if i > fst x then map_option (Cons x) (tdlLink i n xs) else Some (x # (i, n) # xs))"

definition tdlAdd :: "bool \<Rightarrow> 's qqueue \<Rightarrow> qDeqID \<Rightarrow> nat \<Rightarrow> (rsRetVal \<times> 's qqueue) option" where
  "tdlAdd mallocOK q i n =
     do {
       c_guard (toDeleteLst q \<noteq> []);
       if \<not> mallocOK then Some (RS_RET_OUT_OF_MEMORY, q)
       else Some (RS_RET_OK, q\<lparr>toDeleteLst :=
              (case tdlLink i n (toDeleteLst q) of
                 None \<Rightarrow> (i, n) # toDeleteLst q
               | Some l \<Rightarrow> l)\<rparr>)
     }"

section \<open>Deleting from the store\<close>

fun delLoop :: "'s qdriver \<Rightarrow> int \<Rightarrow> 's \<Rightarrow> nat \<Rightarrow> 's option" where
  "delLoop drv mx t 0 = Some t"
| "delLoop drv mx t (Suc n) = do { (r, t1) \<leftarrow> qDel drv mx t; delLoop drv mx t1 n }"

definition DoDeleteBatchFromQStore :: "'s qdriver \<Rightarrow> 's qqueue \<Rightarrow> nat \<Rightarrow> 's qqueue option" where
  "DoDeleteBatchFromQStore drv q n =
     do {
       t \<leftarrow> delLoop drv (iMaxQueueSize q) (tVars q) n;
       Some (q\<lparr>tVars := t, iQueueSize := iQueueSize q - int n, nLogDeq := nLogDeq q - int n,
               deqIDDel := deqIDDel q + 1\<rparr>)
     }"

text \<open>The loop over the to-delete list; \<open>l\<close> is the list from the entry \<open>tdlPeek\<close> returns on.\<close>

fun tdlDelete :: "'s qdriver \<Rightarrow> qDeqID \<Rightarrow> (qDeqID \<times> nat) list \<Rightarrow> 's qqueue \<Rightarrow> 's qqueue option" where
  "tdlDelete drv i [] q = Some q"
| "tdlDelete drv i ((j, n) # l) q =
     (if i = j
      then do {
        q1 \<leftarrow> DoDeleteBatchFromQStore drv q n;
        q2 \<leftarrow> tdlPop q1;
        tdlDelete drv (i + 1) l q2
      }
      else Some q)"

definition DeleteBatchFromQStore :: "'s qdriver \<Rightarrow> bool \<Rightarrow> 's qqueue \<Rightarrow> batch \<Rightarrow> (rsRetVal \<times> 's qqueue) option" where
  "DeleteBatchFromQStore drv mallocOK q b =
     (if tdlPeek q = None
      then do { q1 \<leftarrow> DoDeleteBatchFromQStore drv q (nElem b); Some (RS_RET_OK, q1) }
      else if deqID b = deqIDDel q
      then do {
        q1 \<leftarrow> tdlDelete drv (deqIDDel q) (toDeleteLst q) q;
        q2 \<leftarrow> DoDeleteBatchFromQStore drv q1 (nElem b);
        Some (RS_RET_OK, q2)
      }
      else tdlAdd mallocOK q (deqID b) (nElem b))"

section \<open>A processed batch\<close>

text \<open>
  \<open>env i\<close> is what the re-enqueue of element \<open>i\<close> meets: whether \<open>MALLOC\<close> succeeds, its waits
  and the input-termination flag.
\<close>

type_synonym 's enq_env = "nat \<Rightarrow> bool \<times> 's wait_event list \<times> bool"

fun dpbLoop :: "'s qdriver \<Rightarrow> 's enq_env \<Rightarrow> batch \<Rightarrow> nat list \<Rightarrow> nat \<Rightarrow> 's qworld \<Rightarrow>
    (nat \<times> 's qworld) progress option" where
  "dpbLoop drv env b [] nEnqueued w = Some (Done (nEnqueued, w))"
| "dpbLoop drv env b (i # is) nEnqueued w =
     do {
       cell \<leftarrow> c_get (pElem b) i;
       pMsg \<leftarrow> cell;
       st \<leftarrow> c_get (eltState b) i;
       p \<leftarrow> (if st = BATCH_STATE_RDY \<or> st = BATCH_STATE_SUB
            then do {
              h1 \<leftarrow> MsgAddRef (snd w) pMsg;
              (case env i of (ok, ws, trm) \<Rightarrow> do {
                 p \<leftarrow> doEnqSingleObj drv ok ws trm eFLOWCTL_NO_DELAY (fst w, h1) pMsg;
                 (case p of
                    Waiting \<Rightarrow> Some Waiting
                  | Done (localRet, w1) \<Rightarrow> Some (Done (nEnqueued + 1, w1)))
               })
            }
            else Some (Done (nEnqueued, w)));
       (case p of
          Waiting \<Rightarrow> Some Waiting
        | Done (n1, w1) \<Rightarrow> do {
            h2 \<leftarrow> msgDestruct (snd w1) pMsg;
            dpbLoop drv env b is n1 (fst w1, h2)
          })
     }"

definition DeleteProcessedBatch :: "'s qdriver \<Rightarrow> 's enq_env \<Rightarrow> bool \<Rightarrow> 's qworld \<Rightarrow> batch \<Rightarrow>
    (rsRetVal \<times> 's qworld \<times> batch) progress option" where
  "DeleteProcessedBatch drv env mallocOK w b =
     do {
       p \<leftarrow> dpbLoop drv env b [0..<nElem b] 0 w;
       (case p of
          Waiting \<Rightarrow> Some Waiting
        | Done (nEnqueued, q1, h1) \<Rightarrow> do {
            let q2 = (if nEnqueued > 0 then qqueueChkPersist q1 (int nEnqueued) else q1);
            (r, q3) \<leftarrow> DeleteBatchFromQStore drv mallocOK q2 b;
            Some (Done (r, (q3, h1), b\<lparr>nElem := 0, nElemDeq := 0\<rparr>))
          })
     }"

section \<open>Dequeueing a batch\<close>

lemma qqueueDeq_frame:
  "qqueueDeq drv q = Some (r, m, q') \<Longrightarrow>
   nLogDeq q' = nLogDeq q + 1 \<and> iQueueSize q' = iQueueSize q"
  by (auto simp: qqueueDeq_def split: bind_splits)

lemma chkDiscard_frame:
  "qqueueChkDiscardMsg (q, h) sz m = Some (r, q', h') \<Longrightarrow>
   nLogDeq q' = nLogDeq q \<and> iQueueSize q' = iQueueSize q"
  by (auto simp: qqueueChkDiscardMsg_def split: bind_splits if_splits)

text \<open>
  The loop of \<open>DequeueConsumableElements\<close>. It returns the code, the counts of elements used
  and discarded, and the logical size it saw last.
\<close>

function deqLoop :: "'s qdriver \<Rightarrow> nat \<Rightarrow> nat \<Rightarrow> 's qworld \<Rightarrow> batch \<Rightarrow>
    (rsRetVal \<times> nat \<times> nat \<times> int \<times> 's qworld \<times> batch) option" where
  "deqLoop drv nDequeued nDiscarded w b =
     (case w of (q, h) \<Rightarrow>
       let sz = getLogicalQueueSize q
       in if sz > 0 \<and> int nDequeued < iDeqBatchSize q
          then (case qqueueDeq drv q of
                  None \<Rightarrow> None
                | Some (localRet, pMsg, q1) \<Rightarrow>
                    if localRet \<noteq> RS_RET_OK
                    then Some (localRet, nDequeued, nDiscarded, sz, (q1, h), b)
                    else (case qqueueChkDiscardMsg (q1, h) (iQueueSize q1) pMsg of
                            None \<Rightarrow> None
                          | Some (r2, q2, h2) \<Rightarrow>
                              if r2 = RS_RET_QUEUE_FULL
                              then deqLoop drv nDequeued (Suc nDiscarded) (q2, h2) b
                              else if r2 \<noteq> RS_RET_OK
                              then Some (r2, nDequeued, nDiscarded, sz, (q2, h2), b)
                              else if nDequeued < length (pElem b) \<and> nDequeued < length (eltState b)
                              then deqLoop drv (Suc nDequeued) nDiscarded (q2, h2)
                                     (b\<lparr>pElem := (pElem b)[nDequeued := Some pMsg],
                                        eltState := (eltState b)[nDequeued := BATCH_STATE_RDY]\<rparr>)
                              else None))
          else Some (RS_RET_OK, nDequeued, nDiscarded, sz, (q, h), b))"
  by pat_completeness auto
termination
  by (relation "measure (\<lambda>(drv, n, d, (q, h), b). nat (getLogicalQueueSize q))")
    (auto simp: getLogicalQueueSize_def dest!: qqueueDeq_frame chkDiscard_frame
       dest: sym [of "Some _"])

declare deqLoop.simps [simp del]

definition DequeueConsumableElements :: "'s qdriver \<Rightarrow> 's enq_env \<Rightarrow> bool \<Rightarrow> 's qworld \<Rightarrow> batch \<Rightarrow>
    (rsRetVal \<times> int \<times> 's qworld \<times> batch) progress option" where
  "DequeueConsumableElements drv env mallocOK w b =
     do {
       let nDeleted = nElemDeq b;
       p \<leftarrow> DeleteProcessedBatch drv env mallocOK w b;
       (case p of
          Waiting \<Rightarrow> Some Waiting
        | Done (_, w1, b1) \<Rightarrow> do {
            (r, nDequeued, nDiscarded, sz, w2, b2) \<leftarrow> deqLoop drv 0 0 w1 b1;
            if r \<noteq> RS_RET_OK then Some (Done (r, 0, w2, b2))
            else (let q3 = qqueueChkPersist (fst w2) (int (nDequeued + nDiscarded + nDeleted));
                      (i, q4) = getNextDeqID q3
                  in Some (Done (RS_RET_OK, sz, (q4, snd w2),
                       b2\<lparr>nElem := nDequeued, nElemDeq := nDequeued + nDiscarded, deqID := i\<rparr>)))
          })
     }"

text \<open>
  \<open>DequeueConsumable\<close> also wakes the producers: the three booleans are the broadcast on
  \<open>belowFullDlyWtrMrk\<close>, the one on \<open>belowLightDlyWtrMrk\<close> and the signal on \<open>notFull\<close>.
\<close>

definition DequeueConsumable :: "'s qdriver \<Rightarrow> 's enq_env \<Rightarrow> bool \<Rightarrow> bool \<Rightarrow> 's qworld \<Rightarrow> batch \<Rightarrow>
    (rsRetVal \<times> (bool \<times> bool \<times> bool) \<times> 's qworld \<times> batch) progress option" where
  "DequeueConsumable drv env mallocOK trm w b =
     do {
       p \<leftarrow> DequeueConsumableElements drv env mallocOK w b;
       (case p of
          Waiting \<Rightarrow> Some Waiting
        | Done (r, sz, w1, b1) \<Rightarrow> do {
            f \<leftarrow> c_div (iFullDlyMrk (fst w1)) 2;
            l \<leftarrow> c_div (iLightDlyMrk (fst w1)) 2;
            Some (Done (r, (sz < f \<or> trm, sz < l, True), w1, b1))
          })
     }"

definition DequeueForConsumer :: "'s qdriver \<Rightarrow> 's enq_env \<Rightarrow> bool \<Rightarrow> bool \<Rightarrow> 's qworld \<Rightarrow> batch \<Rightarrow>
    (rsRetVal \<times> (bool \<times> bool \<times> bool) \<times> 's qworld \<times> batch) progress option" where
  "DequeueForConsumer drv env mallocOK trm w b =
     do {
       p \<leftarrow> DequeueConsumable drv env mallocOK trm w b;
       (case p of
          Waiting \<Rightarrow> Some Waiting
        | Done (r, sig, w1, b1) \<Rightarrow>
            if r \<noteq> RS_RET_OK then Some (Done (r, sig, w1, b1))
            else if nElem b1 = 0 then Some (Done (RS_RET_IDLE, sig, w1, b1))
            else Some (Done (RS_RET_OK, sig, w1, b1)))
     }"

definition batchProcessed :: "'s qdriver \<Rightarrow> 's enq_env \<Rightarrow> bool \<Rightarrow> 's qworld \<Rightarrow> batch \<Rightarrow>
    ('s qworld \<times> batch) progress option" where
  "batchProcessed drv env mallocOK w b =
     do {
       p \<leftarrow> DeleteProcessedBatch drv env mallocOK w b;
       (case p of
          Waiting \<Rightarrow> Some Waiting
        | Done (_, (q1, h1), b1) \<Rightarrow>
            Some (Done ((qqueueChkPersist q1 (int (nElemDeq b1)), h1), b1)))
     }"

text \<open>
  The regular consumer. \<open>pConsumer\<close> is the function pointer it calls with the mutex released:
  it sees the batch and the messages and sets element states; \<open>others\<close> is what the rest of
  the program does to the queue meanwhile.
\<close>

definition ConsumerReg :: "'s qdriver \<Rightarrow> (batch \<Rightarrow> msgheap \<Rightarrow> (rsRetVal \<times> batch \<times> msgheap) option) \<Rightarrow>
    ('s qworld \<Rightarrow> 's qworld) \<Rightarrow> 's enq_env \<Rightarrow> bool \<Rightarrow> bool \<Rightarrow> 's qworld \<Rightarrow> batch \<Rightarrow>
    (rsRetVal \<times> 's qworld \<times> batch) progress option" where
  "ConsumerReg drv pConsumer others env mallocOK trm w b =
     do {
       p \<leftarrow> DequeueForConsumer drv env mallocOK trm w b;
       (case p of
          Waiting \<Rightarrow> Some Waiting
        | Done (r, sig, w1, b1) \<Rightarrow>
            if r \<noteq> RS_RET_OK then Some (Done (r, w1, b1))
            else do {
              let (q2, h2) = others w1;
              (r2, b2, h3) \<leftarrow> pConsumer b1 h2;
              Some (Done (r2, (q2, h3), b2))
            })
     }"

text \<open>
  The consumer that feeds the disk queue. The disk queue is not modelled here: \<open>enqDA\<close> is
  \<open>qqueueEnqMsg\<close> on it, with the state \<open>d\<close>. \<open>stopAt i\<close> is \<open>bShutdownImmediate\<close> when element
  \<open>i\<close> is reached. An emergency leaves the element's state as it is.
\<close>

fun daLoop :: "('d \<Rightarrow> msgheap \<Rightarrow> msgptr \<Rightarrow> (rsRetVal \<times> 'd \<times> msgheap) option) \<Rightarrow> (nat \<Rightarrow> bool) \<Rightarrow>
    nat list \<Rightarrow> rsRetVal \<Rightarrow> 'd \<Rightarrow> msgheap \<Rightarrow> batch \<Rightarrow> (rsRetVal \<times> 'd \<times> msgheap \<times> batch) option" where
  "daLoop enqDA stopAt [] r d h b = Some (r, d, h, b)"
| "daLoop enqDA stopAt (i # is) r d h b =
     (if stopAt i then Some (r, d, h, b)
      else do {
        cell \<leftarrow> c_get (pElem b) i;
        pMsg \<leftarrow> cell;
        h1 \<leftarrow> MsgAddRef h pMsg;
        (r1, d1, h2) \<leftarrow> enqDA d h1 pMsg;
        if r1 = RS_RET_ERR_QUEUE_EMERGENCY then Some (r1, d1, h2, b)
        else do {
          st \<leftarrow> c_set (eltState b) i BATCH_STATE_COMM;
          daLoop enqDA stopAt is r1 d1 h2 (b\<lparr>eltState := st\<rparr>)
        }
      })"

definition daResult :: "rsRetVal \<Rightarrow> rsRetVal" where
  "daResult r =
     (if r \<noteq> RS_RET_OK \<and> r \<noteq> RS_RET_ERR_QUEUE_EMERGENCY \<and> rs_code r < 0 then RS_RET_OK else r)"

definition ConsumerDA :: "'s qdriver \<Rightarrow> ('d \<Rightarrow> msgheap \<Rightarrow> msgptr \<Rightarrow> (rsRetVal \<times> 'd \<times> msgheap) option) \<Rightarrow>
    (nat \<Rightarrow> bool) \<Rightarrow> ('s qworld \<Rightarrow> 's qworld) \<Rightarrow> 's enq_env \<Rightarrow> bool \<Rightarrow> bool \<Rightarrow> 'd \<Rightarrow> 's qworld \<Rightarrow> batch \<Rightarrow>
    (rsRetVal \<times> 'd \<times> 's qworld \<times> batch) progress option" where
  "ConsumerDA drv enqDA stopAt others env mallocOK trm d w b =
     do {
       p \<leftarrow> DequeueForConsumer drv env mallocOK trm w b;
       (case p of
          Waiting \<Rightarrow> Some Waiting
        | Done (r, sig, w1, b1) \<Rightarrow>
            if r \<noteq> RS_RET_OK then Some (Done (daResult r, d, w1, b1))
            else do {
              let (q2, h2) = others w1;
              (r2, d2, h3, b2) \<leftarrow> daLoop enqDA stopAt [0..<nElem b1] RS_RET_OK d h2 b1;
              Some (Done (daResult r2, d2, (q2, h3), b2))
            })
     }"

section \<open>Pacing and termination of the workers\<close>

text \<open>
  \<open>RateLimiter\<close>: the delay in seconds (no sleep unless positive) at local time \<open>hr:mi:sec\<close>.
\<close>

definition RateLimiter :: "'s qqueue \<Rightarrow> int \<Rightarrow> int \<Rightarrow> int \<Rightarrow> int" where
  "RateLimiter q hr mi sec =
     (if iDeqtWinToHr q \<noteq> 25
      then
        (if iDeqtWinToHr q < iDeqtWinFromHr q
         then
           (if hr < iDeqtWinToHr q \<or> hr > iDeqtWinFromHr q then 0
            else (iDeqtWinFromHr q - hr) * 3600 - mi * 60 - sec)
         else if hr \<ge> iDeqtWinFromHr q \<and> hr < iDeqtWinToHr q then 0
         else if hr < iDeqtWinFromHr q
         then (iDeqtWinFromHr q - hr - 1) * 3600 + (60 - mi) * 60 + (60 - sec)
         else (24 - hr + iDeqtWinFromHr q) * 3600 - mi * 60 - sec)
      else 0)"

definition qqueueChkStopWrkrDA :: "'s qqueue \<Rightarrow> rsRetVal" where
  "qqueueChkStopWrkrDA q =
     (let r = (if bEnqOnly q then RS_RET_TERMINATE_WHEN_IDLE else RS_RET_OK)
      in if getPhysicalQueueSize q \<le> iLowWtrMrk q then RS_RET_TERMINATE_NOW else r)"

definition ChkStopWrkrReg :: "'s qqueue \<Rightarrow> rsRetVal" where
  "ChkStopWrkrReg q =
     (if bEnqOnly q then RS_RET_TERMINATE_NOW
      else if isChild q then RS_RET_TERMINATE_WHEN_IDLE else RS_RET_OK)"

definition GetDeqBatchSize :: "'s qqueue \<Rightarrow> int" where
  "GetDeqBatchSize q = (if isChild q then 16 else iDeqBatchSize q)"

end
