(* ===== verification/BatchRefs.thy ===== *)
theory BatchRefs
  imports QueueBatch
begin

text \<open>
  What the consumer side of the queue keeps (runtime/queue.c): deleting a processed batch,
  enqueueing again what was not finished and dequeueing the next one, with the exact count of the
  references to every message.
\<close>

section \<open>Batches\<close>

text \<open>\<open>batch_holds b ms\<close>: the arrays of the batch are allocated and its elements are \<open>ms\<close>.\<close>

definition batch_arrays :: "nat \<Rightarrow> batch \<Rightarrow> bool" where
  "batch_arrays bs b \<longleftrightarrow> bs \<le> length (pElem b) \<and> length (eltState b) = length (pElem b)"

definition batch_holds :: "batch \<Rightarrow> msgptr list \<Rightarrow> bool" where
  "batch_holds b ms \<longleftrightarrow>
     nElem b = length ms \<and> length (eltState b) = length (pElem b) \<and> length ms \<le> length (pElem b) \<and>
     (\<forall>i < length ms. pElem b ! i = Some (ms ! i))"

definition unfinished :: "batch \<Rightarrow> nat \<Rightarrow> bool" where
  "unfinished b i \<longleftrightarrow> eltState b ! i = BATCH_STATE_RDY \<or> eltState b ! i = BATCH_STATE_SUB"

definition retried :: "batch \<Rightarrow> msgptr list \<Rightarrow> nat list \<Rightarrow> msgptr list" where
  "retried b ms is = map ((!) ms) (filter (unfinished b) is)"

text \<open>
  A queue that takes the messages \<open>rs\<close> without dropping or waiting: not disk-assisted, no
  sampling, not full before the last of them, and each of them below the discard mark or not
  severe enough to be discarded. A started bounded queue is one as long as it is filled below its
  discard mark, or when its discard severity is the default 8.
\<close>

definition has_room :: "'s qqueue \<Rightarrow> msgheap \<Rightarrow> msgptr list \<Rightarrow> bool" where
  "has_room q h rs \<longleftrightarrow> rs = [] \<or>
     (iMaxQueueSize q = 0 \<or> iQueueSize q + int (length rs) \<le> iMaxQueueSize q) \<and>
     iSmpInterval q \<le> 0 \<and> \<not> bIsDA q \<and>
     (iDiscardMrk q \<le> 0 \<or> iQueueSize q + int (length rs) \<le> iDiscardMrk q \<or>
      (\<forall>m \<in> set rs. \<exists>x. h m = Some x \<and> iSeverity x < iDiscardSeverity q))"

text \<open>Messages that stay alive keep their severity.\<close>

definition sev_kept :: "msgheap \<Rightarrow> msgheap \<Rightarrow> bool" where
  "sev_kept h h' \<longleftrightarrow> (\<forall>m. h' m \<noteq> None \<longrightarrow> map_option iSeverity (h' m) = map_option iSeverity (h m))"

lemma sev_kept_refl [simp]: "sev_kept h h"
  by (simp add: sev_kept_def)

lemma sev_kept_trans: "sev_kept h h1 \<Longrightarrow> sev_kept h1 h2 \<Longrightarrow> sev_kept h h2"
  unfolding sev_kept_def by (metis option.map_disc_iff)

lemma sev_kept_AddRef: "MsgAddRef h p = Some h' \<Longrightarrow> sev_kept h h'"
  by (simp add: sev_kept_def MsgAddRef_frame)

lemma sev_kept_Destruct: "msgDestruct h p = Some h' \<Longrightarrow> sev_kept h h'"
  by (simp add: sev_kept_def msgDestruct_frame)

lemma sev_keptD: "sev_kept h h' \<Longrightarrow> h' m = Some x \<Longrightarrow> \<exists>y. h m = Some y \<and> iSeverity y = iSeverity x"
  unfolding sev_kept_def by (drule spec [of _ m]) (cases "h m"; simp)

lemma passes_kept:
  assumes "sev_kept h h'" "h' m \<noteq> None" "same_cfg q q'"
  shows "passes q' h' sz m = passes q h sz m"
proof -
  from assms(2) obtain x where x: "h' m = Some x" by blast
  from sev_keptD [OF assms(1) this] obtain y where "h m = Some y" "iSeverity y = iSeverity x" by blast
  with x assms(3) show ?thesis by (simp add: passes_def same_cfg_def)
qed

lemma same_cfg_refl [simp]: "same_cfg q q"
  by (simp add: same_cfg_def)

lemma same_cfg_trans: "same_cfg q q1 \<Longrightarrow> same_cfg q1 q2 \<Longrightarrow> same_cfg q q2"
  by (simp add: same_cfg_def)

lemma has_room_tl:
  assumes "has_room q h (m # rs)" "sev_kept h h'" "\<forall>m \<in> set rs. h' m \<noteq> None" "same_cfg q q'"
    "iQueueSize q' = iQueueSize q + 1"
  shows "has_room q' h' rs"
proof -
  have "\<exists>x. h' r = Some x \<and> iSeverity x < iDiscardSeverity q'"
    if r: "r \<in> set rs" and a: "\<forall>r \<in> set (m # rs). \<exists>x. h r = Some x \<and> iSeverity x < iDiscardSeverity q" for r
  proof -
    obtain x where x: "h' r = Some x" using assms(3) r by blast
    from sev_keptD [OF assms(2) this] a r assms(4) x show ?thesis by (auto simp: same_cfg_def)
  qed
  with assms(1,4,5) show ?thesis by (auto simp: has_room_def same_cfg_def)
qed

lemma has_room_kept:
  assumes "has_room q h rs" "sev_kept h h'" "\<forall>m \<in> set rs. h' m \<noteq> None"
  shows "has_room q h' rs"
proof -
  have "\<exists>x. h' r = Some x \<and> iSeverity x < iDiscardSeverity q"
    if r: "r \<in> set rs" and a: "\<forall>r \<in> set rs. \<exists>x. h r = Some x \<and> iSeverity x < iDiscardSeverity q" for r
  proof -
    obtain x where x: "h' r = Some x" using assms(3) r by blast
    from sev_keptD [OF assms(2) this] a r x show ?thesis by auto
  qed
  with assms(1) show ?thesis by (auto simp: has_room_def)
qed

lemma has_room_passes:
  "has_room q h (m # rs) \<Longrightarrow> passes q h (iQueueSize q) m"
  by (auto simp: has_room_def passes_def)

text \<open>
  What a dequeue takes from the elements in order, up to \<open>n\<close> that \<open>keep\<close> lets pass: the
  elements of the batch and the ones discarded on the way.
\<close>

fun deqTake :: "(msgptr \<Rightarrow> bool) \<Rightarrow> nat \<Rightarrow> msgptr list \<Rightarrow> msgptr list \<times> msgptr list" where
  "deqTake keep n [] = ([], [])"
| "deqTake keep n (y # ys) =
     (if n = 0 then ([], [])
      else if keep y then (let (t, d) = deqTake keep (n - 1) ys in (y # t, d))
      else (let (t, d) = deqTake keep n ys in (t, y # d)))"

lemma deqTake_0 [simp]: "deqTake keep 0 ys = ([], [])"
  by (cases ys) simp_all

lemma deqTake_batch: "fst (deqTake keep n ys) = take n (filter keep ys)"
  by (induction keep n ys rule: deqTake.induct) (auto simp: Let_def case_prod_unfold take_Cons')

lemma deqTake_prefix:
  "deqTake keep n ys = (t, d) \<Longrightarrow> length t + length d \<le> length ys \<and>
     filter keep (take (length t + length d) ys) = t \<and>
     filter (\<lambda>y. \<not> keep y) (take (length t + length d) ys) = d"
proof (induction keep n ys arbitrary: t d rule: deqTake.induct)
  case (2 keep n y ys)
  show ?case
  proof (cases "n = 0")
    case False
    obtain t1 d1 where r: "deqTake keep (if keep y then n - 1 else n) ys = (t1, d1)" by fastforce
    with 2 False show ?thesis by (cases "keep y") auto
  qed (use 2 in simp)
qed simp

lemma deqTake_cong: "(\<And>y. y \<in> set ys \<Longrightarrow> keep y = keep' y) \<Longrightarrow> deqTake keep n ys = deqTake keep' n ys"
  by (induction ys arbitrary: n) auto

lemma deqTake_all: "(\<And>y. y \<in> set ys \<Longrightarrow> keep y) \<Longrightarrow> deqTake keep n ys = (take n ys, [])"
  by (induction ys arbitrary: n) (auto simp: take_Cons' Let_def)

section \<open>Lemmas on any store that keeps the driver's laws\<close>

context queue_driver
begin

lemma delLoop_ok:
  "rep mx t xs k \<Longrightarrow> n \<le> k \<Longrightarrow> \<exists>t'. delLoop drv mx t n = Some t' \<and> rep mx t' (drop n xs) (k - n)"
proof (induction n arbitrary: t xs k)
  case 0
  then show ?case by simp
next
  case (Suc n)
  from Suc.prems(2) have "0 < k" by simp
  from rep_del [OF Suc.prems(1) this] obtain t1 where
    t1: "qDel drv mx t = Some (RS_RET_OK, t1)" "rep mx t1 (tl xs) (k - 1)" by blast
  from Suc.IH [OF t1(2)] Suc.prems(2) t1(1) show ?case by (simp add: drop_Suc)
qed

lemma DoDelete_ok:
  assumes "q_inv rep q xs k" and "n \<le> k"
  shows "\<exists>q'. DoDeleteBatchFromQStore drv q n = Some q' \<and> q_inv rep q' (drop n xs) (k - n) \<and>
    same_cfg q q'"
proof -
  have r: "rep (iMaxQueueSize q) (tVars q) xs k" using assms(1) by (simp add: q_inv_def)
  from delLoop_ok [OF this assms(2)] obtain t' where
    t': "delLoop drv (iMaxQueueSize q) (tVars q) n = Some t'"
      "rep (iMaxQueueSize q) t' (drop n xs) (k - n)" by blast
  have "n \<le> length xs" using assms rep_le [OF r] by simp
  with t' assms show ?thesis by (auto simp: DoDeleteBatchFromQStore_def q_inv_def same_cfg_def)
qed

text \<open>The to-delete list is empty, so a batch is deleted from the front at once.\<close>

lemma DeleteBatch_steps:
  assumes "q_inv rep q xs k" and "nElem b \<le> k"
  shows "\<exists>q'. DeleteBatchFromQStore drv ok q b = Some (RS_RET_OK, q') \<and>
    q_inv rep q' (drop (nElem b) xs) (k - nElem b) \<and> same_cfg q q'"
proof -
  have "tdlPeek q = None" using assms(1) by (simp add: q_inv_def tdlPeek_def)
  with DoDelete_ok [OF assms] show ?thesis by (auto simp: DeleteBatchFromQStore_def)
qed

lemma DeleteBatch_ok:
  assumes "world_ok rep bs (nElem b + d) own (q, h)"
  shows "\<exists>q'. DeleteBatchFromQStore drv ok q b = Some (RS_RET_OK, q') \<and> world_ok rep bs d own (q', h)"
proof -
  from assms obtain xs k where i: "q_inv rep q xs k" "iDeqBatchSize q \<le> int bs" "nElem b + d \<le> k"
    "refs_ok (mset (drop k xs) + own) h" by (auto elim: world_okE)
  from DeleteBatch_steps [OF i(1), of b ok] i(3) obtain q' where
    "DeleteBatchFromQStore drv ok q b = Some (RS_RET_OK, q')" and
    q': "q_inv rep q' (drop (nElem b) xs) (k - nElem b)" "iDeqBatchSize q' = iDeqBatchSize q"
    by (auto simp: same_cfg_def)
  moreover have "world_ok rep bs d own (q', h)"
    by (rule world_okI [OF q'(1)]) (use i q'(2) in auto)
  ultimately show ?thesis by blast
qed

text \<open>One round of the dequeue loop.\<close>

lemma qqueueDeq_steps:
  assumes "q_inv rep q xs k" and "0 < getLogicalQueueSize q"
  shows "\<exists>q1. qqueueDeq drv q = Some (RS_RET_OK, xs ! k, q1) \<and> q_inv rep q1 xs (Suc k) \<and>
    k < length xs \<and> same_cfg q q1 \<and> iQueueSize q1 = iQueueSize q"
proof -
  have r: "rep (iMaxQueueSize q) (tVars q) xs k" and k: "k < length xs"
    using assms by (auto simp: q_inv_def getLogicalQueueSize_def)
  from rep_deq [OF r k] obtain t where
    "qDeq drv (iMaxQueueSize q) (tVars q) = Some (RS_RET_OK, xs ! k, t)"
    "rep (iMaxQueueSize q) t xs (Suc k)" by blast
  with assms(1) k show ?thesis by (auto simp: qqueueDeq_def q_inv_def same_cfg_def)
qed

text \<open>
  The dequeue loop takes exactly what \<open>deqTake\<close> says; the discarded messages lose the queue's
  reference, the others' one is the batch's.
\<close>

lemma deqLoop_take:
  assumes "q_inv rep q xs k" and "batch_arrays bs b"
    and "iDeqBatchSize q \<le> int bs" and "int n \<le> iDeqBatchSize q"
    and "deqTake (passes q h (iQueueSize q)) (nat (iDeqBatchSize q) - n) (drop k xs) = (t, d)"
    and "refs_ok (mset (drop k xs) + R) h"
  shows "\<exists>q' h' b' sz. deqLoop drv n c (q, h) b =
      Some (RS_RET_OK, n + length t, c + length d, sz, (q', h'), b') \<and>
    q_inv rep q' xs (k + length t + length d) \<and> batch_arrays bs b' \<and> same_cfg q q' \<and>
    (\<forall>i < n. pElem b' ! i = pElem b ! i \<and> eltState b' ! i = eltState b ! i) \<and>
    (\<forall>i < length t. pElem b' ! (n + i) = Some (t ! i) \<and> eltState b' ! (n + i) = BATCH_STATE_RDY) \<and>
    refs_ok (mset (drop (k + length t + length d) xs) + mset t + R) h'"
  using assms
proof (induction "length xs - k" arbitrary: q k b n c h t d R)
  case 0
  then have "\<not> (getLogicalQueueSize q > 0 \<and> int n < iDeqBatchSize q)" and "drop k xs = []"
    by (auto simp: q_inv_def getLogicalQueueSize_def)
  with 0 show ?case by (auto simp: deqLoop.simps Let_def)
next
  case (Suc j)
  show ?case
  proof (cases "int n < iDeqBatchSize q")
    case False
    with Suc.prems(4,5) have "t = []" "d = []" by simp_all
    with False Suc.prems show ?thesis by (auto simp: deqLoop.simps Let_def)
  next
    case True
    have more: "0 < getLogicalQueueSize q"
      using Suc.hyps(2) Suc.prems(1) by (auto simp: q_inv_def getLogicalQueueSize_def)
    from qqueueDeq_steps [OF Suc.prems(1) more] obtain q1 where
      q1: "qqueueDeq drv q = Some (RS_RET_OK, xs ! k, q1)" "q_inv rep q1 xs (Suc k)" "k < length xs"
        "same_cfg q q1" "iQueueSize q1 = iQueueSize q" by blast
    let ?m = "xs ! k"
    have dr: "drop k xs = ?m # drop (Suc k) xs" using q1(3) by (rule take_Suc_drop_nth)
    have j: "j = length xs - Suc k" using Suc.hyps(2) by simp
    have bs: "iDeqBatchSize q1 = iDeqBatchSize q" using q1(4) by (simp add: same_cfg_def)
    have keep1: "passes q1 h (iQueueSize q1) = passes q h (iQueueSize q)"
      using q1(4,5) by (auto simp: passes_def same_cfg_def fun_eq_iff)
    have pos: "nat (iDeqBatchSize q) - n \<noteq> 0" using True by simp
    show ?thesis
    proof (cases "passes q h (iQueueSize q) ?m")
      case pass: True
      obtain t1 where t1: "t = ?m # t1"
        "deqTake (passes q h (iQueueSize q)) (nat (iDeqBatchSize q) - n - 1) (drop (Suc k) xs) = (t1, d)"
        using Suc.prems(5) pass pos unfolding dr by (auto simp: Let_def split: prod.splits)
      let ?b = "b\<lparr>pElem := (pElem b)[n := Some ?m], eltState := (eltState b)[n := BATCH_STATE_RDY]\<rparr>"
      have lt: "n < length (pElem b)" "n < length (eltState b)"
        using True Suc.prems(2,3) by (auto simp: batch_arrays_def)
      have "passes q1 h (iQueueSize q1) ?m" using pass unfolding keep1 .
      from chkDiscard_pass [OF this] have step:
        "deqLoop drv n c (q, h) b = deqLoop drv (Suc n) c (q1, h) ?b"
        using more True q1(1) lt by (subst deqLoop.simps) (simp add: Let_def)
      have "refs_ok (mset (drop (Suc k) xs) + add_mset ?m R) h" using Suc.prems(6) unfolding dr by simp
      moreover have "batch_arrays bs ?b" using Suc.prems(2) by (simp add: batch_arrays_def)
      moreover have "deqTake (passes q1 h (iQueueSize q1)) (nat (iDeqBatchSize q1) - Suc n) (drop (Suc k) xs) = (t1, d)"
        using t1(2) unfolding keep1 bs by simp
      ultimately obtain q' h' b' sz where
        run: "deqLoop drv (Suc n) c (q1, h) ?b =
          Some (RS_RET_OK, Suc n + length t1, c + length d, sz, (q', h'), b')" and
        inv: "q_inv rep q' xs (Suc k + length t1 + length d)" "batch_arrays bs b'" "same_cfg q1 q'" and
        old: "\<forall>i < Suc n. pElem b' ! i = pElem ?b ! i \<and> eltState b' ! i = eltState ?b ! i" and
        new: "\<forall>i < length t1. pElem b' ! (Suc n + i) = Some (t1 ! i) \<and> eltState b' ! (Suc n + i) = BATCH_STATE_RDY" and
        ref: "refs_ok (mset (drop (Suc k + length t1 + length d) xs) + mset t1 + add_mset ?m R) h'"
        using Suc.hyps(1) [OF j q1(2), of ?b "Suc n" h t1 d "add_mset ?m R" c] Suc.prems(3) True bs by auto
      have "pElem b' ! (n + i) = Some (t ! i) \<and> eltState b' ! (n + i) = BATCH_STATE_RDY"
        if "i < length t" for i
      proof (cases i)
        case 0
        with old lt t1(1) show ?thesis by simp
      next
        case (Suc i')
        with new that t1(1) show ?thesis by simp
      qed
      moreover have "\<forall>i < n. pElem b' ! i = pElem b ! i \<and> eltState b' ! i = eltState b ! i"
        using old by simp
      ultimately show ?thesis
        using step run inv ref q1(4) t1(1) by (auto intro: same_cfg_trans)
    next
      case drp: False
      obtain d1 where d1: "d = ?m # d1"
        "deqTake (passes q h (iQueueSize q)) (nat (iDeqBatchSize q) - n) (drop (Suc k) xs) = (t, d1)"
        using Suc.prems(5) drp pos unfolding dr by (auto simp: Let_def split: prod.splits)
      have "refs_ok (add_mset ?m (mset (drop (Suc k) xs) + R)) h" using Suc.prems(6) unfolding dr by simp
      from msgDestruct_refs [OF this] obtain h1 where
        h1: "msgDestruct h ?m = Some h1" "refs_ok (mset (drop (Suc k) xs) + R) h1" by blast
      let ?q2 = "q1\<lparr>ctrNFDscrd := statsInc q1 (ctrNFDscrd q1)\<rparr>"
      have "\<not> passes q1 h (iQueueSize q1) ?m" using drp unfolding keep1 .
      from chkDiscard_drop [OF this h1(1)] have step:
        "deqLoop drv n c (q, h) b = deqLoop drv n (Suc c) (?q2, h1) b"
        using more True q1(1) by (subst deqLoop.simps) (simp add: Let_def)
      have c2: "same_cfg q ?q2" using q1(4) by (simp add: same_cfg_def)
      have "passes ?q2 h1 (iQueueSize ?q2) y = passes q h (iQueueSize q) y" if "y \<in> set (drop (Suc k) xs)" for y
      proof -
        have "h1 y \<noteq> None" using refs_ok_live [OF h1(2), of y] that by auto
        from passes_kept [OF sev_kept_Destruct [OF h1(1)] this c2] q1(5) show ?thesis by simp
      qed
      then have "deqTake (passes ?q2 h1 (iQueueSize ?q2)) (nat (iDeqBatchSize q) - n) (drop (Suc k) xs) =
          deqTake (passes q h (iQueueSize q)) (nat (iDeqBatchSize q) - n) (drop (Suc k) xs)"
        by (rule deqTake_cong)
      then have tk: "deqTake (passes ?q2 h1 (iQueueSize ?q2)) (nat (iDeqBatchSize ?q2) - n) (drop (Suc k) xs) = (t, d1)"
        using d1(2) bs by simp
      have i2: "q_inv rep ?q2 xs (Suc k)" using q1(2) by simp
      have b2: "iDeqBatchSize ?q2 \<le> int bs" "int n \<le> iDeqBatchSize ?q2" using Suc.prems(3,4) bs by simp_all
      from Suc.hyps(1) [OF j i2 Suc.prems(2) b2 tk h1(2), of "Suc c"]
      obtain q' h' b' sz where
        "deqLoop drv n (Suc c) (?q2, h1) b = Some (RS_RET_OK, n + length t, Suc c + length d1, sz, (q', h'), b')"
        "q_inv rep q' xs (Suc k + length t + length d1)" "batch_arrays bs b'" "same_cfg ?q2 q'"
        "\<forall>i < n. pElem b' ! i = pElem b ! i \<and> eltState b' ! i = eltState b ! i"
        "\<forall>i < length t. pElem b' ! (n + i) = Some (t ! i) \<and> eltState b' ! (n + i) = BATCH_STATE_RDY"
        "refs_ok (mset (drop (Suc k + length t + length d1) xs) + mset t + R) h'"
        by blast
      then show ?thesis using step d1(1) c2 same_cfg_trans by auto
    qed
  qed
qed

text \<open>
  Enqueueing again with room: every unfinished element becomes the newest one, with the queue's
  reference; the worker's reference to each element is dropped.
\<close>

lemma dpbLoop_requeues:
  assumes "\<forall>i. fst (env i)" and "batch_holds b ms" and "set is \<subseteq> {..<length ms}"
    and "q_inv rep q xs k" and "has_room q h (retried b ms is)" and "refs_ok (mset (map ((!) ms) is) + R) h"
  shows "\<exists>n' q' h'. dpbLoop drv env b is n (q, h) = Some (Done (n', (q', h'))) \<and>
    q_inv rep q' (xs @ retried b ms is) k \<and> refs_ok (mset (retried b ms is) + R) h' \<and> same_cfg q q' \<and>
    sev_kept h h'"
  using assms(3-6)
proof (induction "is" arbitrary: n q xs R h)
  case Nil
  then show ?case by (simp add: retried_def)
next
  case (Cons i js)
  let ?m = "ms ! i"
  have i: "i < length ms" and js: "set js \<subseteq> {..<length ms}" using Cons.prems(1) by simp_all
  have cell: "c_get (pElem b) i = Some (Some ?m)" and st: "c_get (eltState b) i = Some (eltState b ! i)"
    using assms(2) i by (auto simp: batch_holds_def)
  have refs: "refs_ok (add_mset ?m (mset (map ((!) ms) js) + R)) h" using Cons.prems(4) by simp
  have sub: "set (retried b ms js) \<subseteq> set (map ((!) ms) js)" by (auto simp: retried_def)
  show ?case
  proof (cases "unfinished b i")
    case False
    from msgDestruct_refs [OF refs] obtain h2 where
      h2: "msgDestruct h ?m = Some h2" "refs_ok (mset (map ((!) ms) js) + R) h2" by blast
    note k2 = sev_kept_Destruct [OF h2(1)]
    have "\<forall>m \<in> set (retried b ms js). h2 m \<noteq> None"
      using sub refs_ok_live [OF h2(2)] by fastforce
    moreover have "has_room q h (retried b ms js)" using Cons.prems(3) False by (simp add: retried_def)
    ultimately have room: "has_room q h2 (retried b ms js)" using k2 has_room_kept by blast
    from Cons.IH [OF js Cons.prems(2) room h2(2), of n] obtain n' q' h' where
      "dpbLoop drv env b js n (q, h2) = Some (Done (n', (q', h')))"
      "q_inv rep q' (xs @ retried b ms js) k" "refs_ok (mset (retried b ms js) + R) h'" "same_cfg q q'"
      "sev_kept h2 h'" by blast
    then show ?thesis using False cell st h2(1) k2
      by (auto simp: unfinished_def retried_def intro: sev_kept_trans)
  next
    case True
    have rt: "retried b ms (i # js) = ?m # retried b ms js" using True by (simp add: retried_def)
    have "?m \<in># add_mset ?m (mset (map ((!) ms) js) + R)" by simp
    from MsgAddRef_refs [OF refs this] obtain h1 where
      h1: "MsgAddRef h ?m = Some h1" "refs_ok (add_mset ?m (add_mset ?m (mset (map ((!) ms) js) + R))) h1" by blast
    note k1 = sev_kept_AddRef [OF h1(1)]
    obtain ws trm where env: "env i = (True, ws, trm)" using assms(1) by (metis prod.collapse)
    have nf: "\<not> queueIsFull q"
      using Cons.prems(2,3) by (auto simp: queueIsFull_def has_room_def q_inv_def rt)
    have "\<forall>m \<in> set (retried b ms (i # js)). h1 m \<noteq> None"
      using sub refs_ok_live [OF h1(2)] by (fastforce simp: rt)
    then have "has_room q h1 (?m # retried b ms js)"
      using Cons.prems(3) k1 has_room_kept rt by metis
    note room1 = this and pass = has_room_passes [OF this]
    have smp: "iSmpInterval q \<le> 0" using Cons.prems(3) by (simp add: has_room_def rt)
    obtain q1 where q1: "doEnqSingleObj drv True ws trm eFLOWCTL_NO_DELAY (q, h1) ?m = Some (Done (RS_RET_OK, (q1, h1)))"
      "q_inv rep q1 (xs @ [?m]) k" "same_cfg q q1"
      using enq_appends_cfg [OF Cons.prems(2) nf pass smp, of eFLOWCTL_NO_DELAY ws trm] by auto
    from msgDestruct_refs [OF h1(2)] obtain h2 where
      h2: "msgDestruct h1 ?m = Some h2" "refs_ok (add_mset ?m (mset (map ((!) ms) js) + R)) h2" by blast
    note k2 = sev_kept_Destruct [OF h2(1)]
    have "\<forall>m \<in> set (retried b ms js). h2 m \<noteq> None" using sub refs_ok_live [OF h2(2)] by fastforce
    moreover have "iQueueSize q1 = iQueueSize q + 1" using Cons.prems(2) q1(2) by (simp add: q_inv_def)
    ultimately have room: "has_room q1 h2 (retried b ms js)" using has_room_tl [OF room1 k2 _ q1(3)] by simp
    have "refs_ok (mset (map ((!) ms) js) + add_mset ?m R) h2" using h2(2) by simp
    from Cons.IH [OF js q1(2) room this, of "n + 1"] obtain n' q' h' where
      "dpbLoop drv env b js (n + 1) (q1, h2) = Some (Done (n', (q', h')))"
      "q_inv rep q' ((xs @ [?m]) @ retried b ms js) k" "refs_ok (mset (retried b ms js) + add_mset ?m R) h'"
      "same_cfg q1 q'" "sev_kept h2 h'" by blast
    then show ?thesis using True cell st h1(1) env q1(1,3) h2(1) k1 k2 rt
      by (auto simp: unfinished_def intro: same_cfg_trans sev_kept_trans)
  qed
qed

text \<open>
  Deleting a processed batch: the oldest elements are gone, the unfinished ones are at the end
  again, and each finished one lost the worker's reference.
\<close>

lemma DeleteProcessed_requeues:
  assumes "\<forall>i. fst (env i)" and "batch_holds b ms" and "q_inv rep q xs k" and "length ms \<le> k"
    and "has_room q h (retried b ms [0..<length ms])" and "refs_ok (mset ms + R) h"
  shows "\<exists>q' h'. DeleteProcessedBatch drv env ok (q, h) b =
      Some (Done (RS_RET_OK, (q', h'), b\<lparr>nElem := 0, nElemDeq := 0\<rparr>)) \<and>
    q_inv rep q' (drop (length ms) xs @ retried b ms [0..<length ms]) (k - length ms) \<and>
    refs_ok (mset (retried b ms [0..<length ms]) + R) h' \<and> same_cfg q q' \<and> sev_kept h h'"
proof -
  let ?rt = "retried b ms [0..<length ms]"
  have n: "nElem b = length ms" using assms(2) by (simp add: batch_holds_def)
  have sub: "set [0..<length ms] \<subseteq> {..<length ms}" by auto
  have "refs_ok (mset (map ((!) ms) [0..<length ms]) + R) h"
    using assms(6) by (simp only: map_nth)
  from dpbLoop_requeues [OF assms(1,2) sub assms(3,5) this, of 0] obtain c q1 h1 where
    l: "dpbLoop drv env b [0..<nElem b] 0 (q, h) = Some (Done (c, (q1, h1)))"
      "q_inv rep q1 (xs @ ?rt) k" "refs_ok (mset ?rt + R) h1" "same_cfg q q1" "sev_kept h h1"
    unfolding n by blast
  let ?q2 = "if c > 0 then qqueueChkPersist q1 (int c) else q1"
  have i2: "q_inv rep ?q2 (xs @ ?rt) k" and c2: "same_cfg q ?q2"
    using l(2,4) by (auto simp: qqueueChkPersist_def Let_def same_cfg_def)
  have le: "length ms \<le> length xs" using assms(3,4) rep_le by (fastforce simp: q_inv_def)
  from DeleteBatch_steps [OF i2, of b ok] assms(4) n obtain q3 where
    q3: "DeleteBatchFromQStore drv ok ?q2 b = Some (RS_RET_OK, q3)"
      "q_inv rep q3 (drop (length ms) (xs @ ?rt)) (k - length ms)" "same_cfg ?q2 q3" by auto
  have "DeleteProcessedBatch drv env ok (q, h) b = Some (Done (RS_RET_OK, (q3, h1), b\<lparr>nElem := 0, nElemDeq := 0\<rparr>))"
    using l(1) q3(1) by (simp add: DeleteProcessedBatch_def Let_def)
  then show ?thesis using q3(2) le l(3,5) same_cfg_trans [OF c2 q3(3)] by simp
qed

text \<open>
  A worker's turn with room for what it enqueues again: the old batch is deleted, the next one is
  what \<open>deqTake\<close> takes of the elements waiting, and every reference is where its message is.
\<close>

lemma DequeueElements_turn:
  assumes "\<forall>i. fst (env i)" and "batch_holds b ms" and "batch_arrays bs b"
    and "q_inv rep q xs k" and "length ms \<le> k" and "iDeqBatchSize q \<le> int bs" and "0 \<le> iDeqBatchSize q"
    and "has_room q h (retried b ms [0..<length ms])"
    and "refs_ok (mset (drop k xs) + mset ms + R) h"
    and "ys = drop k xs @ retried b ms [0..<length ms]"
    and "deqTake (passes q h (int (length xs - length ms + length (retried b ms [0..<length ms]))))
      (nat (iDeqBatchSize q)) ys = (t, d)"
  shows "\<exists>q' h' b' sz. DequeueConsumableElements drv env ok (q, h) b = Some (Done (RS_RET_OK, sz, (q', h'), b')) \<and>
    q_inv rep q' (drop (length ms) xs @ retried b ms [0..<length ms]) (k - length ms + length t + length d) \<and>
    batch_holds b' t \<and> batch_arrays bs b' \<and> nElemDeq b' = length t + length d \<and>
    (\<forall>i < length t. eltState b' ! i = BATCH_STATE_RDY) \<and>
    refs_ok (mset (drop (length t + length d) ys) + mset t + R) h' \<and> same_cfg q q'"
proof -
  let ?rt = "retried b ms [0..<length ms]"
  have n: "nElem b = length ms" using assms(2) by (simp add: batch_holds_def)
  have "refs_ok (mset ms + (mset (drop k xs) + R)) h" using assms(9) by (simp add: ac_simps)
  from DeleteProcessed_requeues [OF assms(1,2,4,5,8) this, of ok] obtain q1 h1 where
    d1: "DeleteProcessedBatch drv env ok (q, h) b =
      Some (Done (RS_RET_OK, (q1, h1), b\<lparr>nElem := 0, nElemDeq := 0\<rparr>))" and
    i1: "q_inv rep q1 (drop (length ms) xs @ ?rt) (k - length ms)" and
    r1: "refs_ok (mset ?rt + (mset (drop k xs) + R)) h1" and c1: "same_cfg q q1" and s1: "sev_kept h h1"
    by blast
  let ?xs1 = "drop (length ms) xs @ ?rt" and ?k1 = "k - length ms"
  have k: "k \<le> length xs" using q_inv_le [OF assms(4)] .
  have ys: "drop ?k1 ?xs1 = ys" using assms(5,10) k by (simp add: drop_drop)
  have sz: "iQueueSize q1 = int (length xs - length ms + length ?rt)"
    using i1 assms(5) k by (simp add: q_inv_def)
  have keep: "passes q1 h1 (iQueueSize q1) y = passes q h (int (length xs - length ms + length ?rt)) y"
    if "y \<in> set (drop ?k1 ?xs1)" for y
  proof -
    have "y \<in># mset ?rt + (mset (drop k xs) + R)" using that assms(10) unfolding ys by auto
    from refs_ok_live [OF r1 this] have "h1 y \<noteq> None" by blast
    from passes_kept [OF s1 this c1] show ?thesis unfolding sz .
  qed
  have bs: "iDeqBatchSize q1 = iDeqBatchSize q" using c1 by (simp add: same_cfg_def)
  have "deqTake (passes q1 h1 (iQueueSize q1)) (nat (iDeqBatchSize q)) (drop ?k1 ?xs1) =
      deqTake (passes q h (int (length xs - length ms + length ?rt))) (nat (iDeqBatchSize q)) (drop ?k1 ?xs1)"
    by (rule deqTake_cong) (rule keep)
  then have tk: "deqTake (passes q1 h1 (iQueueSize q1)) (nat (iDeqBatchSize q1) - 0) (drop ?k1 ?xs1) = (t, d)"
    using assms(11) unfolding ys bs by simp
  let ?b1 = "b\<lparr>nElem := 0, nElemDeq := 0\<rparr>"
  have a1: "batch_arrays bs ?b1" using assms(3) by (simp add: batch_arrays_def)
  have b1: "iDeqBatchSize q1 \<le> int bs" "int 0 \<le> iDeqBatchSize q1" using bs assms(6,7) by simp_all
  have r2: "refs_ok (mset (drop ?k1 ?xs1) + R) h1" using r1 assms(10) unfolding ys by (simp add: ac_simps)
  from deqLoop_take [OF i1 a1 b1 tk r2, of 0] obtain q2 h2 b2 sz where
    run: "deqLoop drv 0 0 (q1, h1) ?b1 = Some (RS_RET_OK, length t, length d, sz, (q2, h2), b2)" and
    q2: "q_inv rep q2 ?xs1 (?k1 + length t + length d)" "batch_arrays bs b2" "same_cfg q1 q2"
      "\<forall>i < length t. pElem b2 ! i = Some (t ! i) \<and> eltState b2 ! i = BATCH_STATE_RDY"
      "refs_ok (mset (drop (?k1 + length t + length d) ?xs1) + mset t + R) h2" by auto
  let ?q3 = "qqueueChkPersist q2 (int (length t + length d + nElemDeq b))"
  let ?q4 = "?q3\<lparr>deqIDAdd := deqIDAdd ?q3 + 1\<rparr>"
  let ?b3 = "b2\<lparr>nElem := length t, nElemDeq := length t + length d, deqID := deqIDAdd ?q3\<rparr>"
  have "DequeueConsumableElements drv env ok (q, h) b = Some (Done (RS_RET_OK, sz, (?q4, h2), ?b3))"
    using d1 run by (simp add: DequeueConsumableElements_def getNextDeqID_def Let_def)
  moreover have "q_inv rep ?q4 ?xs1 (?k1 + length t + length d)" and "same_cfg q ?q4"
    using q2(1) same_cfg_trans [OF c1 q2(3)] by (simp_all add: qqueueChkPersist_def Let_def same_cfg_def)
  moreover have "length t \<le> length (pElem b2)"
  proof -
    have "length t \<le> nat (iDeqBatchSize q)"
      using assms(11) deqTake_batch by (metis fst_conv length_take min.cobounded2 min.commute)
    then show ?thesis using assms(6) q2(2) by (auto simp: batch_arrays_def)
  qed
  then have "batch_holds ?b3 t" "batch_arrays bs ?b3"
    using q2 by (simp_all add: batch_holds_def batch_arrays_def)
  moreover have "drop (?k1 + length t + length d) ?xs1 = drop (length t + length d) ys"
    unfolding ys [symmetric] by (simp add: drop_drop ac_simps del: drop_append)
  ultimately show ?thesis using q2(4,5) by auto
qed

text \<open>The same loop over any world, for the pipeline.\<close>

lemma deqLoop_world:
  assumes "world_ok rep bs d own w" and "batch_arrays bs b"
  shows "\<exists>t c sz w' b'. deqLoop drv 0 0 w b = Some (RS_RET_OK, length t, c, sz, w', b') \<and>
    world_ok rep bs (length t + d) (mset t + own) w' \<and> batch_arrays bs b' \<and> length t \<le> length (pElem b') \<and>
    (\<forall>i < length t. pElem b' ! i = Some (t ! i))"
proof -
  obtain q h where w: "w = (q, h)" by (cases w)
  from assms(1) w obtain xs k where i: "q_inv rep q xs k" "iDeqBatchSize q \<le> int bs" "d \<le> k"
    "refs_ok (mset (drop k xs) + own) h" by (auto elim: world_okE)
  show ?thesis
  proof (cases "0 \<le> iDeqBatchSize q")
    case False
    then have "deqLoop drv 0 0 w b = Some (RS_RET_OK, 0, 0, getLogicalQueueSize q, w, b)"
      by (auto simp: deqLoop.simps w Let_def)
    with assms show ?thesis by (intro exI [of _ "[]"]) auto
  next
    case True
    obtain t dd where tk: "deqTake (passes q h (iQueueSize q)) (nat (iDeqBatchSize q) - 0) (drop k xs) = (t, dd)"
      by fastforce
    have "int 0 \<le> iDeqBatchSize q" using True by simp
    from deqLoop_take [OF i(1) assms(2) i(2) this tk i(4), of 0] obtain q' h' b' sz where
      run: "deqLoop drv 0 0 (q, h) b = Some (RS_RET_OK, length t, length dd, sz, (q', h'), b')" and
      r: "q_inv rep q' xs (k + length t + length dd)" "batch_arrays bs b'" "same_cfg q q'"
        "\<forall>i < length t. pElem b' ! i = Some (t ! i)"
        "refs_ok (mset (drop (k + length t + length dd) xs) + mset t + own) h'" by auto
    have "world_ok rep bs (length t + d) (mset t + own) (q', h')"
      by (rule world_okI [OF r(1)]) (use i(2,3) r(3,5) in \<open>auto simp: same_cfg_def ac_simps\<close>)
    moreover have "length t \<le> length (pElem b')"
    proof -
      have "length t \<le> nat (iDeqBatchSize q)"
        using tk deqTake_batch by (metis diff_zero fst_conv length_take min.cobounded2 min.commute)
      then show ?thesis using i(2) r(2) by (auto simp: batch_arrays_def)
    qed
    ultimately show ?thesis using run w r(2,4) by blast
  qed
qed

end

section \<open>Properties\<close>

definition batch_ex :: batch where
  "batch_ex = \<lparr>maxElem = 8, nElem = 0, nElemDeq = 0, deqID = 0, pElem = replicate 8 None,
     eltState = replicate 8 BATCH_STATE_RDY\<rparr>"

lemma batch_ex_ok: "batch_holds batch_ex []" "batch_arrays 8 batch_ex"
  by (simp_all add: batch_holds_def batch_arrays_def batch_ex_def)

definition batch1_ex :: batch where
  "batch1_ex = batch_ex\<lparr>nElem := 1, nElemDeq := 1, pElem := (pElem batch_ex)[0 := Some 7]\<rparr>"



text \<open>
  C13: Dequeueing from a linked-list queue for a worker with no batch outstanding takes the oldest
  waiting elements in order: the batch is the first \<open>iDeqBatchSize\<close> of those that the discard
  check lets pass (a queue below its discard mark or messages below its discard severity pass),
  all ready; the others met on the way are released; nothing behind them is touched, and every
  reference is accounted for.
\<close>

theorem dequeue_takes_prefix:
  assumes "q_inv linklist_rep q xs k" and "batch_arrays bs b"
    and "iDeqBatchSize q \<le> int bs" and "0 \<le> iDeqBatchSize q" and "nElem b = 0"
    and "refs_ok (mset (drop k xs) + R) h"
    and "deqTake (passes q h (iQueueSize q)) (nat (iDeqBatchSize q)) (drop k xs) = (t, d)"
  shows "\<exists>q' h' b' sz. DequeueConsumableElements linklist_driver env ok (q, h) b =
      Some (Done (RS_RET_OK, sz, (q', h'), b')) \<and>
    t = take (nat (iDeqBatchSize q)) (filter (passes q h (iQueueSize q)) (drop k xs)) \<and>
    q_inv linklist_rep q' xs (k + length t + length d) \<and> batch_holds b' t \<and>
    nElemDeq b' = length t + length d \<and> (\<forall>i < length t. eltState b' ! i = BATCH_STATE_RDY) \<and>
    refs_ok (mset (drop (k + length t + length d) xs) + mset t + R) h'"
proof -
  let ?env = "\<lambda>_. (True, [], False)"
  have b: "batch_holds b []" using assms(2,5) by (simp add: batch_arrays_def batch_holds_def)
  have sz: "iQueueSize q = int (length xs)" using assms(1) by (simp add: q_inv_def)
  have e: "DequeueConsumableElements linklist_driver env ok (q, h) b =
      DequeueConsumableElements linklist_driver ?env ok (q, h) b"
    using assms(5) by (simp add: DequeueConsumableElements_def DeleteProcessedBatch_def)
  have "t = take (nat (iDeqBatchSize q)) (filter (passes q h (iQueueSize q)) (drop k xs))"
    using deqTake_batch [of "passes q h (iQueueSize q)" "nat (iDeqBatchSize q)" "drop k xs"] assms(7) by simp
  then show ?thesis unfolding e
    using ll.DequeueElements_turn [of ?env b "[]" bs q xs k h R "drop k xs" t d ok] assms b sz
    by (auto simp: retried_def has_room_def ac_simps)
qed

text \<open>
  The witness: a full queue at its discard mark with a message of severity 7, which is discarded,
  and one of severity 3.
\<close>

definition llq6_ex :: "linklist qqueue" where
  "llq6_ex = llq4_ex\<lparr>nLogDeq := 0, iDiscardSeverity := 5, tVars := (tVars llq4_ex)\<lparr>pDeqRoot := Some 0\<rparr>\<rparr>"

lemma llq6_ex_inv: "q_inv linklist_rep llq6_ex [7, 8] 0"
  by (auto simp: q_inv_def llq6_ex_def llq4_ex_def llq_ex_def qqueueConstruct_def linklist_rep_def ll_rep_def
      less_Suc_eq intro!: exI [of _ "[0, 1]"])

lemma llq6_ex_sel: "iDeqBatchSize llq6_ex = 8" "iDiscardMrk llq6_ex = 2" "iDiscardSeverity llq6_ex = 5"
  "iQueueSize llq6_ex = 2"
  by (simp_all add: llq6_ex_def llq4_ex_def llq_ex_def qqueueConstruct_def)

lemma refs_78_ex: "refs_ok {#7, 8#} [7 \<mapsto> msg_ex s, 8 \<mapsto> msg_ex t]"
  by (rule refs_okI) (auto simp: msg_ex_def split: if_splits)

theorem dequeue_takes_prefix_witness:
  "\<exists>q' h' b' sz. DequeueConsumableElements linklist_driver (\<lambda>_. (True, [], False)) True
      (llq6_ex, [7 \<mapsto> msg_ex 7, 8 \<mapsto> msg_ex 3]) batch_ex = Some (Done (RS_RET_OK, sz, (q', h'), b')) \<and>
    [8] = take (nat (iDeqBatchSize llq6_ex))
      (filter (passes llq6_ex [7 \<mapsto> msg_ex 7, 8 \<mapsto> msg_ex 3] (iQueueSize llq6_ex)) (drop 0 [7, 8])) \<and>
    q_inv linklist_rep q' [7, 8] (0 + length [8 :: msgptr] + length [7 :: msgptr]) \<and> batch_holds b' [8] \<and>
    nElemDeq b' = length [8 :: msgptr] + length [7 :: msgptr] \<and>
    (\<forall>i < length [8 :: msgptr]. eltState b' ! i = BATCH_STATE_RDY) \<and>
    refs_ok (mset (drop (0 + length [8 :: msgptr] + length [7 :: msgptr]) [7, 8]) + mset [8] + {#}) h'"
proof (rule dequeue_takes_prefix [OF llq6_ex_inv batch_ex_ok(2)])
  show "refs_ok (mset (drop 0 [7, 8]) + {#}) [7 \<mapsto> msg_ex 7, 8 \<mapsto> msg_ex 3]"
    using refs_78_ex by simp
  show "deqTake (passes llq6_ex [7 \<mapsto> msg_ex 7, 8 \<mapsto> msg_ex 3] (iQueueSize llq6_ex))
      (nat (iDeqBatchSize llq6_ex)) (drop 0 [7, 8]) = ([8], [7])"
    by (simp add: llq6_ex_sel passes_def msg_ex_def)
qed (simp_all add: llq6_ex_sel batch_ex_def)





definition heap789_ex :: msgheap where
  "heap789_ex = [7 \<mapsto> msg_ex 2, 8 \<mapsto> msg_ex 3, 9 \<mapsto> msg_ex 4]"

lemma refs_789_ex: "refs_ok {#7, 8, 9#} heap789_ex"
  by (rule refs_okI) (auto simp: heap789_ex_def msg_ex_def split: if_splits)


text \<open>
  C2: What a worker leaves unfinished is delivered again: deleting a processed batch from a
  linked-list queue with room (filled below its bound and discard mark by enough, or with a
  discard severity the messages are below; no sampling, not disk-assisted) drops the oldest
  elements, appends exactly the unfinished ones of the batch in their order with the queue's
  reference, and takes exactly the worker's reference from every element, so that a finished one
  nobody else holds is freed.
\<close>

theorem unfinished_elements_requeued:
  assumes "\<forall>i. fst (env i)" and "batch_holds b ms" and "q_inv linklist_rep q xs k" and "length ms \<le> k"
    and "has_room q h (retried b ms [0..<length ms])" and "refs_ok (mset ms + R) h"
  shows "\<exists>q' h'. DeleteProcessedBatch linklist_driver env ok (q, h) b =
      Some (Done (RS_RET_OK, (q', h'), b\<lparr>nElem := 0, nElemDeq := 0\<rparr>)) \<and>
    q_inv linklist_rep q' (drop (length ms) xs @ retried b ms [0..<length ms]) (k - length ms) \<and>
    refs_ok (mset (retried b ms [0..<length ms]) + R) h'"
  using ll.DeleteProcessed_requeues [OF assms, of ok] by blast

text \<open>The witness: of a batch of two, 7 is to be tried again and 8 is done.\<close>

definition llq7_ex :: "linklist qqueue" where
  "llq7_ex = llq4_ex\<lparr>iMaxQueueSize := 4, iDiscardMrk := 3, nLogDeq := 2, tVars := (tVars llq4_ex)\<lparr>pDeqRoot := None\<rparr>\<rparr>"

lemma llq7_ex_inv: "q_inv linklist_rep llq7_ex [7, 8] 2"
  by (auto simp: q_inv_def llq7_ex_def llq4_ex_def llq_ex_def qqueueConstruct_def linklist_rep_def ll_rep_def
      less_Suc_eq intro!: exI [of _ "[0, 1]"])

definition batch2_ex :: batch where
  "batch2_ex = batch1_ex\<lparr>nElem := 2, nElemDeq := 2, pElem := (pElem batch1_ex)[1 := Some 8],
     eltState := (eltState batch1_ex)[1 := BATCH_STATE_COMM]\<rparr>"

lemma batch2_ex_ok: "batch_holds batch2_ex [7, 8]" "retried batch2_ex [7, 8] [0..<length [7, 8 :: msgptr]] = [7]"
  by (auto simp: batch_holds_def batch2_ex_def batch1_ex_def batch_ex_def retried_def unfinished_def
      less_Suc_eq upt_rec)

theorem unfinished_elements_requeued_witness:
  "\<exists>q' h'. DeleteProcessedBatch linklist_driver (\<lambda>_. (True, [], False)) True (llq7_ex, heap789_ex) batch2_ex =
      Some (Done (RS_RET_OK, (q', h'), batch2_ex\<lparr>nElem := 0, nElemDeq := 0\<rparr>)) \<and>
    q_inv linklist_rep q' (drop (length [7, 8 :: msgptr]) [7, 8] @ retried batch2_ex [7, 8] [0..<length [7, 8 :: msgptr]])
      (2 - length [7, 8 :: msgptr]) \<and>
    refs_ok (mset (retried batch2_ex [7, 8] [0..<length [7, 8 :: msgptr]]) + {#9#}) h'"
proof (rule unfinished_elements_requeued [OF _ batch2_ex_ok(1) llq7_ex_inv])
  show "has_room llq7_ex heap789_ex (retried batch2_ex [7, 8] [0..<length [7, 8 :: msgptr]])"
    unfolding batch2_ex_ok(2)
    by (simp add: has_room_def llq7_ex_def llq4_ex_def llq_ex_def qqueueConstruct_def)
  show "refs_ok (mset [7, 8] + {#9#}) heap789_ex"
    using refs_789_ex by (simp add: add_mset_commute)
qed simp_all

text \<open>
  Elements discarded at dequeue are never deleted. When a batch of \<open>nElem\<close> used and
  \<open>nElemDeq - nElem\<close> discarded elements is the only one outstanding and was processed,
  the discarded ones stay counted as dequeued and stay in the store, although no batch answers
  for them any more.
\<close>

theorem discarded_elements_stay:
  assumes "q_inv linklist_rep q xs (nElemDeq b)" and "nElem b \<le> nElemDeq b"
    and "\<forall>i < nElem b. eltState b ! i = BATCH_STATE_COMM"
    and "batch_holds b ms" and "refs_ok (mset ms + ext) h"
  shows "\<exists>q' h' b'. DeleteProcessedBatch linklist_driver env ok (q, h) b = Some (Done (RS_RET_OK, (q', h'), b')) \<and>
    nElem b' = 0 \<and> nElemDeq b' = 0 \<and> refs_ok ext h' \<and>
    q_inv linklist_rep q' (drop (nElem b) xs) (nElemDeq b - nElem b) \<and>
    nLogDeq q' = int (nElemDeq b - nElem b)"
proof -
  have n: "nElem b = length ms" using assms(4) by (simp add: batch_holds_def)
  have loop: "\<exists>h'. dpbLoop linklist_driver env b is 0 (q, h0) = Some (Done (0, (q, h'))) \<and> refs_ok ext h'"
    if "set is \<subseteq> {..<length ms}" and "refs_ok (mset (map ((!) ms) is) + ext) h0" for "is" h0
    using that
  proof (induction "is" arbitrary: h0)
    case Nil
    then show ?case by simp
  next
    case (Cons i js)
    then have i: "i < length ms" by simp
    have "refs_ok (add_mset (ms ! i) (mset (map ((!) ms) js) + ext)) h0" using Cons.prems(2) by simp
    from msgDestruct_refs [OF this] obtain h1 where
      h1: "msgDestruct h0 (ms ! i) = Some h1" "refs_ok (mset (map ((!) ms) js) + ext) h1" by blast
    have "c_get (pElem b) i = Some (Some (ms ! i))" "c_get (eltState b) i = Some BATCH_STATE_COMM"
      using assms(3,4) i by (auto simp: batch_holds_def n)
    with h1 Cons.IH [OF _ h1(2)] Cons.prems(1) show ?case by simp
  qed
  have sub: "set [0..<length ms] \<subseteq> {..<length ms}" by auto
  have "refs_ok (mset (map ((!) ms) [0..<length ms]) + ext) h" using assms(5) by (simp only: map_nth)
  from loop [OF sub this] obtain h' where
    l: "dpbLoop linklist_driver env b [0..<nElem b] 0 (q, h) = Some (Done (0, (q, h')))" "refs_ok ext h'"
    by (auto simp: n)
  from ll.DeleteBatch_steps [OF assms(1,2), of ok] obtain q' where
    d: "DeleteBatchFromQStore linklist_driver ok q b = Some (RS_RET_OK, q')"
      "q_inv linklist_rep q' (drop (nElem b) xs) (nElemDeq b - nElem b)" by blast
  have "DeleteProcessedBatch linklist_driver env ok (q, h) b =
      Some (Done (RS_RET_OK, (q', h'), b\<lparr>nElem := 0, nElemDeq := 0\<rparr>))"
    using l(1) d(1) by (simp add: DeleteProcessedBatch_def Let_def)
  with l(2) d(2) show ?thesis by (auto simp: q_inv_def)
qed

definition llq2_ex :: "linklist qqueue" where
  "llq2_ex = llq1_ex\<lparr>nLogDeq := 1, tVars := (tVars llq1_ex)\<lparr>pDeqRoot := None\<rparr>\<rparr>"

lemma llq2_ex_inv: "q_inv linklist_rep llq2_ex [7] 1"
  by (auto simp: q_inv_def llq2_ex_def llq1_ex_def llq_ex_def qqueueConstruct_def linklist_rep_def ll_rep_def
      intro!: exI [of _ "[0]"])

definition batch_dsc_ex :: batch where "batch_dsc_ex = batch_ex\<lparr>nElemDeq := 1\<rparr>"

theorem discarded_elements_stay_witness:
  "\<exists>q' h' b'. DeleteProcessedBatch linklist_driver (\<lambda>_. (True, [], False)) True (llq2_ex, Map.empty) batch_dsc_ex =
      Some (Done (RS_RET_OK, (q', h'), b')) \<and>
    nElem b' = 0 \<and> nElemDeq b' = 0 \<and> refs_ok {#} h' \<and>
    q_inv linklist_rep q' (drop (nElem batch_dsc_ex) [7]) (nElemDeq batch_dsc_ex - nElem batch_dsc_ex) \<and>
    nLogDeq q' = int (nElemDeq batch_dsc_ex - nElem batch_dsc_ex)"
proof (rule discarded_elements_stay)
  show "q_inv linklist_rep llq2_ex [7] (nElemDeq batch_dsc_ex)"
    using llq2_ex_inv by (simp add: batch_dsc_ex_def)
  show "batch_holds batch_dsc_ex []" by (simp add: batch_holds_def batch_dsc_ex_def batch_ex_def)
qed (simp_all add: batch_dsc_ex_def batch_ex_def)

lemma qDeq_exhausted:
  "linklist_rep mx t xs (length xs) \<Longrightarrow> qDeqLinkedList mx t = None"
  by (auto simp: linklist_rep_def ll_rep_def qDeqLinkedList_def)

lemma drain_stuck:
  assumes "linklist_rep (iMaxQueueSize q) (tVars q) xs k" and "iQueueSize q = int (length xs)"
    and "2 \<le> k"
  shows "queueDrain linklist_driver (q, h) = None"
  using assms
proof (induction "length xs" arbitrary: q xs h)
  case 0
  then show ?case using ll.rep_le by fastforce
next
  case (Suc n)
  let ?q1 = "q\<lparr>iQueueSize := iQueueSize q - 1\<rparr>"
  have le: "k \<le> length xs" using Suc.prems(1) by (rule ll.rep_le)
  then have big: "0 < iQueueSize ?q1" using Suc.prems(2,3) by simp
  show ?case
  proof (cases "k = length xs")
    case True
    with Suc.prems(1) have "qDeqLinkedList (iMaxQueueSize q) (tVars q) = None"
      by (simp add: qDeq_exhausted)
    with big show ?thesis by (subst queueDrain.simps) (simp add: Let_def linklist_driver_def)
  next
    case False
    with le have "k < length xs" by simp
    from ll.rep_deq [OF Suc.prems(1) this] obtain t where
      t: "qDeq linklist_driver (iMaxQueueSize q) (tVars q) = Some (RS_RET_OK, xs ! k, t)"
        "linklist_rep (iMaxQueueSize q) t xs (Suc k)" by blast
    from ll.rep_del [OF t(2)] obtain t2 where
      t2: "qDel linklist_driver (iMaxQueueSize q) t = Some (RS_RET_OK, t2)"
        "linklist_rep (iMaxQueueSize q) t2 (tl xs) k" by auto
    have "queueDrain linklist_driver (?q1\<lparr>tVars := t2\<rparr>, h1) = None" for h1
      by (rule Suc.hyps(1) [of "tl xs"]) (use Suc t2 big in auto)
    with t t2 big show ?thesis
      by (subst queueDrain.simps) (simp add: Let_def split: option.split)
  qed
qed

text \<open>
  Destroying a linked-list queue in which two or more elements are still counted as
  dequeued is undefined behaviour: \<open>queueDrain\<close> runs past the last element that can be
  dequeued and follows a null root. Elements discarded at dequeue leave a queue in that state.
\<close>

theorem destruct_after_discards_undefined:
  assumes "q_inv linklist_rep q xs k" and "2 \<le> k"
  shows "qDestructLinkedList (q, h) = None"
  using assms drain_stuck [of q xs k h] by (simp add: q_inv_def qDestructLinkedList_def)

definition llq3_ex :: "linklist qqueue" where
  "llq3_ex = llq_ex\<lparr>iQueueSize := 2, nLogDeq := 2, tVars :=
     \<lparr>pDeqRoot = None, pDelRoot = Some 0, pLast = Some 1,
      nodes = [0 \<mapsto> \<lparr>ll_pNext = Some 1, ll_pMsg = 7\<rparr>, 1 \<mapsto> \<lparr>ll_pNext = None, ll_pMsg = 8\<rparr>], fresh = 2\<rparr>\<rparr>"

lemma llq3_ex_inv: "q_inv linklist_rep llq3_ex [7, 8] 2"
  by (auto simp: q_inv_def llq3_ex_def llq_ex_def qqueueConstruct_def linklist_rep_def ll_rep_def
      less_Suc_eq intro!: exI [of _ "[0, 1]"])

theorem destruct_after_discards_undefined_witness:
  "qDestructLinkedList (llq3_ex, Map.empty) = None"
  by (rule destruct_after_discards_undefined [OF llq3_ex_inv]) simp






text \<open>
  The dequeue window. Inside the window there is no delay. Outside a window that runs
  over midnight, or after the end of one that does not, the delay ends exactly at the start
  hour (of today or of tomorrow); before the start of a window that does not run over
  midnight it ends one minute late, because the running minute is subtracted only once as
  seconds and the code adds a full minute for it.
\<close>

theorem rate_limiter_delay:
  assumes "iDeqtWinToHr q \<noteq> 25"
  shows "hr * 3600 + mi * 60 + sec + RateLimiter q hr mi sec =
    (if iDeqtWinToHr q < iDeqtWinFromHr q
     then (if hr < iDeqtWinToHr q \<or> hr > iDeqtWinFromHr q then hr * 3600 + mi * 60 + sec
           else iDeqtWinFromHr q * 3600)
     else if hr < iDeqtWinFromHr q then iDeqtWinFromHr q * 3600 + 60
     else if hr < iDeqtWinToHr q then hr * 3600 + mi * 60 + sec
     else (24 + iDeqtWinFromHr q) * 3600)"
  using assms by (simp add: RateLimiter_def algebra_simps)

theorem rate_limiter_delay_witness:
  "3 * 3600 + 30 * 60 + 10 + RateLimiter (llq_ex\<lparr>iDeqtWinFromHr := 4, iDeqtWinToHr := 10\<rparr>) 3 30 10 = 4 * 3600 + 60"
  using rate_limiter_delay [of "llq_ex\<lparr>iDeqtWinFromHr := 4, iDeqtWinToHr := 10\<rparr>" 3 30 10] by simp

end
