(* ===== verification/Action.thy ===== *)
theory Action
  imports QueueBatch
begin

text \<open>
  The action engine (action.c, runtime/wti.h): the state machine that wraps an output module
  with transactions, retries, suspension and the limits on how often an action runs. The
  state is one action together with its entry in the worker's \<open>actWrkrInfo\<close> table.

  Everything outside the engine - the output module's entry points, the clock, sleeping, the
  shutdown flag, the error file, template rendering, the action's own queue - is the record
  \<open>actenv\<close> of functions on an external state \<open>'m\<close>; each call of the code is one call there, so
  what the engine asks for, and in which order, is visible in that state. A function that may
  loop is a partial function into \<open>option\<close>: \<open>None\<close> means it does not return.
\<close>

section \<open>State\<close>

datatype act_state =
    ACT_STATE_RDY | ACT_STATE_ITX | ACT_STATE_RTRY | ACT_STATE_SUSP | ACT_STATE_DATAFAIL

record action =
  f_time :: int
  tActNow :: int
  tLastExec :: int
  bExecWhenPrevSusp :: bool
  bWriteAllMarkMsgs :: bool
  bReportSuspension :: int
  bReportSuspensionCont :: int
  bDisabled :: bool
  isTransactional :: bool
  bCopyMsg :: bool
  iSecsExecOnceInterval :: int
  ttResumeRtry :: int
  iResumeInterval :: int
  iResumeRetryCount :: int
  iNbrNoExec :: int
  iExecEveryNthOccur :: int
  iExecEveryNthOccurTO :: int
  tLastOccur :: int
  iNumTpls :: nat
  bQueueDirect :: bool    \<comment> \<open>\<open>pQueue->qType == QUEUETYPE_DIRECT\<close>\<close>
  wrkrDataTable :: "ptr option list"
  nWrkr :: int
  ctrProcessed :: nat
  ctrFail :: nat
  ctrSuspend :: nat
  ctrSuspendDuration :: int

record 'p actWrkrInfo =
  actWrkrData :: "ptr option"
  uResumeOKinRow :: "16 word"
  iNbrResRtry :: int
  bHadAutoCommit :: bool
  actState :: act_state
  iparams :: "'p option list"    \<comment> \<open>\<open>p.tx\<close>: the array; \<open>None\<close> is a cleared or unwritten cell\<close>
  currIParam :: nat
  maxIParams :: nat
  actParams :: "'p option list"  \<comment> \<open>\<open>p.nontx\<close>\<close>

record ('p, 'm) actst =
  act :: action
  wi :: "'p actWrkrInfo"
  bPrevWasSuspended :: bool
  bDoAutoCommit :: bool
  ext :: 'm

record ('p, 'm) actenv =
  tryResume :: "'m \<Rightarrow> rsRetVal \<times> 'm"
  createWrkrInstance :: "'m \<Rightarrow> rsRetVal \<times> ptr \<times> 'm"
  beginTransaction :: "'m \<Rightarrow> rsRetVal \<times> 'm"
  doAction :: "'p option list \<Rightarrow> 'm \<Rightarrow> rsRetVal \<times> 'm"
  commitTransaction :: "('p option list \<Rightarrow> nat \<Rightarrow> 'm \<Rightarrow> rsRetVal \<times> 'm) option"
  endTransaction :: "'m \<Rightarrow> rsRetVal \<times> 'm"
  GetTime :: "'m \<Rightarrow> int \<times> 'm"
  srSleep :: "int \<Rightarrow> 'm \<Rightarrow> 'm"
  ShutdownImmediate :: "'m \<Rightarrow> bool \<times> 'm"
  mallocOK :: "'m \<Rightarrow> bool \<times> 'm"
  WriteErrorFile :: "rsRetVal \<Rightarrow> 'p option list list \<Rightarrow> 'm \<Rightarrow> 'm"
  render :: "nat \<Rightarrow> msgptr \<Rightarrow> 'm \<Rightarrow> rsRetVal \<times> 'p \<times> 'm"
  enqueueAction :: "bool \<Rightarrow> msgptr \<Rightarrow> 'm \<Rightarrow> rsRetVal \<times> 'm"
  confReportSuspension :: int
  confReportSuspensionCont :: int
  MarkInterval :: int
  gatherStats :: bool
  callFirst :: bool    \<comment> \<open>whether the compiler runs a call before it reads the other operand\<close>

section \<open>State changes\<close>

definition actionDisable :: "('p, 'm) actst \<Rightarrow> ('p, 'm) actst" where
  "actionDisable s = s\<lparr>act := (act s)\<lparr>bDisabled := True\<rparr>\<rparr>"

definition actionSetState :: "act_state \<Rightarrow> ('p, 'm) actst \<Rightarrow> ('p, 'm) actst" where
  "actionSetState st s = s\<lparr>wi := (wi s)\<lparr>actState := st\<rparr>\<rparr>"

definition getActionState :: "('p, 'm) actst \<Rightarrow> act_state" where
  "getActionState s = actState (wi s)"

definition setActionResumeInRow :: "16 word \<Rightarrow> ('p, 'm) actst \<Rightarrow> ('p, 'm) actst" where
  "setActionResumeInRow n s = s\<lparr>wi := (wi s)\<lparr>uResumeOKinRow := n\<rparr>\<rparr>"

definition setActionNbrResRtry :: "int \<Rightarrow> ('p, 'm) actst \<Rightarrow> ('p, 'm) actst" where
  "setActionNbrResRtry n s = s\<lparr>wi := (wi s)\<lparr>iNbrResRtry := n\<rparr>\<rparr>"

definition setHadAutoCommit :: "bool \<Rightarrow> ('p, 'm) actst \<Rightarrow> ('p, 'm) actst" where
  "setHadAutoCommit b s = s\<lparr>wi := (wi s)\<lparr>bHadAutoCommit := b\<rparr>\<rparr>"

definition actionCommitted :: "('p, 'm) actst \<Rightarrow> ('p, 'm) actst" where
  "actionCommitted s = actionSetState ACT_STATE_RDY s"

text \<open>The return code for the state; an auto-commit flag is reported once and reset.\<close>

definition getReturnCode :: "('p, 'm) actst \<Rightarrow> rsRetVal \<times> ('p, 'm) actst" where
  "getReturnCode s =
     (case getActionState s of
        ACT_STATE_RDY \<Rightarrow> (RS_RET_OK, s)
      | ACT_STATE_ITX \<Rightarrow>
          if bHadAutoCommit (wi s) then (RS_RET_PREVIOUS_COMMITTED, setHadAutoCommit False s)
          else (RS_RET_DEFER_COMMIT, s)
      | ACT_STATE_RTRY \<Rightarrow> (RS_RET_SUSPENDED, s)
      | ACT_STATE_SUSP \<Rightarrow> (RS_RET_ACTION_FAILED, s)
      | ACT_STATE_DATAFAIL \<Rightarrow> (RS_RET_DATAFAIL, s))"

definition setSuspendMessageConfVars :: "('p, 'm) actenv \<Rightarrow> action \<Rightarrow> action" where
  "setSuspendMessageConfVars E a =
     (let a1 = (if bReportSuspension a = -1 then a\<lparr>bReportSuspension := confReportSuspension E\<rparr> else a)
      in if bReportSuspensionCont a1 = -1
         then a1\<lparr>bReportSuspensionCont :=
                (if confReportSuspensionCont E = -1 then 1 else confReportSuspensionCont E)\<rparr>
         else a1)"

definition actionRetry :: "('p, 'm) actenv \<Rightarrow> ('p, 'm) actst \<Rightarrow> ('p, 'm) actst" where
  "actionRetry E s =
     (let s1 = actionSetState ACT_STATE_RTRY (s\<lparr>act := setSuspendMessageConfVars E (act s)\<rparr>)
      in setActionResumeInRow (uResumeOKinRow (wi s1) + 1) s1)"

text \<open>
  \<open>actionSuspend\<close> asks for the time and sets the earliest retry; every ten suspensions in a
  row make the interval longer.
\<close>

definition actionSuspend :: "('p, 'm) actenv \<Rightarrow> ('p, 'm) actst \<Rightarrow> ('p, 'm) actst" where
  "actionSuspend E s =
     (let a = setSuspendMessageConfVars E (act s);
          (ttNow, m1) = GetTime E (ext s);
          n = iNbrResRtry (wi s);
          dur = iResumeInterval a * (n div 10 + 1);
          a1 = a\<lparr>ttResumeRtry := ttNow + dur, ctrSuspendDuration := ctrSuspendDuration a + dur\<rparr>;
          a2 = (if n = 0 \<and> gatherStats E then a1\<lparr>ctrSuspend := ctrSuspend a1 + 1\<rparr> else a1)
      in actionSetState ACT_STATE_SUSP (s\<lparr>act := a2, ext := m1\<rparr>))"

section \<open>Retrying\<close>

text \<open>
  The loop of \<open>actionDoRetry\<close>. \<open>r\<close> is the current \<open>iRet\<close>. After more than nine resumptions
  in a row that reported success without an action succeeding, every tenth is treated as a
  failure.
\<close>

definition retrySuspended :: "('p, 'm) actenv \<Rightarrow> int \<Rightarrow> ('p, 'm) actst \<Rightarrow>
    (rsRetVal \<times> ('p, 'm) actst) + (int \<times> rsRetVal \<times> ('p, 'm) actst)" where
  "retrySuspended E iRetries s =
     (if iResumeRetryCount (act s) \<noteq> -1 \<and> iRetries \<ge> iResumeRetryCount (act s)
      then (let s2 = actionSuspend E s
            in Inr (iRetries, RS_RET_SUSPENDED,
                 if iNbrResRtry (wi s2) < 20 then setActionNbrResRtry (iNbrResRtry (wi s2) + 1) s2
                 else s2))
      else (let s2 = s\<lparr>ext := srSleep E (iResumeInterval (act s)) (ext s)\<rparr>;
                (stop, m3) = ShutdownImmediate E (ext s2)
            in if stop then Inl (RS_RET_FORCE_TERM, s2\<lparr>ext := m3\<rparr>)
               else Inr (iRetries + 1, RS_RET_SUSPENDED, s2\<lparr>ext := m3\<rparr>)))"

definition retryStep :: "('p, 'm) actenv \<Rightarrow> int \<Rightarrow> ('p, 'm) actst \<Rightarrow>
    (rsRetVal \<times> ('p, 'm) actst) + (int \<times> rsRetVal \<times> ('p, 'm) actst)" where
  "retryStep E iRetries s =
     (case tryResume E (ext s) of
        (ret, m1) \<Rightarrow>
          let s1 = s\<lparr>ext := m1\<rparr>;
              row = uResumeOKinRow (wi s)
          in if 9 < row \<and> row mod 10 = 0
             then retrySuspended E iRetries (setActionResumeInRow 0 s1)
             else (case ret of
                     RS_RET_OK \<Rightarrow> Inr (iRetries, ret, actionSetState ACT_STATE_RDY s1)
                   | RS_RET_SUSPENDED \<Rightarrow> retrySuspended E iRetries s1
                   | RS_RET_DISABLE_ACTION \<Rightarrow> Inr (iRetries, ret, actionDisable s1)
                   | _ \<Rightarrow> Inr (iRetries, ret, s1)))"

partial_function (option) retryLoop :: "('p, 'm) actenv \<Rightarrow> int \<Rightarrow> rsRetVal \<Rightarrow> ('p, 'm) actst \<Rightarrow>
    (rsRetVal \<times> bool \<times> ('p, 'm) actst) option" where
  "retryLoop E iRetries r s =
     (case ShutdownImmediate E (ext s) of
        (stop, m1) \<Rightarrow>
          if \<not> stop \<and> getActionState s = ACT_STATE_RTRY
          then (case retryStep E iRetries (s\<lparr>ext := m1\<rparr>) of
                  Inl (r1, s1) \<Rightarrow> Some (r1, True, s1)
                | Inr (n1, r1, s1) \<Rightarrow> retryLoop E n1 r1 s1)
          else Some (r, False, s\<lparr>ext := m1\<rparr>))"

definition actionDoRetry :: "('p, 'm) actenv \<Rightarrow> ('p, 'm) actst \<Rightarrow> (rsRetVal \<times> ('p, 'm) actst) option" where
  "actionDoRetry E s =
     do {
       (r, aborted, s1) \<leftarrow> retryLoop E 0 RS_RET_OK s;
       Some (r, if \<not> aborted \<and> getActionState s1 = ACT_STATE_RDY
                then setActionNbrResRtry 0 s1 else s1)
     }"

section \<open>Worker instances\<close>

fun freeSpot :: "ptr option list \<Rightarrow> nat" where
  "freeSpot [] = 0"
| "freeSpot (x # xs) = (if x = None then 0 else Suc (freeSpot xs))"

definition actionCheckAndCreateWrkrInstance :: "('p, 'm) actenv \<Rightarrow> ('p, 'm) actst \<Rightarrow>
    (rsRetVal \<times> ('p, 'm) actst) option" where
  "actionCheckAndCreateWrkrInstance E s =
     (if actWrkrData (wi s) \<noteq> None then Some (RS_RET_OK, s)
      else (case createWrkrInstance E (ext s) of
              (r, p, m1) \<Rightarrow>
                if r \<noteq> RS_RET_OK then Some (r, s\<lparr>ext := m1\<rparr>)
                else
                  let s1 = actionSetState ACT_STATE_RDY (s\<lparr>wi := (wi s)\<lparr>actWrkrData := Some p\<rparr>, ext := m1\<rparr>);
                      a = act s1;
                      free = freeSpot (wrkrDataTable a);
                      full = (nWrkr a = int (length (wrkrDataTable a)));
                      (allocOK, m2) = (if full then mallocOK E m1 else (True, m1));
                      s2 = s1\<lparr>ext := m2\<rparr>
                  in if full \<and> \<not> allocOK then Some (RS_RET_OUT_OF_MEMORY, s2)
                     else do {
                       let tbl = (if full then wrkrDataTable a @ [None] else wrkrDataTable a);
                       tbl1 \<leftarrow> c_set tbl free (Some p);
                       Some (RS_RET_OK, s2\<lparr>act := a\<lparr>wrkrDataTable := tbl1, nWrkr := nWrkr a + 1\<rparr>\<rparr>)
                     }))"

definition actionRemoveWorker :: "action \<Rightarrow> ptr \<Rightarrow> action" where
  "actionRemoveWorker a p =
     a\<lparr>nWrkr := nWrkr a - 1,
       wrkrDataTable :=
         (case List.extract (\<lambda>x. x = Some p) (wrkrDataTable a) of
            None \<Rightarrow> wrkrDataTable a
          | Some (xs, _, ys) \<Rightarrow> xs @ None # ys)\<rparr>"

section \<open>Preparing\<close>

definition actionTryResume :: "('p, 'm) actenv \<Rightarrow> ('p, 'm) actst \<Rightarrow> (rsRetVal \<times> ('p, 'm) actst) option" where
  "actionTryResume E s =
     (let s1 = (if getActionState s = ACT_STATE_SUSP
                then (case GetTime E (ext s) of
                        (ttNow, m1) \<Rightarrow>
                          (let s0 = s\<lparr>ext := m1\<rparr>
                           in if ttNow \<ge> ttResumeRtry (act s) then actionSetState ACT_STATE_RTRY s0 else s0))
                else s)
      in if getActionState s1 = ACT_STATE_RTRY then actionDoRetry E s1 else Some (RS_RET_OK, s1))"

definition actionPrepare :: "('p, 'm) actenv \<Rightarrow> ('p, 'm) actst \<Rightarrow> (rsRetVal \<times> ('p, 'm) actst) option" where
  "actionPrepare E s =
     do {
       (r1, s1) \<leftarrow> actionCheckAndCreateWrkrInstance E s;
       if r1 \<noteq> RS_RET_OK then Some (r1, s1)
       else do {
         (r2, s2) \<leftarrow> actionTryResume E s1;
         if r2 \<noteq> RS_RET_OK then Some (r2, s2)
         else if getActionState s2 = ACT_STATE_RDY
         then (case beginTransaction E (ext s2) of
                 (r3, m3) \<Rightarrow>
                   let s3 = s2\<lparr>ext := m3\<rparr>
                   in Some (r3,
                        case r3 of
                          RS_RET_OK \<Rightarrow> actionSetState ACT_STATE_ITX s3
                        | RS_RET_SUSPENDED \<Rightarrow> actionRetry E s3
                        | RS_RET_DISABLE_ACTION \<Rightarrow> actionDisable s3
                        | _ \<Rightarrow> s3))
         else Some (RS_RET_OK, s2)
       }
     }"

section \<open>Parameters\<close>

definition CONF_IPARAMS_BUFSIZE :: nat where "CONF_IPARAMS_BUFSIZE = 16"

text \<open>\<open>actParam\<close>: the slice of the array that starts at parameter set \<open>i\<close>, \<open>k\<close> cells of it.\<close>

definition actParams_at :: "'p option list \<Rightarrow> nat \<Rightarrow> nat \<Rightarrow> nat \<Rightarrow> 'p option list option" where
  "actParams_at ps nTpls i k =
     (if i * nTpls + k \<le> length ps then Some (take k (drop (i * nTpls) ps)) else None)"

text \<open>\<open>memcpy\<close> of \<open>xs\<close> into \<open>ps\<close> at cell \<open>off\<close>.\<close>

definition memcpy_at :: "'a list \<Rightarrow> nat \<Rightarrow> 'a list \<Rightarrow> 'a list option" where
  "memcpy_at ps off xs =
     (if off + length xs \<le> length ps then Some (take off ps @ xs @ drop (off + length xs) ps) else None)"

definition wtiNewIParam :: "('p, 'm) actenv \<Rightarrow> ('p, 'm) actst \<Rightarrow> rsRetVal \<times> nat \<times> ('p, 'm) actst" where
  "wtiNewIParam E s =
     (let w = wi s; n = iNumTpls (act s)
      in if currIParam w = maxIParams w
         then (let newMax = (if maxIParams w = 0 then CONF_IPARAMS_BUFSIZE else 2 * maxIParams w);
                   (ok, m1) = mallocOK E (ext s)
               in if \<not> ok then (RS_RET_OUT_OF_MEMORY, 0, s\<lparr>ext := m1\<rparr>)
                  else (RS_RET_OK, currIParam w * n,
                    s\<lparr>wi := w\<lparr>iparams := take (currIParam w * n) (iparams w) @
                                  replicate (n * (newMax - maxIParams w)) None,
                             maxIParams := newMax, currIParam := currIParam w + 1\<rparr>,
                      ext := m1\<rparr>))
         else (RS_RET_OK, currIParam w * n, s\<lparr>wi := w\<lparr>currIParam := currIParam w + 1\<rparr>\<rparr>))"

fun renderTx :: "('p, 'm) actenv \<Rightarrow> msgptr \<Rightarrow> nat \<Rightarrow> nat list \<Rightarrow> ('p, 'm) actst \<Rightarrow>
    (rsRetVal \<times> ('p, 'm) actst) option" where
  "renderTx E pMsg base [] s = Some (RS_RET_OK, s)"
| "renderTx E pMsg base (i # is) s =
     (case render E i pMsg (ext s) of
        (r, v, m1) \<Rightarrow>
          if r \<noteq> RS_RET_OK then Some (r, s\<lparr>ext := m1\<rparr>)
          else do {
            ps \<leftarrow> c_set (iparams (wi s)) (base + i) (Some v);
            renderTx E pMsg base is (s\<lparr>wi := (wi s)\<lparr>iparams := ps\<rparr>, ext := m1\<rparr>)
          })"

fun renderNonTx :: "('p, 'm) actenv \<Rightarrow> msgptr \<Rightarrow> nat list \<Rightarrow> ('p, 'm) actst \<Rightarrow>
    (rsRetVal \<times> ('p, 'm) actst) option" where
  "renderNonTx E pMsg [] s = Some (RS_RET_OK, s)"
| "renderNonTx E pMsg (i # is) s =
     (case render E i pMsg (ext s) of
        (r, v, m1) \<Rightarrow>
          if r \<noteq> RS_RET_OK then Some (r, s\<lparr>ext := m1\<rparr>)
          else do {
            ps \<leftarrow> c_set (actParams (wi s)) i (Some v);
            renderNonTx E pMsg is (s\<lparr>wi := (wi s)\<lparr>actParams := ps\<rparr>, ext := m1\<rparr>)
          })"

definition prepareDoActionParams :: "('p, 'm) actenv \<Rightarrow> msgptr \<Rightarrow> ('p, 'm) actst \<Rightarrow>
    (rsRetVal \<times> ('p, 'm) actst) option" where
  "prepareDoActionParams E pMsg s =
     (if isTransactional (act s)
      then (case wtiNewIParam E s of
              (r, base, s1) \<Rightarrow>
                if r \<noteq> RS_RET_OK then Some (r, s1)
                else renderTx E pMsg base [0..<iNumTpls (act s)] s1)
      else renderNonTx E pMsg [0..<iNumTpls (act s)] s)"

section \<open>Executing\<close>

definition actionSetActionWorked :: "('p, 'm) actst \<Rightarrow> ('p, 'm) actst" where
  "actionSetActionWorked s = setActionResumeInRow 0 s"

definition handleActionExecResult :: "('p, 'm) actenv \<Rightarrow> ('p, 'm) actst \<Rightarrow> rsRetVal \<Rightarrow>
    rsRetVal \<times> ('p, 'm) actst" where
  "handleActionExecResult E s ret =
     getReturnCode
       (case ret of
          RS_RET_OK \<Rightarrow> actionSetActionWorked (actionCommitted s)
        | RS_RET_DEFER_COMMIT \<Rightarrow> actionSetActionWorked s
        | RS_RET_PREVIOUS_COMMITTED \<Rightarrow> actionSetActionWorked (setHadAutoCommit True s)
        | RS_RET_DISABLE_ACTION \<Rightarrow> actionDisable s
        | RS_RET_SUSPENDED \<Rightarrow> actionRetry E s
        | _ \<Rightarrow> actionSetState ACT_STATE_DATAFAIL s)"

text \<open>\<open>ps\<close> are the \<open>iNumTpls\<close> parameters the base pointer leads to.\<close>

definition actionCallDoAction :: "('p, 'm) actenv \<Rightarrow> 'p option list \<Rightarrow> ('p, 'm) actst \<Rightarrow>
    rsRetVal \<times> ('p, 'm) actst" where
  "actionCallDoAction E ps s =
     (case doAction E ps (ext s) of
        (ret, m1) \<Rightarrow> handleActionExecResult E (setHadAutoCommit False s\<lparr>ext := m1\<rparr>) ret)"

definition actionProcessMessage :: "('p, 'm) actenv \<Rightarrow> 'p option list \<Rightarrow> ('p, 'm) actst \<Rightarrow>
    (rsRetVal \<times> ('p, 'm) actst) option" where
  "actionProcessMessage E ps s =
     do {
       (r, s1) \<leftarrow> actionPrepare E s;
       if r \<noteq> RS_RET_OK then Some (r, s1)
       else if getActionState s1 = ACT_STATE_ITX
       then (case actionCallDoAction E ps s1 of
               (r2, s2) \<Rightarrow> if r2 \<noteq> RS_RET_OK then Some (r2, s2) else Some (getReturnCode s2))
       else Some (getReturnCode s1)
     }"

definition actionCallCommitTransaction ::
    "('p, 'm) actenv \<Rightarrow> ('p option list \<Rightarrow> nat \<Rightarrow> 'm \<Rightarrow> rsRetVal \<times> 'm) \<Rightarrow> 'p option list \<Rightarrow> nat \<Rightarrow>
     ('p, 'm) actst \<Rightarrow> rsRetVal \<times> ('p, 'm) actst" where
  "actionCallCommitTransaction E commit ps n s =
     (case commit ps n (ext s) of (ret, m1) \<Rightarrow> handleActionExecResult E (s\<lparr>ext := m1\<rparr>) ret)"

text \<open>
  The compatibility loop for modules without \<open>commitTransaction\<close>: a suspended message is
  submitted again after a second, any other failure ends the loop.
\<close>

partial_function (option) oldTxLoop :: "('p, 'm) actenv \<Rightarrow> 'p option list \<Rightarrow> nat \<Rightarrow> nat \<Rightarrow>
    rsRetVal \<Rightarrow> ('p, 'm) actst \<Rightarrow> (rsRetVal \<times> ('p, 'm) actst) option" where
  "oldTxLoop E ps n i r s =
     (if i < n
      then Option.bind (actParams_at ps (iNumTpls (act s)) i (iNumTpls (act s))) (\<lambda>one.
           Option.bind (actionProcessMessage E one s) (\<lambda>(r1, s1).
             if r1 = RS_RET_SUSPENDED
             then oldTxLoop E ps n i r1 (s1\<lparr>ext := srSleep E 1 (ext s1)\<rparr>)
             else if r1 \<noteq> RS_RET_DEFER_COMMIT \<and> r1 \<noteq> RS_RET_PREVIOUS_COMMITTED \<and> r1 \<noteq> RS_RET_OK
             then Some (r1, s1)
             else oldTxLoop E ps n (Suc i) r1 s1))
      else Some (r, s))"

definition doTransaction :: "('p, 'm) actenv \<Rightarrow> 'p option list \<Rightarrow> nat \<Rightarrow> ('p, 'm) actst \<Rightarrow>
    (rsRetVal \<times> ('p, 'm) actst) option" where
  "doTransaction E ps n s =
     do {
       (r, s1) \<leftarrow> (case commitTransaction E of
                     Some commit \<Rightarrow> Some (actionCallCommitTransaction E commit ps n s)
                   | None \<Rightarrow> oldTxLoop E ps n 0 RS_RET_OK s);
       Some (if r = RS_RET_DEFER_COMMIT \<or> r = RS_RET_PREVIOUS_COMMITTED then RS_RET_OK else r, s1)
     }"

definition actionTryCommit :: "('p, 'm) actenv \<Rightarrow> 'p option list \<Rightarrow> nat \<Rightarrow> ('p, 'm) actst \<Rightarrow>
    (rsRetVal \<times> ('p, 'm) actst) option" where
  "actionTryCommit E ps n s =
     do {
       (r1, s1) \<leftarrow> actionPrepare E s;
       if r1 \<noteq> RS_RET_OK then Some (r1, s1)
       else do {
         (r2, s2) \<leftarrow> doTransaction E ps n s1;
         if r2 \<noteq> RS_RET_OK then Some (r2, s2)
         else if getActionState s2 = ACT_STATE_ITX
         then (case endTransaction E (ext s2) of
                 (r3, m3) \<Rightarrow>
                   let s3 = s2\<lparr>ext := m3\<rparr>
                   in (case r3 of
                         RS_RET_OK \<Rightarrow> Some (getReturnCode (actionCommitted s3))
                       | RS_RET_SUSPENDED \<Rightarrow> Some (getReturnCode (actionRetry E s3))
                       | RS_RET_DISABLE_ACTION \<Rightarrow> Some (getReturnCode (actionDisable s3))
                       | RS_RET_DEFER_COMMIT \<Rightarrow> Some (getReturnCode (actionCommitted s3))
                       | RS_RET_PREVIOUS_COMMITTED \<Rightarrow> Some (getReturnCode (actionCommitted s3))
                       | _ \<Rightarrow> Some (r3, s3)))
         else Some (getReturnCode s2)
       }
     }"

text \<open>The error file gets \<open>n\<close> entries; entry \<open>i\<close> is read with a stride of 1, not \<open>iNumTpls\<close>.\<close>

definition actionWriteErrorFile :: "('p, 'm) actenv \<Rightarrow> rsRetVal \<Rightarrow> 'p option list \<Rightarrow> nat \<Rightarrow>
    ('p, 'm) actst \<Rightarrow> ('p, 'm) actst option" where
  "actionWriteErrorFile E ret ps n s =
     do {
       rows \<leftarrow> those (map (\<lambda>i. actParams_at ps 1 i (iNumTpls (act s))) [0..<n]);
       Some (s\<lparr>ext := WriteErrorFile E ret rows (ext s)\<rparr>)
     }"

text \<open>
  Committing the messages one by one. The ones that fail with a temporary error are collected
  in \<open>new_iparams\<close>, written at cell \<open>new_nMsgs\<close>.
\<close>

fun removeHardErrors :: "('p, 'm) actenv \<Rightarrow> nat list \<Rightarrow> 'p option list \<Rightarrow> nat \<Rightarrow> ('p, 'm) actst \<Rightarrow>
    ('p option list \<times> nat \<times> ('p, 'm) actst) option" where
  "removeHardErrors E [] new k s = Some (new, k, s)"
| "removeHardErrors E (i # is) new k s =
     do {
       let s0 = setActionResumeInRow 0 s;
       let n = iNumTpls (act s0);
       one \<leftarrow> actParams_at (iparams (wi s0)) n i n;
       (ret, s1) \<leftarrow> actionTryCommit E one 1 s0;
       if ret = RS_RET_SUSPENDED
       then do { new1 \<leftarrow> memcpy_at new k one; removeHardErrors E is new1 (k + 1) s1 }
       else if ret \<noteq> RS_RET_OK
       then do { s2 \<leftarrow> actionWriteErrorFile E ret one 1 s1; removeHardErrors E is new k s2 }
       else removeHardErrors E is new k s1
     }"

definition actionTryRemoveHardErrorsFromBatch :: "('p, 'm) actenv \<Rightarrow> 'p option list \<Rightarrow> ('p, 'm) actst \<Rightarrow>
    ('p option list \<times> nat \<times> ('p, 'm) actst) option" where
  "actionTryRemoveHardErrorsFromBatch E new s = removeHardErrors E [0..<currIParam (wi s)] new 0 s"

partial_function (option) commitLoop :: "('p, 'm) actenv \<Rightarrow> 'p option list \<Rightarrow> nat \<Rightarrow> ('p, 'm) actst \<Rightarrow>
    (rsRetVal \<times> ('p, 'm) actst) option" where
  "commitLoop E ps n s =
     Option.bind (actionTryCommit E ps n s) (\<lambda>(r, s1).
       if r = RS_RET_FORCE_TERM then Some (RS_RET_FORCE_TERM, s1)
       else if r = RS_RET_SUSPENDED
       then Option.bind (actionDoRetry E s1) (\<lambda>(r2, s2).
              if r2 = RS_RET_FORCE_TERM then Some (RS_RET_FORCE_TERM, s2)
              else if r2 \<noteq> RS_RET_OK
              then Option.bind (actionWriteErrorFile E r2 ps n s2) (\<lambda>s3. Some (r2, s3))
              else commitLoop E ps n s2)
       else if r = RS_RET_OK \<or> r = RS_RET_ACTION_FAILED \<or>
          getActionState s1 = ACT_STATE_RDY \<or> getActionState s1 = ACT_STATE_SUSP
       then Some (r, s1)
       else commitLoop E ps n s1)"

definition resetParams :: "('p, 'm) actst \<Rightarrow> ('p, 'm) actst" where
  "resetParams s = s\<lparr>wi := (wi s)\<lparr>currIParam := 0\<rparr>\<rparr>"

definition actionCommit :: "('p, 'm) actenv \<Rightarrow> ('p, 'm) actst \<Rightarrow> (rsRetVal \<times> ('p, 'm) actst) option" where
  "actionCommit E s =
     (let n0 = currIParam (wi s)
      in if \<not> isTransactional (act s) \<or> n0 = 0 \<or> getActionState s = ACT_STATE_SUSP
         then Some (RS_RET_OK, resetParams s)
         else do {
           let tpls = iNumTpls (act s);
           ps \<leftarrow> actParams_at (iparams (wi s)) tpls 0 (n0 * tpls);
           (r1, s1) \<leftarrow> actionTryCommit E ps n0 s;
           if r1 = RS_RET_OK then Some (RS_RET_OK, resetParams s1)
           else if n0 = 1
           then (if r1 = RS_RET_DATAFAIL then Some (r1, resetParams s1)
                 else do { (r, s2) \<leftarrow> commitLoop E ps 1 s1; Some (r, resetParams s2) })
           else (case mallocOK E (ext s1) of
                   (ok, m1) \<Rightarrow>
                     let s2 = s1\<lparr>ext := m1\<rparr>
                     in if \<not> ok then Some (RS_RET_OUT_OF_MEMORY, resetParams s2)
                        else do {
                          (new, nMsgs, s3) \<leftarrow> actionTryRemoveHardErrorsFromBatch E (replicate (tpls * n0) None) s2;
                          if nMsgs = 0 then Some (RS_RET_OK, resetParams s3)
                          else do { (r, s4) \<leftarrow> commitLoop E new nMsgs s3; Some (r, resetParams s4) }
                        })
         })"

section \<open>Messages and batches\<close>

text \<open>
  One message, from the action's own queue or directly. Releasing the parameters of the JSON
  passing mode is left out: it frees what \<open>render\<close> returned.
\<close>

definition processMsgMain :: "('p, 'm) actenv \<Rightarrow> msgptr \<Rightarrow> ('p, 'm) actst \<Rightarrow>
    (rsRetVal \<times> ('p, 'm) actst) option" where
  "processMsgMain E pMsg s =
     do {
       (r0, s0) \<leftarrow> prepareDoActionParams E pMsg s;
       (r1, s1) \<leftarrow>
         (if r0 \<noteq> RS_RET_OK then Some (r0, s0)
          else if isTransactional (act s0)
          then do { (_, s1) \<leftarrow> actionPrepare E s0; Some (getReturnCode s1) }
          else do {
            ps \<leftarrow> actParams_at (actParams (wi s0)) (iNumTpls (act s0)) 0 (iNumTpls (act s0));
            actionProcessMessage E ps s0
          });
       if r1 = RS_RET_OK \<and> bDoAutoCommit s1 then actionCommit E s1 else Some (r1, s1)
     }"

definition wtiResetExecState :: "batch \<Rightarrow> ('p, 'm) actst \<Rightarrow> ('p, 'm) actst" where
  "wtiResetExecState b s = s\<lparr>bPrevWasSuspended := False, bDoAutoCommit := (nElem b = 1)\<rparr>"

fun batchLoop :: "('p, 'm) actenv \<Rightarrow> nat list \<Rightarrow> batch \<Rightarrow> ('p, 'm) actst \<Rightarrow>
    (batch \<times> ('p, 'm) actst) option" where
  "batchLoop E [] b s = Some (b, s)"
| "batchLoop E (i # is) b s =
     (case ShutdownImmediate E (ext s) of
        (stop, m1) \<Rightarrow>
          let s1 = s\<lparr>ext := m1\<rparr>
          in if stop then Some (b, s1)
             else do {
               st \<leftarrow> c_get (eltState b) i;
               if st = BATCH_STATE_DISC then batchLoop E is b s1
               else do {
                 cell \<leftarrow> c_get (pElem b) i;
                 pMsg \<leftarrow> cell;
                 (r, s2) \<leftarrow> processMsgMain E pMsg s1;
                 b1 \<leftarrow> (if r = RS_RET_OK \<or> r = RS_RET_DEFER_COMMIT \<or> r = RS_RET_ACTION_FAILED \<or>
                          r = RS_RET_PREVIOUS_COMMITTED
                       then batchSetElemState b i BATCH_STATE_COMM else Some b);
                 batchLoop E is b1 s2
               }
             })"

definition processBatchMain :: "('p, 'm) actenv \<Rightarrow> batch \<Rightarrow> ('p, 'm) actst \<Rightarrow>
    (rsRetVal \<times> batch \<times> ('p, 'm) actst) option" where
  "processBatchMain E b s =
     do {
       (b1, s1) \<leftarrow> batchLoop E [0..<nElem b] b (wtiResetExecState b s);
       (r, s2) \<leftarrow> actionCommit E s1;
       Some (r, b1, s2)
     }"

section \<open>Submitting to the action\<close>

definition getActNow :: "('p, 'm) actenv \<Rightarrow> ('p, 'm) actst \<Rightarrow> int \<times> ('p, 'm) actst" where
  "getActNow E s =
     (if tActNow (act s) = -1
      then (case GetTime E (ext s) of
              (now, m1) \<Rightarrow>
                let a = (act s)\<lparr>tActNow := now\<rparr>;
                    a1 = (if tLastExec a > now then a\<lparr>tLastExec := 0\<rparr> else a)
                in (now, s\<lparr>act := a1, ext := m1\<rparr>))
      else (tActNow (act s), s))"

definition doSubmitToActionQ :: "('p, 'm) actenv \<Rightarrow> msgptr \<Rightarrow> ('p, 'm) actst \<Rightarrow>
    (rsRetVal \<times> ('p, 'm) actst) option" where
  "doSubmitToActionQ E pMsg s =
     (if bExecWhenPrevSusp (act s) \<and> \<not> bPrevWasSuspended s then Some (RS_RET_OK, s)
      else do {
        let a = act s;
        let s1 = (if gatherStats E then s\<lparr>act := a\<lparr>ctrProcessed := ctrProcessed a + 1\<rparr>\<rparr> else s);
        (r, s2) \<leftarrow>
          (if bQueueDirect a then processMsgMain E pMsg s1
           else (case enqueueAction E (bCopyMsg a) pMsg (ext s1) of (r, m1) \<Rightarrow> Some (r, s1\<lparr>ext := m1\<rparr>)));
        let s3 = s2\<lparr>bPrevWasSuspended := (r = RS_RET_SUSPENDED \<or> r = RS_RET_ACTION_FAILED)\<rparr>;
        Some (r, if r = RS_RET_ACTION_FAILED \<and> gatherStats E
                 then s3\<lparr>act := (act s3)\<lparr>ctrFail := ctrFail (act s3) + 1\<rparr>\<rparr> else s3)
      })"

text \<open>
  \<open>actionWriteToAction\<close> drops executions: by the every-n-th rule (\<open>everyNth\<close>, \<open>False\<close> is a
  drop) and by the once-per-interval rule.
\<close>

definition everyNth :: "('p, 'm) actenv \<Rightarrow> ('p, 'm) actst \<Rightarrow> bool \<times> ('p, 'm) actst" where
  "everyNth E s =
     (if iExecEveryNthOccur (act s) > 1
      then
        (let s1 = (if iExecEveryNthOccurTO (act s) > 0
                   then (case getActNow E s of
                           (now, s0) \<Rightarrow>
                             if now - tLastOccur (act s0) > iExecEveryNthOccurTO (act s0)
                             then s0\<lparr>act := (act s0)\<lparr>iNbrNoExec := 0, tLastOccur := now\<rparr>\<rparr> else s0)
                   else s)
         in if iNbrNoExec (act s1) < iExecEveryNthOccur (act s1) - 1
            then (False, s1\<lparr>act := (act s1)\<lparr>iNbrNoExec := iNbrNoExec (act s1) + 1\<rparr>\<rparr>)
            else (True, s1\<lparr>act := (act s1)\<lparr>iNbrNoExec := 0\<rparr>\<rparr>))
      else (True, s))"

definition actionWriteToAction :: "('p, 'm) actenv \<Rightarrow> msgptr \<Rightarrow> smsg \<Rightarrow> ('p, 'm) actst \<Rightarrow>
    (rsRetVal \<times> ('p, 'm) actst) option" where
  "actionWriteToAction E pMsg msg s =
     (case everyNth E s of
        (go, s1) \<Rightarrow>
          if \<not> go then Some (RS_RET_OK, s1)
          else
            (let (tooSoon, s2) =
                   (if iSecsExecOnceInterval (act s1) > 0
                    then (case getActNow E s1 of
                            (now, s0) \<Rightarrow>
                              (iSecsExecOnceInterval (act s0) +
                                 tLastExec (act (if callFirst E then s0 else s1)) > now, s0))
                    else (False, s1))
             in if tooSoon then Some (RS_RET_OK, s2)
                else (case getActNow E s2 of
                        (now, s3) \<Rightarrow>
                          doSubmitToActionQ E pMsg
                            (s3\<lparr>act := (act s3)\<lparr>tLastExec := now, f_time := ttGenTime msg\<rparr>\<rparr>))))"

definition doSubmitToActionQComplex :: "('p, 'm) actenv \<Rightarrow> msgptr \<Rightarrow> smsg \<Rightarrow> ('p, 'm) actst \<Rightarrow>
    (rsRetVal \<times> ('p, 'm) actst) option" where
  "doSubmitToActionQComplex E pMsg msg s =
     do {
       let s0 = s\<lparr>act := (act s)\<lparr>tActNow := -1\<rparr>\<rparr>;
       half \<leftarrow> c_div (MarkInterval E) 2;
       let (skip, s1) =
         (if \<not> bWriteAllMarkMsgs (act s0) \<and> and (msgFlags msg) msg_MARK \<noteq> 0
          then (case getActNow E s0 of (now, s') \<Rightarrow> (now - f_time (act s') < half, s'))
          else (False, s0));
       if skip then Some (RS_RET_OK, s1) else actionWriteToAction E pMsg msg s1
     }"

text \<open>
  The variant for actions that only drop recent mark messages. The compare-and-swap loop is
  one iteration: no other thread changes \<open>f_time\<close> between the read and the swap.
\<close>

definition doSubmitToActionQNotAllMark :: "('p, 'm) actenv \<Rightarrow> msgptr \<Rightarrow> smsg \<Rightarrow> ('p, 'm) actst \<Rightarrow>
    (rsRetVal \<times> ('p, 'm) actst) option" where
  "doSubmitToActionQNotAllMark E pMsg msg s =
     do {
       half \<leftarrow> c_div (MarkInterval E) 2;
       if and (msgFlags msg) msg_MARK \<noteq> 0 \<and> ttGenTime msg - f_time (act s) < half
       then Some (RS_RET_OK, s)
       else doSubmitToActionQ E pMsg (s\<lparr>act := (act s)\<lparr>f_time := ttGenTime msg\<rparr>\<rparr>)
     }"

section \<open>Lemmas\<close>

lemmas act_defs [c_defs] =
  actionSetState_def getActionState_def setActionResumeInRow_def setActionNbrResRtry_def
  setHadAutoCommit_def actionDisable_def actionCommitted_def actionSetActionWorked_def

text \<open>\<open>nbr_ok\<close>: the count of suspensions in a row stays between 0 and 20.\<close>

definition nbr_ok :: "('p, 'm) actst \<Rightarrow> bool" where
  "nbr_ok s \<longleftrightarrow> 0 \<le> iNbrResRtry (wi s) \<and> iNbrResRtry (wi s) \<le> 20"

lemma suspend_fields:
  "actionSuspend E s = s' \<Longrightarrow>
   actState (wi s') = ACT_STATE_SUSP \<and> iNbrResRtry (wi s') = iNbrResRtry (wi s) \<and>
   ext s' = snd (GetTime E (ext s)) \<and>
   ttResumeRtry (act s') =
     fst (GetTime E (ext s)) + iResumeInterval (act s) * (iNbrResRtry (wi s) div 10 + 1) \<and>
   iResumeRetryCount (act s') = iResumeRetryCount (act s) \<and> iResumeInterval (act s') = iResumeInterval (act s)"
  by (auto simp: actionSuspend_def setSuspendMessageConfVars_def c_defs Let_def split: prod.splits)

lemma nbr_ok_frame [simp]:
  "nbr_ok (t\<lparr>ext := m\<rparr>) = nbr_ok t" "nbr_ok (t\<lparr>act := a\<rparr>) = nbr_ok t"
  "nbr_ok (actionSetState st t) = nbr_ok t" "nbr_ok (actionDisable t) = nbr_ok t"
  "nbr_ok (setActionResumeInRow n t) = nbr_ok t" "nbr_ok (setHadAutoCommit b t) = nbr_ok t"
  by (simp_all add: nbr_ok_def act_defs)

lemma suspend_nbr: "nbr_ok (actionSuspend E s) = nbr_ok s"
  using suspend_fields [of E s, OF refl] by (simp add: nbr_ok_def)

lemma retrySuspended_nbr:
  assumes "nbr_ok s"
  shows "case retrySuspended E n s of Inl (r, s') \<Rightarrow> nbr_ok s' | Inr (k, r, s') \<Rightarrow> nbr_ok s'"
proof -
  have "nbr_ok (setActionNbrResRtry (iNbrResRtry (wi t) + 1) t)" if "nbr_ok t" "iNbrResRtry (wi t) < 20"
    for t :: "('a, 'b) actst"
    using that by (simp add: nbr_ok_def setActionNbrResRtry_def)
  with assms show ?thesis
    by (auto simp: retrySuspended_def Let_def suspend_nbr split: prod.splits)
qed

lemma retryStep_nbr:
  assumes "nbr_ok s"
  shows "case retryStep E n s of Inl (r, s') \<Rightarrow> nbr_ok s' | Inr (k, r, s') \<Rightarrow> nbr_ok s'"
proof -
  obtain ret m1 where t: "tryResume E (ext s) = (ret, m1)" by fastforce
  have a: "case retrySuspended E n (setActionResumeInRow 0 (s\<lparr>ext := m1\<rparr>)) of
      Inl (r, s') \<Rightarrow> nbr_ok s' | Inr (k, r, s') \<Rightarrow> nbr_ok s'"
    by (rule retrySuspended_nbr) (simp add: assms)
  have b: "case retrySuspended E n (s\<lparr>ext := m1\<rparr>) of
      Inl (r, s') \<Rightarrow> nbr_ok s' | Inr (k, r, s') \<Rightarrow> nbr_ok s'"
    by (rule retrySuspended_nbr) (simp add: assms)
  show ?thesis
    using assms a b by (cases ret) (simp_all add: retryStep_def t Let_def)
qed

text \<open>The invariant rule of the loop; with \<open>Q\<close> constantly false it shows the loop never returns.\<close>

lemma retryLoop_inv:
  assumes "retryLoop E n r s = Some y" and "I n r s"
    and step: "\<And>n r s m. I n r s \<Longrightarrow> ShutdownImmediate E (ext s) = (False, m) \<Longrightarrow>
      getActionState s = ACT_STATE_RTRY \<Longrightarrow>
      (case retryStep E n (s\<lparr>ext := m\<rparr>) of
         Inl (r1, s1) \<Rightarrow> Q r1 True s1 | Inr (n1, r1, s1) \<Rightarrow> I n1 r1 s1)"
    and stop: "\<And>n r s b m. I n r s \<Longrightarrow> ShutdownImmediate E (ext s) = (b, m) \<Longrightarrow>
      b \<or> getActionState s \<noteq> ACT_STATE_RTRY \<Longrightarrow> Q r False (s\<lparr>ext := m\<rparr>)"
  shows "case y of (r', b, s') \<Rightarrow> Q r' b s'"
proof -
  have "E' = E \<longrightarrow> I n r s \<longrightarrow> (case y of (r', b, s') \<Rightarrow> Q r' b s')"
    if "retryLoop E' n r s = Some y" for E' n r s y
  proof (rule retryLoop.raw_induct [OF _ that,
      where P = "\<lambda>E' n r s y. E' = E \<longrightarrow> I n r s \<longrightarrow> (case y of (r', b, s') \<Rightarrow> Q r' b s')"])
    fix loop E' n r s y
    assume IH: "\<And>n r s E' y. loop n r s E' = Some y \<Longrightarrow>
        n = E \<longrightarrow> I r s E' \<longrightarrow> (case y of (r', b, s') \<Rightarrow> Q r' b s')"
      and run: "(case ShutdownImmediate E' (ext s) of
        (stop, m1) \<Rightarrow>
          if \<not> stop \<and> getActionState s = ACT_STATE_RTRY
          then case retryStep E' n (s\<lparr>ext := m1\<rparr>) of
               Inl (r1, s1) \<Rightarrow> Some (r1, True, s1)
               | Inr (n1, r1, s1) \<Rightarrow> loop E' n1 r1 s1
          else Some (r, False, s\<lparr>ext := m1\<rparr>)) = Some y"
    show "E' = E \<longrightarrow> I n r s \<longrightarrow> (case y of (r', b, s') \<Rightarrow> Q r' b s')"
    proof (intro impI)
      assume e: "E' = E" and i: "I n r s"
      obtain b m where sh: "ShutdownImmediate E (ext s) = (b, m)" by fastforce
      show "case y of (r', b, s') \<Rightarrow> Q r' b s'"
      proof (cases "\<not> b \<and> getActionState s = ACT_STATE_RTRY")
        case False
        then show ?thesis using run stop [OF i sh] e sh by auto
      next
        case True
        then show ?thesis
          using IH run step [OF i, of m] e sh by (auto split: sum.splits prod.splits)
      qed
    qed
  qed
  with assms(1,2) show ?thesis by blast
qed

lemma retryLoop_nbr:
  assumes "retryLoop E n r s = Some (r', b, s')" and "nbr_ok s"
  shows "nbr_ok s'"
proof -
  have "case (r', b, s') of (r', b, s') \<Rightarrow> nbr_ok s'"
  proof (rule retryLoop_inv [OF assms(1), where I = "\<lambda>n r s. nbr_ok s"])
    fix n and s :: "('a, 'b) actst" and m
    assume "nbr_ok s"
    then show "case retryStep E n (s\<lparr>ext := m\<rparr>) of Inl (r1, s1) \<Rightarrow> nbr_ok s1 | Inr (n1, r1, s1) \<Rightarrow> nbr_ok s1"
      using retryStep_nbr [of "s\<lparr>ext := m\<rparr>" E n] by simp
  qed (use assms(2) in simp_all)
  then show ?thesis by simp
qed

lemma actionDoRetry_nbr:
  "actionDoRetry E s = Some (r, s') \<Longrightarrow> nbr_ok s \<Longrightarrow> nbr_ok s'"
  by (auto simp: actionDoRetry_def split: bind_splits if_splits)
    (auto dest: retryLoop_nbr simp: nbr_ok_def c_defs)

text \<open>
  Counting what the loop does outside: \<open>tries\<close> and \<open>sleeps\<close> read from the external state how often
  the module was asked to resume and how often the worker slept (any environment has such counters
  when its state is extended by them).
\<close>

definition counts :: "('p, 'm) actenv \<Rightarrow> ('m \<Rightarrow> nat) \<Rightarrow> ('m \<Rightarrow> nat) \<Rightarrow> bool" where
  "counts E tries sleeps \<longleftrightarrow>
     (\<forall>m. tries (snd (tryResume E m)) = Suc (tries m) \<and> sleeps (snd (tryResume E m)) = sleeps m) \<and>
     (\<forall>n m. tries (srSleep E n m) = tries m \<and> sleeps (srSleep E n m) = Suc (sleeps m)) \<and>
     (\<forall>m. tries (snd (ShutdownImmediate E m)) = tries m \<and> sleeps (snd (ShutdownImmediate E m)) = sleeps m) \<and>
     (\<forall>m. tries (snd (GetTime E m)) = tries m \<and> sleeps (snd (GetTime E m)) = sleeps m)"

text \<open>
  The end of the loop for a module that answers OK or SUSPENDED: ready after \<open>j\<close> sleeps, or
  suspended after all \<open>c\<close> of them, with the interval scaled by the suspensions in a row.
\<close>

definition retry_ends :: "('p, 'm) actenv \<Rightarrow> ('m \<Rightarrow> nat) \<Rightarrow> ('m \<Rightarrow> nat) \<Rightarrow> nat \<Rightarrow> ('p, 'm) actst \<Rightarrow>
    rsRetVal \<Rightarrow> ('p, 'm) actst \<Rightarrow> bool" where
  "retry_ends E tries sleeps c s r s' \<longleftrightarrow>
     r = RS_RET_OK \<and> getActionState s' = ACT_STATE_RDY \<and>
       (\<exists>j \<le> c. sleeps (ext s') = sleeps (ext s) + j \<and> tries (ext s') = tries (ext s) + Suc j) \<or>
     r = RS_RET_SUSPENDED \<and> getActionState s' = ACT_STATE_SUSP \<and>
       sleeps (ext s') = sleeps (ext s) + c \<and> tries (ext s') = tries (ext s) + Suc c \<and>
       iNbrResRtry (wi s') = min 20 (iNbrResRtry (wi s) + 1) \<and>
       (\<exists>m. ttResumeRtry (act s') =
          fst (GetTime E m) + iResumeInterval (act s) * (iNbrResRtry (wi s) div 10 + 1))"

lemma retry_ends_frame [simp]:
  "counts E tries sleeps \<Longrightarrow>
   retry_ends E tries sleeps c s r (t\<lparr>ext := snd (ShutdownImmediate E (ext t))\<rparr>) = retry_ends E tries sleeps c s r t"
  by (simp add: retry_ends_def counts_def act_defs)

lemma retry_ends_ready:
  "counts E tries sleeps \<Longrightarrow> ext t = snd (tryResume E m) \<Longrightarrow>
   tries m = tries (ext s) \<Longrightarrow> sleeps m = sleeps (ext s) \<Longrightarrow>
   retry_ends E tries sleeps c s RS_RET_OK (actionSetState ACT_STATE_RDY t)"
  by (auto simp: retry_ends_def counts_def act_defs intro!: exI [of _ 0])

lemma retrySuspended_last:
  assumes "counts E tries sleeps" and "nbr_ok s" and "0 \<le> n" and "iResumeRetryCount (act s) = n"
    and "tries (ext s) = Suc (tries (ext s0))" and "sleeps (ext s) = sleeps (ext s0)"
    and "iNbrResRtry (wi s0) = iNbrResRtry (wi s)" and "iResumeInterval (act s0) = iResumeInterval (act s)"
  shows "\<exists>s1. retrySuspended E n s = Inr (n, RS_RET_SUSPENDED, s1) \<and>
    retry_ends E tries sleeps 0 s0 RS_RET_SUSPENDED s1"
proof -
  let ?s2 = "actionSuspend E s"
  let ?s3 = "if iNbrResRtry (wi ?s2) < 20 then setActionNbrResRtry (iNbrResRtry (wi ?s2) + 1) ?s2 else ?s2"
  note f = suspend_fields [of E s, OF refl]
  have "retrySuspended E n s = Inr (n, RS_RET_SUSPENDED, ?s3)"
    using assms(3,4) by (simp add: retrySuspended_def Let_def)
  moreover have "retry_ends E tries sleeps 0 s0 RS_RET_SUSPENDED ?s3"
    using f assms by (auto simp: retry_ends_def counts_def nbr_ok_def act_defs)
  ultimately show ?thesis by blast
qed

lemma retrySuspended_again:
  assumes "n < iResumeRetryCount (act s)" and "0 \<le> n" and "\<forall>m. \<not> fst (ShutdownImmediate E m)"
    and "counts E tries sleeps"
  shows "\<exists>m. retrySuspended E n s = Inr (n + 1, RS_RET_SUSPENDED, s\<lparr>ext := m\<rparr>) \<and>
    tries m = tries (ext s) \<and> sleeps m = Suc (sleeps (ext s))"
proof -
  let ?m = "srSleep E (iResumeInterval (act s)) (ext s)"
  have "ShutdownImmediate E ?m = (False, snd (ShutdownImmediate E ?m))"
    using assms(3) by (metis prod.collapse)
  moreover have "tries (snd (ShutdownImmediate E ?m)) = tries (ext s)"
    "sleeps (snd (ShutdownImmediate E ?m)) = Suc (sleeps (ext s))" using assms(4) by (simp_all add: counts_def)
  ultimately show ?thesis using assms(1,2)
    by (cases "ShutdownImmediate E ?m") (auto simp: retrySuspended_def Let_def)
qed

lemma retryLoop_done:
  "getActionState s \<noteq> ACT_STATE_RTRY \<Longrightarrow>
   retryLoop E n r s = Some (r, False, s\<lparr>ext := snd (ShutdownImmediate E (ext s))\<rparr>)"
  by (subst retryLoop.simps) (simp split: prod.splits)

lemma retryLoop_go:
  assumes "getActionState s = ACT_STATE_RTRY" and "\<forall>m. \<not> fst (ShutdownImmediate E m)"
    and "retryStep E n (s\<lparr>ext := snd (ShutdownImmediate E (ext s))\<rparr>) = Inr (n1, r1, s1)"
  shows "retryLoop E n r s = retryLoop E n1 r1 s1"
proof -
  have "ShutdownImmediate E (ext s) = (False, snd (ShutdownImmediate E (ext s)))"
    using assms(2) by (metis prod.collapse)
  then show ?thesis using assms(1,3)
    by (subst retryLoop.simps) (cases "ShutdownImmediate E (ext s)"; simp)
qed

text \<open>One round: the module is asked, and either the action is ready or the answer counts as SUSPENDED.\<close>

lemma retryStep_cases:
  assumes "\<forall>m. fst (tryResume E m) \<in> {RS_RET_OK, RS_RET_SUSPENDED}"
  shows "retryStep E n s =
      Inr (n, RS_RET_OK, actionSetState ACT_STATE_RDY (s\<lparr>ext := snd (tryResume E (ext s))\<rparr>)) \<or>
    (\<exists>t. retryStep E n s = retrySuspended E n t \<and> act t = act s \<and> iNbrResRtry (wi t) = iNbrResRtry (wi s) \<and>
       getActionState t = getActionState s \<and> ext t = snd (tryResume E (ext s)))"
proof -
  obtain ret m1 where t: "tryResume E (ext s) = (ret, m1)" by fastforce
  with assms have "ret = RS_RET_OK \<or> ret = RS_RET_SUSPENDED"
    by (metis fst_conv insertE singletonD)
  then show ?thesis
    by (auto simp: retryStep_def t Let_def act_defs)
qed

lemma retryLoop_ends:
  assumes "\<forall>m. fst (tryResume E m) \<in> {RS_RET_OK, RS_RET_SUSPENDED}"
    and "\<forall>m. \<not> fst (ShutdownImmediate E m)" and "counts E tries sleeps"
    and "getActionState s = ACT_STATE_RTRY" and "nbr_ok s"
    and "iResumeRetryCount (act s) = n + int j" and "0 \<le> n"
  shows "\<exists>r' s'. retryLoop E n r s = Some (r', False, s') \<and> retry_ends E tries sleeps j s r' s'"
  using assms(4-7)
proof (induction j arbitrary: n r s)
  case 0
  let ?s = "s\<lparr>ext := snd (ShutdownImmediate E (ext s))\<rparr>"
  have c: "tries (ext ?s) = tries (ext s)" "sleeps (ext ?s) = sleeps (ext s)"
    using assms(3) by (simp_all add: counts_def)
  from retryStep_cases [OF assms(1), of n ?s] show ?case
  proof
    let ?t = "?s\<lparr>ext := snd (tryResume E (ext ?s))\<rparr>"
    assume g: "retryStep E n ?s = Inr (n, RS_RET_OK, actionSetState ACT_STATE_RDY ?t)"
    let ?t' = "actionSetState ACT_STATE_RDY ?t"
    have e: "retry_ends E tries sleeps 0 s RS_RET_OK ?t'"
      by (rule retry_ends_ready [OF assms(3) _ c]) simp
    have "getActionState ?t' \<noteq> ACT_STATE_RTRY" by (simp add: act_defs)
    from retryLoop_done [OF this] retryLoop_go [OF 0(1) assms(2) g, of r] e assms(3) show ?thesis
      by auto
  next
    assume "\<exists>t. retryStep E n ?s = retrySuspended E n t \<and> act t = act ?s \<and>
      iNbrResRtry (wi t) = iNbrResRtry (wi ?s) \<and> getActionState t = getActionState ?s \<and>
      ext t = snd (tryResume E (ext ?s))"
    then obtain t where t: "retryStep E n ?s = retrySuspended E n t" "act t = act s"
      "iNbrResRtry (wi t) = iNbrResRtry (wi s)" "ext t = snd (tryResume E (ext ?s))" by auto
    have "nbr_ok t" using 0(2) t(3) by (simp add: nbr_ok_def)
    moreover have "tries (ext t) = Suc (tries (ext s))" "sleeps (ext t) = sleeps (ext s)"
      using assms(3) c t(4) by (simp_all add: counts_def)
    ultimately obtain s1 where
      s1: "retrySuspended E n t = Inr (n, RS_RET_SUSPENDED, s1)" "retry_ends E tries sleeps 0 s RS_RET_SUSPENDED s1"
      using retrySuspended_last [OF assms(3) _ 0(4), of t s] t(2,3) 0(3) by auto
    then have "getActionState s1 \<noteq> ACT_STATE_RTRY" by (auto simp: retry_ends_def)
    with retryLoop_go [OF 0(1) assms(2), of n n RS_RET_SUSPENDED s1 r] t(1) s1 assms(3) show ?thesis
      by (simp add: retryLoop_done)
  qed
next
  case (Suc j)
  let ?s = "s\<lparr>ext := snd (ShutdownImmediate E (ext s))\<rparr>"
  have c: "tries (ext ?s) = tries (ext s)" "sleeps (ext ?s) = sleeps (ext s)"
    using assms(3) by (simp_all add: counts_def)
  from retryStep_cases [OF assms(1), of n ?s] show ?case
  proof
    let ?t = "?s\<lparr>ext := snd (tryResume E (ext ?s))\<rparr>"
    assume g: "retryStep E n ?s = Inr (n, RS_RET_OK, actionSetState ACT_STATE_RDY ?t)"
    let ?t' = "actionSetState ACT_STATE_RDY ?t"
    have e: "retry_ends E tries sleeps (Suc j) s RS_RET_OK ?t'"
      by (rule retry_ends_ready [OF assms(3) _ c]) simp
    have "getActionState ?t' \<noteq> ACT_STATE_RTRY" by (simp add: act_defs)
    from retryLoop_done [OF this] retryLoop_go [OF Suc.prems(1) assms(2) g, of r] e assms(3) show ?thesis
      by auto
  next
    assume "\<exists>t. retryStep E n ?s = retrySuspended E n t \<and> act t = act ?s \<and>
      iNbrResRtry (wi t) = iNbrResRtry (wi ?s) \<and> getActionState t = getActionState ?s \<and>
      ext t = snd (tryResume E (ext ?s))"
    then obtain t where t: "retryStep E n ?s = retrySuspended E n t" "act t = act s"
      "iNbrResRtry (wi t) = iNbrResRtry (wi s)" "getActionState t = getActionState s"
      "ext t = snd (tryResume E (ext ?s))"
      by (auto simp: getActionState_def)
    have ct: "tries (ext t) = Suc (tries (ext s))" "sleeps (ext t) = sleeps (ext s)"
      using assms(3) c t(5) by (simp_all add: counts_def)
    have lt: "n < iResumeRetryCount (act t)" using t(2) Suc.prems(3) by simp
    from retrySuspended_again [OF lt Suc.prems(4) assms(2,3)] obtain m where
      m: "retrySuspended E n t = Inr (n + 1, RS_RET_SUSPENDED, t\<lparr>ext := m\<rparr>)"
        "tries m = tries (ext t)" "sleeps m = Suc (sleeps (ext t))" by blast
    let ?u = "t\<lparr>ext := m\<rparr>"
    have go: "retryLoop E n r s = retryLoop E (n + 1) RS_RET_SUSPENDED ?u"
      by (rule retryLoop_go [OF Suc.prems(1) assms(2)]) (simp add: t(1) m(1))
    have "\<exists>r' s'. retryLoop E (n + 1) RS_RET_SUSPENDED ?u = Some (r', False, s') \<and>
        retry_ends E tries sleeps j ?u r' s'"
      by (rule Suc.IH) (use t Suc.prems in \<open>auto simp: nbr_ok_def getActionState_def\<close>)
    then obtain r' s' where e: "retryLoop E (n + 1) RS_RET_SUSPENDED ?u = Some (r', False, s')"
      "retry_ends E tries sleeps j ?u r' s'" by blast
    have "retry_ends E tries sleeps (Suc j) s r' s'"
      using e(2) t(2,3) ct m(2,3) unfolding retry_ends_def by fastforce
    with go e(1) show ?thesis by simp
  qed
qed

lemma tryResume_suspended:
  assumes "getActionState s = ACT_STATE_SUSP" and "GetTime E (ext s) = (now, m1)"
    and "now < ttResumeRtry (act s)"
  shows "actionTryResume E s = Some (RS_RET_OK, s\<lparr>ext := m1\<rparr>)"
  using assms by (simp add: actionTryResume_def getActionState_def)

lemma prepare_waiting:
  assumes "getActionState s = ACT_STATE_SUSP" and "actWrkrData (wi s) \<noteq> None"
    and "GetTime E (ext s) = (now, m1)" and "now < ttResumeRtry (act s)"
  shows "actionPrepare E s = Some (RS_RET_OK, s\<lparr>ext := m1\<rparr>)"
  using assms tryResume_suspended [OF assms(1,3,4)]
  by (simp add: actionPrepare_def actionCheckAndCreateWrkrInstance_def getActionState_def)

lemma prepare_datafail:
  assumes "getActionState s = ACT_STATE_DATAFAIL" and "actWrkrData (wi s) \<noteq> None"
  shows "actionPrepare E s = Some (RS_RET_OK, s)"
  using assms by (simp add: actionPrepare_def actionCheckAndCreateWrkrInstance_def actionTryResume_def)

text \<open>The return codes the engine takes for a permanent failure of the message.\<close>

definition hard_error :: "rsRetVal \<Rightarrow> bool" where
  "hard_error r \<longleftrightarrow> r \<notin> {RS_RET_OK, RS_RET_DEFER_COMMIT, RS_RET_PREVIOUS_COMMITTED,
     RS_RET_DISABLE_ACTION, RS_RET_SUSPENDED}"

lemma hard_error_result:
  assumes "hard_error ret"
  shows "handleActionExecResult E s ret = (RS_RET_DATAFAIL, actionSetState ACT_STATE_DATAFAIL s)"
  using assms
  by (cases ret) (simp_all add: hard_error_def handleActionExecResult_def getReturnCode_def act_defs)

text \<open>The commit loop's induction rule, for showing that it never returns.\<close>

lemma commitLoop_stuck:
  assumes inv: "I s"
    and step: "\<And>s. I s \<Longrightarrow> \<exists>r s1. actionTryCommit E ps n s = Some (r, s1) \<and> I s1 \<and>
      r \<notin> {RS_RET_FORCE_TERM, RS_RET_SUSPENDED, RS_RET_OK, RS_RET_ACTION_FAILED} \<and>
      getActionState s1 \<noteq> ACT_STATE_RDY \<and> getActionState s1 \<noteq> ACT_STATE_SUSP"
  shows "commitLoop E ps n s = None"
proof (rule ccontr)
  assume "commitLoop E ps n s \<noteq> None"
  then obtain y where y: "commitLoop E ps n s = Some y" by blast
  have "E' = E \<longrightarrow> ps' = ps \<longrightarrow> n' = n \<longrightarrow> I s \<longrightarrow> False" if "commitLoop E' ps' n' s = Some y" for E' ps' n' s y
  proof (rule commitLoop.raw_induct [OF _ that,
      where P = "\<lambda>E' ps' n' s y. E' = E \<longrightarrow> ps' = ps \<longrightarrow> n' = n \<longrightarrow> I s \<longrightarrow> False"])
    fix loop E' ps' n' s y
    assume IH: "\<And>E' ps' n' s y. loop E' ps' n' s = Some y \<Longrightarrow>
        E' = E \<longrightarrow> ps' = ps \<longrightarrow> n' = n \<longrightarrow> I s \<longrightarrow> False"
      and run: "Option.bind (actionTryCommit E' ps' n' s) (\<lambda>(r, s1).
       if r = RS_RET_FORCE_TERM then Some (RS_RET_FORCE_TERM, s1)
       else if r = RS_RET_SUSPENDED
       then Option.bind (actionDoRetry E' s1) (\<lambda>(r2, s2).
              if r2 = RS_RET_FORCE_TERM then Some (RS_RET_FORCE_TERM, s2)
              else if r2 \<noteq> RS_RET_OK
              then Option.bind (actionWriteErrorFile E' r2 ps' n' s2) (\<lambda>s3. Some (r2, s3))
              else loop E' ps' n' s2)
       else if r = RS_RET_OK \<or> r = RS_RET_ACTION_FAILED \<or>
          getActionState s1 = ACT_STATE_RDY \<or> getActionState s1 = ACT_STATE_SUSP
       then Some (r, s1)
       else loop E' ps' n' s1) = Some y"
    show "E' = E \<longrightarrow> ps' = ps \<longrightarrow> n' = n \<longrightarrow> I s \<longrightarrow> False"
    proof (intro impI)
      assume e: "E' = E" "ps' = ps" "n' = n" and i: "I s"
      from step [OF i] obtain r s1 where t: "actionTryCommit E ps n s = Some (r, s1)" "I s1"
        "r \<notin> {RS_RET_FORCE_TERM, RS_RET_SUSPENDED, RS_RET_OK, RS_RET_ACTION_FAILED}"
        "getActionState s1 \<noteq> ACT_STATE_RDY" "getActionState s1 \<noteq> ACT_STATE_SUSP" by blast
      with run e have "loop E ps n s1 = Some y" by simp
      with IH [of E ps n s1] t(2) show False by blast
    qed
  qed
  with y inv show False by blast
qed

section \<open>Properties\<close>

text \<open>A module without surprises, for the witnesses: the external state counts the calls to the clock.\<close>

definition act_ex :: action where
  "act_ex = \<lparr>f_time = 0, tActNow = -1, tLastExec = 0, bExecWhenPrevSusp = False,
     bWriteAllMarkMsgs = True, bReportSuspension = 0, bReportSuspensionCont = 0, bDisabled = False,
     isTransactional = False, bCopyMsg = False, iSecsExecOnceInterval = 0, ttResumeRtry = 30,
     iResumeInterval = 30, iResumeRetryCount = 2, iNbrNoExec = 0, iExecEveryNthOccur = 0,
     iExecEveryNthOccurTO = 0, tLastOccur = 0, iNumTpls = 1, bQueueDirect = True,
     wrkrDataTable = [], nWrkr = 0, ctrProcessed = 0, ctrFail = 0, ctrSuspend = 0,
     ctrSuspendDuration = 0\<rparr>"

definition st_ex :: "act_state \<Rightarrow> (nat, nat) actst" where
  "st_ex st = \<lparr>act = act_ex,
     wi = \<lparr>actWrkrData = Some 0, uResumeOKinRow = 0, iNbrResRtry = 0, bHadAutoCommit = False,
       actState = st, iparams = [], currIParam = 0, maxIParams = 0, actParams = [None]\<rparr>,
     bPrevWasSuspended = False, bDoAutoCommit = False, ext = 0\<rparr>"

definition env_ex :: "rsRetVal \<Rightarrow> rsRetVal \<Rightarrow> rsRetVal \<Rightarrow> (nat, nat) actenv" where
  "env_ex resume begin' result = \<lparr>tryResume = Pair resume, createWrkrInstance = (\<lambda>m. (RS_RET_OK, 0, m)),
     beginTransaction = Pair begin', doAction = (\<lambda>_. Pair result),
     commitTransaction = Some (\<lambda>_ _. Pair result), endTransaction = Pair RS_RET_OK,
     GetTime = (\<lambda>m. (int m, Suc m)), srSleep = (\<lambda>_ m. m), ShutdownImmediate = Pair False,
     mallocOK = Pair True, WriteErrorFile = (\<lambda>_ _ m. m), render = (\<lambda>_ p m. (RS_RET_OK, p, m)),
     enqueueAction = (\<lambda>_ _. Pair RS_RET_OK), confReportSuspension = 0, confReportSuspensionCont = 0,
     MarkInterval = 1200, gatherStats = True, callFirst = True\<rparr>"

text \<open>
  C16: With a module whose \<open>tryResume\<close> answers OK or SUSPENDED, a bounded retry count and no
  shutdown, the retry loop ends: either the action is ready again after at most the configured
  number of sleeps, one more question to the module than sleeps, and its count of suspensions is
  reset; or exactly the configured number of sleeps and one more question were spent and it is
  suspended until now plus its resume interval scaled by the suspensions in a row, which are
  counted up to 20.
\<close>

theorem retry_ends_within_count:
  assumes "\<forall>m. fst (tryResume E m) \<in> {RS_RET_OK, RS_RET_SUSPENDED}"
    and "\<forall>m. \<not> fst (ShutdownImmediate E m)" and "counts E tries sleeps"
    and "getActionState s = ACT_STATE_RTRY" and "nbr_ok s" and "iResumeRetryCount (act s) = int c"
  shows "\<exists>r s'. actionDoRetry E s = Some (r, s') \<and>
    (r = RS_RET_OK \<and> getActionState s' = ACT_STATE_RDY \<and> iNbrResRtry (wi s') = 0 \<and>
       (\<exists>j \<le> c. sleeps (ext s') = sleeps (ext s) + j \<and> tries (ext s') = tries (ext s) + Suc j) \<or>
     r = RS_RET_SUSPENDED \<and> getActionState s' = ACT_STATE_SUSP \<and>
       sleeps (ext s') = sleeps (ext s) + c \<and> tries (ext s') = tries (ext s) + Suc c \<and>
       iNbrResRtry (wi s') = min 20 (iNbrResRtry (wi s) + 1) \<and>
       (\<exists>m. ttResumeRtry (act s') =
          fst (GetTime E m) + iResumeInterval (act s) * (iNbrResRtry (wi s) div 10 + 1)))"
proof -
  from retryLoop_ends [OF assms(1-5), of 0 c RS_RET_OK] assms(6)
  obtain r s1 where l: "retryLoop E 0 RS_RET_OK s = Some (r, False, s1)"
    and e: "retry_ends E tries sleeps c s r s1" by auto
  from l have d: "actionDoRetry E s =
      Some (r, if getActionState s1 = ACT_STATE_RDY then setActionNbrResRtry 0 s1 else s1)"
    by (simp add: actionDoRetry_def)
  show ?thesis
  proof (cases "getActionState s1 = ACT_STATE_RDY")
    case True
    with d e show ?thesis by (auto simp: retry_ends_def act_defs)
  next
    case False
    with d e show ?thesis unfolding retry_ends_def by auto
  qed
qed

text \<open>The witness: the external state is the clock with the two counters; two retries, all refused.\<close>

definition cenv_ex :: "(nat, nat \<times> nat \<times> nat) actenv" where
  "cenv_ex = \<lparr>tryResume = (\<lambda>(t, a, b). (RS_RET_SUSPENDED, (t, Suc a, b))), createWrkrInstance = (\<lambda>m. (RS_RET_OK, 0, m)),
     beginTransaction = Pair RS_RET_OK, doAction = (\<lambda>_. Pair RS_RET_OK),
     commitTransaction = Some (\<lambda>_ _. Pair RS_RET_OK), endTransaction = Pair RS_RET_OK,
     GetTime = (\<lambda>m. (int (fst m), m)), srSleep = (\<lambda>n (t, a, b). (t + nat n, a, Suc b)), ShutdownImmediate = Pair False,
     mallocOK = Pair True, WriteErrorFile = (\<lambda>_ _ m. m), render = (\<lambda>_ p m. (RS_RET_OK, p, m)),
     enqueueAction = (\<lambda>_ _. Pair RS_RET_OK), confReportSuspension = 0, confReportSuspensionCont = 0,
     MarkInterval = 1200, gatherStats = True, callFirst = True\<rparr>"

definition cst_ex :: "(nat, nat \<times> nat \<times> nat) actst" where
  "cst_ex = \<lparr>act = (act (st_ex ACT_STATE_RTRY))\<lparr>iResumeRetryCount := 2\<rparr>, wi = wi (st_ex ACT_STATE_RTRY),
     bPrevWasSuspended = False, bDoAutoCommit = False, ext = (0, 0, 0)\<rparr>"

theorem retry_ends_within_count_witness:
  "\<exists>r s'. actionDoRetry cenv_ex cst_ex = Some (r, s') \<and>
    (r = RS_RET_OK \<and> getActionState s' = ACT_STATE_RDY \<and> iNbrResRtry (wi s') = 0 \<and>
       (\<exists>j \<le> 2. snd (snd (ext s')) = snd (snd (ext cst_ex)) + j \<and> fst (snd (ext s')) = fst (snd (ext cst_ex)) + Suc j) \<or>
     r = RS_RET_SUSPENDED \<and> getActionState s' = ACT_STATE_SUSP \<and>
       snd (snd (ext s')) = snd (snd (ext cst_ex)) + 2 \<and> fst (snd (ext s')) = fst (snd (ext cst_ex)) + Suc 2 \<and>
       iNbrResRtry (wi s') = min 20 (iNbrResRtry (wi cst_ex) + 1) \<and>
       (\<exists>m. ttResumeRtry (act s') =
          fst (GetTime cenv_ex m) + iResumeInterval (act cst_ex) * (iNbrResRtry (wi cst_ex) div 10 + 1)))"
proof (rule retry_ends_within_count [where tries = "\<lambda>m. fst (snd m)" and sleeps = "\<lambda>m. snd (snd m)"])
  show "counts cenv_ex (\<lambda>m. fst (snd m)) (\<lambda>m. snd (snd m))"
    by (simp add: counts_def cenv_ex_def split: prod.split)
qed (auto simp: cenv_ex_def cst_ex_def st_ex_def act_ex_def nbr_ok_def getActionState_def)

text \<open>
  The count of suspensions in a row, which scales the resume interval, stays between 0 and
  20 through every retry, whatever the module, the clock and the shutdown flag do.
\<close>

theorem suspension_count_bounded:
  assumes "actionDoRetry E s = Some (r, s')" and "0 \<le> iNbrResRtry (wi s)" and "iNbrResRtry (wi s) \<le> 20"
  shows "0 \<le> iNbrResRtry (wi s') \<and> iNbrResRtry (wi s') \<le> 20"
  using actionDoRetry_nbr [OF assms(1)] assms(2,3) by (simp add: nbr_ok_def)

theorem suspension_count_bounded_witness:
  "\<exists>r s'. actionDoRetry (env_ex RS_RET_OK RS_RET_OK RS_RET_OK) (st_ex ACT_STATE_RTRY) = Some (r, s') \<and>
     0 \<le> iNbrResRtry (wi s') \<and> iNbrResRtry (wi s') \<le> 20"
proof -
  have "\<exists>r s'. actionDoRetry (env_ex RS_RET_OK RS_RET_OK RS_RET_OK) (st_ex ACT_STATE_RTRY) = Some (r, s')"
    by (simp add: actionDoRetry_def retryLoop.simps retryStep_def env_ex_def st_ex_def act_defs Let_def)
  then show ?thesis
    using suspension_count_bounded [of "env_ex RS_RET_OK RS_RET_OK RS_RET_OK" "st_ex ACT_STATE_RTRY"]
    by (auto simp: st_ex_def)
qed

text \<open>
  A suspended action is left alone until its resume time: processing a message before
  that only reads the clock, calls no entry point of the module, changes nothing and reports
  the failure.
\<close>

theorem suspended_action_not_called:
  assumes "getActionState s = ACT_STATE_SUSP" and "actWrkrData (wi s) \<noteq> None"
    and "GetTime E (ext s) = (now, m1)" and "now < ttResumeRtry (act s)"
  shows "actionProcessMessage E ps s = Some (RS_RET_ACTION_FAILED, s\<lparr>ext := m1\<rparr>)"
  using prepare_waiting [OF assms] assms(1)
  by (simp add: actionProcessMessage_def getReturnCode_def getActionState_def)

theorem suspended_action_not_called_witness:
  "actionProcessMessage (env_ex RS_RET_OK RS_RET_OK RS_RET_OK) [None] (st_ex ACT_STATE_SUSP) =
     Some (RS_RET_ACTION_FAILED, st_ex ACT_STATE_SUSP\<lparr>ext := 1\<rparr>)"
  by (rule suspended_action_not_called [where now = 0])
    (simp_all add: st_ex_def env_ex_def act_ex_def getActionState_def)

text \<open>
  The commit path does not look at the suspension: with a module that has
  \<open>commitTransaction\<close>, trying to commit on an action suspended beyond now calls it at once,
  and if it succeeds the action is ready again before its resume time.
\<close>

theorem commit_called_while_suspended:
  assumes "getActionState s = ACT_STATE_SUSP" and "actWrkrData (wi s) \<noteq> None"
    and "GetTime E (ext s) = (now, m1)" and "now < ttResumeRtry (act s)"
    and "commitTransaction E = Some commit" and "commit ps n m1 = (RS_RET_OK, m2)"
  shows "\<exists>s'. actionTryCommit E ps n s = Some (RS_RET_OK, s') \<and> ext s' = m2 \<and>
    getActionState s' = ACT_STATE_RDY \<and> now < ttResumeRtry (act s')"
  using prepare_waiting [OF assms(1-4)] assms(4-6)
  by (simp add: actionTryCommit_def doTransaction_def actionCallCommitTransaction_def
      handleActionExecResult_def getReturnCode_def act_defs)

theorem commit_called_while_suspended_witness:
  "\<exists>s'. actionTryCommit (env_ex RS_RET_OK RS_RET_OK RS_RET_OK) [None] 1 (st_ex ACT_STATE_SUSP) = Some (RS_RET_OK, s') \<and>
     ext s' = 1 \<and> getActionState s' = ACT_STATE_RDY \<and> 0 < ttResumeRtry (act s')"
  by (rule commit_called_while_suspended [where now = 0 and commit = "\<lambda>_ _. Pair RS_RET_OK"])
    (simp_all add: st_ex_def env_ex_def act_ex_def getActionState_def)

text \<open>
  One permanent failure disables a non-transactional action for the worker for ever: when
  \<open>doAction\<close> returns an error the engine does not know, the action enters a state in which no
  later message reaches the module; each is answered with the same failure and nothing in the
  state changes, so nothing can bring the action back.
\<close>

theorem datafail_is_permanent:
  assumes "hard_error ret" and "doAction E ps (ext s) = (ret, m1)" and "actWrkrData (wi s) \<noteq> None"
  shows "\<exists>s1. actionCallDoAction E ps s = (RS_RET_DATAFAIL, s1) \<and> ext s1 = m1 \<and>
    (\<forall>ps'. actionProcessMessage E ps' s1 = Some (RS_RET_DATAFAIL, s1))"
proof -
  let ?s1 = "actionSetState ACT_STATE_DATAFAIL (setHadAutoCommit False s\<lparr>ext := m1\<rparr>)"
  have st: "getActionState ?s1 = ACT_STATE_DATAFAIL" "actWrkrData (wi ?s1) \<noteq> None"
    using assms(3) by (simp_all add: act_defs)
  have "actionCallDoAction E ps s = (RS_RET_DATAFAIL, ?s1)"
    using assms by (simp add: actionCallDoAction_def hard_error_result)
  moreover have "actionProcessMessage E ps' ?s1 = Some (RS_RET_DATAFAIL, ?s1)" for ps'
    using prepare_datafail [OF st, of E] st(1) by (simp add: actionProcessMessage_def getReturnCode_def)
  moreover have "ext ?s1 = m1" by (simp add: act_defs)
  ultimately show ?thesis by blast
qed

theorem datafail_is_permanent_witness:
  "\<exists>s1. actionCallDoAction (env_ex RS_RET_OK RS_RET_OK RS_RET_ERR) [None] (st_ex ACT_STATE_ITX) = (RS_RET_DATAFAIL, s1) \<and>
    ext s1 = 0 \<and>
    (\<forall>ps'. actionProcessMessage (env_ex RS_RET_OK RS_RET_OK RS_RET_ERR) ps' s1 = Some (RS_RET_DATAFAIL, s1))"
  by (rule datafail_is_permanent [where ret = RS_RET_ERR])
    (simp_all add: hard_error_def env_ex_def st_ex_def)

text \<open>
  C17: A module whose \<open>tryResume\<close> keeps answering neither OK nor SUSPENDED - it asks to be
  disabled, or reports any other error - traps the worker: the retry loop has no exit and no
  sleep for that answer and does not return while no shutdown is requested.
\<close>

theorem retry_never_ends_on_error:
  fixes E :: "('a, 'b) actenv" and s :: "('a, 'b) actst"
  assumes "\<forall>m. fst (tryResume E m) \<notin> {RS_RET_OK, RS_RET_SUSPENDED}"
    and "\<forall>m. \<not> fst (ShutdownImmediate E m)"
    and "getActionState s = ACT_STATE_RTRY" and "uResumeOKinRow (wi s) \<le> 9"
  shows "actionDoRetry E s = None"
proof -
  let ?I = "\<lambda>n r s. getActionState s = ACT_STATE_RTRY \<and> uResumeOKinRow (wi s) \<le> 9"
  have "retryLoop E 0 RS_RET_OK s = None"
  proof (rule ccontr)
    assume "retryLoop E 0 RS_RET_OK s \<noteq> None"
    then obtain y where y: "retryLoop E 0 RS_RET_OK s = Some y" by blast
    have "case y of (r', b, s') \<Rightarrow> False"
    proof (rule retryLoop_inv [OF y, where I = ?I])
      fix n r and s :: "('a, 'b) actst" and m
      assume i: "?I n r s"
      obtain ret m1 where t: "tryResume E m = (ret, m1)" by fastforce
      with assms(1) have ret: "ret \<noteq> RS_RET_OK" "ret \<noteq> RS_RET_SUSPENDED"
        by (metis fst_conv insertCI)+
      have "\<not> 9 < uResumeOKinRow (wi s)" using i by (simp only: not_less simp_thms)
      with i ret show "case retryStep E n (s\<lparr>ext := m\<rparr>) of
          Inl (r1, s1) \<Rightarrow> False | Inr (n1, r1, s1) \<Rightarrow> ?I n1 r1 s1"
        by (cases ret) (simp_all add: retryStep_def t Let_def act_defs)
    next
      fix n r and s :: "('a, 'b) actst" and b m
      assume "?I n r s" and "ShutdownImmediate E (ext s) = (b, m)"
        and "b \<or> getActionState s \<noteq> ACT_STATE_RTRY"
      with assms(2) show False by (metis fst_conv)
    qed (use assms(3,4) in simp)
    then show False by (cases y) simp
  qed
  then show ?thesis by (simp add: actionDoRetry_def)
qed

theorem retry_never_ends_on_error_witness:
  "actionDoRetry (env_ex RS_RET_DISABLE_ACTION RS_RET_OK RS_RET_OK) (st_ex ACT_STATE_RTRY) = None"
  by (rule retry_never_ends_on_error) (simp_all add: env_ex_def st_ex_def getActionState_def)

text \<open>
  The retry loop of \<open>actionCommit\<close> has no exit for a permanent failure: in the state such
  a failure leaves, a module whose \<open>commitTransaction\<close> keeps failing permanently is called
  again and again and the commit does not return.
\<close>

theorem commit_loop_never_ends_on_datafail:
  fixes E :: "('a, 'b) actenv" and s :: "('a, 'b) actst"
  assumes "commitTransaction E = Some commit" and "\<forall>m. hard_error (fst (commit ps n m))"
    and "getActionState s = ACT_STATE_DATAFAIL" and "actWrkrData (wi s) \<noteq> None"
  shows "commitLoop E ps n s = None"
proof (rule commitLoop_stuck
    [where I = "\<lambda>s. getActionState s = ACT_STATE_DATAFAIL \<and> actWrkrData (wi s) \<noteq> None"])
  fix s :: "('a, 'b) actst"
  assume i: "getActionState s = ACT_STATE_DATAFAIL \<and> actWrkrData (wi s) \<noteq> None"
  obtain ret m1 where c: "commit ps n (ext s) = (ret, m1)" by fastforce
  with assms(2) have h: "hard_error ret" by (metis fst_conv)
  let ?s1 = "actionSetState ACT_STATE_DATAFAIL (s\<lparr>ext := m1\<rparr>)"
  have "actionTryCommit E ps n s = Some (RS_RET_DATAFAIL, ?s1)"
    using prepare_datafail [of s E] i assms(1) c h
    by (simp add: actionTryCommit_def doTransaction_def actionCallCommitTransaction_def hard_error_result)
  then show "\<exists>r s1. actionTryCommit E ps n s = Some (r, s1) \<and>
      (getActionState s1 = ACT_STATE_DATAFAIL \<and> actWrkrData (wi s1) \<noteq> None) \<and>
      r \<notin> {RS_RET_FORCE_TERM, RS_RET_SUSPENDED, RS_RET_OK, RS_RET_ACTION_FAILED} \<and>
      getActionState s1 \<noteq> ACT_STATE_RDY \<and> getActionState s1 \<noteq> ACT_STATE_SUSP"
    using i by (simp add: act_defs)
qed (use assms(3,4) in simp)

theorem commit_loop_never_ends_on_datafail_witness:
  "commitLoop (env_ex RS_RET_OK RS_RET_OK RS_RET_DATAFAIL) [None] 1 (st_ex ACT_STATE_DATAFAIL) = None"
  by (rule commit_loop_never_ends_on_datafail [where commit = "\<lambda>_ _. Pair RS_RET_DATAFAIL"])
    (simp_all add: env_ex_def st_ex_def getActionState_def hard_error_def)

text \<open>The decisions of \<open>k\<close> calls of the every-n-th rule in a row.\<close>

fun everyNthRuns :: "('p, 'm) actenv \<Rightarrow> nat \<Rightarrow> ('p, 'm) actst \<Rightarrow> bool list" where
  "everyNthRuns E 0 s = []"
| "everyNthRuns E (Suc k) s = (case everyNth E s of (go, s1) \<Rightarrow> go # everyNthRuns E k s1)"

lemma everyNth_step:
  assumes "iExecEveryNthOccur (act s) = n" and "1 < n" and "iExecEveryNthOccurTO (act s) \<le> 0"
    and "iNbrNoExec (act s) = c" and "0 \<le> c" and "c < n"
  shows "everyNth E s = ((c + 1) mod n = 0, s\<lparr>act := (act s)\<lparr>iNbrNoExec := (c + 1) mod n\<rparr>\<rparr>)"
proof (cases "c + 1 = n")
  case True
  with assms show ?thesis by (simp add: everyNth_def)
next
  case False
  with assms have "(c + 1) mod n = c + 1" by (intro mod_pos_pos_trivial) auto
  with False assms show ?thesis by (auto simp: everyNth_def)
qed

text \<open>
  \<open>$ActionExecOnlyEveryNthTime\<close>: without a timeout, of any number of messages in a row the
  action runs for exactly every n-th, counted from the messages skipped before.
\<close>

theorem every_nth_message_runs:
  assumes "iExecEveryNthOccur (act s) = n" and "1 < n" and "iExecEveryNthOccurTO (act s) \<le> 0"
    and "0 \<le> iNbrNoExec (act s)" and "iNbrNoExec (act s) < n"
  shows "everyNthRuns E k s = map (\<lambda>i. (iNbrNoExec (act s) + 1 + int i) mod n = 0) [0..<k]"
  using assms
proof (induction k arbitrary: s)
  case 0
  then show ?case by simp
next
  case (Suc k)
  let ?c = "iNbrNoExec (act s)"
  let ?s1 = "s\<lparr>act := (act s)\<lparr>iNbrNoExec := (?c + 1) mod n\<rparr>\<rparr>"
  have step: "everyNth E s = ((?c + 1) mod n = 0, ?s1)"
    using Suc.prems by (intro everyNth_step) auto
  have IH: "everyNthRuns E k ?s1 = map (\<lambda>i. ((?c + 1) mod n + 1 + int i) mod n = 0) [0..<k]"
    using Suc.IH [of ?s1] Suc.prems by simp
  have "((?c + 1) mod n + 1 + int i) mod n = (?c + 1 + int (Suc i)) mod n" for i
    by (metis (no_types, opaque_lifting) add.assoc add.commute int_Suc mod_add_left_eq of_nat_Suc)
  with IH have "everyNthRuns E k ?s1 = map (\<lambda>i. (?c + 1 + int i) mod n = 0) (map Suc [0..<k])"
    by simp
  moreover have "[0..<Suc k] = 0 # map Suc [0..<k]"
    by (metis upt_conv_Cons map_Suc_upt zero_less_Suc)
  ultimately show ?case using step by simp
qed

theorem every_nth_message_runs_witness:
  "everyNthRuns (env_ex RS_RET_OK RS_RET_OK RS_RET_OK) 4
     (st_ex ACT_STATE_RDY\<lparr>act := act_ex\<lparr>iExecEveryNthOccur := 2\<rparr>\<rparr>) = [False, True, False, True]"
  using every_nth_message_runs [of "st_ex ACT_STATE_RDY\<lparr>act := act_ex\<lparr>iExecEveryNthOccur := 2\<rparr>\<rparr>" 2
      "env_ex RS_RET_OK RS_RET_OK RS_RET_OK" 4]
  by (simp add: act_ex_def upt_rec)

text \<open>
  \<open>$ActionExecOnlyOnceEveryInterval\<close>: a message that comes before the interval since the last
  execution is over is dropped with OK; nothing is executed or enqueued, and of the action only
  the cached time changes.
\<close>

theorem once_interval_drops:
  assumes "0 < iSecsExecOnceInterval (act s)" and "iExecEveryNthOccur (act s) \<le> 1"
    and "GetTime E (ext s) = (now, m1)" and "tActNow (act s) = -1"
    and "tLastExec (act s) \<le> now" and "now < tLastExec (act s) + iSecsExecOnceInterval (act s)"
  shows "actionWriteToAction E pMsg msg s =
    Some (RS_RET_OK, s\<lparr>act := (act s)\<lparr>tActNow := now\<rparr>, ext := m1\<rparr>)"
  using assms by (simp add: actionWriteToAction_def everyNth_def getActNow_def Let_def)

theorem once_interval_drops_witness:
  "actionWriteToAction (env_ex RS_RET_OK RS_RET_OK RS_RET_OK) 7 (msg_ex 3)
     (st_ex ACT_STATE_RDY\<lparr>act := act_ex\<lparr>iSecsExecOnceInterval := 10\<rparr>\<rparr>) =
   Some (RS_RET_OK, st_ex ACT_STATE_RDY\<lparr>act := act_ex\<lparr>iSecsExecOnceInterval := 10, tActNow := 0\<rparr>, ext := 1\<rparr>)"
  using once_interval_drops [of "st_ex ACT_STATE_RDY\<lparr>act := act_ex\<lparr>iSecsExecOnceInterval := 10\<rparr>\<rparr>"
      "env_ex RS_RET_OK RS_RET_OK RS_RET_OK" 0 1 7 "msg_ex 3"]
  by (simp add: st_ex_def act_ex_def env_ex_def)

text \<open>The worker table: \<open>nWrkr\<close> counts the used entries.\<close>

definition table_ok :: "action \<Rightarrow> bool" where
  "table_ok a \<longleftrightarrow> nWrkr a = int (length (filter (\<lambda>x. x \<noteq> None) (wrkrDataTable a)))"

lemma freeSpot_free: "None \<in> set xs \<Longrightarrow> freeSpot xs < length xs \<and> xs ! freeSpot xs = None"
  by (induction xs) auto

lemma freeSpot_full: "None \<notin> set xs \<Longrightarrow> freeSpot xs = length xs"
proof (induction xs)
  case (Cons x xs)
  then show ?case by (cases x) auto
qed simp

lemma filter_full: "length (filter P xs) = length xs \<longleftrightarrow> (\<forall>x \<in> set xs. P x)"
  by (induction xs) (auto simp: le_Suc_eq dest: le_trans [OF _ length_filter_le], metis Suc_n_not_le_n length_filter_le)

lemma filter_update_used:
  "i < length xs \<Longrightarrow> xs ! i = None \<Longrightarrow>
   length (filter (\<lambda>x. x \<noteq> None) (xs[i := Some p])) = Suc (length (filter (\<lambda>x. x \<noteq> None) xs))"
proof (induction xs arbitrary: i)
  case (Cons x xs)
  then show ?case by (cases i) auto
qed simp

text \<open>
  Registering a worker with an action never writes outside the worker table: a free entry
  is used, or the table is extended when all are in use; the count of workers stays the number
  of used entries and no other worker's entry changes.
\<close>

theorem create_worker_table_ok:
  assumes "table_ok (act s)"
  shows "\<exists>r s'. actionCheckAndCreateWrkrInstance E s = Some (r, s') \<and> table_ok (act s') \<and>
    (\<forall>i < length (wrkrDataTable (act s)). wrkrDataTable (act s) ! i \<noteq> None \<longrightarrow>
       wrkrDataTable (act s') ! i = wrkrDataTable (act s) ! i)"
proof (cases "actWrkrData (wi s) = None \<and> fst (createWrkrInstance E (ext s)) = RS_RET_OK")
  case False
  then show ?thesis
    using assms by (cases "createWrkrInstance E (ext s)") (auto simp: actionCheckAndCreateWrkrInstance_def)
next
  case True
  let ?a = "act s" and ?t = "wrkrDataTable (act s)"
  obtain p m1 where c: "createWrkrInstance E (ext s) = (RS_RET_OK, p, m1)"
    using True by (metis fst_conv prod.collapse)
  let ?s1 = "actionSetState ACT_STATE_RDY (s\<lparr>wi := (wi s)\<lparr>actWrkrData := Some p\<rparr>, ext := m1\<rparr>)"
  have a1: "act ?s1 = ?a" by (simp add: act_defs)
  show ?thesis
  proof (cases "nWrkr ?a = int (length ?t)")
    case full: True
    with assms have "length (filter (\<lambda>x. x \<noteq> None) ?t) = length ?t" by (simp only: table_ok_def of_nat_eq_iff)
    then have "\<forall>x \<in> set ?t. x \<noteq> None" by (simp only: filter_full)
    then have none: "None \<notin> set ?t" by blast
    obtain ok m2 where m: "mallocOK E m1 = (ok, m2)" by fastforce
    show ?thesis
    proof (cases ok)
      case False
      with True c full m assms show ?thesis
        by (auto simp: actionCheckAndCreateWrkrInstance_def Let_def act_defs)
    next
      case ok: True
      let ?a2 = "?a\<lparr>wrkrDataTable := ?t @ [Some p], nWrkr := nWrkr ?a + 1\<rparr>"
      have "actionCheckAndCreateWrkrInstance E s = Some (RS_RET_OK, ?s1\<lparr>ext := m2, act := ?a2\<rparr>)"
        using True c full m ok freeSpot_full [OF none]
        by (simp add: actionCheckAndCreateWrkrInstance_def Let_def act_defs)
      moreover have "table_ok ?a2" using assms by (simp add: table_ok_def)
      ultimately show ?thesis by (simp add: nth_append)
    qed
  next
    case room: False
    have "None \<in> set ?t"
    proof (rule ccontr)
      assume "None \<notin> set ?t"
      then have "\<forall>x \<in> set ?t. x \<noteq> None" by metis
      then have "filter (\<lambda>x. x \<noteq> None) ?t = ?t" by (rule filter_True)
      with assms have "nWrkr ?a = int (length ?t)" by (simp only: table_ok_def)
      with room show False by simp
    qed
    then have f: "freeSpot ?t < length ?t" "?t ! freeSpot ?t = None" by (simp_all add: freeSpot_free)
    let ?a2 = "?a\<lparr>wrkrDataTable := ?t[freeSpot ?t := Some p], nWrkr := nWrkr ?a + 1\<rparr>"
    have "actionCheckAndCreateWrkrInstance E s = Some (RS_RET_OK, ?s1\<lparr>ext := m1, act := ?a2\<rparr>)"
      using True c room f(1)
      by (simp add: actionCheckAndCreateWrkrInstance_def Let_def act_defs)
    moreover have "table_ok ?a2" using assms filter_update_used [OF f, of p] by (simp add: table_ok_def)
    moreover have "?t[freeSpot ?t := Some p] ! i = ?t ! i" if "?t ! i \<noteq> None" for i
      using f that by (cases "i = freeSpot ?t") auto
    ultimately show ?thesis by simp
  qed
qed

theorem create_worker_table_ok_witness:
  "\<exists>r s'. actionCheckAndCreateWrkrInstance (env_ex RS_RET_OK RS_RET_OK RS_RET_OK) (st_ex ACT_STATE_RDY) = Some (r, s') \<and>
    table_ok (act s') \<and>
    (\<forall>i < length (wrkrDataTable (act (st_ex ACT_STATE_RDY))).
       wrkrDataTable (act (st_ex ACT_STATE_RDY)) ! i \<noteq> None \<longrightarrow>
       wrkrDataTable (act s') ! i = wrkrDataTable (act (st_ex ACT_STATE_RDY)) ! i)"
  by (rule create_worker_table_ok) (simp add: table_ok_def st_ex_def act_ex_def)

lemma tryCommit_begin_suspended:
  assumes "\<forall>m. tryResume E m = (RS_RET_OK, m)" and "\<forall>m. beginTransaction E m = (RS_RET_SUSPENDED, m)"
    and "\<forall>m. ShutdownImmediate E m = (False, m)"
    and "actWrkrData (wi s) \<noteq> None" and "getActionState s \<in> {ACT_STATE_RDY, ACT_STATE_RTRY}"
    and "uResumeOKinRow (wi s) = 0"
  shows "\<exists>s1. actionTryCommit E ps n s = Some (RS_RET_SUSPENDED, s1) \<and>
    actWrkrData (wi s1) \<noteq> None \<and> getActionState s1 = ACT_STATE_RTRY \<and>
    iNumTpls (act s1) = iNumTpls (act s) \<and> iparams (wi s1) = iparams (wi s)"
proof -
  have "\<exists>s0. actionTryResume E s = Some (RS_RET_OK, s0) \<and> getActionState s0 = ACT_STATE_RDY \<and>
      actWrkrData (wi s0) \<noteq> None \<and> act s0 = act s \<and> iparams (wi s0) = iparams (wi s)"
  proof (cases "getActionState s = ACT_STATE_RDY")
    case True
    with assms(4) show ?thesis by (simp add: actionTryResume_def)
  next
    case False
    with assms(5) have st: "getActionState s = ACT_STATE_RTRY" by simp
    have "retryLoop E 0 RS_RET_OK s = retryLoop E 0 RS_RET_OK (actionSetState ACT_STATE_RDY s)"
      by (rule retryLoop_go) (use st assms(1,3,6) in \<open>simp_all add: retryStep_def Let_def\<close>)
    also have "\<dots> = Some (RS_RET_OK, False, actionSetState ACT_STATE_RDY s)"
      using assms(3) by (subst retryLoop_done) (simp_all add: act_defs)
    finally show ?thesis using st assms(4)
      by (simp add: actionTryResume_def actionDoRetry_def act_defs)
  qed
  then obtain s0 where s0: "actionTryResume E s = Some (RS_RET_OK, s0)" "getActionState s0 = ACT_STATE_RDY"
    "actWrkrData (wi s0) \<noteq> None" "act s0 = act s" "iparams (wi s0) = iparams (wi s)" by blast
  then have "actionTryCommit E ps n s = Some (RS_RET_SUSPENDED, actionRetry E s0)"
    using assms(2,4) by (simp add: actionTryCommit_def actionPrepare_def
        actionCheckAndCreateWrkrInstance_def Let_def)
  with s0 show ?thesis
    by (auto simp: actionRetry_def act_defs Let_def setSuspendMessageConfVars_def)
qed

text \<open>
  Sorting out a failed batch corrupts the messages that are to be retried when an action
  has more than one template: of two messages with two parameters each, both failing
  temporarily, the second is copied over the last parameter of the first, so the retry sends
  parameters of both messages as the first one and an unwritten cell as the end of the second.
\<close>

theorem retried_parameters_overwritten:
  assumes "\<forall>m. tryResume E m = (RS_RET_OK, m)" and "\<forall>m. beginTransaction E m = (RS_RET_SUSPENDED, m)"
    and "\<forall>m. ShutdownImmediate E m = (False, m)"
    and "actWrkrData (wi s) \<noteq> None" and "getActionState s \<in> {ACT_STATE_RDY, ACT_STATE_RTRY}"
    and "iNumTpls (act s) = 2" and "currIParam (wi s) = 2"
    and "iparams (wi s) = [Some a0, Some a1, Some b0, Some b1]"
  shows "\<exists>s'. actionTryRemoveHardErrorsFromBatch E (replicate 4 None) s =
    Some ([Some a0, Some b0, Some b1, None], 2, s')"
proof -
  let ?s0 = "setActionResumeInRow 0 s"
  have p0: "actWrkrData (wi ?s0) \<noteq> None" "getActionState ?s0 \<in> {ACT_STATE_RDY, ACT_STATE_RTRY}"
    "uResumeOKinRow (wi ?s0) = 0" using assms(4,5) by (simp_all add: act_defs)
  from tryCommit_begin_suspended [OF assms(1-3) p0, of "[Some a0, Some a1]" 1] obtain s1 where
    s1: "actionTryCommit E [Some a0, Some a1] 1 ?s0 = Some (RS_RET_SUSPENDED, s1)"
      "actWrkrData (wi s1) \<noteq> None" "getActionState s1 = ACT_STATE_RTRY"
      "iNumTpls (act s1) = iNumTpls (act ?s0)" "iparams (wi s1) = iparams (wi ?s0)" by blast
  let ?s1 = "setActionResumeInRow 0 s1"
  have p1: "actWrkrData (wi ?s1) \<noteq> None" "getActionState ?s1 \<in> {ACT_STATE_RDY, ACT_STATE_RTRY}"
    "uResumeOKinRow (wi ?s1) = 0" using s1(2,3) by (simp_all add: act_defs)
  from tryCommit_begin_suspended [OF assms(1-3) p1, of "[Some b0, Some b1]" 1] obtain s2 where
    s2: "actionTryCommit E [Some b0, Some b1] 1 ?s1 = Some (RS_RET_SUSPENDED, s2)" by blast
  have f0: "iNumTpls (act ?s0) = 2" "iparams (wi ?s0) = [Some a0, Some a1, Some b0, Some b1]"
    using assms(6,8) by (simp_all add: act_defs)
  have f1: "iNumTpls (act ?s1) = 2" "iparams (wi ?s1) = [Some a0, Some a1, Some b0, Some b1]"
    using s1(4,5) f0 by (simp_all add: act_defs)
  have four: "replicate 4 None = [None, None, None, None :: 'a option]" by (simp add: numeral_eq_Suc)
  have "removeHardErrors E [0, Suc 0] (replicate 4 None) 0 s = Some ([Some a0, Some b0, Some b1, None], 2, s2)"
    using s1(1) s2 f0 f1 by (simp add: four actParams_at_def memcpy_at_def Let_def)
  moreover have "[0..<currIParam (wi s)] = [0, Suc 0]" using assms(7) by (simp add: upt_rec)
  ultimately show ?thesis by (simp add: actionTryRemoveHardErrorsFromBatch_def)
qed

theorem retried_parameters_overwritten_witness:
  "\<exists>s'. actionTryRemoveHardErrorsFromBatch (env_ex RS_RET_OK RS_RET_SUSPENDED RS_RET_OK) (replicate 4 None)
     (st_ex ACT_STATE_RDY\<lparr>act := act_ex\<lparr>iNumTpls := 2\<rparr>,
        wi := (wi (st_ex ACT_STATE_RDY))\<lparr>currIParam := 2, iparams := [Some 10, Some 11, Some 20, Some 21]\<rparr>\<rparr>) =
    Some ([Some 10, Some 20, Some 21, None], 2, s')"
  by (rule retried_parameters_overwritten)
    (simp_all add: env_ex_def st_ex_def act_ex_def getActionState_def)

end
