(* ===== verification/WorkerTurn.thy ===== *)
theory WorkerTurn
  imports BatchRefs Action
begin

text \<open>
  The contract a consumer has to keep towards the queue, and the action engine
  (\<open>processBatchMain\<close> of action.c) as a consumer that keeps it.
\<close>

section \<open>The contract of a consumer\<close>

text \<open>What a consumer leaves as it is: everything but the states of the elements.\<close>

definition batch_kept :: "batch \<Rightarrow> batch \<Rightarrow> bool" where
  "batch_kept b b' \<longleftrightarrow> nElem b' = nElem b \<and> nElemDeq b' = nElemDeq b \<and> deqID b' = deqID b \<and>
     pElem b' = pElem b \<and> length (eltState b') = length (eltState b)"

lemma batch_kept_refl [simp]: "batch_kept b b"
  by (simp add: batch_kept_def)

lemma batch_kept_trans: "batch_kept b b1 \<Longrightarrow> batch_kept b1 b2 \<Longrightarrow> batch_kept b b2"
  by (simp add: batch_kept_def)

lemma batch_kept_holds: "batch_kept b b' \<Longrightarrow> batch_holds b ms \<Longrightarrow> batch_holds b' ms"
  by (simp add: batch_kept_def batch_holds_def)

lemma batch_kept_arrays: "batch_kept b b' \<Longrightarrow> batch_arrays bs b \<Longrightarrow> batch_arrays bs b'"
  by (simp add: batch_kept_def batch_arrays_def)

locale batch_consumer =
  fixes consume :: "batch \<Rightarrow> 'c \<Rightarrow> (rsRetVal \<times> batch \<times> 'c) option"
  assumes consume_kept: "consume b c = Some (r, b', c') \<Longrightarrow> batch_kept b b'"
begin

lemma consume_holds:
  "consume b c = Some (r, b', c') \<Longrightarrow> batch_holds b ms \<Longrightarrow> batch_arrays bs b \<Longrightarrow>
   batch_holds b' ms \<and> batch_arrays bs b'"
  using consume_kept batch_kept_holds batch_kept_arrays by blast

end

section \<open>The action engine keeps it\<close>

lemma setElemState_kept: "batchSetElemState b i st = Some b' \<Longrightarrow> batch_kept b b'"
  by (auto simp: batchSetElemState_def batch_kept_def split: bind_splits if_splits)

lemma batchLoop_kept: "batchLoop E is b s = Some (b', s') \<Longrightarrow> batch_kept b b'"
proof (induction "is" arbitrary: b s)
  case Nil
  then show ?case by simp
next
  case (Cons i js)
  then show ?case
    by (auto simp: Let_def split: prod.splits if_splits bind_splits
      intro: batch_kept_trans [OF setElemState_kept])
qed

lemma processBatchMain_kept: "processBatchMain E b s = Some (r, b', s') \<Longrightarrow> batch_kept b b'"
  by (auto simp: processBatchMain_def split: bind_splits dest: batchLoop_kept)

interpretation ac: batch_consumer "processBatchMain E" for E
  by unfold_locales (rule processBatchMain_kept)

end
