(* ===== verification/PipePhases.thy ===== *)
theory PipePhases
  imports WorkerTurn
begin

text \<open>
  A worker's turn (\<open>DeleteProcessedBatch\<close> and \<open>DequeueConsumableElements\<close> of runtime/queue.c)
  cut into its elements and at its waits, and the lemmas that say that the pieces are the turn.
\<close>

section \<open>One element of the processed batch\<close>

text \<open>
  \<open>Processed n r w\<close>: the element is dealt with, \<open>n\<close> messages were enqueued again with the
  result \<open>r\<close>; \<open>Asleep st w\<close>: its re-enqueue waits at \<open>st\<close>.
\<close>

datatype 's elem_state = Asleep stage "'s qworld" | Processed nat rsRetVal "'s qworld"

definition elemEnd :: "msgptr \<Rightarrow> 's enq_state \<Rightarrow> 's elem_state option" where
  "elemEnd pMsg s =
     (case s of
        Blocked st w \<Rightarrow> Some (Asleep st w)
      | Ended r w \<Rightarrow> do { h2 \<leftarrow> msgDestruct (snd w) pMsg; Some (Processed 1 r (fst w, h2)) })"

definition elemStart :: "'s qdriver \<Rightarrow> bool \<Rightarrow> bool \<Rightarrow> batch \<Rightarrow> nat \<Rightarrow> 's qworld \<Rightarrow> 's elem_state option" where
  "elemStart drv memOK trm b i w =
     do {
       cell \<leftarrow> c_get (pElem b) i;
       pMsg \<leftarrow> cell;
       st \<leftarrow> c_get (eltState b) i;
       if st = BATCH_STATE_RDY \<or> st = BATCH_STATE_SUB
       then do {
         h1 \<leftarrow> MsgAddRef (snd w) pMsg;
         s \<leftarrow> enqStart drv memOK trm eFLOWCTL_NO_DELAY (fst w, h1) pMsg;
         elemEnd pMsg s
       }
       else do { h2 \<leftarrow> msgDestruct (snd w) pMsg; Some (Processed 0 RS_RET_OK (fst w, h2)) }
     }"

definition elemWake :: "'s qdriver \<Rightarrow> bool \<Rightarrow> stage \<Rightarrow> cond_result \<Rightarrow> bool \<Rightarrow> batch \<Rightarrow> nat \<Rightarrow> 's qworld \<Rightarrow> 's elem_state option" where
  "elemWake drv memOK st ret trm b i w =
     do {
       cell \<leftarrow> c_get (pElem b) i;
       pMsg \<leftarrow> cell;
       s \<leftarrow> enqWake drv memOK st ret trm w pMsg;
       elemEnd pMsg s
     }"

fun elemRun :: "'s qdriver \<Rightarrow> bool \<Rightarrow> batch \<Rightarrow> nat \<Rightarrow> 's wait_event list \<Rightarrow> 's elem_state \<Rightarrow>
    (nat \<times> 's qworld) progress option" where
  "elemRun drv memOK b i ws (Processed n r w) = Some (Done (n, w))"
| "elemRun drv memOK b i [] (Asleep st w) = Some Waiting"
| "elemRun drv memOK b i (e # ws) (Asleep st w) =
     do {
       s \<leftarrow> elemWake drv memOK st (wret e) (wterm e) b i (wothers e w);
       elemRun drv memOK b i ws s
     }"

lemma elemEnd_Blocked [simp]: "elemEnd m (Blocked st w) = Some (Asleep st w)"
  by (simp add: elemEnd_def)

lemma elemRun_phases:
  assumes "c_get (pElem b) i = Some (Some m)"
  shows "do { es \<leftarrow> elemEnd m s; elemRun drv ok b i ws es } =
    do {
      p \<leftarrow> enqRun drv ok m ws s;
      (case p of
         Waiting \<Rightarrow> Some Waiting
       | Done (r, w1) \<Rightarrow> do { h2 \<leftarrow> msgDestruct (snd w1) m; Some (Done (1, (fst w1, h2))) })
    }"
proof (induction ws arbitrary: s)
  case Nil
  show ?case
  proof (cases s)
    case (Ended r w)
    then show ?thesis by (cases "msgDestruct (snd w) m") (simp_all add: elemEnd_def)
  qed (simp add: elemEnd_def)
next
  case (Cons e es)
  show ?case
  proof (cases s)
    case (Ended r w)
    then show ?thesis by (cases "msgDestruct (snd w) m") (simp_all add: elemEnd_def)
  next
    case (Blocked st w)
    with Cons.IH assms show ?thesis
      by (cases "enqWake drv ok st (wret e) (wterm e) (wothers e w) m")
        (simp_all add: elemWake_def)
  qed
qed

lemma dpbLoop_phases:
  assumes "env i = (ok, ws, trm)"
  shows "dpbLoop drv env b (i # is) n w =
    do {
      s \<leftarrow> elemStart drv ok trm b i w;
      p \<leftarrow> elemRun drv ok b i ws s;
      (case p of Waiting \<Rightarrow> Some Waiting | Done (c, w1) \<Rightarrow> dpbLoop drv env b is (n + c) w1)
    }"
proof -
  consider "c_get (pElem b) i = None" | "c_get (pElem b) i = Some None"
    | m where "c_get (pElem b) i = Some (Some m)" "c_get (eltState b) i = None"
    | m st where "c_get (pElem b) i = Some (Some m)" "c_get (eltState b) i = Some st"
    by (cases "c_get (pElem b) i"; cases "c_get (eltState b) i"; cases "the (c_get (pElem b) i)") auto
  then show ?thesis
  proof cases
    case (4 m st)
    show ?thesis
    proof (cases "st = BATCH_STATE_RDY \<or> st = BATCH_STATE_SUB")
      case False
      with 4 show ?thesis by (cases "msgDestruct (snd w) m") (simp_all add: elemStart_def)
    next
      case True
      show ?thesis
      proof (cases "MsgAddRef (snd w) m")
        case None
        with True 4 show ?thesis by (simp add: elemStart_def)
      next
        case (Some h1)
        show ?thesis
        proof (cases "enqStart drv ok trm eFLOWCTL_NO_DELAY (fst w, h1) m")
          case None
          with Some True 4 assms show ?thesis by (simp add: elemStart_def doEnqSingleObj_phases)
        next
          case s: (Some s)
          from elemRun_phases [OF 4(1), of s drv ok ws] Some s True 4 assms show ?thesis
            by (cases "enqRun drv ok m ws s")
              (auto simp: elemStart_def doEnqSingleObj_phases split: progress.splits bind_splits)
        qed
      qed
    qed
  qed (simp_all add: elemStart_def)
qed

section \<open>The end of a turn\<close>

text \<open>All elements dealt with, \<open>n\<close> of them enqueued again: delete the batch, dequeue the next.\<close>

definition turnEnd :: "'s qdriver \<Rightarrow> bool \<Rightarrow> nat \<Rightarrow> 's qworld \<Rightarrow> batch \<Rightarrow> (rsRetVal \<times> int \<times> 's qworld \<times> batch) option" where
  "turnEnd drv memOK n w b =
     do {
       let q2 = (if n > 0 then qqueueChkPersist (fst w) (int n) else fst w);
       (r0, q3) \<leftarrow> DeleteBatchFromQStore drv memOK q2 b;
       (r, nDequeued, nDiscarded, sz, w2, b2) \<leftarrow> deqLoop drv 0 0 (q3, snd w) (b\<lparr>nElem := 0, nElemDeq := 0\<rparr>);
       if r \<noteq> RS_RET_OK then Some (r, 0, w2, b2)
       else (let q3 = qqueueChkPersist (fst w2) (int (nDequeued + nDiscarded + nElemDeq b));
                 (i, q4) = getNextDeqID q3
             in Some (RS_RET_OK, sz, (q4, snd w2),
                  b2\<lparr>nElem := nDequeued, nElemDeq := nDequeued + nDiscarded, deqID := i\<rparr>))
     }"

lemma DequeueConsumableElements_phases:
  "DequeueConsumableElements drv env ok w b =
     do {
       p \<leftarrow> dpbLoop drv env b [0..<nElem b] 0 w;
       (case p of
          Waiting \<Rightarrow> Some Waiting
        | Done (n, w1) \<Rightarrow> do { x \<leftarrow> turnEnd drv ok n w1 b; Some (Done x) })
     }"
proof (cases "dpbLoop drv env b [0..<nElem b] 0 w")
  case (Some p)
  show ?thesis
  proof (cases p)
    case Waiting
    with Some show ?thesis by (simp add: DequeueConsumableElements_def DeleteProcessedBatch_def)
  next
    case (Done x)
    obtain n q1 h1 where x: "x = (n, q1, h1)" by (cases x) auto
    let ?q2 = "if n > 0 then qqueueChkPersist q1 (int n) else q1"
    show ?thesis
    proof (cases "DeleteBatchFromQStore drv ok ?q2 b")
      case None
      with Some Done x show ?thesis
        by (cases "n > 0") (simp_all add: DequeueConsumableElements_def DeleteProcessedBatch_def turnEnd_def Let_def)
    next
      case d: (Some y)
      obtain r0 q3 where y: "y = (r0, q3)" by (cases y)
      show ?thesis
      proof (cases "deqLoop drv 0 0 (q3, h1) (b\<lparr>nElem := 0, nElemDeq := 0\<rparr>)")
        case None
        with Some Done x d y show ?thesis
          by (cases "n > 0") (simp_all add: DequeueConsumableElements_def DeleteProcessedBatch_def turnEnd_def Let_def)
      next
        case l: (Some z)
        obtain r nd nc sz w2 b2 where z: "z = (r, nd, nc, sz, w2, b2)" by (cases z) auto
        with Some Done x d y l show ?thesis
          by (cases "n > 0")
            (simp_all add: DequeueConsumableElements_def DeleteProcessedBatch_def turnEnd_def Let_def getNextDeqID_def)
      qed
    qed
  qed
qed (simp add: DequeueConsumableElements_def DeleteProcessedBatch_def)

section \<open>What the pieces keep\<close>

text \<open>A re-enqueue cut off by input termination or a failed allocation leaves its reference.\<close>

definition cut_off :: "rsRetVal \<Rightarrow> msgptr \<Rightarrow> msgptr multiset" where
  "cut_off r m = (if r = RS_RET_FORCE_TERM \<or> r = RS_RET_OUT_OF_MEMORY then {#m#} else {#})"

fun elem_ok :: "(int \<Rightarrow> 's \<Rightarrow> msgptr list \<Rightarrow> nat \<Rightarrow> bool) \<Rightarrow> nat \<Rightarrow> nat \<Rightarrow> msgptr multiset \<Rightarrow>
    msgptr \<Rightarrow> 's elem_state \<Rightarrow> bool" where
  "elem_ok rep bs d own m (Asleep st w) = world_ok rep bs d (add_mset m (add_mset m own)) w"
| "elem_ok rep bs d own m (Processed n r w) = world_ok rep bs d (cut_off r m + own) w"

context queue_driver
begin

lemma elemEnd_ok:
  assumes "phase_ok rep bs d (add_mset m own) ok m s"
  shows "\<exists>es. elemEnd m s = Some es \<and> elem_ok rep bs d own m es"
proof (cases s)
  case (Blocked st w)
  with assms show ?thesis by (simp add: elemEnd_def)
next
  case (Ended r w)
  obtain q h where w: "w = (q, h)" by (cases w)
  from assms Ended have "enq_result rep bs d (add_mset m own) ok m r w" by simp
  from enq_result_ok [OF this] have "world_ok rep bs d (add_mset m (cut_off r m + own)) (q, h)"
    unfolding w cut_off_def by (auto split: if_splits)
  from world_ok_destruct [OF this] Ended w show ?thesis by (auto simp: elemEnd_def)
qed

lemma elemStart_ok:
  assumes "batch_holds b ms" and "i < length ms" and "world_ok rep bs d (add_mset (ms ! i) own) w"
  shows "\<exists>es. elemStart drv ok trm b i w = Some es \<and> elem_ok rep bs d own (ms ! i) es"
proof -
  obtain q h where w: "w = (q, h)" by (cases w)
  have cell: "c_get (pElem b) i = Some (Some (ms ! i))" and st: "c_get (eltState b) i = Some (eltState b ! i)"
    using assms(1,2) by (auto simp: batch_holds_def)
  show ?thesis
  proof (cases "eltState b ! i = BATCH_STATE_RDY \<or> eltState b ! i = BATCH_STATE_SUB")
    case False
    from world_ok_destruct [OF assms(3) [unfolded w]] False cell st w show ?thesis
      by (auto simp: elemStart_def cut_off_def)
  next
    case True
    from world_ok_addref [OF assms(3) [unfolded w]] obtain h1 where
      h1: "MsgAddRef h (ms ! i) = Some h1" "world_ok rep bs d (add_mset (ms ! i) (add_mset (ms ! i) own)) (q, h1)" by blast
    from enqStart_ok [OF h1(2), of ok trm eFLOWCTL_NO_DELAY] obtain s where
      s: "enqStart drv ok trm eFLOWCTL_NO_DELAY (q, h1) (ms ! i) = Some s"
        "phase_ok rep bs d (add_mset (ms ! i) own) ok (ms ! i) s" by blast
    from elemEnd_ok [OF s(2)] True cell st w h1(1) s(1) show ?thesis by (simp add: elemStart_def)
  qed
qed

lemma elemWake_ok:
  assumes "batch_holds b ms" and "i < length ms"
    and "world_ok rep bs d (add_mset (ms ! i) (add_mset (ms ! i) own)) w"
  shows "\<exists>es. elemWake drv ok st ret trm b i w = Some es \<and> elem_ok rep bs d own (ms ! i) es"
proof -
  have cell: "c_get (pElem b) i = Some (Some (ms ! i))" using assms(1,2) by (auto simp: batch_holds_def)
  from enqWake_ok [OF assms(3), of ok st ret trm] obtain s where
    s: "enqWake drv ok st ret trm w (ms ! i) = Some s" "phase_ok rep bs d (add_mset (ms ! i) own) ok (ms ! i) s" by blast
  from elemEnd_ok [OF s(2)] cell s(1) show ?thesis by (simp add: elemWake_def)
qed

lemma turnEnd_ok:
  assumes "batch_arrays bs b" and "world_ok rep bs (nElem b + d) own w"
  shows "\<exists>r sz w' b' ms'. turnEnd drv ok n w b = Some (r, sz, w', b') \<and>
    batch_holds b' ms' \<and> batch_arrays bs b' \<and> world_ok rep bs (length ms' + d) (mset ms' + own) w'"
proof -
  obtain q h where w: "w = (q, h)" by (cases w)
  let ?q2 = "if n > 0 then qqueueChkPersist q (int n) else q"
  have "world_ok rep bs (nElem b + d) own (?q2, h)" using assms(2) w by simp
  from DeleteBatch_ok [OF this, of ok] obtain q3 where
    d: "DeleteBatchFromQStore drv ok ?q2 b = Some (RS_RET_OK, q3)" "world_ok rep bs d own (q3, h)" by blast
  have "batch_arrays bs (b\<lparr>nElem := 0, nElemDeq := 0\<rparr>)" using assms(1) by (simp add: batch_arrays_def)
  from deqLoop_world [OF d(2) this] obtain t c sz q4 h4 b' where
    l: "deqLoop drv 0 0 (q3, h) (b\<lparr>nElem := 0, nElemDeq := 0\<rparr>) = Some (RS_RET_OK, length t, c, sz, (q4, h4), b')"
    "world_ok rep bs (length t + d) (mset t + own) (q4, h4)" "batch_arrays bs b'" "length t \<le> length (pElem b')"
    "\<forall>i < length t. pElem b' ! i = Some (t ! i)" by force
  let ?q5 = "qqueueChkPersist q4 (int (length t + c + nElemDeq b))"
  let ?b2 = "b'\<lparr>nElem := length t, nElemDeq := length t + c, deqID := deqIDAdd ?q5\<rparr>"
  have "turnEnd drv ok n w b = Some (RS_RET_OK, sz, (?q5\<lparr>deqIDAdd := deqIDAdd ?q5 + 1\<rparr>, h4), ?b2)"
    using d(1) l(1) w by (cases "n > 0") (simp_all add: turnEnd_def getNextDeqID_def Let_def)
  moreover have "batch_holds ?b2 t" "batch_arrays bs ?b2"
    using l(3-5) by (simp_all add: batch_holds_def batch_arrays_def)
  moreover have "world_ok rep bs (length t + d) (mset t + own) (?q5\<lparr>deqIDAdd := deqIDAdd ?q5 + 1\<rparr>, h4)"
    using l(2) by simp
  ultimately show ?thesis by blast
qed

end

end
