(* ===== verification/Pipeline.thy ===== *)
theory Pipeline
  imports PipePhases
begin

text \<open>
  The queue with everything around it as one state machine: inputs that create, share, release
  and enqueue messages and any number of workers, each with its batch and its consumer. A step is
  what a thread does between two waits: a call that sleeps is a part of the state, and every other
  thread may step before it goes on. (The machine interleaves the elements of a batch too, which
  the mutex rules out: it has more behaviours than the program, not fewer.)
\<close>

section \<open>The state machine\<close>

text \<open>
  The phases of a worker: it has a batch for its consumer, or it deletes the processed batch and is
  at element \<open>j\<close> with \<open>n\<close> messages enqueued again, or it sleeps while it enqueues element \<open>j\<close>.
\<close>

datatype wphase = Consuming | Deleting nat nat | Retrying nat nat stage

record 'c worker =
  wkBatch :: batch
  wkState :: 'c
  wkPhase :: wphase

text \<open>
  \<open>sleepers\<close> are the enqueue calls asleep, each with its message. \<open>leaked\<close> collects the references
  a cut-off re-enqueue leaves behind: \<open>DeleteProcessedBatch\<close> does not release them.
\<close>

record ('s, 'c) pipe =
  pipeQ :: "'s qqueue"
  pipeH :: msgheap
  inputs :: "msgptr multiset"          \<comment> \<open>references inputs hold\<close>
  sleepers :: "(msgptr \<times> stage) multiset"
  workers :: "'c worker list"
  leaked :: "msgptr multiset"

definition batch_msgs :: "batch \<Rightarrow> msgptr list" where
  "batch_msgs b = map the (take (nElem b) (pElem b))"

text \<open>What a phase of an enqueue does to the machine; the call already has the input's reference.\<close>

definition after_enq :: "('s, 'c) pipe \<Rightarrow> msgptr \<Rightarrow> 's enq_state \<Rightarrow> ('s, 'c) pipe" where
  "after_enq c p s =
     (case s of
        Blocked st w \<Rightarrow> c\<lparr>pipeQ := fst w, pipeH := snd w, sleepers := add_mset (p, st) (sleepers c)\<rparr>
      | Ended r w \<Rightarrow> c\<lparr>pipeQ := (if r = RS_RET_OK then qqueueChkPersist (fst w) 1 else fst w), pipeH := snd w,
          inputs := (if r = RS_RET_OK \<or> r = RS_RET_QUEUE_FULL then inputs c else add_mset p (inputs c))\<rparr>)"

definition after_elem :: "('s, 'c) pipe \<Rightarrow> nat \<Rightarrow> nat \<Rightarrow> nat \<Rightarrow> 's elem_state \<Rightarrow> ('s, 'c) pipe" where
  "after_elem c i j n es =
     (let wk = workers c ! i
      in case es of
           Asleep st w \<Rightarrow> c\<lparr>pipeQ := fst w, pipeH := snd w,
             workers := (workers c)[i := wk\<lparr>wkPhase := Retrying j n st\<rparr>]\<rparr>
         | Processed m r w \<Rightarrow> c\<lparr>pipeQ := fst w, pipeH := snd w,
             workers := (workers c)[i := wk\<lparr>wkPhase := Deleting (Suc j) (n + m)\<rparr>],
             leaked := cut_off r (batch_msgs (wkBatch wk) ! j) + leaked c\<rparr>)"

inductive pipe_step :: "'s qdriver \<Rightarrow> (batch \<Rightarrow> 'c \<Rightarrow> (rsRetVal \<times> batch \<times> 'c) option) \<Rightarrow>
    ('s, 'c) pipe \<Rightarrow> ('s, 'c) pipe \<Rightarrow> bool"
  for drv consume where
  receive: "pipeH c p = None \<Longrightarrow> iRefCount m = 1 \<Longrightarrow>
    pipe_step drv consume c (c\<lparr>pipeH := (pipeH c)(p \<mapsto> m), inputs := add_mset p (inputs c)\<rparr>)"
| share: "p \<in># inputs c \<Longrightarrow> MsgAddRef (pipeH c) p = Some h \<Longrightarrow>
    pipe_step drv consume c (c\<lparr>pipeH := h, inputs := add_mset p (inputs c)\<rparr>)"
| release: "p \<in># inputs c \<Longrightarrow> msgDestruct (pipeH c) p = Some h \<Longrightarrow>
    pipe_step drv consume c (c\<lparr>pipeH := h, inputs := inputs c - {#p#}\<rparr>)"
| enqueue: "p \<in># inputs c \<Longrightarrow> enqStart drv ok trm fc (pipeQ c, pipeH c) p = Some s \<Longrightarrow>
    pipe_step drv consume c (after_enq (c\<lparr>inputs := inputs c - {#p#}\<rparr>) p s)"
| wake: "(p, st) \<in># sleepers c \<Longrightarrow> enqWake drv ok st ret trm (pipeQ c, pipeH c) p = Some s \<Longrightarrow>
    pipe_step drv consume c (after_enq (c\<lparr>sleepers := sleepers c - {#(p, st)#}\<rparr>) p s)"
| turn: "i < length (workers c) \<Longrightarrow> wkPhase (workers c ! i) = Consuming \<Longrightarrow>
    pipe_step drv consume c (c\<lparr>workers := (workers c)[i := (workers c ! i)\<lparr>wkPhase := Deleting 0 0\<rparr>]\<rparr>)"
| element: "i < length (workers c) \<Longrightarrow> wkPhase (workers c ! i) = Deleting j n \<Longrightarrow>
    j < nElem (wkBatch (workers c ! i)) \<Longrightarrow>
    elemStart drv ok trm (wkBatch (workers c ! i)) j (pipeQ c, pipeH c) = Some es \<Longrightarrow>
    pipe_step drv consume c (after_elem c i j n es)"
| element_wake: "i < length (workers c) \<Longrightarrow> wkPhase (workers c ! i) = Retrying j n st \<Longrightarrow>
    elemWake drv ok st ret trm (wkBatch (workers c ! i)) j (pipeQ c, pipeH c) = Some es \<Longrightarrow>
    pipe_step drv consume c (after_elem c i j n es)"
| finish: "i < length (workers c) \<Longrightarrow> wkPhase (workers c ! i) = Deleting (nElem (wkBatch (workers c ! i))) n \<Longrightarrow>
    turnEnd drv ok n (pipeQ c, pipeH c) (wkBatch (workers c ! i)) = Some (r, sz, (q', h'), b') \<Longrightarrow>
    pipe_step drv consume c (c\<lparr>pipeQ := q', pipeH := h',
      workers := (workers c)[i := (workers c ! i)\<lparr>wkBatch := b', wkPhase := Consuming\<rparr>]\<rparr>)"
| consume: "i < length (workers c) \<Longrightarrow> wkPhase (workers c ! i) = Consuming \<Longrightarrow>
    consume (wkBatch (workers c ! i)) (wkState (workers c ! i)) = Some (r, b', a') \<Longrightarrow>
    pipe_step drv consume c (c\<lparr>workers :=
      (workers c)[i := (workers c ! i)\<lparr>wkBatch := b', wkState := a'\<rparr>]\<rparr>)"

text \<open>
  The start: a queue made by the constructor, its parameters set, and started; no messages, workers
  with empty batches whose arrays have room for \<open>bs\<close> elements.
\<close>

definition queue_started :: "'s qdriver \<Rightarrow> 's qqueue \<Rightarrow> bool" where
  "queue_started drv q \<longleftrightarrow>
     (\<exists>cnt gs (t :: 's) qt nw mx q0 q1 ok.
        qqueueConstruct True cnt gs t qt nw mx = (RS_RET_OK, Some q0) \<and>
        iQueueSize q1 = iQueueSize q0 \<and> nLogDeq q1 = nLogDeq q0 \<and> toDeleteLst q1 = toDeleteLst q0 \<and>
        qType q1 \<in> {QUEUETYPE_FIXED_ARRAY, QUEUETYPE_LINKEDLIST} \<and> 0 \<le> iMaxQueueSize q1 \<and>
        qqueueStart drv ok q1 = Some (RS_RET_OK, q))"

definition pipe_init :: "'s qdriver \<Rightarrow> nat \<Rightarrow> ('s, 'c) pipe \<Rightarrow> bool" where
  "pipe_init drv bs c \<longleftrightarrow> queue_started drv (pipeQ c) \<and> iDeqBatchSize (pipeQ c) \<le> int bs \<and>
     pipeH c = Map.empty \<and> inputs c = {#} \<and> sleepers c = {#} \<and> leaked c = {#} \<and>
     (\<forall>wk \<in> set (workers c). batch_arrays bs (wkBatch wk) \<and> nElem (wkBatch wk) = 0 \<and> wkPhase wk = Consuming)"

inductive reachable :: "'s qdriver \<Rightarrow> nat \<Rightarrow> (batch \<Rightarrow> 'c \<Rightarrow> (rsRetVal \<times> batch \<times> 'c) option) \<Rightarrow>
    ('s, 'c) pipe \<Rightarrow> bool"
  for drv bs consume where
  start: "pipe_init drv bs c \<Longrightarrow> reachable drv bs consume c"
| step: "reachable drv bs consume c \<Longrightarrow> pipe_step drv consume c c' \<Longrightarrow> reachable drv bs consume c'"

section \<open>What the machine promises\<close>

text \<open>Every operation a thread can be about to do is defined, whatever it meets.\<close>

definition worker_defined :: "'s qdriver \<Rightarrow> 's qworld \<Rightarrow> 'c worker \<Rightarrow> bool" where
  "worker_defined drv w wk \<longleftrightarrow>
     (case wkPhase wk of
        Consuming \<Rightarrow> True
      | Deleting j n \<Rightarrow>
          (if j < nElem (wkBatch wk) then \<forall>ok trm. elemStart drv ok trm (wkBatch wk) j w \<noteq> None
           else j = nElem (wkBatch wk) \<and> (\<forall>ok. turnEnd drv ok n w (wkBatch wk) \<noteq> None))
      | Retrying j n st \<Rightarrow> j < nElem (wkBatch wk) \<and>
          (\<forall>ok ret trm. elemWake drv ok st ret trm (wkBatch wk) j w \<noteq> None))"

definition pipe_defined :: "'s qdriver \<Rightarrow> ('s, 'c) pipe \<Rightarrow> bool" where
  "pipe_defined drv c \<longleftrightarrow>
     (\<forall>p \<in> set_mset (inputs c). \<forall>ok trm fc. enqStart drv ok trm fc (pipeQ c, pipeH c) p \<noteq> None) \<and>
     (\<forall>(p, st) \<in> set_mset (sleepers c). \<forall>ok ret trm. enqWake drv ok st ret trm (pipeQ c, pipeH c) p \<noteq> None) \<and>
     (\<forall>wk \<in> set (workers c). worker_defined drv (pipeQ c, pipeH c) wk)"

text \<open>The references the program holds outside the queue.\<close>

definition held_by :: "'c worker \<Rightarrow> msgptr multiset" where
  "held_by wk =
     (case wkPhase wk of
        Consuming \<Rightarrow> mset (batch_msgs (wkBatch wk))
      | Deleting j n \<Rightarrow> mset (drop j (batch_msgs (wkBatch wk)))
      | Retrying j n st \<Rightarrow>
          add_mset (batch_msgs (wkBatch wk) ! j) (mset (drop j (batch_msgs (wkBatch wk)))))"

definition holders :: "('s, 'c) pipe \<Rightarrow> msgptr multiset" where
  "holders c = inputs c + image_mset fst (sleepers c) + leaked c + sum_list (map held_by (workers c))"

text \<open>The elements the workers still have to delete.\<close>

definition outstanding :: "('s, 'c) pipe \<Rightarrow> nat" where
  "outstanding c = sum_list (map (\<lambda>wk. nElem (wkBatch wk)) (workers c))"

section \<open>The invariant\<close>

definition worker_ok :: "nat \<Rightarrow> 'c worker \<Rightarrow> bool" where
  "worker_ok bs wk \<longleftrightarrow> batch_holds (wkBatch wk) (batch_msgs (wkBatch wk)) \<and> batch_arrays bs (wkBatch wk) \<and>
     (case wkPhase wk of
        Consuming \<Rightarrow> True | Deleting j n \<Rightarrow> j \<le> nElem (wkBatch wk) | Retrying j n st \<Rightarrow> j < nElem (wkBatch wk))"

definition pipe_ok :: "(int \<Rightarrow> 's \<Rightarrow> msgptr list \<Rightarrow> nat \<Rightarrow> bool) \<Rightarrow> nat \<Rightarrow> ('s, 'c) pipe \<Rightarrow> bool" where
  "pipe_ok rep bs c \<longleftrightarrow> (\<forall>wk \<in> set (workers c). worker_ok bs wk) \<and>
     world_ok rep bs (outstanding c) (holders c) (pipeQ c, pipeH c)"

lemma batch_msgs_holds: "batch_holds b ms \<Longrightarrow> batch_msgs b = ms"
  by (rule nth_equalityI) (auto simp: batch_msgs_def batch_holds_def)

lemma batch_msgs_length: "batch_holds b (batch_msgs b) \<Longrightarrow> length (batch_msgs b) = nElem b"
  by (simp add: batch_holds_def)

text \<open>One worker apart from the others.\<close>

lemma sum_list_split:
  fixes f :: "'a \<Rightarrow> 'b :: comm_monoid_add"
  assumes "i < length xs"
  obtains M where "sum_list (map f xs) = f (xs ! i) + M"
    "\<And>x. sum_list (map f (xs[i := x])) = f x + M"
proof (rule that)
  let ?M = "sum_list (map f (take i xs)) + sum_list (map f (drop (Suc i) xs))"
  show "sum_list (map f (xs[i := x])) = f x + ?M" for x
    using assms by (simp add: upd_conv_take_nth_drop ac_simps)
  show "sum_list (map f xs) = f (xs ! i) + ?M"
    using assms by (subst id_take_nth_drop [OF assms]) (simp add: ac_simps)
qed

lemma worker_split:
  fixes c :: "('s, 'c) pipe"
  assumes "i < length (workers c)"
  obtains D M where "outstanding c = nElem (wkBatch (workers c ! i)) + D"
    "holders c = held_by (workers c ! i) + (inputs c + image_mset fst (sleepers c) + leaked c + M)"
    "\<And>(c' :: ('s, 'c) pipe) wk. workers c' = (workers c)[i := wk] \<Longrightarrow> outstanding c' = nElem (wkBatch wk) + D"
    "\<And>(c' :: ('s, 'c) pipe) wk. workers c' = (workers c)[i := wk] \<Longrightarrow>
       holders c' = held_by wk + (inputs c' + image_mset fst (sleepers c') + leaked c' + M)"
proof -
  obtain D where D: "sum_list (map (\<lambda>wk. nElem (wkBatch wk)) (workers c)) = nElem (wkBatch (workers c ! i)) + D"
    "\<And>wk. sum_list (map (\<lambda>wk. nElem (wkBatch wk)) ((workers c)[i := wk])) = nElem (wkBatch wk) + D"
    using sum_list_split [OF assms, of "\<lambda>wk. nElem (wkBatch wk)"] by blast
  obtain M where M: "sum_list (map held_by (workers c)) = held_by (workers c ! i) + M"
    "\<And>wk. sum_list (map held_by ((workers c)[i := wk])) = held_by wk + M"
    using sum_list_split [OF assms, of held_by] by blast
  show ?thesis
    by (rule that [of D M]) (simp_all add: outstanding_def holders_def D M ac_simps)
qed

lemma workers_update:
  "pipe_ok rep bs c \<Longrightarrow> worker_ok bs wk' \<Longrightarrow> \<forall>wk \<in> set ((workers c)[i := wk']). worker_ok bs wk"
  unfolding pipe_ok_def using set_update_subset_insert [of "workers c" i wk'] by blast

section \<open>Every step keeps it\<close>

locale worker_pool = queue_driver drv rep room + batch_consumer consume
  for drv :: "'s qdriver" and rep :: "int \<Rightarrow> 's \<Rightarrow> msgptr list \<Rightarrow> nat \<Rightarrow> bool" and room
    and consume :: "batch \<Rightarrow> 'c \<Rightarrow> (rsRetVal \<times> batch \<times> 'c) option"
begin

lemma started_inv:
  assumes "queue_started drv q"
  shows "q_inv rep q [] 0"
proof -
  from assms obtain cnt gs and t :: 's and qt nw mx q0 q1 ok where
    c: "qqueueConstruct True cnt gs t qt nw mx = (RS_RET_OK, Some q0)" and
    s: "iQueueSize q1 = iQueueSize q0" "nLogDeq q1 = nLogDeq q0" "toDeleteLst q1 = toDeleteLst q0"
      "qType q1 \<in> {QUEUETYPE_FIXED_ARRAY, QUEUETYPE_LINKEDLIST}" "0 \<le> iMaxQueueSize q1" and
    st: "qqueueStart drv ok q1 = Some (RS_RET_OK, q)"
    unfolding queue_started_def by (elim exE conjE) (rule that, assumption+)
  from c s have q1: "iQueueSize q1 = 0" "nLogDeq q1 = 0" "toDeleteLst q1 = []"
    by (auto simp: qqueueConstruct_def)
  from st obtain q2 q3 t3 where
    p: "qqueueStartParams q1 = Some q2" and k: "qConstruct drv (iMaxQueueSize q2) ok (tVars q2) = (RS_RET_OK, t3)"
    and q: "iMaxQueueSize q = iMaxQueueSize q2" "tVars q = t3" "iQueueSize q = iQueueSize q2" "nLogDeq q = nLogDeq q2"
      "toDeleteLst q = toDeleteLst q2" "qType q = qType q2"
    by (auto simp: qqueueStart_def qqueueConstructStore_def qqueueChkIsDA_def Let_def
        split: bind_splits prod.splits if_splits)
  from p have q2: "iMaxQueueSize q2 = iMaxQueueSize q1" "iQueueSize q2 = iQueueSize q1" "nLogDeq q2 = nLogDeq q1"
    "toDeleteLst q2 = toDeleteLst q1" "qType q2 = qType q1"
    by (auto simp: qqueueStartParams_def Let_def split: bind_splits)
  from rep_construct [OF k] s(5) q q1 q2 s(4) show ?thesis by (simp add: q_inv_def)
qed

lemma init_ok:
  fixes c :: "('s, 'c) pipe"
  assumes "pipe_init drv bs c"
  shows "pipe_ok rep bs c"
proof -
  have empty: "held_by wk = {#} \<and> nElem (wkBatch wk) = 0 \<and> worker_ok bs wk" if "wk \<in> set (workers c)" for wk
    using assms that by (auto simp: pipe_init_def held_by_def worker_ok_def batch_msgs_def batch_holds_def batch_arrays_def)
  then have "map held_by (workers c) = map (\<lambda>_. {#}) (workers c)"
    "map (\<lambda>wk. nElem (wkBatch wk)) (workers c) = map (\<lambda>_. 0) (workers c)" by simp_all
  then have "holders c = {#}" "outstanding c = 0"
    using assms by (simp_all only: holders_def outstanding_def) (simp_all add: pipe_init_def)
  then show ?thesis
    using assms empty started_inv [of "pipeQ c"] by (auto simp: pipe_ok_def pipe_init_def intro!: world_okI)
qed

text \<open>A phase of an enqueue, started or woken, with the call's reference apart.\<close>

lemma after_enq_ok:
  fixes c :: "('s, 'c) pipe"
  assumes "\<forall>wk \<in> set (workers c). worker_ok bs wk"
    and "phase_ok rep bs (outstanding c) (holders c) ok p s"
  shows "pipe_ok rep bs (after_enq c p s)"
proof (cases s)
  case (Blocked st w)
  with assms show ?thesis by (cases w) (simp add: after_enq_def pipe_ok_def holders_def outstanding_def)
next
  case (Ended r w)
  obtain q h where w: "w = (q, h)" by (cases w)
  from assms(2) Ended enq_result_ok have
    "r \<in> {RS_RET_OK, RS_RET_QUEUE_FULL} \<and> world_ok rep bs (outstanding c) (holders c) w \<or>
     r \<in> {RS_RET_FORCE_TERM, RS_RET_OUT_OF_MEMORY} \<and> world_ok rep bs (outstanding c) (add_mset p (holders c)) w"
    by fastforce
  with assms(1) Ended w show ?thesis
    by (auto simp: after_enq_def pipe_ok_def holders_def outstanding_def)
qed

lemma enqueue_ok:
  fixes c :: "('s, 'c) pipe"
  assumes "pipe_ok rep bs c" "p \<in># inputs c"
  shows "\<exists>s. enqStart drv ok trm fc (pipeQ c, pipeH c) p = Some s \<and>
    pipe_ok rep bs (after_enq (c\<lparr>inputs := inputs c - {#p#}\<rparr>) p s)"
proof -
  let ?c = "c\<lparr>inputs := inputs c - {#p#}\<rparr>"
  have h: "holders c = add_mset p (holders ?c)" and o: "outstanding ?c = outstanding c"
    using multi_member_split [OF assms(2)] by (auto simp: holders_def outstanding_def)
  from assms(1) have "world_ok rep bs (outstanding ?c) (add_mset p (holders ?c)) (pipeQ c, pipeH c)"
    unfolding pipe_ok_def h o by simp
  from enqStart_ok [OF this, of ok trm fc] after_enq_ok [of ?c bs ok p] assms(1)
  show ?thesis by (auto simp: pipe_ok_def)
qed

lemma wake_ok:
  fixes c :: "('s, 'c) pipe"
  assumes "pipe_ok rep bs c" "(p, st) \<in># sleepers c"
  shows "\<exists>s. enqWake drv ok st ret trm (pipeQ c, pipeH c) p = Some s \<and>
    pipe_ok rep bs (after_enq (c\<lparr>sleepers := sleepers c - {#(p, st)#}\<rparr>) p s)"
proof -
  let ?c = "c\<lparr>sleepers := sleepers c - {#(p, st)#}\<rparr>"
  have h: "holders c = add_mset p (holders ?c)" and o: "outstanding ?c = outstanding c"
    using multi_member_split [OF assms(2)] by (auto simp: holders_def outstanding_def)
  from assms(1) have "world_ok rep bs (outstanding ?c) (add_mset p (holders ?c)) (pipeQ c, pipeH c)"
    unfolding pipe_ok_def h o by simp
  from enqWake_ok [OF this, of ok st ret trm] after_enq_ok [of ?c bs ok p] assms(1)
  show ?thesis by (auto simp: pipe_ok_def)
qed

lemma after_elem_ok:
  fixes c :: "('s, 'c) pipe"
  assumes "pipe_ok rep bs c" "i < length (workers c)" "j < nElem (wkBatch (workers c ! i))"
    and "outstanding c = nElem (wkBatch (workers c ! i)) + D"
    and "\<And>(c' :: ('s, 'c) pipe) wk. workers c' = (workers c)[i := wk] \<Longrightarrow> outstanding c' = nElem (wkBatch wk) + D"
    and "\<And>(c' :: ('s, 'c) pipe) wk. workers c' = (workers c)[i := wk] \<Longrightarrow>
       holders c' = held_by wk + (inputs c' + image_mset fst (sleepers c') + leaked c' + M)"
    and "elem_ok rep bs (outstanding c)
      (mset (drop (Suc j) (batch_msgs (wkBatch (workers c ! i)))) +
        (inputs c + image_mset fst (sleepers c) + leaked c + M))
      (batch_msgs (wkBatch (workers c ! i)) ! j) es"
  shows "pipe_ok rep bs (after_elem c i j n es)"
proof -
  let ?wk = "workers c ! i"
  let ?ms = "batch_msgs (wkBatch ?wk)"
  have ok: "worker_ok bs ?wk" using assms(1,2) by (simp add: pipe_ok_def)
  then have len: "length ?ms = nElem (wkBatch ?wk)" by (simp add: worker_ok_def batch_msgs_length)
  have dr: "drop j ?ms = ?ms ! j # drop (Suc j) ?ms" using assms(3) len by (simp add: Cons_nth_drop_Suc)
  show ?thesis
  proof (cases es)
    case (Asleep st w)
    let ?wk' = "?wk\<lparr>wkPhase := Retrying j n st\<rparr>"
    have w: "workers (after_elem c i j n es) = (workers c)[i := ?wk']"
      using Asleep by (simp add: after_elem_def Let_def)
    have "worker_ok bs ?wk'" using ok assms(3) by (simp add: worker_ok_def split: wphase.splits)
    from workers_update [OF assms(1) this] have
      "\<forall>wk \<in> set ((workers c)[i := ?wk']). worker_ok bs wk" .
    moreover have "held_by ?wk' = add_mset (?ms ! j) (add_mset (?ms ! j) (mset (drop (Suc j) ?ms)))"
      by (simp add: held_by_def dr)
    ultimately show ?thesis
      using Asleep assms(1,4,7) assms(5,6) [OF w] w
      by (cases w) (simp add: pipe_ok_def after_elem_def Let_def ac_simps)
  next
    case (Processed m r w)
    let ?wk' = "?wk\<lparr>wkPhase := Deleting (Suc j) (n + m)\<rparr>"
    have w: "workers (after_elem c i j n es) = (workers c)[i := ?wk']"
      using Processed by (simp add: after_elem_def Let_def)
    have "worker_ok bs ?wk'" using ok assms(3) by (simp add: worker_ok_def split: wphase.splits)
    from workers_update [OF assms(1) this] have
      "\<forall>wk \<in> set ((workers c)[i := ?wk']). worker_ok bs wk" .
    moreover have "held_by ?wk' = mset (drop (Suc j) ?ms)" by (simp add: held_by_def)
    ultimately show ?thesis
      using Processed assms(1,4,7) assms(5,6) [OF w] w
      by (cases w) (simp add: pipe_ok_def after_elem_def Let_def ac_simps)
  qed
qed

lemma element_ok:
  fixes c :: "('s, 'c) pipe"
  assumes "pipe_ok rep bs c" "i < length (workers c)" "wkPhase (workers c ! i) = Deleting j n"
    "j < nElem (wkBatch (workers c ! i))"
  shows "\<exists>es. elemStart drv ok trm (wkBatch (workers c ! i)) j (pipeQ c, pipeH c) = Some es \<and>
    pipe_ok rep bs (after_elem c i j n es)"
proof -
  let ?wk = "workers c ! i"
  let ?ms = "batch_msgs (wkBatch ?wk)"
  obtain D M where s: "outstanding c = nElem (wkBatch ?wk) + D"
    "holders c = held_by ?wk + (inputs c + image_mset fst (sleepers c) + leaked c + M)"
    "\<And>(c' :: ('s, 'c) pipe) wk. workers c' = (workers c)[i := wk] \<Longrightarrow> outstanding c' = nElem (wkBatch wk) + D"
    "\<And>(c' :: ('s, 'c) pipe) wk. workers c' = (workers c)[i := wk] \<Longrightarrow>
       holders c' = held_by wk + (inputs c' + image_mset fst (sleepers c') + leaked c' + M)"
    using worker_split [OF assms(2)] by blast
  have wo: "worker_ok bs ?wk" using assms(1,2) by (simp add: pipe_ok_def)
  then have hb: "batch_holds (wkBatch ?wk) ?ms" and j: "j < length ?ms"
    using assms(4) by (simp_all add: worker_ok_def batch_msgs_length)
  have "held_by ?wk = add_mset (?ms ! j) (mset (drop (Suc j) ?ms))"
    using j by (simp add: held_by_def assms(3) Cons_nth_drop_Suc [symmetric])
  with assms(1) s(2) have "world_ok rep bs (outstanding c)
      (add_mset (?ms ! j) (mset (drop (Suc j) ?ms) + (inputs c + image_mset fst (sleepers c) + leaked c + M)))
      (pipeQ c, pipeH c)" by (simp add: pipe_ok_def)
  from elemStart_ok [OF hb j this, of ok trm] obtain es where
    "elemStart drv ok trm (wkBatch ?wk) j (pipeQ c, pipeH c) = Some es"
    "elem_ok rep bs (outstanding c) (mset (drop (Suc j) ?ms) +
      (inputs c + image_mset fst (sleepers c) + leaked c + M)) (?ms ! j) es" by blast
  then show ?thesis using after_elem_ok [OF assms(1,2,4) s(1,3,4)] by blast
qed

lemma element_wake_ok:
  fixes c :: "('s, 'c) pipe"
  assumes "pipe_ok rep bs c" "i < length (workers c)" "wkPhase (workers c ! i) = Retrying j n st"
  shows "\<exists>es. elemWake drv ok st ret trm (wkBatch (workers c ! i)) j (pipeQ c, pipeH c) = Some es \<and>
    pipe_ok rep bs (after_elem c i j n es)"
proof -
  let ?wk = "workers c ! i"
  let ?ms = "batch_msgs (wkBatch ?wk)"
  obtain D M where s: "outstanding c = nElem (wkBatch ?wk) + D"
    "holders c = held_by ?wk + (inputs c + image_mset fst (sleepers c) + leaked c + M)"
    "\<And>(c' :: ('s, 'c) pipe) wk. workers c' = (workers c)[i := wk] \<Longrightarrow> outstanding c' = nElem (wkBatch wk) + D"
    "\<And>(c' :: ('s, 'c) pipe) wk. workers c' = (workers c)[i := wk] \<Longrightarrow>
       holders c' = held_by wk + (inputs c' + image_mset fst (sleepers c') + leaked c' + M)"
    using worker_split [OF assms(2)] by blast
  have wo: "worker_ok bs ?wk" using assms(1,2) by (simp add: pipe_ok_def)
  then have hb: "batch_holds (wkBatch ?wk) ?ms" and jn: "j < nElem (wkBatch ?wk)" and j: "j < length ?ms"
    using assms(3) by (simp_all add: worker_ok_def batch_msgs_length)
  have "held_by ?wk = add_mset (?ms ! j) (add_mset (?ms ! j) (mset (drop (Suc j) ?ms)))"
    using j by (simp add: held_by_def assms(3) Cons_nth_drop_Suc [symmetric])
  with assms(1) s(2) have "world_ok rep bs (outstanding c)
      (add_mset (?ms ! j) (add_mset (?ms ! j)
        (mset (drop (Suc j) ?ms) + (inputs c + image_mset fst (sleepers c) + leaked c + M))))
      (pipeQ c, pipeH c)" by (simp add: pipe_ok_def)
  from elemWake_ok [OF hb j this, of ok st ret trm] obtain es where
    "elemWake drv ok st ret trm (wkBatch ?wk) j (pipeQ c, pipeH c) = Some es"
    "elem_ok rep bs (outstanding c) (mset (drop (Suc j) ?ms) +
      (inputs c + image_mset fst (sleepers c) + leaked c + M)) (?ms ! j) es" by blast
  then show ?thesis using after_elem_ok [OF assms(1,2) jn s(1,3,4)] by blast
qed

lemma finish_ok:
  fixes c :: "('s, 'c) pipe"
  assumes "pipe_ok rep bs c" "i < length (workers c)"
    "wkPhase (workers c ! i) = Deleting (nElem (wkBatch (workers c ! i))) n"
  shows "\<exists>r sz q' h' b'. turnEnd drv ok n (pipeQ c, pipeH c) (wkBatch (workers c ! i)) = Some (r, sz, (q', h'), b') \<and>
    pipe_ok rep bs (c\<lparr>pipeQ := q', pipeH := h',
      workers := (workers c)[i := (workers c ! i)\<lparr>wkBatch := b', wkPhase := Consuming\<rparr>]\<rparr>)"
proof -
  let ?wk = "workers c ! i"
  obtain D M where s: "outstanding c = nElem (wkBatch ?wk) + D"
    "holders c = held_by ?wk + (inputs c + image_mset fst (sleepers c) + leaked c + M)"
    "\<And>(c' :: ('s, 'c) pipe) wk. workers c' = (workers c)[i := wk] \<Longrightarrow> outstanding c' = nElem (wkBatch wk) + D"
    "\<And>(c' :: ('s, 'c) pipe) wk. workers c' = (workers c)[i := wk] \<Longrightarrow>
       holders c' = held_by wk + (inputs c' + image_mset fst (sleepers c') + leaked c' + M)"
    using worker_split [OF assms(2)] by blast
  have wo: "worker_ok bs ?wk" using assms(1,2) by (simp add: pipe_ok_def)
  then have "held_by ?wk = {#}" by (simp add: held_by_def assms(3) worker_ok_def batch_msgs_length)
  with assms(1) s(1,2) have w: "world_ok rep bs (nElem (wkBatch ?wk) + D)
      (inputs c + image_mset fst (sleepers c) + leaked c + M) (pipeQ c, pipeH c)" by (simp add: pipe_ok_def)
  have "batch_arrays bs (wkBatch ?wk)" using wo by (simp add: worker_ok_def)
  from turnEnd_ok [OF this w, of ok n] obtain r sz q' h' b' ms' where
    e: "turnEnd drv ok n (pipeQ c, pipeH c) (wkBatch ?wk) = Some (r, sz, (q', h'), b')" and
    b: "batch_holds b' ms'" "batch_arrays bs b'" and
    w': "world_ok rep bs (length ms' + D) (mset ms' + (inputs c + image_mset fst (sleepers c) + leaked c + M)) (q', h')"
    by force
  let ?wk' = "?wk\<lparr>wkBatch := b', wkPhase := Consuming\<rparr>"
  let ?c' = "c\<lparr>pipeQ := q', pipeH := h', workers := (workers c)[i := ?wk']\<rparr>"
  have ms': "batch_msgs b' = ms'" "nElem b' = length ms'" using b(1) batch_msgs_holds by (auto simp: batch_holds_def)
  have "worker_ok bs ?wk'" using b ms' by (simp add: worker_ok_def)
  from workers_update [OF assms(1) this] have
    "\<forall>wk \<in> set ((workers c)[i := ?wk']). worker_ok bs wk" .
  moreover have "holders ?c' = mset ms' + (inputs c + image_mset fst (sleepers c) + leaked c + M)"
    "outstanding ?c' = length ms' + D"
    using s(3,4) [of ?c' ?wk'] ms' by (simp_all add: held_by_def)
  ultimately have "pipe_ok rep bs ?c'"
    using w' by (simp add: pipe_ok_def)
  with e show ?thesis by blast
qed

text \<open>A step that leaves queue, messages and the references of every worker.\<close>

lemma worker_step_ok:
  fixes c :: "('s, 'c) pipe"
  assumes "pipe_ok rep bs c" "i < length (workers c)" "worker_ok bs wk'"
    "held_by wk' = held_by (workers c ! i)" "nElem (wkBatch wk') = nElem (wkBatch (workers c ! i))"
  shows "pipe_ok rep bs (c\<lparr>workers := (workers c)[i := wk']\<rparr>)"
proof -
  let ?c' = "c\<lparr>workers := (workers c)[i := wk']\<rparr>"
  obtain D M where s: "outstanding c = nElem (wkBatch (workers c ! i)) + D"
    "holders c = held_by (workers c ! i) + (inputs c + image_mset fst (sleepers c) + leaked c + M)"
    "\<And>(c' :: ('s, 'c) pipe) wk. workers c' = (workers c)[i := wk] \<Longrightarrow> outstanding c' = nElem (wkBatch wk) + D"
    "\<And>(c' :: ('s, 'c) pipe) wk. workers c' = (workers c)[i := wk] \<Longrightarrow>
       holders c' = held_by wk + (inputs c' + image_mset fst (sleepers c') + leaked c' + M)"
    using worker_split [OF assms(2)] by blast
  have "holders ?c' = holders c" "outstanding ?c' = outstanding c"
    using s(3,4) [of ?c' wk'] by (simp_all add: s(1,2) assms(4,5))
  moreover have "\<forall>wk \<in> set ((workers c)[i := wk']). worker_ok bs wk"
    by (rule workers_update [OF assms(1,3)])
  ultimately show ?thesis using assms(1) by (simp add: pipe_ok_def)
qed

lemma turn_ok:
  fixes c :: "('s, 'c) pipe"
  assumes "pipe_ok rep bs c" "i < length (workers c)" "wkPhase (workers c ! i) = Consuming"
  shows "pipe_ok rep bs (c\<lparr>workers := (workers c)[i := (workers c ! i)\<lparr>wkPhase := Deleting 0 0\<rparr>]\<rparr>)"
  using assms by (intro worker_step_ok) (auto simp: pipe_ok_def worker_ok_def held_by_def)

lemma consume_ok:
  fixes c :: "('s, 'c) pipe"
  assumes "pipe_ok rep bs c" "i < length (workers c)" "wkPhase (workers c ! i) = Consuming"
    "consume (wkBatch (workers c ! i)) (wkState (workers c ! i)) = Some (r, b', a')"
  shows "pipe_ok rep bs (c\<lparr>workers := (workers c)[i := (workers c ! i)\<lparr>wkBatch := b', wkState := a'\<rparr>]\<rparr>)"
proof -
  let ?b = "wkBatch (workers c ! i)"
  have o: "worker_ok bs (workers c ! i)" using assms(1,2) by (simp add: pipe_ok_def)
  then have "batch_holds b' (batch_msgs ?b) \<and> batch_arrays bs b'"
    by (intro consume_holds [OF assms(4)]) (simp_all add: worker_ok_def)
  moreover from this have "batch_msgs b' = batch_msgs ?b" using batch_msgs_holds by blast
  moreover have "nElem b' = nElem ?b" using consume_kept [OF assms(4)] by (simp add: batch_kept_def)
  ultimately show ?thesis
    using assms(1-3) by (intro worker_step_ok) (simp_all add: worker_ok_def held_by_def)
qed

lemma receive_ok:
  fixes c :: "('s, 'c) pipe"
  assumes "pipe_ok rep bs c" "pipeH c p = None" "iRefCount m = 1"
  shows "pipe_ok rep bs (c\<lparr>pipeH := (pipeH c)(p \<mapsto> m), inputs := add_mset p (inputs c)\<rparr>)"
  using assms world_ok_new [of rep bs "outstanding c" "holders c" "pipeQ c" "pipeH c" p m]
  by (simp add: pipe_ok_def holders_def outstanding_def)

lemma share_ok:
  fixes c :: "('s, 'c) pipe"
  assumes "pipe_ok rep bs c" "p \<in># inputs c" "MsgAddRef (pipeH c) p = Some h"
  shows "pipe_ok rep bs (c\<lparr>pipeH := h, inputs := add_mset p (inputs c)\<rparr>)"
proof -
  obtain R where R: "holders c = add_mset p R"
    using assms(2) by (metis holders_def insert_DiffM union_mset_add_mset_left)
  from assms(1) have "world_ok rep bs (outstanding c) (add_mset p R) (pipeQ c, pipeH c)"
    by (simp add: pipe_ok_def R)
  from world_ok_addref [OF this] assms(1,3) R show ?thesis
    by (simp add: pipe_ok_def holders_def outstanding_def)
qed

lemma release_ok:
  fixes c :: "('s, 'c) pipe"
  assumes "pipe_ok rep bs c" "p \<in># inputs c" "msgDestruct (pipeH c) p = Some h"
  shows "pipe_ok rep bs (c\<lparr>pipeH := h, inputs := inputs c - {#p#}\<rparr>)"
proof -
  let ?c = "c\<lparr>pipeH := h, inputs := inputs c - {#p#}\<rparr>"
  have "holders c = add_mset p (holders ?c)"
    using multi_member_split [OF assms(2)] by (auto simp: holders_def)
  with assms(1) have "world_ok rep bs (outstanding c) (add_mset p (holders ?c)) (pipeQ c, pipeH c)"
    by (simp add: pipe_ok_def)
  from world_ok_destruct [OF this] assms(1,3) show ?thesis
    by (simp add: pipe_ok_def outstanding_def)
qed

lemma reachable_ok: "reachable drv bs consume c \<Longrightarrow> pipe_ok rep bs c"
proof (induction rule: reachable.induct)
  case (start c)
  then show ?case by (rule init_ok)
next
  case (step c c')
  from step.hyps(2) show ?case
  proof cases
    case (receive p m)
    then show ?thesis using receive_ok [OF step.IH] by blast
  next
    case (share p h)
    then show ?thesis using share_ok [OF step.IH] by blast
  next
    case (release p h)
    then show ?thesis using release_ok [OF step.IH] by blast
  next
    case (enqueue p ok trm fc s)
    then show ?thesis using enqueue_ok [OF step.IH enqueue(2), of ok trm fc] by auto
  next
    case (wake p st ok ret trm s)
    then show ?thesis using wake_ok [OF step.IH wake(2), of ok ret trm] by auto
  next
    case (turn i)
    then show ?thesis using turn_ok [OF step.IH] by blast
  next
    case (element i j n ok trm es)
    then show ?thesis using element_ok [OF step.IH element(2-4), of ok trm] by auto
  next
    case (element_wake i j n st ok ret trm es)
    then show ?thesis using element_wake_ok [OF step.IH element_wake(2,3), of ok ret trm] by auto
  next
    case (finish i n ok r sz q' h' b')
    then show ?thesis using finish_ok [OF step.IH finish(2,3), of ok] by auto
  next
    case (consume i r b' a')
    then show ?thesis using consume_ok [OF step.IH] by blast
  qed
qed

lemma pipe_ok_defined:
  fixes c :: "('s, 'c) pipe"
  assumes "pipe_ok rep bs c"
  shows "pipe_defined drv c"
proof -
  have "worker_defined drv (pipeQ c, pipeH c) wk" if "wk \<in> set (workers c)" for wk
  proof -
    from that obtain i where i: "i < length (workers c)" "workers c ! i = wk" by (auto simp: in_set_conv_nth)
    have o: "worker_ok bs wk" using assms that by (simp add: pipe_ok_def)
    show ?thesis
    proof (cases "wkPhase wk")
      case Consuming
      then show ?thesis by (simp add: worker_defined_def)
    next
      case (Deleting j n)
      show ?thesis
      proof (cases "j < nElem (wkBatch wk)")
        case True
        with element_ok [OF assms i(1)] i(2) Deleting show ?thesis by (fastforce simp: worker_defined_def)
      next
        case False
        with o Deleting have "j = nElem (wkBatch wk)" by (simp add: worker_ok_def)
        with finish_ok [OF assms i(1)] i(2) Deleting show ?thesis by (fastforce simp: worker_defined_def)
      qed
    next
      case (Retrying j n st)
      with element_wake_ok [OF assms i(1)] i(2) o show ?thesis
        by (fastforce simp: worker_defined_def worker_ok_def)
    qed
  qed
  moreover have "enqStart drv ok trm fc (pipeQ c, pipeH c) p \<noteq> None" if "p \<in># inputs c" for p ok trm fc
    using enqueue_ok [OF assms that, of ok trm fc] by auto
  moreover have "enqWake drv ok st ret trm (pipeQ c, pipeH c) p \<noteq> None" if "(p, st) \<in># sleepers c" for p st ok ret trm
    using wake_ok [OF assms that, of ok ret trm] by auto
  ultimately show ?thesis unfolding pipe_defined_def by auto
qed

end

section \<open>The pipeline of the action engine\<close>

interpretation wl: worker_pool linklist_driver linklist_rep "\<lambda>mx n. True" "processBatchMain E" for E
  by unfold_locales
interpretation wf: worker_pool farray_driver farray_rep "\<lambda>mx n. int n < mx" "processBatchMain E" for E
  by unfold_locales

text \<open>
  C1: A started action queue with any number of inputs and workers, linked list or fixed array, in
  any order of their steps, those of other threads during a wait included: every enqueue an input
  starts, every call woken after a wait, every element of a batch that is deleted or enqueued
  again and every end of a turn (deletion of the batch, dequeue of the next one) is defined,
  whatever fails, times out or terminates; and the counters of all messages are exactly the
  references held by the queue, the inputs, the calls asleep, the batches of the workers and those
  a cut-off re-enqueue left behind, so that no message is freed early and none is kept alive by
  anything else.
\<close>

theorem pipeline_never_undefined:
  assumes "reachable linklist_driver bs (processBatchMain E) c"
    and "reachable farray_driver bs (processBatchMain E) d"
  shows "pipe_defined linklist_driver c \<and> pipe_defined farray_driver d \<and>
    (\<exists>xs k. q_inv linklist_rep (pipeQ c) xs k \<and> refs_ok (mset (drop k xs) + holders c) (pipeH c)) \<and>
    (\<exists>xs k. q_inv farray_rep (pipeQ d) xs k \<and> refs_ok (mset (drop k xs) + holders d) (pipeH d))"
proof -
  note c = wl.reachable_ok [OF assms(1)] and d = wf.reachable_ok [OF assms(2)]
  show ?thesis
    using wl.pipe_ok_defined [OF c] wf.pipe_ok_defined [OF d] c d by (auto simp: pipe_ok_def world_ok_def)
qed

text \<open>
  C14: Deleting a processed batch ignores the order in which batches finish: in every state the
  pipeline can reach the to-delete list, which should hold back a batch that finishes before an
  older one, is empty, so that whatever the dequeue ID of a worker's batch is, its deletion
  removes the oldest \<open>nElem\<close> elements of the store, which may be those of another worker, and
  leaves the list empty.
\<close>

theorem batch_delete_ignores_order:
  assumes "reachable farray_driver bs (processBatchMain E) c" and "wk \<in> set (workers c)"
  shows "toDeleteLst (pipeQ c) = [] \<and>
    (\<exists>xs k q'. q_inv farray_rep (pipeQ c) xs k \<and> nElem (wkBatch wk) \<le> k \<and>
       (\<forall>dq. DeleteBatchFromQStore farray_driver ok (pipeQ c) ((wkBatch wk)\<lparr>deqID := dq\<rparr>) = Some (RS_RET_OK, q')) \<and>
       q_inv farray_rep q' (drop (nElem (wkBatch wk)) xs) (k - nElem (wkBatch wk)) \<and> toDeleteLst q' = [])"
proof -
  have ok: "pipe_ok farray_rep bs c" by (rule wf.reachable_ok [OF assms(1)])
  then obtain xs k where q: "q_inv farray_rep (pipeQ c) xs k" "outstanding c \<le> k"
    by (auto simp: pipe_ok_def world_ok_def)
  have "nElem (wkBatch wk) \<le> outstanding c"
    unfolding outstanding_def using assms(2) by (intro member_le_sum_list) auto
  with q(2) have k: "nElem (wkBatch wk) \<le> k" by simp
  from fa.DeleteBatch_steps [OF q(1) k, of ok] obtain q' where
    d: "DeleteBatchFromQStore farray_driver ok (pipeQ c) (wkBatch wk) = Some (RS_RET_OK, q')"
      "q_inv farray_rep q' (drop (nElem (wkBatch wk)) xs) (k - nElem (wkBatch wk))" by blast
  have e: "toDeleteLst (pipeQ c) = []" "toDeleteLst q' = []" using q(1) d(2) by (simp_all add: q_inv_def)
  have "DeleteBatchFromQStore farray_driver ok (pipeQ c) ((wkBatch wk)\<lparr>deqID := dq\<rparr>) = Some (RS_RET_OK, q')" for dq
    using d(1) e(1) by (simp add: DeleteBatchFromQStore_def tdlPeek_def)
  with q(1) k d(2) e show ?thesis by blast
qed

section \<open>A run of the machine\<close>

definition faqs_ex :: "farray qqueue" where
  "faqs_ex = snd (the (qqueueStart farray_driver True faq_ex))"

definition llqs_ex :: "linklist qqueue" where
  "llqs_ex = snd (the (qqueueStart linklist_driver True llq_ex))"

lemmas start_defs = qqueueStart_def qqueueStartParams_def startHighWtrMrk_def startLowWtrMrk_def
  startDlyMrk_def startDiscardMrk_def c_div_def qqueueConstruct_def qqueueConstructStore_def qqueueChkIsDA_def

lemma start_fa: "qqueueStart farray_driver True faq_ex = Some (RS_RET_OK, faqs_ex)"
  by (simp add: faqs_ex_def faq_ex_def farray_driver_def qConstructFixedArray_def start_defs)

lemma start_ll: "qqueueStart linklist_driver True llq_ex = Some (RS_RET_OK, llqs_ex)"
  by (simp add: llqs_ex_def llq_ex_def linklist_driver_def qConstructLinkedList_def start_defs)

lemma started_fa: "queue_started farray_driver faqs_ex"
  unfolding queue_started_def
  by (rule exI [of _ 0], rule exI [of _ True], rule exI [of _ fa_ex], rule exI [of _ QUEUETYPE_FIXED_ARRAY],
      rule exI [of _ 1], rule exI [of _ 2], rule exI [of _ faq_ex], rule exI [of _ faq_ex], rule exI [of _ True])
    (simp add: start_fa, simp add: faq_ex_def qqueueConstruct_def)

lemma started_ll: "queue_started linklist_driver llqs_ex"
  unfolding queue_started_def
  by (rule exI [of _ 0], rule exI [of _ True], rule exI [of _ ll_ex], rule exI [of _ QUEUETYPE_LINKEDLIST],
      rule exI [of _ 1], rule exI [of _ 2], rule exI [of _ llq_ex], rule exI [of _ llq_ex], rule exI [of _ True])
    (simp add: start_ll, simp add: llq_ex_def qqueueConstruct_def)

lemma started_bs: "iDeqBatchSize faqs_ex \<le> 8" "iDeqBatchSize llqs_ex \<le> 8"
  by (simp_all add: faqs_ex_def faq_ex_def farray_driver_def qConstructFixedArray_def
      llqs_ex_def llq_ex_def linklist_driver_def qConstructLinkedList_def start_defs)

definition wk_ex :: "(nat, nat) actst worker" where
  "wk_ex = \<lparr>wkBatch = batch_ex, wkState = st_ex ACT_STATE_RDY, wkPhase = Consuming\<rparr>"

definition pipe_ex :: "'s qqueue \<Rightarrow> ('s, (nat, nat) actst) pipe" where
  "pipe_ex q = \<lparr>pipeQ = q, pipeH = [7 \<mapsto> msg_ex 3], inputs = {#7#}, sleepers = {#}, workers = [wk_ex], leaked = {#}\<rparr>"

lemma pipe_ex_reachable:
  assumes "queue_started drv q" "iDeqBatchSize q \<le> 8"
  shows "reachable drv 8 consume (pipe_ex q)"
proof -
  let ?c = "\<lparr>pipeQ = q, pipeH = Map.empty, inputs = {#}, sleepers = {#}, workers = [wk_ex], leaked = {#}\<rparr>"
  have "pipe_init drv 8 ?c"
    using assms batch_ex_ok by (simp add: pipe_init_def wk_ex_def) (simp add: batch_ex_def)
  then have s: "reachable drv 8 consume ?c" by (rule reachable.start)
  have "pipe_step drv consume ?c
      (?c\<lparr>pipeH := (pipeH ?c)(7 \<mapsto> msg_ex 3), inputs := add_mset 7 (inputs ?c)\<rparr>)"
    by (rule pipe_step.receive) (simp_all add: msg_ex_def)
  from reachable.step [OF s this] show ?thesis by (simp add: pipe_ex_def)
qed

theorem pipeline_never_undefined_witness:
  "pipe_defined linklist_driver (pipe_ex llqs_ex) \<and> pipe_defined farray_driver (pipe_ex faqs_ex) \<and>
    (\<exists>xs k. q_inv linklist_rep (pipeQ (pipe_ex llqs_ex)) xs k \<and>
       refs_ok (mset (drop k xs) + holders (pipe_ex llqs_ex)) (pipeH (pipe_ex llqs_ex))) \<and>
    (\<exists>xs k. q_inv farray_rep (pipeQ (pipe_ex faqs_ex)) xs k \<and>
       refs_ok (mset (drop k xs) + holders (pipe_ex faqs_ex)) (pipeH (pipe_ex faqs_ex)))"
  by (rule pipeline_never_undefined [where bs = 8 and E = "env_ex RS_RET_OK RS_RET_OK RS_RET_OK"])
    (rule pipe_ex_reachable [OF started_ll started_bs(2)] pipe_ex_reachable [OF started_fa started_bs(1)])+

text \<open>From there: the message is enqueued and the worker takes it as its batch.\<close>

lemma enq_deq_ex:
  "\<exists>q1. enqStart farray_driver True False eFLOWCTL_NO_DELAY (faqs_ex, [7 \<mapsto> msg_ex 3]) 7 =
      Some (Ended RS_RET_OK (q1, [7 \<mapsto> msg_ex 3])) \<and>
    (\<exists>sz q' h' b. turnEnd farray_driver True 0 (qqueueChkPersist q1 1, [7 \<mapsto> msg_ex 3]) batch_ex =
      Some (RS_RET_OK, sz, (q', h'), b) \<and> nElem b = 1)"
  by (simp add: faqs_ex_def faq_ex_def farray_driver_def qConstructFixedArray_def start_defs enqStart_def
      qqueueChkDiscardMsg_def enqAtFlow_def enqAtFull_def queueIsFull_def enqInsert_def qqueueAdd_def
      qAddFixedArray_def statsInc_def c_set_def turnEnd_def DeleteBatchFromQStore_def tdlPeek_def
      DoDeleteBatchFromQStore_def batch_ex_def deqLoop.simps getLogicalQueueSize_def qqueueDeq_def
      qDeqFixedArray_def qqueueChkPersist_def Let_def getNextDeqID_def c_get_def)

lemma batch_reachable:
  "\<exists>c wk. reachable farray_driver 8 consume (c :: (farray, (nat, nat) actst) pipe) \<and> wk \<in> set (workers c) \<and>
    nElem (wkBatch wk) = 1"
proof -
  let ?c0 = "pipe_ex faqs_ex"
  have r0: "reachable farray_driver 8 consume ?c0"
    by (rule pipe_ex_reachable [OF started_fa started_bs(1)])
  from enq_deq_ex obtain q1 sz q' h' b where
    e: "enqStart farray_driver True False eFLOWCTL_NO_DELAY (pipeQ ?c0, pipeH ?c0) 7 =
      Some (Ended RS_RET_OK (q1, [7 \<mapsto> msg_ex 3]))" and
    t: "turnEnd farray_driver True 0 (qqueueChkPersist q1 1, [7 \<mapsto> msg_ex 3]) batch_ex =
      Some (RS_RET_OK, sz, (q', h'), b)" "nElem b = 1"
    by (auto simp: pipe_ex_def)
  have b0: "nElem batch_ex = 0" by (simp add: batch_ex_def)
  have in0: "7 \<in># inputs ?c0" by (simp add: pipe_ex_def)
  let ?c1 = "after_enq (?c0\<lparr>inputs := inputs ?c0 - {#7#}\<rparr>) 7 (Ended RS_RET_OK (q1, [7 \<mapsto> msg_ex 3]))"
  note r1 = reachable.step [OF r0 pipe_step.enqueue [OF in0 e]]
  have w1: "workers ?c1 = [wk_ex]" "pipeQ ?c1 = qqueueChkPersist q1 1" "pipeH ?c1 = [7 \<mapsto> msg_ex 3]"
    by (simp_all add: after_enq_def pipe_ex_def)
  let ?c2 = "?c1\<lparr>workers := (workers ?c1)[0 := (workers ?c1 ! 0)\<lparr>wkPhase := Deleting 0 0\<rparr>]\<rparr>"
  have "pipe_step farray_driver consume ?c1 ?c2"
    by (rule pipe_step.turn) (simp_all add: w1 wk_ex_def)
  note r2 = reachable.step [OF r1 this]
  let ?c3 = "?c2\<lparr>pipeQ := q', pipeH := h',
    workers := (workers ?c2)[0 := (workers ?c2 ! 0)\<lparr>wkBatch := b, wkPhase := Consuming\<rparr>]\<rparr>"
  have "pipe_step farray_driver consume ?c2 ?c3"
    by (rule pipe_step.finish [where n = 0 and ok = True and r = RS_RET_OK and sz = sz])
      (simp_all add: w1 wk_ex_def b0 t(1))
  from reachable.step [OF r2 this] have "reachable farray_driver 8 consume ?c3" .
  moreover have "(workers ?c2 ! 0)\<lparr>wkBatch := b, wkPhase := Consuming\<rparr> \<in> set (workers ?c3)"
    by (simp add: w1)
  ultimately show ?thesis using t(2) by (intro exI [of _ ?c3]) (auto simp: w1)
qed

theorem batch_delete_ignores_order_witness:
  "\<exists>(c :: (farray, (nat, nat) actst) pipe) wk. nElem (wkBatch wk) = 1 \<and> wk \<in> set (workers c) \<and>
    toDeleteLst (pipeQ c) = [] \<and>
    (\<exists>xs k q'. q_inv farray_rep (pipeQ c) xs k \<and> nElem (wkBatch wk) \<le> k \<and>
       (\<forall>dq. DeleteBatchFromQStore farray_driver True (pipeQ c) ((wkBatch wk)\<lparr>deqID := dq\<rparr>) = Some (RS_RET_OK, q')) \<and>
       q_inv farray_rep q' (drop (nElem (wkBatch wk)) xs) (k - nElem (wkBatch wk)) \<and> toDeleteLst q' = [])"
proof -
  from batch_reachable obtain c and wk :: "(nat, nat) actst worker" where
    c: "reachable farray_driver 8 (processBatchMain (env_ex RS_RET_OK RS_RET_OK RS_RET_OK)) c"
      "wk \<in> set (workers c)" "nElem (wkBatch wk) = 1" by blast
  from batch_delete_ignores_order [OF c(1,2), of True] c(2,3) show ?thesis by blast
qed

end
