(* ===== verification/Ratelimit.thy ===== *)
theory Ratelimit
  imports Msg
begin

text \<open>
  The rate limiter (runtime/ratelimit.c): the Linux-like limit of \<open>burst\<close> messages per
  interval, the "message repeated n times" reduction, and the hand-over to the queue, single
  or through a multi-submit structure (tools/rsyslogd.c). Message parsing and the queue are
  parameters.
\<close>

section \<open>State\<close>

record ratelimit =
  interval :: "16 word"
  burst :: "32 word"
  severity :: int
  rl_done :: "32 word"
  missed :: "32 word"
  rl_begin :: int
  bReduceRepeatMsgs :: bool
  nsupp :: "32 word"
  rl_pMsg :: "msgptr option"
  bNoTimeCache :: bool

text \<open>The messages the limiter logs about itself.\<close>

datatype notice = LostCnt "32 word" | BeginDrop

definition ratelimitNew :: "bool \<Rightarrow> bool \<Rightarrow> rsRetVal \<times> ratelimit option" where
  "ratelimitNew allocOK reduce =
     (if \<not> allocOK then (RS_RET_OUT_OF_MEMORY, None)
      else (RS_RET_OK, Some \<lparr>interval = 0, burst = 0, severity = 0, rl_done = 0, missed = 0, rl_begin = 0,
              bReduceRepeatMsgs = reduce, nsupp = 0, rl_pMsg = None, bNoTimeCache = False\<rparr>))"

definition ratelimitSetLinuxLike :: "ratelimit \<Rightarrow> 16 word \<Rightarrow> 32 word \<Rightarrow> ratelimit" where
  "ratelimitSetLinuxLike rl i b = rl\<lparr>interval := i, burst := b, rl_done := 0, missed := 0, rl_begin := 0\<rparr>"

definition ratelimitSetNoTimeCache :: "ratelimit \<Rightarrow> ratelimit" where
  "ratelimitSetNoTimeCache rl = rl\<lparr>bNoTimeCache := True\<rparr>"

definition ratelimitSetSeverity :: "ratelimit \<Rightarrow> int \<Rightarrow> ratelimit" where
  "ratelimitSetSeverity rl sev = rl\<lparr>severity := sev\<rparr>"

definition ratelimitChecked :: "ratelimit \<Rightarrow> bool" where
  "ratelimitChecked rl = (interval rl \<noteq> 0 \<or> bReduceRepeatMsgs rl)"

section \<open>The Linux-like limit\<close>

definition tellLostCnt :: "ratelimit \<Rightarrow> notice list \<times> ratelimit" where
  "tellLostCnt rl =
     (if missed rl \<noteq> 0 then ([LostCnt (missed rl)], rl\<lparr>missed := 0\<rparr>) else ([], rl))"

text \<open>\<open>now\<close> is what \<open>time(NULL)\<close> returns; a zero burst fails the assertion.\<close>

definition withinRatelimit :: "int \<Rightarrow> int \<Rightarrow> ratelimit \<Rightarrow> (bool \<times> notice list \<times> ratelimit) option" where
  "withinRatelimit now tt0 rl =
     (if interval rl = 0 then Some (True, [], rl)
      else do {
        let tt = (if bNoTimeCache rl then now else tt0);
        c_guard (burst rl \<noteq> 0);
        let rl1 = (if rl_begin rl = 0 then rl\<lparr>rl_begin := tt\<rparr> else rl);
        let (ns, rl2) = (if tt > rl_begin rl1 + uint (interval rl1) \<or> tt < rl_begin rl1
                         then tellLostCnt (rl1\<lparr>rl_begin := 0, rl_done := 0\<rparr>) else ([], rl1));
        if burst rl2 > rl_done rl2
        then Some (True, ns, rl2\<lparr>rl_done := rl_done rl2 + 1\<rparr>)
        else (let rl3 = rl2\<lparr>missed := missed rl2 + 1\<rparr>
              in Some (False, ns @ (if missed rl3 = 1 then [BeginDrop] else []), rl3))
      })"

section \<open>Message reduction\<close>

text \<open>
  The text of a "repeated" message: \<open>%d\<close> reads the unsigned counter as a signed int, the
  message is cut after 800 characters.
\<close>

definition decs :: "int \<Rightarrow> string" where
  "decs i = (if i < 0 then CHR ''-'' # dec (nat (- i)) else dec (nat i))"

definition repText :: "32 word \<Rightarrow> string \<Rightarrow> string" where
  "repText n msg = '' message repeated '' @ decs (sint n) @ '' times: ['' @ take 800 msg @ '']''"

definition MsgReplaceMSG :: "msgheap \<Rightarrow> msgptr \<Rightarrow> string \<Rightarrow> msgheap option" where
  "MsgReplaceMSG h p txt =
     (case h p of None \<Rightarrow> None | Some m \<Rightarrow> Some (h(p \<mapsto> m\<lparr>msgMSG := txt\<rparr>)))"

definition ratelimitGenRepMsg :: "msgptr option \<Rightarrow> msgheap \<Rightarrow> ratelimit \<Rightarrow> (msgptr option \<times> msgheap) option" where
  "ratelimitGenRepMsg new h rl =
     do {
       p \<leftarrow> rl_pMsg rl;
       if nsupp rl = 1
       then do { h1 \<leftarrow> MsgAddRef h p; Some (Some p, h1) }
       else do {
         (r, h1) \<leftarrow> MsgDup new h p;
         (case r of
            None \<Rightarrow> Some (None, h1)
          | Some q \<Rightarrow> do {
              m \<leftarrow> h1 p;
              h2 \<leftarrow> MsgReplaceMSG h1 q (repText (nsupp rl) (msgMSG m));
              Some (Some q, h2)
            })
       }
     }"

definition sameMsg :: "smsg \<Rightarrow> smsg \<Rightarrow> bool" where
  "sameMsg a b \<longleftrightarrow>
     length (msgMSG a) = length (msgMSG b) \<and> msgMSG a = msgMSG b \<and> msgHOSTNAME a = msgHOSTNAME b \<and>
     msgPROCID a = msgPROCID b \<and> msgAPPNAME a = msgAPPNAME b"

definition doLastMessageRepeatedNTimes :: "msgptr option \<Rightarrow> msgheap \<Rightarrow> ratelimit \<Rightarrow> msgptr \<Rightarrow>
    (rsRetVal \<times> msgptr option \<times> msgheap \<times> ratelimit) option" where
  "doLastMessageRepeatedNTimes new h rl pMsg =
     do {
       m \<leftarrow> h pMsg;
       same \<leftarrow> (case rl_pMsg rl of
                 None \<Rightarrow> Some False
               | Some p \<Rightarrow> do { old \<leftarrow> h p; Some (sameMsg m old) });
       if same
       then do {
         p \<leftarrow> rl_pMsg rl;
         h1 \<leftarrow> msgDestruct h p;
         Some (RS_RET_DISCARDMSG, None, h1, rl\<lparr>nsupp := nsupp rl + 1, rl_pMsg := Some pMsg\<rparr>)
       }
       else do {
         (rep, h1, rl1) \<leftarrow>
           (case rl_pMsg rl of
              None \<Rightarrow> Some (None, h, rl)
            | Some p \<Rightarrow> do {
                (rep, h1, rl1) \<leftarrow>
                  (if nsupp rl > 0
                   then do { (rep, h1) \<leftarrow> ratelimitGenRepMsg new h rl; Some (rep, h1, rl\<lparr>nsupp := 0\<rparr>) }
                   else Some (None, h, rl));
                h2 \<leftarrow> msgDestruct h1 p;
                Some (rep, h2, rl1)
              });
         h3 \<leftarrow> MsgAddRef h1 pMsg;
         Some (RS_RET_OK, rep, h3, rl1\<lparr>rl_pMsg := Some pMsg\<rparr>)
       }
     }"

text \<open>\<open>parse\<close> is \<open>parser.ParseMsg\<close>: its code and the message as it leaves it.\<close>

definition ratelimitMsg :: "(smsg \<Rightarrow> rsRetVal \<times> smsg) \<Rightarrow> int \<Rightarrow> msgptr option \<Rightarrow> msgheap \<Rightarrow> ratelimit \<Rightarrow>
    msgptr \<Rightarrow> (rsRetVal \<times> msgptr option \<times> notice list \<times> msgheap \<times> ratelimit) option" where
  "ratelimitMsg parse now new h rl pMsg =
     do {
       m \<leftarrow> h pMsg;
       let (r0, h0) = (if and (msgFlags m) msg_NEEDS_PARSING \<noteq> 0
                       then (case parse m of (r, m') \<Rightarrow> (r, h(pMsg \<mapsto> m'))) else (RS_RET_OK, h));
       if r0 \<noteq> RS_RET_OK then Some (RS_RET_DISCARDMSG, None, [], h0, rl)
       else do {
         m1 \<leftarrow> h0 pMsg;
         (pass, ns, rl1) \<leftarrow>
           (if interval rl \<noteq> 0 \<and> iSeverity m1 \<ge> severity rl
            then withinRatelimit now (ttGenTime m1) rl else Some (True, [], rl));
         if \<not> pass
         then do { h1 \<leftarrow> msgDestruct h0 pMsg; Some (RS_RET_DISCARDMSG, None, ns, h1, rl1) }
         else if bReduceRepeatMsgs rl1
         then do {
           (r, rep, h1, rl2) \<leftarrow> doLastMessageRepeatedNTimes new h0 rl1 pMsg;
           Some (r, rep, ns, h1, rl2)
         }
         else Some (RS_RET_OK, None, ns, h0, rl1)
       }
     }"

definition ratelimitDestruct :: "msgptr option \<Rightarrow> msgheap \<Rightarrow> ratelimit \<Rightarrow> (msgptr option \<times> notice list \<times> msgheap) option" where
  "ratelimitDestruct new h rl =
     do {
       (rep, h2) \<leftarrow>
         (case rl_pMsg rl of
            None \<Rightarrow> Some (None, h)
          | Some p \<Rightarrow> do {
              (rep, h1) \<leftarrow> (if nsupp rl > 0 then ratelimitGenRepMsg new h rl else Some (None, h));
              h2 \<leftarrow> msgDestruct h1 p;
              Some (rep, h2)
            });
       Some (rep, fst (tellLostCnt rl), h2)
     }"

section \<open>Submitting\<close>

text \<open>
  The way to the queue. \<open>queueExists\<close> is false while the main queue is not there (start-up and
  shutdown); \<open>enqMsg\<close> and \<open>multiEnq\<close> are the queue's entry points, \<open>oversize\<close> the treatment of
  a message over the line limit, which says whether it was split and submitted in parts. \<open>'w\<close> is
  the state they work on.
\<close>

record 'w submit_env =
  queueExists :: "'w \<Rightarrow> bool"
  enqMsg :: "msgptr \<Rightarrow> msgheap \<Rightarrow> 'w \<Rightarrow> rsRetVal \<times> msgheap \<times> 'w"
  multiEnq :: "msgptr list \<Rightarrow> msgheap \<Rightarrow> 'w \<Rightarrow> rsRetVal \<times> msgheap \<times> 'w"
  GetMaxLine :: int
  oversize :: "msgptr \<Rightarrow> msgheap \<Rightarrow> 'w \<Rightarrow> bool \<times> msgheap \<times> 'w"

record multi_submit =
  ms_maxElem :: nat
  ms_nElem :: nat
  ms_ppMsgs :: "msgptr option list"

definition submitMsg2 :: "'w submit_env \<Rightarrow> msgptr \<Rightarrow> msgheap \<Rightarrow> 'w \<Rightarrow> (rsRetVal \<times> msgheap \<times> 'w) option" where
  "submitMsg2 env pMsg h w =
     do {
       m \<leftarrow> h pMsg;
       let (split, h1, w1) = (if iLenRawMsg m > GetMaxLine env then oversize env pMsg h w else (False, h, w));
       if split
       then do { h2 \<leftarrow> msgDestruct h1 pMsg; Some (RS_RET_OK, h2, w1) }
       else if \<not> queueExists env w1 then Some (RS_RET_OK, h1, w1)
       else (case enqMsg env pMsg h1 w1 of (_, h2, w2) \<Rightarrow> Some (RS_RET_OK, h2, w2))
     }"

definition multiSubmitMsg2 :: "'w submit_env \<Rightarrow> multi_submit \<Rightarrow> msgheap \<Rightarrow> 'w \<Rightarrow>
    (rsRetVal \<times> multi_submit \<times> msgheap \<times> 'w) option" where
  "multiSubmitMsg2 env ms h w =
     (if ms_nElem ms = 0 \<or> \<not> queueExists env w then Some (RS_RET_OK, ms, h, w)
      else do {
        ps \<leftarrow> those (map (\<lambda>i. Option.bind (c_get (ms_ppMsgs ms) i) id) [0..<ms_nElem ms]);
        (case multiEnq env ps h w of (r, h1, w1) \<Rightarrow> Some (r, ms\<lparr>ms_nElem := 0\<rparr>, h1, w1))
      })"

definition multiSubmitFlush :: "'w submit_env \<Rightarrow> multi_submit \<Rightarrow> msgheap \<Rightarrow> 'w \<Rightarrow>
    (rsRetVal \<times> multi_submit \<times> msgheap \<times> 'w) option" where
  "multiSubmitFlush env ms h w =
     (if ms_nElem ms > 0 then multiSubmitMsg2 env ms h w else Some (RS_RET_OK, ms, h, w))"

text \<open>\<open>ppMsgs[nElem++] = p\<close>, then a submission when the structure is full.\<close>

definition ms_append :: "'w submit_env \<Rightarrow> multi_submit \<Rightarrow> msgptr \<Rightarrow> msgheap \<Rightarrow> 'w \<Rightarrow>
    (rsRetVal \<times> multi_submit \<times> msgheap \<times> 'w) option" where
  "ms_append env ms p h w =
     do {
       ps \<leftarrow> c_set (ms_ppMsgs ms) (ms_nElem ms) (Some p);
       let ms1 = ms\<lparr>ms_ppMsgs := ps, ms_nElem := ms_nElem ms + 1\<rparr>;
       if ms_nElem ms1 = ms_maxElem ms1 then multiSubmitMsg2 env ms1 h w else Some (RS_RET_OK, ms1, h, w)
     }"

definition addToMulti :: "'w submit_env \<Rightarrow> multi_submit \<Rightarrow> rsRetVal \<Rightarrow> msgptr option \<Rightarrow> msgptr \<Rightarrow>
    msgheap \<Rightarrow> 'w \<Rightarrow> (rsRetVal \<times> multi_submit \<times> msgheap \<times> 'w) option" where
  "addToMulti env ms localRet rep pMsg h w =
     do {
       (r1, ms1, h1, w1) \<leftarrow> (case rep of None \<Rightarrow> Some (RS_RET_OK, ms, h, w)
                             | Some q \<Rightarrow> ms_append env ms q h w);
       if r1 \<noteq> RS_RET_OK then Some (r1, ms1, h1, w1)
       else if localRet \<noteq> RS_RET_OK then Some (localRet, ms1, h1, w1)
       else do {
         m \<leftarrow> h1 pMsg;
         if iLenRawMsg m > GetMaxLine env
         then do {
           (r2, ms2, h2, w2) \<leftarrow> (if ms_nElem ms1 > 0 then multiSubmitMsg2 env ms1 h1 w1
                                 else Some (RS_RET_OK, ms1, h1, w1));
           if r2 \<noteq> RS_RET_OK then Some (r2, ms2, h2, w2)
           else do { (r3, h3, w3) \<leftarrow> submitMsg2 env pMsg h2 w2; Some (r3, ms2, h3, w3) }
         }
         else ms_append env ms1 pMsg h1 w1
       }
     }"

definition addSingle :: "'w submit_env \<Rightarrow> rsRetVal \<Rightarrow> msgptr option \<Rightarrow> msgptr \<Rightarrow> msgheap \<Rightarrow> 'w \<Rightarrow>
    (rsRetVal \<times> msgheap \<times> 'w) option" where
  "addSingle env localRet rep pMsg h w =
     do {
       (r1, h1, w1) \<leftarrow> (case rep of None \<Rightarrow> Some (RS_RET_OK, h, w) | Some q \<Rightarrow> submitMsg2 env q h w);
       if r1 \<noteq> RS_RET_OK then Some (r1, h1, w1)
       else if localRet \<noteq> RS_RET_OK then Some (localRet, h1, w1)
       else submitMsg2 env pMsg h1 w1
     }"

definition ratelimitAddMsg :: "'w submit_env \<Rightarrow> (smsg \<Rightarrow> rsRetVal \<times> smsg) \<Rightarrow> int \<Rightarrow> msgptr option \<Rightarrow>
    ratelimit \<Rightarrow> multi_submit option \<Rightarrow> msgptr \<Rightarrow> msgheap \<Rightarrow> 'w \<Rightarrow>
    (rsRetVal \<times> notice list \<times> ratelimit \<times> multi_submit option \<times> msgheap \<times> 'w) option" where
  "ratelimitAddMsg env parse now new rl pMultiSub pMsg h w =
     do {
       (localRet, rep, ns, h1, rl1) \<leftarrow> ratelimitMsg parse now new h rl pMsg;
       (case pMultiSub of
          None \<Rightarrow> do {
            (r, h2, w2) \<leftarrow> addSingle env localRet rep pMsg h1 w;
            Some (r, ns, rl1, None, h2, w2)
          }
        | Some ms \<Rightarrow> do {
            (r, ms1, h2, w2) \<leftarrow> addToMulti env ms localRet rep pMsg h1 w;
            Some (r, ns, rl1, Some ms1, h2, w2)
          })
     }"

section \<open>Lemmas\<close>

text \<open>The limiter over the arrival times of a sequence of messages: decisions, notices, final state.\<close>

fun runLimit :: "int \<Rightarrow> int list \<Rightarrow> ratelimit \<Rightarrow> (bool list \<times> notice list \<times> ratelimit) option" where
  "runLimit now [] rl = Some ([], [], rl)"
| "runLimit now (t # ts) rl =
     do {
       (b, ns, rl1) \<leftarrow> withinRatelimit now t rl;
       (bs, ns2, rl2) \<leftarrow> runLimit now ts rl1;
       Some (b # bs, ns @ ns2, rl2)
     }"

fun lost :: "notice list \<Rightarrow> 32 word" where
  "lost [] = 0"
| "lost (LostCnt n # ns) = n + lost ns"
| "lost (BeginDrop # ns) = lost ns"

lemma lost_append [simp]: "lost (xs @ ys) = lost xs + lost ys"
proof (induction xs)
  case (Cons x xs)
  then show ?case by (cases x) (simp_all add: add.assoc)
qed simp

lemma within_step:
  assumes "interval rl \<noteq> 0" and "burst rl \<noteq> 0"
  shows "\<exists>b ns rl1. withinRatelimit now t rl = Some (b, ns, rl1) \<and>
    lost ns + missed rl1 = missed rl + (if b then 0 else 1) \<and>
    interval rl1 = interval rl \<and> burst rl1 = burst rl"
  using assms by (auto simp: withinRatelimit_def tellLostCnt_def Let_def)

lemma within_window:
  assumes "interval rl \<noteq> 0" and "burst rl \<noteq> 0" and "\<not> bNoTimeCache rl" and "rl_begin rl \<noteq> 0"
    and "rl_begin rl \<le> t" and "t \<le> rl_begin rl + uint (interval rl)"
  shows "withinRatelimit now t rl =
    (if burst rl > rl_done rl then Some (True, [], rl\<lparr>rl_done := rl_done rl + 1\<rparr>)
     else Some (False, if missed rl + 1 = 1 then [BeginDrop] else [], rl\<lparr>missed := missed rl + 1\<rparr>))"
  using assms by (auto simp: withinRatelimit_def Let_def)

lemma unat_plus_one: "x < y \<Longrightarrow> unat (x + 1) = Suc (unat x)" for x y :: "32 word"
proof -
  assume "x < y"
  then have "unat x < unat y" by (simp add: word_less_nat_alt)
  moreover have "unat y < 2 ^ 32" using unsigned_less [of y, where 'a = nat] by simp
  ultimately show ?thesis by (simp add: unat_word_ariths)
qed

text \<open>
  What is left of the burst in the running window, and the notices of \<open>n\<close> refusals: one when
  the counter of missed messages becomes 1.
\<close>

definition burst_left :: "ratelimit \<Rightarrow> nat" where
  "burst_left rl = unat (burst rl) - unat (rl_done rl)"

definition drop_notices :: "32 word \<Rightarrow> nat \<Rightarrow> notice list" where
  "drop_notices c n = concat (map (\<lambda>i. if c + of_nat (Suc i) = 1 then [BeginDrop] else []) [0..<n])"

lemma drop_notices_Suc:
  "drop_notices c (Suc n) = (if c + 1 = 1 then [BeginDrop] else []) @ drop_notices (c + 1) n"
proof -
  have u: "[0..<Suc n] = 0 # map Suc [0..<n]" by (simp add: map_Suc_upt upt_conv_Cons del: upt_Suc)
  show ?thesis unfolding drop_notices_def u by (simp add: comp_def ac_simps)
qed

lemma runLimit_window:
  assumes "interval rl \<noteq> 0" and "burst rl \<noteq> 0" and "\<not> bNoTimeCache rl" and "rl_begin rl \<noteq> 0"
    and "rl_done rl \<le> burst rl"
    and "\<forall>t \<in> set ts. rl_begin rl \<le> t \<and> t \<le> rl_begin rl + uint (interval rl)"
  shows "runLimit now ts rl =
      Some (map (\<lambda>i. i < burst_left rl) [0..<length ts], drop_notices (missed rl) (length ts - burst_left rl),
        rl\<lparr>rl_done := rl_done rl + of_nat (min (length ts) (burst_left rl)),
           missed := missed rl + of_nat (length ts - burst_left rl)\<rparr>)"
  using assms
proof (induction ts arbitrary: rl)
  case Nil
  then show ?case by (simp add: drop_notices_def)
next
  case (Cons t ts)
  from Cons.prems have w: "rl_begin rl \<le> t" "t \<le> rl_begin rl + uint (interval rl)" by auto
  note step = within_window [OF Cons.prems(1-4) w, of now]
  have upt: "[0..<length (t # ts)] = 0 # map Suc [0..<length ts]"
    by (metis length_Cons upt_conv_Cons map_Suc_upt zero_less_Suc)
  show ?case
  proof (cases "burst rl > rl_done rl")
    case True
    have u: "unat (rl_done rl + 1) = Suc (unat (rl_done rl))"
      by (rule unat_plus_one [OF True])
    let ?rl = "rl\<lparr>rl_done := rl_done rl + 1\<rparr>"
    have le: "rl_done ?rl \<le> burst ?rl" using True by (simp add: inc_le)
    have "0 < unat (burst rl) - unat (rl_done rl)" using True by (simp add: word_less_nat_alt)
    with u have left: "burst_left rl = Suc (burst_left ?rl)" by (simp add: burst_left_def)
    have IH: "runLimit now ts ?rl =
      Some (map (\<lambda>i. i < burst_left ?rl) [0..<length ts], drop_notices (missed ?rl) (length ts - burst_left ?rl),
        ?rl\<lparr>rl_done := rl_done ?rl + of_nat (min (length ts) (burst_left ?rl)),
           missed := missed ?rl + of_nat (length ts - burst_left ?rl)\<rparr>)"
      by (rule Cons.IH) (use Cons.prems le in simp_all)
    show ?thesis using True step IH unfolding upt left by (simp add: comp_def ac_simps)
  next
    case False
    let ?rl = "rl\<lparr>missed := missed rl + 1\<rparr>"
    have left: "burst_left rl = 0" "burst_left ?rl = 0"
      using False by (simp_all add: burst_left_def word_le_nat_alt not_less)
    have IH: "runLimit now ts ?rl =
      Some (map (\<lambda>i. i < burst_left ?rl) [0..<length ts], drop_notices (missed ?rl) (length ts - burst_left ?rl),
        ?rl\<lparr>rl_done := rl_done ?rl + of_nat (min (length ts) (burst_left ?rl)),
           missed := missed ?rl + of_nat (length ts - burst_left ?rl)\<rparr>)"
      by (rule Cons.IH) (use Cons.prems in simp_all)
    show ?thesis using False step IH unfolding upt left
      by (simp add: comp_def ac_simps drop_notices_Suc)
  qed
qed

definition held :: "msgptr option \<Rightarrow> msgptr multiset" where
  "held r = (case r of None \<Rightarrow> {#} | Some p \<Rightarrow> {#p#})"

lemma held_simps [simp]: "held None = {#}" "held (Some p) = {#p#}"
  by (simp_all add: held_def)

lemma replace_refs:
  assumes "refs_ok own h" and "p \<in># own"
  shows "\<exists>m. h p = Some m \<and> MsgReplaceMSG h p txt = Some (h(p \<mapsto> m\<lparr>msgMSG := txt\<rparr>)) \<and>
    refs_ok own (h(p \<mapsto> m\<lparr>msgMSG := txt\<rparr>))"
proof -
  from assms obtain m where m: "h p = Some m" using refs_ok_live by blast
  have "refs_ok own (h(p \<mapsto> m\<lparr>msgMSG := txt\<rparr>))"
    by (rule refs_ok_cong [OF assms(1)]) (simp add: m)
  with m show ?thesis by (simp add: MsgReplaceMSG_def)
qed

text \<open>
  The summary of \<open>n\<close> suppressed repetitions of message \<open>p\<close>: the message itself for one, a new
  message \<open>q\<close> with the text of the summary for more (none when it cannot be allocated).
\<close>

definition summary :: "msgptr option \<Rightarrow> 32 word \<Rightarrow> msgptr \<Rightarrow> msgptr option" where
  "summary new n p = (if n = 0 then None else if n = 1 then Some p else new)"

definition summary_text :: "msgptr option \<Rightarrow> 32 word \<Rightarrow> string \<Rightarrow> msgheap \<Rightarrow> bool" where
  "summary_text new n txt h \<longleftrightarrow>
     (n \<noteq> 0 \<and> n \<noteq> 1 \<longrightarrow> (\<forall>q. new = Some q \<longrightarrow> map_option msgMSG (h q) = Some (repText n txt)))"

lemma genRepMsg_refs:
  assumes "refs_ok own h" and "p \<in># own" and "rl_pMsg rl = Some p" and "\<forall>q. new = Some q \<longrightarrow> h q = None"
    and "nsupp rl \<noteq> 0" and "h p = Some m"
  shows "\<exists>h'. ratelimitGenRepMsg new h rl = Some (summary new (nsupp rl) p, h') \<and>
    refs_ok (held (summary new (nsupp rl) p) + own) h' \<and> summary_text new (nsupp rl) (msgMSG m) h'"
proof (cases "nsupp rl = 1")
  case True
  with MsgAddRef_refs [OF assms(1,2)] assms(3) show ?thesis
    by (auto simp: ratelimitGenRepMsg_def summary_def summary_text_def)
next
  case False
  from MsgDup_refs [OF assms(1,2,4)] obtain h1 where d: "MsgDup new h p = Some (new, h1)"
    "refs_ok (own + (case new of None \<Rightarrow> {#} | Some q \<Rightarrow> {#q#})) h1"
    "\<forall>q. new = Some q \<longrightarrow> h1 = h(q \<mapsto> (the (h p))\<lparr>flowCtlType := eFLOWCTL_NO_DELAY, iRefCount := 1\<rparr>)" by blast
  show ?thesis
  proof (cases new)
    case None
    with False d assms(3,5) show ?thesis by (simp add: ratelimitGenRepMsg_def summary_def summary_text_def)
  next
    case (Some q)
    then have "q \<noteq> p" using assms(4,6) by auto
    then have h1p: "h1 p = Some m" using d(3) Some assms(6) by simp
    have own: "refs_ok (add_mset q own) h1" using d(2) Some by simp
    from replace_refs [OF this, of q "repText (nsupp rl) (msgMSG m)"] obtain mq where
      "MsgReplaceMSG h1 q (repText (nsupp rl) (msgMSG m)) = Some (h1(q \<mapsto> mq\<lparr>msgMSG := repText (nsupp rl) (msgMSG m)\<rparr>))"
      "refs_ok (add_mset q own) (h1(q \<mapsto> mq\<lparr>msgMSG := repText (nsupp rl) (msgMSG m)\<rparr>))" by auto
    with False d(1) assms(3,5) Some h1p show ?thesis
      by (simp add: ratelimitGenRepMsg_def summary_def summary_text_def)
  qed
qed

lemma summary_text_kept:
  assumes "summary_text new n txt h" "\<And>q. new = Some q \<Longrightarrow> map_option msgMSG (h' q) = map_option msgMSG (h q)"
  shows "summary_text new n txt h'"
  using assms by (auto simp: summary_text_def)

lemma destruct_other: "msgDestruct h p = Some h' \<Longrightarrow> q \<noteq> p \<Longrightarrow> h' q = h q"
  by (auto simp: msgDestruct_def Let_def split: option.splits if_splits)

lemma addref_text: "MsgAddRef h p = Some h' \<Longrightarrow> map_option msgMSG (h' q) = map_option msgMSG (h q)"
  by (auto simp: MsgAddRef_def split: option.splits)

text \<open>The two outcomes of the reduction.\<close>

definition is_repeat :: "msgheap \<Rightarrow> ratelimit \<Rightarrow> msgptr \<Rightarrow> bool" where
  "is_repeat h rl pMsg \<longleftrightarrow>
     (case (rl_pMsg rl, h pMsg) of
        (Some p, Some m) \<Rightarrow> (case h p of Some old \<Rightarrow> sameMsg m old | None \<Rightarrow> False)
      | _ \<Rightarrow> False)"

definition due_summary :: "msgptr option \<Rightarrow> ratelimit \<Rightarrow> msgptr option" where
  "due_summary new rl = Option.bind (rl_pMsg rl) (summary new (nsupp rl))"

lemma repeated_same:
  assumes "refs_ok (add_mset pMsg (held (rl_pMsg rl) + own)) h" and "is_repeat h rl pMsg"
  shows "\<exists>h'. doLastMessageRepeatedNTimes new h rl pMsg =
      Some (RS_RET_DISCARDMSG, None, h', rl\<lparr>nsupp := nsupp rl + 1, rl_pMsg := Some pMsg\<rparr>) \<and>
    refs_ok (add_mset pMsg own) h'"
proof -
  from assms(2) obtain p m old where p: "rl_pMsg rl = Some p" "h pMsg = Some m" "h p = Some old" "sameMsg m old"
    by (auto simp: is_repeat_def split: option.splits)
  with assms(1) have "refs_ok (add_mset p (add_mset pMsg own)) h" by (simp add: add_mset_commute)
  from msgDestruct_refs [OF this] p show ?thesis by (auto simp: doLastMessageRepeatedNTimes_def)
qed

lemma repeated_other:
  assumes "refs_ok (add_mset pMsg (held (rl_pMsg rl) + own)) h" and "\<forall>q. new = Some q \<longrightarrow> h q = None"
    and "\<not> is_repeat h rl pMsg"
  shows "\<exists>h'. doLastMessageRepeatedNTimes new h rl pMsg =
      Some (RS_RET_OK, due_summary new rl, h',
        rl\<lparr>nsupp := (if rl_pMsg rl = None then nsupp rl else 0), rl_pMsg := Some pMsg\<rparr>) \<and>
    refs_ok (add_mset pMsg (add_mset pMsg (held (due_summary new rl) + own))) h' \<and>
    (\<forall>p old. rl_pMsg rl = Some p \<and> h p = Some old \<longrightarrow> summary_text new (nsupp rl) (msgMSG old) h')"
proof -
  from assms(1) obtain m where m: "h pMsg = Some m" using refs_ok_live by fastforce
  show ?thesis
  proof (cases "rl_pMsg rl")
    case None
    with assms(1) have "refs_ok (add_mset pMsg own) h" by simp
    from MsgAddRef_refs [OF this, of pMsg] obtain h3 where
      "MsgAddRef h pMsg = Some h3" "refs_ok (add_mset pMsg (add_mset pMsg own)) h3" by auto
    with m None show ?thesis by (simp add: doLastMessageRepeatedNTimes_def due_summary_def)
  next
    case (Some p)
    with assms(1) have own: "refs_ok (add_mset p (add_mset pMsg own)) h"
      by (simp add: add_mset_commute)
    then obtain old where old: "h p = Some old" using refs_ok_live by fastforce
    have diff: "\<not> sameMsg m old" using assms(3) Some m old by (simp add: is_repeat_def)
    have ds: "due_summary new rl = summary new (nsupp rl) p" using Some by (simp add: due_summary_def)
    let ?gen = "if nsupp rl > 0
      then do { (rep, h1) \<leftarrow> ratelimitGenRepMsg new h rl; Some (rep, h1, rl\<lparr>nsupp := 0\<rparr>) }
      else Some (None, h, rl)"
    have "\<exists>h1. ?gen = Some (due_summary new rl, h1, rl\<lparr>nsupp := 0\<rparr>) \<and>
      refs_ok (held (due_summary new rl) + add_mset p (add_mset pMsg own)) h1 \<and>
      summary_text new (nsupp rl) (msgMSG old) h1"
    proof (cases "nsupp rl = 0")
      case False
      then have pos: "nsupp rl > 0" by (simp add: word_neq_0_conv)
      from genRepMsg_refs [OF own _ Some assms(2) False old] obtain h1 where
        "ratelimitGenRepMsg new h rl = Some (summary new (nsupp rl) p, h1)"
        "refs_ok (held (summary new (nsupp rl) p) + add_mset p (add_mset pMsg own)) h1"
        "summary_text new (nsupp rl) (msgMSG old) h1" by auto
      with pos show ?thesis unfolding ds by simp
    next
      case True
      then have "rl\<lparr>nsupp := 0\<rparr> = rl" by simp
      with own True show ?thesis unfolding ds by (simp add: summary_def summary_text_def)
    qed
    then obtain h1 where g: "?gen = Some (due_summary new rl, h1, rl\<lparr>nsupp := 0\<rparr>)"
      "refs_ok (add_mset p (add_mset pMsg (held (due_summary new rl) + own))) h1"
      "summary_text new (nsupp rl) (msgMSG old) h1" by auto
    from msgDestruct_refs [OF g(2)] obtain h2 where
      h2: "msgDestruct h1 p = Some h2" "refs_ok (add_mset pMsg (held (due_summary new rl) + own)) h2" by blast
    from MsgAddRef_refs [OF h2(2), of pMsg] obtain h3 where
      h3: "MsgAddRef h2 pMsg = Some h3" "refs_ok (add_mset pMsg (add_mset pMsg (held (due_summary new rl) + own))) h3"
      by auto
    have "map_option msgMSG (h3 q) = map_option msgMSG (h1 q)" if "new = Some q" for q
    proof -
      have "q \<noteq> p" using assms(2) old that by auto
      with destruct_other [OF h2(1)] addref_text [OF h3(1), of q] show ?thesis by simp
    qed
    from summary_text_kept [OF g(3) this] have "summary_text new (nsupp rl) (msgMSG old) h3" .
    moreover have "doLastMessageRepeatedNTimes new h rl pMsg =
        Some (RS_RET_OK, due_summary new rl, h3, rl\<lparr>nsupp := 0, rl_pMsg := Some pMsg\<rparr>)"
      using diff m old Some g(1) h2(1) h3(1) by (simp add: doLastMessageRepeatedNTimes_def)
    ultimately show ?thesis using h3(2) Some old by simp
  qed
qed

section \<open>Properties\<close>

definition rl_ex :: ratelimit where
  "rl_ex = ratelimitSetLinuxLike (the (snd (ratelimitNew True True))) 5 2"

definition m_ex :: "string \<Rightarrow> smsg" where
  "m_ex t = \<lparr>flowCtlType = eFLOWCTL_NO_DELAY, iRefCount = 1, iSeverity = 6, msgFlags = 0,
     iLenRawMsg = 0, ttGenTime = 100, msgMSG = t, msgHOSTNAME = [], msgPROCID = [], msgAPPNAME = []\<rparr>"

text \<open>
  C18: Inside one interval the limiter lets exactly the remaining burst through: of the
  messages that arrive in the running window the first \<open>burst - done\<close> pass and are counted as
  done, all others are refused and counted as missed (modulo the 32 bits of the counter), and the
  start of dropping is announced once when that counter becomes 1, in any number and order of
  arrival times; nothing else of the limiter changes.
\<close>

theorem burst_bound:
  assumes "interval rl \<noteq> 0" and "burst rl \<noteq> 0" and "\<not> bNoTimeCache rl" and "rl_begin rl \<noteq> 0"
    and "rl_done rl \<le> burst rl"
    and "\<forall>t \<in> set ts. rl_begin rl \<le> t \<and> t \<le> rl_begin rl + uint (interval rl)"
  shows "runLimit now ts rl =
      Some (map (\<lambda>i. i < burst_left rl) [0..<length ts], drop_notices (missed rl) (length ts - burst_left rl),
        rl\<lparr>rl_done := rl_done rl + of_nat (min (length ts) (burst_left rl)),
           missed := missed rl + of_nat (length ts - burst_left rl)\<rparr>)"
  using assms by (rule runLimit_window)

theorem burst_bound_witness:
  "runLimit 0 [100, 103, 101, 102] (rl_ex\<lparr>rl_begin := 100\<rparr>) =
     Some ([True, True, False, False], [BeginDrop], rl_ex\<lparr>rl_begin := 100, rl_done := 2, missed := 2\<rparr>)"
proof -
  have "burst_left (rl_ex\<lparr>rl_begin := 100\<rparr>) = 2"
    by (simp add: burst_left_def rl_ex_def ratelimitSetLinuxLike_def ratelimitNew_def)
  moreover have "drop_notices 0 (Suc (Suc 0)) = [BeginDrop]" by (simp add: drop_notices_def upt_rec)
  ultimately show ?thesis
    using burst_bound [of "rl_ex\<lparr>rl_begin := 100\<rparr>" "[100, 103, 101, 102]" 0]
    by (simp add: rl_ex_def ratelimitSetLinuxLike_def ratelimitNew_def upt_rec)
qed

text \<open>
  C19: No dropped message goes unreported: over any sequence of arrivals, windows and jumps of
  the clock included, the lost counts logged plus the count still pending grow by exactly the
  number of messages dropped (modulo the 32 bits of the counter), and no arrival fails.
\<close>

theorem dropped_messages_reported:
  assumes "interval rl \<noteq> 0" and "burst rl \<noteq> 0"
  shows "\<exists>bs ns rl'. runLimit now ts rl = Some (bs, ns, rl') \<and> length bs = length ts \<and>
    lost ns + missed rl' = missed rl + of_nat (length (filter Not bs))"
  using assms
proof (induction ts arbitrary: rl)
  case Nil
  then show ?case by simp
next
  case (Cons t ts)
  from within_step [OF Cons.prems] obtain b ns rl1 where
    st: "withinRatelimit now t rl = Some (b, ns, rl1)" "lost ns + missed rl1 = missed rl + (if b then 0 else 1)"
      "interval rl1 = interval rl" "burst rl1 = burst rl" by blast
  with Cons.IH [of rl1] Cons.prems obtain bs ns2 rl2 where
    "runLimit now ts rl1 = Some (bs, ns2, rl2)" "length bs = length ts"
    "lost ns2 + missed rl2 = missed rl1 + of_nat (length (filter Not bs))" by auto
  then have run: "runLimit now (t # ts) rl = Some (b # bs, ns @ ns2, rl2)"
    and len: "length (b # bs) = length (t # ts)" and
    l: "lost ns2 + missed rl2 = missed rl1 + of_nat (length (filter Not bs))"
    using st(1) by simp_all
  have "lost (ns @ ns2) + missed rl2 = lost ns + (lost ns2 + missed rl2)" by (simp add: add.assoc)
  also have "\<dots> = (lost ns + missed rl1) + of_nat (length (filter Not bs))" unfolding l by (simp add: add.assoc)
  also have "\<dots> = missed rl + of_nat (length (filter Not (b # bs)))" unfolding st(2) by (simp add: add.assoc)
  finally show ?case using run len by blast
qed

theorem dropped_messages_reported_witness:
  "\<exists>bs ns rl'. runLimit 0 [100, 103, 101, 120] rl_ex = Some (bs, ns, rl') \<and> length bs = length [100, 103, 101, 120 :: int] \<and>
    lost ns + missed rl' = missed rl_ex + of_nat (length (filter Not bs))"
  by (rule dropped_messages_reported) (simp_all add: rl_ex_def ratelimitSetLinuxLike_def)

text \<open>
  C20: The "repeated n times" reduction accounts exactly for every reference. A repetition of the
  held message is counted and discarded: the limiter releases the held message and keeps the
  current one in the caller's place. Any other message stays the caller's and is held as well
  (one more reference), the held one is released, the count restarts, and when repetitions were
  suppressed their summary is handed out with a reference of its own: the held message itself for
  one repetition, a new message with the "message repeated" text and the count for more (nothing
  when it cannot be allocated).
\<close>

theorem repeat_reduction_conserves_references:
  assumes "refs_ok (add_mset pMsg (held (rl_pMsg rl) + own)) h" and "\<forall>q. new = Some q \<longrightarrow> h q = None"
  shows "if is_repeat h rl pMsg
    then \<exists>h'. doLastMessageRepeatedNTimes new h rl pMsg =
        Some (RS_RET_DISCARDMSG, None, h', rl\<lparr>nsupp := nsupp rl + 1, rl_pMsg := Some pMsg\<rparr>) \<and>
      refs_ok (add_mset pMsg own) h'
    else \<exists>h'. doLastMessageRepeatedNTimes new h rl pMsg =
        Some (RS_RET_OK, due_summary new rl, h',
          rl\<lparr>nsupp := (if rl_pMsg rl = None then nsupp rl else 0), rl_pMsg := Some pMsg\<rparr>) \<and>
      refs_ok (add_mset pMsg (add_mset pMsg (held (due_summary new rl) + own))) h' \<and>
      (\<forall>p old. rl_pMsg rl = Some p \<and> h p = Some old \<longrightarrow> summary_text new (nsupp rl) (msgMSG old) h')"
proof (cases "is_repeat h rl pMsg")
  case True
  with repeated_same [OF assms(1) this] show ?thesis by simp
next
  case False
  with repeated_other [OF assms this] show ?thesis by simp
qed

text \<open>The witness: three repetitions of message 1 were suppressed when message 2 arrives.\<close>

theorem repeat_reduction_conserves_references_witness:
  "\<exists>h'. doLastMessageRepeatedNTimes (Some 9) [1 \<mapsto> m_ex ''a'', 2 \<mapsto> m_ex ''b''] (rl_ex\<lparr>rl_pMsg := Some 1, nsupp := 3\<rparr>) 2 =
      Some (RS_RET_OK, Some 9, h', rl_ex\<lparr>rl_pMsg := Some 2, nsupp := 0\<rparr>) \<and>
    refs_ok {#2, 2, 9#} h' \<and> map_option msgMSG (h' 9) = Some (repText 3 ''a'')"
proof -
  let ?h = "[1 \<mapsto> m_ex ''a'', 2 \<mapsto> m_ex ''b''] :: msgheap" and ?rl = "rl_ex\<lparr>rl_pMsg := Some 1, nsupp := 3\<rparr>"
  have r: "refs_ok (add_mset 2 (held (rl_pMsg ?rl) + {#})) ?h"
    by (rule refs_okI) (auto simp: m_ex_def split: if_splits)
  have d: "\<not> is_repeat ?h ?rl 2" "due_summary (Some 9) ?rl = Some 9"
    by (simp_all add: is_repeat_def sameMsg_def m_ex_def due_summary_def summary_def)
  have "\<forall>q. Some 9 = Some q \<longrightarrow> ?h q = None" by simp
  from repeat_reduction_conserves_references [OF r this, unfolded if_not_P [OF d(1)]] obtain h' where
    h: "doLastMessageRepeatedNTimes (Some 9) ?h ?rl 2 =
      Some (RS_RET_OK, due_summary (Some 9) ?rl, h',
        ?rl\<lparr>nsupp := (if rl_pMsg ?rl = None then nsupp ?rl else 0), rl_pMsg := Some 2\<rparr>)" and
    f: "refs_ok (add_mset 2 (add_mset 2 (held (due_summary (Some 9) ?rl) + {#}))) h'" and
    s: "\<forall>p old. rl_pMsg ?rl = Some p \<and> ?h p = Some old \<longrightarrow> summary_text (Some 9) (nsupp ?rl) (msgMSG old) h'"
    by blast
  from s [rule_format, of 1 "m_ex ''a''"] have "map_option msgMSG (h' 9) = Some (repText 3 ''a'')"
    by (simp add: summary_text_def m_ex_def)
  with h f show ?thesis unfolding d(2) by simp
qed

text \<open>
  While the target queue does not exist a full multi-submit structure is not emptied: the
  message that fills it is accepted with OK, and the next one is written past the end of the
  array.
\<close>

theorem multi_submit_overflows_without_queue:
  assumes "\<not> queueExists env w" and "interval rl = 0" and "\<not> bReduceRepeatMsgs rl"
    and "h p = Some m" and "msgFlags m = 0" and "iLenRawMsg m \<le> GetMaxLine env"
    and "length (ms_ppMsgs ms) = ms_maxElem ms" and "Suc (ms_nElem ms) = ms_maxElem ms"
  shows "\<exists>ms'. ratelimitAddMsg env parse now new rl (Some ms) p h w = Some (RS_RET_OK, [], rl, Some ms', h, w) \<and>
    ratelimitAddMsg env parse now new rl (Some ms') p h w = None"
proof -
  have r: "ratelimitMsg parse now new h rl p = Some (RS_RET_OK, None, [], h, rl)"
    using assms by (simp add: ratelimitMsg_def)
  let ?ms = "ms\<lparr>ms_ppMsgs := (ms_ppMsgs ms)[ms_nElem ms := Some p], ms_nElem := Suc (ms_nElem ms)\<rparr>"
  have "ms_append env ms p h w = Some (RS_RET_OK, ?ms, h, w)"
    using assms by (auto simp: ms_append_def multiSubmitMsg2_def Let_def)
  moreover have "ms_append env ?ms p h w = None"
    using assms by (simp add: ms_append_def)
  ultimately show ?thesis using r assms(4,6)
    by (intro exI [of _ ?ms]) (simp add: ratelimitAddMsg_def addToMulti_def)
qed

definition submit_env_ex :: "unit submit_env" where
  "submit_env_ex = \<lparr>queueExists = (\<lambda>_. False), enqMsg = (\<lambda>_ h w. (RS_RET_OK, h, w)),
     multiEnq = (\<lambda>_ h w. (RS_RET_OK, h, w)), GetMaxLine = 100, oversize = (\<lambda>_ h w. (False, h, w))\<rparr>"

theorem multi_submit_overflows_without_queue_witness:
  "\<exists>ms'. ratelimitAddMsg submit_env_ex (Pair RS_RET_OK) 0 None (rl_ex\<lparr>interval := 0, bReduceRepeatMsgs := False\<rparr>)
      (Some \<lparr>ms_maxElem = 1, ms_nElem = 0, ms_ppMsgs = [None]\<rparr>) 7 [7 \<mapsto> m_ex ''a''] () =
    Some (RS_RET_OK, [], rl_ex\<lparr>interval := 0, bReduceRepeatMsgs := False\<rparr>, Some ms', [7 \<mapsto> m_ex ''a''], ()) \<and>
    ratelimitAddMsg submit_env_ex (Pair RS_RET_OK) 0 None (rl_ex\<lparr>interval := 0, bReduceRepeatMsgs := False\<rparr>)
      (Some ms') 7 [7 \<mapsto> m_ex ''a''] () = None"
  by (rule multi_submit_overflows_without_queue [where m = "m_ex ''a''"])
    (simp_all add: submit_env_ex_def m_ex_def)

text \<open>
  A message that cannot be parsed is discarded without being released, while the one over the
  limit is: the caller gets the same code for both.
\<close>

lemma parse_failure_keeps_message:
  assumes "h p = Some m" and "and (msgFlags m) msg_NEEDS_PARSING \<noteq> 0" and "parse m = (r, m')" and "r \<noteq> RS_RET_OK"
  shows "ratelimitMsg parse now new h rl p = Some (RS_RET_DISCARDMSG, None, [], h(p \<mapsto> m'), rl)"
  using assms by (simp add: ratelimitMsg_def)

end
