(* ===== verification/Hashtable.thy ===== *)
theory Hashtable
  imports Prelude
begin

text \<open>
  The hash table (runtime/hashtable.c): buckets of chained entries, a prime size that grows
  with the load, and the two generic functions for string keys. A bucket is the list of its
  entries from the head on. Keys and values are values here; releasing them (\<open>free\<close>, the
  destructor) is the list of what \<open>hashtable_destroy\<close> frees.
\<close>

section \<open>The table\<close>

record ('k, 'v) entry =
  ek :: 'k
  ev :: 'v
  eh :: "32 word"

record ('k, 'v) hashtable =
  tablelength :: "32 word"
  table :: "('k, 'v) entry list list"
  entrycount :: "32 word"
  loadlimit :: "32 word"
  primeindex :: nat
  hashfn :: "'k \<Rightarrow> 32 word"
  eqfn :: "'k \<Rightarrow> 'k \<Rightarrow> bool"

definition primes :: "32 word list" where
  "primes =
     [53, 97, 193, 389, 769, 1543, 3079, 6151, 12289, 24593, 49157, 98317, 196613, 393241,
      786433, 1572869, 3145739, 6291469, 12582917, 25165843, 50331653, 100663319, 201326611,
      402653189, 805306457, 1610612741]"

definition prime_table_length :: nat where "prime_table_length = length primes"

definition MAX_LOAD_FACTOR :: "64 word" where "MAX_LOAD_FACTOR = 65"

text \<open>The cast to 32 bits applies to the product, before the division.\<close>

definition getLoadLimit :: "32 word \<Rightarrow> 32 word" where
  "getLoadLimit sz = (ucast (ucast sz * MAX_LOAD_FACTOR :: 64 word) :: 32 word) div 100"

fun findPrime :: "32 word \<Rightarrow> 32 word list \<Rightarrow> nat \<Rightarrow> (32 word \<times> nat) option" where
  "findPrime minsize [] i = None"
| "findPrime minsize (p # ps) i = (if p > minsize then Some (p, i) else findPrime minsize ps (Suc i))"

definition create_hashtable :: "bool \<Rightarrow> 32 word \<Rightarrow> ('k \<Rightarrow> 32 word) \<Rightarrow> ('k \<Rightarrow> 'k \<Rightarrow> bool) \<Rightarrow>
    ('k, 'v) hashtable option" where
  "create_hashtable mallocOK minsize hashf eqf =
     (if minsize > 0x40000000 \<or> \<not> mallocOK then None
      else (let (sz, pindex) = (case findPrime minsize primes 0 of
                                    Some r \<Rightarrow> r | None \<Rightarrow> (primes ! 0, prime_table_length))
            in Some \<lparr>tablelength = sz, table = replicate (unat sz) [], entrycount = 0,
                     loadlimit = getLoadLimit sz, primeindex = pindex, hashfn = hashf, eqfn = eqf\<rparr>))"

definition hash :: "('k, 'v) hashtable \<Rightarrow> 'k \<Rightarrow> 32 word" where
  "hash h k =
     (let i0 = hashfn h k;
          i1 = i0 + not (push_bit 9 i0);
          i2 = xor i1 (or (drop_bit 14 i1) (push_bit 18 i1));
          i3 = i2 + push_bit 4 i2
      in xor i3 (or (drop_bit 10 i3) (push_bit 22 i3)))"

definition indexFor :: "32 word \<Rightarrow> 32 word \<Rightarrow> nat" where
  "indexFor len hashvalue = unat (hashvalue mod len)"

section \<open>Growing\<close>

definition push_entry :: "32 word \<Rightarrow> ('k, 'v) entry \<Rightarrow> ('k, 'v) entry list list \<Rightarrow> ('k, 'v) entry list list option" where
  "push_entry len e t =
     do { b \<leftarrow> c_get t (indexFor len (eh e)); c_set t (indexFor len (eh e)) (e # b) }"

fun move_bucket :: "32 word \<Rightarrow> ('k, 'v) entry list \<Rightarrow> ('k, 'v) entry list list \<Rightarrow> ('k, 'v) entry list list option" where
  "move_bucket len [] t = Some t"
| "move_bucket len (e # es) t = do { t1 \<leftarrow> push_entry len e t; move_bucket len es t1 }"

fun move_all :: "32 word \<Rightarrow> ('k, 'v) entry list list \<Rightarrow> ('k, 'v) entry list list \<Rightarrow> ('k, 'v) entry list list option" where
  "move_all len [] t = Some t"
| "move_all len (b # bs) t = do { t1 \<leftarrow> move_bucket len b t; move_all len bs t1 }"

text \<open>
  \<open>hashtable_expand\<close>. When the new table cannot be allocated it tries to grow the old one; the
  \<open>memset\<close> of that branch takes the content of the first new cell, which nobody wrote, as the
  address to clear: undefined.
\<close>

definition hashtable_expand :: "bool \<Rightarrow> bool \<Rightarrow> ('k, 'v) hashtable \<Rightarrow> (int \<times> ('k, 'v) hashtable) option" where
  "hashtable_expand mallocOK reallocOK h =
     (if primeindex h = prime_table_length - 1 then Some (0, h)
      else do {
        newsize \<leftarrow> c_get primes (primeindex h + 1);
        if mallocOK
        then do {
          t \<leftarrow> move_all newsize (table h) (replicate (unat newsize) []);
          Some (-1, h\<lparr>primeindex := primeindex h + 1, table := t, tablelength := newsize,
                      loadlimit := getLoadLimit newsize\<rparr>)
        }
        else if \<not> reallocOK then Some (0, h)
        else None
      })"

section \<open>Operations\<close>

definition hashtable_count :: "('k, 'v) hashtable \<Rightarrow> 32 word" where
  "hashtable_count h = entrycount h"

text \<open>The three booleans: the two allocations of an expansion and the one of the entry.\<close>

definition hashtable_insert :: "bool \<Rightarrow> bool \<Rightarrow> bool \<Rightarrow> ('k, 'v) hashtable \<Rightarrow> 'k \<Rightarrow> 'v \<Rightarrow>
    (int \<times> ('k, 'v) hashtable) option" where
  "hashtable_insert m1 m2 m3 h k v =
     do {
       let h1 = h\<lparr>entrycount := entrycount h + 1\<rparr>;
       h2 \<leftarrow> (if entrycount h1 > loadlimit h1 then map_option snd (hashtable_expand m1 m2 h1) else Some h1);
       if \<not> m3 then Some (0, h2\<lparr>entrycount := entrycount h2 - 1\<rparr>)
       else do {
         t \<leftarrow> push_entry (tablelength h2) \<lparr>ek = k, ev = v, eh = hash h2 k\<rparr> (table h2);
         Some (-1, h2\<lparr>table := t\<rparr>)
       }
     }"

definition entry_matches :: "('k, 'v) hashtable \<Rightarrow> 32 word \<Rightarrow> 'k \<Rightarrow> ('k, 'v) entry \<Rightarrow> bool" where
  "entry_matches h hashvalue k e \<longleftrightarrow> hashvalue = eh e \<and> eqfn h k (ek e)"

definition hashtable_search :: "('k, 'v) hashtable \<Rightarrow> 'k \<Rightarrow> 'v option option" where
  "hashtable_search h k =
     do {
       let hashvalue = hash h k;
       b \<leftarrow> c_get (table h) (indexFor (tablelength h) hashvalue);
       Some (map_option ev (find (entry_matches h hashvalue k) b))
     }"

text \<open>Unlinking the first match: the value and the rest of the chain.\<close>

fun unlink :: "('e \<Rightarrow> bool) \<Rightarrow> 'e list \<Rightarrow> ('e \<times> 'e list) option" where
  "unlink P [] = None"
| "unlink P (e # es) = (if P e then Some (e, es) else map_option (\<lambda>(x, r). (x, e # r)) (unlink P es))"

definition hashtable_remove :: "('k, 'v) hashtable \<Rightarrow> 'k \<Rightarrow> ('v option \<times> ('k, 'v) hashtable) option" where
  "hashtable_remove h k =
     do {
       let hashvalue = hash h k;
       let idx = indexFor (tablelength h) (hash h k);
       b \<leftarrow> c_get (table h) idx;
       (case unlink (entry_matches h hashvalue k) b of
          None \<Rightarrow> Some (None, h)
        | Some (e, rest) \<Rightarrow>
            Some (Some (ev e), h\<lparr>table := (table h)[idx := rest], entrycount := entrycount h - 1\<rparr>))
     }"

text \<open>The keys and, if asked for, the values that are freed, in order.\<close>

definition hashtable_destroy :: "('k, 'v) hashtable \<Rightarrow> bool \<Rightarrow> 'k list \<times> 'v list" where
  "hashtable_destroy h free_values =
     (map ek (concat (table h)), if free_values then map ev (concat (table h)) else [])"

section \<open>String keys\<close>

text \<open>\<open>char\<close> is signed: a character above 127 is added as a negative number.\<close>

fun hash_string_from :: "32 word \<Rightarrow> string \<Rightarrow> 32 word" where
  "hash_string_from hv [] = hv"
| "hash_string_from hv (c # cs) = hash_string_from (hv * 33 + scast (of_char c :: 8 word)) cs"

definition hash_from_string :: "string \<Rightarrow> 32 word" where
  "hash_from_string k = hash_string_from 1 k"

definition key_equals_string :: "string \<Rightarrow> string \<Rightarrow> bool" where
  "key_equals_string a b \<longleftrightarrow> a = b"

section \<open>The invariant\<close>

definition entries :: "('k, 'v) hashtable \<Rightarrow> ('k, 'v) entry multiset" where
  "entries h = mset (concat (table h))"

definition uniq :: "('k \<Rightarrow> 'k \<Rightarrow> bool) \<Rightarrow> ('k, 'v) entry multiset \<Rightarrow> bool" where
  "uniq eq M \<longleftrightarrow> (\<forall>e \<in># M. \<forall>e' \<in># M - {#e#}. \<not> eq (ek e) (ek e'))"

text \<open>Every entry sits in the bucket its hash value says, of a table of the recorded length.\<close>

definition placed :: "32 word \<Rightarrow> ('k, 'v) entry list list \<Rightarrow> bool" where
  "placed len t \<longleftrightarrow> length t = unat len \<and> (\<forall>i < length t. \<forall>e \<in> set (t ! i). indexFor len (eh e) = i)"

definition ht_ok :: "('k, 'v) hashtable \<Rightarrow> bool" where
  "ht_ok h \<longleftrightarrow>
     primeindex h < prime_table_length \<and> tablelength h = primes ! primeindex h \<and>
     placed (tablelength h) (table h) \<and> (\<forall>e \<in># entries h. eh e = hash h (ek e)) \<and>
     uniq (eqfn h) (entries h) \<and> unat (entrycount h) = size (entries h)"

lemma primes_pos: "i < prime_table_length \<Longrightarrow> 0 < primes ! i"
  by (simp add: prime_table_length_def primes_def nth_Cons' split: if_splits)

lemma index_in: "length t = unat len \<Longrightarrow> 0 < len \<Longrightarrow> indexFor len x < length t"
  unfolding indexFor_def using word_mod_less_divisor [of len x] by (simp add: word_less_nat_alt)

lemma placed_update:
  assumes "placed len t" "\<forall>e \<in> set b. indexFor len (eh e) = i"
  shows "placed len (t[i := b])"
  using assms by (cases "i < length t") (auto simp: placed_def nth_list_update list_update_beyond split: if_splits)

lemma push_entry_ok:
  assumes "placed len t" "0 < len"
  shows "\<exists>t'. push_entry len e t = Some t' \<and> placed len t' \<and>
           mset (concat t') = add_mset e (mset (concat t))"
proof -
  let ?i = "indexFor len (eh e)"
  have i: "?i < length t" using index_in [of t len "eh e"] assms by (simp add: placed_def)
  have "placed len (t[?i := e # t ! ?i])"
    using assms i by (intro placed_update) (auto simp: placed_def)
  moreover have "mset (concat (t[?i := e # t ! ?i])) = add_mset e (mset (concat t))"
    using mset_concat_update [OF i, of "e # t ! ?i"] by simp
  ultimately show ?thesis using i by (simp add: push_entry_def)
qed

lemma move_bucket_ok:
  "placed len t \<Longrightarrow> 0 < len \<Longrightarrow>
   \<exists>t'. move_bucket len es t = Some t' \<and> placed len t' \<and> mset (concat t') = mset es + mset (concat t)"
proof (induction es arbitrary: t)
  case (Cons e es)
  obtain t1 where t1: "push_entry len e t = Some t1" "placed len t1"
    "mset (concat t1) = add_mset e (mset (concat t))"
    using push_entry_ok [OF Cons.prems] by blast
  show ?case using Cons.IH [OF t1(2) Cons.prems(2)] t1 by auto
qed simp

lemma move_all_ok:
  "placed len t \<Longrightarrow> 0 < len \<Longrightarrow>
   \<exists>t'. move_all len bs t = Some t' \<and> placed len t' \<and>
        mset (concat t') = mset (concat bs) + mset (concat t)"
proof (induction bs arbitrary: t)
  case (Cons b bs)
  obtain t1 where t1: "move_bucket len b t = Some t1" "placed len t1"
    "mset (concat t1) = mset b + mset (concat t)"
    using move_bucket_ok [OF Cons.prems] by blast
  show ?case using Cons.IH [OF t1(2) Cons.prems(2)] t1 by auto
qed simp

lemma placed_empty: "placed len (replicate (unat len) [])"
  by (simp add: placed_def)

lemma concat_empty_table: "concat (replicate n []) = []"
  by (induction n) auto

lemma hash_upd [simp]:
  "hash (h\<lparr>entrycount := c\<rparr>) k = hash h k" "hash (h\<lparr>table := t\<rparr>) k = hash h k"
  "hash (h\<lparr>primeindex := i, table := t, tablelength := l, loadlimit := m\<rparr>) k = hash h k"
  by (simp_all add: hash_def)

text \<open>The part of the invariant that does not count.\<close>

definition ht_shape :: "('k, 'v) hashtable \<Rightarrow> bool" where
  "ht_shape h \<longleftrightarrow>
     primeindex h < prime_table_length \<and> tablelength h = primes ! primeindex h \<and>
     placed (tablelength h) (table h) \<and> (\<forall>e \<in># entries h. eh e = hash h (ek e))"

lemma ht_ok_shape: "ht_ok h \<Longrightarrow> ht_shape h"
  unfolding ht_ok_def ht_shape_def by blast

lemma ht_ok_iff:
  "ht_ok h \<longleftrightarrow> ht_shape h \<and> uniq (eqfn h) (entries h) \<and> unat (entrycount h) = size (entries h)"
  unfolding ht_ok_def ht_shape_def by blast

lemma ht_shape_table:
  "ht_shape h \<Longrightarrow> placed (tablelength h) t \<Longrightarrow> \<forall>e \<in># mset (concat t). eh e = hash h (ek e) \<Longrightarrow>
   ht_shape (h\<lparr>table := t\<rparr>)"
  unfolding ht_shape_def by (elim conjE) (simp add: entries_def)

lemma ht_shape_hash: "ht_shape h \<Longrightarrow> e \<in># entries h \<Longrightarrow> eh e = hash h (ek e)"
  unfolding ht_shape_def by blast

lemma entries_count [simp]: "entries (h\<lparr>entrycount := c\<rparr>) = entries h"
  by (simp add: entries_def)

lemma ht_shape_count [simp]: "ht_shape (h\<lparr>entrycount := c\<rparr>) = ht_shape h"
  by (simp add: ht_shape_def entries_def)

text \<open>An expansion that does not reallocate keeps the entries.\<close>

lemma expand_ok:
  assumes "ht_shape h" "m1 \<or> \<not> m2"
  shows "\<exists>c h'. hashtable_expand m1 m2 h = Some (c, h') \<and> ht_shape h' \<and> entries h' = entries h \<and>
           entrycount h' = entrycount h \<and> hashfn h' = hashfn h \<and> eqfn h' = eqfn h"
proof (cases "primeindex h = prime_table_length - 1 \<or> \<not> m1")
  case True
  then show ?thesis using assms
    by (auto simp: hashtable_expand_def ht_shape_def prime_table_length_def c_get_def)
next
  case False
  let ?i = "primeindex h + 1" let ?n = "primes ! ?i"
  have i: "?i < prime_table_length" using False assms by (auto simp: ht_shape_def)
  have n: "0 < ?n" using primes_pos [OF i] .
  obtain t' where t': "move_all ?n (table h) (replicate (unat ?n) []) = Some t'" "placed ?n t'"
    "mset (concat t') = mset (concat (table h))"
    using move_all_ok [OF placed_empty n, of "table h"] by (auto simp: concat_empty_table)
  show ?thesis using False i t' assms
    by (auto simp: hashtable_expand_def ht_shape_def entries_def c_get_def prime_table_length_def
             simp flip: set_mset_mset)
qed


section \<open>Searching\<close>

lemma uniqD: "uniq eq M \<Longrightarrow> e \<in># M \<Longrightarrow> e' \<in># M \<Longrightarrow> eq (ek e) (ek e') \<Longrightarrow> e = e'"
  unfolding uniq_def by (rule ccontr) (auto simp: in_diff_count)

lemma uniq_add:
  assumes "\<And>a b. eq a b \<Longrightarrow> eq b a"
  shows "uniq eq (add_mset e M) \<longleftrightarrow> uniq eq M \<and> (\<forall>e' \<in># M. \<not> eq (ek e) (ek e'))"
proof -
  have "add_mset e M - {#e'#} = add_mset e (M - {#e'#})" if "e' \<in># M" for e'
    using that by (simp add: add_mset_diff_bothsides multiset_eq_iff)
  then show ?thesis using assms by (auto simp: uniq_def)
qed

lemma unlink_Some_iff:
  "unlink P b = Some (e, r) \<Longrightarrow> P e \<and> e \<in> set b \<and> mset b = add_mset e (mset r) \<and> set r \<subseteq> set b"
  by (induction b arbitrary: r) (auto split: if_splits)

lemma unlink_None_iff: "unlink P b = None \<longleftrightarrow> (\<forall>e \<in> set b. \<not> P e)"
  by (induction b) auto

lemma unlink_find: "map_option fst (unlink P b) = find P b"
  by (induction b) (auto simp: map_option.compositionality comp_def split_beta)

text \<open>
  What a table promises: the value of the entry whose key equals the argument, whatever the
  hash function does.
\<close>

definition lookup :: "('k, 'v) hashtable \<Rightarrow> 'k \<Rightarrow> 'v option" where
  "lookup h k = map_option ev (find (\<lambda>e. eqfn h k (ek e)) (concat (table h)))"

locale ht_keys =
  fixes hf :: "'k \<Rightarrow> 32 word" and eq :: "'k \<Rightarrow> 'k \<Rightarrow> bool"
  assumes eq_refl: "eq a a"
    and eq_sym: "eq a b \<Longrightarrow> eq b a"
    and eq_trans: "eq a b \<Longrightarrow> eq b c \<Longrightarrow> eq a c"
    and hash_cong: "eq a b \<Longrightarrow> hf a = hf b"
begin

lemma find_uniq:
  assumes "uniq eq M" "e \<in># M" "eq k (ek e)" "set_mset M = set xs"
  shows "find (\<lambda>e. eq k (ek e)) xs = Some e"
proof -
  obtain e' where e': "find (\<lambda>e. eq k (ek e)) xs = Some e'"
    using assms by (cases "find (\<lambda>e. eq k (ek e)) xs") (auto simp: find_None_iff)
  then have "e' \<in># M" "eq k (ek e')" using assms by (auto simp: find_Some_iff)
  then have "eq (ek e') (ek e)" using assms(3) eq_sym eq_trans by blast
  then show ?thesis using uniqD [OF assms(1) \<open>e' \<in># M\<close> assms(2)] e' by simp
qed

lemma lookup_Some:
  "uniq eq (entries h) \<Longrightarrow> eqfn h = eq \<Longrightarrow> e \<in># entries h \<Longrightarrow> eq k (ek e) \<Longrightarrow> lookup h k = Some (ev e)"
  using find_uniq [of "entries h" e k "concat (table h)"] by (simp add: lookup_def entries_def)

lemma lookup_None:
  "eqfn h = eq \<Longrightarrow> (\<And>e. e \<in># entries h \<Longrightarrow> \<not> eq k (ek e)) \<Longrightarrow> lookup h k = None"
  by (auto simp: lookup_def find_None_iff entries_def)

lemma hash_eq: "hashfn h = hf \<Longrightarrow> eq a b \<Longrightarrow> hash h a = hash h b"
  by (simp add: hash_def hash_cong [of a b])

text \<open>An entry with an equal key is in the bucket the search looks at.\<close>

lemma entry_in_bucket:
  assumes "ht_shape h" "hashfn h = hf" "eqfn h = eq" "e \<in># entries h" "eq k (ek e)"
  shows "e \<in> set (table h ! indexFor (tablelength h) (hash h k)) \<and> entry_matches h (hash h k) k e"
proof -
  obtain i where i: "i < length (table h)" "e \<in> set (table h ! i)"
    using assms(4) in_set_conv_nth [of _ "table h"] by (auto simp: entries_def)
  have "eh e = hash h k"
    using assms hash_eq [OF assms(2,5)] by (simp add: ht_shape_def)
  moreover have "indexFor (tablelength h) (eh e) = i"
    using i assms(1) unfolding ht_shape_def placed_def by metis
  ultimately show ?thesis using i assms by (auto simp: entry_matches_def)
qed

lemma bucket_index:
  "ht_shape h \<Longrightarrow> indexFor (tablelength h) x < length (table h)"
  unfolding ht_shape_def placed_def using index_in primes_pos by metis

lemma bucket_entries:
  "ht_shape h \<Longrightarrow> e \<in> set (table h ! indexFor (tablelength h) x) \<Longrightarrow> e \<in># entries h"
  using bucket_index [of h x] by (auto simp: entries_def dest: nth_mem)

lemma search_lookup:
  assumes "ht_shape h" "uniq eq (entries h)" "hashfn h = hf" "eqfn h = eq"
  shows "hashtable_search h k = Some (lookup h k)"
proof (cases "\<exists>e. e \<in># entries h \<and> eq k (ek e)")
  case True
  then obtain e where e: "e \<in># entries h" "eq k (ek e)" by blast
  let ?b = "table h ! indexFor (tablelength h) (hash h k)"
  have in_b: "e \<in> set ?b" "entry_matches h (hash h k) k e"
    using entry_in_bucket [OF assms(1,3,4) e] by auto
  then obtain e' where e': "find (entry_matches h (hash h k) k) ?b = Some e'"
    by (cases "find (entry_matches h (hash h k) k) ?b") (auto simp: find_None_iff)
  then have m: "e' \<in> set ?b" "eq k (ek e')" using assms(4)
    by (auto simp: find_Some_iff entry_matches_def)
  have "lookup h k = Some (ev e')"
    using lookup_Some [OF assms(2,4) bucket_entries [OF assms(1) m(1)] m(2)] .
  then show ?thesis using e' bucket_index [OF assms(1)] by (simp add: hashtable_search_def Let_def)
next
  case False
  then have "find (entry_matches h (hash h k) k) (table h ! indexFor (tablelength h) (hash h k)) = None"
    using bucket_entries [OF assms(1)] assms(4) by (auto simp: find_None_iff entry_matches_def)
  moreover have "lookup h k = None" using lookup_None [OF assms(4)] False by blast
  ultimately show ?thesis using bucket_index [OF assms(1)] by (simp add: hashtable_search_def Let_def)
qed


lemma lookup_add:
  assumes "uniq eq (entries h')" "entries h' = add_mset e (entries h)" "eqfn h = eq" "eqfn h' = eq"
  shows "lookup h' k = (if eq k (ek e) then Some (ev e) else lookup h k)"
proof (cases "\<exists>e1. e1 \<in># entries h' \<and> eq k (ek e1)")
  case True
  then obtain e1 where e1: "e1 \<in># entries h'" "eq k (ek e1)" by blast
  have u: "uniq eq (entries h)" using assms(1,2) uniq_add [of eq e "entries h"] eq_sym by simp
  have "lookup h' k = Some (ev e1)" using lookup_Some [OF assms(1,4) e1] .
  moreover have "e1 = e" if "eq k (ek e)"
    using uniqD [OF assms(1) e1(1), of e] that e1(2) assms(2) eq_sym eq_trans
    by (metis union_single_eq_member add_mset_add_single union_commute)
  moreover have "lookup h k = Some (ev e1)" if "\<not> eq k (ek e)"
    using lookup_Some [OF u assms(3) _ e1(2)] e1 assms(2) that by auto
  ultimately show ?thesis by auto
next
  case False
  then have "lookup h' k = None" "lookup h k = None" "\<not> eq k (ek e)"
    using lookup_None [OF assms(3), of k] lookup_None [OF assms(4), of k] assms(2) by auto
  then show ?thesis by simp
qed

lemma lookup_entries:
  "uniq eq (entries h) \<Longrightarrow> entries h' = entries h \<Longrightarrow> eqfn h = eq \<Longrightarrow> eqfn h' = eq \<Longrightarrow> lookup h' k = lookup h k"
  by (metis lookup_Some lookup_None)

lemma lookup_None_iff:
  "uniq eq (entries h) \<Longrightarrow> eqfn h = eq \<Longrightarrow> lookup h k = None \<longleftrightarrow> (\<forall>e \<in># entries h. \<not> eq k (ek e))"
  by (metis lookup_Some lookup_None option.distinct(1))

lemma insert_lookup:
  assumes ok: "ht_ok h" "hashfn h = hf" "eqfn h = eq" and new: "lookup h k = None"
    and m: "m1 \<or> \<not> m2" and cnt: "unat (entrycount h) + 1 < 2 ^ 32"
  shows "\<exists>c h'. hashtable_insert m1 m2 m3 h k v = Some (c, h') \<and> ht_ok h' \<and> hashfn h' = hf \<and> eqfn h' = eq \<and>
           (if m3 then c = -1 \<and> (\<forall>k'. lookup h' k' = (if eq k' k then Some v else lookup h k'))
            else c = 0 \<and> (\<forall>k'. lookup h' k' = lookup h k'))"
proof -
  have sh: "ht_shape h" and u: "uniq eq (entries h)" and n: "unat (entrycount h) = size (entries h)"
    using ok by (auto simp: ht_ok_def intro: ht_ok_shape)
  have n1: "unat (entrycount h + 1) = unat (entrycount h) + 1"
    using cnt by (simp add: unat_word_ariths)
  let ?h1 = "h\<lparr>entrycount := entrycount h + 1\<rparr>"
  obtain ce he where he: "hashtable_expand m1 m2 ?h1 = Some (ce, he)" "ht_shape he"
    "entries he = entries ?h1" "entrycount he = entrycount ?h1" "hashfn he = hashfn ?h1" "eqfn he = eqfn ?h1"
    using expand_ok [of ?h1 m1 m2] sh m by auto
  obtain h2 where h2: "(if entrycount ?h1 > loadlimit ?h1
        then map_option snd (hashtable_expand m1 m2 ?h1) else Some ?h1) = Some h2"
    "ht_shape h2" "entries h2 = entries h" "entrycount h2 = entrycount h + 1" "hashfn h2 = hf" "eqfn h2 = eq"
    using he sh ok by (cases "entrycount ?h1 > loadlimit ?h1") (auto simp: entries_def)
  show ?thesis
  proof (cases m3)
    case False
    let ?h = "h2\<lparr>entrycount := entrycount h2 - 1\<rparr>"
    have e: "entries ?h = entries h" using h2(3) by (simp add: entries_def)
    have "ht_ok ?h" using h2 u n ok(3) unfolding ht_ok_iff by simp
    then show ?thesis using h2 False lookup_entries [OF u e ok(3)]
      by (auto simp: hashtable_insert_def Let_def)
  next
    case True
    let ?e = "\<lparr>ek = k, ev = v, eh = hash h2 k\<rparr>"
    obtain t where t: "push_entry (tablelength h2) ?e (table h2) = Some t" "placed (tablelength h2) t"
      "mset (concat t) = add_mset ?e (entries h)"
      using push_entry_ok [of "tablelength h2" "table h2" ?e] h2(2,3) primes_pos
      by (auto simp: ht_shape_def entries_def)
    let ?h = "h2\<lparr>table := t\<rparr>"
    have e: "entries ?h = add_mset ?e (entries h)" using t by (simp add: entries_def)
    have u': "uniq eq (entries ?h)" using u e uniq_add [of eq ?e "entries h"] eq_sym
      new lookup_None_iff [OF u ok(3)] by auto
    have "ht_shape ?h"
      using ht_shape_table [OF h2(2) t(2)] t(3) h2(3) ht_shape_hash [OF h2(2)] by auto
    then have "ht_ok ?h" using u' n n1 e h2 unfolding ht_ok_iff by simp
    moreover have "hashtable_insert m1 m2 m3 h k v = Some (-1, ?h)"
      using h2(1) t(1) True by (auto simp: hashtable_insert_def Let_def)
    ultimately show ?thesis using True h2(5,6) lookup_add [OF u' e ok(3)] by auto
  qed
qed

lemma remove_lookup:
  assumes ok: "ht_ok h" "hashfn h = hf" "eqfn h = eq"
  shows "\<exists>h'. hashtable_remove h k = Some (lookup h k, h') \<and> ht_ok h' \<and> hashfn h' = hf \<and> eqfn h' = eq \<and>
           (\<forall>k'. lookup h' k' = (if eq k' k then None else lookup h k'))"
proof -
  have sh: "ht_shape h" and u: "uniq eq (entries h)" and n: "unat (entrycount h) = size (entries h)"
    using ok by (auto simp: ht_ok_def intro: ht_ok_shape)
  let ?i = "indexFor (tablelength h) (hash h k)" let ?P = "entry_matches h (hash h k) k"
  have i: "?i < length (table h)" using bucket_index [OF sh] .
  have s: "map_option fst (unlink ?P (table h ! ?i)) = find ?P (table h ! ?i)" by (rule unlink_find)
  have l: "lookup h k = map_option ev (find ?P (table h ! ?i))"
    using search_lookup [OF sh u ok(2,3), of k] i by (simp add: hashtable_search_def Let_def)
  show ?thesis
  proof (cases "unlink ?P (table h ! ?i)")
    case None
    then have ln: "lookup h k = None" using l s by (metis option.simps(8))
    have "lookup h k' = None" if "eq k' k" for k'
      using ln that lookup_None_iff [OF u ok(3)] eq_trans eq_sym by metis
    then show ?thesis using None i ok ln by (auto simp: hashtable_remove_def Let_def)
  next
    case (Some x)
    then obtain e r where x: "unlink ?P (table h ! ?i) = Some (e, r)" by (cases x) auto
    have e: "?P e" "mset (table h ! ?i) = add_mset e (mset r)" "set r \<subseteq> set (table h ! ?i)"
      "e \<in> set (table h ! ?i)" using unlink_Some_iff [OF x] by auto
    let ?h = "h\<lparr>table := (table h)[?i := r], entrycount := entrycount h - 1\<rparr>"
    have E: "entries h = add_mset e (entries ?h)"
      using mset_concat_update [OF i, of r] e(2) by (simp add: entries_def)
    have u': "uniq eq (entries ?h)" using u E uniq_add [of eq e "entries ?h"] eq_sym by simp
    have ke: "eq k (ek e)" using e(1) ok(3) by (simp add: entry_matches_def)
    have lk: "lookup h k = Some (ev e)" using l s x by (cases "find ?P (table h ! ?i)") auto
    have p: "placed (tablelength h) ((table h)[?i := r])"
      using sh i e(3) by (intro placed_update) (auto simp: ht_shape_def placed_def)
    have c: "unat (entrycount h - 1) = size (entries ?h)"
      using n E by (subst unat_minus_one) auto
    have "ht_shape (h\<lparr>table := (table h)[?i := r]\<rparr>)"
      using E ht_shape_hash [OF sh] by (intro ht_shape_table [OF sh p]) (auto simp: entries_def)
    then have "ht_ok ?h" using u' ok(3) c ht_shape_count unfolding ht_ok_iff by simp
    moreover have "lookup ?h k' = (if eq k' k then None else lookup h k')" for k'
    proof -
      have "eq k' (ek e) \<longleftrightarrow> eq k' k" using ke eq_sym eq_trans by blast
      moreover have "lookup ?h k' = None" if "eq k' k"
      proof (rule lookup_None)
        fix e1 assume "e1 \<in># entries ?h"
        then have "\<not> eq (ek e) (ek e1)" using u E uniq_add [of eq e "entries ?h"] eq_sym by auto
        then show "\<not> eq k' (ek e1)" using that ke eq_sym eq_trans by blast
      qed (use ok in simp)
      moreover have "lookup h k' = (if eq k' (ek e) then Some (ev e) else lookup ?h k')"
        using u ok(3) by (intro lookup_add [OF _ E]) auto
      ultimately show ?thesis by auto
    qed
    moreover have "hashtable_remove h k = Some (lookup h k, ?h)"
      using x i lk by (simp add: hashtable_remove_def Let_def)
    ultimately show ?thesis using ok by auto
  qed
qed

end

section \<open>Tables with string keys\<close>

interpretation st: ht_keys hash_from_string key_equals_string
  by unfold_locales (auto simp: key_equals_string_def)

abbreviation string_table :: "(string, 'v) hashtable \<Rightarrow> bool" where
  "string_table h \<equiv> ht_ok h \<and> hashfn h = hash_from_string \<and> eqfn h = key_equals_string"

lemma string_search: "string_table h \<Longrightarrow> hashtable_search h k = Some (lookup h k)"
  by (auto simp: ht_ok_iff intro: st.search_lookup)

lemma findPrime_Some:
  "findPrime m ps i = Some (p, j) \<Longrightarrow> i \<le> j \<and> j - i < length ps \<and> p = ps ! (j - i) \<and> m < p"
proof (induction m ps i rule: findPrime.induct)
  case (2 m q ps i)
  then show ?case by (cases "q > m") (auto simp: Suc_diff_Suc)
qed simp

lemma findPrime_max:
  "p \<in> set ps \<Longrightarrow> m < p \<Longrightarrow> findPrime m ps i \<noteq> None"
  by (induction m ps i rule: findPrime.induct) auto

lemma create_string_table:
  assumes "minsize \<le> 0x40000000"
  shows "\<exists>h. create_hashtable True minsize hash_from_string key_equals_string = Some h \<and>
           string_table h \<and> minsize < tablelength h \<and> (\<forall>k. lookup h k = None)"
proof -
  have "minsize < 1610612741" using assms by (simp add: word_less_nat_alt word_le_nat_alt)
  then have "findPrime minsize primes 0 \<noteq> None"
    by (intro findPrime_max [of 1610612741]) (simp_all add: primes_def)
  then obtain p i where f: "findPrime minsize primes 0 = Some (p, i)" by auto
  then have i: "i < prime_table_length" "p = primes ! i" "minsize < p"
    using findPrime_Some [OF f] by (auto simp: prime_table_length_def)
  show ?thesis using assms f i
    by (auto simp: create_hashtable_def ht_ok_def entries_def placed_empty concat_empty_table uniq_def
          lookup_def not_less)
qed

text \<open>
  C38: Insertion into a table with string keys refines the update of a map. For a key that is
  not in the table, as long as the counter does not wrap and an expansion does not fall back on
  reallocation, there is no undefined behaviour, the invariant is kept and afterwards the
  search finds the new value under the key and what it found before under every other key,
  also when the table was expanded or the expansion failed.
\<close>

theorem string_insert_updates_map:
  assumes "ht_ok h" "hashfn h = hash_from_string" "eqfn h = key_equals_string"
    and "hashtable_search h k = Some None"
    and "m1 \<or> \<not> m2" and "unat (entrycount h) + 1 < 2 ^ 32"
  shows "\<exists>h' m. hashtable_insert m1 m2 True h k v = Some (-1, h') \<and>
           ht_ok h' \<and> hashfn h' = hash_from_string \<and> eqfn h' = key_equals_string \<and>
           hashtable_search h = (\<lambda>k'. Some (m k')) \<and> hashtable_search h' = (\<lambda>k'. Some ((m(k \<mapsto> v)) k'))"
proof -
  have s: "hashtable_search h k' = Some (lookup h k')" for k' using assms by (simp add: string_search)
  then obtain h' where "hashtable_insert m1 m2 True h k v = Some (-1, h')" "string_table h'"
    "\<forall>k'. lookup h' k' = (if key_equals_string k' k then Some v else lookup h k')"
    using st.insert_lookup [of h k m1 m2 True v] assms by auto
  then show ?thesis using s
    by (intro exI [of _ h'] exI [of _ "lookup h"]) (auto simp: string_search key_equals_string_def)
qed

text \<open>
  C39: Removal refines the deletion from a map: it returns what the search would have found,
  keeps the invariant, and afterwards the key is not found and every other key is as before.
\<close>

theorem string_remove_updates_map:
  assumes "ht_ok h" "hashfn h = hash_from_string" "eqfn h = key_equals_string"
  shows "\<exists>h' m. hashtable_search h = (\<lambda>k'. Some (m k')) \<and> hashtable_remove h k = Some (m k, h') \<and>
           ht_ok h' \<and> hashfn h' = hash_from_string \<and> eqfn h' = key_equals_string \<and>
           hashtable_search h' = (\<lambda>k'. Some ((m(k := None)) k'))"
proof -
  obtain h' where "hashtable_remove h k = Some (lookup h k, h')" "string_table h'"
    "\<forall>k'. lookup h' k' = (if key_equals_string k' k then None else lookup h k')"
    using st.remove_lookup [OF assms, of k] by auto
  then show ?thesis using assms
    by (intro exI [of _ h'] exI [of _ "lookup h"]) (auto simp: string_search key_equals_string_def)
qed

text \<open>
  When the larger table cannot be allocated but the old one can be reallocated, the
  expansion is undefined: it clears memory at the address found in a cell nobody wrote.
\<close>

theorem expand_plan_b_undefined:
  assumes "primeindex h + 1 < prime_table_length"
  shows "hashtable_expand False True h = None"
  using assms by (auto simp: hashtable_expand_def prime_table_length_def)

text \<open>
  The load limit is 65% of the table size for the first 21 primes. For the last five the
  product does not fit the 32 bits it is cast to before the division: a table of 201326611
  buckets is to grow again at 2013278 entries, one percent of its size.
\<close>

theorem load_limit_wraps:
  "map (\<lambda>p. unat (getLoadLimit p)) (take 21 primes) = map (\<lambda>p. unat p * 65 div 100) (take 21 primes) \<and>
   map (\<lambda>p. unat (getLoadLimit p)) (drop 21 primes) = [22481484, 2013278, 4026535, 8053121, 16106130]"
  by (simp add: getLoadLimit_def primes_def MAX_LOAD_FACTOR_def)


section \<open>Iterators\<close>

text \<open>
  An iterator (runtime/hashtable_itr.c) is at an entry of a chain: its bucket and its offset
  in the chain, \<open>None\<close> for the null entry of an iterator at the end. The \<open>parent\<close> is the
  entry one offset before, null at offset 0.
\<close>

record ht_itr =
  it_index :: nat
  it_e :: "nat option"

fun first_bucket :: "nat \<Rightarrow> 'a list list \<Rightarrow> nat option" where
  "first_bucket i [] = None"
| "first_bucket i (b # bs) = (if b \<noteq> [] then Some i else first_bucket (Suc i) bs)"

definition hashtable_iterator :: "bool \<Rightarrow> ('k, 'v) hashtable \<Rightarrow> ht_itr option" where
  "hashtable_iterator mallocOK h =
     (let n = unat (tablelength h)
      in if \<not> mallocOK then None
         else if entrycount h = 0 then Some \<lparr>it_index = n, it_e = None\<rparr>
         else case first_bucket 0 (table h) of
             None \<Rightarrow> Some \<lparr>it_index = n, it_e = None\<rparr>
           | Some i \<Rightarrow> Some \<lparr>it_index = i, it_e = Some 0\<rparr>)"

definition hashtable_iterator_advance :: "('k, 'v) hashtable \<Rightarrow> ht_itr \<Rightarrow> (int \<times> ht_itr) option" where
  "hashtable_iterator_advance h it =
     (case it_e it of
        None \<Rightarrow> Some (0, it)
      | Some p \<Rightarrow> do {
          b \<leftarrow> c_get (table h) (it_index it);
          if Suc p < length b then Some (-1, it\<lparr>it_e := Some (Suc p)\<rparr>)
          else
            let j = Suc (it_index it)
            in if unat (tablelength h) \<le> j then Some (0, it\<lparr>it_index := j, it_e := None\<rparr>)
               else (case first_bucket j (drop j (table h)) of
                   None \<Rightarrow> Some (0, it\<lparr>it_index := unat (tablelength h), it_e := None\<rparr>)
                 | Some i \<Rightarrow> Some (-1, \<lparr>it_index = i, it_e = Some 0\<rparr>))
        })"

text \<open>
  Removal at the iterator: the entry leaves its chain, and the iterator advances over the
  chain as it was, the offset corrected for the entry that left.
\<close>

definition hashtable_iterator_remove :: "('k, 'v) hashtable \<Rightarrow> ht_itr \<Rightarrow>
    (int \<times> ht_itr \<times> ('k, 'v) hashtable) option" where
  "hashtable_iterator_remove h it =
     do {
       p \<leftarrow> it_e it;
       b \<leftarrow> c_get (table h) (it_index it);
       c_guard (p < length b);
       let h1 = h\<lparr>table := (table h)[it_index it := take p b @ drop (Suc p) b],
                  entrycount := entrycount h - 1\<rparr>;
       (ret, it1) \<leftarrow> hashtable_iterator_advance h it;
       Some (ret, if it_index it1 = it_index it then it1\<lparr>it_e := map_option (\<lambda>q. q - 1) (it_e it1)\<rparr> else it1, h1)
     }"

text \<open>What an iteration has still to visit.\<close>

definition it_rest :: "('k, 'v) hashtable \<Rightarrow> ht_itr \<Rightarrow> ('k, 'v) entry list" where
  "it_rest h it =
     (case it_e it of
        None \<Rightarrow> []
      | Some p \<Rightarrow> drop p (table h ! it_index it) @ concat (drop (Suc (it_index it)) (table h)))"

definition it_ok :: "('k, 'v) hashtable \<Rightarrow> ht_itr \<Rightarrow> bool" where
  "it_ok h it \<longleftrightarrow>
     length (table h) = unat (tablelength h) \<and>
     (case it_e it of None \<Rightarrow> True
      | Some p \<Rightarrow> it_index it < length (table h) \<and> p < length (table h ! it_index it))"

lemma concat_drop_nth: "i < length t \<Longrightarrow> concat (drop i t) = t ! i @ concat (drop (Suc i) t)"
  by (metis Cons_nth_drop_Suc concat.simps(2))

lemma first_bucket_None: "first_bucket i bs = None \<Longrightarrow> concat bs = []"
  by (induction i bs rule: first_bucket.induct) (auto split: if_splits)

lemma first_bucket_Some:
  "first_bucket i bs = Some j \<Longrightarrow>
   i \<le> j \<and> j - i < length bs \<and> bs ! (j - i) \<noteq> [] \<and> concat bs = concat (drop (j - i) bs)"
proof (induction i bs rule: first_bucket.induct)
  case (2 i b bs)
  show ?case
  proof (cases "b = []")
    case True
    have r: "Suc i \<le> j" "j - Suc i < length bs" "bs ! (j - Suc i) \<noteq> []"
      "concat bs = concat (drop (j - Suc i) bs)" using 2 True by auto
    have "j - i = Suc (j - Suc i)" using r(1) by simp
    then show ?thesis using r True by simp
  qed (use 2 in auto)
qed simp

lemma iterator_ok:
  assumes "ht_ok h"
  shows "\<exists>it. hashtable_iterator True h = Some it \<and> it_ok h it \<and> it_rest h it = concat (table h)"
proof -
  have len: "length (table h) = unat (tablelength h)" using assms unfolding ht_ok_def placed_def by blast
  have z: "entrycount h = 0 \<Longrightarrow> concat (table h) = []"
    using assms by (auto simp: ht_ok_iff entries_def)
  show ?thesis
  proof (cases "entrycount h = 0")
    case False
    show ?thesis
    proof (cases "first_bucket 0 (table h)")
      case None
      then show ?thesis using False len first_bucket_None [OF None]
        by (simp add: hashtable_iterator_def Let_def it_ok_def it_rest_def del: concat_eq_Nil_conv)
    next
      case (Some j)
      then show ?thesis using False len first_bucket_Some [OF Some]
        by (simp add: hashtable_iterator_def Let_def it_ok_def it_rest_def concat_drop_nth)
    qed
  qed (use z len in \<open>simp add: hashtable_iterator_def Let_def it_ok_def it_rest_def del: concat_eq_Nil_conv\<close>)
qed

lemma advance_ok:
  assumes "it_ok h it" "it_e it = Some p"
  shows "\<exists>ret it'. hashtable_iterator_advance h it = Some (ret, it') \<and> it_ok h it' \<and>
           it_rest h it' = tl (it_rest h it) \<and> (ret = 0 \<longleftrightarrow> it_e it' = None) \<and> ret \<in> {0, -1}"
proof -
  let ?b = "table h ! it_index it" let ?j = "Suc (it_index it)"
  have i: "it_index it < length (table h)" "p < length ?b" "length (table h) = unat (tablelength h)"
    using assms by (auto simp: it_ok_def)
  consider "Suc p < length ?b" | "Suc p = length ?b" "length (table h) \<le> ?j"
    | "Suc p = length ?b" "?j < length (table h)" using i by linarith
  then show ?thesis
  proof cases
    case 1
    then show ?thesis using i assms
      by (auto simp: hashtable_iterator_advance_def it_ok_def it_rest_def tl_append_ne drop_Suc tl_drop)
  next
    case 2
    then show ?thesis using i assms
      by (auto simp: hashtable_iterator_advance_def it_ok_def it_rest_def tl_append_ne drop_Suc [symmetric] tl_drop)
  next
    case 3
    have r: "tl (it_rest h it) = concat (drop ?j (table h))"
      using assms i 3 by (simp add: it_rest_def tl_append_ne tl_drop drop_Suc [symmetric])
    show ?thesis
    proof (cases "first_bucket ?j (drop ?j (table h))")
      case None
      then show ?thesis using first_bucket_None [OF None] r i 3 assms
        by (auto simp: hashtable_iterator_advance_def it_ok_def it_rest_def)
    next
      case (Some k)
      have k: "?j \<le> k" "k < length (table h)" "table h ! k \<noteq> []"
        "concat (drop ?j (table h)) = concat (drop k (table h))"
        using first_bucket_Some [OF Some] 3 by auto
      then show ?thesis using concat_drop_nth [OF k(2)] Some k r i 3 assms
        by (auto simp: hashtable_iterator_advance_def it_ok_def it_rest_def)
    qed
  qed
qed


text \<open>The walk of a caller: read the entry, advance, until the iterator is at the end.\<close>

fun it_walk :: "nat \<Rightarrow> ('k, 'v) hashtable \<Rightarrow> ht_itr \<Rightarrow> ('k, 'v) entry list option" where
  "it_walk 0 h it = (if it_e it = None then Some [] else None)"
| "it_walk (Suc n) h it =
     (case it_e it of
        None \<Rightarrow> Some []
      | Some p \<Rightarrow> do {
          b \<leftarrow> c_get (table h) (it_index it);
          e \<leftarrow> c_get b p;
          (ret, it1) \<leftarrow> hashtable_iterator_advance h it;
          es \<leftarrow> (if ret = 0 then Some [] else it_walk n h it1);
          Some (e # es)
        })"

lemma it_walk_rest:
  "it_ok h it \<Longrightarrow> length (it_rest h it) \<le> n \<Longrightarrow> it_walk n h it = Some (it_rest h it)"
proof (induction n arbitrary: it)
  case 0
  then show ?case by (auto simp: it_rest_def it_ok_def split: option.splits)
next
  case (Suc n)
  show ?case
  proof (cases "it_e it")
    case None
    then show ?thesis by (simp add: it_rest_def)
  next
    case (Some p)
    obtain ret it' where a: "hashtable_iterator_advance h it = Some (ret, it')" "it_ok h it'"
      "it_rest h it' = tl (it_rest h it)" "ret = 0 \<longleftrightarrow> it_e it' = None"
      using advance_ok [OF Suc.prems(1) Some] by (elim exE conjE)
    have r: "it_rest h it = table h ! it_index it ! p # tl (it_rest h it)"
      "it_index it < length (table h)" "p < length (table h ! it_index it)"
      using Some Suc.prems(1) by (auto simp: it_ok_def it_rest_def Cons_nth_drop_Suc [symmetric])
    have "length (it_rest h it') \<le> n" using a(3) Suc.prems(2) by simp
    then have "it_walk n h it' = Some (it_rest h it')" using Suc.IH a(2) by blast
    moreover have "it_rest h it' = []" if "ret = 0" using that a(4) by (simp add: it_rest_def)
    ultimately show ?thesis using Some r a by (cases "ret = 0") auto
  qed
qed

text \<open>
  A walk with the iterator over a well formed table ends after as many steps as there are
  entries, has no undefined behaviour and visits every entry exactly once, in the order of the
  buckets.
\<close>

theorem iterator_visits_all:
  assumes "ht_ok h"
  shows "\<exists>it. hashtable_iterator True h = Some it \<and>
           it_walk (unat (entrycount h)) h it = Some (concat (table h))"
proof -
  obtain it where "hashtable_iterator True h = Some it" "it_ok h it" "it_rest h it = concat (table h)"
    using iterator_ok [OF assms] by blast
  moreover have "unat (entrycount h) = length (concat (table h))"
    using assms by (simp add: ht_ok_iff entries_def)
  ultimately show ?thesis using it_walk_rest [of h it] by auto
qed

section \<open>Witnesses\<close>

definition tab0 :: "(string, nat) hashtable" where
  "tab0 = \<lparr>tablelength = 53, table = replicate 53 [], entrycount = 0, loadlimit = 34,
           primeindex = 0, hashfn = hash_from_string, eqfn = key_equals_string\<rparr>"

lemma tab0_ok: "string_table tab0"
  by (simp add: ht_ok_def tab0_def prime_table_length_def primes_def placed_def entries_def uniq_def
        concat_empty_table)

lemma tab0_search: "hashtable_search tab0 k = Some None"
  using st.lookup_None [of tab0 k] tab0_ok
  by (simp add: string_search tab0_def entries_def concat_empty_table)

definition tab1 :: "(string, nat) hashtable" where
  "tab1 = snd (the (hashtable_insert False False True tab0 ''ab'' 7))"

lemma tab1_ok: "string_table tab1 \<and> lookup tab1 ''ab'' = Some 7 \<and> lookup tab1 ''b'' = None"
proof -
  have l: "lookup tab0 k = None" for k using tab0_search [of k] tab0_ok by (simp add: string_search)
  obtain h' where "hashtable_insert False False True tab0 ''ab'' 7 = Some (-1, h')" "string_table h'"
    "\<forall>k'. lookup h' k' = (if key_equals_string k' ''ab'' then Some 7 else lookup tab0 k')"
    using st.insert_lookup [of tab0 "''ab''" False False True 7] tab0_ok l by (auto simp: tab0_def)
  then show ?thesis by (simp add: tab1_def l key_equals_string_def)
qed

lemma tab1_count: "entrycount tab1 = 1"
proof -
  have "indexFor 53 (hash tab0 ''ab'') < 53" by (rule index_in [of "replicate 53 ()", simplified]) simp_all
  then have "hashtable_insert False False True tab0 ''ab'' (7::nat) =
     Some (-1, tab0\<lparr>entrycount := 1, table := (table tab0)[indexFor 53 (hash tab0 ''ab'') :=
                [\<lparr>ek = ''ab'', ev = 7, eh = hash tab0 ''ab''\<rparr>]]\<rparr>)"
    by (simp add: hashtable_insert_def Let_def tab0_def push_entry_def hash_def)
  then show ?thesis by (simp add: tab1_def)
qed

theorem string_insert_updates_map_witness:
  "\<exists>h' m. hashtable_insert False False True tab1 ''b'' 8 = Some (-1, h') \<and>
     ht_ok h' \<and> hashfn h' = hash_from_string \<and> eqfn h' = key_equals_string \<and>
     hashtable_search tab1 = (\<lambda>k'. Some (m k')) \<and> hashtable_search h' = (\<lambda>k'. Some ((m(''b'' \<mapsto> 8)) k'))"
  using tab1_ok tab1_count by (intro string_insert_updates_map) (simp_all add: string_search)

theorem string_remove_updates_map_witness:
  "\<exists>h' m. hashtable_search tab1 = (\<lambda>k'. Some (m k')) \<and> hashtable_remove tab1 ''ab'' = Some (m ''ab'', h') \<and>
     ht_ok h' \<and> hashfn h' = hash_from_string \<and> eqfn h' = key_equals_string \<and>
     hashtable_search h' = (\<lambda>k'. Some ((m(''ab'' := None)) k'))"
  using tab1_ok by (intro string_remove_updates_map) simp_all

theorem expand_plan_b_undefined_witness: "hashtable_expand False True tab0 = None"
  by (rule expand_plan_b_undefined) (simp add: tab0_def prime_table_length_def primes_def)

theorem iterator_visits_all_witness:
  "\<exists>it. hashtable_iterator True tab1 = Some it \<and> it_walk (unat (entrycount tab1)) tab1 it = Some (concat (table tab1))"
  by (rule iterator_visits_all) (use tab1_ok in simp)

end
