(* ===== verification/RelpFrame.thy ===== *)
theory RelpFrame
  imports Bytes
begin

text \<open>
  The frames of the RELP protocol (librelp/src/relpframe.c, relpframe.h, sendbuf.h): building
  the bytes of a frame, giving a built frame a new transaction number, and the state machine
  that receives a frame octet by octet. \<open>calloc\<close> and \<open>malloc\<close> are boolean arguments; calls to the
  error callback of the engine only tell the user and are left out. The dispatcher of received
  frames (relp.c) is the argument \<open>dispatch\<close> here and comes with the session.
\<close>

section \<open>Return codes\<close>

datatype relpRetVal =
    RELP_RET_OK | RELP_RET_OUT_OF_MEMORY | RELP_RET_INVALID_FRAME | RELP_RET_PARAM_ERROR
  | RELP_RET_SESSION_BROKEN | RELP_RET_SESSION_CLOSED | RELP_RET_INVALID_CMD
  | RELP_RET_DATA_TOO_LONG | RELP_RET_INVALID_TXNR | RELP_RET_INVALID_DATALEN
  | RELP_RET_PARTIAL_WRITE | RELP_RET_IO_ERR | RELP_RET_TIMED_OUT | RELP_RET_NOT_FOUND
  | RELP_RET_INVALID_RSPHDR | RELP_RET_END_OF_DATA | RELP_RET_RSP_STATE_ERR
  | RELP_RET_INVALID_OFFER | RELP_RET_UNKNOWN_CMD | RELP_RET_CMD_DISABLED
  | RELP_RET_INCOMPAT_OFFERS | RELP_RET_RQD_FEAT_MISSING | RELP_RET_SESSION_OPEN

fun relp_code :: "relpRetVal \<Rightarrow> int" where
  "relp_code RELP_RET_OK = 0"
| "relp_code RELP_RET_OUT_OF_MEMORY = 10001"
| "relp_code RELP_RET_INVALID_FRAME = 10002"
| "relp_code RELP_RET_PARAM_ERROR = 10003"
| "relp_code RELP_RET_SESSION_BROKEN = 10007"
| "relp_code RELP_RET_SESSION_CLOSED = 10008"
| "relp_code RELP_RET_INVALID_CMD = 10009"
| "relp_code RELP_RET_DATA_TOO_LONG = 10010"
| "relp_code RELP_RET_INVALID_TXNR = 10011"
| "relp_code RELP_RET_INVALID_DATALEN = 10012"
| "relp_code RELP_RET_PARTIAL_WRITE = 10013"
| "relp_code RELP_RET_IO_ERR = 10014"
| "relp_code RELP_RET_TIMED_OUT = 10015"
| "relp_code RELP_RET_NOT_FOUND = 10016"
| "relp_code RELP_RET_INVALID_RSPHDR = 10018"
| "relp_code RELP_RET_END_OF_DATA = 10019"
| "relp_code RELP_RET_RSP_STATE_ERR = 10020"
| "relp_code RELP_RET_INVALID_OFFER = 10021"
| "relp_code RELP_RET_UNKNOWN_CMD = 10022"
| "relp_code RELP_RET_CMD_DISABLED = 10023"
| "relp_code RELP_RET_INCOMPAT_OFFERS = 10025"
| "relp_code RELP_RET_RQD_FEAT_MISSING = 10026"
| "relp_code RELP_RET_SESSION_OPEN = 10047"

section \<open>Sending\<close>

text \<open>The callbacks a command can carry: none, or one of the two of relpsess.c.\<close>

datatype rspHdlr = NoHdlr | CBrspOpen | CBrspClose

record relpSendbuf =
  sbData :: "byte option list option"
  sbTxnr :: int
  sbRspHdlr :: rspHdlr
  sbLenData :: nat
  sbLenTxnr :: nat
  bufPtr :: nat

definition relpEngineNextTXNR :: "int \<Rightarrow> int" where
  "relpEngineNextTXNR txnr = (if txnr > 999999999 then 1 else txnr + 1)"

definition relpSendbufConstruct :: "bool \<Rightarrow> relpRetVal \<times> relpSendbuf option" where
  "relpSendbufConstruct callocOK =
     (if callocOK
      then (RELP_RET_OK, Some \<lparr>sbData = None, sbTxnr = 0, sbRspHdlr = NoHdlr, sbLenData = 0, sbLenTxnr = 0, bufPtr = 0\<rparr>)
      else (RELP_RET_OUT_OF_MEMORY, None))"

text \<open>Copying into a buffer at a moving pointer.\<close>

definition put :: "byte list \<Rightarrow> nat \<Rightarrow> byte option list \<times> nat \<Rightarrow> (byte option list \<times> nat) option" where
  "put src n b = map_option (\<lambda>d. (d, snd b + n)) (memcpy (fst b) (snd b) (map Some src) n)"

definition relpFrameBuildSendbuf :: "bool \<Rightarrow> bool \<Rightarrow> int \<Rightarrow> byte list \<Rightarrow> nat \<Rightarrow> byte list \<Rightarrow> nat \<Rightarrow> rspHdlr \<Rightarrow>
    (relpRetVal \<times> relpSendbuf option) option" where
  "relpFrameBuildSendbuf callocOK mallocOK txnr pCmd lenCmd pData lenData hdlr =
     (case relpSendbufConstruct callocOK of
        (r, None) \<Rightarrow> Some (r, None)
      | (r, Some sb) \<Rightarrow>
          (let bufTxnr = numtxt txnr;
               lenTxnr = length bufTxnr;
               bufDatalen = numtxt (int_of_size lenData);
               lenDatalen = length bufDatalen;
               len0 = lenTxnr + 1 + lenCmd + 1 + lenDatalen + 1;
               len = size_t (int (if lenData > 0 then len0 + 1 + lenData else len0))
           in if lenTxnr > 9 then Some (RELP_RET_INVALID_TXNR, None)
              else if lenDatalen > 9 then Some (RELP_RET_INVALID_DATALEN, None)
              else if \<not> mallocOK then Some (RELP_RET_OUT_OF_MEMORY, None)
              else do {
                let b = (replicate (size_t (int len + (9 - int lenTxnr) + 1)) None, 9 - lenTxnr);
                b \<leftarrow> put bufTxnr lenTxnr b;
                b \<leftarrow> put [32] 1 b;
                b \<leftarrow> put pCmd lenCmd b;
                b \<leftarrow> put [32] 1 b;
                b \<leftarrow> put bufDatalen lenDatalen b;
                b \<leftarrow> (if lenData > 0 then do { b \<leftarrow> put [32] 1 b; put pData lenData b } else Some b);
                b \<leftarrow> put [10] 1 b;
                (d, _) \<leftarrow> put [0] 1 b;
                Some (RELP_RET_OK, Some (sb\<lparr>sbData := Some d, sbTxnr := txnr, sbRspHdlr := hdlr,
                                            sbLenData := len, sbLenTxnr := lenTxnr\<rparr>))
              }))"

definition relpFrameRewriteTxnr :: "relpSendbuf \<Rightarrow> int \<Rightarrow> (relpRetVal \<times> relpSendbuf) option" where
  "relpFrameRewriteTxnr sb txnr =
     (let bufTxnr = numtxt txnr; lenTxnr = length bufTxnr
      in if lenTxnr > 9 then Some (RELP_RET_INVALID_TXNR, sb\<lparr>sbTxnr := txnr\<rparr>)
         else do {
           d \<leftarrow> sbData sb;
           d' \<leftarrow> memcpy d (9 - lenTxnr) (map Some bufTxnr) lenTxnr;
           Some (RELP_RET_OK, sb\<lparr>sbTxnr := txnr, sbData := Some d',
                   sbLenData := size_t (int (sbLenData sb) - int (sbLenTxnr sb) + int lenTxnr),
                   sbLenTxnr := lenTxnr\<rparr>)
         })"

text \<open>The bytes \<open>relpSendbufSend\<close> puts on the wire: they start behind the room kept for longer numbers.\<close>

definition sb_bytes :: "relpSendbuf \<Rightarrow> byte option list" where
  "sb_bytes sb = take (sbLenData sb) (drop (9 - sbLenTxnr sb) (the (sbData sb)))"

text \<open>A frame as the RELP specification writes it.\<close>

definition frame_bytes :: "int \<Rightarrow> byte list \<Rightarrow> byte list \<Rightarrow> byte list" where
  "frame_bytes txnr c d =
     numtxt txnr @ [32] @ c @ [32] @ numtxt (int (length d)) @ (if d = [] then [] else 32 # d) @ [10]"

text \<open>A buffer filled up to the pointer.\<close>

definition filled :: "byte option list \<times> nat \<Rightarrow> byte option list \<Rightarrow> nat \<Rightarrow> bool" where
  "filled b pre k \<longleftrightarrow> b = (pre @ replicate k None, length pre)"

lemma put_ok:
  assumes "filled b pre k" "length src \<le> k"
  obtains b' where "put src (length src) b = Some b'" "filled b' (pre @ map Some src) (k - length src)"
  using assms by (auto simp: put_def memcpy_def filled_def)

lemma put_byte:
  assumes "filled b pre k" "0 < k"
  obtains b' where "put [c] 1 b = Some b'" "filled b' (pre @ [Some c]) (k - 1)"
  using put_ok [of b pre k "[c]"] assms by (auto simp: Suc_le_eq)

lemma numtxt_ne: "numtxt n \<noteq> []"
  by (auto simp: numtxt_def digs_pos)

lemma numtxt_nat_length: "n < 10 ^ k \<Longrightarrow> 0 < k \<Longrightarrow> length (numtxt (int n)) \<le> k"
  using digs_length [of n k] by (simp add: numtxt_def)

definition built :: "relpSendbuf \<Rightarrow> int \<Rightarrow> byte list \<Rightarrow> byte list \<Rightarrow> rspHdlr \<Rightarrow> bool" where
  "built sb txnr c d hdlr \<longleftrightarrow> sbTxnr sb = txnr \<and> sbRspHdlr sb = hdlr \<and> sbLenTxnr sb = length (numtxt txnr) \<and>
     sbLenTxnr sb \<le> 9 \<and> sbLenData sb = length (frame_bytes txnr c d) \<and>
     length c < 4294967296 \<and> length d < 1000000000 \<and>
     (\<exists>room. sbData sb = Some (room @ map Some (frame_bytes txnr c d) @ [Some 0]) \<and> length room = 9 - sbLenTxnr sb)"

lemma built_bytes: "built sb txnr c d hdlr \<Longrightarrow> sb_bytes sb = map Some (frame_bytes txnr c d)"
  by (auto simp: built_def sb_bytes_def)

lemma frame_bytes_length:
  "length (frame_bytes txnr c d) =
     length (numtxt txnr) + 1 + length c + 1 + length (numtxt (int (length d))) + 1 + (if d = [] then 0 else 1 + length d)"
  by (simp add: frame_bytes_def)

lemma build_built:
  assumes "length (numtxt txnr) \<le> 9" and "length c < 4294967296" and "length d < 1000000000"
  shows "\<exists>sb. relpFrameBuildSendbuf True True txnr c (length c) d (length d) hdlr = Some (RELP_RET_OK, Some sb) \<and>
    built sb txnr c d hdlr \<and> bufPtr sb = 0"
proof -
  let ?t = "numtxt txnr" and ?l = "numtxt (int (length d))"
  let ?F = "frame_bytes txnr c d" and ?room = "replicate (9 - length ?t) (None :: byte option)"
  have l: "length ?l \<le> 9" by (rule numtxt_nat_length) (use assms(3) in simp_all)
  have len: "int (length ?F) < 4294967296 + 1000000100" using assms l by (cases "d = []") (simp_all add: frame_bytes_length)
  have sz: "size_t (int (if length d > 0 then length ?t + 1 + length c + 1 + length ?l + 1 + 1 + length d
       else length ?t + 1 + length c + 1 + length ?l + 1)) = length ?F"
    using len by (simp add: frame_bytes_length split: if_splits)
  have rep: "replicate (size_t (int (length ?F) + (9 - int (length ?t)) + 1)) None =
      ?room @ replicate (length ?F + 1) (None :: byte option)"
  proof -
    have "size_t (int (length ?F) + (9 - int (length ?t)) + 1) = (9 - length ?t) + (length ?F + 1)"
      using len assms(1) by simp
    then show ?thesis by (simp only: replicate_add)
  qed
  let ?k = "length ?F + 1"
  have k: "?k = length ?t + (1 + (length c + (1 + (length ?l + ((if d = [] then 0 else 1 + length d) + (1 + 1))))))"
    by (simp add: frame_bytes_length)
  have f0: "filled (?room @ replicate ?k None, 9 - length ?t) ?room ?k" by (simp add: filled_def)
  obtain b1 where b1: "put ?t (length ?t) (?room @ replicate ?k None, 9 - length ?t) = Some b1"
    and f1: "filled b1 (?room @ map Some ?t) (?k - length ?t)"
    by (rule put_ok [OF f0, of ?t]) (use k in linarith, blast)
  obtain b2 where b2: "put [32] 1 b1 = Some b2"
    and f2: "filled b2 ((?room @ map Some ?t) @ [Some 32]) (?k - length ?t - 1)"
    by (rule put_byte [OF f1]) (use k in linarith, blast)
  obtain b3 where b3: "put c (length c) b2 = Some b3"
    and f3: "filled b3 (((?room @ map Some ?t) @ [Some 32]) @ map Some c) (?k - length ?t - 1 - length c)"
    by (rule put_ok [OF f2, of c]) (use k in linarith, blast)
  obtain b4 where b4: "put [32] 1 b3 = Some b4"
    and f4: "filled b4 ((((?room @ map Some ?t) @ [Some 32]) @ map Some c) @ [Some 32]) (?k - length ?t - 1 - length c - 1)"
    by (rule put_byte [OF f3]) (use k in linarith, blast)
  let ?pre = "((((?room @ map Some ?t) @ [Some 32]) @ map Some c) @ [Some 32]) @ map Some ?l"
  have k5: "?k - length ?t - 1 - length c - 1 - length ?l = (if d = [] then 0 else 1 + length d) + (1 + 1)"
    using k by linarith
  obtain b5 where b5: "put ?l (length ?l) b4 = Some b5"
    and f5: "filled b5 ?pre ((if d = [] then 0 else 1 + length d) + (1 + 1))"
    by (rule put_ok [OF f4, of ?l]) (use k in linarith, use k5 in metis)
  obtain b6 where b6: "(if length d > 0 then do { b \<leftarrow> put [32] 1 b5; put d (length d) b } else Some b5) = Some b6"
    and f6: "filled b6 (?pre @ (if d = [] then [] else Some 32 # map Some d)) (1 + 1)"
  proof (cases "d = []")
    case True
    then show ?thesis using that [of b5] f5 by simp
  next
    case False
    then have g: "filled b5 ?pre (Suc (length d + (1 + 1)))" using f5 by simp
    obtain x where x: "put [32] 1 b5 = Some x" and fx: "filled x (?pre @ [Some 32]) (length d + (1 + 1))"
      by (rule put_byte [OF g]) auto
    obtain y where y: "put d (length d) x = Some y" and fy: "filled y ((?pre @ [Some 32]) @ map Some d) (1 + 1)"
      by (rule put_ok [OF fx, of d]) (simp, simp add: numeral_2_eq_2)
    show ?thesis using that [of y] x y fy False by simp
  qed
  obtain b7 where b7: "put [10] 1 b6 = Some b7"
    and f7: "filled b7 ((?pre @ (if d = [] then [] else Some 32 # map Some d)) @ [Some 10]) 1"
    by (rule put_byte [OF f6]) auto
  obtain b8 where b8: "put [0] 1 b7 = Some b8"
    and f8: "filled b8 (((?pre @ (if d = [] then [] else Some 32 # map Some d)) @ [Some 10]) @ [Some 0]) 0"
    by (rule put_byte [OF f7]) auto
  obtain D m where D: "b8 = (D, m)" by fastforce
  have "D = ?room @ map Some ?F @ [Some 0]" using f8 D by (auto simp: filled_def frame_bytes_def)
  moreover have nt: "(9 < length ?t) = False" and nl: "(9 < length ?l) = False" using assms(1) l by simp_all
  have i: "int_of_size (length d) = int (length d)" using assms(3) by simp
  have "relpFrameBuildSendbuf True True txnr c (length c) d (length d) hdlr =
      Some (RELP_RET_OK, Some \<lparr>sbData = Some D, sbTxnr = txnr, sbRspHdlr = hdlr, sbLenData = length ?F,
        sbLenTxnr = length ?t, bufPtr = 0\<rparr>)"
    by (simp only: relpFrameBuildSendbuf_def relpSendbufConstruct_def Let_def i sz rep nt nl if_True if_False
        prod.case option.case not_True_eq_False Option.bind.simps b1 b2 b3 b4 b5 b6 b7 b8 D relpSendbuf.simps)
  ultimately show ?thesis using assms by (simp add: built_def)
qed

lemma rewrite_built:
  assumes b: "built sb txnr c d hdlr" and n: "length (numtxt txnr') \<le> 9"
  shows "\<exists>sb'. relpFrameRewriteTxnr sb txnr' = Some (RELP_RET_OK, sb') \<and> built sb' txnr' c d hdlr \<and> bufPtr sb' = bufPtr sb"
proof -
  let ?t = "numtxt txnr" and ?t' = "numtxt txnr'"
  define rest where "rest = [32] @ c @ [32] @ numtxt (int (length d)) @ (if d = [] then [] else 32 # d) @ [10]"
  have F: "frame_bytes x c d = numtxt x @ rest" for x by (simp add: frame_bytes_def rest_def)
  obtain room where room: "sbData sb = Some (room @ map Some (?t @ rest) @ [Some 0])" "length room + length ?t = 9"
    and sl: "sbLenTxnr sb = length ?t" "sbLenData sb = length ?t + length rest"
    using b by (auto simp: built_def F)
  let ?D = "room @ map Some (?t @ rest) @ [Some 0]"
  have l: "length (numtxt (int (length d))) \<le> 9"
    by (rule numtxt_nat_length) (use b in \<open>simp_all add: built_def\<close>)
  have lr: "length rest < 6000000000" using b l by (cases "d = []") (simp_all add: built_def rest_def)
  have "drop 9 ?D = map Some rest @ [Some 0]"
    using room(2) by (simp add: append_assoc [symmetric] del: append_assoc)
  moreover have "memcpy ?D (9 - length ?t') (map Some ?t') (length ?t') =
      Some (take (9 - length ?t') ?D @ map Some ?t' @ drop 9 ?D)"
    using n room(2) by (auto simp: memcpy_def)
  moreover have "length (take (9 - length ?t') ?D) = 9 - length ?t'" using room(2) by simp
  moreover have "size_t (int (length rest) + int (length ?t')) = length ?t' + length rest" using lr n by simp
  ultimately show ?thesis using b n room(1) sl
    by (simp add: relpFrameRewriteTxnr_def Let_def built_def F)
qed

section \<open>Receiving\<close>

datatype relpFrameRcvState =
    BEGIN_FRAME | IN_TXNR | IN_CMD | IN_DATALEN | IN_DATA | IN_TRAILER | FINISHED

record relpFrame =
  rcvState :: relpFrameRcvState
  iRcv :: nat
  txnr :: int
  cmd :: "byte list"
  lenData :: nat
  pData :: "byte option list option"
  idxData :: nat

datatype relpSessType = eRelpSess_Server | eRelpSess_Client

record relpSrv =
  oversizeMode :: int

text \<open>The part of a session (relpsess.h) that the reception of frames uses.\<close>

record relpRcvSess =
  sessType :: relpSessType
  sessTxnr :: int
  maxDataSize :: nat
  maxCharsStore :: nat
  pSrv :: "relpSrv option"

definition relpFrameConstruct :: "bool \<Rightarrow> relpRetVal \<times> relpFrame option" where
  "relpFrameConstruct callocOK =
     (if callocOK
      then (RELP_RET_OK, Some \<lparr>rcvState = BEGIN_FRAME, iRcv = 0, txnr = 0, cmd = replicate 33 0, lenData = 0,
                               pData = None, idxData = 0\<rparr>)
      else (RELP_RET_OUT_OF_MEMORY, None))"

text \<open>
  The cases of the state machine. \<open>Inl\<close> is an abort with its code and the frame as it was left;
  \<open>Inr\<close> goes on.
\<close>

definition rcvTxnr :: "relpFrame \<Rightarrow> byte \<Rightarrow> (relpRetVal \<times> relpFrame + relpFrame) option" where
  "rcvTxnr f c =
     (if isdigit c
      then (let f1 = f\<lparr>iRcv := iRcv f + 1\<rparr>
            in if iRcv f = 9 then Some (Inl (RELP_RET_INVALID_FRAME, f1))
               else do { a \<leftarrow> c_int (txnr f * 10); b \<leftarrow> c_int (a + uint c); n \<leftarrow> c_int (b - 48);
                         Some (Inr (f1\<lparr>txnr := n\<rparr>)) })
      else if c = 32 then Some (Inr (f\<lparr>rcvState := IN_CMD, iRcv := 0\<rparr>))
      else Some (Inl (RELP_RET_INVALID_FRAME, f)))"

definition rcvCmd :: "relpFrame \<Rightarrow> byte \<Rightarrow> (relpRetVal \<times> relpFrame + relpFrame) option" where
  "rcvCmd f c =
     (if isalpha c
      then if iRcv f = 32 then Some (Inl (RELP_RET_INVALID_FRAME, f))
           else do { d \<leftarrow> c_set (cmd f) (iRcv f) c; Some (Inr (f\<lparr>cmd := d, iRcv := iRcv f + 1\<rparr>)) }
      else if c = 32
      then do { d \<leftarrow> c_set (cmd f) (iRcv f) 0; Some (Inr (f\<lparr>cmd := d, rcvState := IN_DATALEN, iRcv := 0\<rparr>)) }
      else Some (Inl (RELP_RET_INVALID_FRAME, f)))"

text \<open>The end of DATALEN with data to follow: how much of it to store, and the buffer.\<close>

definition rcvOversize :: "relpFrame \<Rightarrow> 'a relpRcvSess_scheme \<Rightarrow> (relpRetVal + 'a relpRcvSess_scheme) option" where
  "rcvOversize f s =
     (let s1 = s\<lparr>maxCharsStore := lenData f\<rparr>
      in if lenData f > maxDataSize s1
         then case pSrv s1 of
             None \<Rightarrow> Some (Inl RELP_RET_DATA_TOO_LONG)
           | Some srv \<Rightarrow>
               if oversizeMode srv = 0 then Some (Inl RELP_RET_DATA_TOO_LONG)
               else if oversizeMode srv = 1 then Some (Inr (s1\<lparr>maxCharsStore := maxDataSize s1\<rparr>))
               else if oversizeMode srv = 2 then Some (Inr s1)
               else None
         else Some (Inr s1))"

definition rcvDatalen :: "bool \<Rightarrow> relpFrame \<Rightarrow> byte \<Rightarrow> 'a relpRcvSess_scheme \<Rightarrow>
    (relpRetVal \<times> relpFrame \<times> 'a relpRcvSess_scheme + relpFrame \<times> 'a relpRcvSess_scheme) option" where
  "rcvDatalen mallocOK f c s =
     (if isdigit c
      then (let f1 = f\<lparr>iRcv := iRcv f + 1\<rparr>
            in if iRcv f = 9 then Some (Inl (RELP_RET_INVALID_FRAME, f1, s))
               else Some (Inr (f1\<lparr>lenData := size_t (int (lenData f) * 10 + uint c - 48)\<rparr>, s)))
      else if c = 32
      then do {
        r \<leftarrow> rcvOversize f s;
        (case r of
           Inl e \<Rightarrow> Some (Inl (e, f, s\<lparr>maxCharsStore := lenData f\<rparr>))
         | Inr s1 \<Rightarrow>
             if \<not> mallocOK then Some (Inl (RELP_RET_OUT_OF_MEMORY, f\<lparr>pData := None\<rparr>, s1))
             else Some (Inr (f\<lparr>pData := Some (replicate (maxCharsStore s1) None), rcvState := IN_DATA, iRcv := 0\<rparr>, s1)))
      }
      else Some (Inl (RELP_RET_INVALID_FRAME, f, s)))"

definition rcvData :: "relpFrame \<Rightarrow> byte \<Rightarrow> nat \<Rightarrow> relpFrame option" where
  "rcvData f c maxStore =
     (if iRcv f < maxStore
      then do { d \<leftarrow> pData f; d' \<leftarrow> c_set d (iRcv f) (Some c); Some (f\<lparr>pData := Some d', iRcv := iRcv f + 1\<rparr>) }
      else Some (f\<lparr>iRcv := iRcv f + 1\<rparr>))"

text \<open>The trailer: a complete frame is dispatched and destructed, whatever the result.\<close>

definition rcvTrailer :: "(relpFrame \<Rightarrow> 'a relpRcvSess_scheme \<Rightarrow> (relpRetVal \<times> 'a relpRcvSess_scheme) option) \<Rightarrow>
    relpFrame \<Rightarrow> byte \<Rightarrow> 'a relpRcvSess_scheme \<Rightarrow> (relpRetVal \<times> relpFrame option \<times> 'a relpRcvSess_scheme) option" where
  "rcvTrailer dispatch f c s =
     (if c \<noteq> 10 then Some (RELP_RET_INVALID_FRAME, Some f, s)
      else (let f1 = f\<lparr>rcvState := FINISHED\<rparr>
            in if txnr f1 \<noteq> 0 \<and> sessType s = eRelpSess_Server \<and> txnr f1 \<noteq> sessTxnr s
               then Some (RELP_RET_INVALID_TXNR, None, s)
               else do {
                 let s1 = (if txnr f1 \<noteq> 0 \<and> sessType s = eRelpSess_Server
                           then s\<lparr>sessTxnr := relpEngineNextTXNR (sessTxnr s)\<rparr> else s);
                 (r, s2) \<leftarrow> dispatch f1 s1;
                 Some (r, None, s2)
               }))"

text \<open>One octet for a frame under construction. \<open>assert\<close> makes a finished frame undefined.\<close>

definition rcvOctet :: "(relpFrame \<Rightarrow> 'a relpRcvSess_scheme \<Rightarrow> (relpRetVal \<times> 'a relpRcvSess_scheme) option) \<Rightarrow> bool \<Rightarrow>
    relpFrame \<Rightarrow> byte \<Rightarrow> 'a relpRcvSess_scheme \<Rightarrow> (relpRetVal \<times> relpFrame option \<times> 'a relpRcvSess_scheme) option" where
  "rcvOctet dispatch mallocOK f c s =
     (let step = (\<lambda>r. case r of Inl (e, f') \<Rightarrow> (e, Some f', s) | Inr f' \<Rightarrow> (RELP_RET_OK, Some f', s))
      in case rcvState f of
        BEGIN_FRAME \<Rightarrow>
          if \<not> isdigit c then Some (RELP_RET_INVALID_FRAME, Some f, s)
          else map_option step (rcvTxnr (f\<lparr>rcvState := IN_TXNR\<rparr>) c)
      | IN_TXNR \<Rightarrow> map_option step (rcvTxnr f c)
      | IN_CMD \<Rightarrow> map_option step (rcvCmd f c)
      | IN_DATALEN \<Rightarrow>
          if \<not> isdigit c \<and> lenData f = 0
          then rcvTrailer dispatch (f\<lparr>rcvState := IN_TRAILER, iRcv := 0\<rparr>) c s
          else map_option (\<lambda>r. case r of Inl (e, f', s') \<Rightarrow> (e, Some f', s') | Inr (f', s') \<Rightarrow> (RELP_RET_OK, Some f', s'))
                 (rcvDatalen mallocOK f c s)
      | IN_DATA \<Rightarrow>
          if iRcv f < lenData f
          then map_option (\<lambda>f'. (RELP_RET_OK, Some f', s)) (rcvData f c (maxCharsStore s))
          else rcvTrailer dispatch
                 (f\<lparr>lenData := (if maxCharsStore s < lenData f then maxCharsStore s else lenData f),
                    rcvState := IN_TRAILER, iRcv := 0\<rparr>) c s
      | IN_TRAILER \<Rightarrow> rcvTrailer dispatch f c s
      | FINISHED \<Rightarrow> None)"

definition relpFrameProcessOctetRcvd ::
    "(relpFrame \<Rightarrow> 'a relpRcvSess_scheme \<Rightarrow> (relpRetVal \<times> 'a relpRcvSess_scheme) option) \<Rightarrow> bool \<Rightarrow> bool \<Rightarrow>
     relpFrame option \<Rightarrow> byte \<Rightarrow> 'a relpRcvSess_scheme \<Rightarrow> (relpRetVal \<times> relpFrame option \<times> 'a relpRcvSess_scheme) option" where
  "relpFrameProcessOctetRcvd dispatch callocOK mallocOK pThis c s =
     (case pThis of
        Some f \<Rightarrow> rcvOctet dispatch mallocOK f c s
      | None \<Rightarrow>
          (case relpFrameConstruct callocOK of
             (r, None) \<Rightarrow> Some (r, None, s)
           | (_, Some f) \<Rightarrow>
               map_option (\<lambda>(r, f', s'). (r, if r \<noteq> RELP_RET_OK then None else f', s')) (rcvOctet dispatch mallocOK f c s)))"

text \<open>The next character of the data of a frame.\<close>

definition relpFrameGetNextC :: "relpFrame \<Rightarrow> (relpRetVal \<times> byte option \<times> relpFrame) option" where
  "relpFrameGetNextC f =
     (if idxData f \<ge> lenData f then Some (RELP_RET_END_OF_DATA, None, f)
      else do { d \<leftarrow> pData f; c \<leftarrow> rd d (idxData f); Some (RELP_RET_OK, Some c, f\<lparr>idxData := idxData f + 1\<rparr>) })"

text \<open>
  The loop over the received octets in \<open>relpSessRcvData\<close> (relpsess.c); \<open>mem i\<close> says whether
  \<open>calloc\<close> and \<open>malloc\<close> succeed at the \<open>i\<close>-th octet.
\<close>

fun rcvOctets ::
    "(relpFrame \<Rightarrow> 'a relpRcvSess_scheme \<Rightarrow> (relpRetVal \<times> 'a relpRcvSess_scheme) option) \<Rightarrow> (nat \<Rightarrow> bool \<times> bool) \<Rightarrow>
     nat \<Rightarrow> byte list \<Rightarrow> relpFrame option \<Rightarrow> 'a relpRcvSess_scheme \<Rightarrow>
     (relpRetVal \<times> relpFrame option \<times> 'a relpRcvSess_scheme) option" where
  "rcvOctets dispatch mem i [] fr s = Some (RELP_RET_OK, fr, s)"
| "rcvOctets dispatch mem i (c # cs) fr s =
     do {
       (r, fr', s') \<leftarrow> relpFrameProcessOctetRcvd dispatch (fst (mem i)) (snd (mem i)) fr c s;
       if r \<noteq> RELP_RET_OK then Some (r, fr', s') else rcvOctets dispatch mem (Suc i) cs fr' s'
     }"

section \<open>No octet is undefined\<close>

text \<open>A frame as the dispatcher may rely on it, and a frame under construction.\<close>

definition frame_complete :: "relpFrame \<Rightarrow> bool" where
  "frame_complete f \<longleftrightarrow> length (cmd f) = 33 \<and> cmd f ! 32 = 0 \<and> 0 \<le> txnr f \<and> txnr f < 1000000000 \<and> idxData f = 0 \<and>
     (lenData f = 0 \<or> (\<exists>d. pData f = Some d \<and> lenData f \<le> length d \<and> None \<notin> set (take (lenData f) d)))"

definition frame_ok :: "relpFrame \<Rightarrow> 'a relpRcvSess_scheme \<Rightarrow> bool" where
  "frame_ok f s \<longleftrightarrow> length (cmd f) = 33 \<and> cmd f ! 32 = 0 \<and> 0 \<le> txnr f \<and> txnr f < 1000000000 \<and> idxData f = 0 \<and>
     (case rcvState f of
        BEGIN_FRAME \<Rightarrow> iRcv f = 0 \<and> txnr f = 0
      | IN_TXNR \<Rightarrow> iRcv f \<le> 9 \<and> txnr f < 10 ^ iRcv f
      | IN_CMD \<Rightarrow> iRcv f \<le> 32
      | IN_DATALEN \<Rightarrow> True
      | IN_DATA \<Rightarrow> iRcv f \<le> lenData f \<and> (\<exists>d. pData f = Some d \<and> length d = maxCharsStore s \<and>
                     None \<notin> set (take (iRcv f) d))
      | IN_TRAILER \<Rightarrow> frame_complete f
      | FINISHED \<Rightarrow> False)"

definition step_ok :: "(relpRetVal \<times> relpFrame + relpFrame) \<Rightarrow> 'a relpRcvSess_scheme \<Rightarrow> bool" where
  "step_ok x s \<longleftrightarrow> (case x of Inl (e, f) \<Rightarrow> e \<noteq> RELP_RET_OK | Inr f \<Rightarrow> frame_ok f s)"

lemma digit_uint: "isdigit c \<Longrightarrow> 48 \<le> uint c \<and> uint c \<le> 57"
  by (simp add: isdigit_uint)

lemma pow10_le: "k \<le> 8 \<Longrightarrow> (10 :: int) ^ k \<le> 100000000"
  using power_increasing [of k 8 "10 :: int"] by simp

lemma rcvTxnr_ok:
  assumes "frame_ok f s" and "rcvState f = IN_TXNR"
  shows "\<exists>x. rcvTxnr f c = Some x \<and> step_ok x s"
proof (cases "isdigit c \<and> iRcv f \<noteq> 9")
  case True
  then have k: "iRcv f \<le> 8" "txnr f < 10 ^ iRcv f" "0 \<le> txnr f" using assms by (auto simp: frame_ok_def)
  have "txnr f < 100000000" using k(2) pow10_le [OF k(1)] by linarith
  moreover have "txnr f * 10 + uint c - 48 < 10 ^ Suc (iRcv f)" using k True digit_uint [of c] by simp
  moreover have "txnr f * 10 + uint c - 48 < 1000000000" using calculation(1) digit_uint [of c] True by simp
  ultimately show ?thesis
    using True k assms digit_uint [of c] by (auto simp: rcvTxnr_def frame_ok_def step_ok_def)
qed (use assms in \<open>auto simp: rcvTxnr_def frame_ok_def step_ok_def\<close>)

lemma rcvCmd_ok:
  assumes "frame_ok f s" and "rcvState f = IN_CMD"
  shows "\<exists>x. rcvCmd f c = Some x \<and> step_ok x s"
  using assms by (auto simp: rcvCmd_def frame_ok_def step_ok_def nth_list_update)

lemma rcvOversize_ok:
  assumes "\<And>srv. pSrv s = Some srv \<Longrightarrow> oversizeMode srv \<in> {0, 1, 2}"
  shows "\<exists>x. rcvOversize f s = Some x \<and> (\<forall>e. x = Inl e \<longrightarrow> e = RELP_RET_DATA_TOO_LONG) \<and>
    (\<forall>s'. x = Inr s' \<longrightarrow> s' = s\<lparr>maxCharsStore := maxCharsStore s'\<rparr>)"
  using assms by (auto simp: rcvOversize_def Let_def split: option.split)

lemma store_same: "s = s\<lparr>maxCharsStore := maxCharsStore s\<rparr>"
  by simp

lemma rcvDatalen_ok:
  assumes f: "frame_ok f s" "rcvState f = IN_DATALEN"
    and srv: "\<And>srv. pSrv s = Some srv \<Longrightarrow> oversizeMode srv \<in> {0, 1, 2}"
  shows "\<exists>x. rcvDatalen m f c s = Some x \<and>
    (\<forall>e f' s'. x = Inl (e, f', s') \<longrightarrow> e \<noteq> RELP_RET_OK \<and> s' = s\<lparr>maxCharsStore := maxCharsStore s'\<rparr>) \<and>
    (\<forall>f' s'. x = Inr (f', s') \<longrightarrow> frame_ok f' s' \<and> s' = s\<lparr>maxCharsStore := maxCharsStore s'\<rparr>)"
proof -
  obtain x where "rcvOversize f s = Some x" "\<forall>e. x = Inl e \<longrightarrow> e = RELP_RET_DATA_TOO_LONG"
    "\<forall>s'. x = Inr s' \<longrightarrow> s' = s\<lparr>maxCharsStore := maxCharsStore s'\<rparr>"
    using rcvOversize_ok [OF srv] by blast
  then show ?thesis using f by (cases x) (auto simp: rcvDatalen_def frame_ok_def Let_def)
qed

lemma rcvData_ok:
  assumes "frame_ok f s" and "rcvState f = IN_DATA" and "iRcv f < lenData f"
  shows "\<exists>f'. rcvData f c (maxCharsStore s) = Some f' \<and> frame_ok f' s"
  using assms by (auto simp: rcvData_def frame_ok_def take_Suc_conv_app_nth)

text \<open>What the receiver needs of the dispatcher: defined on complete frames, and keeping an invariant.\<close>

locale frame_dispatcher =
  fixes dispatch :: "relpFrame \<Rightarrow> 'a relpRcvSess_scheme \<Rightarrow> (relpRetVal \<times> 'a relpRcvSess_scheme) option"
    and inv :: "'a relpRcvSess_scheme \<Rightarrow> bool"
  assumes dispatch_ok: "frame_complete f \<Longrightarrow> inv s \<Longrightarrow> \<exists>r s'. dispatch f s = Some (r, s') \<and> inv s'"
    and inv_mode: "inv s \<Longrightarrow> pSrv s = Some srv \<Longrightarrow> oversizeMode srv \<in> {0, 1, 2}"
    and inv_txnr: "inv s \<Longrightarrow> inv (s\<lparr>sessTxnr := relpEngineNextTXNR (sessTxnr s)\<rparr>)"
    and inv_store: "inv s \<Longrightarrow> inv (s\<lparr>maxCharsStore := n\<rparr>)"
begin

lemma trailer_ok:
  assumes "frame_complete f" and "inv s"
  shows "\<exists>r fr s'. rcvTrailer dispatch f c s = Some (r, fr, s') \<and> inv s' \<and> (r = RELP_RET_OK \<longrightarrow> fr = None)"
proof -
  have "frame_complete (f\<lparr>rcvState := FINISHED\<rparr>)" using assms(1) by (simp add: frame_complete_def)
  from dispatch_ok [OF this] show ?thesis
    using assms(2) inv_txnr [OF assms(2)] by (fastforce simp: rcvTrailer_def Let_def)
qed

lemma rcvOctet_ok:
  assumes f: "frame_ok f s" and i: "inv s"
  shows "\<exists>r fr s'. rcvOctet dispatch m f c s = Some (r, fr, s') \<and> inv s' \<and>
    (r = RELP_RET_OK \<longrightarrow> (\<forall>f'. fr = Some f' \<longrightarrow> frame_ok f' s'))"
proof (cases "rcvState f")
  case BEGIN_FRAME
  then have "frame_ok (f\<lparr>rcvState := IN_TXNR\<rparr>) s" using f by (auto simp: frame_ok_def)
  from rcvTxnr_ok [OF this, of c] obtain x where "rcvTxnr (f\<lparr>rcvState := IN_TXNR\<rparr>) c = Some x" "step_ok x s" by auto
  then show ?thesis using BEGIN_FRAME i by (cases x) (auto simp: rcvOctet_def step_ok_def)
next
  case IN_TXNR
  from rcvTxnr_ok [OF f IN_TXNR, of c] obtain x where "rcvTxnr f c = Some x" "step_ok x s" by blast
  then show ?thesis using IN_TXNR i by (cases x) (auto simp: rcvOctet_def step_ok_def)
next
  case IN_CMD
  from rcvCmd_ok [OF f IN_CMD, of c] obtain x where "rcvCmd f c = Some x" "step_ok x s" by blast
  then show ?thesis using IN_CMD i by (cases x) (auto simp: rcvOctet_def step_ok_def)
next
  case IN_DATALEN
  show ?thesis
  proof (cases "\<not> isdigit c \<and> lenData f = 0")
    case True
    then have "frame_complete (f\<lparr>rcvState := IN_TRAILER, iRcv := 0\<rparr>)"
      using f by (simp add: frame_ok_def frame_complete_def)
    from trailer_ok [OF this i, of c] show ?thesis using True IN_DATALEN by (auto simp: rcvOctet_def)
  next
    case False
    from rcvDatalen_ok [OF f IN_DATALEN inv_mode [OF i], of m c] obtain x where
      x: "rcvDatalen m f c s = Some x"
      "\<And>e f' s'. x = Inl (e, f', s') \<Longrightarrow> e \<noteq> RELP_RET_OK \<and> s' = s\<lparr>maxCharsStore := maxCharsStore s'\<rparr>"
      "\<And>f' s'. x = Inr (f', s') \<Longrightarrow> frame_ok f' s' \<and> s' = s\<lparr>maxCharsStore := maxCharsStore s'\<rparr>" by blast
    show ?thesis
    proof (cases x)
      case (Inl a)
      obtain e f' s' where a: "a = (e, f', s')" by (cases a)
      then have "e \<noteq> RELP_RET_OK" "inv s'" using x(2) [of e f' s'] Inl inv_store [OF i, of "maxCharsStore s'"] by auto
      then show ?thesis using x(1) Inl a False IN_DATALEN by (auto simp: rcvOctet_def)
    next
      case (Inr a)
      obtain f' s' where a: "a = (f', s')" by (cases a)
      then have "frame_ok f' s'" "inv s'" using x(3) [of f' s'] Inr inv_store [OF i, of "maxCharsStore s'"] by auto
      then show ?thesis using x(1) Inr a False IN_DATALEN by (auto simp: rcvOctet_def)
    qed
  qed
next
  case IN_DATA
  show ?thesis
  proof (cases "iRcv f < lenData f")
    case True
    from rcvData_ok [OF f IN_DATA True, of c] show ?thesis using True IN_DATA i by (auto simp: rcvOctet_def)
  next
    case False
    then have "frame_complete (f\<lparr>lenData := (if maxCharsStore s < lenData f then maxCharsStore s else lenData f),
        rcvState := IN_TRAILER, iRcv := 0\<rparr>)"
      using f IN_DATA by (auto simp: frame_ok_def frame_complete_def dest: in_set_takeD)
    from trailer_ok [OF this i, of c] show ?thesis using False IN_DATA by (auto simp: rcvOctet_def)
  qed
next
  case IN_TRAILER
  then have "frame_complete f" using f by (simp add: frame_ok_def)
  from trailer_ok [OF this i, of c] show ?thesis using IN_TRAILER by (auto simp: rcvOctet_def)
qed (use f in \<open>simp add: frame_ok_def\<close>)

lemma processOctet_ok:
  assumes f: "\<And>f. fr = Some f \<Longrightarrow> frame_ok f s" and i: "inv s"
  shows "\<exists>r fr' s'. relpFrameProcessOctetRcvd dispatch ca m fr c s = Some (r, fr', s') \<and> inv s' \<and>
    (r = RELP_RET_OK \<longrightarrow> (\<forall>f'. fr' = Some f' \<longrightarrow> frame_ok f' s'))"
proof (cases fr)
  case None
  show ?thesis
  proof (cases ca)
    case True
    let ?f = "\<lparr>rcvState = BEGIN_FRAME, iRcv = 0, txnr = 0, cmd = replicate 33 0, lenData = 0, pData = None, idxData = 0\<rparr>"
    have "frame_ok ?f s" by (simp add: frame_ok_def nth_replicate)
    from rcvOctet_ok [OF this i, of m c] obtain r fr0 s' where
      "rcvOctet dispatch m ?f c s = Some (r, fr0, s')" "inv s'"
      "r = RELP_RET_OK \<longrightarrow> (\<forall>f'. fr0 = Some f' \<longrightarrow> frame_ok f' s')" by blast
    then show ?thesis
      using None True by (simp add: relpFrameProcessOctetRcvd_def relpFrameConstruct_def)
  qed (use None i in \<open>simp add: relpFrameProcessOctetRcvd_def relpFrameConstruct_def\<close>)
next
  case (Some f')
  then show ?thesis using rcvOctet_ok [OF f i] by (simp add: relpFrameProcessOctetRcvd_def)
qed

lemma rcvOctets_ok:
  assumes "\<And>f. fr = Some f \<Longrightarrow> frame_ok f s" and "inv s"
  shows "\<exists>r fr' s'. rcvOctets dispatch mem i cs fr s = Some (r, fr', s') \<and> inv s' \<and>
    (r = RELP_RET_OK \<longrightarrow> (\<forall>f'. fr' = Some f' \<longrightarrow> frame_ok f' s'))"
  using assms
proof (induction cs arbitrary: i fr s)
  case (Cons c cs)
  obtain r fr' s' where p: "relpFrameProcessOctetRcvd dispatch (fst (mem i)) (snd (mem i)) fr c s = Some (r, fr', s')"
    "inv s'" "r = RELP_RET_OK \<longrightarrow> (\<forall>f'. fr' = Some f' \<longrightarrow> frame_ok f' s')"
    using processOctet_ok [OF Cons.prems] by blast
  show ?case
  proof (cases "r = RELP_RET_OK")
    case True
    then show ?thesis using p Cons.IH [of fr' s' "Suc i"] by auto
  qed (use p in auto)
qed simp

end

end
