(* ===== verification/RelpWire.thy ===== *)
theory RelpWire
  imports RelpFrame
begin

text \<open>
  Sender and receiver of RELP frames together: the receiver of \<open>relpframe.c\<close>, fed with the
  octets of a frame that the sender of the same file built, dispatches exactly that frame, for
  any division of the octets over calls; an oversize frame is refused, cut or accepted as the
  mode of the server says.
\<close>

section \<open>The fields one by one\<close>

abbreviation always :: "nat \<Rightarrow> bool \<times> bool" where
  "always \<equiv> \<lambda>_. (True, True)"

lemma processOctet_Some [simp]:
  "relpFrameProcessOctetRcvd dispatch ca m (Some f) c s = rcvOctet dispatch m f c s"
  by (simp add: relpFrameProcessOctetRcvd_def)

lemma dval_bound:
  "\<forall>d \<in> set ds. isdigit d \<Longrightarrow> 0 \<le> n \<Longrightarrow> n < 10 ^ k \<Longrightarrow> 0 \<le> dval n ds \<and> dval n ds < 10 ^ (k + length ds)"
proof (induction ds arbitrary: n k)
  case (Cons d ds)
  then have "0 \<le> n * 10 + (uint d - 48)" "n * 10 + (uint d - 48) < 10 ^ Suc k"
    using digit_uint [of d] by auto
  from Cons.IH [OF _ this] show ?case using Cons.prems by (simp add: dval_Cons)
qed (simp add: dval_def)

lemma rcv_txnr:
  assumes "rcvState f = IN_TXNR" "\<forall>d \<in> set ds. isdigit d" "iRcv f + length ds \<le> 9" "0 \<le> txnr f" "txnr f < 10 ^ iRcv f"
  shows "rcvOctets dispatch mem i (ds @ cs) (Some f) s =
    rcvOctets dispatch mem (i + length ds) cs (Some (f\<lparr>iRcv := iRcv f + length ds, txnr := dval (txnr f) ds\<rparr>)) s"
  using assms
proof (induction ds arbitrary: f i)
  case (Cons d ds)
  let ?f = "f\<lparr>iRcv := iRcv f + 1, txnr := txnr f * 10 + (uint d - 48)\<rparr>"
  have d: "isdigit d" "48 \<le> uint d" "uint d \<le> 57" using Cons.prems(2) digit_uint [of d] by auto
  have "txnr f < 100000000" using Cons.prems pow10_le [of "iRcv f"] by simp
  then have "rcvTxnr f d = Some (Inr ?f)" using Cons.prems d by (simp add: rcvTxnr_def Let_def)
  moreover have "txnr ?f < 10 ^ iRcv ?f" "0 \<le> txnr ?f" using Cons.prems(4,5) d by simp_all
  ultimately show ?case
    using Cons.prems Cons.IH [of ?f "Suc i"] by (simp add: rcvOctet_def dval_Cons)
qed (simp add: dval_def)

lemma rcv_cmd:
  assumes "rcvState f = IN_CMD" "\<forall>x \<in> set c. isalpha x" "iRcv f + length c \<le> 32" "length (cmd f) = 33"
  shows "rcvOctets dispatch mem i (c @ cs) (Some f) s =
    rcvOctets dispatch mem (i + length c) cs (Some (f\<lparr>iRcv := iRcv f + length c,
      cmd := take (iRcv f) (cmd f) @ c @ drop (iRcv f + length c) (cmd f)\<rparr>)) s"
  using assms
proof (induction c arbitrary: f i)
  case (Cons x c)
  let ?f = "f\<lparr>iRcv := iRcv f + 1, cmd := (cmd f)[iRcv f := x]\<rparr>"
  have "rcvCmd f x = Some (Inr ?f)" using Cons.prems by (simp add: rcvCmd_def)
  then show ?case
    using Cons.prems Cons.IH [of ?f "Suc i"] by (simp add: rcvOctet_def take_Suc_conv_app_nth upd_conv_take_nth_drop add.commute [of "length c"])
qed simp

lemma rcv_datalen:
  assumes "rcvState f = IN_DATALEN" "\<forall>d \<in> set ds. isdigit d" "iRcv f + length ds \<le> 9" "int (lenData f) < 10 ^ iRcv f"
  shows "rcvOctets dispatch mem i (ds @ cs) (Some f) s =
    rcvOctets dispatch mem (i + length ds) cs
      (Some (f\<lparr>iRcv := iRcv f + length ds, lenData := nat (dval (int (lenData f)) ds)\<rparr>)) s"
  using assms
proof (induction ds arbitrary: f i)
  case (Cons d ds)
  let ?n = "int (lenData f) * 10 + (uint d - 48)"
  let ?f = "f\<lparr>iRcv := iRcv f + 1, lenData := nat ?n\<rparr>"
  have d: "isdigit d" "48 \<le> uint d" "uint d \<le> 57" using Cons.prems(2) digit_uint [of d] by auto
  have "(10 :: int) ^ iRcv f \<le> 100000000" by (rule pow10_le) (use Cons.prems(3) in simp)
  then have n: "int (lenData f) < 100000000" using Cons.prems(4) by linarith
  then have "size_t (int (lenData f) * 10 + uint d - 48) = nat ?n" using d by simp
  then have "rcvDatalen (snd (mem i)) f d s = Some (Inr (?f, s))" using Cons.prems d by (simp add: rcvDatalen_def Let_def)
  moreover have nb: "0 \<le> ?n" "?n < 10 * 10 ^ iRcv f" using Cons.prems(4) d by linarith+
  ultimately show ?case
    using Cons.prems Cons.IH [of ?f "Suc i"] d nb by (simp add: rcvOctet_def dval_Cons)
qed (simp add: dval_def)

lemma pData_same: "pData f = Some d \<Longrightarrow> f\<lparr>pData := Some d\<rparr> = f"
  by (cases f) simp

lemma rcv_data:
  assumes "rcvState f = IN_DATA" "iRcv f + length x \<le> lenData f" "pData f = Some d" "length d = maxCharsStore s"
  shows "rcvOctets dispatch mem i (x @ cs) (Some f) s =
    rcvOctets dispatch mem (i + length x) cs (Some (f\<lparr>iRcv := iRcv f + length x,
      pData := Some (take (iRcv f) d @ map Some (take (length d - iRcv f) x) @ drop (iRcv f + length x) d)\<rparr>)) s"
  using assms
proof (induction x arbitrary: f d i)
  case (Cons c x)
  let ?d = "if iRcv f < length d then d[iRcv f := Some c] else d"
  let ?f = "f\<lparr>iRcv := iRcv f + 1, pData := Some ?d\<rparr>"
  have "rcvData f c (maxCharsStore s) = Some ?f" using Cons.prems by (auto simp: rcvData_def)
  then have "rcvOctets dispatch mem i ((c # x) @ cs) (Some f) s = rcvOctets dispatch mem (Suc i) (x @ cs) (Some ?f) s"
    using Cons.prems by (simp add: rcvOctet_def)
  also have "\<dots> = rcvOctets dispatch mem (Suc i + length x) cs (Some (?f\<lparr>iRcv := iRcv ?f + length x,
      pData := Some (take (iRcv ?f) ?d @ map Some (take (length ?d - iRcv ?f) x) @ drop (iRcv ?f + length x) ?d)\<rparr>)) s"
    by (rule Cons.IH) (use Cons.prems in auto)
  also have "take (iRcv ?f) ?d @ map Some (take (length ?d - iRcv ?f) x) @ drop (iRcv ?f + length x) ?d =
      take (iRcv f) d @ map Some (take (length d - iRcv f) (c # x)) @ drop (iRcv f + length (c # x)) d"
  proof (cases "iRcv f < length d")
    case True
    then obtain k where k: "length d - iRcv f = Suc k" "length d = Suc (iRcv f + k)"
      by (metis Suc_diff_Suc add_Suc_right le_add_diff_inverse less_imp_le_nat)
    then show ?thesis using True by (simp add: take_Suc_conv_app_nth)
  qed simp
  finally show ?case by simp
qed (simp add: pData_same)

section \<open>Whole frames\<close>

lemma numtxt_digits: "0 \<le> t \<Longrightarrow> (\<forall>d \<in> set (numtxt t). isdigit d) \<and> dval 0 (numtxt t) = t"
  using dval_digs [of "nat t"] digs_digit [of _ "nat t"] by (auto simp: numtxt_def isdigit_def dval_def)

text \<open>How much of the data of a frame is stored, and whether at all.\<close>

definition store_limit :: "'a relpRcvSess_scheme \<Rightarrow> nat \<Rightarrow> nat option" where
  "store_limit s n =
     (if n \<le> maxDataSize s then Some n
      else case pSrv s of
          None \<Rightarrow> None
        | Some srv \<Rightarrow> if oversizeMode srv = 1 then Some (maxDataSize s) else if oversizeMode srv = 2 then Some n else None)"

lemma store_limit_le: "store_limit s n = Some m \<Longrightarrow> m \<le> n"
  by (auto simp: store_limit_def split: if_splits option.splits)

lemma store_limit_0 [simp]: "store_limit s 0 = Some 0"
  by (simp add: store_limit_def)

lemma oversize_limit: "store_limit s (lenData f) = Some m \<Longrightarrow> rcvOversize f s = Some (Inr (s\<lparr>maxCharsStore := m\<rparr>))"
  by (auto simp: store_limit_def rcvOversize_def Let_def split: if_splits option.splits)

text \<open>The frame the dispatcher gets, and the session it gets it in.\<close>

definition wire_frame :: "int \<Rightarrow> byte list \<Rightarrow> byte list \<Rightarrow> nat \<Rightarrow> relpFrame" where
  "wire_frame t c d m =
     \<lparr>rcvState = FINISHED, iRcv = 0, txnr = t, cmd = c @ replicate (33 - length c) 0, lenData = m,
      pData = (if d = [] then None else Some (map Some (take m d))), idxData = 0\<rparr>"

definition rcv_sess :: "int \<Rightarrow> byte list \<Rightarrow> nat \<Rightarrow> 'a relpRcvSess_scheme \<Rightarrow> 'a relpRcvSess_scheme" where
  "rcv_sess t d m s =
     (let s1 = (if d = [] then s else s\<lparr>maxCharsStore := m\<rparr>)
      in if t \<noteq> 0 \<and> sessType s = eRelpSess_Server then s1\<lparr>sessTxnr := relpEngineNextTXNR (sessTxnr s1)\<rparr> else s1)"

definition head_frame :: "int \<Rightarrow> byte list \<Rightarrow> relpFrame" where
  "head_frame t c = \<lparr>rcvState = IN_DATALEN, iRcv = 0, txnr = t, cmd = c @ replicate (33 - length c) 0, lenData = 0,
      pData = None, idxData = 0\<rparr>"

lemma first_octet:
  assumes "isdigit d"
  shows "relpFrameProcessOctetRcvd dispatch True True None d s = rcvOctet dispatch True
     \<lparr>rcvState = IN_TXNR, iRcv = 0, txnr = 0, cmd = replicate 33 0, lenData = 0, pData = None, idxData = 0\<rparr> d s"
proof -
  have "48 \<le> uint d" "uint d \<le> 57" using digit_uint [OF assms] by auto
  then show ?thesis using assms
    by (simp add: relpFrameProcessOctetRcvd_def relpFrameConstruct_def rcvOctet_def rcvTxnr_def)
qed

lemma rcv_head:
  assumes t: "0 \<le> t" "t < 1000000000" and c: "\<forall>x \<in> set c. isalpha x" "length c \<le> 32"
  shows "rcvOctets dispatch always i (numtxt t @ [32] @ c @ [32] @ cs) None s =
    rcvOctets dispatch always (i + length (numtxt t) + length c + 2) cs (Some (head_frame t c)) s"
proof -
  let ?f0 = "\<lparr>rcvState = IN_TXNR, iRcv = 0, txnr = 0, cmd = replicate 33 0, lenData = 0, pData = None, idxData = 0\<rparr>"
  let ?cs = "[32] @ c @ [32] @ cs"
  note n = numtxt_digits [OF t(1)]
  have l: "length (numtxt t) \<le> 9" using numtxt_nat_length [of "nat t" 9] t by simp
  obtain a as where a: "numtxt t = a # as" using numtxt_ne by (cases "numtxt t") auto
  have "rcvOctets dispatch always i (numtxt t @ ?cs) None s = rcvOctets dispatch always i (numtxt t @ ?cs) (Some ?f0) s"
    using n a by (simp add: first_octet)
  also have "\<dots> = rcvOctets dispatch always (i + length (numtxt t)) ?cs
      (Some (?f0\<lparr>iRcv := length (numtxt t), txnr := t\<rparr>)) s"
    using rcv_txnr [of ?f0 "numtxt t" dispatch always i ?cs s] n l by simp
  also have "\<dots> = rcvOctets dispatch always (i + length (numtxt t) + 1) (c @ [32] @ cs)
      (Some (?f0\<lparr>rcvState := IN_CMD, txnr := t\<rparr>)) s"
    by (simp add: rcvOctet_def rcvTxnr_def isdigit_def)
  also have "\<dots> = rcvOctets dispatch always (i + length (numtxt t) + 1 + length c) ([32] @ cs)
      (Some (?f0\<lparr>rcvState := IN_CMD, txnr := t, iRcv := length c, cmd := c @ replicate (33 - length c) 0\<rparr>)) s"
    using rcv_cmd [of "?f0\<lparr>rcvState := IN_CMD, txnr := t\<rparr>" c dispatch always "i + length (numtxt t) + 1" "[32] @ cs" s] c
    by (simp del: rcvOctets.simps)
  also have "\<dots> = rcvOctets dispatch always (i + length (numtxt t) + length c + 2) cs (Some (head_frame t c)) s"
  proof -
    have "(c @ replicate (33 - length c) 0)[length c := 0] = c @ replicate (33 - length c) 0"
      using c(2) by (cases "33 - length c") (simp_all add: list_update_append)
    then show ?thesis using c(2)
      by (simp add: rcvOctet_def rcvCmd_def isalpha_def head_frame_def)
  qed
  finally show ?thesis by simp
qed

lemma trailer_dispatch:
  assumes "t = 0 \<or> sessType s = eRelpSess_Client \<or> t = sessTxnr s"
  shows "rcvTrailer dispatch (f\<lparr>txnr := t\<rparr>) 10 s =
    map_option (\<lambda>(r, s'). (r, None, s')) (dispatch (f\<lparr>txnr := t, rcvState := FINISHED\<rparr>)
      (if t \<noteq> 0 \<and> sessType s = eRelpSess_Server then s\<lparr>sessTxnr := relpEngineNextTXNR (sessTxnr s)\<rparr> else s))"
  using assms by (cases "sessType s") (auto simp: rcvTrailer_def Let_def map_option_case split: option.split)

lemma rcv_len:
  assumes d: "length d < 1000000000"
  shows "rcvOctets dispatch always i (numtxt (int (length d)) @ cs) (Some (head_frame t c)) s =
    rcvOctets dispatch always (i + length (numtxt (int (length d)))) cs
      (Some ((head_frame t c)\<lparr>iRcv := length (numtxt (int (length d))), lenData := length d\<rparr>)) s"
proof -
  have "length (numtxt (int (length d))) \<le> 9" using numtxt_nat_length [of "length d" 9] d by simp
  then show ?thesis
    using rcv_datalen [of "head_frame t c" "numtxt (int (length d))" dispatch always i cs s] numtxt_digits [of "int (length d)"]
    by (simp add: head_frame_def del: rcvOctets.simps)
qed

lemma rcv_body:
  assumes l: "store_limit s (length d) = Some m" and d: "d \<noteq> []" "length d < 1000000000"
  shows "rcvOctets dispatch always i (numtxt (int (length d)) @ [32] @ d @ cs) (Some (head_frame t c)) s =
    rcvOctets dispatch always (i + length (numtxt (int (length d))) + 1 + length d) cs
      (Some ((head_frame t c)\<lparr>rcvState := IN_DATA, iRcv := length d, lenData := length d, pData := Some (map Some (take m d))\<rparr>))
      (s\<lparr>maxCharsStore := m\<rparr>)"
proof -
  let ?n = "length (numtxt (int (length d)))"
  let ?f = "(head_frame t c)\<lparr>iRcv := ?n, lenData := length d\<rparr>"
  let ?g = "?f\<lparr>rcvState := IN_DATA, iRcv := 0, pData := Some (replicate m None)\<rparr>" and ?s = "s\<lparr>maxCharsStore := m\<rparr>"
  have "rcvOversize ?f s = Some (Inr ?s)" using oversize_limit [of s ?f] l by simp
  then have "rcvDatalen True ?f 32 s = Some (Inr (?g, ?s))" by (simp add: rcvDatalen_def isdigit_def)
  moreover have "rcvState ?f = IN_DATALEN" "lenData ?f \<noteq> 0" using d by (simp_all add: head_frame_def)
  ultimately have "rcvOctet dispatch True ?f 32 s = Some (RELP_RET_OK, Some ?g, ?s)"
    by (simp add: rcvOctet_def isdigit_def)
  then have "rcvOctets dispatch always (i + ?n) ([32] @ d @ cs) (Some ?f) s =
      rcvOctets dispatch always (i + ?n + 1) (d @ cs) (Some ?g) ?s" by simp
  also have "\<dots> = rcvOctets dispatch always (i + ?n + 1 + length d) cs (Some (?g\<lparr>iRcv := iRcv ?g + length d,
      pData := Some (take (iRcv ?g) (replicate m None) @ map Some (take (length (replicate m (None :: byte option)) - iRcv ?g) d) @
         drop (iRcv ?g + length d) (replicate m None))\<rparr>)) ?s"
    by (rule rcv_data) simp_all
  finally show ?thesis using store_limit_le [OF l] d(2)
    by (simp add: rcv_len del: rcvOctets.simps) (simp add: head_frame_def)
qed

lemma frame_delivered:
  assumes t: "0 \<le> t" "t < 1000000000" "t = 0 \<or> sessType s = eRelpSess_Client \<or> t = sessTxnr s"
    and c: "\<forall>x \<in> set c. isalpha x" "length c \<le> 32"
    and d: "length d < 1000000000" "store_limit s (length d) = Some m"
  shows "rcvOctets dispatch always i (frame_bytes t c d @ cs) None s =
    do { (r, s') \<leftarrow> dispatch (wire_frame t c d m) (rcv_sess t d m s);
         if r \<noteq> RELP_RET_OK then Some (r, None, s')
         else rcvOctets dispatch always (i + length (frame_bytes t c d)) cs None s' }"
proof (cases "d = []")
  case True
  let ?f = "(head_frame t c)\<lparr>iRcv := length (numtxt 0), lenData := 0\<rparr>"
  have m: "m = 0" using d True by simp
  have o1: "rcvOctet dispatch True ?f 10 s = map_option (\<lambda>(r, s'). (r, None, s'))
      (dispatch (wire_frame t c d m) (rcv_sess t d m s))"
    using trailer_dispatch [OF t(3), of dispatch "?f\<lparr>rcvState := IN_TRAILER, iRcv := 0\<rparr>"] True m
    by (simp add: rcvOctet_def isdigit_def wire_frame_def rcv_sess_def head_frame_def)
  have "rcvOctets dispatch always i (frame_bytes t c d @ cs) None s =
     rcvOctets dispatch always (i + length (numtxt t) + length c + 2 + length (numtxt 0)) (10 # cs) (Some ?f) s"
    using rcv_head [OF t(1,2) c, of dispatch i "numtxt 0 @ [10] @ cs" s] rcv_len [of "[]" dispatch _ "[10] @ cs" t c s] True
    by (simp add: frame_bytes_def del: rcvOctets.simps)
  then show ?thesis using o1 True
    by (cases "dispatch (wire_frame t c d m) (rcv_sess t d m s)") (auto simp: frame_bytes_def add_ac)
next
  case False
  let ?f = "(head_frame t c)\<lparr>rcvState := IN_DATA, iRcv := length d, lenData := length d, pData := Some (map Some (take m d))\<rparr>"
  let ?s = "s\<lparr>maxCharsStore := m\<rparr>" and ?l = "numtxt (int (length d))"
  have s: "t = 0 \<or> sessType ?s = eRelpSess_Client \<or> t = sessTxnr ?s" using t(3) by simp
  have o1: "rcvOctet dispatch True ?f 10 ?s = map_option (\<lambda>(r, s'). (r, None, s'))
      (dispatch (wire_frame t c d m) (rcv_sess t d m s))"
    using trailer_dispatch [OF s, of dispatch "?f\<lparr>lenData := m, rcvState := IN_TRAILER, iRcv := 0\<rparr>"] False store_limit_le [OF d(2)]
    by (auto simp: rcvOctet_def wire_frame_def rcv_sess_def head_frame_def not_less)
  have "rcvOctets dispatch always i (frame_bytes t c d @ cs) None s =
     rcvOctets dispatch always (i + length (numtxt t) + length c + 2 + length ?l + 1 + length d) (10 # cs) (Some ?f) ?s"
    using rcv_head [OF t(1,2) c, of dispatch i "?l @ [32] @ d @ [10] @ cs" s]
      rcv_body [OF d(2) False d(1), of dispatch "i + length (numtxt t) + length c + 2" "[10] @ cs" t c] False
    by (simp add: frame_bytes_def del: rcvOctets.simps)
  then show ?thesis using o1 False
    by (cases "dispatch (wire_frame t c d m) (rcv_sess t d m s)") (auto simp: frame_bytes_def add_ac)
qed

section \<open>The properties of the framing\<close>

text \<open>
  C21: A frame survives the wire: for a transaction number of at most nine digits, a command of
  up to 32 letters and data of less than a thousand million bytes, the sender's buffer is built
  inside its allocation, and the receiver, fed with the bytes of that buffer and whatever
  follows, dispatches exactly this number, command and data (cut to the configured length in
  truncating mode) and goes on behind the frame.
\<close>

theorem frame_round_trip:
  assumes "0 \<le> t" and "t < 1000000000" and "t = 0 \<or> sessType s = eRelpSess_Client \<or> t = sessTxnr s"
    and "\<forall>x \<in> set c. isalpha x" and "length c \<le> 32"
    and "length d < 1000000000" and "store_limit s (length d) = Some m"
  shows "\<exists>sb bs. relpFrameBuildSendbuf True True t c (length c) d (length d) hdlr = Some (RELP_RET_OK, Some sb) \<and>
    sb_bytes sb = map Some bs \<and>
    rcvOctets dispatch always i (bs @ cs) None s =
      do { (r, s') \<leftarrow> dispatch (wire_frame t c d m) (rcv_sess t d m s);
           if r \<noteq> RELP_RET_OK then Some (r, None, s')
           else rcvOctets dispatch always (i + length bs) cs None s' }"
proof -
  have "length (numtxt t) \<le> 9" using numtxt_nat_length [of "nat t" 9] assms(1,2) by simp
  from build_built [OF this, of c d hdlr] assms(5,6)
  obtain sb where sb: "relpFrameBuildSendbuf True True t c (length c) d (length d) hdlr = Some (RELP_RET_OK, Some sb)"
    "built sb t c d hdlr" by auto
  show ?thesis
    by (rule exI [of _ sb], rule exI [of _ "frame_bytes t c d"])
      (use sb built_bytes [OF sb(2)] frame_delivered [OF assms, of dispatch i cs] in simp)
qed

text \<open>
  C22: Giving a built frame another transaction number is the same as building it anew: when
  an unacknowledged frame is sent again on a new connection, the number is patched into the room
  kept before it, and the bytes to be sent are those of the frame built with the new number,
  for numbers with fewer or more digits than before.
\<close>

theorem rewrite_is_rebuild:
  assumes "length (numtxt t) \<le> 9" and "length (numtxt t') \<le> 9" and "length c < 4294967296" and "length d < 1000000000"
  shows "\<exists>sb sb' sb''. relpFrameBuildSendbuf True True t c (length c) d (length d) hdlr = Some (RELP_RET_OK, Some sb) \<and>
    relpFrameRewriteTxnr sb t' = Some (RELP_RET_OK, sb') \<and>
    relpFrameBuildSendbuf True True t' c (length c) d (length d) hdlr = Some (RELP_RET_OK, Some sb'') \<and>
    sb_bytes sb' = sb_bytes sb'' \<and> sbLenData sb' = sbLenData sb'' \<and> sbTxnr sb' = sbTxnr sb''"
proof -
  obtain sb where sb: "relpFrameBuildSendbuf True True t c (length c) d (length d) hdlr = Some (RELP_RET_OK, Some sb)"
    "built sb t c d hdlr" using build_built [OF assms(1,3,4)] by blast
  obtain sb' where sb': "relpFrameRewriteTxnr sb t' = Some (RELP_RET_OK, sb')" "built sb' t' c d hdlr"
    using rewrite_built [OF sb(2) assms(2)] by blast
  obtain sb'' where sb'': "relpFrameBuildSendbuf True True t' c (length c) d (length d) hdlr = Some (RELP_RET_OK, Some sb'')"
    "built sb'' t' c d hdlr" using build_built [OF assms(2,3,4)] by blast
  show ?thesis using sb(1) sb'(1) sb''(1) built_bytes [OF sb'(2)] built_bytes [OF sb''(2)] sb'(2) sb''(2)
    by (auto simp: built_def)
qed

section \<open>Examples\<close>

definition rcv_ex :: "relpRcvSess" where
  "rcv_ex = \<lparr>sessType = eRelpSess_Server, sessTxnr = 7, maxDataSize = 4, maxCharsStore = 0, pSrv = Some \<lparr>oversizeMode = 1\<rparr>\<rparr>"

theorem frame_round_trip_witness:
  "\<exists>sb bs. relpFrameBuildSendbuf True True 7 [114, 115, 112] (length [114 :: byte, 115, 112]) [50, 48, 48, 32, 79, 75]
      (length [50 :: byte, 48, 48, 32, 79, 75]) NoHdlr = Some (RELP_RET_OK, Some sb) \<and>
    sb_bytes sb = map Some bs \<and>
    rcvOctets (\<lambda>f s. Some (RELP_RET_OK, s)) always 0 (bs @ [49]) None rcv_ex =
      do { (r, s') \<leftarrow> Some (RELP_RET_OK, rcv_sess 7 [50, 48, 48, 32, 79, 75] 4 rcv_ex);
           if r \<noteq> RELP_RET_OK then Some (r, None, s')
           else rcvOctets (\<lambda>f s. Some (RELP_RET_OK, s)) always (0 + length bs) [49] None s' }"
  by (rule frame_round_trip) (simp_all add: rcv_ex_def isalpha_def store_limit_def)

theorem rewrite_is_rebuild_witness:
  "\<exists>sb sb' sb''. relpFrameBuildSendbuf True True 999 [99] (length [99 :: byte]) [] (length ([] :: byte list)) NoHdlr = Some (RELP_RET_OK, Some sb) \<and>
    relpFrameRewriteTxnr sb 2 = Some (RELP_RET_OK, sb') \<and>
    relpFrameBuildSendbuf True True 2 [99] (length [99 :: byte]) [] (length ([] :: byte list)) NoHdlr = Some (RELP_RET_OK, Some sb'') \<and>
    sb_bytes sb' = sb_bytes sb'' \<and> sbLenData sb' = sbLenData sb'' \<and> sbTxnr sb' = sbTxnr sb''"
  by (rule rewrite_is_rebuild) (use numtxt_nat_length [of 999 9] numtxt_nat_length [of 2 9] in simp_all)

end
