(* ===== verification/RelpOffers.thy ===== *)
theory RelpOffers
  imports RelpFrame
begin

text \<open>
  The offers exchanged when a RELP session is opened (librelp/src/offers.c): lists of names with
  values, their text and the parser for it. A character array is a list of all its cells; a C
  string handed over is the list of its bytes before the terminator. \<open>ok\<close> arguments are the
  results of \<open>calloc\<close>, \<open>malloc\<close> and \<open>realloc\<close>.
\<close>

section \<open>Character arrays\<close>

text \<open>\<open>strncpy\<close> into an array of \<open>n\<close> cells, and the string an array holds, if it is terminated.\<close>

definition strncpy :: "nat \<Rightarrow> byte list \<Rightarrow> byte list" where
  "strncpy n src = take n src @ replicate (n - length src) 0"

definition cstr :: "byte list \<Rightarrow> byte list option" where
  "cstr a = (if 0 \<in> set a then Some (takeWhile (\<lambda>b. b \<noteq> 0) a) else None)"

lemma cstr_strncpy:
  assumes "0 \<notin> set src" "length src < n"
  shows "cstr (strncpy n src) = Some src"
proof -
  obtain k where "n - length src = Suc k" using assms(2) by (metis Suc_diff_Suc)
  then show ?thesis using assms by (auto simp: cstr_def strncpy_def takeWhile_append)
qed

section \<open>The lists\<close>

record relpOfferValue =
  szVal :: "byte list"
  intVal :: int

record relpOffer =
  szName :: "byte list"
  pValueRoot :: "relpOfferValue list"

text \<open>The unsigned number a value is, or -1.\<close>

fun offerInt :: "int \<Rightarrow> byte list \<Rightarrow> int option" where
  "offerInt val [] = Some val"
| "offerInt val (c # cs) =
     (if isdigit c
      then do { a \<leftarrow> c_int (val * 10); b \<leftarrow> c_int (a + uint c); v \<leftarrow> c_int (b - 48); offerInt v cs }
      else Some (-1))"

definition relpOfferValueAdd :: "bool \<Rightarrow> byte list option \<Rightarrow> int \<Rightarrow> relpOffer \<Rightarrow> (relpRetVal \<times> relpOffer) option" where
  "relpOfferValueAdd ok pszVal val offer =
     (if \<not> ok then Some (RELP_RET_OUT_OF_MEMORY, offer)
      else case pszVal of
          None \<Rightarrow> Some (RELP_RET_OK, offer\<lparr>pValueRoot := \<lparr>szVal = strncpy 256 (numtxt val), intVal = val\<rparr> # pValueRoot offer\<rparr>)
        | Some s \<Rightarrow> do {
            v \<leftarrow> offerInt 0 s;
            Some (RELP_RET_OK, offer\<lparr>pValueRoot := \<lparr>szVal = strncpy 256 s, intVal = v\<rparr> # pValueRoot offer\<rparr>)
          })"

text \<open>A new offer becomes the head of the list.\<close>

definition relpOfferAdd :: "bool \<Rightarrow> byte list \<Rightarrow> relpOffer list \<Rightarrow> relpRetVal \<times> relpOffer list" where
  "relpOfferAdd ok pszName offers =
     (if ok then (RELP_RET_OK, \<lparr>szName = strncpy 33 pszName, pValueRoot = []\<rparr> # offers)
      else (RELP_RET_OUT_OF_MEMORY, offers))"

section \<open>The text of the offers\<close>

text \<open>\<open>strcpy\<close> into the buffer, terminator included, and one character behind it.\<close>

definition strcpyAt :: "byte option list \<Rightarrow> nat \<Rightarrow> byte list \<Rightarrow> byte option list option" where
  "strcpyAt buf i s = memcpy buf i (map Some (s @ [0])) (length s + 1)"

text \<open>The guard before a copy, with its \<open>size_t\<close> difference; the buffer grows by 4096.\<close>

definition growOffers :: "bool \<Rightarrow> byte option list \<Rightarrow> nat \<Rightarrow> byte list \<Rightarrow> byte option list option" where
  "growOffers ok buf iStr s =
     (if size_t (int (length buf) - int iStr - 3) < length s
      then if ok then Some (buf @ replicate 4096 None) else None
      else Some buf)"

fun valuesToString :: "(nat \<Rightarrow> bool) \<Rightarrow> nat \<Rightarrow> relpOfferValue list \<Rightarrow> byte option list \<times> nat \<Rightarrow>
    (relpRetVal \<times> byte option list \<times> nat) option" where
  "valuesToString ok n [] (buf, iStr) = Some (RELP_RET_OK, buf, iStr)"
| "valuesToString ok n (v # vs) (buf, iStr) =
     do {
       s \<leftarrow> cstr (szVal v);
       (case growOffers (ok n) buf iStr s of
          None \<Rightarrow> Some (RELP_RET_OUT_OF_MEMORY, buf, iStr)
        | Some buf1 \<Rightarrow> do {
            buf2 \<leftarrow> strcpyAt buf1 iStr s;
            let i = iStr + length s;
            (buf3, i) \<leftarrow> (if vs \<noteq> [] then map_option (\<lambda>b. (b, i + 1)) (c_set buf2 i (Some 44)) else Some (buf2, i));
            valuesToString ok (n + 1) vs (buf3, i)
          })
     }"

fun offersToString :: "(nat \<Rightarrow> bool) \<Rightarrow> nat \<Rightarrow> relpOffer list \<Rightarrow> byte option list \<times> nat \<Rightarrow>
    (relpRetVal \<times> byte option list \<times> nat) option" where
  "offersToString ok n [] (buf, iStr) = Some (RELP_RET_OK, buf, iStr)"
| "offersToString ok n (f # fs) (buf, iStr) =
     do {
       s \<leftarrow> cstr (szName f);
       (case growOffers (ok n) buf iStr s of
          None \<Rightarrow> Some (RELP_RET_OUT_OF_MEMORY, buf, iStr)
        | Some buf1 \<Rightarrow> do {
            buf2 \<leftarrow> strcpyAt buf1 iStr s;
            buf3 \<leftarrow> c_set buf2 (iStr + length s) (Some 61);
            (r, buf4, i) \<leftarrow> valuesToString ok (n + 1) (pValueRoot f) (buf3, iStr + length s + 1);
            if r \<noteq> RELP_RET_OK then Some (r, buf4, i)
            else do {
              (buf5, i) \<leftarrow> (if fs \<noteq> [] then map_option (\<lambda>b. (b, i + 1)) (c_set buf4 i (Some 10)) else Some (buf4, i));
              offersToString ok (n + 1 + length (pValueRoot f)) fs (buf5, i)
            }
          })
     }"

text \<open>The result: the code, and the bytes before the returned length.\<close>

definition relpOffersToString :: "(nat \<Rightarrow> bool) \<Rightarrow> relpOffer list \<Rightarrow> byte list option \<Rightarrow>
    (relpRetVal \<times> byte option list) option" where
  "relpOffersToString ok offers pszHdr =
     (let lenHdr = (case pszHdr of None \<Rightarrow> 0 | Some h \<Rightarrow> length h);
          iAlloc = (if lenHdr > 4096 then 4096 + lenHdr else 4096);
          hdr = (case pszHdr of None \<Rightarrow> [] | Some h \<Rightarrow> h)
      in if \<not> ok 0 then Some (RELP_RET_OUT_OF_MEMORY, [])
         else do {
           buf \<leftarrow> memcpy (replicate iAlloc None) 0 (map Some hdr) lenHdr;
           (r, buf', i) \<leftarrow> offersToString ok 1 offers (buf, lenHdr);
           if r \<noteq> RELP_RET_OK then Some (r, []) else Some (RELP_RET_OK, take i buf')
         })"

section \<open>Reading offers from a frame\<close>

text \<open>
  The next character of the frame: the return code, the character, which stays as it was at the
  end of the data, and the frame.
\<close>

definition nextC :: "relpFrame \<Rightarrow> byte \<Rightarrow> (relpRetVal \<times> byte \<times> relpFrame) option" where
  "nextC f c = map_option (\<lambda>(r, c', f'). (r, case c' of None \<Rightarrow> c | Some x \<Rightarrow> x, f')) (relpFrameGetNextC f)"

function nameLoop :: "byte list \<Rightarrow> relpRetVal \<Rightarrow> byte \<Rightarrow> relpFrame \<Rightarrow>
    (byte list \<times> relpRetVal \<times> byte \<times> relpFrame) option" where
  "nameLoop nam r c f =
     (if length nam < 32 \<and> c \<noteq> 61 \<and> r = RELP_RET_OK
      then case nextC f c of None \<Rightarrow> None | Some (r', c', f') \<Rightarrow> nameLoop (nam @ [c]) r' c' f'
      else Some (nam, r, c, f))"
  by pat_completeness auto
termination by (relation "measure (\<lambda>(nam, r, c, f). 32 - length nam)") auto

function valLoop :: "byte list \<Rightarrow> relpRetVal \<Rightarrow> byte \<Rightarrow> relpFrame \<Rightarrow>
    (byte list \<times> relpRetVal \<times> byte \<times> relpFrame) option" where
  "valLoop val r c f =
     (if length val < 255 \<and> r = RELP_RET_OK \<and> c \<noteq> 44 \<and> c \<noteq> 10
      then case nextC f c of None \<Rightarrow> None | Some (r', c', f') \<Rightarrow> valLoop (val @ [c]) r' c' f'
      else Some (val, r, c, f))"
  by pat_completeness auto
termination by (relation "measure (\<lambda>(val, r, c, f). 255 - length val)") auto

declare nameLoop.simps [simp del] valLoop.simps [simp del]

text \<open>
  The values of one offer; \<open>Inl\<close> is a failed allocation. \<open>mem\<close> is the allocator, \<open>n\<close> the number of
  its calls so far. The loops end with the data; they are written as partial functions.
\<close>

partial_function (option) valuesLoop :: "(nat \<Rightarrow> bool) \<Rightarrow> nat \<Rightarrow> relpOffer \<Rightarrow> relpRetVal \<Rightarrow> byte \<Rightarrow> relpFrame \<Rightarrow>
    (relpRetVal \<times> relpFrame + nat \<times> relpOffer \<times> relpRetVal \<times> byte \<times> relpFrame) option" where
  "valuesLoop mem n offer r c f =
     (if r = RELP_RET_OK \<and> c \<noteq> 10
      then do {
        (r1, c1, f1) \<leftarrow> nextC f c;
        (val, r2, c2, f2) \<leftarrow> valLoop [] r1 c1 f1;
        (if val \<noteq> []
         then do {
           (e, offer') \<leftarrow> relpOfferValueAdd (mem n) (Some (takeWhile (\<lambda>b. b \<noteq> 0) val)) 0 offer;
           if e \<noteq> RELP_RET_OK then Some (Inl (e, f2)) else valuesLoop mem (n + 1) offer' r2 c2 f2
         }
         else valuesLoop mem n offer r2 c2 f2)
      }
      else Some (Inr (n, offer, r, c, f)))"

partial_function (option) offersLoop :: "(nat \<Rightarrow> bool) \<Rightarrow> nat \<Rightarrow> relpOffer list \<Rightarrow> relpRetVal \<Rightarrow> byte \<Rightarrow> relpFrame \<Rightarrow>
    (relpRetVal \<times> relpFrame + relpOffer list \<times> relpRetVal \<times> relpFrame) option" where
  "offersLoop mem n offers r c f =
     (if r = RELP_RET_OK
      then do {
        (nam, r1, c1, f1) \<leftarrow> nameLoop [] r c f;
        let (e, offers1) = relpOfferAdd (mem n) (takeWhile (\<lambda>b. b \<noteq> 0) nam) offers;
        (if e \<noteq> RELP_RET_OK then Some (Inl (e, f1))
         else do {
           x \<leftarrow> valuesLoop mem (n + 1) (hd offers1) r1 c1 f1;
           (case x of
              Inl e \<Rightarrow> Some (Inl e)
            | Inr (n2, offer, r2, c2, f2) \<Rightarrow> do {
                (r3, c3, f3) \<leftarrow> (if r2 = RELP_RET_OK \<and> c2 = 10 then nextC f2 c2 else Some (r2, c2, f2));
                offersLoop mem n2 (offer # tl offers1) r3 c3 f3
              })
         })
      }
      else Some (Inr (offers, r, f)))"

definition relpOffersConstructFromFrame :: "(nat \<Rightarrow> bool) \<Rightarrow> relpFrame \<Rightarrow>
    (relpRetVal \<times> relpOffer list \<times> relpFrame) option" where
  "relpOffersConstructFromFrame mem f =
     (if \<not> mem 0 then Some (RELP_RET_OUT_OF_MEMORY, [], f)
      else do {
        (r, c, f1) \<leftarrow> nextC f 0;
        x \<leftarrow> offersLoop mem 1 [] r c f1;
        (case x of
           Inl (e, f2) \<Rightarrow> Some (e, [], f2)
         | Inr (offers, r', f2) \<Rightarrow>
             if r' \<noteq> RELP_RET_END_OF_DATA then Some (r', [], f2) else Some (RELP_RET_OK, offers, f2))
      })"

section \<open>The text of the offers, printed\<close>

fun vtext :: "byte list list \<Rightarrow> byte list" where
  "vtext [] = []"
| "vtext [v] = v"
| "vtext (v # w # vs) = v @ 44 # vtext (w # vs)"

fun otext :: "(byte list \<times> byte list list) list \<Rightarrow> byte list" where
  "otext [] = []"
| "otext [(nam, vs)] = nam @ 61 # vtext vs"
| "otext ((nam, vs) # f # fs) = nam @ 61 # vtext vs @ 10 # otext (f # fs)"

definition value_is :: "relpOfferValue \<Rightarrow> byte list \<Rightarrow> bool" where
  "value_is v s \<longleftrightarrow> cstr (szVal v) = Some s"

definition offer_is :: "relpOffer \<Rightarrow> byte list \<times> byte list list \<Rightarrow> bool" where
  "offer_is f x \<longleftrightarrow> cstr (szName f) = Some (fst x) \<and> list_all2 value_is (pValueRoot f) (snd x)"

text \<open>A buffer of \<open>n\<close> cells that starts with the given bytes.\<close>

definition holds :: "nat \<Rightarrow> byte list \<Rightarrow> byte option list \<Rightarrow> bool" where
  "holds n pre buf \<longleftrightarrow> length buf = n \<and> take (length pre) buf = map Some pre"

lemma holds_strcpy:
  assumes "holds n pre buf" "length pre + length s < n"
  obtains b where "strcpyAt buf (length pre) s = Some b" "holds n (pre @ s) b"
  using assms by (auto simp: strcpyAt_def memcpy_def holds_def)

lemma holds_set:
  assumes "holds n pre buf" "length pre < n"
  obtains b where "c_set buf (length pre) (Some c) = Some b" "holds n (pre @ [c]) b"
  using assms by (auto simp: holds_def take_Suc_conv_app_nth)

lemma grow_fits:
  "holds n pre buf \<Longrightarrow> length pre + length s + 3 \<le> n \<Longrightarrow> n < 2 ^ 63 \<Longrightarrow> growOffers ok buf (length pre) s = Some buf"
  by (simp add: growOffers_def holds_def)

lemma valuesToString_ok:
  assumes "list_all2 value_is vs ss" "holds n pre buf" "length pre + length (vtext ss) + 3 \<le> n" "n < 2 ^ 63"
  shows "\<exists>b. valuesToString ok k vs (buf, length pre) = Some (RELP_RET_OK, b, length (pre @ vtext ss)) \<and> holds n (pre @ vtext ss) b"
  using assms
proof (induction ss arbitrary: vs pre buf k rule: vtext.induct)
  case (2 s)
  then obtain v where v: "vs = [v]" "cstr (szVal v) = Some s" by (auto simp: list_all2_Cons2 value_is_def)
  obtain b where "strcpyAt buf (length pre) s = Some b" "holds n (pre @ s) b"
    by (rule holds_strcpy [OF "2.prems"(2), of s]) (use "2.prems"(3) in simp, blast)
  then show ?case using v "2.prems" by (simp add: grow_fits)
next
  case (3 s w ss)
  then obtain v vs' where v': "vs = v # vs'" "value_is v s" "list_all2 value_is vs' (w # ss)" by (auto simp: list_all2_Cons2)
  then have v: "vs = v # vs'" "cstr (szVal v) = Some s" "list_all2 value_is vs' (w # ss)" "vs' \<noteq> []"
    by (auto simp: value_is_def)
  obtain b where b: "strcpyAt buf (length pre) s = Some b" "holds n (pre @ s) b"
    by (rule holds_strcpy [OF "3.prems"(2), of s]) (use "3.prems"(3) in simp, blast)
  obtain b' where b': "c_set b (length (pre @ s)) (Some 44) = Some b'" "holds n ((pre @ s) @ [44]) b'"
    by (rule holds_set [OF b(2)]) (use "3.prems"(3) in simp, blast)
  have "\<exists>x. valuesToString ok (k + 1) vs' (b', length ((pre @ s) @ [44])) =
      Some (RELP_RET_OK, x, length (((pre @ s) @ [44]) @ vtext (w # ss))) \<and> holds n (((pre @ s) @ [44]) @ vtext (w # ss)) x"
    by (rule "3.IH") (use v(3) b'(2) "3.prems" in simp_all)
  then show ?case using v b(1) b'(1) "3.prems" by (simp add: grow_fits)
qed simp

lemma offersToString_ok:
  assumes "list_all2 offer_is fs os" "holds n pre buf" "length pre + length (otext os) + 3 \<le> n" "n < 2 ^ 63"
  shows "\<exists>b. offersToString ok k fs (buf, length pre) = Some (RELP_RET_OK, b, length (pre @ otext os)) \<and> holds n (pre @ otext os) b"
  using assms
proof (induction arbitrary: pre buf k)
  case (Cons f fs' x os)
  obtain nam ss where x: "x = (nam, ss)" by fastforce
  then have f: "cstr (szName f) = Some nam" "list_all2 value_is (pValueRoot f) ss"
    using Cons.hyps(1) by (auto simp: offer_is_def)
  have len: "length pre + length nam + 1 + length (vtext ss) + 3 \<le> n"
    "os \<noteq> [] \<Longrightarrow> length pre + length nam + 1 + length (vtext ss) + 1 + length (otext os) + 3 \<le> n"
    using Cons.prems(2) x by (cases os; simp)+
  obtain b1 where b1: "strcpyAt buf (length pre) nam = Some b1" "holds n (pre @ nam) b1"
    by (rule holds_strcpy [OF Cons.prems(1), of nam]) (use len in simp, blast)
  obtain b2 where b2: "c_set b1 (length (pre @ nam)) (Some 61) = Some b2" "holds n ((pre @ nam) @ [61]) b2"
    by (rule holds_set [OF b1(2)]) (use len in simp, blast)
  from valuesToString_ok [OF f(2) b2(2), of ok "k + 1"] len Cons.prems(3) obtain b3 where b3:
    "valuesToString ok (k + 1) (pValueRoot f) (b2, length ((pre @ nam) @ [61])) =
       Some (RELP_RET_OK, b3, length (((pre @ nam) @ [61]) @ vtext ss))"
    "holds n (((pre @ nam) @ [61]) @ vtext ss) b3" by fastforce
  note g = grow_fits [OF Cons.prems(1), of nam "ok k"]
  show ?case
  proof (cases "os = []")
    case True
    then show ?thesis using Cons.hyps f x b1(1) b2(1) b3 g len Cons.prems(3) by simp
  next
    case False
    then obtain y ys where os: "os = y # ys" by (cases os) auto
    obtain b4 where b4: "c_set b3 (length (((pre @ nam) @ [61]) @ vtext ss)) (Some 10) = Some b4"
      "holds n ((((pre @ nam) @ [61]) @ vtext ss) @ [10]) b4"
      by (rule holds_set [OF b3(2)]) (use len False in simp, blast)
    have "\<exists>b. offersToString ok (k + 1 + length (pValueRoot f)) fs' (b4, length ((((pre @ nam) @ [61]) @ vtext ss) @ [10])) =
       Some (RELP_RET_OK, b, length (((((pre @ nam) @ [61]) @ vtext ss) @ [10]) @ otext os)) \<and>
       holds n (((((pre @ nam) @ [61]) @ vtext ss) @ [10]) @ otext os) b"
      by (rule Cons.IH) (use b4(2) len False Cons.prems(3) in simp_all)
    moreover have "fs' \<noteq> []" using Cons.hyps(2) False by auto
    ultimately show ?thesis using f x b1(1) b2(1) b3(1) b4(1) g len Cons.prems(3) os by auto
  qed
qed simp

section \<open>The text of the offers, parsed\<close>

text \<open>What is still to be read of a frame, and the same with one character read ahead.\<close>

definition rest_is :: "relpFrame \<Rightarrow> byte list \<Rightarrow> bool" where
  "rest_is f xs \<longleftrightarrow> lenData f = idxData f + length xs \<and>
     (xs \<noteq> [] \<longrightarrow> (\<exists>d. pData f = Some d \<and> (\<forall>k < length xs. rd d (idxData f + k) = Some (xs ! k))))"

definition cur :: "relpRetVal \<Rightarrow> byte \<Rightarrow> relpFrame \<Rightarrow> byte list \<Rightarrow> bool" where
  "cur r c f ys \<longleftrightarrow> (case ys of [] \<Rightarrow> r = RELP_RET_END_OF_DATA \<and> rest_is f [] | y # xs \<Rightarrow> r = RELP_RET_OK \<and> c = y \<and> rest_is f xs)"

lemma cur_Cons: "cur r c f (y # xs) \<longleftrightarrow> r = RELP_RET_OK \<and> c = y \<and> rest_is f xs"
  by (simp add: cur_def)

lemma cur_Nil: "cur r c f [] \<longleftrightarrow> r = RELP_RET_END_OF_DATA \<and> rest_is f []"
  by (simp add: cur_def)

lemma nextC_rest:
  assumes "rest_is f ys"
  obtains r c' f' where "nextC f c = Some (r, c', f')" "cur r c' f' ys"
proof (cases ys)
  case Nil
  then show ?thesis using assms that by (simp add: nextC_def relpFrameGetNextC_def rest_is_def cur_Nil)
next
  case (Cons y xs)
  then obtain d where d: "pData f = Some d" "rd d (idxData f) = Some y"
    "\<forall>k < length xs. rd d (Suc (idxData f) + k) = Some (xs ! k)" "lenData f = idxData f + Suc (length xs)"
    using assms by (auto simp: rest_is_def All_less_Suc2)
  then have "nextC f c = Some (RELP_RET_OK, y, f\<lparr>idxData := Suc (idxData f)\<rparr>)"
    by (simp add: nextC_def relpFrameGetNextC_def)
  moreover have "rest_is (f\<lparr>idxData := Suc (idxData f)\<rparr>) xs" using d by (auto simp: rest_is_def)
  ultimately show ?thesis using that Cons by (simp add: cur_Cons)
qed

lemma nameLoop_ok:
  assumes "61 \<notin> set nm" "length acc + length nm \<le> 32" "cur r c f (nm @ 61 # rest)"
  shows "\<exists>f'. nameLoop acc r c f = Some (acc @ nm, RELP_RET_OK, 61, f') \<and> rest_is f' rest"
  using assms
proof (induction nm arbitrary: acc r c f)
  case Nil
  then show ?case by (simp add: nameLoop.simps [of acc] cur_Cons)
next
  case (Cons x nm)
  then have x: "r = RELP_RET_OK" "c = x" "rest_is f (nm @ 61 # rest)" "x \<noteq> 61" by (auto simp: cur_Cons)
  from x(3) obtain r' c' f' where n: "nextC f c = Some (r', c', f')" "cur r' c' f' (nm @ 61 # rest)" by (rule nextC_rest)
  from Cons.IH [of "acc @ [x]", OF _ _ n(2)] Cons.prems have
    "\<exists>f''. nameLoop (acc @ [x]) r' c' f' = Some ((acc @ [x]) @ nm, RELP_RET_OK, 61, f'') \<and> rest_is f'' rest" by simp
  then show ?case using n x Cons.prems by (subst nameLoop.simps) simp
qed

lemma valLoop_ok:
  assumes "44 \<notin> set v" "10 \<notin> set v" "length acc + length v \<le> 255" "cur r c f (v @ rest)"
    "rest = [] \<or> hd rest = 44 \<or> hd rest = 10"
  shows "\<exists>r' c' f'. valLoop acc r c f = Some (acc @ v, r', c', f') \<and> cur r' c' f' rest"
  using assms
proof (induction v arbitrary: acc r c f)
  case Nil
  then show ?case by (cases rest) (auto simp: valLoop.simps [of acc] cur_Cons cur_Nil)
next
  case (Cons x v)
  then have x: "r = RELP_RET_OK" "c = x" "rest_is f (v @ rest)" "x \<noteq> 44" "x \<noteq> 10" by (auto simp: cur_Cons)
  from x(3) obtain r' c' f' where n: "nextC f c = Some (r', c', f')" "cur r' c' f' (v @ rest)" by (rule nextC_rest)
  from Cons.IH [of "acc @ [x]", OF _ _ _ n(2)] Cons.prems have
    "\<exists>r'' c'' f''. valLoop (acc @ [x]) r' c' f' = Some ((acc @ [x]) @ v, r'', c'', f'') \<and> cur r'' c'' f'' rest" by simp
  then show ?case using n x Cons.prems by (subst valLoop.simps) simp
qed

text \<open>Names and values that a text can carry, and the lists read back.\<close>

definition value_ok :: "byte list \<Rightarrow> bool" where
  "value_ok v \<longleftrightarrow> v \<noteq> [] \<and> length v \<le> 255 \<and> 0 \<notin> set v \<and> 44 \<notin> set v \<and> 10 \<notin> set v \<and> offerInt 0 v \<noteq> None"

definition name_ok :: "byte list \<Rightarrow> bool" where
  "name_ok nm \<longleftrightarrow> length nm \<le> 32 \<and> 0 \<notin> set nm \<and> 61 \<notin> set nm"

definition mkvalue :: "byte list \<Rightarrow> relpOfferValue" where
  "mkvalue v = \<lparr>szVal = strncpy 256 v, intVal = the (offerInt 0 v)\<rparr>"

definition mkoffer :: "byte list \<times> byte list list \<Rightarrow> relpOffer" where
  "mkoffer x = \<lparr>szName = strncpy 33 (fst x), pValueRoot = rev (map mkvalue (snd x))\<rparr>"

lemma takeWhile_no_zero: "0 \<notin> set v \<Longrightarrow> takeWhile (\<lambda>b. b \<noteq> 0) v = v"
  by (induction v) auto

lemma valuesLoop_step:
  assumes v: "value_ok v" and c: "cur r c f (sep # v @ rest)" "sep \<noteq> 10" and rest: "rest = [] \<or> hd rest = 44 \<or> hd rest = 10"
  shows "\<exists>r' c' f'. valuesLoop (\<lambda>_. True) n offer r c f =
    valuesLoop (\<lambda>_. True) (n + 1) (offer\<lparr>pValueRoot := mkvalue v # pValueRoot offer\<rparr>) r' c' f' \<and> cur r' c' f' rest"
proof -
  from c have f: "r = RELP_RET_OK" "c = sep" "rest_is f (v @ rest)" by (simp_all add: cur_Cons)
  from f(3) obtain r1 c1 f1 where n: "nextC f c = Some (r1, c1, f1)" "cur r1 c1 f1 (v @ rest)" by (rule nextC_rest)
  from valLoop_ok [of v "[]", OF _ _ _ n(2) rest] v obtain r2 c2 f2 where
    l: "valLoop [] r1 c1 f1 = Some (v, r2, c2, f2)" "cur r2 c2 f2 rest" by (auto simp: value_ok_def)
  obtain x where "offerInt 0 v = Some x" using v by (auto simp: value_ok_def)
  then have "relpOfferValueAdd True (Some (takeWhile (\<lambda>b. b \<noteq> 0) v)) 0 offer =
      Some (RELP_RET_OK, offer\<lparr>pValueRoot := mkvalue v # pValueRoot offer\<rparr>)"
    using v by (simp add: relpOfferValueAdd_def takeWhile_no_zero value_ok_def mkvalue_def)
  then have "valuesLoop (\<lambda>_. True) n offer r c f =
      valuesLoop (\<lambda>_. True) (n + 1) (offer\<lparr>pValueRoot := mkvalue v # pValueRoot offer\<rparr>) r2 c2 f2"
    using f n l c v by (subst valuesLoop.simps) (simp add: value_ok_def)
  then show ?thesis using l(2) by blast
qed

lemma valuesLoop_end:
  "cur r c f rest \<Longrightarrow> rest = [] \<or> hd rest = 10 \<Longrightarrow> valuesLoop mem n offer r c f = Some (Inr (n, offer, r, c, f))"
  by (cases rest) (auto simp: valuesLoop.simps cur_Nil cur_Cons)

lemma valuesLoop_ok:
  assumes "\<forall>v \<in> set ss. value_ok v" "cur r c f (sep # vtext ss @ rest)" "sep \<noteq> 10" "rest = [] \<or> hd rest = 10"
  shows "\<exists>n' r' c' f'. valuesLoop (\<lambda>_. True) n offer r c f =
    Some (Inr (n', offer\<lparr>pValueRoot := rev (map mkvalue ss) @ pValueRoot offer\<rparr>, r', c', f')) \<and> cur r' c' f' rest"
  using assms
proof (induction ss arbitrary: n offer r c f sep rule: vtext.induct)
  case 1
  from "1.prems" have f: "r = RELP_RET_OK" "c = sep" "rest_is f rest" by (simp_all add: cur_Cons)
  from f(3) obtain r1 c1 f1 where n: "nextC f c = Some (r1, c1, f1)" "cur r1 c1 f1 rest" by (rule nextC_rest)
  from valLoop_ok [of "[]" "[]" r1 c1 f1 rest] n(2) "1.prems"(4) obtain r2 c2 f2 where
    v: "valLoop [] r1 c1 f1 = Some ([], r2, c2, f2)" "cur r2 c2 f2 rest" by auto
  from valuesLoop_end [OF v(2) "1.prems"(4)] show ?case using f n v "1.prems" by (subst valuesLoop.simps) simp
next
  case (2 v)
  from valuesLoop_step [of v r c f sep rest n offer] "2.prems" obtain r' c' f' where
    s: "valuesLoop (\<lambda>_. True) n offer r c f =
      valuesLoop (\<lambda>_. True) (n + 1) (offer\<lparr>pValueRoot := mkvalue v # pValueRoot offer\<rparr>) r' c' f'" "cur r' c' f' rest" by auto
  then show ?case using valuesLoop_end [OF s(2) "2.prems"(4)] by auto
next
  case (3 v w vs)
  from valuesLoop_step [of v r c f sep "44 # vtext (w # vs) @ rest" n offer] "3.prems" obtain r' c' f' where
    s: "valuesLoop (\<lambda>_. True) n offer r c f =
      valuesLoop (\<lambda>_. True) (n + 1) (offer\<lparr>pValueRoot := mkvalue v # pValueRoot offer\<rparr>) r' c' f'"
    "cur r' c' f' (44 # vtext (w # vs) @ rest)" by auto
  from "3.IH" [OF _ s(2) _ "3.prems"(4), of "n + 1" "offer\<lparr>pValueRoot := mkvalue v # pValueRoot offer\<rparr>"] "3.prems"(1)
  show ?case using s(1) by auto
qed

lemma offersLoop_end: "r \<noteq> RELP_RET_OK \<Longrightarrow> offersLoop mem n offers r c f = Some (Inr (offers, r, f))"
  by (simp add: offersLoop.simps)

lemma offersLoop_step:
  assumes nm: "name_ok nm" and v: "\<forall>v \<in> set ss. value_ok v"
    and c: "cur r c f (nm @ 61 # vtext ss @ rest)" "rest = [] \<or> hd rest = 10"
  shows "\<exists>n' r' c' f'. offersLoop (\<lambda>_. True) n offers r c f =
    offersLoop (\<lambda>_. True) n' (mkoffer (nm, ss) # offers) r' c' f' \<and> cur r' c' f' (tl rest)"
proof -
  have r: "r = RELP_RET_OK" using c(1) by (cases nm) (simp_all add: cur_Cons)
  from nameLoop_ok [of nm "[]" r c f "vtext ss @ rest"] nm c(1) obtain f1 where
    n: "nameLoop [] r c f = Some (nm, RELP_RET_OK, 61, f1)" "rest_is f1 (vtext ss @ rest)" by (auto simp: name_ok_def)
  let ?o = "\<lparr>szName = strncpy 33 nm, pValueRoot = []\<rparr>"
  have "cur RELP_RET_OK 61 f1 (61 # vtext ss @ rest)" using n(2) by (simp add: cur_Cons)
  from valuesLoop_ok [OF v this _ c(2), of "n + 1" ?o] obtain n' r' c' f' where
    l: "valuesLoop (\<lambda>_. True) (n + 1) ?o RELP_RET_OK 61 f1 = Some (Inr (n', mkoffer (nm, ss), r', c', f'))" "cur r' c' f' rest"
    by (auto simp: mkoffer_def)
  obtain r3 c3 f3 where e: "(if r' = RELP_RET_OK \<and> c' = 10 then nextC f' c' else Some (r', c', f')) = Some (r3, c3, f3)"
    "cur r3 c3 f3 (tl rest)"
  proof (cases rest)
    case Nil
    then show ?thesis using that [of r' c' f'] l(2) by (simp add: cur_Nil)
  next
    case (Cons y ys)
    then have "r' = RELP_RET_OK" "c' = 10" "rest_is f' ys" using l(2) c(2) by (auto simp: cur_Cons)
    then show ?thesis using that Cons nextC_rest [of f' ys c'] by (metis list.sel(3))
  qed
  have "offersLoop (\<lambda>_. True) n offers r c f = offersLoop (\<lambda>_. True) n' (mkoffer (nm, ss) # offers) r3 c3 f3"
    using r n l(1) e(1) nm by (subst offersLoop.simps) (simp add: relpOfferAdd_def name_ok_def takeWhile_no_zero)
  then show ?thesis using e(2) by blast
qed

lemma offersLoop_ok:
  assumes "\<forall>x \<in> set os. name_ok (fst x) \<and> (\<forall>v \<in> set (snd x). value_ok v)" "cur r c f (otext os)"
  shows "\<exists>f'. offersLoop (\<lambda>_. True) n offers r c f = Some (Inr (rev (map mkoffer os) @ offers, RELP_RET_END_OF_DATA, f'))"
  using assms
proof (induction os arbitrary: n offers r c f rule: otext.induct)
  case 1
  then show ?case by (simp add: offersLoop_end cur_Nil)
next
  case (2 nm ss)
  from offersLoop_step [of nm ss r c f "[]" n offers] 2 obtain n' r' c' f' where
    s: "offersLoop (\<lambda>_. True) n offers r c f = offersLoop (\<lambda>_. True) n' (mkoffer (nm, ss) # offers) r' c' f'" "cur r' c' f' []"
    by auto
  then show ?case by (simp add: offersLoop_end cur_Nil)
next
  case (3 nm ss x os)
  from offersLoop_step [of nm ss r c f "10 # otext (x # os)" n offers] "3.prems" obtain n' r' c' f' where
    s: "offersLoop (\<lambda>_. True) n offers r c f = offersLoop (\<lambda>_. True) n' (mkoffer (nm, ss) # offers) r' c' f'"
    "cur r' c' f' (otext (x # os))" by auto
  from "3.IH" [OF _ s(2), of n' "mkoffer (nm, ss) # offers"] "3.prems"(1) show ?case using s(1) by auto
qed

lemma construct_ok:
  assumes "\<forall>x \<in> set os. name_ok (fst x) \<and> (\<forall>v \<in> set (snd x). value_ok v)" "rest_is f (otext os)"
  shows "\<exists>f'. relpOffersConstructFromFrame (\<lambda>_. True) f = Some (RELP_RET_OK, rev (map mkoffer os), f')"
proof -
  obtain r c f1 where n: "nextC f 0 = Some (r, c, f1)" "cur r c f1 (otext os)" using nextC_rest [OF assms(2)] .
  from offersLoop_ok [OF assms(1) n(2), of 1 "[]"] show ?thesis
    using n(1) by (auto simp: relpOffersConstructFromFrame_def)
qed

lemma toString_ok:
  assumes "list_all2 offer_is fs os" and "length hdr + length (otext os) + 3 \<le> 4096" and "x = Some hdr \<or> x = None \<and> hdr = []"
  shows "relpOffersToString ok fs x \<in> {Some (RELP_RET_OK, map Some (hdr @ otext os)), Some (RELP_RET_OUT_OF_MEMORY, [])} \<and>
    (ok 0 \<longrightarrow> relpOffersToString ok fs x = Some (RELP_RET_OK, map Some (hdr @ otext os)))"
proof -
  let ?b = "map Some hdr @ replicate (4096 - length hdr) None"
  have m: "memcpy (replicate 4096 None) 0 (map Some hdr) (length hdr) = Some ?b" using assms(2) by (auto simp: memcpy_def)
  have "holds 4096 hdr ?b" using assms(2) by (simp add: holds_def)
  from offersToString_ok [OF assms(1) this, of ok 1] assms(2) obtain b where
    "offersToString ok 1 fs (?b, length hdr) = Some (RELP_RET_OK, b, length (hdr @ otext os))"
    "holds 4096 (hdr @ otext os) b" by auto
  then show ?thesis using m assms(2,3) by (cases "ok 0") (auto simp: relpOffersToString_def holds_def)
qed

section \<open>The properties of the offers\<close>

text \<open>
  C24: Offers survive their text: when header, text and three more bytes fit in the first 4096
  bytes of the buffer, the text is the header followed by one line per offer, and reading it
  from a frame gives the same names and values, the list of offers and the list of the values
  of each in reverse order.
\<close>

theorem offers_round_trip:
  assumes "list_all2 offer_is fs os" and "\<forall>x \<in> set os. name_ok (fst x) \<and> (\<forall>v \<in> set (snd x). value_ok v)"
    and "length hdr + length (otext os) + 3 \<le> 4096" and "rest_is f (otext os)"
  shows "relpOffersToString (\<lambda>_. True) fs (Some hdr) = Some (RELP_RET_OK, map Some (hdr @ otext os)) \<and>
    (\<exists>f'. relpOffersConstructFromFrame (\<lambda>_. True) f = Some (RELP_RET_OK, rev (map mkoffer os), f'))"
  using toString_ok [OF assms(1,3), of "Some hdr" "\<lambda>_. True"] construct_ok [OF assms(2,4)] by simp

lemma offerInt_digits: "\<forall>d \<in> set v. isdigit d \<Longrightarrow> 0 \<le> n \<Longrightarrow> offerInt n v = Some x \<Longrightarrow> x = dval n v \<and> x \<le> max n 2147483647"
proof (induction v arbitrary: n)
  case (Cons d v)
  then have d: "isdigit d" "48 \<le> uint d" "uint d \<le> 57" using digit_uint [of d] by auto
  then obtain a b m where m: "c_int (n * 10) = Some a" "c_int (a + uint d) = Some b" "c_int (b - 48) = Some m"
    "offerInt m v = Some x" using Cons.prems by (auto simp: bind_eq_Some_conv)
  then have e: "m = n * 10 + (uint d - 48)" "m \<le> 2147483647" by (auto simp: c_int_def split: if_splits)
  then show ?case using Cons.IH [of m] Cons.prems d m(4) by (simp add: dval_Cons)
qed (simp add: dval_def)

text \<open>
  A number too large for an \<open>int\<close> in the value of an offer is undefined behaviour: the
  sum in \<open>relpOfferValueAdd\<close> overflows while the offers of a received \<open>open\<close> frame are read,
  before anything about the peer is known.
\<close>

theorem offer_number_overflows:
  assumes "name_ok nm" and "v \<noteq> []" and "length v \<le> 255" and "\<forall>d \<in> set v. isdigit d" and "dval 0 v > 2147483647"
    and "rest_is f (nm @ 61 # v)"
  shows "relpOffersConstructFromFrame (\<lambda>_. True) f = None"
proof -
  obtain r c f1 where n: "nextC f 0 = Some (r, c, f1)" "cur r c f1 (nm @ 61 # v)" using nextC_rest [OF assms(6)] .
  have r: "r = RELP_RET_OK" using n(2) by (cases nm) (simp_all add: cur_Cons)
  from nameLoop_ok [of nm "[]" r c f1 v] assms(1) n(2) obtain f2 where
    m: "nameLoop [] r c f1 = Some (nm, RELP_RET_OK, 61, f2)" "rest_is f2 v" by (auto simp: name_ok_def)
  obtain r1 c1 f3 where g: "nextC f2 61 = Some (r1, c1, f3)" "cur r1 c1 f3 v" using nextC_rest [OF m(2)] .
  have sep: "44 \<notin> set v" "10 \<notin> set v" "0 \<notin> set v" using assms(4) by (auto simp: isdigit_def)
  from valLoop_ok [of v "[]" r1 c1 f3 "[]"] sep assms(3) g(2) obtain r2 c2 f4 where
    l: "valLoop [] r1 c1 f3 = Some (v, r2, c2, f4)" by auto
  have "offerInt 0 v = None" using offerInt_digits [OF assms(4), of 0] assms(5) by (cases "offerInt 0 v") auto
  then have "valuesLoop (\<lambda>_. True) 2 \<lparr>szName = strncpy 33 nm, pValueRoot = []\<rparr> RELP_RET_OK 61 f2 = None"
    using g l sep assms(2) by (subst valuesLoop.simps) (simp add: relpOfferValueAdd_def takeWhile_no_zero)
  then have "offersLoop (\<lambda>_. True) 1 [] r c f1 = None"
    using r m assms(1) by (subst offersLoop.simps) (simp add: relpOfferAdd_def name_ok_def takeWhile_no_zero numeral_2_eq_2)
  then show ?thesis using n by (simp add: relpOffersConstructFromFrame_def)
qed

text \<open>
  The buffer for the text of the offers overruns when its rest is smaller than three bytes:
  the difference in the test whether to enlarge it is unsigned and wraps, so after a header that
  leaves less than three of the 4096 bytes the name of the first offer is written behind the end.
\<close>

theorem offers_text_overruns:
  assumes "4094 \<le> length hdr" and "length hdr \<le> 4096" and "cstr (szName f) = Some nm" and "4096 \<le> length hdr + length nm"
    and "length nm \<le> 32"
  shows "relpOffersToString ok (f # fs) (Some hdr) \<in> {None, Some (RELP_RET_OUT_OF_MEMORY, [])}"
proof (cases "ok 0")
  case True
  let ?b = "map Some hdr @ replicate (4096 - length hdr) None"
  have m: "memcpy (replicate 4096 None) 0 (map Some hdr) (length hdr) = Some ?b" using assms(2) by (auto simp: memcpy_def)
  have "length hdr = 4094 \<or> length hdr = 4095 \<or> length hdr = 4096" using assms(1,2) by linarith
  then have "growOffers (ok 1) ?b (length hdr) nm = Some ?b"
    using assms(5) by (auto simp: growOffers_def size_t_def)
  moreover have "strcpyAt ?b (length hdr) nm = None" using assms by (auto simp: strcpyAt_def memcpy_def)
  ultimately show ?thesis using True m assms by (simp add: relpOffersToString_def)
qed (simp add: relpOffersToString_def)

section \<open>Examples\<close>

text \<open>The offers of a session that supports \<open>syslog\<close>: two names, the second with two values.\<close>

definition os_ex :: "(byte list \<times> byte list list) list" where
  "os_ex = [(lit ''relp_version'', [lit ''0'']), (lit ''commands'', [lit ''syslog'', lit ''eventlog''])]"

definition offers_ex :: "relpOffer list" where
  "offers_ex = map (\<lambda>x. \<lparr>szName = strncpy 33 (fst x), pValueRoot = map mkvalue (snd x)\<rparr>) os_ex"

definition data_frame :: "byte list \<Rightarrow> relpFrame" where
  "data_frame d = \<lparr>rcvState = FINISHED, iRcv = 0, txnr = 1, cmd = replicate 33 0, lenData = length d,
     pData = Some (map Some d), idxData = 0\<rparr>"

lemma data_frame_rest: "rest_is (data_frame d) d"
  by (simp add: rest_is_def data_frame_def rd_def)

lemma os_ex_ok: "\<forall>x \<in> set os_ex. name_ok (fst x) \<and> (\<forall>v \<in> set (snd x). value_ok v)"
  by (simp add: os_ex_def lit_def name_ok_def value_ok_def isdigit_def)

lemma offers_ex_is: "list_all2 offer_is offers_ex os_ex"
  by (simp add: offers_ex_def os_ex_def offer_is_def value_is_def mkvalue_def lit_def cstr_strncpy)

theorem offers_round_trip_witness:
  "relpOffersToString (\<lambda>_. True) offers_ex (Some (lit ''200 OK'' @ [10])) =
      Some (RELP_RET_OK, map Some ((lit ''200 OK'' @ [10]) @ otext os_ex)) \<and>
    (\<exists>f'. relpOffersConstructFromFrame (\<lambda>_. True) (data_frame (otext os_ex)) = Some (RELP_RET_OK, rev (map mkoffer os_ex), f'))"
  by (rule offers_round_trip [OF offers_ex_is os_ex_ok _ data_frame_rest]) (simp add: os_ex_def lit_def)

theorem offer_number_overflows_witness:
  "relpOffersConstructFromFrame (\<lambda>_. True) (data_frame (lit ''relp_version'' @ 61 # lit ''2147483648'')) = None"
  by (rule offer_number_overflows [OF _ _ _ _ _ data_frame_rest]) (simp_all add: lit_def name_ok_def isdigit_def dval_def)

theorem offers_text_overruns_witness:
  "relpOffersToString (\<lambda>_. True) (hd offers_ex # tl offers_ex) (Some (replicate 4095 32)) \<in> {None, Some (RELP_RET_OUT_OF_MEMORY, [])}"
  by (rule offers_text_overruns [where nm = "lit ''relp_version''"])
    (simp_all add: offers_ex_def os_ex_def lit_def cstr_strncpy)

end
