(* ===== verification/RelpSess.thy ===== *)
theory RelpSess
  imports RelpWire RelpOffers
begin

text \<open>
  RELP sessions (librelp/src/relpsess.c, sendbuf.c, sendq.c, the command handlers and the
  dispatcher of relp.c). The socket is a record of what the operating system answers: the
  \<open>n\<close>-th \<open>send\<close> takes some bytes, asks to try again or fails, and the bytes taken are appended
  to \<open>wire\<close>; \<open>recv\<close>, \<open>poll\<close>, the clock and the stop flag of the engine are sequences of answers in
  the same way. Sendbufs live in a heap of the session; \<open>malloc\<close> answers by the sequence
  \<open>memOK\<close>. Loops that may not end are partial functions: \<open>None\<close> is undefined behaviour or no
  return. Connections without TLS.
\<close>

section \<open>Data\<close>

datatype relpCmdEnaState =
    eRelpCmdState_Unset | eRelpCmdState_Forbidden | eRelpCmdState_Desired
  | eRelpCmdState_Required | eRelpCmdState_Enabled | eRelpCmdState_Disabled

datatype relpSessState =
    eRelpSessState_DISCONNECTED | eRelpSessState_PRE_INIT | eRelpSessState_INIT_CMD_SENT
  | eRelpSessState_INIT_RSP_RCVD | eRelpSessState_READY_TO_SEND | eRelpSessState_WINDOW_FULL
  | eRelpSessState_CLOSE_CMD_SENT | eRelpSessState_CLOSE_RSP_RCVD | eRelpSessState_BROKEN

datatype send_result = Wrote nat | TryAgain | SendError
datatype recv_result = ConnClosed | WouldBlock | RecvError | Received "byte list"

record relpTcp =
  osSend :: "nat \<Rightarrow> send_result"
  osWait :: "nat \<Rightarrow> bool"
  osExpired :: "nat \<Rightarrow> bool"
  sendNo :: nat
  wire :: "byte list"
  osRecv :: "nat \<Rightarrow> recv_result"
  recvNo :: nat

text \<open>The callback for received messages: none, or one of the two versions.\<close>

datatype syslog_callback = NoCallback | OnSyslogRcv | OnSyslogRcv2

record relpSess = relpRcvSess +
  bServerConnOpen :: bool
  pTcp :: relpTcp
  pCurrRcvFrame :: "relpFrame option"
  protocolVersion :: int
  stateCmdSyslog :: relpCmdEnaState
  pSendq :: "ptr list"
  unackedLst :: "ptr list"
  lenUnackedLst :: int
  sizeWindow :: int
  bAutoRetry :: bool
  sessState :: relpSessState
  sendbufs :: "ptr \<Rightarrow> relpSendbuf option"
  nextSendbuf :: ptr
  engVersion :: int
  engSoftware :: "byte list"
  onSyslog :: syslog_callback
  delivered :: "byte list list"
  memOK :: "nat \<Rightarrow> bool"
  memNo :: nat
  memFrame :: "nat \<Rightarrow> bool \<times> bool"
  osStop :: "nat \<Rightarrow> bool"
  osDeadline :: "nat \<Rightarrow> bool"
  osPollErr :: "nat \<Rightarrow> bool"
  waitNo :: nat
  osConnect :: "nat \<Rightarrow> relpRetVal \<times> relpTcp"
  connNo :: nat

text \<open>\<open>CHKRet\<close>: go on only after \<open>RELP_RET_OK\<close>.\<close>

definition chkRet :: "(relpRetVal \<times> 'a) option \<Rightarrow> ('a \<Rightarrow> (relpRetVal \<times> 'a) option) \<Rightarrow> (relpRetVal \<times> 'a) option" where
  "chkRet x f = do { (r, a) \<leftarrow> x; if r \<noteq> RELP_RET_OK then Some (r, a) else f a }"

section \<open>Sendbufs\<close>

definition relpTcpSend :: "relpTcp \<Rightarrow> byte option list \<Rightarrow> (relpRetVal \<times> nat \<times> relpTcp) option" where
  "relpTcpSend t pBuf =
     (if None \<in> set pBuf then None
      else case osSend t (sendNo t) of
          Wrote n \<Rightarrow> (let k = min n (length pBuf)
                     in Some (RELP_RET_OK, k, t\<lparr>sendNo := sendNo t + 1, wire := wire t @ map the (take k pBuf)\<rparr>))
        | TryAgain \<Rightarrow> Some (RELP_RET_OK, 0, t\<lparr>sendNo := sendNo t + 1\<rparr>)
        | SendError \<Rightarrow> Some (RELP_RET_IO_ERR, length pBuf, t\<lparr>sendNo := sendNo t + 1\<rparr>))"

text \<open>The \<open>n\<close> bytes of a sendbuf from its send position on.\<close>

definition sendWindow :: "relpSendbuf \<Rightarrow> nat \<Rightarrow> byte option list option" where
  "sendWindow sb n =
     do { d \<leftarrow> sbData sb;
          let off = 9 - sbLenTxnr sb + bufPtr sb;
          if off + n \<le> length d then Some (take n (drop off d)) else None }"

definition relpSendbufSend :: "ptr \<Rightarrow> relpSess \<Rightarrow> (relpRetVal \<times> relpSess) option" where
  "relpSendbufSend p s =
     do {
       sb \<leftarrow> sendbufs s p;
       let lenToWrite = sbLenData sb - bufPtr sb;
       b \<leftarrow> sendWindow sb lenToWrite;
       (r, lenWritten, t) \<leftarrow> relpTcpSend (pTcp s) b;
       let s1 = s\<lparr>pTcp := t\<rparr>;
       if r \<noteq> RELP_RET_OK then Some (r, s1)
       else if lenWritten \<noteq> lenToWrite
       then Some (RELP_RET_PARTIAL_WRITE, s1\<lparr>sendbufs := (sendbufs s1)(p \<mapsto> sb\<lparr>bufPtr := bufPtr sb + lenWritten\<rparr>)\<rparr>)
       else Some (RELP_RET_OK, s1)
     }"

definition relpSendbufDestruct :: "ptr \<Rightarrow> relpSess \<Rightarrow> relpSess option" where
  "relpSendbufDestruct p s = do { _ \<leftarrow> sendbufs s p; Some (s\<lparr>sendbufs := (sendbufs s)(p := None)\<rparr>) }"

text \<open>\<open>relpFrameBuildSendbuf\<close> with the sendbuf put into the heap.\<close>

definition newSendbuf :: "int \<Rightarrow> byte list \<Rightarrow> byte list \<Rightarrow> rspHdlr \<Rightarrow> relpSess \<Rightarrow> (relpRetVal \<times> ptr option \<times> relpSess) option" where
  "newSendbuf t c d hdlr s =
     do {
       (r, x) \<leftarrow> relpFrameBuildSendbuf (memOK s (memNo s)) (memOK s (memNo s + 1)) t c (length c) d (length d) hdlr;
       let s1 = s\<lparr>memNo := memNo s + 2\<rparr>;
       (case x of
          None \<Rightarrow> Some (r, None, s1)
        | Some sb \<Rightarrow> Some (r, Some (nextSendbuf s1),
            s1\<lparr>sendbufs := (sendbufs s1)(nextSendbuf s1 \<mapsto> sb), nextSendbuf := nextSendbuf s1 + 1\<rparr>))
     }"

section \<open>The send queue of a server\<close>

definition relpSendqDelFirstBuf :: "relpSess \<Rightarrow> relpSess option" where
  "relpSendqDelFirstBuf s =
     (case pSendq s of [] \<Rightarrow> None | p # q \<Rightarrow> relpSendbufDestruct p (s\<lparr>pSendq := q\<rparr>))"

partial_function (option) relpSendqSend :: "relpSess \<Rightarrow> (relpRetVal \<times> relpSess) option" where
  "relpSendqSend s =
     (case pSendq s of
        [] \<Rightarrow> Some (RELP_RET_OK, s)
      | p # q \<Rightarrow> do {
          (localRet, s1) \<leftarrow> relpSendbufSend p s;
          if localRet = RELP_RET_OK then do { s2 \<leftarrow> relpSendqDelFirstBuf s1; relpSendqSend s2 }
          else if localRet \<noteq> RELP_RET_PARTIAL_WRITE then Some (localRet, s1)
          else relpSendqSend s1
        })"

definition relpSendqAddBuf :: "ptr \<Rightarrow> relpSess \<Rightarrow> (relpRetVal \<times> relpSess) option" where
  "relpSendqAddBuf p s =
     (let s1 = s\<lparr>memNo := memNo s + 1\<rparr>
      in if \<not> memOK s (memNo s) then Some (RELP_RET_OUT_OF_MEMORY, s1)
         else do {
           (r, s2) \<leftarrow> relpSendqSend (s1\<lparr>pSendq := pSendq s1 @ [p]\<rparr>);
           Some (if r = RELP_RET_PARTIAL_WRITE then RELP_RET_OK else r, s2)
         })"

text \<open>
  The answer to a command. When no sendbuf is built, the local pointer tested at the end was
  never set.
\<close>

definition relpSessSendResponse :: "int \<Rightarrow> byte list \<Rightarrow> relpSess \<Rightarrow> (relpRetVal \<times> relpSess) option" where
  "relpSessSendResponse t d s =
     do {
       (r, x, s1) \<leftarrow> newSendbuf t (lit ''rsp'') d NoHdlr s;
       p \<leftarrow> x;
       (r2, s2) \<leftarrow> relpSendqAddBuf p s1;
       if r2 = RELP_RET_OK then Some (r2, s2)
       else do {
         s3 \<leftarrow> relpSendbufDestruct p (if r2 = RELP_RET_IO_ERR then s2\<lparr>sessState := eRelpSessState_BROKEN\<rparr> else s2);
         Some (r2, s3)
       }
     }"

definition relpSessSndData :: "relpSess \<Rightarrow> (relpRetVal \<times> relpSess) option" where
  "relpSessSndData s = (if sessState s \<noteq> eRelpSessState_BROKEN then relpSendqSend s else Some (RELP_RET_OK, s))"

definition relpSessSrvSendHint :: "byte list \<Rightarrow> byte list \<Rightarrow> relpSess \<Rightarrow> (relpRetVal \<times> relpSess) option" where
  "relpSessSrvSendHint pHint d s =
     do {
       (r, x, s1) \<leftarrow> newSendbuf 0 pHint d NoHdlr s;
       (case x of
          None \<Rightarrow> Some (r, s1)
        | Some p \<Rightarrow> do { (r2, s2) \<leftarrow> relpSendbufSend p s1; s3 \<leftarrow> relpSendbufDestruct p s2; Some (r2, s3) })
     }"

definition relpSessSrvDoDisconnect :: "relpSess \<Rightarrow> (relpRetVal \<times> relpSess) option" where
  "relpSessSrvDoDisconnect s = relpSessSrvSendHint (lit ''serverclose'') [] s"

section \<open>The frames a client waits for answers to\<close>

definition relpSessAddUnacked :: "ptr \<Rightarrow> relpSess \<Rightarrow> relpRetVal \<times> relpSess" where
  "relpSessAddUnacked p s =
     (let s0 = s\<lparr>memNo := memNo s + 1\<rparr>
      in if \<not> memOK s (memNo s) then (RELP_RET_OUT_OF_MEMORY, s0)
         else (let s1 = s0\<lparr>unackedLst := unackedLst s0 @ [p], lenUnackedLst := lenUnackedLst s0 + 1\<rparr>
               in (RELP_RET_OK, if lenUnackedLst s1 \<ge> sizeWindow s1 then s1\<lparr>sessState := eRelpSessState_WINDOW_FULL\<rparr> else s1)))"

definition relpSessDelUnacked :: "ptr \<Rightarrow> relpSess \<Rightarrow> relpSess" where
  "relpSessDelUnacked p s =
     (let s1 = s\<lparr>unackedLst := remove1 p (unackedLst s), lenUnackedLst := lenUnackedLst s - 1\<rparr>
      in if lenUnackedLst s1 < sizeWindow s1 \<and> sessState s1 = eRelpSessState_WINDOW_FULL
         then s1\<lparr>sessState := eRelpSessState_READY_TO_SEND\<rparr> else s1)"

fun findUnacked :: "(ptr \<Rightarrow> relpSendbuf option) \<Rightarrow> ptr list \<Rightarrow> int \<Rightarrow> ptr option option" where
  "findUnacked h [] t = Some None"
| "findUnacked h (p # ps) t = do { sb \<leftarrow> h p; if sbTxnr sb \<noteq> t then findUnacked h ps t else Some (Some p) }"

definition relpSessGetUnacked :: "int \<Rightarrow> relpSess \<Rightarrow> (relpRetVal \<times> ptr option \<times> relpSess) option" where
  "relpSessGetUnacked t s =
     do {
       x \<leftarrow> findUnacked (sendbufs s) (unackedLst s) t;
       (case x of
          None \<Rightarrow> Some (RELP_RET_NOT_FOUND, None, s)
        | Some p \<Rightarrow> Some (RELP_RET_OK, Some p, relpSessDelUnacked p s))
     }"

text \<open>Sending a whole buffer; after each \<open>send\<close> the deadline is looked at.\<close>

partial_function (option) sendAllLoop :: "ptr \<Rightarrow> nat \<Rightarrow> relpSess \<Rightarrow> (relpRetVal \<times> relpSess) option" where
  "sendAllLoop p lenToWrite s =
     (if lenToWrite = 0 then Some (RELP_RET_OK, s)
      else do {
        sb \<leftarrow> sendbufs s p;
        b \<leftarrow> sendWindow sb lenToWrite;
        (r, lenWritten, t) \<leftarrow> relpTcpSend (pTcp s) b;
        let s1 = s\<lparr>pTcp := t\<rparr>;
        if r \<noteq> RELP_RET_OK then Some (r, s1)
        else if lenWritten = 0 \<and> \<not> osWait t (sendNo t) then Some (RELP_RET_IO_ERR, s1)
        else (let sb1 = (if lenWritten = 0 \<or> lenWritten = lenToWrite then sb else sb\<lparr>bufPtr := bufPtr sb + lenWritten\<rparr>);
                  s2 = s1\<lparr>sendbufs := (sendbufs s1)(p \<mapsto> sb1)\<rparr>;
                  l2 = (if lenWritten = 0 then lenToWrite
                        else if lenWritten = lenToWrite then 0 else sbLenData sb1 - bufPtr sb1)
              in if l2 \<noteq> 0 \<and> osExpired t (sendNo t) then Some (RELP_RET_IO_ERR, s2) else sendAllLoop p l2 s2)
      })"

definition relpSendbufSendAll :: "ptr \<Rightarrow> bool \<Rightarrow> relpSess \<Rightarrow> (relpRetVal \<times> relpSess) option" where
  "relpSendbufSendAll p bAddToUnacked s =
     do {
       sb \<leftarrow> sendbufs s p;
       (r, s1) \<leftarrow> sendAllLoop p (sbLenData sb - bufPtr sb) s;
       if r \<noteq> RELP_RET_OK \<or> \<not> bAddToUnacked then Some (r, s1)
       else (case relpSessAddUnacked p s1 of
               (r2, s2) \<Rightarrow> if r2 = RELP_RET_OK then Some (r2, s2)
                           else do { s3 \<leftarrow> relpSendbufDestruct p s2; Some (r2, s3) })
     }"

definition relpSessRawSendCommand :: "byte list \<Rightarrow> byte list \<Rightarrow> rspHdlr \<Rightarrow> relpSess \<Rightarrow> (relpRetVal \<times> relpSess) option" where
  "relpSessRawSendCommand c d hdlr s =
     do {
       (r, x, s1) \<leftarrow> newSendbuf (sessTxnr s) c d hdlr s;
       (case x of
          None \<Rightarrow> Some (r, s1)
        | Some p \<Rightarrow> do {
            (r2, s2) \<leftarrow> relpSendbufSendAll p True (s1\<lparr>sessTxnr := relpEngineNextTXNR (sessTxnr s1)\<rparr>);
            if r2 = RELP_RET_IO_ERR then Some (RELP_RET_SESSION_BROKEN, s2\<lparr>sessState := eRelpSessState_BROKEN\<rparr>)
            else Some (r2, s2)
          })
     }"

end
