(* ===== verification/RelpCmd.thy ===== *)
theory RelpCmd
  imports RelpSess
begin

text \<open>
  The commands of the RELP protocol and what a session does with them (librelp/src/relpsess.c,
  copen.c, cclose.c, cserverclose.c, scrsp.c, scsyslog.c, relp.c): negotiating the offers, the
  handlers of received frames and their dispatcher, receiving, waiting for a state, sending
  commands, connecting, reconnecting and disconnecting.
\<close>

section \<open>Session parameters\<close>

definition relpSessSetEnableCmd :: "byte list \<Rightarrow> relpCmdEnaState \<Rightarrow> relpSess \<Rightarrow> relpRetVal \<times> relpSess" where
  "relpSessSetEnableCmd pszCmd st s =
     (if pszCmd = lit ''syslog''
      then (RELP_RET_OK, if stateCmdSyslog s \<noteq> eRelpCmdState_Forbidden then s\<lparr>stateCmdSyslog := st\<rparr> else s)
      else (RELP_RET_UNKNOWN_CMD, s))"

definition relpSessFixCmdStates :: "relpSess \<Rightarrow> relpSess" where
  "relpSessFixCmdStates s =
     (if stateCmdSyslog s = eRelpCmdState_Unset then s\<lparr>stateCmdSyslog := eRelpCmdState_Forbidden\<rparr> else s)"

definition relpSessSetWindowSize :: "int \<Rightarrow> relpSess \<Rightarrow> relpSess" where
  "relpSessSetWindowSize n s = (if n > 1 then s\<lparr>sizeWindow := n\<rparr> else s)"

definition relpSessSetMaxDataSize :: "nat \<Rightarrow> relpSess \<Rightarrow> relpSess" where
  "relpSessSetMaxDataSize n s = s\<lparr>maxDataSize := n\<rparr>"

definition relpSrvSetOversizeMode :: "int \<Rightarrow> relpSrv \<Rightarrow> relpRetVal \<times> relpSrv" where
  "relpSrvSetOversizeMode m srv =
     (if m \<noteq> 0 \<and> m \<noteq> 1 \<and> m \<noteq> 2 then (RELP_RET_PARAM_ERROR, srv) else (RELP_RET_OK, srv\<lparr>oversizeMode := m\<rparr>))"

text \<open>
  The offers of this side. The first allocation is not guarded: when it fails the pointer that
  the error path tests was never set.
\<close>

definition addValue :: "bool \<Rightarrow> byte list option \<Rightarrow> int \<Rightarrow> relpOffer list \<Rightarrow> (relpRetVal \<times> relpOffer list) option" where
  "addValue ok v i offers =
     (case offers of [] \<Rightarrow> None
      | f # fs \<Rightarrow> map_option (\<lambda>(r, f'). (r, f' # fs)) (relpOfferValueAdd ok v i f))"

definition relpSessConstructOffers :: "(nat \<Rightarrow> bool) \<Rightarrow> relpSess \<Rightarrow> (relpRetVal \<times> relpOffer list) option" where
  "relpSessConstructOffers m s =
     (if \<not> m 0 then None
      else chkRet (Some (relpOfferAdd (m 1) (lit ''commands'') [])) (\<lambda>fs.
        chkRet (if stateCmdSyslog s \<in> {eRelpCmdState_Enabled, eRelpCmdState_Desired, eRelpCmdState_Required}
                then addValue (m 2) (Some (lit ''syslog'')) 0 fs else Some (RELP_RET_OK, fs)) (\<lambda>fs.
        chkRet (Some (relpOfferAdd (m 3) (lit ''relp_software'') fs)) (\<lambda>fs.
        chkRet (addValue (m 4) (Some (lit ''http://librelp.adiscon.com'')) (protocolVersion s) fs) (\<lambda>fs.
        chkRet (addValue (m 5) (Some (engSoftware s)) (protocolVersion s) fs) (\<lambda>fs.
        chkRet (addValue (m 6) (Some (lit ''librelp'')) (protocolVersion s) fs) (\<lambda>fs.
        chkRet (Some (relpOfferAdd (m 7) (lit ''relp_version'') fs)) (\<lambda>fs.
        addValue (m 8) None (protocolVersion s) fs))))))))"

text \<open>
  Allocations of the offers: the \<open>i\<close>-th of a call is the one \<open>i\<close> places further; then the
  sequence goes on behind all the calls that reading or making offers can take.
\<close>

abbreviation memAt :: "relpSess \<Rightarrow> nat \<Rightarrow> bool" where
  "memAt s i \<equiv> memOK s (memNo s + i)"

section \<open>The open command\<close>

fun enableValues :: "relpCmdEnaState set \<Rightarrow> relpOfferValue list \<Rightarrow> relpSess \<Rightarrow> relpSess option" where
  "enableValues sts [] s = Some s"
| "enableValues sts (v # vs) s =
     (if stateCmdSyslog s \<in> sts
      then do { c \<leftarrow> cstr (szVal v); enableValues sts vs (snd (relpSessSetEnableCmd c eRelpCmdState_Enabled s)) }
      else enableValues sts vs s)"

text \<open>The offers of the client, as the server takes them (copen.c).\<close>

fun selectLoop :: "relpOffer list \<Rightarrow> relpSess \<Rightarrow> (relpRetVal \<times> relpSess) option" where
  "selectLoop [] s = Some (RELP_RET_OK, s)"
| "selectLoop (f # fs) s =
     do {
       nm \<leftarrow> cstr (szName f);
       if nm = lit ''relp_version''
       then (case pValueRoot f of
               [] \<Rightarrow> Some (RELP_RET_INVALID_OFFER, s)
             | v # vs \<Rightarrow>
                 if intVal v = -1 then Some (RELP_RET_INVALID_OFFER, s)
                 else selectLoop fs (s\<lparr>protocolVersion := (if intVal v > engVersion s then engVersion s else intVal v)\<rparr>))
       else if nm = lit ''commands''
       then do { s1 \<leftarrow> enableValues {eRelpCmdState_Desired, eRelpCmdState_Required} (pValueRoot f) s; selectLoop fs s1 }
       else selectLoop fs s
     }"

definition selectOffers :: "relpOffer list \<Rightarrow> relpSess \<Rightarrow> (relpRetVal \<times> relpOffer list \<times> relpSess) option" where
  "selectOffers pCltOffers s =
     do {
       (r, s1) \<leftarrow> selectLoop pCltOffers s;
       if r \<noteq> RELP_RET_OK then Some (r, [], s1)
       else if stateCmdSyslog s1 = eRelpCmdState_Required then Some (RELP_RET_RQD_FEAT_MISSING, [], s1)
       else (let s2 = (if stateCmdSyslog s1 = eRelpCmdState_Desired
                       then snd (relpSessSetEnableCmd (lit ''syslog'') eRelpCmdState_Disabled s1) else s1)
             in do { (r2, fs) \<leftarrow> relpSessConstructOffers (memAt s2) s2; Some (r2, fs, s2\<lparr>memNo := memNo s2 + 9\<rparr>) })
     }"

definition initErrMsg :: "relpRetVal \<Rightarrow> byte list" where
  "initErrMsg r =
     (if r = RELP_RET_RQD_FEAT_MISSING then lit ''500 required command not supported by client''
      else lit ''500 error '' @ numtxt (relp_code r) @ lit '' on connect'')"

definition initOpen :: "relpFrame \<Rightarrow> relpSess \<Rightarrow> (relpRetVal \<times> relpSess) option" where
  "initOpen f s =
     do {
       (r, cltOffers, f1) \<leftarrow> relpOffersConstructFromFrame (memAt s) f;
       let s1 = s\<lparr>memNo := memNo s + lenData f + 2\<rparr>;
       if r \<noteq> RELP_RET_OK then Some (r, s1)
       else do {
         (r2, srvOffers, s2) \<leftarrow> selectOffers cltOffers s1;
         if r2 \<noteq> RELP_RET_OK then Some (r2, s2)
         else do {
           (r3, txt) \<leftarrow> relpOffersToString (memAt s2) srvOffers (Some (lit ''200 OK'' @ [10]));
           let s3 = s2\<lparr>memNo := memNo s2 + 64\<rparr>;
           if r3 \<noteq> RELP_RET_OK then Some (r3, s3)
           else if None \<in> set txt then None
           else do {
             (r4, s4) \<leftarrow> relpSessSendResponse (txnr f) (map the txt) s3;
             Some (r4, if r4 = RELP_RET_OK then s4\<lparr>bServerConnOpen := True\<rparr> else s4)
           }
         }
       }
     }"

definition relpSCInit :: "relpFrame \<Rightarrow> relpSess \<Rightarrow> (relpRetVal \<times> relpSess) option" where
  "relpSCInit f s =
     do {
       (r, s1) \<leftarrow> (if bServerConnOpen s
                   then do { (_, s1) \<leftarrow> relpSessSendResponse (txnr f) (lit ''500 connection already open'') s;
                             Some (RELP_RET_SESSION_OPEN, s1) }
                   else initOpen f s);
       if r \<noteq> RELP_RET_OK
       then do { (_, s2) \<leftarrow> relpSessSendResponse (txnr f) (initErrMsg r) s1; Some (r, s2) }
       else Some (r, s1)
     }"

text \<open>The offers of the server, as the client takes them (relpsess.c).\<close>

fun rspOpenLoop :: "relpOffer list \<Rightarrow> relpSess \<Rightarrow> (relpRetVal \<times> relpSess) option" where
  "rspOpenLoop [] s = Some (RELP_RET_OK, s)"
| "rspOpenLoop (f # fs) s =
     do {
       nm \<leftarrow> cstr (szName f);
       if nm = lit ''relp_version''
       then (case pValueRoot f of
               [] \<Rightarrow> Some (RELP_RET_INVALID_OFFER, s)
             | v # vs \<Rightarrow>
                 if intVal v = -1 then Some (RELP_RET_INVALID_OFFER, s)
                 else if intVal v > engVersion s then Some (RELP_RET_INCOMPAT_OFFERS, s)
                 else rspOpenLoop fs (s\<lparr>protocolVersion := intVal v\<rparr>))
       else if nm = lit ''commands''
       then do { s1 \<leftarrow> enableValues UNIV (pValueRoot f) s; rspOpenLoop fs s1 }
       else rspOpenLoop fs s
     }"

definition relpSessCBrspOpen :: "relpFrame \<Rightarrow> relpSess \<Rightarrow> (relpRetVal \<times> relpSess) option" where
  "relpSessCBrspOpen f s =
     do {
       (r, offers, f1) \<leftarrow> relpOffersConstructFromFrame (memAt s) f;
       let s1 = s\<lparr>memNo := memNo s + lenData f + 2\<rparr>;
       if r \<noteq> RELP_RET_OK then Some (r, s1)
       else do {
         (r2, s2) \<leftarrow> rspOpenLoop offers s1;
         Some (r2, if r2 = RELP_RET_OK then s2\<lparr>sessState := eRelpSessState_INIT_RSP_RCVD\<rparr> else s2)
       }
     }"

definition relpSessCBrspClose :: "relpSess \<Rightarrow> relpRetVal \<times> relpSess" where
  "relpSessCBrspClose s = (RELP_RET_OK, s\<lparr>sessState := eRelpSessState_CLOSE_RSP_RCVD\<rparr>)"

section \<open>The other commands\<close>

definition relpSCClose :: "relpFrame \<Rightarrow> relpSess \<Rightarrow> (relpRetVal \<times> relpSess) option" where
  "relpSCClose f s =
     do { (r, s1) \<leftarrow> relpSessSendResponse (txnr f) [] s;
          Some (if r \<noteq> RELP_RET_OK then r else RELP_RET_SESSION_CLOSED, s1) }"

definition relpCCServerclose :: "relpSess \<Rightarrow> relpRetVal \<times> relpSess" where
  "relpCCServerclose s = (RELP_RET_SESSION_CLOSED, s\<lparr>sessState := eRelpSessState_BROKEN\<rparr>)"

text \<open>A received message: the callback reads the data of the frame.\<close>

definition frameData :: "relpFrame \<Rightarrow> byte list option" where
  "frameData f =
     (if lenData f = 0 then Some []
      else do { d \<leftarrow> pData f;
                if lenData f \<le> length d \<and> None \<notin> set (take (lenData f) d) then Some (map the (take (lenData f) d)) else None })"

definition relpSCSyslog :: "relpFrame \<Rightarrow> relpSess \<Rightarrow> (relpRetVal \<times> relpSess) option" where
  "relpSCSyslog f s =
     (if stateCmdSyslog s \<noteq> eRelpCmdState_Enabled
      then do { (_, s1) \<leftarrow> relpSessSendResponse (txnr f) (lit ''500 command disabled'') s; Some (RELP_RET_CMD_DISABLED, s1) }
      else do {
        s1 \<leftarrow> (case onSyslog s of
                 OnSyslogRcv2 \<Rightarrow> (case pSrv s of None \<Rightarrow> None
                                  | Some _ \<Rightarrow> map_option (\<lambda>d. s\<lparr>delivered := delivered s @ [d]\<rparr>) (frameData f))
               | OnSyslogRcv \<Rightarrow> map_option (\<lambda>d. s\<lparr>delivered := delivered s @ [d]\<rparr>) (frameData f)
               | NoCallback \<Rightarrow> Some s);
        relpSessSendResponse (txnr f) (lit ''200 OK'') s1
      })"

text \<open>The header of an answer: three digits, a blank and at most 80 characters of text.\<close>

definition rspDigit :: "int \<Rightarrow> relpFrame \<Rightarrow> (relpRetVal \<times> int \<times> relpFrame) option" where
  "rspDigit code f =
     do { (r, c, f1) \<leftarrow> nextC f 0;
          if r \<noteq> RELP_RET_OK then Some (r, code, f1)
          else if isdigit c then Some (RELP_RET_OK, code * 10 + uint c - 48, f1)
          else Some (RELP_RET_INVALID_RSPHDR, code, f1) }"

function rspText :: "nat \<Rightarrow> relpFrame \<Rightarrow> (relpRetVal \<times> relpFrame) option" where
  "rspText i f =
     (if \<not> i < 80 then Some (RELP_RET_OK, f)
      else case nextC f 0 of
          None \<Rightarrow> None
        | Some (r, c, f1) \<Rightarrow>
            if r = RELP_RET_END_OF_DATA then Some (RELP_RET_OK, f1)
            else if r \<noteq> RELP_RET_OK then Some (r, f1)
            else if c = 10 then Some (RELP_RET_OK, f1)
            else rspText (i + 1) f1)"
  by pat_completeness auto
termination by (relation "measure (\<lambda>(i, f). 80 - i)") auto

declare rspText.simps [simp del]

definition readRspHdr :: "relpFrame \<Rightarrow> (relpRetVal \<times> int \<times> relpFrame) option" where
  "readRspHdr f =
     do {
       (r, code, f) \<leftarrow> rspDigit 0 f;
       if r \<noteq> RELP_RET_OK then Some (r, code, f)
       else do {
         (r, code, f) \<leftarrow> rspDigit code f;
         if r \<noteq> RELP_RET_OK then Some (r, code, f)
         else do {
           (r, code, f) \<leftarrow> rspDigit code f;
           if r \<noteq> RELP_RET_OK then Some (r, code, f)
           else do {
             (r, c, f) \<leftarrow> nextC f 0;
             if r \<noteq> RELP_RET_OK then Some (r, code, f)
             else if c \<noteq> 32 then Some (RELP_RET_INVALID_RSPHDR, code, f)
             else do { (r, f) \<leftarrow> rspText 0 f; Some (r, code, f) }
           }
         }
       }
     }"

definition relpSCRsp :: "relpFrame \<Rightarrow> relpSess \<Rightarrow> (relpRetVal \<times> relpSess) option" where
  "relpSCRsp f s =
     do {
       (r, rspCode, f1) \<leftarrow> readRspHdr f;
       if r \<noteq> RELP_RET_OK then Some (r, s)
       else do {
         (r2, x, s1) \<leftarrow> relpSessGetUnacked (txnr f1) s;
         (case x of
            None \<Rightarrow> Some (r2, s1)
          | Some p \<Rightarrow>
              if rspCode = 200
              then do {
                sb \<leftarrow> sendbufs s1 p;
                (r3, s2) \<leftarrow> (case sbRspHdlr sb of
                               NoHdlr \<Rightarrow> Some (RELP_RET_OK, s1)
                             | CBrspOpen \<Rightarrow> relpSessCBrspOpen f1 s1
                             | CBrspClose \<Rightarrow> Some (relpSessCBrspClose s1));
                if r3 \<noteq> RELP_RET_OK then Some (r3, s2)
                else do { s3 \<leftarrow> relpSendbufDestruct p s2; Some (RELP_RET_OK, s3) }
              }
              else do { s2 \<leftarrow> relpSendbufDestruct p s1; Some (RELP_RET_RSP_STATE_ERR, s2) })
       }
     }"

text \<open>The dispatcher of relp.c; the result of a message is not passed on.\<close>

definition relpEngineDispatchFrame :: "relpFrame \<Rightarrow> relpSess \<Rightarrow> (relpRetVal \<times> relpSess) option" where
  "relpEngineDispatchFrame f s =
     do {
       c \<leftarrow> cstr (cmd f);
       if c = lit ''syslog'' then do { (_, s1) \<leftarrow> relpSCSyslog f s; Some (RELP_RET_OK, s1) }
       else if c = lit ''rsp'' then relpSCRsp f s
       else if c = lit ''open'' then relpSCInit f s
       else if c = lit ''close'' then relpSCClose f s
       else if c = lit ''serverclose'' then Some (relpCCServerclose s)
       else Some (RELP_RET_INVALID_CMD, s)
     }"

section \<open>Receiving\<close>

text \<open>The octets of the \<open>n\<close>-th call of \<open>recv\<close> are numbered from \<open>32768 * n\<close> on.\<close>

definition relpSessRcvData :: "relpSess \<Rightarrow> (relpRetVal \<times> relpSess) option" where
  "relpSessRcvData s =
     (let t = pTcp s; s1 = s\<lparr>pTcp := t\<lparr>recvNo := recvNo t + 1\<rparr>\<rparr>
      in case osRecv t (recvNo t) of
          ConnClosed \<Rightarrow> Some (RELP_RET_SESSION_BROKEN, s1\<lparr>sessState := eRelpSessState_BROKEN\<rparr>)
        | RecvError \<Rightarrow> Some (RELP_RET_SESSION_BROKEN, s1\<lparr>sessState := eRelpSessState_BROKEN\<rparr>)
        | WouldBlock \<Rightarrow> Some (RELP_RET_OK, s1)
        | Received buf \<Rightarrow> do {
            (r, fr, s2) \<leftarrow> rcvOctets relpEngineDispatchFrame (memFrame s) (32768 * recvNo t) (take 32768 buf)
                             (pCurrRcvFrame s1) s1;
            Some (r, s2\<lparr>pCurrRcvFrame := fr\<rparr>)
          })"

section \<open>Waiting, sending commands, connecting\<close>

partial_function (option) waitLoop :: "relpSessState \<Rightarrow> relpSess \<Rightarrow> (relpRetVal \<times> relpSess) option" where
  "waitLoop stateExpected s =
     (let n = waitNo s; s1 = s\<lparr>waitNo := n + 1\<rparr>
      in if osStop s (2 * n) then Some (RELP_RET_OK, s1)
         else if osDeadline s n then Some (RELP_RET_TIMED_OUT, s1)
         else if osPollErr s n then Some (RELP_RET_SESSION_BROKEN, s1)
         else if osStop s (2 * n + 1) then Some (RELP_RET_OK, s1)
         else do {
           (r, s2) \<leftarrow> relpSessRcvData s1;
           if r \<noteq> RELP_RET_OK then Some (r, s2)
           else if sessState s2 = stateExpected \<or> sessState s2 = eRelpSessState_BROKEN then Some (RELP_RET_OK, s2)
           else waitLoop stateExpected s2
         })"

definition relpSessWaitState :: "relpSessState \<Rightarrow> relpSess \<Rightarrow> (relpRetVal \<times> relpSess) option" where
  "relpSessWaitState stateExpected s =
     do {
       (r0, s0) \<leftarrow> relpSessRcvData s;
       (r, s1) \<leftarrow> (if r0 \<noteq> RELP_RET_OK \<and> r0 \<noteq> RELP_RET_SESSION_BROKEN then Some (r0, s0)
                   else if sessState s0 = stateExpected \<or> sessState s0 = eRelpSessState_BROKEN then Some (RELP_RET_OK, s0)
                   else waitLoop stateExpected s0);
       Some (r, if r = RELP_RET_TIMED_OUT \<or> r = RELP_RET_SESSION_BROKEN \<or> osStop s1 (2 * waitNo s1)
                then s1\<lparr>sessState := eRelpSessState_BROKEN\<rparr> else s1)
     }"

definition relpSessCltConnChkOffers :: "relpSess \<Rightarrow> relpRetVal \<times> relpSess" where
  "relpSessCltConnChkOffers s =
     (if stateCmdSyslog s = eRelpCmdState_Required
      then (RELP_RET_RQD_FEAT_MISSING, s\<lparr>sessState := eRelpSessState_BROKEN\<rparr>) else (RELP_RET_OK, s))"

text \<open>
  Connecting: creating and connecting the socket is one answer of the operating system,
  the session parameters for TLS and the saved address are left out.
\<close>

definition relpSessConnect :: "relpSess \<Rightarrow> (relpRetVal \<times> relpSess) option" where
  "relpSessConnect s =
     (let s1 = (relpSessFixCmdStates s)\<lparr>pCurrRcvFrame := None, sessTxnr := 1, sessType := eRelpSess_Client,
                  connNo := connNo s + 1\<rparr>;
          (r, t) = osConnect s (connNo s);
          s2 = s1\<lparr>pTcp := t\<rparr>
      in if r \<noteq> RELP_RET_OK then Some (r, s2)
         else (let s3 = s2\<lparr>sessState := eRelpSessState_PRE_INIT\<rparr>
               in do {
                 (r, offers) \<leftarrow> relpSessConstructOffers (memAt s3) s3;
                 let s4 = s3\<lparr>memNo := memNo s3 + 9\<rparr>;
                 if r \<noteq> RELP_RET_OK then Some (r, s4)
                 else do {
                   (r, txt) \<leftarrow> relpOffersToString (memAt s4) offers None;
                   let s5 = s4\<lparr>memNo := memNo s4 + 64\<rparr>;
                   if r \<noteq> RELP_RET_OK then Some (r, s5)
                   else if None \<in> set txt then None
                   else chkRet (relpSessRawSendCommand (lit ''open'') (map the txt) CBrspOpen s5)
                     (\<lambda>s. chkRet (relpSessWaitState eRelpSessState_INIT_RSP_RCVD (s\<lparr>sessState := eRelpSessState_INIT_CMD_SENT\<rparr>))
                     (\<lambda>s. chkRet (Some (relpSessCltConnChkOffers s))
                     (\<lambda>s. Some (RELP_RET_OK, s\<lparr>sessState := eRelpSessState_READY_TO_SEND\<rparr>))))
                 }
               }))"

text \<open>Sending again what was not acknowledged.\<close>

fun resendLoop :: "ptr list \<Rightarrow> relpSess \<Rightarrow> (relpRetVal \<times> relpSess) option" where
  "resendLoop [] s = Some (RELP_RET_OK, s)"
| "resendLoop (p # ps) s =
     do {
       sb \<leftarrow> sendbufs s p;
       (r, sb1) \<leftarrow> relpFrameRewriteTxnr sb (sessTxnr s);
       let s1 = s\<lparr>sendbufs := (sendbufs s)(p \<mapsto> sb1)\<rparr>;
       if r \<noteq> RELP_RET_OK then Some (r, s1)
       else chkRet (relpSendbufSendAll p False
                      (s1\<lparr>sessTxnr := relpEngineNextTXNR (sessTxnr s1), sendbufs := (sendbufs s1)(p \<mapsto> sb1\<lparr>bufPtr := 0\<rparr>)\<rparr>))
                   (\<lambda>s. resendLoop ps s)
     }"

definition relpSessTryReestablish :: "relpSess \<Rightarrow> (relpRetVal \<times> relpSess) option" where
  "relpSessTryReestablish s =
     (if sessState s \<noteq> eRelpSessState_BROKEN then None
      else chkRet (relpSessConnect s) (\<lambda>s. resendLoop (unackedLst s) s))"

definition relpSessSendCommand :: "byte list \<Rightarrow> byte list \<Rightarrow> rspHdlr \<Rightarrow> relpSess \<Rightarrow> (relpRetVal \<times> relpSess) option" where
  "relpSessSendCommand c d hdlr s =
     chkRet (relpSessWaitState eRelpSessState_READY_TO_SEND s)
       (\<lambda>s. chkRet (if bAutoRetry s \<and> sessState s = eRelpSessState_BROKEN then relpSessTryReestablish s else Some (RELP_RET_OK, s))
       (\<lambda>s. if sessState s = eRelpSessState_BROKEN then Some (RELP_RET_SESSION_BROKEN, s)
            else relpSessRawSendCommand c d hdlr s))"

definition relpSessSendSyslog :: "byte list \<Rightarrow> relpSess \<Rightarrow> (relpRetVal \<times> relpSess) option" where
  "relpSessSendSyslog msg s =
     (if stateCmdSyslog s \<noteq> eRelpCmdState_Enabled then Some (RELP_RET_CMD_DISABLED, s)
      else relpSessSendCommand (lit ''syslog'') msg NoHdlr s)"

definition relpSessCltDoDisconnect :: "relpSess \<Rightarrow> (relpRetVal \<times> relpSess) option" where
  "relpSessCltDoDisconnect s =
     do {
       (_, s0) \<leftarrow> relpSessWaitState eRelpSessState_READY_TO_SEND s;
       chkRet (relpSessRawSendCommand (lit ''close'') [] CBrspClose s0)
         (\<lambda>s. chkRet (relpSessWaitState eRelpSessState_CLOSE_RSP_RCVD (s\<lparr>sessState := eRelpSessState_CLOSE_CMD_SENT\<rparr>))
         (\<lambda>s. Some (RELP_RET_OK, s\<lparr>sessState := eRelpSessState_DISCONNECTED\<rparr>)))
     }"

end
