(* ===== verification/RelpSend.thy ===== *)
theory RelpSend
  imports RelpCmd
begin

text \<open>
  What the two ways of sending do: the queue of a server and the blocking send of a client put
  exactly the bytes of a sendbuf on the wire, however the operating system cuts them.
\<close>

section \<open>Sendbufs and their bytes\<close>

definition sendable :: "relpSendbuf \<Rightarrow> byte list \<Rightarrow> bool" where
  "sendable sb bs \<longleftrightarrow> sbLenData sb = bufPtr sb + length bs \<and>
     (\<exists>d. sbData sb = Some d \<and> 9 - sbLenTxnr sb + bufPtr sb + length bs \<le> length d \<and>
          take (length bs) (drop (9 - sbLenTxnr sb + bufPtr sb) d) = map Some bs)"

lemma sendable_window: "sendable sb bs \<Longrightarrow> sendWindow sb (length bs) = Some (map Some bs)"
  by (auto simp: sendable_def sendWindow_def)

lemma sendable_advance:
  assumes "sendable sb bs" "k \<le> length bs"
  shows "sendable (sb\<lparr>bufPtr := bufPtr sb + k\<rparr>) (drop k bs)"
proof -
  obtain d where d: "sbData sb = Some d" "9 - sbLenTxnr sb + bufPtr sb + length bs \<le> length d"
    "take (length bs) (drop (9 - sbLenTxnr sb + bufPtr sb) d) = map Some bs"
    using assms(1) by (auto simp: sendable_def)
  let ?o = "9 - sbLenTxnr sb + bufPtr sb"
  have "take (length bs - k) (drop (?o + k) d) = drop k (take (length bs) (drop ?o d))"
    by (simp add: drop_take add.commute)
  also have "\<dots> = map Some (drop k bs)" using d(3) by (simp add: drop_map)
  finally show ?thesis using assms d by (auto simp: sendable_def add.assoc)
qed

lemma built_sendable: "built sb t c d hdlr \<Longrightarrow> bufPtr sb = 0 \<Longrightarrow> sendable sb (frame_bytes t c d)"
  by (auto simp: built_def sendable_def)

text \<open>
  The sockets of a connection that lives: no \<open>send\<close> fails, and after every one there is one that
  takes at least one byte. \<open>same_os\<close> is the same socket later.
\<close>

definition tcp_live :: "relpTcp \<Rightarrow> bool" where
  "tcp_live t \<longleftrightarrow> (\<forall>n. osSend t n \<noteq> SendError) \<and> (\<forall>n. \<exists>m \<ge> n. \<exists>k > 0. osSend t m = Wrote k)"

definition same_os :: "relpTcp \<Rightarrow> relpTcp \<Rightarrow> bool" where
  "same_os t t' \<longleftrightarrow> t' = t\<lparr>sendNo := sendNo t', wire := wire t'\<rparr>"

lemma same_os_refl [simp]: "same_os t t"
  by (simp add: same_os_def)

lemma same_os_trans: "same_os t t' \<Longrightarrow> same_os t' t'' \<Longrightarrow> same_os t t''"
  by (cases t; cases t'; cases t'') (simp add: same_os_def)

lemma same_os_live: "same_os t t' \<Longrightarrow> tcp_live t \<Longrightarrow> tcp_live t'"
  by (cases t; cases t') (simp add: same_os_def tcp_live_def)

lemma same_osD: "same_os t t' \<Longrightarrow> osSend t' = osSend t \<and> osWait t' = osWait t \<and> osExpired t' = osExpired t \<and>
    osRecv t' = osRecv t \<and> recvNo t' = recvNo t"
  by (cases t; cases t') (simp add: same_os_def)

definition progress_at :: "relpTcp \<Rightarrow> nat \<Rightarrow> bool" where
  "progress_at t m \<longleftrightarrow> (\<exists>k > 0. osSend t m = Wrote k)"

lemma live_progress: "tcp_live t \<Longrightarrow> \<exists>m \<ge> n. progress_at t m"
  by (simp add: tcp_live_def progress_at_def)

lemma tcpSend_live:
  assumes "osSend t (sendNo t) \<noteq> SendError"
  obtains k t' where "relpTcpSend t (map Some bs) = Some (RELP_RET_OK, k, t')" "k \<le> length bs" "same_os t t'"
    "sendNo t' = Suc (sendNo t)" "wire t' = wire t @ take k bs" "bs \<noteq> [] \<Longrightarrow> progress_at t (sendNo t) \<Longrightarrow> 0 < k"
proof (cases "osSend t (sendNo t)")
  case (Wrote n)
  show ?thesis
    by (rule that [of "min n (length bs)" "t\<lparr>sendNo := sendNo t + 1, wire := wire t @ take (min n (length bs)) bs\<rparr>"])
      (auto simp: relpTcpSend_def Wrote Let_def take_map [symmetric] same_os_def progress_at_def o_def)
next
  case TryAgain
  show ?thesis
    by (rule that [of 0 "t\<lparr>sendNo := sendNo t + 1\<rparr>"]) (auto simp: relpTcpSend_def TryAgain same_os_def progress_at_def)
qed (use assms in simp)

section \<open>The queue\<close>

definition sendq_end :: "relpSess \<Rightarrow> ptr \<Rightarrow> relpTcp \<Rightarrow> relpSess" where
  "sendq_end s p t = s\<lparr>pSendq := [], sendbufs := (sendbufs s)(p := None), pTcp := t\<rparr>"

lemma sendq_end_upd: "sendq_end (s\<lparr>pTcp := t, sendbufs := (sendbufs s)(p \<mapsto> x)\<rparr>) p t' = sendq_end s p t'"
  by (simp add: sendq_end_def)

text \<open>\<open>d\<close> is the number of \<open>send\<close> calls up to one that takes at least a byte.\<close>

lemma sendq_aux:
  assumes "pSendq s = [p]" "sendbufs s p = Some sb" "sendable sb bs" "bs \<noteq> []" "tcp_live (pTcp s)"
    "sendNo (pTcp s) + d = m" "progress_at (pTcp s) m"
  shows "\<exists>t'. relpSendqSend s = Some (RELP_RET_OK, sendq_end s p t') \<and>
    same_os (pTcp s) t' \<and> wire t' = wire (pTcp s) @ bs"
  using assms
proof (induction "length bs" arbitrary: bs d s sb m rule: less_induct)
  case less
  note outer = less.hyps
  from less.prems show ?case
  proof (induction d arbitrary: s sb rule: less_induct)
    case (less d)
    let ?t = "pTcp s"
    obtain k t' where k: "relpTcpSend ?t (map Some bs) = Some (RELP_RET_OK, k, t')" "k \<le> length bs" "same_os ?t t'"
      "sendNo t' = Suc (sendNo ?t)" "wire t' = wire ?t @ take k bs" "progress_at ?t (sendNo ?t) \<Longrightarrow> 0 < k"
      using tcpSend_live [of ?t bs] less.prems(4,5) by (auto simp: tcp_live_def)
    have len: "sbLenData sb - bufPtr sb = length bs" using less.prems(3) by (simp add: sendable_def)
    let ?s1 = "s\<lparr>pTcp := t', sendbufs := (sendbufs s)(p \<mapsto> sb\<lparr>bufPtr := bufPtr sb + k\<rparr>)\<rparr>"
    have live: "tcp_live t'" using same_os_live [OF k(3) less.prems(5)] .
    have send: "relpSendbufSend p s = Some (if k = length bs then (RELP_RET_OK, s\<lparr>pTcp := t'\<rparr>) else (RELP_RET_PARTIAL_WRITE, ?s1))"
      using less.prems(2) len sendable_window [OF less.prems(3)] k(1) by (simp add: relpSendbufSend_def Let_def)
    have upd: "sendq_end ?s1 p x = sendq_end s p x" for x by (rule sendq_end_upd)
    show ?case
    proof (cases "k = length bs")
      case True
      have "relpSendqSend s = Some (RELP_RET_OK, sendq_end s p t')"
        using send less.prems(1,2) True
        by (subst relpSendqSend.simps) (simp add: relpSendqDelFirstBuf_def relpSendbufDestruct_def relpSendqSend.simps sendq_end_def)
      then show ?thesis using k True by auto
    next
      case False
      then have step: "relpSendqSend s = relpSendqSend ?s1" using send less.prems(1) by (subst relpSendqSend.simps) simp
      have sb': "sendable (sb\<lparr>bufPtr := bufPtr sb + k\<rparr>) (drop k bs)" by (rule sendable_advance [OF less.prems(3) k(2)])
      have os: "osSend t' = osSend ?t" using same_osD [OF k(3)] by simp
      show ?thesis
      proof (cases "k = 0")
        case True
        have "\<not> progress_at ?t (sendNo ?t)" using k(6) True by auto
        then obtain d' where d: "d = Suc d'" using less.prems(6,7) by (cases d) auto
        have "\<exists>t''. relpSendqSend ?s1 = Some (RELP_RET_OK, sendq_end ?s1 p t'') \<and> same_os (pTcp ?s1) t'' \<and>
            wire t'' = wire (pTcp ?s1) @ bs"
          by (rule less.IH [of d' ?s1 "sb\<lparr>bufPtr := bufPtr sb + k\<rparr>"])
            (use True d less.prems sb' live k(4) os in \<open>auto simp: progress_at_def\<close>)
        then show ?thesis using step k(3,5) True unfolding upd by (auto dest: same_os_trans)
      next
        case k0: False
        obtain m where m: "m \<ge> Suc (sendNo ?t)" "progress_at t' m" using live_progress [OF live] by blast
        then have "sendNo (pTcp ?s1) + (m - Suc (sendNo ?t)) = m" using k(4) by simp
        from outer [of "drop k bs" ?s1 "sb\<lparr>bufPtr := bufPtr sb + k\<rparr>", OF _ _ _ sb' _ _ this] k0 False k(2) less.prems(1) live m
        have "\<exists>t''. relpSendqSend ?s1 = Some (RELP_RET_OK, sendq_end ?s1 p t'') \<and> same_os (pTcp ?s1) t'' \<and>
            wire t'' = wire (pTcp ?s1) @ drop k bs" by simp
        then show ?thesis using step k(3,5) unfolding upd by (auto dest: same_os_trans)
      qed
    qed
  qed
qed

lemma sendq_one:
  assumes "pSendq s = [p]" "sendbufs s p = Some sb" "sendable sb bs" "bs \<noteq> []" "tcp_live (pTcp s)"
  shows "\<exists>t'. relpSendqSend s = Some (RELP_RET_OK, sendq_end s p t') \<and>
    same_os (pTcp s) t' \<and> wire t' = wire (pTcp s) @ bs"
proof -
  obtain m where "m \<ge> sendNo (pTcp s)" "progress_at (pTcp s) m" using live_progress [OF assms(5)] by blast
  then show ?thesis using sendq_aux [OF assms, of "m - sendNo (pTcp s)" m] by simp
qed

section \<open>Answers\<close>

text \<open>A session that differs only in what sending changes, with some more bytes on the wire.\<close>

definition sent :: "relpSess \<Rightarrow> relpSess \<Rightarrow> byte list \<Rightarrow> bool" where
  "sent s s' bs \<longleftrightarrow> (\<exists>t h k j. s' = s\<lparr>pTcp := t, sendbufs := h, memNo := k, nextSendbuf := j\<rparr> \<and> same_os (pTcp s) t \<and>
     wire t = wire (pTcp s) @ bs \<and> nextSendbuf s \<le> j \<and> (\<forall>p < nextSendbuf s. h p = sendbufs s p))"

lemma sent_fields:
  assumes "sent s s' bs"
  shows "wire (pTcp s') = wire (pTcp s) @ bs" "same_os (pTcp s) (pTcp s')" "delivered s' = delivered s"
    "sessTxnr s' = sessTxnr s" "sessState s' = sessState s" "stateCmdSyslog s' = stateCmdSyslog s"
    "bServerConnOpen s' = bServerConnOpen s" "pSendq s' = pSendq s" "unackedLst s' = unackedLst s"
    "memOK s' = memOK s" "pSrv s' = pSrv s" "onSyslog s' = onSyslog s" "sessType s' = sessType s"
    "maxDataSize s' = maxDataSize s" "memFrame s' = memFrame s"
  using assms by (auto simp: sent_def)

lemma sent_trans: "sent s s1 a \<Longrightarrow> sent s1 s2 b \<Longrightarrow> sent s s2 (a @ b)"
  unfolding sent_def
proof (elim exE conjE, goal_cases)
  case (1 t t2 h h2 k k2 j j2)
  then show ?case
    by (intro exI [of _ t2] exI [of _ h2] exI [of _ k2] exI [of _ j2]) (auto intro: same_os_trans)
qed

definition mem_ok :: "relpSess \<Rightarrow> bool" where
  "mem_ok s \<longleftrightarrow> (\<forall>n. memOK s n)"

lemma newSendbuf_ok:
  assumes "mem_ok s" "length (numtxt t) \<le> 9" "length c < 4294967296" "length d < 1000000000"
  obtains sb where "newSendbuf t c d hdlr s = Some (RELP_RET_OK, Some (nextSendbuf s), s\<lparr>memNo := memNo s + 2,
      sendbufs := (sendbufs s)(nextSendbuf s \<mapsto> sb), nextSendbuf := nextSendbuf s + 1\<rparr>)"
    "built sb t c d hdlr" "bufPtr sb = 0"
  using build_built [OF assms(2-4), of hdlr] assms(1) by (auto simp: newSendbuf_def Let_def mem_ok_def)

lemma frame_bytes_ne: "frame_bytes t c d \<noteq> []"
  by (simp add: frame_bytes_def)

lemma sendResponse_ok:
  assumes m: "mem_ok s" and l: "tcp_live (pTcp s)" and q: "pSendq s = []"
    and t: "length (numtxt t) \<le> 9" and d: "length d < 1000000000"
  shows "\<exists>s'. relpSessSendResponse t d s = Some (RELP_RET_OK, s') \<and> sent s s' (frame_bytes t (lit ''rsp'') d)"
proof -
  let ?p = "nextSendbuf s" and ?F = "frame_bytes t (lit ''rsp'') d"
  obtain sb where n: "newSendbuf t (lit ''rsp'') d NoHdlr s = Some (RELP_RET_OK, Some ?p, s\<lparr>memNo := memNo s + 2,
      sendbufs := (sendbufs s)(?p \<mapsto> sb), nextSendbuf := ?p + 1\<rparr>)" and sb: "built sb t (lit ''rsp'') d NoHdlr" "bufPtr sb = 0"
    by (rule newSendbuf_ok [OF m t _ d, of "lit ''rsp''"]) (simp_all add: lit_def)
  let ?s1 = "s\<lparr>sendbufs := (sendbufs s)(?p \<mapsto> sb), nextSendbuf := ?p + 1, memNo := memNo s + 2 + 1, pSendq := [?p]\<rparr>"
  obtain t' where t': "relpSendqSend ?s1 = Some (RELP_RET_OK, sendq_end ?s1 ?p t')" "same_os (pTcp s) t'"
    "wire t' = wire (pTcp s) @ ?F"
    using sendq_one [of ?s1 ?p sb ?F] built_sendable [OF sb] frame_bytes_ne l by auto
  have "relpSessSendResponse t d s = Some (RELP_RET_OK, sendq_end ?s1 ?p t')"
    using n m q t'(1) by (simp add: relpSessSendResponse_def relpSendqAddBuf_def Let_def mem_ok_def)
  moreover have "sent s (sendq_end ?s1 ?p t') ?F"
    unfolding sent_def
    by (intro exI [of _ t'] exI [of _ "(sendbufs s)(?p := None)"] exI [of _ "memNo s + 2 + 1"] exI [of _ "?p + 1"])
      (use t' q in \<open>simp add: sendq_end_def\<close>)
  ultimately show ?thesis by blast
qed

section \<open>A peer that takes nothing\<close>

text \<open>The first sendbuf of the queue has bytes left and no \<open>send\<close> from now on takes any.\<close>

definition stuck :: "relpSess \<Rightarrow> bool" where
  "stuck s \<longleftrightarrow> (\<exists>p q sb bs. pSendq s = p # q \<and> sendbufs s p = Some sb \<and> sendable sb bs \<and> bs \<noteq> []) \<and>
     (\<forall>n. osSend (pTcp s) n \<noteq> SendError) \<and> (\<forall>n \<ge> sendNo (pTcp s). \<not> progress_at (pTcp s) n)"

lemma stuck_step:
  assumes "stuck s"
  obtains p q s1 where "pSendq s = p # q" "relpSendbufSend p s = Some (RELP_RET_PARTIAL_WRITE, s1)" "stuck s1"
proof -
  obtain p q sb bs where s: "pSendq s = p # q" "sendbufs s p = Some sb" "sendable sb bs" "bs \<noteq> []"
    using assms by (auto simp: stuck_def)
  let ?t = "pTcp s"
  have e: "\<forall>n. osSend ?t n \<noteq> SendError" and np: "\<not> progress_at ?t (sendNo ?t)" using assms by (auto simp: stuck_def)
  define t' where "t' = ?t\<lparr>sendNo := sendNo ?t + 1\<rparr>"
  have "None \<notin> set (map Some bs)" by auto
  then have k: "relpTcpSend ?t (map Some bs) = Some (RELP_RET_OK, 0, t')"
    using e [rule_format, of "sendNo ?t"] np
    by (cases "osSend ?t (sendNo ?t)") (auto simp: relpTcpSend_def progress_at_def t'_def simp del: set_map)
  have len: "sbLenData sb - bufPtr sb = length bs" using s(3) by (simp add: sendable_def)
  let ?s1 = "s\<lparr>pTcp := t', sendbufs := (sendbufs s)(p \<mapsto> sb\<lparr>bufPtr := bufPtr sb + 0\<rparr>)\<rparr>"
  have "relpSendbufSend p s = Some (RELP_RET_PARTIAL_WRITE, ?s1)"
    using s len sendable_window [OF s(3)] k by (simp add: relpSendbufSend_def Let_def)
  moreover have "stuck ?s1" using assms s by (auto simp: stuck_def t'_def progress_at_def)
  ultimately show ?thesis using that s(1) by blast
qed

lemma sendq_stuck:
  assumes "stuck s"
  shows "relpSendqSend s = None"
proof (rule ccontr)
  assume "relpSendqSend s \<noteq> None"
  then obtain y where y: "relpSendqSend s = Some y" by blast
  have "\<not> stuck s" if "relpSendqSend s = Some y" for s y
  proof (rule relpSendqSend.raw_induct [OF _ that, where P = "\<lambda>s y. \<not> stuck s"], rule notI)
    fix loop s y
    assume IH: "\<And>s y. loop s = Some y \<Longrightarrow> \<not> stuck s" and st: "stuck s"
      and run: "(case pSendq s of [] \<Rightarrow> Some (RELP_RET_OK, s)
        | p # q \<Rightarrow> Option.bind (relpSendbufSend p s) (\<lambda>(localRet, s1).
            if localRet = RELP_RET_OK then Option.bind (relpSendqDelFirstBuf s1) loop
            else if localRet \<noteq> RELP_RET_PARTIAL_WRITE then Some (localRet, s1) else loop s1)) = Some y"
    obtain p q s1 where "pSendq s = p # q" "relpSendbufSend p s = Some (RELP_RET_PARTIAL_WRITE, s1)" "stuck s1"
      using stuck_step [OF st] .
    then show False using run IH by auto
  qed
  then show False using assms y by blast
qed

section \<open>The blocking send\<close>

definition patient :: "relpTcp \<Rightarrow> bool" where
  "patient t \<longleftrightarrow> (\<forall>n. osWait t n) \<and> (\<forall>n. \<not> osExpired t n)"

definition sendall_end :: "relpSess \<Rightarrow> ptr \<Rightarrow> relpSendbuf \<Rightarrow> relpTcp \<Rightarrow> relpSess" where
  "sendall_end s p sb t = s\<lparr>pTcp := t, sendbufs := (sendbufs s)(p \<mapsto> sb)\<rparr>"

lemma sendall_end_twice: "sendall_end (sendall_end s p sb t) p sb' t' = sendall_end s p sb' t'"
  by (simp add: sendall_end_def)

text \<open>One round of the loop.\<close>

lemma sendAll_step:
  assumes sb: "sendbufs s p = Some sb" "sendable sb bs" "bs \<noteq> []" and e: "osSend (pTcp s) (sendNo (pTcp s)) \<noteq> SendError"
  obtains k t' where "k \<le> length bs" "same_os (pTcp s) t'" "sendNo t' = Suc (sendNo (pTcp s))"
    "wire t' = wire (pTcp s) @ take k bs" "progress_at (pTcp s) (sendNo (pTcp s)) \<Longrightarrow> 0 < k"
    "sendAllLoop p (length bs) s =
       (if k = 0 \<and> \<not> osWait t' (sendNo t') then Some (RELP_RET_IO_ERR, s\<lparr>pTcp := t'\<rparr>)
        else if k = length bs then Some (RELP_RET_OK, sendall_end s p sb t')
        else let s2 = sendall_end s p (sb\<lparr>bufPtr := bufPtr sb + k\<rparr>) t'
             in if osExpired t' (sendNo t') then Some (RELP_RET_IO_ERR, s2) else sendAllLoop p (length bs - k) s2)"
proof -
  obtain k t' where k: "relpTcpSend (pTcp s) (map Some bs) = Some (RELP_RET_OK, k, t')" "k \<le> length bs" "same_os (pTcp s) t'"
    "sendNo t' = Suc (sendNo (pTcp s))" "wire t' = wire (pTcp s) @ take k bs" "progress_at (pTcp s) (sendNo (pTcp s)) \<Longrightarrow> 0 < k"
    using tcpSend_live [OF e, of bs] sb(3) by metis
  have len: "sbLenData sb = bufPtr sb + length bs" using sb(2) by (simp add: sendable_def)
  have "sendAllLoop p (length bs) s =
       (if k = 0 \<and> \<not> osWait t' (sendNo t') then Some (RELP_RET_IO_ERR, s\<lparr>pTcp := t'\<rparr>)
        else if k = length bs then Some (RELP_RET_OK, sendall_end s p sb t')
        else let s2 = sendall_end s p (sb\<lparr>bufPtr := bufPtr sb + k\<rparr>) t'
             in if osExpired t' (sendNo t') then Some (RELP_RET_IO_ERR, s2) else sendAllLoop p (length bs - k) s2)"
    using k(1,2) sb len sendable_window [OF sb(2)]
    by (subst sendAllLoop.simps) (auto simp: Let_def sendall_end_def sendAllLoop.simps [of p 0])
  with that [of k t'] k(2-6) show ?thesis by blast
qed

lemma sendall_end_fields [simp]:
  "pTcp (sendall_end s p sb t) = t" "sendbufs (sendall_end s p sb t) p = Some sb"
  by (simp_all add: sendall_end_def)

lemma sendAll_aux:
  assumes "sendbufs s p = Some sb" "sendable sb bs" "bs \<noteq> []" "tcp_live (pTcp s)" "patient (pTcp s)"
    "sendNo (pTcp s) + d = m" "progress_at (pTcp s) m"
  shows "\<exists>t' k. sendAllLoop p (length bs) s = Some (RELP_RET_OK, sendall_end s p (sb\<lparr>bufPtr := k\<rparr>) t') \<and>
    same_os (pTcp s) t' \<and> wire t' = wire (pTcp s) @ bs"
  using assms
proof (induction "length bs" arbitrary: bs d s sb m rule: less_induct)
  case less
  note outer = less.hyps
  from less.prems show ?case
  proof (induction d arbitrary: s sb rule: less_induct)
    case (less d)
    let ?t = "pTcp s"
    have e: "osSend ?t (sendNo ?t) \<noteq> SendError" using less.prems(4) by (simp add: tcp_live_def)
    obtain k t' where k: "k \<le> length bs" "same_os ?t t'" "sendNo t' = Suc (sendNo ?t)" "wire t' = wire ?t @ take k bs"
      "progress_at ?t (sendNo ?t) \<Longrightarrow> 0 < k"
      "sendAllLoop p (length bs) s =
       (if k = 0 \<and> \<not> osWait t' (sendNo t') then Some (RELP_RET_IO_ERR, s\<lparr>pTcp := t'\<rparr>)
        else if k = length bs then Some (RELP_RET_OK, sendall_end s p sb t')
        else let s2 = sendall_end s p (sb\<lparr>bufPtr := bufPtr sb + k\<rparr>) t'
             in if osExpired t' (sendNo t') then Some (RELP_RET_IO_ERR, s2) else sendAllLoop p (length bs - k) s2)"
      using sendAll_step [OF less.prems(1-3) e] by metis
    let ?s1 = "sendall_end s p (sb\<lparr>bufPtr := bufPtr sb + k\<rparr>) t'" and ?sb = "sb\<lparr>bufPtr := bufPtr sb + k\<rparr>"
    have os: "osSend t' = osSend ?t" "patient t'" "tcp_live t'"
      using same_osD [OF k(2)] less.prems(4,5) same_os_live [OF k(2)] by (auto simp: patient_def)
    show ?case
    proof (cases "k = length bs")
      case True
      then show ?thesis using k os less.prems(3) by (intro exI [of _ t'] exI [of _ "bufPtr sb"]) (simp add: patient_def)
    next
      case False
      then have step: "sendAllLoop p (length bs) s = sendAllLoop p (length (drop k bs)) ?s1"
        using k(6) os(2) by (simp add: Let_def patient_def)
      have sb': "sendable ?sb (drop k bs)" by (rule sendable_advance [OF less.prems(2) k(1)])
      show ?thesis
      proof (cases "k = 0")
        case True
        have "\<not> progress_at ?t (sendNo ?t)" using k(5) True by auto
        then obtain d' where d: "d = Suc d'" using less.prems(6,7) by (cases d) auto
        have "\<exists>t'' j. sendAllLoop p (length bs) ?s1 = Some (RELP_RET_OK, sendall_end ?s1 p (?sb\<lparr>bufPtr := j\<rparr>) t'') \<and>
            same_os (pTcp ?s1) t'' \<and> wire t'' = wire (pTcp ?s1) @ bs"
          by (rule less.IH [of d' ?s1 ?sb])
            (use True d less.prems sb' os k(3) in \<open>auto simp: progress_at_def\<close>)
        then show ?thesis using step k(2,4) True by (auto simp: sendall_end_twice dest: same_os_trans)
      next
        case k0: False
        obtain m where m: "m \<ge> Suc (sendNo ?t)" "progress_at t' m" using live_progress [OF os(3)] by blast
        then have "sendNo (pTcp ?s1) + (m - Suc (sendNo ?t)) = m" using k(3) by simp
        from outer [of "drop k bs" ?s1 ?sb, OF _ _ sb' _ _ _ this] k0 False k(1) m os
        have "\<exists>t'' j. sendAllLoop p (length (drop k bs)) ?s1 = Some (RELP_RET_OK, sendall_end ?s1 p (?sb\<lparr>bufPtr := j\<rparr>) t'') \<and>
            same_os (pTcp ?s1) t'' \<and> wire t'' = wire (pTcp ?s1) @ drop k bs" by simp
        then show ?thesis using step k(2,4) by (auto simp: sendall_end_twice dest: same_os_trans)
      qed
    qed
  qed
qed

lemma sendAll_ok:
  assumes "sendbufs s p = Some sb" "sendable sb bs" "bs \<noteq> []" "tcp_live (pTcp s)" "patient (pTcp s)"
  shows "\<exists>t' k. sendAllLoop p (length bs) s = Some (RELP_RET_OK, sendall_end s p (sb\<lparr>bufPtr := k\<rparr>) t') \<and>
    same_os (pTcp s) t' \<and> wire t' = wire (pTcp s) @ bs"
proof -
  obtain m where "m \<ge> sendNo (pTcp s)" "progress_at (pTcp s) m" using live_progress [OF assms(4)] by blast
  then show ?thesis using sendAll_aux [OF assms, of "m - sendNo (pTcp s)" m] by simp
qed

text \<open>Whatever the operating system answers: a deadline that passes ends the loop.\<close>

lemma sendAll_deadline:
  assumes "sendbufs s p = Some sb" "sendable sb bs" "\<forall>n \<ge> N. osExpired (pTcp s) n"
  shows "\<exists>r s' n. sendAllLoop p (length bs) s = Some (r, s') \<and> r \<in> {RELP_RET_OK, RELP_RET_IO_ERR} \<and> n \<le> length bs \<and>
    wire (pTcp s') = wire (pTcp s) @ take n bs \<and> (r = RELP_RET_OK \<longrightarrow> n = length bs) \<and> sendbufs s' p \<noteq> None"
  using assms
proof (induction "N - sendNo (pTcp s)" arbitrary: s sb bs rule: less_induct)
  case less
  let ?t = "pTcp s"
  consider (empty) "bs = []" | (err) "bs \<noteq> []" "osSend ?t (sendNo ?t) = SendError" | (ok) "bs \<noteq> []" "osSend ?t (sendNo ?t) \<noteq> SendError"
    by blast
  then show ?case
  proof cases
    case empty
    then show ?thesis using less.prems by (simp add: sendAllLoop.simps)
  next
    case err
    have "None \<notin> set (map Some bs)" by auto
    then show ?thesis using less.prems(1) sendable_window [OF less.prems(2)] err
      by (subst sendAllLoop.simps) (simp add: relpTcpSend_def Let_def exI [of _ 0] del: set_map)
  next
    case ok
    obtain k t' where k: "k \<le> length bs" "same_os ?t t'" "sendNo t' = Suc (sendNo ?t)" "wire t' = wire ?t @ take k bs"
      "sendAllLoop p (length bs) s =
       (if k = 0 \<and> \<not> osWait t' (sendNo t') then Some (RELP_RET_IO_ERR, s\<lparr>pTcp := t'\<rparr>)
        else if k = length bs then Some (RELP_RET_OK, sendall_end s p sb t')
        else let s2 = sendall_end s p (sb\<lparr>bufPtr := bufPtr sb + k\<rparr>) t'
             in if osExpired t' (sendNo t') then Some (RELP_RET_IO_ERR, s2) else sendAllLoop p (length bs - k) s2)"
      using sendAll_step [OF less.prems(1,2) ok] by metis
    let ?s1 = "sendall_end s p (sb\<lparr>bufPtr := bufPtr sb + k\<rparr>) t'" and ?sb = "sb\<lparr>bufPtr := bufPtr sb + k\<rparr>"
    have ex: "\<forall>n \<ge> N. osExpired t' n" using less.prems(3) same_osD [OF k(2)] by simp
    show ?thesis
    proof (cases "(k = 0 \<and> \<not> osWait t' (sendNo t')) \<or> k = length bs \<or> osExpired t' (sendNo t')")
      case True
      then show ?thesis using k less.prems(1) by (intro exI [of _ "fst (the (sendAllLoop p (length bs) s))"]
        exI [of _ "snd (the (sendAllLoop p (length bs) s))"] exI [of _ k]) (auto simp: Let_def)
    next
      case False
      then have step: "sendAllLoop p (length bs) s = sendAllLoop p (length (drop k bs)) ?s1"
        using k(5) by (cases "k = 0") (simp_all add: Let_def)
      have "sendNo t' < N" using False ex by (meson not_le)
      then have "N - sendNo (pTcp ?s1) < N - sendNo ?t" using k(3) by simp
      from less.hyps [OF this, of ?sb "drop k bs"] sendable_advance [OF less.prems(2) k(1)] ex obtain r s' n where
        i: "sendAllLoop p (length (drop k bs)) ?s1 = Some (r, s')" "r \<in> {RELP_RET_OK, RELP_RET_IO_ERR}"
        "n \<le> length (drop k bs)" "wire (pTcp s') = wire (pTcp ?s1) @ take n (drop k bs)"
        "r = RELP_RET_OK \<longrightarrow> n = length (drop k bs)" "sendbufs s' p \<noteq> None" by auto
      have "take (k + n) bs = take k bs @ take n (drop k bs)" by (simp add: take_add)
      then show ?thesis using i step k(1,4) by (intro exI [of _ r] exI [of _ s'] exI [of _ "k + n"]) auto
    qed
  qed
qed

end
