(* ===== verification/RelpServer.thy ===== *)
theory RelpServer
  imports RelpSend
begin

text \<open>
  The server of a RELP session: with memory and a living connection no received octet leads to
  undefined behaviour, and the messages of a client are handed over in their order and
  answered; what happens without memory, after a failed \<open>send\<close> and with a peer that stops reading.
\<close>

section \<open>The invariant of an open server session\<close>

definition srv_inv :: "relpSess \<Rightarrow> bool" where
  "srv_inv s \<longleftrightarrow> mem_ok s \<and> tcp_live (pTcp s) \<and> pSendq s = [] \<and> unackedLst s = [] \<and> bServerConnOpen s \<and>
     (\<exists>srv. pSrv s = Some srv \<and> oversizeMode srv \<in> {0, 1, 2})"

lemma sent_inv: "sent s s' bs \<Longrightarrow> srv_inv s \<Longrightarrow> srv_inv s'"
  using sent_fields [of s s' bs] same_os_live by (auto simp: srv_inv_def mem_ok_def)

lemma response_inv:
  assumes "srv_inv s" "0 \<le> t" "t < 1000000000" "length d < 1000000000"
  obtains s' where "relpSessSendResponse t d s = Some (RELP_RET_OK, s')" "sent s s' (frame_bytes t (lit ''rsp'') d)" "srv_inv s'"
proof -
  have "length (numtxt t) \<le> 9" using numtxt_nat_length [of "nat t" 9] assms(2,3) by simp
  then show ?thesis using that sendResponse_ok [of s t d] assms sent_inv unfolding srv_inv_def by blast
qed

lemma rsp_total:
  assumes "srv_inv s" "0 \<le> t" "t < 1000000000" "length d < 1000000000"
  shows "\<exists>s'. relpSessSendResponse t d s = Some (RELP_RET_OK, s') \<and> srv_inv s'"
  using response_inv [OF assms] by metis

section \<open>Every handler is defined\<close>

lemma frame_complete_data: "frame_complete f \<Longrightarrow> \<exists>d. frameData f = Some d"
  by (auto simp: frame_complete_def frameData_def)

lemma delivered_inv: "srv_inv (s\<lparr>delivered := x\<rparr>) = srv_inv s"
  by (simp add: srv_inv_def mem_ok_def)

lemma syslog_total:
  assumes "frame_complete f" "srv_inv s"
  shows "\<exists>r s'. relpSCSyslog f s = Some (r, s') \<and> srv_inv s'"
proof -
  have t: "0 \<le> txnr f" "txnr f < 1000000000" using assms(1) by (simp_all add: frame_complete_def)
  obtain d where d: "frameData f = Some d" using frame_complete_data [OF assms(1)] by blast
  show ?thesis
  proof (cases "stateCmdSyslog s = eRelpCmdState_Enabled")
    case False
    with rsp_total [OF assms(2) t, of "lit ''500 command disabled''"] show ?thesis
      by (auto simp: relpSCSyslog_def lit_def)
  next
    case True
    let ?s = "if onSyslog s = NoCallback then s else s\<lparr>delivered := delivered s @ [d]\<rparr>"
    have "srv_inv ?s" using assms(2) by (simp add: delivered_inv)
    from rsp_total [OF this t, of "lit ''200 OK''"] obtain s' where
      "relpSessSendResponse (txnr f) (lit ''200 OK'') ?s = Some (RELP_RET_OK, s')" "srv_inv s'" by (auto simp: lit_def)
    then show ?thesis using True d assms(2)
      by (cases "onSyslog s") (auto simp: relpSCSyslog_def srv_inv_def)
  qed
qed

text \<open>Reading the data of a complete frame never leaves it.\<close>

definition readable :: "relpFrame \<Rightarrow> bool" where
  "readable f \<longleftrightarrow> idxData f < lenData f \<longrightarrow> (\<exists>d. pData f = Some d \<and> lenData f \<le> length d \<and> None \<notin> set (take (lenData f) d))"

lemma nextC_total:
  assumes "readable f"
  shows "\<exists>r c' f'. nextC f c = Some (r, c', f') \<and> readable f' \<and> txnr f' = txnr f"
proof (cases "idxData f < lenData f")
  case True
  then obtain d where d: "pData f = Some d" "lenData f \<le> length d" "None \<notin> set (take (lenData f) d)"
    using assms by (auto simp: readable_def)
  then have "d ! idxData f \<in> set (take (lenData f) d)" using True by (auto simp: in_set_conv_nth)
  then obtain x where "d ! idxData f = Some x" using d(3) by (metis option.exhaust)
  then show ?thesis using True d by (auto simp: nextC_def relpFrameGetNextC_def rd_def readable_def)
qed (use assms in \<open>simp add: nextC_def relpFrameGetNextC_def\<close>)

lemma rspDigit_total: "readable f \<Longrightarrow> \<exists>r c f'. rspDigit n f = Some (r, c, f') \<and> readable f' \<and> txnr f' = txnr f"
  using nextC_total [of f 0] by (auto simp: rspDigit_def)

lemma rspText_total: "readable f \<Longrightarrow> \<exists>r f'. rspText i f = Some (r, f') \<and> readable f' \<and> txnr f' = txnr f"
proof (induction i f rule: rspText.induct)
  case (1 i f)
  obtain r c f' where n: "nextC f 0 = Some (r, c, f')" "readable f'" "txnr f' = txnr f" using nextC_total [OF 1(2)] by blast
  show ?case
  proof (cases "i < 80 \<and> r \<noteq> RELP_RET_END_OF_DATA \<and> r = RELP_RET_OK \<and> c \<noteq> 10")
    case True
    then show ?thesis using 1(1) [OF _ n(1) refl refl] n by (auto simp: rspText.simps [of i f])
  next
    case False
    then show ?thesis using n 1(2) by (auto simp: rspText.simps [of i f])
  qed
qed

lemma readRspHdr_total:
  assumes "readable f"
  shows "\<exists>r c f'. readRspHdr f = Some (r, c, f') \<and> readable f' \<and> txnr f' = txnr f"
proof -
  obtain r1 c1 f1 where 1: "rspDigit 0 f = Some (r1, c1, f1)" "readable f1" "txnr f1 = txnr f" using rspDigit_total [OF assms] by blast
  obtain r2 c2 f2 where 2: "rspDigit c1 f1 = Some (r2, c2, f2)" "readable f2" "txnr f2 = txnr f1" using rspDigit_total [OF 1(2)] by blast
  obtain r3 c3 f3 where 3: "rspDigit c2 f2 = Some (r3, c3, f3)" "readable f3" "txnr f3 = txnr f2" using rspDigit_total [OF 2(2)] by blast
  obtain r4 c4 f4 where 4: "nextC f3 0 = Some (r4, c4, f4)" "readable f4" "txnr f4 = txnr f3" using nextC_total [OF 3(2)] by blast
  obtain r5 f5 where 5: "rspText 0 f4 = Some (r5, f5)" "readable f5" "txnr f5 = txnr f4" using rspText_total [OF 4(2)] by blast
  show ?thesis using 1 2 3 4 5 by (auto simp: readRspHdr_def)
qed

lemma rsp_cmd_total:
  assumes "frame_complete f" "srv_inv s"
  shows "\<exists>r s'. relpSCRsp f s = Some (r, s') \<and> srv_inv s'"
proof -
  have "readable f" using assms(1) by (auto simp: frame_complete_def readable_def)
  from readRspHdr_total [OF this] show ?thesis
    using assms(2) by (auto simp: relpSCRsp_def relpSessGetUnacked_def srv_inv_def)
qed

lemma lit_length [simp]: "length (lit x) = length x"
  by (simp add: lit_def)

lemma initErrMsg_length: "length (initErrMsg r) < 1000000000"
proof -
  have "length (numtxt (relp_code r)) \<le> 9" by (cases r) (simp_all add: numtxt_def digs_length [of _ 9, simplified])
  then show ?thesis by (simp add: initErrMsg_def)
qed

lemma init_total:
  assumes "frame_complete f" "srv_inv s"
  shows "\<exists>r s'. relpSCInit f s = Some (r, s') \<and> srv_inv s'"
proof -
  have t: "0 \<le> txnr f" "txnr f < 1000000000" using assms(1) by (simp_all add: frame_complete_def)
  obtain s1 where 1: "relpSessSendResponse (txnr f) (lit ''500 connection already open'') s = Some (RELP_RET_OK, s1)" "srv_inv s1"
    using rsp_total [OF assms(2) t, of "lit ''500 connection already open''"] by auto
  obtain s2 where 2: "relpSessSendResponse (txnr f) (initErrMsg RELP_RET_SESSION_OPEN) s1 = Some (RELP_RET_OK, s2)" "srv_inv s2"
    using rsp_total [OF 1(2) t initErrMsg_length] by blast
  show ?thesis using 1 2 assms(2) by (simp add: relpSCInit_def srv_inv_def)
qed

lemma close_total:
  assumes "frame_complete f" "srv_inv s"
  shows "\<exists>r s'. relpSCClose f s = Some (r, s') \<and> srv_inv s'"
  using rsp_total [OF assms(2), of "txnr f" "[]"] assms(1) by (auto simp: relpSCClose_def frame_complete_def)

lemma serverclose_inv: "srv_inv s \<Longrightarrow> srv_inv (snd (relpCCServerclose s))"
  by (simp add: relpCCServerclose_def srv_inv_def mem_ok_def)

lemma dispatch_total:
  assumes "frame_complete f" "srv_inv s"
  shows "\<exists>r s'. relpEngineDispatchFrame f s = Some (r, s') \<and> srv_inv s'"
proof -
  have "0 \<in> set (cmd f)" using assms(1) nth_mem [of 32 "cmd f"] by (auto simp: frame_complete_def)
  then obtain c where c: "cstr (cmd f) = Some c" by (simp add: cstr_def)
  show ?thesis
    using c syslog_total [OF assms] rsp_cmd_total [OF assms] init_total [OF assms] close_total [OF assms]
      serverclose_inv [OF assms(2)] assms(2)
    by (auto simp: relpEngineDispatchFrame_def relpCCServerclose_def)
qed

interpretation srv: frame_dispatcher relpEngineDispatchFrame srv_inv
proof
  fix f s
  show "frame_complete f \<Longrightarrow> srv_inv s \<Longrightarrow> \<exists>r s'. relpEngineDispatchFrame f s = Some (r, s') \<and> srv_inv s'"
    by (rule dispatch_total)
qed (auto simp: srv_inv_def mem_ok_def)

section \<open>Whatever is received\<close>

definition server_ok :: "relpSess \<Rightarrow> bool" where
  "server_ok s \<longleftrightarrow> srv_inv s \<and> (\<forall>f. pCurrRcvFrame s = Some f \<longrightarrow> frame_ok f s)"

lemma frame_ok_cong: "maxCharsStore s = maxCharsStore s' \<Longrightarrow> frame_ok f s = frame_ok f s'"
  by (cases "rcvState f") (simp_all add: frame_ok_def)

lemma frame_ok_cur [simp]: "frame_ok f (s\<lparr>pCurrRcvFrame := x\<rparr>) = frame_ok f s"
  by (rule frame_ok_cong) simp

text \<open>
  C5: No octet a peer sends can lead an open server session into undefined behaviour: with
  memory, and a connection whose \<open>send\<close> does not fail and goes on now and then, every call of
  \<open>relpSessRcvData\<close> returns, for any octets in any division, well-formed frames or not,
  oversize data in each mode and any command; while it returns OK the session and its frame
  under construction stay well-formed.
\<close>

theorem server_never_undefined:
  assumes "server_ok s"
  shows "\<exists>r s'. relpSessRcvData s = Some (r, s') \<and> srv_inv s' \<and> (r = RELP_RET_OK \<longrightarrow> server_ok s')"
proof -
  let ?t = "(pTcp s)\<lparr>recvNo := recvNo (pTcp s) + 1\<rparr>"
  have i: "srv_inv (s\<lparr>pTcp := ?t\<rparr>)" "srv_inv (s\<lparr>pTcp := ?t, sessState := x\<rparr>)" for x
    using assms by (simp_all add: server_ok_def srv_inv_def mem_ok_def tcp_live_def)
  have f: "pCurrRcvFrame s = Some f \<Longrightarrow> frame_ok f (s\<lparr>pTcp := ?t\<rparr>)" for f
    using assms frame_ok_cong [of s "s\<lparr>pTcp := ?t\<rparr>" f] by (simp add: server_ok_def)
  show ?thesis
  proof (cases "osRecv (pTcp s) (recvNo (pTcp s))")
    case (Received buf)
    obtain r fr s' where o: "rcvOctets relpEngineDispatchFrame (memFrame s) (32768 * recvNo (pTcp s)) (take 32768 buf)
        (pCurrRcvFrame s) (s\<lparr>pTcp := ?t\<rparr>) = Some (r, fr, s')"
      "srv_inv s'" "r = RELP_RET_OK \<longrightarrow> (\<forall>f'. fr = Some f' \<longrightarrow> frame_ok f' s')"
      using srv.rcvOctets_ok [OF f i(1)] by blast
    have "srv_inv (s'\<lparr>pCurrRcvFrame := fr\<rparr>)" using o(2) by (simp add: srv_inv_def mem_ok_def)
    then show ?thesis using o Received by (simp add: relpSessRcvData_def server_ok_def Let_def)
  qed (use assms i f in \<open>auto simp: relpSessRcvData_def server_ok_def Let_def\<close>)
qed

section \<open>Messages arrive in order and are answered\<close>

text \<open>The frames of a client for the messages \<open>ms\<close>, numbered from \<open>t\<close> on, and the answers to them.\<close>

fun syslog_frames :: "int \<Rightarrow> byte list list \<Rightarrow> byte list" where
  "syslog_frames t [] = []"
| "syslog_frames t (m # ms) = frame_bytes t (lit ''syslog'') m @ syslog_frames (relpEngineNextTXNR t) ms"

fun rsp_frames :: "int \<Rightarrow> nat \<Rightarrow> byte list" where
  "rsp_frames t 0 = []"
| "rsp_frames t (Suc n) = frame_bytes t (lit ''rsp'') (lit ''200 OK'') @ rsp_frames (relpEngineNextTXNR t) n"

lemma lit_syslog: "cstr (lit ''syslog'' @ replicate 27 0) = Some (lit ''syslog'')"
  by (simp add: cstr_def lit_def)

text \<open>Only the numbers, the log and what sending changes differ.\<close>

definition served :: "relpSess \<Rightarrow> relpSess \<Rightarrow> byte list list \<Rightarrow> bool" where
  "served s s' ms \<longleftrightarrow> srv_inv s' \<and> delivered s' = delivered s @ ms \<and> stateCmdSyslog s' = stateCmdSyslog s \<and>
     onSyslog s' = onSyslog s \<and> sessType s' = sessType s \<and> maxDataSize s' = maxDataSize s \<and> pSrv s' = pSrv s \<and>
     wire (pTcp s') = wire (pTcp s) @ rsp_frames (sessTxnr s) (length ms) \<and>
     osRecv (pTcp s') = osRecv (pTcp s) \<and> recvNo (pTcp s') = recvNo (pTcp s) \<and> memFrame s' = memFrame s"

definition ready_server :: "relpSess \<Rightarrow> bool" where
  "ready_server s \<longleftrightarrow> srv_inv s \<and> stateCmdSyslog s = eRelpCmdState_Enabled \<and> onSyslog s \<noteq> NoCallback \<and>
     sessType s = eRelpSess_Server"

lemma wire_frame_data: "store_limit s (length m) = Some k \<Longrightarrow> k = length m \<Longrightarrow> frameData (wire_frame t c m k) = Some m"
  by (auto simp: frameData_def wire_frame_def o_def)

lemma syslog_served:
  assumes s: "ready_server s" and t: "sessTxnr s = t" "0 < t" "t < 1000000000"
    and m: "length m \<le> maxDataSize s" "length m < 1000000000"
  shows "\<exists>s'. rcvOctets relpEngineDispatchFrame always i (frame_bytes t (lit ''syslog'') m @ cs) None s =
      rcvOctets relpEngineDispatchFrame always (i + length (frame_bytes t (lit ''syslog'') m)) cs None s' \<and>
    served s s' [m] \<and> sessTxnr s' = relpEngineNextTXNR t \<and> ready_server s'"
proof -
  let ?f = "wire_frame t (lit ''syslog'') m (length m)"
  let ?s = "rcv_sess t m (length m) s"
  have l: "store_limit s (length m) = Some (length m)" using m(1) by (simp add: store_limit_def)
  have s1: "srv_inv ?s" "stateCmdSyslog ?s = eRelpCmdState_Enabled" "onSyslog ?s = onSyslog s" "delivered ?s = delivered s"
    "pTcp ?s = pTcp s" "sessTxnr ?s = relpEngineNextTXNR t" "pSrv ?s = pSrv s" "sessType ?s = sessType s"
    "maxDataSize ?s = maxDataSize s" "memFrame ?s = memFrame s"
    using s t by (auto simp: rcv_sess_def Let_def ready_server_def srv_inv_def mem_ok_def)
  let ?s2 = "?s\<lparr>delivered := delivered ?s @ [m]\<rparr>"
  have "srv_inv ?s2" using s1(1) by (simp add: delivered_inv)
  from response_inv [OF this, of t "lit ''200 OK''"] t obtain s3 where
    r: "relpSessSendResponse t (lit ''200 OK'') ?s2 = Some (RELP_RET_OK, s3)"
    "sent ?s2 s3 (frame_bytes t (lit ''rsp'') (lit ''200 OK''))" "srv_inv s3" by (auto simp: lit_def)
  have "relpSCSyslog ?f ?s = Some (RELP_RET_OK, s3)"
    using r(1) s s1 wire_frame_data [OF l refl, of t "lit ''syslog''"]
    by (cases "onSyslog s") (auto simp: relpSCSyslog_def ready_server_def srv_inv_def wire_frame_def)
  then have d: "relpEngineDispatchFrame ?f ?s = Some (RELP_RET_OK, s3)"
    by (simp add: relpEngineDispatchFrame_def wire_frame_def lit_syslog)
  have alpha: "\<forall>x \<in> set (lit ''syslog''). isalpha x" by (simp add: lit_def isalpha_def)
  note fd = frame_delivered [of t s "lit ''syslog''" m "length m" relpEngineDispatchFrame i cs, OF _ _ _ alpha _ m(2) l]
  have "rcvOctets relpEngineDispatchFrame always i (frame_bytes t (lit ''syslog'') m @ cs) None s =
      rcvOctets relpEngineDispatchFrame always (i + length (frame_bytes t (lit ''syslog'') m)) cs None s3"
    using fd t d by simp
  moreover have "served s s3 [m]"
    using sent_fields [OF r(2)] same_osD r(3) s1 t s by (auto simp: served_def ready_server_def)
  moreover have "sessTxnr s3 = relpEngineNextTXNR t" "ready_server s3"
    using sent_fields [OF r(2)] r(3) s1 s by (auto simp: ready_server_def)
  ultimately show ?thesis by blast
qed

lemma next_txnr: "t < 1000000000 \<Longrightarrow> relpEngineNextTXNR t = t + 1"
  by (simp add: relpEngineNextTXNR_def)

lemma served_trans:
  assumes "served s s1 [m]" "served s1 s2 ms" "sessTxnr s1 = relpEngineNextTXNR (sessTxnr s)"
  shows "served s s2 (m # ms)"
  using assms by (auto simp: served_def)

lemma served_refl: "ready_server s \<Longrightarrow> served s s []"
  by (simp add: served_def ready_server_def)

lemma messages_served:
  assumes "ready_server s" "sessTxnr s = t" "0 < t" "t + int (length ms) \<le> 1000000000"
    and "\<forall>m \<in> set ms. length m \<le> maxDataSize s \<and> length m < 1000000000"
  shows "\<exists>s'. rcvOctets relpEngineDispatchFrame always i (syslog_frames t ms @ cs) None s =
      rcvOctets relpEngineDispatchFrame always (i + length (syslog_frames t ms)) cs None s' \<and>
    served s s' ms \<and> sessTxnr s' = t + int (length ms) \<and> ready_server s'"
  using assms
proof (induction ms arbitrary: s t i)
  case Nil
  then show ?case by (intro exI [of _ s]) (simp add: served_refl)
next
  case (Cons m ms)
  let ?F = "frame_bytes t (lit ''syslog'') m"
  have t: "t < 1000000000" using Cons.prems(4) by simp
  obtain s1 where 1: "rcvOctets relpEngineDispatchFrame always i (?F @ syslog_frames (t + 1) ms @ cs) None s =
      rcvOctets relpEngineDispatchFrame always (i + length ?F) (syslog_frames (t + 1) ms @ cs) None s1"
    "served s s1 [m]" "sessTxnr s1 = t + 1" "ready_server s1"
    using syslog_served [OF Cons.prems(1-3) t, of m i "syslog_frames (t + 1) ms @ cs"] Cons.prems(5) next_txnr [OF t] by auto
  have "maxDataSize s1 = maxDataSize s" using 1(2) by (simp add: served_def)
  then obtain s2 where 2: "rcvOctets relpEngineDispatchFrame always (i + length ?F) (syslog_frames (t + 1) ms @ cs) None s1 =
      rcvOctets relpEngineDispatchFrame always (i + length ?F + length (syslog_frames (t + 1) ms)) cs None s2"
    "served s1 s2 ms" "sessTxnr s2 = t + 1 + int (length ms)" "ready_server s2"
    using Cons.IH [OF 1(4,3), of "i + length ?F"] Cons.prems(3-5) by auto
  have "served s s2 (m # ms)" using served_trans [OF 1(2) 2(2)] 1(3) Cons.prems(2) next_txnr [OF t] by simp
  then show ?case using 1(1) 2 next_txnr [OF t] by (intro exI [of _ s2]) (simp add: add.assoc)
qed

lemma messages_delivered_in_order:
  assumes "ready_server s" and "0 < sessTxnr s" and "sessTxnr s + int (length ms) \<le> 1000000000"
    and "\<forall>m \<in> set ms. length m \<le> maxDataSize s \<and> length m < 1000000000"
    and "memFrame s = always" and "pCurrRcvFrame s = None"
    and "osRecv (pTcp s) (recvNo (pTcp s)) = Received (syslog_frames (sessTxnr s) ms)"
    and "length (syslog_frames (sessTxnr s) ms) \<le> 32768"
  shows "\<exists>s'. relpSessRcvData s = Some (RELP_RET_OK, s') \<and> delivered s' = delivered s @ ms \<and>
    wire (pTcp s') = wire (pTcp s) @ rsp_frames (sessTxnr s) (length ms) \<and>
    sessTxnr s' = sessTxnr s + int (length ms) \<and> pCurrRcvFrame s' = None \<and> ready_server s'"
proof -
  let ?s = "s\<lparr>pTcp := (pTcp s)\<lparr>recvNo := recvNo (pTcp s) + 1\<rparr>\<rparr>"
  have r: "ready_server ?s" using assms(1) by (simp add: ready_server_def srv_inv_def mem_ok_def tcp_live_def)
  obtain s' where s': "rcvOctets relpEngineDispatchFrame always (32768 * recvNo (pTcp s)) (syslog_frames (sessTxnr s) ms @ []) None ?s =
      Some (RELP_RET_OK, None, s')" "served ?s s' ms" "sessTxnr s' = sessTxnr s + int (length ms)" "ready_server s'"
    using messages_served [OF r, of "sessTxnr s" ms "32768 * recvNo (pTcp s)" "[]"] assms(2-4) by auto
  have "ready_server (s'\<lparr>pCurrRcvFrame := None\<rparr>)" using s'(4) by (simp add: ready_server_def srv_inv_def mem_ok_def)
  then show ?thesis using s' assms(5-8) by (simp add: relpSessRcvData_def Let_def served_def)
qed

section \<open>When sending does not work\<close>

text \<open>
  C25: A client that stops reading stops the server: when the socket takes no more bytes, the
  attempt to answer never returns although the socket does not block, because a partial write
  sends the loop over the queue round again; nothing else is served meanwhile.
\<close>

theorem unread_answer_never_returns:
  assumes "mem_ok s" and "pSendq s = []" and "0 \<le> t" and "t < 1000000000" and "length d < 1000000000"
    and "\<forall>n. osSend (pTcp s) n \<noteq> SendError" and "\<forall>n \<ge> sendNo (pTcp s). \<not> progress_at (pTcp s) n"
  shows "relpSessSendResponse t d s = None"
proof -
  let ?p = "nextSendbuf s" and ?F = "frame_bytes t (lit ''rsp'') d"
  have n9: "length (numtxt t) \<le> 9" using numtxt_nat_length [of "nat t" 9] assms(3,4) by simp
  obtain sb where n: "newSendbuf t (lit ''rsp'') d NoHdlr s = Some (RELP_RET_OK, Some ?p, s\<lparr>memNo := memNo s + 2,
      sendbufs := (sendbufs s)(?p \<mapsto> sb), nextSendbuf := ?p + 1\<rparr>)" and sb: "built sb t (lit ''rsp'') d NoHdlr" "bufPtr sb = 0"
    by (rule newSendbuf_ok [OF assms(1) n9 _ assms(5), of "lit ''rsp''"]) (simp_all add: lit_def)
  let ?s1 = "s\<lparr>sendbufs := (sendbufs s)(?p \<mapsto> sb), nextSendbuf := ?p + 1, memNo := memNo s + 2 + 1, pSendq := [?p]\<rparr>"
  have "stuck ?s1" using assms(6,7) built_sendable [OF sb] frame_bytes_ne by (auto simp: stuck_def)
  then have "relpSendqSend ?s1 = None" by (rule sendq_stuck)
  then show ?thesis using n assms(1,2) by (simp add: relpSessSendResponse_def relpSendqAddBuf_def Let_def mem_ok_def)
qed

text \<open>A failed \<open>send\<close>: the sendbuf is freed and stays in the queue.\<close>

lemma failed_response:
  assumes m: "mem_ok s" and q: "pSendq s = []" and t: "0 \<le> t" "t < 1000000000" and d: "length d < 1000000000"
    and e: "osSend (pTcp s) (sendNo (pTcp s)) = SendError"
  obtains s' p where "relpSessSendResponse t d s = Some (RELP_RET_IO_ERR, s')" "pSendq s' = [p]" "sendbufs s' p = None"
    "nextSendbuf s' = p + 1" "mem_ok s'" "delivered s' = delivered s" "stateCmdSyslog s' = stateCmdSyslog s"
    "onSyslog s' = onSyslog s" "sessType s' = sessType s" "maxDataSize s' = maxDataSize s" "pSrv s' = pSrv s"
    "sessTxnr s' = sessTxnr s"
proof -
  let ?p = "nextSendbuf s" and ?F = "frame_bytes t (lit ''rsp'') d"
  have n9: "length (numtxt t) \<le> 9" using numtxt_nat_length [of "nat t" 9] t by simp
  obtain sb where n: "newSendbuf t (lit ''rsp'') d NoHdlr s = Some (RELP_RET_OK, Some ?p, s\<lparr>memNo := memNo s + 2,
      sendbufs := (sendbufs s)(?p \<mapsto> sb), nextSendbuf := ?p + 1\<rparr>)" and sb: "built sb t (lit ''rsp'') d NoHdlr" "bufPtr sb = 0"
    by (rule newSendbuf_ok [OF m n9 _ d, of "lit ''rsp''"]) (simp_all add: lit_def)
  let ?t = "(pTcp s)\<lparr>sendNo := sendNo (pTcp s) + 1\<rparr>"
  let ?s1 = "s\<lparr>sendbufs := (sendbufs s)(?p \<mapsto> sb), nextSendbuf := ?p + 1, memNo := memNo s + 2 + 1, pSendq := [?p]\<rparr>"
  have s: "sendable sb ?F" by (rule built_sendable [OF sb])
  have "None \<notin> set (map Some ?F)" by auto
  then have "relpTcpSend (pTcp s) (map Some ?F) = Some (RELP_RET_IO_ERR, length ?F, ?t)"
    using e by (simp add: relpTcpSend_def del: set_map)
  moreover have "sbLenData sb - bufPtr sb = length ?F" using s by (simp add: sendable_def)
  ultimately have "relpSendbufSend ?p ?s1 = Some (RELP_RET_IO_ERR, ?s1\<lparr>pTcp := ?t\<rparr>)"
    using sendable_window [OF s] by (simp add: relpSendbufSend_def Let_def)
  then have "relpSendqSend ?s1 = Some (RELP_RET_IO_ERR, ?s1\<lparr>pTcp := ?t\<rparr>)" by (subst relpSendqSend.simps) simp
  then have "relpSessSendResponse t d s = Some (RELP_RET_IO_ERR,
      ?s1\<lparr>pTcp := ?t, sessState := eRelpSessState_BROKEN, sendbufs := (sendbufs s)(?p := None)\<rparr>)"
    using n m q by (simp add: relpSessSendResponse_def relpSendqAddBuf_def Let_def mem_ok_def relpSendbufDestruct_def)
  then show ?thesis using that m by (simp add: mem_ok_def)
qed

lemma dangling_response:
  assumes m: "mem_ok s" and q: "pSendq s = [p]" "sendbufs s p = None" "nextSendbuf s = p + 1"
    and t: "0 \<le> t" "t < 1000000000" and d: "length d < 1000000000"
  shows "relpSessSendResponse t d s = None"
proof -
  have n9: "length (numtxt t) \<le> 9" using numtxt_nat_length [of "nat t" 9] t by simp
  obtain sb where n: "newSendbuf t (lit ''rsp'') d NoHdlr s = Some (RELP_RET_OK, Some (nextSendbuf s), s\<lparr>memNo := memNo s + 2,
      sendbufs := (sendbufs s)(nextSendbuf s \<mapsto> sb), nextSendbuf := nextSendbuf s + 1\<rparr>)"
    by (rule newSendbuf_ok [OF m n9 _ d, of "lit ''rsp''"]) (simp_all add: lit_def)
  show ?thesis using n m q
    by (simp add: relpSessSendResponse_def relpSendqAddBuf_def Let_def mem_ok_def relpSendqSend.simps relpSendbufSend_def)
qed

lemma syslog_dispatch:
  assumes "stateCmdSyslog s = eRelpCmdState_Enabled" "onSyslog s \<noteq> NoCallback" "pSrv s \<noteq> None"
  shows "relpEngineDispatchFrame (wire_frame t (lit ''syslog'') m (length m)) s =
    map_option (\<lambda>(r, s'). (RELP_RET_OK, s')) (relpSessSendResponse t (lit ''200 OK'') (s\<lparr>delivered := delivered s @ [m]\<rparr>))"
proof -
  have "frameData (wire_frame t (lit ''syslog'') m (length m)) = Some m" by (auto simp: frameData_def wire_frame_def o_def)
  then have "relpSCSyslog (wire_frame t (lit ''syslog'') m (length m)) s =
      relpSessSendResponse t (lit ''200 OK'') (s\<lparr>delivered := delivered s @ [m]\<rparr>)"
    using assms by (cases "onSyslog s") (auto simp: relpSCSyslog_def wire_frame_def)
  then show ?thesis
    by (cases "relpSessSendResponse t (lit ''200 OK'') (s\<lparr>delivered := delivered s @ [m]\<rparr>)")
      (auto simp: relpEngineDispatchFrame_def wire_frame_def lit_syslog)
qed

lemma rcv_syslog:
  assumes "sessType s = eRelpSess_Server" "sessTxnr s = t" "0 < t" "t < 1000000000" "length m \<le> maxDataSize s" "length m < 1000000000"
  shows "rcvOctets dispatch always i (frame_bytes t (lit ''syslog'') m @ cs) None s =
    do { (r, s') \<leftarrow> dispatch (wire_frame t (lit ''syslog'') m (length m)) (rcv_sess t m (length m) s);
         if r \<noteq> RELP_RET_OK then Some (r, None, s')
         else rcvOctets dispatch always (i + length (frame_bytes t (lit ''syslog'') m)) cs None s' }"
  by (rule frame_delivered) (use assms in \<open>simp_all add: lit_def isalpha_def store_limit_def\<close>)

lemma rcv_sess_fields [simp]:
  "sessType (rcv_sess t m k s) = sessType s" "pTcp (rcv_sess t m k s) = pTcp s" "mem_ok (rcv_sess t m k s) = mem_ok s"
  "pSendq (rcv_sess t m k s) = pSendq s" "stateCmdSyslog (rcv_sess t m k s) = stateCmdSyslog s" "onSyslog (rcv_sess t m k s) = onSyslog s"
  "pSrv (rcv_sess t m k s) = pSrv s" "delivered (rcv_sess t m k s) = delivered s" "maxDataSize (rcv_sess t m k s) = maxDataSize s"
  "memOK (rcv_sess t m k s) = memOK s" "sendbufs (rcv_sess t m k s) = sendbufs s" "nextSendbuf (rcv_sess t m k s) = nextSendbuf s"
  by (simp_all add: rcv_sess_def Let_def mem_ok_def)

lemma rcv_sess_txnr: "t \<noteq> 0 \<Longrightarrow> sessType s = eRelpSess_Server \<Longrightarrow> sessTxnr (rcv_sess t m k s) = relpEngineNextTXNR (sessTxnr s)"
  by (simp add: rcv_sess_def Let_def)

text \<open>
  C26: After a failed \<open>send\<close> the server uses freed memory: the answer that could not be sent is
  freed but stays first in the send queue, the handler's error is ignored, and the next message
  that came with the same \<open>recv\<close> makes the queue send the freed buffer.
\<close>

theorem failed_send_use_after_free:
  assumes "mem_ok s" and "pSendq s = []" and "stateCmdSyslog s = eRelpCmdState_Enabled" and "onSyslog s \<noteq> NoCallback"
    and "pSrv s \<noteq> None" and "sessType s = eRelpSess_Server" and "0 < sessTxnr s" and "sessTxnr s < 999999999"
    and "length m \<le> maxDataSize s" and "length m' \<le> maxDataSize s" and "maxDataSize s < 1000000000"
    and "osSend (pTcp s) (sendNo (pTcp s)) = SendError" and "memFrame s = always" and "pCurrRcvFrame s = None"
    and "osRecv (pTcp s) (recvNo (pTcp s)) = Received (syslog_frames (sessTxnr s) [m, m'])"
    and "length (syslog_frames (sessTxnr s) [m, m']) \<le> 32768"
  shows "relpSessRcvData s = None"
proof -
  let ?s = "s\<lparr>pTcp := (pTcp s)\<lparr>recvNo := recvNo (pTcp s) + 1\<rparr>\<rparr>" and ?t = "sessTxnr s" and ?i = "32768 * recvNo (pTcp s)"
  let ?F = "frame_bytes ?t (lit ''syslog'') m" and ?r = "rcv_sess ?t m (length m) ?s"
  have nx: "relpEngineNextTXNR ?t = ?t + 1" using assms(8) by (simp add: next_txnr)
  obtain s1 p where 1: "relpSessSendResponse ?t (lit ''200 OK'') (?r\<lparr>delivered := delivered ?r @ [m]\<rparr>) = Some (RELP_RET_IO_ERR, s1)"
    "pSendq s1 = [p]" "sendbufs s1 p = None" "nextSendbuf s1 = p + 1" "mem_ok s1" "stateCmdSyslog s1 = eRelpCmdState_Enabled"
    "onSyslog s1 \<noteq> NoCallback" "sessType s1 = eRelpSess_Server" "maxDataSize s1 = maxDataSize s" "pSrv s1 \<noteq> None"
    "sessTxnr s1 = ?t + 1"
    by (rule failed_response [of "?r\<lparr>delivered := delivered ?r @ [m]\<rparr>" ?t "lit ''200 OK''"])
      (use assms nx in \<open>simp_all add: rcv_sess_txnr mem_ok_def\<close>)
  let ?r1 = "rcv_sess (?t + 1) m' (length m') s1"
  have "relpSessSendResponse (?t + 1) (lit ''200 OK'') (?r1\<lparr>delivered := delivered ?r1 @ [m']\<rparr>) = None"
    by (rule dangling_response [of _ p]) (use 1 assms(7,8) in \<open>simp_all add: mem_ok_def\<close>)
  then have "relpEngineDispatchFrame (wire_frame (?t + 1) (lit ''syslog'') m' (length m')) ?r1 = None"
    using 1 by (simp add: syslog_dispatch)
  then have "rcvOctets relpEngineDispatchFrame always (?i + length ?F) (frame_bytes (?t + 1) (lit ''syslog'') m' @ []) None s1 = None"
    using rcv_syslog [of s1 "?t + 1" m' relpEngineDispatchFrame "?i + length ?F" "[]"] 1 assms(7-11) by simp
  moreover have "relpEngineDispatchFrame (wire_frame ?t (lit ''syslog'') m (length m)) ?r = Some (RELP_RET_OK, s1)"
    using 1(1) assms by (simp add: syslog_dispatch)
  ultimately have "rcvOctets relpEngineDispatchFrame always ?i (?F @ frame_bytes (?t + 1) (lit ''syslog'') m') None ?s = None"
    using rcv_syslog [of ?s ?t m relpEngineDispatchFrame ?i "frame_bytes (?t + 1) (lit ''syslog'') m'"] assms by simp
  then show ?thesis using assms nx by (simp add: relpSessRcvData_def Let_def)
qed

text \<open>
  A second \<open>open\<close> on a session is answered twice: the handler answers that the connection is
  open already, and the common error path answers again for the same transaction number.
\<close>

theorem second_open_answered_twice:
  assumes "srv_inv s" and "0 \<le> txnr f" and "txnr f < 1000000000"
  shows "\<exists>s'. relpSCInit f s = Some (RELP_RET_SESSION_OPEN, s') \<and>
    wire (pTcp s') = wire (pTcp s) @ frame_bytes (txnr f) (lit ''rsp'') (lit ''500 connection already open'') @
      frame_bytes (txnr f) (lit ''rsp'') (lit ''500 error '' @ numtxt 10047 @ lit '' on connect'')"
proof -
  obtain s1 where 1: "relpSessSendResponse (txnr f) (lit ''500 connection already open'') s = Some (RELP_RET_OK, s1)"
    "sent s s1 (frame_bytes (txnr f) (lit ''rsp'') (lit ''500 connection already open''))" "srv_inv s1"
    using response_inv [OF assms, of "lit ''500 connection already open''"] by (auto simp: lit_def)
  obtain s2 where 2: "relpSessSendResponse (txnr f) (initErrMsg RELP_RET_SESSION_OPEN) s1 = Some (RELP_RET_OK, s2)"
    "sent s1 s2 (frame_bytes (txnr f) (lit ''rsp'') (initErrMsg RELP_RET_SESSION_OPEN))"
    using response_inv [OF 1(3) assms(2,3) initErrMsg_length] by metis
  have "bServerConnOpen s" using assms(1) by (simp add: srv_inv_def)
  then have "relpSCInit f s = Some (RELP_RET_SESSION_OPEN, s2)" using 1 2 by (simp add: relpSCInit_def)
  then show ?thesis using sent_fields(1) [OF sent_trans [OF 1(2) 2(2)]] by (auto simp: initErrMsg_def)
qed

section \<open>Examples\<close>

definition tcp_ex :: "(nat \<Rightarrow> send_result) \<Rightarrow> (nat \<Rightarrow> recv_result) \<Rightarrow> relpTcp" where
  "tcp_ex f g = \<lparr>osSend = f, osWait = (\<lambda>_. True), osExpired = (\<lambda>_. False), sendNo = 0, wire = [], osRecv = g, recvNo = 0\<rparr>"

definition sess_ex :: "relpSessType \<Rightarrow> relpTcp \<Rightarrow> relpSess" where
  "sess_ex typ t =
     \<lparr>sessType = typ, sessTxnr = 2, maxDataSize = 131072, maxCharsStore = 0,
      pSrv = (if typ = eRelpSess_Server then Some \<lparr>oversizeMode = 0\<rparr> else None),
      bServerConnOpen = (typ = eRelpSess_Server), pTcp = t, pCurrRcvFrame = None, protocolVersion = 0,
      stateCmdSyslog = eRelpCmdState_Enabled, pSendq = [], unackedLst = [], lenUnackedLst = 0, sizeWindow = 128,
      bAutoRetry = False, sessState = eRelpSessState_READY_TO_SEND, sendbufs = (\<lambda>_. None), nextSendbuf = 0,
      engVersion = 0, engSoftware = lit ''1.2.17'', onSyslog = OnSyslogRcv2, delivered = [], memOK = (\<lambda>_. True), memNo = 0,
      memFrame = always, osStop = (\<lambda>_. False), osDeadline = (\<lambda>_. False), osPollErr = (\<lambda>_. False), waitNo = 0,
      osConnect = (\<lambda>_. (RELP_RET_IO_ERR, t)), connNo = 0\<rparr>"

lemma sess_ex_fields [simp]:
  "sessTxnr (sess_ex typ t) = 2" "pTcp (sess_ex typ t) = t" "maxDataSize (sess_ex typ t) = 131072" "delivered (sess_ex typ t) = []"
  "memFrame (sess_ex typ t) = always" "pCurrRcvFrame (sess_ex typ t) = None" "pSendq (sess_ex typ t) = []"
  "mem_ok (sess_ex typ t)" "stateCmdSyslog (sess_ex typ t) = eRelpCmdState_Enabled" "onSyslog (sess_ex typ t) = OnSyslogRcv2"
  "sessType (sess_ex typ t) = typ" "pSrv (sess_ex eRelpSess_Server t) = Some \<lparr>oversizeMode = 0\<rparr>"
  "sendbufs (sess_ex typ t) p = None" "unackedLst (sess_ex typ t) = []" "bServerConnOpen (sess_ex eRelpSess_Server t)"
  by (simp_all add: sess_ex_def mem_ok_def)

lemma tcp_ex_fields [simp]:
  "osSend (tcp_ex f g) = f" "osRecv (tcp_ex f g) = g" "recvNo (tcp_ex f g) = 0" "sendNo (tcp_ex f g) = 0"
  "wire (tcp_ex f g) = []"
  by (simp_all add: tcp_ex_def)

text \<open>A socket that takes five bytes at a time.\<close>

lemma tcp_ex_live: "tcp_live (tcp_ex (\<lambda>_. Wrote 5) rcv)"
  by (auto simp: tcp_live_def)

lemma srv_ex_inv: "srv_inv (sess_ex eRelpSess_Server (tcp_ex (\<lambda>_. Wrote 5) rcv))"
  by (simp add: srv_inv_def tcp_ex_live)

lemma srv_ex_ready: "ready_server (sess_ex eRelpSess_Server (tcp_ex (\<lambda>_. Wrote 5) rcv))"
  by (simp add: ready_server_def srv_ex_inv)

theorem server_never_undefined_witness:
  "\<exists>r s'. relpSessRcvData (sess_ex eRelpSess_Server (tcp_ex (\<lambda>_. Wrote 5) (\<lambda>_. Received (lit ''GET / HTTP/1.0'')))) = Some (r, s') \<and>
    srv_inv s' \<and> (r = RELP_RET_OK \<longrightarrow> server_ok s')"
  by (rule server_never_undefined) (simp add: server_ok_def srv_ex_inv)

definition ms_ex :: "byte list list" where
  "ms_ex = [lit ''hello'', [], lit ''world'']"

lemma frame_small: "length (numtxt t) \<le> 9 \<Longrightarrow> length d < 1000000000 \<Longrightarrow> length (frame_bytes t c d) \<le> 30 + length c + length d"
  using numtxt_nat_length [of "length d" 9] by (cases "d = []") (simp_all add: frame_bytes_length)

lemma ms_ex_small: "length (syslog_frames 2 ms_ex) \<le> 32768"
  using frame_small [of 2 "lit ''hello''" "lit ''syslog''"] frame_small [of 3 "[]" "lit ''syslog''"]
    frame_small [of 4 "lit ''world''" "lit ''syslog''"]
    numtxt_nat_length [of 2 9] numtxt_nat_length [of 3 9] numtxt_nat_length [of 4 9]
  by (simp add: ms_ex_def next_txnr)

theorem unread_answer_never_returns_witness:
  "relpSessSendResponse 2 (lit ''200 OK'') (sess_ex eRelpSess_Server (tcp_ex (\<lambda>_. TryAgain) (\<lambda>_. WouldBlock))) = None"
  by (rule unread_answer_never_returns) (simp_all add: progress_at_def)

theorem failed_send_use_after_free_witness:
  "relpSessRcvData (sess_ex eRelpSess_Server (tcp_ex (\<lambda>_. SendError) (\<lambda>_. Received (syslog_frames 2 [[65], [66]])))) = None"
proof (rule failed_send_use_after_free)
  show "length (syslog_frames (sessTxnr (sess_ex eRelpSess_Server (tcp_ex (\<lambda>_. SendError) (\<lambda>_. Received (syslog_frames 2 [[65], [66]]))))) [[65], [66]]) \<le> 32768"
    using frame_small [of 2 "[65]" "lit ''syslog''"] frame_small [of 3 "[66]" "lit ''syslog''"]
      numtxt_nat_length [of 2 9] numtxt_nat_length [of 3 9] by (simp add: next_txnr)
qed simp_all

theorem second_open_answered_twice_witness:
  "\<exists>s'. relpSCInit (wire_frame 2 (lit ''open'') [] 0) (sess_ex eRelpSess_Server (tcp_ex (\<lambda>_. Wrote 5) (\<lambda>_. WouldBlock))) =
      Some (RELP_RET_SESSION_OPEN, s') \<and>
    wire (pTcp s') = wire (pTcp (sess_ex eRelpSess_Server (tcp_ex (\<lambda>_. Wrote 5) (\<lambda>_. WouldBlock)))) @
      frame_bytes (txnr (wire_frame 2 (lit ''open'') [] 0)) (lit ''rsp'') (lit ''500 connection already open'') @
      frame_bytes (txnr (wire_frame 2 (lit ''open'') [] 0)) (lit ''rsp'') (lit ''500 error '' @ numtxt 10047 @ lit '' on connect'')"
  by (rule second_open_answered_twice [OF srv_ex_inv]) (simp_all add: wire_frame_def)

end
