(* ===== verification/RelpClient.thy ===== *)
theory RelpClient
  imports RelpServer
begin

text \<open>
  The client of a RELP session: every command sent stays in the list of unacknowledged frames
  until its answer comes, frames still unacknowledged when a session is established again are
  sent again under new numbers; and client and server together.
\<close>

section \<open>The list of unacknowledged frames\<close>

type_synonym frame_rec = "int \<times> byte list \<times> byte list \<times> rspHdlr"

definition holds_frame :: "relpSess \<Rightarrow> ptr \<Rightarrow> frame_rec \<Rightarrow> bool" where
  "holds_frame s p x \<longleftrightarrow> (case x of (t, c, d, hdlr) \<Rightarrow> \<exists>sb. sendbufs s p = Some sb \<and> built sb t c d hdlr)"

definition unacked_is :: "relpSess \<Rightarrow> frame_rec list \<Rightarrow> bool" where
  "unacked_is s xs \<longleftrightarrow> list_all2 (holds_frame s) (unackedLst s) xs \<and> distinct (unackedLst s) \<and>
     (\<forall>p \<in> set (unackedLst s). p < nextSendbuf s) \<and> lenUnackedLst s = int (length xs)"

definition link_ok :: "relpSess \<Rightarrow> bool" where
  "link_ok s \<longleftrightarrow> mem_ok s \<and> tcp_live (pTcp s) \<and> patient (pTcp s)"

lemma unacked_len: "unacked_is s xs \<Longrightarrow> length (unackedLst s) = length xs"
  by (auto simp: unacked_is_def dest: list_all2_lengthD)

lemma holds_frame_cong: "sendbufs s p = sendbufs s' p \<Longrightarrow> holds_frame s p x = holds_frame s' p x"
  by (simp add: holds_frame_def)

lemma held_frames:
  "list_all2 (holds_frame s) ps xs \<Longrightarrow> \<forall>p \<in> set ps. sendbufs s' p = sendbufs s p \<Longrightarrow> list_all2 (holds_frame s') ps xs"
  by (auto simp: list_all2_conv_all_nth holds_frame_def)

lemma same_os_patient: "same_os t t' \<Longrightarrow> patient t \<Longrightarrow> patient t'"
  using same_osD [of t t'] by (simp add: patient_def)

section \<open>Sending commands\<close>

text \<open>What a command that was sent has changed.\<close>

definition commanded :: "relpSess \<Rightarrow> relpSess \<Rightarrow> bool" where
  "commanded s s' \<longleftrightarrow> link_ok s' \<and> stateCmdSyslog s' = stateCmdSyslog s \<and> sizeWindow s' = sizeWindow s \<and>
     maxDataSize s' = maxDataSize s \<and> sessType s' = sessType s \<and> pCurrRcvFrame s' = pCurrRcvFrame s \<and>
     memFrame s' = memFrame s \<and> osStop s' = osStop s \<and> waitNo s' = waitNo s \<and> bAutoRetry s' = bAutoRetry s \<and>
     osRecv (pTcp s') = osRecv (pTcp s) \<and> recvNo (pTcp s') = recvNo (pTcp s) \<and> pSrv s' = pSrv s \<and>
     delivered s' = delivered s \<and> engVersion s' = engVersion s \<and> osDeadline s' = osDeadline s \<and> osPollErr s' = osPollErr s \<and>
     osConnect s' = osConnect s \<and> connNo s' = connNo s \<and> protocolVersion s' = protocolVersion s \<and> engSoftware s' = engSoftware s"

lemma rawSend_ok:
  assumes l: "link_ok s" and u: "unacked_is s xs" and t: "0 \<le> sessTxnr s" "sessTxnr s < 1000000000"
    and c: "length c < 4294967296" "length d < 1000000000"
  shows "\<exists>s'. relpSessRawSendCommand c d hdlr s = Some (RELP_RET_OK, s') \<and> unacked_is s' (xs @ [(sessTxnr s, c, d, hdlr)]) \<and>
    wire (pTcp s') = wire (pTcp s) @ frame_bytes (sessTxnr s) c d \<and> sessTxnr s' = sessTxnr s + 1 \<and> commanded s s' \<and>
    sessState s' = (if int (length xs) + 1 \<ge> sizeWindow s then eRelpSessState_WINDOW_FULL else sessState s)"
proof -
  let ?p = "nextSendbuf s" and ?F = "frame_bytes (sessTxnr s) c d"
  have n9: "length (numtxt (sessTxnr s)) \<le> 9" using numtxt_nat_length [of "nat (sessTxnr s)" 9] t by simp
  have m: "mem_ok s" using l by (simp add: link_ok_def)
  obtain sb where n: "newSendbuf (sessTxnr s) c d hdlr s = Some (RELP_RET_OK, Some ?p, s\<lparr>memNo := memNo s + 2,
      sendbufs := (sendbufs s)(?p \<mapsto> sb), nextSendbuf := ?p + 1\<rparr>)" and sb: "built sb (sessTxnr s) c d hdlr" "bufPtr sb = 0"
    by (rule newSendbuf_ok [OF m n9 c])
  let ?s1 = "s\<lparr>memNo := memNo s + 2, sendbufs := (sendbufs s)(?p \<mapsto> sb), nextSendbuf := ?p + 1, sessTxnr := sessTxnr s + 1\<rparr>"
  have "sendable sb ?F" by (rule built_sendable [OF sb])
  then obtain t' k where sd: "sendAllLoop ?p (length ?F) ?s1 = Some (RELP_RET_OK, sendall_end ?s1 ?p (sb\<lparr>bufPtr := k\<rparr>) t')"
    "same_os (pTcp s) t'" "wire t' = wire (pTcp s) @ ?F"
    using sendAll_ok [of ?s1 ?p sb ?F] frame_bytes_ne l by (auto simp: link_ok_def)
  let ?s2 = "sendall_end ?s1 ?p (sb\<lparr>bufPtr := k\<rparr>) t'"
  have len: "sbLenData sb - bufPtr sb = length ?F" using sb by (simp add: built_def)
  define s3 where "s3 = snd (relpSessAddUnacked ?p ?s2)"
  have add: "relpSessAddUnacked ?p ?s2 = (RELP_RET_OK, s3)"
    using m by (simp add: relpSessAddUnacked_def Let_def sendall_end_def mem_ok_def s3_def)
  have "relpSessRawSendCommand c d hdlr s = Some (RELP_RET_OK, s3)"
    using n sd(1) len add t next_txnr [OF t(2)]
    by (simp add: relpSessRawSendCommand_def relpSendbufSendAll_def Let_def)
  moreover have "sendbufs s3 = (sendbufs s)(?p \<mapsto> sb\<lparr>bufPtr := k\<rparr>)" "unackedLst s3 = unackedLst s @ [?p]"
    "lenUnackedLst s3 = int (length xs) + 1" "nextSendbuf s3 = ?p + 1" "pTcp s3 = t'"
    using m u by (simp_all add: relpSessAddUnacked_def Let_def sendall_end_def mem_ok_def unacked_is_def s3_def)
  moreover have "built (sb\<lparr>bufPtr := k\<rparr>) (sessTxnr s) c d hdlr" using sb(1) by (auto simp: built_def)
  moreover have "?p \<notin> set (unackedLst s)" using u by (auto simp: unacked_is_def)
  moreover have "list_all2 (holds_frame s3) (unackedLst s) xs"
    by (rule held_frames [of s]) (use u calculation(2,7) in \<open>auto simp: unacked_is_def\<close>)
  moreover have "commanded s s3"
    using m sd(2) l same_osD [OF sd(2)] same_os_live [OF sd(2)]
    by (auto simp: commanded_def relpSessAddUnacked_def Let_def sendall_end_def mem_ok_def link_ok_def patient_def s3_def)
  moreover have "sessTxnr s3 = sessTxnr s + 1"
    "sessState s3 = (if int (length xs) + 1 \<ge> sizeWindow s then eRelpSessState_WINDOW_FULL else sessState s)"
    using m u by (simp_all add: relpSessAddUnacked_def Let_def sendall_end_def mem_ok_def unacked_is_def s3_def)
  moreover have "unacked_is s3 (xs @ [(sessTxnr s, c, d, hdlr)])"
  proof -
    have "list_all2 (holds_frame s3) (unackedLst s @ [?p]) (xs @ [(sessTxnr s, c, d, hdlr)])"
      by (rule list_all2_appendI) (use calculation in \<open>auto simp: holds_frame_def\<close>)
    then show ?thesis using calculation u by (auto simp: unacked_is_def)
  qed
  ultimately show ?thesis using sd(3) by (intro exI [of _ s3]) auto
qed

section \<open>A client in operation\<close>

text \<open>The state of a client with the frames \<open>xs\<close> unacknowledged: sending waits when the window is full.\<close>

definition client_at :: "relpSess \<Rightarrow> frame_rec list \<Rightarrow> bool" where
  "client_at s xs \<longleftrightarrow> link_ok s \<and> unacked_is s xs \<and> sessType s = eRelpSess_Client \<and>
     stateCmdSyslog s = eRelpCmdState_Enabled \<and> (\<forall>n. \<not> osStop s n) \<and>
     sessState s = (if int (length xs) \<ge> sizeWindow s then eRelpSessState_WINDOW_FULL else eRelpSessState_READY_TO_SEND)"

text \<open>The session after a call of \<open>recv\<close>, before the octets received are looked at.\<close>

definition rcv_call :: "relpSess \<Rightarrow> relpSess" where
  "rcv_call s = s\<lparr>pTcp := (pTcp s)\<lparr>recvNo := recvNo (pTcp s) + 1\<rparr>\<rparr>"

lemma rcv_call_fields [simp]:
  "sessTxnr (rcv_call s) = sessTxnr s" "sessState (rcv_call s) = sessState s" "sizeWindow (rcv_call s) = sizeWindow s"
  "stateCmdSyslog (rcv_call s) = stateCmdSyslog s" "osStop (rcv_call s) = osStop s" "wire (pTcp (rcv_call s)) = wire (pTcp s)"
  "sessType (rcv_call s) = sessType s" "osRecv (pTcp (rcv_call s)) = osRecv (pTcp s)" "bAutoRetry (rcv_call s) = bAutoRetry s"
  "recvNo (pTcp (rcv_call s)) = recvNo (pTcp s) + 1" "pCurrRcvFrame (rcv_call s) = pCurrRcvFrame s" "memFrame (rcv_call s) = memFrame s"
  "maxDataSize (rcv_call s) = maxDataSize s" "delivered (rcv_call s) = delivered s" "pSrv (rcv_call s) = pSrv s"
  "waitNo (rcv_call s) = waitNo s" "unackedLst (rcv_call s) = unackedLst s"
  by (simp_all add: rcv_call_def)

lemma unacked_cong:
  assumes "sendbufs s' = sendbufs s" "unackedLst s' = unackedLst s" "nextSendbuf s' = nextSendbuf s" "lenUnackedLst s' = lenUnackedLst s"
  shows "unacked_is s' xs = unacked_is s xs"
proof -
  have "holds_frame s' = holds_frame s" using assms(1) by (intro ext) (simp add: holds_frame_def)
  then show ?thesis using assms(2-4) by (simp add: unacked_is_def)
qed

lemma client_rcv_call: "client_at (rcv_call s) xs = client_at s xs"
proof -
  have "link_ok (rcv_call s) = link_ok s"
    by (simp add: rcv_call_def link_ok_def mem_ok_def tcp_live_def patient_def)
  moreover have "unacked_is (rcv_call s) xs = unacked_is s xs" by (rule unacked_cong) (simp_all add: rcv_call_def)
  ultimately show ?thesis by (simp add: client_at_def)
qed

lemma rcv_nothing: "osRecv (pTcp s) (recvNo (pTcp s)) = WouldBlock \<Longrightarrow> relpSessRcvData s = Some (RELP_RET_OK, rcv_call s)"
  by (simp add: relpSessRcvData_def Let_def rcv_call_def)

lemma rcv_something:
  "osRecv (pTcp s) (recvNo (pTcp s)) = Received buf \<Longrightarrow> length buf \<le> 32768 \<Longrightarrow> relpSessRcvData s =
     do { (r, fr, s2) \<leftarrow> rcvOctets relpEngineDispatchFrame (memFrame s) (32768 * recvNo (pTcp s)) buf (pCurrRcvFrame s) (rcv_call s);
          Some (r, s2\<lparr>pCurrRcvFrame := fr\<rparr>) }"
  by (simp add: relpSessRcvData_def Let_def rcv_call_def)

lemma send_syslog_ok:
  assumes s: "client_at s xs" and w: "int (length xs) < sizeWindow s"
    and r: "osRecv (pTcp s) (recvNo (pTcp s)) = WouldBlock"
    and t: "0 \<le> sessTxnr s" "sessTxnr s < 1000000000" and m: "length m < 1000000000"
  shows "\<exists>s'. relpSessSendSyslog m s = Some (RELP_RET_OK, s') \<and> client_at s' (xs @ [(sessTxnr s, lit ''syslog'', m, NoHdlr)]) \<and>
    wire (pTcp s') = wire (pTcp s) @ frame_bytes (sessTxnr s) (lit ''syslog'') m \<and> sessTxnr s' = sessTxnr s + 1 \<and>
    commanded (rcv_call s) s'"
proof -
  have c: "client_at (rcv_call s) xs" using s by (simp add: client_rcv_call)
  have st: "sessState s = eRelpSessState_READY_TO_SEND" using s w by (simp add: client_at_def)
  have "relpSessWaitState eRelpSessState_READY_TO_SEND s = Some (RELP_RET_OK, rcv_call s)"
    using rcv_nothing [OF r] s st by (simp add: relpSessWaitState_def client_at_def)
  then have "relpSessSendSyslog m s = relpSessRawSendCommand (lit ''syslog'') m NoHdlr (rcv_call s)"
    using s st by (simp add: relpSessSendSyslog_def relpSessSendCommand_def chkRet_def client_at_def)
  moreover obtain s' where s': "relpSessRawSendCommand (lit ''syslog'') m NoHdlr (rcv_call s) = Some (RELP_RET_OK, s')"
    "unacked_is s' (xs @ [(sessTxnr s, lit ''syslog'', m, NoHdlr)])"
    "wire (pTcp s') = wire (pTcp s) @ frame_bytes (sessTxnr s) (lit ''syslog'') m" "sessTxnr s' = sessTxnr s + 1"
    "commanded (rcv_call s) s'"
    "sessState s' = (if int (length xs) + 1 \<ge> sizeWindow s then eRelpSessState_WINDOW_FULL else sessState s)"
    using rawSend_ok [of "rcv_call s" xs "lit ''syslog''" m NoHdlr] c t m by (auto simp: client_at_def lit_def)
  moreover have "client_at s' (xs @ [(sessTxnr s, lit ''syslog'', m, NoHdlr)])"
    using s' s st w by (simp add: client_at_def commanded_def)
  ultimately show ?thesis by auto
qed

text \<open>A client that sends a number of messages, one after the other.\<close>

fun sendMessages :: "byte list list \<Rightarrow> relpSess \<Rightarrow> (relpRetVal \<times> relpSess) option" where
  "sendMessages [] s = Some (RELP_RET_OK, s)"
| "sendMessages (m # ms) s = chkRet (relpSessSendSyslog m s) (sendMessages ms)"

fun syslog_recs :: "int \<Rightarrow> byte list list \<Rightarrow> frame_rec list" where
  "syslog_recs t [] = []"
| "syslog_recs t (m # ms) = (t, lit ''syslog'', m, NoHdlr) # syslog_recs (t + 1) ms"

text \<open>What sending has left as it was.\<close>

definition kept :: "relpSess \<Rightarrow> relpSess \<Rightarrow> bool" where
  "kept s s' \<longleftrightarrow> sizeWindow s' = sizeWindow s \<and> maxDataSize s' = maxDataSize s \<and> pCurrRcvFrame s' = pCurrRcvFrame s \<and>
     memFrame s' = memFrame s \<and> osRecv (pTcp s') = osRecv (pTcp s) \<and> pSrv s' = pSrv s"

lemma commanded_kept: "commanded (rcv_call s) s' \<Longrightarrow> kept s s'"
  by (simp add: commanded_def kept_def)

lemma kept_trans: "kept s s' \<Longrightarrow> kept s' s'' \<Longrightarrow> kept s s''"
  by (simp add: kept_def)

lemma send_messages_ok:
  assumes "client_at s xs" "int (length xs + length ms) \<le> sizeWindow s"
    and "\<forall>i < length ms. osRecv (pTcp s) (recvNo (pTcp s) + i) = WouldBlock"
    and "0 \<le> sessTxnr s" "sessTxnr s + int (length ms) \<le> 1000000000" "\<forall>m \<in> set ms. length m < 1000000000"
  shows "\<exists>s'. sendMessages ms s = Some (RELP_RET_OK, s') \<and> client_at s' (xs @ syslog_recs (sessTxnr s) ms) \<and>
    wire (pTcp s') = wire (pTcp s) @ syslog_frames (sessTxnr s) ms \<and> sessTxnr s' = sessTxnr s + int (length ms) \<and>
    recvNo (pTcp s') = recvNo (pTcp s) + length ms \<and> kept s s'"
  using assms
proof (induction ms arbitrary: s xs)
  case Nil
  then show ?case by (simp add: kept_def)
next
  case (Cons m ms)
  let ?x = "(sessTxnr s, lit ''syslog'', m, NoHdlr)"
  have t: "sessTxnr s < 1000000000" using Cons.prems(5) by simp
  obtain s1 where 1: "relpSessSendSyslog m s = Some (RELP_RET_OK, s1)" "client_at s1 (xs @ [?x])"
    "wire (pTcp s1) = wire (pTcp s) @ frame_bytes (sessTxnr s) (lit ''syslog'') m" "sessTxnr s1 = sessTxnr s + 1"
    "commanded (rcv_call s) s1"
    using send_syslog_ok [OF Cons.prems(1) _ _ Cons.prems(4) t, of m] Cons.prems(2,6) Cons.prems(3) [rule_format, of 0] by auto
  have k: "kept s s1" "recvNo (pTcp s1) = recvNo (pTcp s) + 1" using 1(5) by (simp_all add: commanded_kept) (simp add: commanded_def)
  have w: "\<forall>i < length ms. osRecv (pTcp s1) (recvNo (pTcp s1) + i) = WouldBlock"
    using Cons.prems(3) k by (auto simp: kept_def dest: spec [of _ "Suc _"])
  obtain s2 where 2: "sendMessages ms s1 = Some (RELP_RET_OK, s2)" "client_at s2 ((xs @ [?x]) @ syslog_recs (sessTxnr s1) ms)"
    "wire (pTcp s2) = wire (pTcp s1) @ syslog_frames (sessTxnr s1) ms" "sessTxnr s2 = sessTxnr s1 + int (length ms)"
    "recvNo (pTcp s2) = recvNo (pTcp s1) + length ms" "kept s1 s2"
    using Cons.IH [OF 1(2) _ w] Cons.prems(2,4-6) 1(4) k(1) by (auto simp: kept_def)
  show ?case using 1 2 k next_txnr [OF t] kept_trans [OF k(1) 2(6)] by (simp add: chkRet_def)
qed

section \<open>Answers\<close>

lemma find_unacked:
  "list_all2 (holds_frame s) ps (ys @ (t, c, d, hdlr) # zs) \<Longrightarrow> t \<notin> fst ` set ys \<Longrightarrow>
    findUnacked (sendbufs s) ps t = Some (Some (ps ! length ys))"
proof (induction ys arbitrary: ps)
  case Nil
  then show ?case by (auto simp: list_all2_Cons2 holds_frame_def built_def)
next
  case (Cons y ys)
  then show ?case by (auto simp: list_all2_Cons2 holds_frame_def built_def)
qed

lemma list_all2_delete:
  "list_all2 P ps (ys @ x # zs) \<Longrightarrow> distinct ps \<Longrightarrow> list_all2 P (remove1 (ps ! length ys) ps) (ys @ zs)"
proof (induction ys arbitrary: ps)
  case Nil
  then show ?case by (auto simp: list_all2_Cons2)
next
  case (Cons y ys)
  obtain q qs where ps: "ps = q # qs" "P q y" "list_all2 P qs (ys @ x # zs)" using Cons.prems(1) by (auto simp: list_all2_Cons2)
  then have "length ys < length qs" by (simp add: list_all2_lengthD)
  then have "qs ! length ys \<noteq> q" using ps(1) Cons.prems(2) by (metis distinct.simps(2) nth_mem)
  then show ?case using ps Cons.IH [OF ps(3)] Cons.prems(2) by simp
qed

definition took_answer :: "ptr \<Rightarrow> relpSess \<Rightarrow> relpSess" where
  "took_answer p s = (relpSessDelUnacked p s)\<lparr>sendbufs := (sendbufs s)(p := None)\<rparr>"

lemma took_answer_fields [simp]:
  "sizeWindow (took_answer p s) = sizeWindow s" "maxDataSize (took_answer p s) = maxDataSize s"
  "pCurrRcvFrame (took_answer p s) = pCurrRcvFrame s" "memFrame (took_answer p s) = memFrame s"
  "pTcp (took_answer p s) = pTcp s" "pSrv (took_answer p s) = pSrv s" "sessType (took_answer p s) = sessType s"
  "delivered (took_answer p s) = delivered s" "sessTxnr (took_answer p s) = sessTxnr s"
  "stateCmdSyslog (took_answer p s) = stateCmdSyslog s" "osStop (took_answer p s) = osStop s"
  "mem_ok (took_answer p s) = mem_ok s"
  by (simp_all add: took_answer_def relpSessDelUnacked_def Let_def mem_ok_def)

lemma unacked_took:
  assumes u: "unacked_is s (ys @ x # zs)"
  shows "unacked_is (took_answer (unackedLst s ! length ys) s) (ys @ zs)"
proof -
  let ?p = "unackedLst s ! length ys" let ?s = "took_answer ?p s"
  have l: "list_all2 (holds_frame s) (unackedLst s) (ys @ x # zs)" "distinct (unackedLst s)" using u by (simp_all add: unacked_is_def)
  have q: "unackedLst ?s = remove1 ?p (unackedLst s)" "lenUnackedLst ?s = lenUnackedLst s - 1" "nextSendbuf ?s = nextSendbuf s"
    "\<forall>q. q \<noteq> ?p \<longrightarrow> sendbufs ?s q = sendbufs s q"
    by (simp_all add: took_answer_def relpSessDelUnacked_def Let_def)
  have "list_all2 (holds_frame ?s) (remove1 ?p (unackedLst s)) (ys @ zs)"
    by (rule held_frames [OF list_all2_delete [OF l]]) (use q(4) l(2) in auto)
  then show ?thesis using u q by (auto simp: unacked_is_def dest: notin_set_remove1)
qed

lemma client_took:
  assumes "client_at s (ys @ x # zs)"
  shows "client_at (took_answer (unackedLst s ! length ys) s) (ys @ zs)"
proof -
  let ?s = "took_answer (unackedLst s ! length ys) s"
  have u: "unacked_is s (ys @ x # zs)" using assms by (simp add: client_at_def)
  then have "lenUnackedLst s = int (length (ys @ x # zs))" by (simp add: unacked_is_def)
  then have "sessState ?s = (if int (length (ys @ zs)) \<ge> sizeWindow s then eRelpSessState_WINDOW_FULL else eRelpSessState_READY_TO_SEND)"
    using assms by (auto simp: client_at_def took_answer_def relpSessDelUnacked_def Let_def)
  then show ?thesis using assms unacked_took [OF u] by (simp add: client_at_def link_ok_def)
qed

text \<open>The header of the answer a server sends to a message it has taken.\<close>

lemma ok_answer: "\<exists>f'. readRspHdr (wire_frame t c (lit ''200 OK'') 6) = Some (RELP_RET_OK, 200, f') \<and> txnr f' = t"
  by (simp add: readRspHdr_def rspDigit_def nextC_def relpFrameGetNextC_def rd_def wire_frame_def lit_def rspText.simps isdigit_def)

lemma lit_rsp: "cstr (lit ''rsp'' @ replicate 30 0) = Some (lit ''rsp'')"
  by (simp add: cstr_def lit_def)

lemma answer_taken:
  assumes c: "client_at s (ys @ (t, c, d, NoHdlr) # zs)" and n: "t \<notin> fst ` set ys"
  shows "relpEngineDispatchFrame (wire_frame t (lit ''rsp'') (lit ''200 OK'') 6) s =
    Some (RELP_RET_OK, took_answer (unackedLst s ! length ys) s)"
proof -
  let ?p = "unackedLst s ! length ys" and ?f = "wire_frame t (lit ''rsp'') (lit ''200 OK'') 6"
  obtain f' where f': "readRspHdr ?f = Some (RELP_RET_OK, 200, f')" "txnr f' = t" using ok_answer by blast
  have l: "list_all2 (holds_frame s) (unackedLst s) (ys @ (t, c, d, NoHdlr) # zs)" using c by (simp add: client_at_def unacked_is_def)
  have "holds_frame s ?p (t, c, d, NoHdlr)"
    using list_all2_nthD2 [OF l, of "length ys"] by simp
  then obtain sb where sb: "sendbufs s ?p = Some sb" "sbRspHdlr sb = NoHdlr" by (auto simp: holds_frame_def built_def)
  have "relpSessGetUnacked t s = Some (RELP_RET_OK, Some ?p, relpSessDelUnacked ?p s)"
    using find_unacked [OF l n] by (simp add: relpSessGetUnacked_def)
  moreover have "sendbufs (relpSessDelUnacked ?p s) = sendbufs s" by (simp add: relpSessDelUnacked_def Let_def)
  ultimately have "relpSCRsp ?f s = Some (RELP_RET_OK, took_answer ?p s)"
    using f' sb by (simp add: relpSCRsp_def relpSendbufDestruct_def took_answer_def)
  then show ?thesis by (simp add: relpEngineDispatchFrame_def wire_frame_def lit_rsp) (simp add: lit_def)
qed

lemma rcv_answer:
  assumes c: "client_at s (ys @ (t, c, d, NoHdlr) # zs)" and n: "t \<notin> fst ` set ys"
    and t: "0 \<le> t" "t < 1000000000" and m: "6 \<le> maxDataSize s"
  shows "\<exists>s'. rcvOctets relpEngineDispatchFrame always i (frame_bytes t (lit ''rsp'') (lit ''200 OK'') @ cs) None s =
      rcvOctets relpEngineDispatchFrame always (i + length (frame_bytes t (lit ''rsp'') (lit ''200 OK''))) cs None s' \<and>
    client_at s' (ys @ zs) \<and> kept s s' \<and> wire (pTcp s') = wire (pTcp s) \<and> sessTxnr s' = sessTxnr s \<and> delivered s' = delivered s"
proof -
  let ?d = "lit ''200 OK''" and ?s = "rcv_sess t (lit ''200 OK'') 6 s" and ?p = "unackedLst s ! length ys"
  have ty: "sessType s = eRelpSess_Client" using c by (simp add: client_at_def)
  have s: "?s = s\<lparr>maxCharsStore := 6\<rparr>" using ty by (simp add: rcv_sess_def Let_def) (simp add: lit_def)
  have "unacked_is ?s = unacked_is s" by (intro ext unacked_cong) (simp_all add: s)
  then have c': "client_at ?s (ys @ (t, c, d, NoHdlr) # zs)" using c by (simp add: s client_at_def link_ok_def mem_ok_def)
  have "relpEngineDispatchFrame (wire_frame t (lit ''rsp'') ?d 6) ?s = Some (RELP_RET_OK, took_answer ?p ?s)"
    using answer_taken [OF c' n] by (simp add: s)
  moreover have "store_limit s (length ?d) = Some 6" using m by (simp add: store_limit_def)
  moreover have "\<forall>x \<in> set (lit ''rsp''). isalpha x" by (simp add: lit_def isalpha_def)
  ultimately have "rcvOctets relpEngineDispatchFrame always i (frame_bytes t (lit ''rsp'') ?d @ cs) None s =
      rcvOctets relpEngineDispatchFrame always (i + length (frame_bytes t (lit ''rsp'') ?d)) cs None (took_answer ?p ?s)"
    using frame_delivered [of t s "lit ''rsp''" ?d 6 relpEngineDispatchFrame i cs] t ty by simp
  moreover have "client_at (took_answer ?p ?s) (ys @ zs)" using client_took [OF c'] by (simp add: s)
  ultimately show ?thesis by (intro exI [of _ "took_answer ?p ?s"]) (simp add: kept_def, simp add: s)
qed

lemma answers_taken:
  assumes "client_at s (syslog_recs t ms)" "0 \<le> t" "t + int (length ms) \<le> 1000000000" "6 \<le> maxDataSize s"
  shows "\<exists>s'. rcvOctets relpEngineDispatchFrame always i (rsp_frames t (length ms)) None s = Some (RELP_RET_OK, None, s') \<and>
    client_at s' [] \<and> kept s s' \<and> sessTxnr s' = sessTxnr s"
  using assms
proof (induction ms arbitrary: s t i)
  case Nil
  then show ?case by (simp add: kept_def)
next
  case (Cons m ms)
  let ?R = "frame_bytes t (lit ''rsp'') (lit ''200 OK'')"
  have t: "t < 1000000000" using Cons.prems(3) by simp
  have c: "client_at s ([] @ (t, lit ''syslog'', m, NoHdlr) # syslog_recs (t + 1) ms)" using Cons.prems(1) by simp
  obtain s1 where 1: "rcvOctets relpEngineDispatchFrame always i (?R @ rsp_frames (t + 1) (length ms)) None s =
      rcvOctets relpEngineDispatchFrame always (i + length ?R) (rsp_frames (t + 1) (length ms)) None s1"
    "client_at s1 (syslog_recs (t + 1) ms)" "kept s s1" "sessTxnr s1 = sessTxnr s"
    using rcv_answer [OF c _ Cons.prems(2) t Cons.prems(4), of i "rsp_frames (t + 1) (length ms)"] by auto
  obtain s2 where 2: "rcvOctets relpEngineDispatchFrame always (i + length ?R) (rsp_frames (t + 1) (length ms)) None s1 =
      Some (RELP_RET_OK, None, s2)" "client_at s2 []" "kept s1 s2" "sessTxnr s2 = sessTxnr s1"
    using Cons.IH [OF 1(2), of "i + length ?R"] Cons.prems(2-4) 1(3) by (auto simp: kept_def)
  show ?case using 1(1,4) 2 next_txnr [OF t] kept_trans [OF 1(3) 2(3)] by simp
qed

section \<open>Client and server\<close>

text \<open>
  C3: Messages sent over a RELP session arrive once, in order, and are acknowledged: when the
  window has room for them, the client puts the frames of all messages on the wire; the server
  that is fed with these bytes hands over exactly the messages in their order and puts one
  answer to each on the wire; and the client that is fed with the answers has no frame left
  unacknowledged and may send again.
\<close>

theorem messages_acknowledged:
  assumes "client_at c []" and "int (length ms) \<le> sizeWindow c" and "0 < sizeWindow c"
    and "\<forall>i < length ms. osRecv (pTcp c) (recvNo (pTcp c) + i) = WouldBlock"
    and "osRecv (pTcp c) (recvNo (pTcp c) + length ms) = Received (rsp_frames (sessTxnr c) (length ms))"
    and "memFrame c = always" and "pCurrRcvFrame c = None" and "6 \<le> maxDataSize c"
    and "ready_server s" and "sessTxnr s = sessTxnr c" and "memFrame s = always" and "pCurrRcvFrame s = None"
    and "osRecv (pTcp s) (recvNo (pTcp s)) = Received (syslog_frames (sessTxnr c) ms)"
    and "0 < sessTxnr c" and "sessTxnr c + int (length ms) \<le> 1000000000"
    and "\<forall>m \<in> set ms. length m \<le> maxDataSize s \<and> length m < 1000000000"
    and "length (syslog_frames (sessTxnr c) ms) \<le> 32768" and "length (rsp_frames (sessTxnr c) (length ms)) \<le> 32768"
  shows "\<exists>c' s' c''. sendMessages ms c = Some (RELP_RET_OK, c') \<and>
    wire (pTcp c') = wire (pTcp c) @ syslog_frames (sessTxnr c) ms \<and>
    relpSessRcvData s = Some (RELP_RET_OK, s') \<and> delivered s' = delivered s @ ms \<and>
    wire (pTcp s') = wire (pTcp s) @ rsp_frames (sessTxnr c) (length ms) \<and>
    relpSessRcvData c' = Some (RELP_RET_OK, c'') \<and> unackedLst c'' = [] \<and>
    sessState c'' = eRelpSessState_READY_TO_SEND"
proof -
  obtain c' where c': "sendMessages ms c = Some (RELP_RET_OK, c')" "client_at c' (syslog_recs (sessTxnr c) ms)"
    "wire (pTcp c') = wire (pTcp c) @ syslog_frames (sessTxnr c) ms" "recvNo (pTcp c') = recvNo (pTcp c) + length ms" "kept c c'"
    using send_messages_ok [OF assms(1), of ms] assms(2,4,14-16) by auto
  obtain s' where s': "relpSessRcvData s = Some (RELP_RET_OK, s')" "delivered s' = delivered s @ ms"
    "wire (pTcp s') = wire (pTcp s) @ rsp_frames (sessTxnr c) (length ms)"
    using messages_delivered_in_order [OF assms(9), of ms] assms(10-17) by auto
  have r: "client_at (rcv_call c') (syslog_recs (sessTxnr c) ms)" using c'(2) by (simp add: client_rcv_call)
  obtain c2 where c2: "rcvOctets relpEngineDispatchFrame always (32768 * recvNo (pTcp c')) (rsp_frames (sessTxnr c) (length ms)) None
      (rcv_call c') = Some (RELP_RET_OK, None, c2)" "client_at c2 []" "kept (rcv_call c') c2"
    using answers_taken [OF r, of "32768 * recvNo (pTcp c')"] assms(8,14,15) c'(5) by (auto simp: kept_def)
  have "relpSessRcvData c' = Some (RELP_RET_OK, c2\<lparr>pCurrRcvFrame := None\<rparr>)"
    using rcv_something [of c'] c'(4,5) c2(1) assms(5-7,18) by (simp add: kept_def)
  moreover have "unackedLst c2 = []" "sessState c2 = eRelpSessState_READY_TO_SEND"
    using c2(2,3) c'(5) assms(3) by (auto simp: client_at_def unacked_is_def kept_def)
  ultimately show ?thesis using c' s' by auto
qed

section \<open>Sending again\<close>

text \<open>The frames \<open>xs\<close> with new numbers, from \<open>t\<close> on, and their bytes.\<close>

fun renumbered :: "int \<Rightarrow> frame_rec list \<Rightarrow> frame_rec list" where
  "renumbered t [] = []"
| "renumbered t ((t0, c, d, hdlr) # xs) = (t, c, d, hdlr) # renumbered (t + 1) xs"

fun rec_bytes :: "frame_rec \<Rightarrow> byte list" where
  "rec_bytes (t, c, d, hdlr) = frame_bytes t c d"

lemma resendAll:
  assumes "link_ok s" "list_all2 (holds_frame s) ps xs" "distinct ps" "0 \<le> sessTxnr s" "sessTxnr s + int (length xs) \<le> 1000000000"
  shows "\<exists>s'. resendLoop ps s = Some (RELP_RET_OK, s') \<and> link_ok s' \<and>
    list_all2 (holds_frame s') ps (renumbered (sessTxnr s) xs) \<and> (\<forall>q. q \<notin> set ps \<longrightarrow> sendbufs s' q = sendbufs s q) \<and>
    wire (pTcp s') = wire (pTcp s) @ concat (map rec_bytes (renumbered (sessTxnr s) xs)) \<and>
    sessTxnr s' = sessTxnr s + int (length xs) \<and> unackedLst s' = unackedLst s \<and> lenUnackedLst s' = lenUnackedLst s \<and>
    nextSendbuf s' = nextSendbuf s"
  using assms
proof (induction ps arbitrary: s xs)
  case Nil
  then show ?case by auto
next
  case (Cons p ps)
  obtain t0 c d hdlr ys where xs: "xs = (t0, c, d, hdlr) # ys" "holds_frame s p (t0, c, d, hdlr)" "list_all2 (holds_frame s) ps ys"
    using Cons.prems(2) by (auto simp: list_all2_Cons1)
  then obtain sb where sb: "sendbufs s p = Some sb" "built sb t0 c d hdlr" by (auto simp: holds_frame_def)
  let ?t = "sessTxnr s"
  have t: "?t < 1000000000" using Cons.prems(5) xs by simp
  have n9: "length (numtxt ?t) \<le> 9" using numtxt_nat_length [of "nat ?t" 9] t Cons.prems(4) by simp
  obtain sb1 where sb1: "relpFrameRewriteTxnr sb ?t = Some (RELP_RET_OK, sb1)" "built sb1 ?t c d hdlr"
    using rewrite_built [OF sb(2) n9] by blast
  let ?sb = "sb1\<lparr>bufPtr := 0\<rparr>" and ?F = "frame_bytes ?t c d"
  let ?s1 = "s\<lparr>sessTxnr := ?t + 1, sendbufs := (sendbufs s)(p \<mapsto> ?sb)\<rparr>"
  have b: "built ?sb ?t c d hdlr" using sb1(2) by (auto simp: built_def)
  have l: "mem_ok s" "tcp_live (pTcp s)" "patient (pTcp s)" using Cons.prems(1) by (simp_all add: link_ok_def)
  obtain t' k where sd: "sendAllLoop p (length ?F) ?s1 = Some (RELP_RET_OK, sendall_end ?s1 p (?sb\<lparr>bufPtr := k\<rparr>) t')"
    "same_os (pTcp s) t'" "wire t' = wire (pTcp s) @ ?F"
    using sendAll_ok [of ?s1 p ?sb ?F] built_sendable [OF b] frame_bytes_ne l by auto
  define s2 where "s2 = sendall_end ?s1 p (?sb\<lparr>bufPtr := k\<rparr>) t'"
  have s2: "sessTxnr s2 = ?t + 1" "sendbufs s2 = (sendbufs s)(p \<mapsto> ?sb\<lparr>bufPtr := k\<rparr>)" "pTcp s2 = t'" "unackedLst s2 = unackedLst s"
    "lenUnackedLst s2 = lenUnackedLst s" "nextSendbuf s2 = nextSendbuf s" "mem_ok s2"
    using l(1) by (simp_all add: s2_def sendall_end_def mem_ok_def)
  have "sbLenData ?sb - bufPtr ?sb = length ?F" using b by (simp add: built_def)
  then have "relpSendbufSendAll p False ?s1 = Some (RELP_RET_OK, s2)"
    using sd(1) by (simp add: relpSendbufSendAll_def s2_def)
  then have r: "resendLoop (p # ps) s = resendLoop ps s2"
    using sb(1) sb1(1) next_txnr [OF t] by (simp add: Let_def chkRet_def)
  have link: "link_ok s2" using s2 sd(2) l same_os_live [OF sd(2)] same_os_patient [OF sd(2)] by (simp add: link_ok_def)
  have "list_all2 (holds_frame s2) ps ys"
    by (rule held_frames [OF xs(3)]) (use s2(2) Cons.prems(3) in auto)
  then obtain s' where s': "resendLoop ps s2 = Some (RELP_RET_OK, s')" "link_ok s'"
    "list_all2 (holds_frame s') ps (renumbered (?t + 1) ys)" "\<forall>q. q \<notin> set ps \<longrightarrow> sendbufs s' q = sendbufs s2 q"
    "wire (pTcp s') = wire (pTcp s2) @ concat (map rec_bytes (renumbered (?t + 1) ys))"
    "sessTxnr s' = ?t + 1 + int (length ys)" "unackedLst s' = unackedLst s2" "lenUnackedLst s' = lenUnackedLst s2"
    "nextSendbuf s' = nextSendbuf s2"
    using Cons.IH [OF link, of ys] Cons.prems(3-5) s2(1) xs(1) by auto
  have "built (?sb\<lparr>bufPtr := k\<rparr>) ?t c d hdlr" using b by (auto simp: built_def)
  then have "holds_frame s' p (?t, c, d, hdlr)" using s'(4) s2(2) Cons.prems(3) by (simp add: holds_frame_def)
  then show ?case using r s' s2 sd(3) xs(1) by (intro exI [of _ s']) auto
qed

text \<open>
  C23: Every frame still unacknowledged is sent again when a session is re-established: all of
  them, complete even if a part had been sent before, in their order and under consecutive new
  numbers, and they stay unacknowledged under these numbers, so that the answers to come find
  them.
\<close>

theorem unacked_sent_again:
  assumes "link_ok s" and "unacked_is s xs" and "0 \<le> sessTxnr s" and "sessTxnr s + int (length xs) \<le> 1000000000"
  shows "\<exists>s'. resendLoop (unackedLst s) s = Some (RELP_RET_OK, s') \<and>
    wire (pTcp s') = wire (pTcp s) @ concat (map rec_bytes (renumbered (sessTxnr s) xs)) \<and>
    unacked_is s' (renumbered (sessTxnr s) xs) \<and> sessTxnr s' = sessTxnr s + int (length xs)"
proof -
  have u: "list_all2 (holds_frame s) (unackedLst s) xs" "distinct (unackedLst s)" using assms(2) by (simp_all add: unacked_is_def)
  have len: "length (renumbered t xs) = length xs" for t by (induction t xs rule: renumbered.induct) simp_all
  show ?thesis using resendAll [OF assms(1) u assms(3,4)] assms(2) len by (auto simp: unacked_is_def)
qed

section \<open>The end of the transaction numbers\<close>

text \<open>A number of commands, each sent whatever became of those before; the results.\<close>

fun rawCommands :: "(byte list \<times> byte list \<times> rspHdlr) list \<Rightarrow> relpSess \<Rightarrow> (relpRetVal list \<times> relpSess) option" where
  "rawCommands [] s = Some ([], s)"
| "rawCommands ((c, d, hdlr) # xs) s =
     do { (r, s1) \<leftarrow> relpSessRawSendCommand c d hdlr s; (rs, s2) \<leftarrow> rawCommands xs s1; Some (r # rs, s2) }"

lemma ten_digits: "length (numtxt 1000000000) = 10"
  by (simp add: numtxt_def digs.simps)

lemma no_number_left:
  assumes "sessTxnr s = 1000000000"
  shows "\<exists>s'. relpSessRawSendCommand c d hdlr s \<in> {Some (RELP_RET_INVALID_TXNR, s'), Some (RELP_RET_OUT_OF_MEMORY, s')} \<and>
    sessTxnr s' = 1000000000 \<and> pTcp s' = pTcp s \<and> sessState s' = sessState s"
  using assms ten_digits
  by (cases "memOK s (memNo s)")
    (simp_all add: relpSessRawSendCommand_def newSendbuf_def relpFrameBuildSendbuf_def relpSendbufConstruct_def Let_def)

lemma commands_refused:
  "sessTxnr s = 1000000000 \<Longrightarrow> \<exists>rs s'. rawCommands xs s = Some (rs, s') \<and> length rs = length xs \<and> RELP_RET_OK \<notin> set rs \<and>
    pTcp s' = pTcp s \<and> sessState s' = sessState s"
proof (induction xs arbitrary: s)
  case (Cons x xs)
  obtain c d hdlr where x: "x = (c, d, hdlr)" by (cases x)
  obtain s1 r where 1: "relpSessRawSendCommand c d hdlr s = Some (r, s1)" "r \<noteq> RELP_RET_OK" "sessTxnr s1 = 1000000000"
    "pTcp s1 = pTcp s" "sessState s1 = sessState s"
    using no_number_left [OF Cons.prems, of c d hdlr] by auto
  then show ?case using Cons.IH [OF 1(3)] x by auto
qed simp

text \<open>
  A session that has used the number 999999999 can send nothing any more: the next number
  should be 1 but becomes 1000000000, which has too many digits for a frame, so every later
  command is refused, nothing is sent, and the session is not even marked broken, which would
  make the client connect again and start over with 1.
\<close>

theorem numbers_run_out:
  assumes "link_ok s" and "unacked_is s xs" and "sessTxnr s = 999999999" and "length c < 4294967296" and "length d < 1000000000"
    and "int (length xs) + 1 < sizeWindow s"
  shows "\<exists>s'. relpSessRawSendCommand c d hdlr s = Some (RELP_RET_OK, s') \<and>
    (\<forall>cs. \<exists>rs s''. rawCommands cs s' = Some (rs, s'') \<and> length rs = length cs \<and> RELP_RET_OK \<notin> set rs \<and>
       pTcp s'' = pTcp s' \<and> sessState s'' = sessState s)"
proof -
  obtain s' where s': "relpSessRawSendCommand c d hdlr s = Some (RELP_RET_OK, s')" "sessTxnr s' = 1000000000" "sessState s' = sessState s"
    using rawSend_ok [OF assms(1,2) _ _ assms(4,5), of hdlr] assms(3,6) by auto
  then show ?thesis using commands_refused [OF s'(2)] by auto
qed

section \<open>A blocking send ends\<close>

text \<open>
  Sending a buffer ends once its deadline has passed, whatever the operating system answers
  to the calls of \<open>send\<close>: it returns, the bytes on the wire are a beginning of the buffer's
  bytes, and all of them when it reports success.
\<close>

theorem blocking_send_returns:
  assumes "sendbufs s p = Some sb" and "sendable sb bs" and "\<forall>n \<ge> N. osExpired (pTcp s) n"
  shows "\<exists>r s' n. relpSendbufSendAll p b s = Some (r, s') \<and> r \<in> {RELP_RET_OK, RELP_RET_IO_ERR, RELP_RET_OUT_OF_MEMORY} \<and>
    n \<le> length bs \<and> wire (pTcp s') = wire (pTcp s) @ take n bs \<and> (r = RELP_RET_OK \<longrightarrow> n = length bs)"
proof -
  have l: "sbLenData sb - bufPtr sb = length bs" using assms(2) by (simp add: sendable_def)
  obtain r s' n where s': "sendAllLoop p (length bs) s = Some (r, s')" "r \<in> {RELP_RET_OK, RELP_RET_IO_ERR}" "n \<le> length bs"
    "wire (pTcp s') = wire (pTcp s) @ take n bs" "r = RELP_RET_OK \<longrightarrow> n = length bs" "sendbufs s' p \<noteq> None"
    using sendAll_deadline [OF assms] by blast
  show ?thesis
  proof (cases "r = RELP_RET_OK \<and> b")
    case True
    then show ?thesis using s' l assms(1)
      by (cases "memOK s' (memNo s')")
        (auto simp: relpSendbufSendAll_def relpSessAddUnacked_def Let_def relpSendbufDestruct_def
           intro!: exI [of _ "length bs"])
  next
    case False
    then show ?thesis using s' l assms(1) by (intro exI [of _ r] exI [of _ s'] exI [of _ n]) (auto simp: relpSendbufSendAll_def)
  qed
qed

section \<open>Examples\<close>

definition clt_ex :: "(nat \<Rightarrow> recv_result) \<Rightarrow> relpSess" where
  "clt_ex rcv = sess_ex eRelpSess_Client (tcp_ex (\<lambda>_. Wrote 5) rcv)"

lemma clt_ex_link: "link_ok (clt_ex rcv)"
  by (simp add: clt_ex_def link_ok_def tcp_ex_live patient_def) (simp add: tcp_ex_def)

lemma clt_ex_unacked: "unacked_is (clt_ex rcv) []"
  by (simp add: clt_ex_def unacked_is_def) (simp add: sess_ex_def)

lemma clt_ex_fields [simp]:
  "sessTxnr (clt_ex rcv) = 2" "sizeWindow (clt_ex rcv) = 128" "memFrame (clt_ex rcv) = always" "pCurrRcvFrame (clt_ex rcv) = None"
  "maxDataSize (clt_ex rcv) = 131072" "osRecv (pTcp (clt_ex rcv)) = rcv" "recvNo (pTcp (clt_ex rcv)) = 0"
  by (simp_all add: clt_ex_def) (simp add: sess_ex_def)

lemma clt_ex_at: "client_at (clt_ex rcv) []"
  using clt_ex_link clt_ex_unacked by (simp add: client_at_def) (simp add: clt_ex_def sess_ex_def)

lemma rsp_ex_small: "length (rsp_frames 2 (length ms_ex)) \<le> 32768"
  using frame_small [of 2 "lit ''200 OK''" "lit ''rsp''"] frame_small [of 3 "lit ''200 OK''" "lit ''rsp''"]
    frame_small [of 4 "lit ''200 OK''" "lit ''rsp''"]
    numtxt_nat_length [of 2 9] numtxt_nat_length [of 3 9] numtxt_nat_length [of 4 9]
  by (simp add: ms_ex_def next_txnr)

theorem messages_acknowledged_witness:
  "\<exists>c' s' c''. sendMessages ms_ex (clt_ex (\<lambda>n. if n < 3 then WouldBlock else Received (rsp_frames 2 3))) = Some (RELP_RET_OK, c') \<and>
    wire (pTcp c') = wire (pTcp (clt_ex (\<lambda>n. if n < 3 then WouldBlock else Received (rsp_frames 2 3)))) @ syslog_frames 2 ms_ex \<and>
    relpSessRcvData (sess_ex eRelpSess_Server (tcp_ex (\<lambda>_. Wrote 5) (\<lambda>_. Received (syslog_frames 2 ms_ex)))) = Some (RELP_RET_OK, s') \<and>
    delivered s' = [] @ ms_ex \<and> wire (pTcp s') = [] @ rsp_frames 2 3 \<and>
    relpSessRcvData c' = Some (RELP_RET_OK, c'') \<and> unackedLst c'' = [] \<and> sessState c'' = eRelpSessState_READY_TO_SEND"
proof -
  have n: "length ms_ex = 3" by (simp add: ms_ex_def)
  show ?thesis
    using messages_acknowledged [OF clt_ex_at [of "\<lambda>n. if n < 3 then WouldBlock else Received (rsp_frames 2 3)"], of ms_ex,
      OF _ _ _ _ _ _ _ srv_ex_ready [of "\<lambda>_. Received (syslog_frames 2 ms_ex)"]] ms_ex_small rsp_ex_small
    unfolding n by (simp add: ms_ex_def lit_def)
qed

text \<open>A client that waits for the answer to one message.\<close>

definition waiting_ex :: relpSess where
  "waiting_ex = snd (the (relpSessRawSendCommand (lit ''syslog'') [65] NoHdlr (clt_ex (\<lambda>_. WouldBlock))))"

lemma waiting_ex_ok: "link_ok waiting_ex \<and> unacked_is waiting_ex [(2, lit ''syslog'', [65], NoHdlr)] \<and> sessTxnr waiting_ex = 3"
  using rawSend_ok [OF clt_ex_link clt_ex_unacked, of "\<lambda>_. WouldBlock" "lit ''syslog''" "[65]" NoHdlr]
  by (auto simp: waiting_ex_def commanded_def lit_def)

theorem unacked_sent_again_witness:
  "\<exists>s'. resendLoop (unackedLst waiting_ex) waiting_ex = Some (RELP_RET_OK, s') \<and>
    wire (pTcp s') = wire (pTcp waiting_ex) @ frame_bytes 3 (lit ''syslog'') [65] \<and>
    unacked_is s' [(3, lit ''syslog'', [65], NoHdlr)] \<and> sessTxnr s' = 4"
  using unacked_sent_again [of waiting_ex "[(2, lit ''syslog'', [65], NoHdlr)]"] waiting_ex_ok by simp

lemma clt_ex_txnr: "link_ok ((clt_ex rcv)\<lparr>sessTxnr := t\<rparr>)" "unacked_is ((clt_ex rcv)\<lparr>sessTxnr := t\<rparr>) []"
  using clt_ex_link [of rcv] clt_ex_unacked [of rcv] unacked_cong [of "(clt_ex rcv)\<lparr>sessTxnr := t\<rparr>" "clt_ex rcv"]
  by (simp_all add: link_ok_def mem_ok_def)

theorem numbers_run_out_witness:
  "\<exists>s'. relpSessRawSendCommand (lit ''syslog'') [65] NoHdlr ((clt_ex (\<lambda>_. WouldBlock))\<lparr>sessTxnr := 999999999\<rparr>) = Some (RELP_RET_OK, s') \<and>
    (\<forall>cs. \<exists>rs s''. rawCommands cs s' = Some (rs, s'') \<and> length rs = length cs \<and> RELP_RET_OK \<notin> set rs \<and>
       pTcp s'' = pTcp s' \<and> sessState s'' = sessState ((clt_ex (\<lambda>_. WouldBlock))\<lparr>sessTxnr := 999999999\<rparr>))"
  by (rule numbers_run_out [OF clt_ex_txnr]) (simp_all add: lit_def)

definition sb_ex :: relpSendbuf where
  "sb_ex = \<lparr>sbData = Some (replicate 8 None @ map Some (lit ''2 close 0'')), sbTxnr = 2, sbRspHdlr = CBrspClose, sbLenData = 9,
     sbLenTxnr = 1, bufPtr = 0\<rparr>"

definition stalled_ex :: relpSess where
  "stalled_ex = (clt_ex (\<lambda>_. WouldBlock))\<lparr>sendbufs := [0 \<mapsto> sb_ex],
     pTcp := \<lparr>osSend = (\<lambda>n. if n = 0 then Wrote 4 else TryAgain), osWait = (\<lambda>_. True), osExpired = (\<lambda>n. n \<ge> 3), sendNo = 0,
              wire = [], osRecv = (\<lambda>_. WouldBlock), recvNo = 0\<rparr>\<rparr>"

theorem blocking_send_returns_witness:
  "\<exists>r s' n. relpSendbufSendAll 0 True stalled_ex = Some (r, s') \<and> r \<in> {RELP_RET_OK, RELP_RET_IO_ERR, RELP_RET_OUT_OF_MEMORY} \<and>
    n \<le> length (lit ''2 close 0'') \<and> wire (pTcp s') = wire (pTcp stalled_ex) @ take n (lit ''2 close 0'') \<and>
    (r = RELP_RET_OK \<longrightarrow> n = length (lit ''2 close 0''))"
proof (rule blocking_send_returns)
  show "sendable sb_ex (lit ''2 close 0'')" by (simp add: sendable_def sb_ex_def lit_def)
  show "\<forall>n \<ge> 3. osExpired (pTcp stalled_ex) n" by (simp add: stalled_ex_def)
qed (simp add: stalled_ex_def)

end
