(* ===== verification/RelpOpen.thy ===== *)
theory RelpOpen
  imports RelpClient RelpOffers
begin

text \<open>
  Opening a RELP session: the offers of the client in its \<open>open\<close> frame, the server's choice and
  answer, and the client taking it. The two sides agree on a version and on the command
  \<open>syslog\<close> when both know it; what a connection attempt that times out leaves behind.
\<close>

section \<open>The offers of a session\<close>

definition offer_list :: "int \<Rightarrow> byte list \<Rightarrow> bool \<Rightarrow> (byte list \<times> byte list list) list" where
  "offer_list v sw b = [(lit ''relp_version'', [numtxt v]),
     (lit ''relp_software'', [lit ''librelp'', sw, lit ''http://librelp.adiscon.com'']),
     (lit ''commands'', if b then [lit ''syslog''] else [])]"

text \<open>A session whose offers fit in their text: a printable software name and a small version.\<close>

definition can_offer :: "relpSess \<Rightarrow> bool" where
  "can_offer s \<longleftrightarrow> mem_ok s \<and> value_ok (engSoftware s) \<and> 0 \<le> protocolVersion s \<and> protocolVersion s \<le> 100000000 \<and>
     stateCmdSyslog s \<in> {eRelpCmdState_Enabled, eRelpCmdState_Desired, eRelpCmdState_Required}"

lemma offerInt_dval:
  "\<forall>d \<in> set v. isdigit d \<Longrightarrow> 0 \<le> n \<Longrightarrow> dval n v \<le> 100000000 \<Longrightarrow> offerInt n v = Some (dval n v)"
proof (induction v arbitrary: n)
  case (Cons d v)
  then have d: "isdigit d" "48 \<le> uint d" "uint d \<le> 57" using digit_uint [of d] by auto
  have "n * 10 + (uint d - 48) \<le> dval n (d # v)"
    using dval_mono [of "n * 10 + (uint d - 48)" v] Cons.prems d by (simp add: dval_Cons)
  then have "c_int (n * 10) = Some (n * 10)" "c_int (n * 10 + uint d) = Some (n * 10 + uint d)"
    "c_int (n * 10 + uint d - 48) = Some (n * 10 + uint d - 48)"
    using Cons.prems d by (simp_all add: c_int_def)
  moreover have "offerInt (n * 10 + uint d - 48) v = Some (dval n (d # v))"
    using Cons.IH [of "n * 10 + uint d - 48"] Cons.prems d by (simp add: dval_Cons algebra_simps)
  ultimately show ?case using d(1) by simp
qed (simp add: dval_def)

lemma version_ok:
  assumes "0 \<le> v" "v \<le> 100000000"
  shows "offerInt 0 (numtxt v) = Some v" "value_ok (numtxt v)"
proof -
  have d: "\<forall>d \<in> set (numtxt v). isdigit d" "dval 0 (numtxt v) = v" using numtxt_digits [OF assms(1)] by simp_all
  show 1: "offerInt 0 (numtxt v) = Some v" using offerInt_dval [of "numtxt v" 0] d assms by simp
  have "length (numtxt v) \<le> 9" using numtxt_nat_length [of "nat v" 9] assms by simp
  moreover have "numtxt v \<noteq> []" by (simp add: numtxt_def digs.simps [of "nat v"])
  moreover have "0 \<notin> set (numtxt v) \<and> 44 \<notin> set (numtxt v) \<and> 10 \<notin> set (numtxt v)" using d(1) by (auto simp: isdigit_def)
  ultimately show "value_ok (numtxt v)" using 1 by (simp add: value_ok_def)
qed

lemma offer_list_ok:
  "0 \<le> v \<Longrightarrow> v \<le> 100000000 \<Longrightarrow> value_ok sw \<Longrightarrow>
    \<forall>x \<in> set (offer_list v sw b). name_ok (fst x) \<and> (\<forall>y \<in> set (snd x). value_ok y)"
  using version_ok(2) by (auto simp: offer_list_def name_ok_def value_ok_def lit_def isdigit_def)

lemma offer_list_length:
  assumes "0 \<le> v" "v \<le> 100000000" "value_ok sw"
  shows "length (otext (offer_list v sw b)) \<le> 400" "otext (offer_list v sw b) \<noteq> []"
proof -
  have "length (numtxt v) \<le> 9" using numtxt_nat_length [of "nat v" 9] assms by simp
  then show "length (otext (offer_list v sw b)) \<le> 400" using assms(3) by (simp add: offer_list_def value_ok_def)
qed (simp add: offer_list_def lit_def)

lemma value_is_strncpy: "value_ok v \<Longrightarrow> value_is \<lparr>szVal = strncpy 256 v, intVal = i\<rparr> v"
  by (simp add: value_is_def value_ok_def cstr_strncpy)

lemma lit_values: "value_ok (lit ''librelp'')" "value_ok (lit ''http://librelp.adiscon.com'')" "value_ok (lit ''syslog'')"
  by (simp_all add: value_ok_def lit_def isdigit_def)

lemma constructOffers_ok:
  assumes "can_offer s"
  shows "\<exists>fs. relpSessConstructOffers (memAt s) s = Some (RELP_RET_OK, fs) \<and>
    list_all2 offer_is fs (offer_list (protocolVersion s) (engSoftware s) True)"
proof -
  have c: "mem_ok s" "value_ok (engSoftware s)" "0 \<le> protocolVersion s" "protocolVersion s \<le> 100000000"
    "stateCmdSyslog s \<in> {eRelpCmdState_Enabled, eRelpCmdState_Desired, eRelpCmdState_Required}" using assms by (simp_all add: can_offer_def)
  have sw: "\<exists>i. offerInt 0 (engSoftware s) = Some i" "\<exists>i. offerInt 0 (lit ''librelp'') = Some i"
    "\<exists>i. offerInt 0 (lit ''http://librelp.adiscon.com'') = Some i" "\<exists>i. offerInt 0 (lit ''syslog'') = Some i"
    using c(2) lit_values by (auto simp: value_ok_def)
  have nam: "cstr (strncpy 33 (lit ''relp_version'')) = Some (lit ''relp_version'')"
    "cstr (strncpy 33 (lit ''relp_software'')) = Some (lit ''relp_software'')" "cstr (strncpy 33 (lit ''commands'')) = Some (lit ''commands'')"
    by (simp_all add: lit_def cstr_strncpy)
  show ?thesis
    using c sw nam lit_values version_ok(2) [OF c(3,4)]
    by (auto simp: relpSessConstructOffers_def chkRet_def addValue_def relpOfferAdd_def relpOfferValueAdd_def mem_ok_def offer_list_def
        offer_is_def value_is_strncpy)
qed

section \<open>The server takes the offers\<close>

lemma rest_frame: "d \<noteq> [] \<Longrightarrow> rest_is (wire_frame t c d (length d)) d"
  by (simp add: rest_is_def wire_frame_def rd_def)

lemma mem_always: "mem_ok s \<Longrightarrow> memAt s = (\<lambda>_. True)"
  by (simp add: mem_ok_def)

lemma offers_read:
  assumes "mem_ok s" "0 \<le> v" "v \<le> 100000000" "value_ok sw" "rest_is f (otext (offer_list v sw b))"
  shows "\<exists>f'. relpOffersConstructFromFrame (memAt s) f = Some (RELP_RET_OK, rev (map mkoffer (offer_list v sw b)), f')"
  using construct_ok [OF offer_list_ok [OF assms(2-4)] assms(5)] mem_always [OF assms(1)] by simp

lemma read_names:
  "cstr (szName (mkoffer (lit ''relp_version'', vs))) = Some (lit ''relp_version'')"
  "cstr (szName (mkoffer (lit ''relp_software'', vs))) = Some (lit ''relp_software'')"
  "cstr (szName (mkoffer (lit ''commands'', vs))) = Some (lit ''commands'')"
  "cstr (szVal (mkvalue (lit ''syslog''))) = Some (lit ''syslog'')"
  by (simp_all add: mkoffer_def mkvalue_def lit_def cstr_strncpy)

lemma read_values: "pValueRoot (mkoffer (nm, vs)) = rev (map mkvalue vs)"
  by (simp add: mkoffer_def)

lemma names_distinct: "lit ''relp_software'' \<noteq> lit ''relp_version''" "lit ''relp_software'' \<noteq> lit ''commands''"
  "lit ''commands'' \<noteq> lit ''relp_version''"
  by (simp_all add: lit_def)

text \<open>The version both sides will use, and that the command \<open>syslog\<close> is enabled.\<close>

definition chosen :: "int \<Rightarrow> relpSess \<Rightarrow> relpSess" where
  "chosen v s = s\<lparr>stateCmdSyslog := eRelpCmdState_Enabled, protocolVersion := min v (engVersion s)\<rparr>"

lemma selectLoop_ok:
  assumes "0 \<le> v" "v \<le> 100000000" "stateCmdSyslog s \<in> {eRelpCmdState_Enabled, eRelpCmdState_Desired, eRelpCmdState_Required}"
  shows "selectLoop (rev (map mkoffer (offer_list v sw True))) s = Some (RELP_RET_OK, chosen v s)"
proof -
  have e: "enableValues {eRelpCmdState_Desired, eRelpCmdState_Required} [mkvalue (lit ''syslog'')] s = Some (s\<lparr>stateCmdSyslog := eRelpCmdState_Enabled\<rparr>)"
    using assms(3) read_names(4) by (auto simp: relpSessSetEnableCmd_def)
  have "intVal (mkvalue (numtxt v)) = v" using version_ok(1) [OF assms(1,2)] by (simp add: mkvalue_def)
  then show ?thesis using assms(1) e
    by (simp add: offer_list_def read_names names_distinct read_values chosen_def min_def del: enableValues.simps)
qed

lemma rspOpenLoop_ok:
  assumes "0 \<le> v" "v \<le> 100000000" "v \<le> engVersion s" "stateCmdSyslog s \<noteq> eRelpCmdState_Forbidden"
  shows "rspOpenLoop (rev (map mkoffer (offer_list v sw True))) s =
    Some (RELP_RET_OK, s\<lparr>stateCmdSyslog := eRelpCmdState_Enabled, protocolVersion := v\<rparr>)"
proof -
  have e: "enableValues UNIV [mkvalue (lit ''syslog'')] s = Some (s\<lparr>stateCmdSyslog := eRelpCmdState_Enabled\<rparr>)"
    using assms(4) read_names(4) by (simp add: relpSessSetEnableCmd_def)
  have "intVal (mkvalue (numtxt v)) = v" using version_ok(1) [OF assms(1,2)] by (simp add: mkvalue_def)
  then show ?thesis using assms e
    by (simp add: offer_list_def read_names names_distinct read_values del: enableValues.simps)
qed

definition answer_text :: "int \<Rightarrow> byte list \<Rightarrow> byte list" where
  "answer_text v sw = lit ''200 OK'' @ [10] @ otext (offer_list v sw True)"

definition server_start :: "relpSess \<Rightarrow> bool" where
  "server_start s \<longleftrightarrow> can_offer s \<and> tcp_live (pTcp s) \<and> pSendq s = [] \<and> unackedLst s = [] \<and> \<not> bServerConnOpen s \<and>
     (\<exists>srv. pSrv s = Some srv \<and> oversizeMode srv \<in> {0, 1, 2}) \<and> sessType s = eRelpSess_Server \<and> sessTxnr s = 1 \<and>
     onSyslog s \<noteq> NoCallback \<and> 0 \<le> engVersion s \<and> 400 \<le> maxDataSize s \<and> memFrame s = always \<and> pCurrRcvFrame s = None"

text \<open>An open server session, at the number after the one of the \<open>open\<close> frame.\<close>

definition opened :: "relpSess \<Rightarrow> relpSess \<Rightarrow> int \<Rightarrow> bool" where
  "opened s s' v \<longleftrightarrow> ready_server s' \<and> sessTxnr s' = sessTxnr s \<and> protocolVersion s' = v \<and> pTcp s' = (pTcp s)\<lparr>sendNo := sendNo (pTcp s'),
     wire := wire (pTcp s) @ frame_bytes 1 (lit ''rsp'') (answer_text v (engSoftware s))\<rparr>"

lemma initOpen_ok:
  assumes s: "can_offer s" "tcp_live (pTcp s)" "pSendq s = []" "unackedLst s = []" "\<exists>srv. pSrv s = Some srv \<and> oversizeMode srv \<in> {0, 1, 2}"
    "sessType s = eRelpSess_Server" "onSyslog s \<noteq> NoCallback" "0 \<le> engVersion s"
    and f: "rest_is f (otext (offer_list v sw True))" "txnr f = 1" and v: "0 \<le> v" "v \<le> 100000000" "value_ok sw"
  shows "\<exists>s'. initOpen f s = Some (RELP_RET_OK, s') \<and> opened s s' (min v (engVersion s))"
proof -
  have m: "mem_ok s" using s(1) by (simp add: can_offer_def)
  obtain f' where f': "relpOffersConstructFromFrame (memAt s) f = Some (RELP_RET_OK, rev (map mkoffer (offer_list v sw True)), f')"
    using offers_read [OF m v f(1)] by blast
  define s1 where "s1 = s\<lparr>memNo := memNo s + lenData f + 2\<rparr>"
  have "stateCmdSyslog s1 \<in> {eRelpCmdState_Enabled, eRelpCmdState_Desired, eRelpCmdState_Required}" using s(1) by (simp add: s1_def can_offer_def)
  then have sl: "selectLoop (rev (map mkoffer (offer_list v sw True))) s1 = Some (RELP_RET_OK, chosen v s1)" by (rule selectLoop_ok [OF v(1,2)])
  define s2 where "s2 = chosen v s1"
  have s2: "mem_ok s2" "stateCmdSyslog s2 = eRelpCmdState_Enabled" "protocolVersion s2 = min v (engVersion s)" "engSoftware s2 = engSoftware s"
    "can_offer s2"
    using s(1,8) m v by (auto simp: s2_def s1_def chosen_def mem_ok_def can_offer_def)
  obtain fs where fs: "relpSessConstructOffers (memAt s2) s2 = Some (RELP_RET_OK, fs)"
    "list_all2 offer_is fs (offer_list (min v (engVersion s)) (engSoftware s) True)"
    using constructOffers_ok [OF s2(5)] s2(3,4) by auto
  define s3 where "s3 = s2\<lparr>memNo := memNo s2 + 9\<rparr>"
  have so: "selectOffers (rev (map mkoffer (offer_list v sw True))) (s\<lparr>memNo := memNo s + lenData f + 2\<rparr>) = Some (RELP_RET_OK, fs, s3)"
    using sl fs(1) s2(2) unfolding s1_def [symmetric] by (simp add: selectOffers_def s2_def [symmetric] s3_def Let_def)
  have bd: "0 \<le> min v (engVersion s)" "min v (engVersion s) \<le> 100000000" "value_ok (engSoftware s)"
    using v s by (simp_all add: can_offer_def)
  have ts: "relpOffersToString (memAt s3) fs (Some (lit ''200 OK'' @ [10])) =
      Some (RELP_RET_OK, map Some (answer_text (min v (engVersion s)) (engSoftware s)))"
    using toString_ok [OF fs(2), of "lit ''200 OK'' @ [10]" "Some (lit ''200 OK'' @ [10])" "memAt s3"] offer_list_length(1) [OF bd, of True] s2(1)
    by (simp add: answer_text_def s3_def mem_ok_def)
  define s4 where "s4 = s3\<lparr>memNo := memNo s3 + 64\<rparr>"
  have s4: "mem_ok s4" "pTcp s4 = pTcp s" "pSendq s4 = []"
    using m s(3) by (simp_all add: s4_def s3_def s2_def s1_def chosen_def mem_ok_def)
  have len: "length (answer_text (min v (engVersion s)) (engSoftware s)) < 1000000000" using offer_list_length(1) [OF bd, of True] by (simp add: answer_text_def)
  obtain s5 where s5: "relpSessSendResponse 1 (answer_text (min v (engVersion s)) (engSoftware s)) s4 = Some (RELP_RET_OK, s5)"
    "sent s4 s5 (frame_bytes 1 (lit ''rsp'') (answer_text (min v (engVersion s)) (engSoftware s)))"
    using sendResponse_ok [OF s4(1) _ s4(3), of 1] numtxt_nat_length [of 1 9] s4(2) s(2) len by auto
  have "initOpen f s = Some (RELP_RET_OK, s5\<lparr>bServerConnOpen := True\<rparr>)"
    using f' so ts s5(1) f(2) unfolding initOpen_def s4_def by (simp add: s1_def Let_def image_iff comp_def)
  moreover have "opened s (s5\<lparr>bServerConnOpen := True\<rparr>) (min v (engVersion s))"
    using s5(2) s4 s m same_os_live
    by (auto simp: sent_def opened_def ready_server_def srv_inv_def s4_def s3_def s2_def s1_def chosen_def mem_ok_def same_os_def)
  ultimately show ?thesis by blast
qed

definition open_frame :: "int \<Rightarrow> byte list \<Rightarrow> byte list" where
  "open_frame v sw = frame_bytes 1 (lit ''open'') (otext (offer_list v sw True))"

definition answer_frame :: "int \<Rightarrow> byte list \<Rightarrow> byte list" where
  "answer_frame v sw = frame_bytes 1 (lit ''rsp'') (answer_text v sw)"

lemma lit_open: "cstr (lit ''open'' @ replicate 29 0) = Some (lit ''open'')"
  by (simp add: cstr_def lit_def)

lemma lit_commands: "lit ''open'' \<noteq> lit ''syslog''" "lit ''open'' \<noteq> lit ''rsp''" "lit ''rsp'' \<noteq> lit ''syslog''"
  by (simp_all add: lit_def)

lemma server_opens:
  assumes s: "server_start s" and v: "0 \<le> v" "v \<le> 100000000" "value_ok sw"
    and r: "osRecv (pTcp s) (recvNo (pTcp s)) = Received (open_frame v sw)"
  shows "\<exists>s'. relpSessRcvData s = Some (RELP_RET_OK, s') \<and> ready_server s' \<and> sessTxnr s' = 2 \<and> pCurrRcvFrame s' = None \<and>
    protocolVersion s' = min v (engVersion s) \<and> wire (pTcp s') = wire (pTcp s) @ answer_frame (min v (engVersion s)) (engSoftware s)"
proof -
  let ?d = "otext (offer_list v sw True)" and ?s = "rcv_call s"
  have len: "length ?d \<le> 400" "?d \<noteq> []" using offer_list_length [OF v] by simp_all
  have small: "length (open_frame v sw) \<le> 32768"
    using frame_small [of 1 ?d "lit ''open''"] numtxt_nat_length [of 1 9] len by (simp add: open_frame_def)
  have st: "server_start ?s" using s by (simp add: server_start_def can_offer_def rcv_call_def mem_ok_def tcp_live_def)
  define s1 where "s1 = rcv_sess 1 ?d (length ?d) ?s"
  have s1: "s1 = ?s\<lparr>maxCharsStore := length ?d, sessTxnr := 2\<rparr>"
    using len(2) st by (simp add: s1_def rcv_sess_def server_start_def Let_def next_txnr)
  have i: "can_offer s1" "tcp_live (pTcp s1)" "pSendq s1 = []" "unackedLst s1 = []" "\<exists>srv. pSrv s1 = Some srv \<and> oversizeMode srv \<in> {0, 1, 2}"
    "sessType s1 = eRelpSess_Server" "onSyslog s1 \<noteq> NoCallback" "0 \<le> engVersion s1"
    using st unfolding s1 by (simp_all add: server_start_def can_offer_def mem_ok_def)
  have tx: "txnr (wire_frame 1 (lit ''open'') ?d (length ?d)) = 1" "engVersion s1 = engVersion s"
    unfolding s1 by (simp_all add: wire_frame_def rcv_call_def)
  obtain s2 where s2: "initOpen (wire_frame 1 (lit ''open'') ?d (length ?d)) s1 = Some (RELP_RET_OK, s2)" "opened s1 s2 (min v (engVersion s))"
    using initOpen_ok [OF i rest_frame [OF len(2)] tx(1) v] unfolding tx(2) by blast
  have "\<not> bServerConnOpen s1" using st by (simp add: s1 server_start_def)
  then have "relpSCInit (wire_frame 1 (lit ''open'') ?d (length ?d)) s1 = Some (RELP_RET_OK, s2)"
    using s2(1) by (simp add: relpSCInit_def)
  then have d: "relpEngineDispatchFrame (wire_frame 1 (lit ''open'') ?d (length ?d)) s1 = Some (RELP_RET_OK, s2)"
    using lit_commands by (simp add: relpEngineDispatchFrame_def wire_frame_def lit_open)
  have alpha: "\<forall>x \<in> set (lit ''open''). isalpha x" by (simp add: lit_def isalpha_def)
  have "store_limit ?s (length ?d) = Some (length ?d)" using len(1) st by (simp add: store_limit_def server_start_def)
  then have "rcvOctets relpEngineDispatchFrame always (32768 * recvNo (pTcp s)) (open_frame v sw) None ?s = Some (RELP_RET_OK, None, s2)"
    using frame_delivered [of 1 ?s "lit ''open''" ?d "length ?d" relpEngineDispatchFrame "32768 * recvNo (pTcp s)" "[]"] alpha len d st
    by (simp add: open_frame_def s1_def [symmetric] server_start_def)
  then have "relpSessRcvData s = Some (RELP_RET_OK, s2\<lparr>pCurrRcvFrame := None\<rparr>)"
    using rcv_something [OF r small] s by (simp add: server_start_def)
  moreover have "ready_server (s2\<lparr>pCurrRcvFrame := None\<rparr>)" using s2(2) by (simp add: opened_def ready_server_def srv_inv_def mem_ok_def)
  moreover have "wire (pTcp s2) = wire (pTcp s) @ answer_frame (min v (engVersion s)) (engSoftware s)"
    using s2(2) by (cases "pTcp s2") (simp add: opened_def s1 rcv_call_def answer_frame_def)
  ultimately show ?thesis using s2(2) by (intro exI [of _ "s2\<lparr>pCurrRcvFrame := None\<rparr>"]) (simp add: opened_def s1)
qed

section \<open>The client takes the answer\<close>

lemma rest_next: "rest_is f (y # xs) \<Longrightarrow> nextC f c = Some (RELP_RET_OK, y, f\<lparr>idxData := Suc (idxData f)\<rparr>) \<and>
    rest_is (f\<lparr>idxData := Suc (idxData f)\<rparr>) xs"
  by (auto simp: nextC_def relpFrameGetNextC_def rest_is_def All_less_Suc2)

lemma header_read:
  assumes "rest_is f (lit ''200 OK'' @ [10] @ xs)"
  shows "\<exists>f'. readRspHdr f = Some (RELP_RET_OK, 200, f') \<and> rest_is f' xs \<and> txnr f' = txnr f"
proof -
  define g where "g n = f\<lparr>idxData := idxData f + n\<rparr>" for n
  have step: "rest_is (g n) (y # ys) \<Longrightarrow> nextC (g n) c = Some (RELP_RET_OK, y, g (Suc n)) \<and> rest_is (g (Suc n)) ys" for n y ys c
    using rest_next [of "g n" y ys c] by (simp add: g_def)
  have f: "f = g 0" by (simp add: g_def)
  have "rest_is (g 0) (50 # 48 # 48 # 32 # 79 # 75 # 10 # xs)" using assms f by (simp add: lit_def)
  note 1 = step [OF this]
  note 2 = step [OF 1 [THEN conjunct2]]
  note 3 = step [OF 2 [THEN conjunct2]]
  note 4 = step [OF 3 [THEN conjunct2]]
  note 5 = step [OF 4 [THEN conjunct2]]
  note 6 = step [OF 5 [THEN conjunct2]]
  note 7 = step [OF 6 [THEN conjunct2]]
  let ?g = "g (Suc (Suc (Suc (Suc (Suc (Suc (Suc 0)))))))"
  have "rspText 0 (g (Suc (Suc (Suc (Suc 0))))) = Some (RELP_RET_OK, ?g)" using 5 6 7 by (simp add: rspText.simps)
  then have "readRspHdr f = Some (RELP_RET_OK, 200, ?g)" using 1 2 3 4 f by (simp add: readRspHdr_def rspDigit_def isdigit_def)
  then show ?thesis using 7 by (intro exI [of _ ?g]) (simp add: g_def)
qed

lemma rspOpen_ok:
  assumes "mem_ok s" "0 \<le> v" "v \<le> 100000000" "value_ok sw" "v \<le> engVersion s" "stateCmdSyslog s \<noteq> eRelpCmdState_Forbidden"
    and "rest_is f (otext (offer_list v sw True))"
  shows "relpSessCBrspOpen f s = Some (RELP_RET_OK, s\<lparr>memNo := memNo s + lenData f + 2, stateCmdSyslog := eRelpCmdState_Enabled,
    protocolVersion := v, sessState := eRelpSessState_INIT_RSP_RCVD\<rparr>)"
proof -
  obtain f' where "relpOffersConstructFromFrame (memAt s) f = Some (RELP_RET_OK, rev (map mkoffer (offer_list v sw True)), f')"
    using offers_read [OF assms(1-4,7)] by blast
  then show ?thesis using rspOpenLoop_ok [of v "s\<lparr>memNo := memNo s + lenData f + 2\<rparr>" sw] assms(2-6)
    by (simp add: relpSessCBrspOpen_def Let_def)
qed

text \<open>A client that may connect, and the socket it gets.\<close>

definition client_start :: "relpSess \<Rightarrow> relpTcp \<Rightarrow> frame_rec list \<Rightarrow> bool" where
  "client_start s t xs \<longleftrightarrow> can_offer s \<and> osConnect s (connNo s) = (RELP_RET_OK, t) \<and> tcp_live t \<and> patient t \<and>
     unacked_is s xs \<and> protocolVersion s \<le> engVersion s \<and> 500 \<le> maxDataSize s \<and> memFrame s = always \<and>
     (\<forall>n. \<not> osStop s n) \<and> pSrv s = None"

text \<open>The session after \<open>open\<close> was sent.\<close>

definition open_rec :: "relpSess \<Rightarrow> frame_rec" where
  "open_rec s = (1, lit ''open'', otext (offer_list (protocolVersion s) (engSoftware s) True), CBrspOpen)"

definition open_sent :: "relpSess \<Rightarrow> relpTcp \<Rightarrow> frame_rec list \<Rightarrow> relpSess \<Rightarrow> bool" where
  "open_sent s t xs s' \<longleftrightarrow> link_ok s' \<and>
     unacked_is s' (xs @ [open_rec s]) \<and>
     wire (pTcp s') = wire t @ open_frame (protocolVersion s) (engSoftware s) \<and> sessTxnr s' = 2 \<and>
     stateCmdSyslog s' = stateCmdSyslog s \<and> sessType s' = eRelpSess_Client \<and> maxDataSize s' = maxDataSize s \<and>
     memFrame s' = memFrame s \<and> pCurrRcvFrame s' = None \<and> osStop s' = osStop s \<and> pSrv s' = pSrv s \<and> sizeWindow s' = sizeWindow s \<and>
     osRecv (pTcp s') = osRecv t \<and> recvNo (pTcp s') = recvNo t \<and> sessState s' = eRelpSessState_INIT_CMD_SENT \<and>
     engVersion s' = engVersion s \<and> osDeadline s' = osDeadline s \<and> waitNo s' = waitNo s \<and> osPollErr s' = osPollErr s \<and>
     osConnect s' = osConnect s \<and> connNo s' = connNo s + 1 \<and> protocolVersion s' = protocolVersion s \<and> engSoftware s' = engSoftware s"

lemma connect_sends:
  assumes c: "client_start s t xs"
  shows "\<exists>s'. open_sent s t xs s' \<and> relpSessConnect s =
    chkRet (relpSessWaitState eRelpSessState_INIT_RSP_RCVD s')
      (\<lambda>s. chkRet (Some (relpSessCltConnChkOffers s)) (\<lambda>s. Some (RELP_RET_OK, s\<lparr>sessState := eRelpSessState_READY_TO_SEND\<rparr>)))"
proof -
  have o: "can_offer s" and m: "mem_ok s" and v: "0 \<le> protocolVersion s" "protocolVersion s \<le> 100000000" "value_ok (engSoftware s)"
    using c by (simp_all add: client_start_def can_offer_def)
  let ?d = "otext (offer_list (protocolVersion s) (engSoftware s) True)"
  define s3 where "s3 = s\<lparr>pCurrRcvFrame := None, sessTxnr := 1, sessType := eRelpSess_Client, connNo := connNo s + 1,
    pTcp := t, sessState := eRelpSessState_PRE_INIT\<rparr>"
  have f: "relpSessFixCmdStates s = s" using o by (auto simp: relpSessFixCmdStates_def can_offer_def)
  have f3: "protocolVersion s3 = protocolVersion s" "engSoftware s3 = engSoftware s" by (simp_all add: s3_def)
  have "can_offer s3" using o by (simp add: s3_def can_offer_def mem_ok_def)
  then obtain fs where fs: "relpSessConstructOffers (memAt s3) s3 = Some (RELP_RET_OK, fs)"
    "list_all2 offer_is fs (offer_list (protocolVersion s) (engSoftware s) True)"
    using constructOffers_ok [of s3] unfolding f3 by blast
  define s5 where "s5 = s3\<lparr>memNo := memNo s3 + 9 + 64\<rparr>"
  have ts: "relpOffersToString (memAt (s3\<lparr>memNo := memNo s3 + 9\<rparr>)) fs None = Some (RELP_RET_OK, map Some ?d)"
    using toString_ok [OF fs(2), of "[]" None "memAt (s3\<lparr>memNo := memNo s3 + 9\<rparr>)"] offer_list_length(1) [OF v, of True] m
    by (simp add: mem_ok_def s3_def)
  have s5: "link_ok s5" "unacked_is s5 xs" "sessTxnr s5 = 1"
    using c m unacked_cong [of s5 s xs] by (simp_all add: s5_def s3_def link_ok_def mem_ok_def client_start_def)
  obtain s6 where s6: "relpSessRawSendCommand (lit ''open'') ?d CBrspOpen s5 = Some (RELP_RET_OK, s6)"
    "unacked_is s6 (xs @ [open_rec s])" "wire (pTcp s6) = wire (pTcp s5) @ open_frame (protocolVersion s) (engSoftware s)"
    "sessTxnr s6 = 2" "commanded s5 s6"
    using rawSend_ok [OF s5(1,2), of "lit ''open''" ?d CBrspOpen] offer_list_length(1) [OF v, of True] s5(3) by (auto simp: open_frame_def open_rec_def)
  define s7 where "s7 = s6\<lparr>sessState := eRelpSessState_INIT_CMD_SENT\<rparr>"
  have "relpSessConnect s = chkRet (relpSessWaitState eRelpSessState_INIT_RSP_RCVD s7)
      (\<lambda>s. chkRet (Some (relpSessCltConnChkOffers s)) (\<lambda>s. Some (RELP_RET_OK, s\<lparr>sessState := eRelpSessState_READY_TO_SEND\<rparr>)))"
    using c fs(1) ts s6(1) f unfolding relpSessConnect_def client_start_def s7_def s5_def s3_def
    by (simp add: Let_def image_iff comp_def chkRet_def [of "Some (RELP_RET_OK, s6)"])
  moreover have "unacked_is s7 (xs @ [open_rec s])" using s6(2) unacked_cong [of s7 s6] by (simp add: s7_def)
  then have "open_sent s t xs s7"
    using s6 by (simp add: open_sent_def s7_def s5_def s3_def commanded_def link_ok_def mem_ok_def)
  ultimately show ?thesis by blast
qed

text \<open>The answer is found for the first frame with the number 1.\<close>

lemma unacked_del:
  assumes u: "unacked_is s (x # ys)" and h: "\<forall>q. q \<noteq> unackedLst s ! 0 \<longrightarrow> sendbufs s' q = sendbufs s q"
    and f: "unackedLst s' = remove1 (unackedLst s ! 0) (unackedLst s)" "lenUnackedLst s' = lenUnackedLst s - 1" "nextSendbuf s' = nextSendbuf s"
  shows "unacked_is s' ys"
proof -
  have l: "list_all2 (holds_frame s) (unackedLst s) ([] @ x # ys)" "distinct (unackedLst s)" using u by (simp_all add: unacked_is_def)
  have "list_all2 (holds_frame s') (unackedLst s') ys"
    unfolding f(1) using held_frames [OF list_all2_delete [OF l], of s'] h l(2) by auto
  then show ?thesis using u f by (auto simp: unacked_is_def dest: notin_set_remove1)
qed

lemma open_answered:
  assumes s: "mem_ok s" "sessState s = eRelpSessState_INIT_CMD_SENT" "stateCmdSyslog s \<noteq> eRelpCmdState_Forbidden"
    and u: "unacked_is s ((1, c, d, CBrspOpen) # ys)"
    and v: "0 \<le> v" "v \<le> 100000000" "value_ok sw" "v \<le> engVersion s"
  shows "\<exists>s'. relpSCRsp (wire_frame 1 (lit ''rsp'') (answer_text v sw) (length (answer_text v sw))) s = Some (RELP_RET_OK, s') \<and>
    unacked_is s' ys \<and> sessState s' = eRelpSessState_INIT_RSP_RCVD \<and> stateCmdSyslog s' = eRelpCmdState_Enabled \<and>
    protocolVersion s' = v \<and> mem_ok s' \<and> pTcp s' = pTcp s \<and> osStop s' = osStop s \<and> sessTxnr s' = sessTxnr s \<and>
    sessType s' = sessType s \<and> sizeWindow s' = sizeWindow s \<and> memFrame s' = memFrame s \<and> maxDataSize s' = maxDataSize s"
proof -
  let ?f = "wire_frame 1 (lit ''rsp'') (answer_text v sw) (length (answer_text v sw))" and ?p = "unackedLst s ! 0"
  have "answer_text v sw \<noteq> []" by (simp add: answer_text_def lit_def)
  then have "rest_is ?f (lit ''200 OK'' @ [10] @ otext (offer_list v sw True))" using rest_frame [of "answer_text v sw"] by (simp add: answer_text_def)
  then obtain f' where f': "readRspHdr ?f = Some (RELP_RET_OK, 200, f')" "rest_is f' (otext (offer_list v sw True))" "txnr f' = 1"
    using header_read [of ?f] by (auto simp: wire_frame_def)
  have l: "list_all2 (holds_frame s) (unackedLst s) ([] @ (1, c, d, CBrspOpen) # ys)" using u by (simp add: unacked_is_def)
  then obtain sb where sb: "sendbufs s ?p = Some sb" "sbRspHdlr sb = CBrspOpen"
    using list_all2_nthD2 [OF l, of 0] by (auto simp: holds_frame_def built_def)
  let ?s1 = "relpSessDelUnacked ?p s"
  have s1: "?s1 = s\<lparr>unackedLst := remove1 ?p (unackedLst s), lenUnackedLst := lenUnackedLst s - 1\<rparr>"
    using s(2) by (simp add: relpSessDelUnacked_def Let_def)
  have g: "relpSessGetUnacked 1 s = Some (RELP_RET_OK, Some ?p, ?s1)" using find_unacked [OF l] by (simp add: relpSessGetUnacked_def)
  let ?s2 = "?s1\<lparr>memNo := memNo s + lenData f' + 2, stateCmdSyslog := eRelpCmdState_Enabled,
    protocolVersion := v, sessState := eRelpSessState_INIT_RSP_RCVD\<rparr>"
  have o: "relpSessCBrspOpen f' ?s1 = Some (RELP_RET_OK, ?s2)"
    using rspOpen_ok [OF _ v(1-3) _ _ f'(2), of ?s1] s v(4) by (simp add: s1 mem_ok_def)
  let ?s3 = "?s2\<lparr>sendbufs := (sendbufs s)(?p := None)\<rparr>"
  have "relpSCRsp ?f s = Some (RELP_RET_OK, ?s3)"
    using f'(1,3) g o sb by (simp add: relpSCRsp_def relpSendbufDestruct_def s1)
  moreover have "unacked_is ?s3 ys" by (rule unacked_del [OF u]) (simp_all add: s1)
  ultimately show ?thesis using s(1) by (intro exI [of _ ?s3]) (simp add: s1 mem_ok_def)
qed

lemma client_opens:
  assumes o: "open_sent s t xs s'" and u: "xs @ [open_rec s] = (1, c, d, CBrspOpen) # ys" and c: "client_start s t xs"
    and v: "0 \<le> v" "v \<le> 100000000" "value_ok sw" "v \<le> engVersion s"
    and r: "osRecv t (recvNo t) = Received (answer_frame v sw)"
  shows "\<exists>s''. relpSessWaitState eRelpSessState_INIT_RSP_RCVD s' = Some (RELP_RET_OK, s'') \<and> link_ok s'' \<and> unacked_is s'' ys \<and>
    stateCmdSyslog s'' = eRelpCmdState_Enabled \<and> protocolVersion s'' = v \<and> sessTxnr s'' = 2 \<and> sessType s'' = eRelpSess_Client \<and>
    sizeWindow s'' = sizeWindow s \<and> wire (pTcp s'') = wire t @ open_frame (protocolVersion s) (engSoftware s) \<and>
    memFrame s'' = always \<and> pCurrRcvFrame s'' = None \<and> maxDataSize s'' = maxDataSize s \<and> osStop s'' = osStop s \<and>
    osRecv (pTcp s'') = osRecv t \<and> recvNo (pTcp s'') = recvNo t + 1"
proof -
  let ?d = "answer_text v sw" and ?s = "rcv_call s'"
  have len: "length ?d \<le> 410" "?d \<noteq> []" using offer_list_length(1) [OF v(1-3), of True] by (simp_all add: answer_text_def lit_def)
  have small: "length (answer_frame v sw) \<le> 32768"
    using frame_small [of 1 ?d "lit ''rsp''"] numtxt_nat_length [of 1 9] len by (simp add: answer_frame_def)
  define s1 where "s1 = rcv_sess 1 ?d (length ?d) ?s"
  have s1: "s1 = ?s\<lparr>maxCharsStore := length ?d\<rparr>"
    using len(2) o by (simp add: s1_def rcv_sess_def open_sent_def Let_def)
  have "unacked_is s1 = unacked_is s'" by (intro ext unacked_cong) (simp_all add: s1 rcv_call_def)
  then have u1: "unacked_is s1 ((1, c, d, CBrspOpen) # ys)" using o u by (simp add: open_sent_def)
  have q: "mem_ok s1" "sessState s1 = eRelpSessState_INIT_CMD_SENT" "stateCmdSyslog s1 \<noteq> eRelpCmdState_Forbidden" "engVersion s1 = engVersion s"
    using o c by (auto simp: s1 rcv_call_def open_sent_def link_ok_def mem_ok_def client_start_def can_offer_def)
  obtain s2 where s2: "relpSCRsp (wire_frame 1 (lit ''rsp'') ?d (length ?d)) s1 = Some (RELP_RET_OK, s2)"
    "unacked_is s2 ys" "sessState s2 = eRelpSessState_INIT_RSP_RCVD" "stateCmdSyslog s2 = eRelpCmdState_Enabled"
    "protocolVersion s2 = v" "mem_ok s2" "pTcp s2 = pTcp s1" "osStop s2 = osStop s1" "sessTxnr s2 = sessTxnr s1"
    "sessType s2 = sessType s1" "sizeWindow s2 = sizeWindow s1" "memFrame s2 = memFrame s1" "maxDataSize s2 = maxDataSize s1"
    using open_answered [OF q(1-3) u1 v(1-3)] v(4) q(4) by auto
  have dsp: "relpEngineDispatchFrame (wire_frame 1 (lit ''rsp'') ?d (length ?d)) s1 = Some (RELP_RET_OK, s2)"
    using s2(1) lit_commands by (simp add: relpEngineDispatchFrame_def wire_frame_def lit_rsp)
  have alpha: "\<forall>x \<in> set (lit ''rsp''). isalpha x" by (simp add: lit_def isalpha_def)
  have lim: "store_limit ?s (length ?d) = Some (length ?d)" using len(1) o c by (simp add: store_limit_def open_sent_def client_start_def)
  have "rcvOctets relpEngineDispatchFrame always (32768 * recvNo (pTcp s')) (answer_frame v sw) None ?s = Some (RELP_RET_OK, None, s2)"
    using frame_delivered [of 1 ?s "lit ''rsp''" ?d "length ?d" relpEngineDispatchFrame "32768 * recvNo (pTcp s')" "[]"] alpha lim len dsp o
    by (simp add: answer_frame_def s1_def [symmetric] open_sent_def)
  then have "relpSessRcvData s' = Some (RELP_RET_OK, s2\<lparr>pCurrRcvFrame := None\<rparr>)"
    using rcv_something [of s' "answer_frame v sw"] small r o c by (simp add: open_sent_def client_start_def)
  then have w: "relpSessWaitState eRelpSessState_INIT_RSP_RCVD s' = Some (RELP_RET_OK, s2\<lparr>pCurrRcvFrame := None\<rparr>)"
    using s2 o c by (simp add: relpSessWaitState_def s1 open_sent_def client_start_def)
  have "unacked_is (s2\<lparr>pCurrRcvFrame := None\<rparr>) ys" using s2(2) unacked_cong [of "s2\<lparr>pCurrRcvFrame := None\<rparr>" s2] by simp
  moreover have "link_ok (s2\<lparr>pCurrRcvFrame := None\<rparr>)"
    using o s2 by (simp add: open_sent_def link_ok_def mem_ok_def s1 rcv_call_def tcp_live_def patient_def)
  ultimately show ?thesis
    using w s2 o c by (intro exI [of _ "s2\<lparr>pCurrRcvFrame := None\<rparr>"]) (simp add: s1 open_sent_def client_start_def)
qed

section \<open>The properties\<close>

text \<open>
  C4: A RELP session opens: when client and server both want or require the command \<open>syslog\<close>, the
  frame the client puts on the wire makes the server open its end and answer, and with this
  answer the client's connect succeeds; both ends then use the smaller of the two protocol
  versions, have \<open>syslog\<close> enabled and the same next number, and are ready to exchange messages.
\<close>

theorem session_opens:
  assumes "client_start c t []" and "0 < sizeWindow c" and "server_start s"
    and "osRecv (pTcp s) (recvNo (pTcp s)) = Received (open_frame (protocolVersion c) (engSoftware c))"
    and "osRecv t (recvNo t) = Received (answer_frame (min (protocolVersion c) (engVersion s)) (engSoftware s))"
  shows "\<exists>c' s'. relpSessConnect c = Some (RELP_RET_OK, c') \<and> relpSessRcvData s = Some (RELP_RET_OK, s') \<and>
    wire (pTcp c') = wire t @ open_frame (protocolVersion c) (engSoftware c) \<and>
    wire (pTcp s') = wire (pTcp s) @ answer_frame (min (protocolVersion c) (engVersion s)) (engSoftware s) \<and>
    client_at c' [] \<and> ready_server s' \<and> sessTxnr c' = 2 \<and> sessTxnr s' = 2 \<and>
    protocolVersion c' = min (protocolVersion c) (engVersion s) \<and> protocolVersion s' = min (protocolVersion c) (engVersion s)"
proof -
  have vc: "0 \<le> protocolVersion c" "protocolVersion c \<le> 100000000" "value_ok (engSoftware c)" "protocolVersion c \<le> engVersion c"
    using assms(1) by (simp_all add: client_start_def can_offer_def)
  have vs: "0 \<le> min (protocolVersion c) (engVersion s)" "min (protocolVersion c) (engVersion s) \<le> 100000000" "value_ok (engSoftware s)"
    "min (protocolVersion c) (engVersion s) \<le> engVersion c"
    using vc assms(3) by (simp_all add: server_start_def can_offer_def)
  obtain s' where s': "relpSessRcvData s = Some (RELP_RET_OK, s')" "ready_server s'" "sessTxnr s' = 2"
    "protocolVersion s' = min (protocolVersion c) (engVersion s)"
    "wire (pTcp s') = wire (pTcp s) @ answer_frame (min (protocolVersion c) (engVersion s)) (engSoftware s)"
    using server_opens [OF assms(3) vc(1-3) assms(4)] by auto
  obtain c1 where c1: "open_sent c t [] c1" "relpSessConnect c = chkRet (relpSessWaitState eRelpSessState_INIT_RSP_RCVD c1)
      (\<lambda>s. chkRet (Some (relpSessCltConnChkOffers s)) (\<lambda>s. Some (RELP_RET_OK, s\<lparr>sessState := eRelpSessState_READY_TO_SEND\<rparr>)))"
    using connect_sends [OF assms(1)] by auto
  obtain c2 where c2: "relpSessWaitState eRelpSessState_INIT_RSP_RCVD c1 = Some (RELP_RET_OK, c2)" "link_ok c2" "unacked_is c2 []"
    "stateCmdSyslog c2 = eRelpCmdState_Enabled" "protocolVersion c2 = min (protocolVersion c) (engVersion s)" "sessTxnr c2 = 2"
    "sessType c2 = eRelpSess_Client" "sizeWindow c2 = sizeWindow c" "osStop c2 = osStop c"
    "wire (pTcp c2) = wire t @ open_frame (protocolVersion c) (engSoftware c)"
    using client_opens [OF c1(1) _ assms(1) vs assms(5)] by (auto simp: open_rec_def)
  let ?c = "c2\<lparr>sessState := eRelpSessState_READY_TO_SEND\<rparr>"
  have "unacked_is ?c []" using c2(3) unacked_cong [of ?c c2] by simp
  then have "client_at ?c []" using c2 assms(1,2) by (simp add: client_at_def link_ok_def mem_ok_def client_start_def)
  moreover have "relpSessConnect c = Some (RELP_RET_OK, ?c)"
    using c1(2) c2(1,4) by (simp add: chkRet_def relpSessCltConnChkOffers_def)
  ultimately show ?thesis using s' c2 by (intro exI [of _ ?c] exI [of _ s']) simp
qed

lemma connect_times_out:
  assumes c: "client_start s t []" and r: "osRecv t (recvNo t) = WouldBlock" and d: "osDeadline s (waitNo s)"
  shows "\<exists>s'. relpSessConnect s = Some (RELP_RET_TIMED_OUT, s') \<and> sessState s' = eRelpSessState_BROKEN \<and>
    unacked_is s' [open_rec s] \<and> mem_ok s' \<and> stateCmdSyslog s' = stateCmdSyslog s \<and> maxDataSize s' = maxDataSize s \<and>
    memFrame s' = always \<and> osStop s' = osStop s \<and> engVersion s' = engVersion s \<and> osConnect s' = osConnect s \<and>
    connNo s' = connNo s + 1 \<and> protocolVersion s' = protocolVersion s \<and> engSoftware s' = engSoftware s \<and> pSrv s' = None"
proof -
  obtain s1 where s1: "open_sent s t [] s1" "relpSessConnect s = chkRet (relpSessWaitState eRelpSessState_INIT_RSP_RCVD s1)
      (\<lambda>s. chkRet (Some (relpSessCltConnChkOffers s)) (\<lambda>s. Some (RELP_RET_OK, s\<lparr>sessState := eRelpSessState_READY_TO_SEND\<rparr>)))"
    using connect_sends [OF c] by auto
  have w: "osRecv (pTcp s1) (recvNo (pTcp s1)) = WouldBlock" using s1(1) r by (simp add: open_sent_def)
  let ?s = "(rcv_call s1)\<lparr>waitNo := waitNo s1 + 1\<rparr>"
  have "waitLoop eRelpSessState_INIT_RSP_RCVD (rcv_call s1) = Some (RELP_RET_TIMED_OUT, ?s)"
    using s1(1) c d by (subst waitLoop.simps) (simp add: Let_def open_sent_def client_start_def rcv_call_def)
  then have "relpSessWaitState eRelpSessState_INIT_RSP_RCVD s1 = Some (RELP_RET_TIMED_OUT, ?s\<lparr>sessState := eRelpSessState_BROKEN\<rparr>)"
    using rcv_nothing [OF w] s1(1) by (simp add: relpSessWaitState_def open_sent_def)
  then have e: "relpSessConnect s = Some (RELP_RET_TIMED_OUT, ?s\<lparr>sessState := eRelpSessState_BROKEN\<rparr>)"
    using s1(2) by (simp add: chkRet_def)
  have "unacked_is (?s\<lparr>sessState := eRelpSessState_BROKEN\<rparr>) [open_rec s]"
    using s1(1) unacked_cong [of "?s\<lparr>sessState := eRelpSessState_BROKEN\<rparr>" s1] by (simp add: open_sent_def rcv_call_def)
  then show ?thesis using e s1(1) c
    by (intro exI [of _ "?s\<lparr>sessState := eRelpSessState_BROKEN\<rparr>"])
      (simp add: open_sent_def link_ok_def mem_ok_def rcv_call_def client_start_def)
qed

text \<open>
  A connection attempt that times out spoils the next session: its \<open>open\<close> frame stays in the
  list of unacknowledged frames, the answer of the next session is taken for it, and the \<open>open\<close>
  of that session is then sent again as its second command, which makes the server report that
  the connection is open already and close it.
\<close>

theorem failed_connect_spoils_next:
  assumes "client_start c t []" and "osRecv t (recvNo t) = WouldBlock" and "osDeadline c (waitNo c)"
    and "osConnect c (connNo c + 1) = (RELP_RET_OK, t2)" and "tcp_live t2" and "patient t2"
    and "osRecv t2 (recvNo t2) = Received (answer_frame v sw)" and "0 \<le> v" and "v \<le> protocolVersion c" and "value_ok sw"
  shows "\<exists>c' c''. relpSessConnect c = Some (RELP_RET_TIMED_OUT, c') \<and> relpSessTryReestablish c' = Some (RELP_RET_OK, c'') \<and>
    wire (pTcp c'') = wire t2 @ open_frame (protocolVersion c) (engSoftware c) @
      frame_bytes 2 (lit ''open'') (otext (offer_list (protocolVersion c) (engSoftware c) True))"
proof -
  obtain c1 where c1: "relpSessConnect c = Some (RELP_RET_TIMED_OUT, c1)" "sessState c1 = eRelpSessState_BROKEN"
    "unacked_is c1 [open_rec c]" "mem_ok c1" "stateCmdSyslog c1 = stateCmdSyslog c" "maxDataSize c1 = maxDataSize c"
    "memFrame c1 = always" "osStop c1 = osStop c" "engVersion c1 = engVersion c" "osConnect c1 = osConnect c" "connNo c1 = connNo c + 1"
    "protocolVersion c1 = protocolVersion c" "engSoftware c1 = engSoftware c" "pSrv c1 = None"
    using connect_times_out [OF assms(1-3)] by auto
  have st: "client_start c1 t2 [open_rec c]" using c1 assms(1,4-6) by (simp add: client_start_def can_offer_def)
  obtain c2 where c2: "open_sent c1 t2 [open_rec c] c2" "relpSessConnect c1 = chkRet (relpSessWaitState eRelpSessState_INIT_RSP_RCVD c2)
      (\<lambda>s. chkRet (Some (relpSessCltConnChkOffers s)) (\<lambda>s. Some (RELP_RET_OK, s\<lparr>sessState := eRelpSessState_READY_TO_SEND\<rparr>)))"
    using connect_sends [OF st] by auto
  have v: "v \<le> 100000000" "v \<le> engVersion c1" using assms(1,9) c1(9) by (auto simp: client_start_def can_offer_def)
  obtain c3 where c3: "relpSessWaitState eRelpSessState_INIT_RSP_RCVD c2 = Some (RELP_RET_OK, c3)" "link_ok c3" "unacked_is c3 [open_rec c1]"
    "stateCmdSyslog c3 = eRelpCmdState_Enabled" "sessTxnr c3 = 2" "wire (pTcp c3) = wire t2 @ open_frame (protocolVersion c) (engSoftware c)"
    using client_opens [OF c2(1) _ st assms(8) v(1) assms(10) v(2) assms(7)] c1(12,13) by (auto simp: open_rec_def)
  let ?c = "c3\<lparr>sessState := eRelpSessState_READY_TO_SEND\<rparr>"
  have "unacked_is ?c [open_rec c1]" using c3(3) unacked_cong [of ?c c3] by simp
  then have l: "list_all2 (holds_frame ?c) (unackedLst ?c) [open_rec c1]" "distinct (unackedLst ?c)" by (simp_all add: unacked_is_def)
  have lk: "link_ok ?c" using c3(2) by (simp add: link_ok_def mem_ok_def)
  obtain c4 where c4: "resendLoop (unackedLst ?c) ?c = Some (RELP_RET_OK, c4)"
    "wire (pTcp c4) = wire (pTcp ?c) @ concat (map rec_bytes (renumbered (sessTxnr ?c) [open_rec c1]))"
    using resendAll [OF lk l] c3(5) by auto
  have "relpSessConnect c1 = Some (RELP_RET_OK, ?c)" using c2(2) c3(1,4) by (simp add: chkRet_def relpSessCltConnChkOffers_def)
  then have "relpSessTryReestablish c1 = Some (RELP_RET_OK, c4)" using c4(1) c1(2) by (simp add: relpSessTryReestablish_def chkRet_def)
  then show ?thesis using c1(1,12,13) c4(2) c3(5,6) by (intro exI [of _ c1] exI [of _ c4]) (simp add: open_rec_def)
qed

section \<open>Examples\<close>

definition new_sess :: "relpSessType \<Rightarrow> relpTcp \<Rightarrow> (nat \<Rightarrow> relpRetVal \<times> relpTcp) \<Rightarrow> relpSess" where
  "new_sess typ t conn = (sess_ex typ t)\<lparr>sessTxnr := 1, bServerConnOpen := False, stateCmdSyslog := eRelpCmdState_Required,
     osConnect := conn, osDeadline := (\<lambda>_. True)\<rparr>"

lemma sw_ok: "value_ok (lit ''1.2.17'')"
  by (simp add: value_ok_def lit_def isdigit_def)

lemma tcp_ex_patient: "patient (tcp_ex f g)"
  by (simp add: patient_def tcp_ex_def)

lemma new_client: "conn 0 = (RELP_RET_OK, tcp_ex (\<lambda>_. Wrote 5) rcv) \<Longrightarrow> client_start (new_sess eRelpSess_Client t conn) (tcp_ex (\<lambda>_. Wrote 5) rcv) []"
  using sw_ok tcp_ex_live [of rcv] tcp_ex_patient [of "\<lambda>_. Wrote 5" rcv]
  by (simp add: client_start_def can_offer_def new_sess_def unacked_is_def mem_ok_def sess_ex_def)

lemma new_server: "server_start (new_sess eRelpSess_Server (tcp_ex (\<lambda>_. Wrote 5) rcv) conn)"
  using sw_ok tcp_ex_live [of rcv] by (simp add: server_start_def can_offer_def new_sess_def mem_ok_def sess_ex_def)

lemma new_fields [simp]: "protocolVersion (new_sess typ t conn) = 0" "engSoftware (new_sess typ t conn) = lit ''1.2.17''"
  "engVersion (new_sess typ t conn) = 0" "pTcp (new_sess typ t conn) = t" "sizeWindow (new_sess typ t conn) = 128"
  "waitNo (new_sess typ t conn) = 0" "connNo (new_sess typ t conn) = 0" "osConnect (new_sess typ t conn) = conn"
  "osDeadline (new_sess typ t conn) = (\<lambda>_. True)"
  by (simp_all add: new_sess_def sess_ex_def)

definition clt_sock :: relpTcp where
  "clt_sock = tcp_ex (\<lambda>_. Wrote 5) (\<lambda>_. Received (answer_frame 0 (lit ''1.2.17'')))"

definition srv_sock :: relpTcp where
  "srv_sock = tcp_ex (\<lambda>_. Wrote 5) (\<lambda>_. Received (open_frame 0 (lit ''1.2.17'')))"

theorem session_opens_witness:
  "\<exists>c' s'. relpSessConnect (new_sess eRelpSess_Client clt_sock (\<lambda>_. (RELP_RET_OK, clt_sock))) = Some (RELP_RET_OK, c') \<and>
    relpSessRcvData (new_sess eRelpSess_Server srv_sock (\<lambda>_. (RELP_RET_IO_ERR, srv_sock))) = Some (RELP_RET_OK, s') \<and>
    wire (pTcp c') = wire clt_sock @ open_frame 0 (lit ''1.2.17'') \<and> wire (pTcp s') = wire srv_sock @ answer_frame 0 (lit ''1.2.17'') \<and>
    client_at c' [] \<and> ready_server s' \<and> sessTxnr c' = 2 \<and> sessTxnr s' = 2 \<and> protocolVersion c' = 0 \<and> protocolVersion s' = 0"
  using session_opens [OF new_client, of "\<lambda>_. (RELP_RET_OK, clt_sock)" "\<lambda>_. Received (answer_frame 0 (lit ''1.2.17''))" clt_sock,
    OF _ _ new_server [of "\<lambda>_. Received (open_frame 0 (lit ''1.2.17''))" "\<lambda>_. (RELP_RET_IO_ERR, srv_sock)"]]
  by (simp add: clt_sock_def srv_sock_def)

definition dead_sock :: relpTcp where
  "dead_sock = tcp_ex (\<lambda>_. Wrote 5) (\<lambda>_. WouldBlock)"

theorem failed_connect_spoils_next_witness:
  "\<exists>c' c''. relpSessConnect (new_sess eRelpSess_Client dead_sock (\<lambda>n. (RELP_RET_OK, if n = 0 then dead_sock else clt_sock))) =
      Some (RELP_RET_TIMED_OUT, c') \<and> relpSessTryReestablish c' = Some (RELP_RET_OK, c'') \<and>
    wire (pTcp c'') = wire clt_sock @ open_frame 0 (lit ''1.2.17'') @
      frame_bytes 2 (lit ''open'') (otext (offer_list 0 (lit ''1.2.17'') True))"
  using failed_connect_spoils_next [OF new_client, of "\<lambda>n. (RELP_RET_OK, if n = 0 then dead_sock else clt_sock)"
      "\<lambda>_. WouldBlock" dead_sock clt_sock 0 "lit ''1.2.17''"]
    tcp_ex_live tcp_ex_patient sw_ok
  by (simp add: clt_sock_def dead_sock_def)

end
