(* ===== verification/Calendar.thy ===== *)
theory Calendar
  imports DateFormat
begin

text \<open>
  Time stamps and the calendar: the conversions between \<open>struct syslogTime\<close> and seconds since
  1970 of runtime/datetime.c, weekdays, ordinals and weeks, against the Gregorian calendar
  computed from its definition.
\<close>

section \<open>The Gregorian calendar\<close>

definition leap :: "int \<Rightarrow> bool" where
  "leap y \<longleftrightarrow> y mod 4 = 0 \<and> y mod 100 \<noteq> 0 \<or> y mod 400 = 0"

definition year_len :: "int \<Rightarrow> int" where
  "year_len y = (if leap y then 366 else 365)"

text \<open>Days from 1970 to the start of a year.\<close>

fun days_to_year :: "nat \<Rightarrow> int" where
  "days_to_year 0 = 0"
| "days_to_year (Suc n) = days_to_year n + year_len (1970 + int n)"

definition month_lens :: "int \<Rightarrow> int list" where
  "month_lens y = [31, if leap y then 29 else 28, 31, 30, 31, 30, 31, 31, 30, 31, 30, 31]"

text \<open>Days from the first of January 1970, months and days counted from 1.\<close>

definition civil_days :: "int \<Rightarrow> int \<Rightarrow> int \<Rightarrow> int" where
  "civil_days y m d = days_to_year (nat (y - 1970)) + sum_list (take (nat (m - 1)) (month_lens y)) + d - 1"

text \<open>\<open>gmtime_r\<close> of the C library: the broken-down time of a number of seconds.\<close>

record tm =
  tm_sec :: int
  tm_min :: int
  tm_hour :: int
  tm_mday :: int
  tm_mon :: int
  tm_year :: int

text \<open>The year that a day of a 400 year period falls into, and the day in it.\<close>

function gm_year :: "int \<Rightarrow> int \<Rightarrow> int \<times> int" where
  "gm_year y d = (if d < year_len y then (y, d) else gm_year (y + 1) (d - year_len y))"
  by pat_completeness auto
termination by (relation "measure (\<lambda>(y, d). nat d)") (auto simp: year_len_def split: if_splits)

declare gm_year.simps [simp del]

fun gm_month :: "int list \<Rightarrow> int \<Rightarrow> int \<Rightarrow> int \<times> int" where
  "gm_month [] m d = (m, d)"
| "gm_month (l # ls) m d = (if d < l then (m, d) else gm_month ls (m + 1) (d - l))"

definition gmtime_r :: "int \<Rightarrow> tm" where
  "gmtime_r t =
     (let days = t div 86400; s = t mod 86400;
          (y0, d) = gm_year 1970 (days mod 146097);
          (m, md) = gm_month (month_lens y0) 0 d
      in \<lparr>tm_sec = s mod 60, tm_min = s div 60 mod 60, tm_hour = s div 3600, tm_mday = md + 1,
          tm_mon = m, tm_year = y0 + 400 * (days div 146097) - 1900\<rparr>)"

section \<open>Seconds since 1970\<close>

definition yearInSec_startYear :: int where
  "yearInSec_startYear = 1967"

definition yearInSecs :: "int list" where
  "yearInSecs = [
     - 63158401, - 31536001, - 1, 31535999, 63071999, 94694399, 126230399, 157766399, 189302399,
     220924799, 252460799, 283996799, 315532799, 347155199, 378691199, 410227199, 441763199, 473385599,
     504921599, 536457599, 567993599, 599615999, 631151999, 662687999, 694223999, 725846399, 757382399,
     788918399, 820454399, 852076799, 883612799, 915148799, 946684799, 978307199, 1009843199, 1041379199,
     1072915199, 1104537599, 1136073599, 1167609599, 1199145599, 1230767999, 1262303999, 1293839999, 1325375999,
     1356998399, 1388534399, 1420070399, 1451606399, 1483228799, 1514764799, 1546300799, 1577836799, 1609459199,
     1640995199, 1672531199, 1704067199, 1735689599, 1767225599, 1798761599, 1830297599, 1861919999, 1893455999,
     1924991999, 1956527999, 1988150399, 2019686399, 2051222399, 2082758399, 2114380799, 2145916799, 2177452799,
     2208988799, 2240611199, 2272147199, 2303683199, 2335219199, 2366841599, 2398377599, 2429913599, 2461449599,
     2493071999, 2524607999, 2556143999, 2587679999, 2619302399, 2650838399, 2682374399, 2713910399, 2745532799,
     2777068799, 2808604799, 2840140799, 2871763199, 2903299199, 2934835199, 2966371199, 2997993599, 3029529599,
     3061065599, 3092601599, 3124223999, 3155759999, 3187295999, 3218831999, 3250454399, 3281990399, 3313526399,
     3345062399, 3376684799, 3408220799, 3439756799, 3471292799, 3502915199, 3534451199, 3565987199, 3597523199,
     3629145599, 3660681599, 3692217599, 3723753599, 3755375999, 3786911999, 3818447999, 3849983999, 3881606399,
     3913142399, 3944678399, 3976214399, 4007836799, 4039372799, 4070908799, 4102444799]"

definition syslogTime2time_t :: "syslogTime \<Rightarrow> int option" where
  "syslogTime2time_t ts =
     (if year ts < 1970 \<or> year ts > 2100 then Some 0
      else do {
        let m = month ts;
        let mid = (if m = 1 then 0 else if m = 2 then 31 else if m = 3 then 59 else if m = 4 then 90
          else if m = 5 then 120 else if m = 6 then 151 else if m = 7 then 181 else if m = 8 then 212
          else if m = 9 then 243 else if m = 10 then 273 else if m = 11 then 304 else if m = 12 then 334
          else 0);
        let mid = (if (year ts smod 100 \<noteq> 0 \<and> year ts smod 4 = 0 \<or> year ts = 2000) \<and> m > 2
          then mid + 1 else mid);
        s \<leftarrow> c_get yearInSecs (nat (year ts - yearInSec_startYear - 1));
        let days = mid + day ts - 1;
        let t = s + 1 + days * 86400 + hour ts * 60 * 60 + minute ts * 60 + second ts;
        let utcOffset = OffsetHour ts * 3600 + OffsetMinute ts * 60;
        let utcOffset = (if OffsetMode ts = 43 then utcOffset * - 1 else utcOffset);
        Some (t + utcOffset)
      })"

text \<open>\<open>snprintf\<close> with \<open>%u\<close>: at most ten digits.\<close>

definition formatTimestampUnix :: "syslogTime \<Rightarrow> (byte list \<times> int) option" where
  "formatTimestampUnix ts = do {
     t \<leftarrow> syslogTime2time_t ts;
     Some (take 10 (numtxt (t mod 4294967296)) @ [0], 11)
   }"

text \<open>A time of the clock as a timestamp in UTC, or by \<open>lt\<close>, the local broken-down time with its
  offset in seconds east of UTC.\<close>

definition timeval2syslogTime :: "(int \<Rightarrow> tm \<times> int) \<Rightarrow> int \<times> int \<Rightarrow> int \<Rightarrow> syslogTime" where
  "timeval2syslogTime lt tp utc =
     (let tm = (if utc \<noteq> 0 then gmtime_r (fst tp) else fst (lt (fst tp)));
          lBias = (if utc \<noteq> 0 then 0 else snd (lt (fst tp)));
          mode = (if utc = 0 \<and> lBias < 0 then 45 else 43);
          lBias = \<bar>lBias\<bar>
      in \<lparr>timeType = 2, month = intTiny (tm_mon tm + 1), day = intTiny (tm_mday tm), hour = intTiny (tm_hour tm),
          minute = intTiny (tm_min tm), second = intTiny (tm_sec tm), secfracPrecision = 6,
          OffsetMinute = intTiny (lBias smod 3600 sdiv 60), OffsetHour = intTiny (lBias sdiv 3600),
          OffsetMode = mode, year = c_short (tm_year tm + 1900), secfrac = snd tp, inUTC = intTiny utc\<rparr>)"

definition timeConvertToUTC :: "(int \<Rightarrow> tm \<times> int) \<Rightarrow> syslogTime \<Rightarrow> syslogTime option" where
  "timeConvertToUTC lt local = do {
     t \<leftarrow> syslogTime2time_t local;
     Some (timeval2syslogTime lt (t, secfrac local) 1)
   }"

text \<open>The clock as a parameter; \<open>None\<close> if it cannot be read.\<close>

definition getCurrTime :: "(int \<Rightarrow> tm \<times> int) \<Rightarrow> int \<times> int \<Rightarrow> int \<Rightarrow> syslogTime \<times> int" where
  "getCurrTime lt now utc = (timeval2syslogTime lt now utc, fst now)"

definition getTime :: "(int \<times> int) option \<Rightarrow> int" where
  "getTime now = (case now of None \<Rightarrow> - 1 | Some tp \<Rightarrow> fst tp)"

section \<open>Weekdays, ordinals and weeks\<close>

definition getWeekdayNbr :: "syslogTime \<Rightarrow> int" where
  "getWeekdayNbr ts =
     (let (g, f) = (if month ts < 3 then (year ts - 1, month ts + 13) else (year ts, month ts + 1))
      in ((36525 * g) sdiv 100 + (306 * f) sdiv 10 + day ts - 621049) smod 7)"

definition getOrdinal :: "syslogTime \<Rightarrow> int option" where
  "getOrdinal ts =
     (if year ts < 1970 \<or> year ts > 2100 then Some 0
      else do {
        thistime \<leftarrow> syslogTime2time_t ts;
        previousyears \<leftarrow> c_get yearInSecs (nat (year ts - yearInSec_startYear - 1));
        let utcOffset = OffsetHour ts * 3600 + OffsetMinute ts * 60;
        let utcOffset = (if OffsetMode ts = 43 then utcOffset + - 1 else utcOffset);
        Some ((thistime - (previousyears + utcOffset)) sdiv 86400)
      })"

definition getWeek :: "syslogTime \<Rightarrow> int option" where
  "getWeek ts = do {
     curYearDay \<leftarrow> getOrdinal ts;
     let curDow = getWeekdayNbr ts;
     let jan1Dow = getWeekdayNbr (ts\<lparr>timeType := 1, month := 1, day := 1, hour := 0, minute := 0, second := 0,
       secfracPrecision := 0, secfrac := 0\<rparr>);
     let weekNum = (curYearDay + 6) sdiv 7;
     Some (if curDow < jan1Dow then weekNum + 1 else weekNum)
   }"

section \<open>Formats for expressions\<close>

datatype dateTimeFormat_t = DATE_INVALID | DATE_RFC3164 | DATE_RFC3339 | DATE_UNIX

definition getDateTimeFormatFromStr :: "byte list \<Rightarrow> dateTimeFormat_t" where
  "getDateTimeFormatFromStr s =
     (if s = lit ''date-rfc3164'' then DATE_RFC3164
      else if s = lit ''date-rfc3339'' then DATE_RFC3339
      else if s = lit ''date-unix'' then DATE_UNIX
      else DATE_INVALID)"

text \<open>\<open>%2d\<close> and \<open>%.2d\<close> of a number that is not negative.\<close>

definition pad2 :: "byte \<Rightarrow> int \<Rightarrow> byte list" where
  "pad2 c n = (if n < 10 then c # numtxt n else numtxt n)"

text \<open>The text in the buffer and its length; another format leaves the buffer alone.\<close>

definition formatUnixTimeFromTime_t ::
    "int \<Rightarrow> byte list \<Rightarrow> byte list \<Rightarrow> nat \<Rightarrow> (byte list \<times> int) option" where
  "formatUnixTimeFromTime_t unixtime fmt pBuf pBufMax = do {
     let lt = gmtime_r unixtime;
     let hms = pad2 48 (tm_hour lt) @ [58] @ pad2 48 (tm_min lt) @ [58] @ pad2 48 (tm_sec lt);
     if fmt = lit ''date-rfc3164'' then do {
       _ \<leftarrow> c_guard (pBufMax \<ge> 16);
       if tm_mon lt < 0 \<or> tm_mon lt > 11 then Some (takeWhile (\<lambda>c. c \<noteq> 0) pBuf, - 1)
       else do {
         m \<leftarrow> c_get monthNames (nat (tm_mon lt));
         let s = m @ [32] @ pad2 32 (tm_mday lt) @ [32] @ hms;
         Some (s, int (length s))
       }
     } else if fmt = lit ''date-rfc3339'' then do {
       _ \<leftarrow> c_guard (pBufMax \<ge> 26);
       let s = numtxt (tm_year lt + 1900) @ [45] @ pad2 48 (tm_mon lt + 1) @ [45] @ pad2 48 (tm_mday lt)
         @ [84] @ hms @ [90];
       Some (s, int (length s))
     } else do {
       let s = takeWhile (\<lambda>c. c \<noteq> 0) pBuf;
       Some (s, int (length s))
     }
   }"

section \<open>The table of years\<close>

lemma leap_in_range:
  assumes "1970 \<le> y" "y < 2100"
  shows "leap y \<longleftrightarrow> y mod 4 = 0"
proof (cases "y mod 100 = 0")
  case True
  then obtain k where "y = 100 * k" by (auto simp: dvd_def mod_eq_0_iff_dvd)
  then have "y = 2000" using assms by arith
  then show ?thesis by (simp add: leap_def)
next
  case False
  moreover have "y mod 100 = 0" if "y mod 400 = 0"
    using that mod_mod_cancel [of 100 400 y] by simp
  ultimately show ?thesis by (auto simp: leap_def)
qed

lemma days_to_year_eq: "n \<le> 130 \<Longrightarrow> days_to_year n = 365 * int n + (int n + 1) div 4"
proof (induction n)
  case (Suc n)
  then have l: "leap (1970 + int n) \<longleftrightarrow> (1970 + int n) mod 4 = 0" by (intro leap_in_range) auto
  have "(2 + int n) div 4 = (int n + 1) div 4 + (if (1970 + int n) mod 4 = 0 then 1 else 0)" by presburger
  then show ?case using Suc by (cases "(1970 + int n) mod 4 = 0") (simp_all add: year_len_def l)
qed simp

lemma table_eq: "yearInSecs = [- 63158401, - 31536001] @ map (\<lambda>n. 86400 * (365 * n + (n + 1) div 4) - 1) [0..130]"
  by code_simp

lemma table_ok:
  assumes "1970 \<le> y" "y \<le> 2100"
  shows "c_get yearInSecs (nat (y - yearInSec_startYear - 1)) = Some (86400 * days_to_year (nat (y - 1970)) - 1)"
proof -
  define n where "n = nat (y - 1970)"
  have n: "nat (y - yearInSec_startYear - 1) = Suc (Suc n)" "n \<le> 130"
    using assms by (simp_all add: n_def yearInSec_startYear_def)
  have "[0..130] ! n = int n" using n(2) by (simp add: nth_upto)
  then show ?thesis using n(2) unfolding n(1) n_def [symmetric] table_eq
    by (simp add: c_get_def days_to_year_eq)
qed

section \<open>Agreement with the calendar\<close>

text \<open>The offset of a timestamp east of UTC in seconds.\<close>

definition utc_offset :: "syslogTime \<Rightarrow> int" where
  "utc_offset ts = (if OffsetMode ts = 43 then 1 else - 1) * (OffsetHour ts * 3600 + OffsetMinute ts * 60)"

definition civil_secs :: "syslogTime \<Rightarrow> int" where
  "civil_secs ts = 86400 * civil_days (year ts) (month ts) (day ts)
     + 3600 * hour ts + 60 * minute ts + second ts"

lemma month_cases:
  assumes "1 \<le> (m :: int)" "m \<le> 12"
  shows "m = 1 \<or> m = 2 \<or> m = 3 \<or> m = 4 \<or> m = 5 \<or> m = 6 \<or> m = 7 \<or> m = 8 \<or> m = 9 \<or> m = 10 \<or> m = 11 \<or> m = 12"
  using assms by arith

lemma smod_eq_0: "0 \<le> x \<Longrightarrow> 0 < k \<Longrightarrow> x smod k = x mod (k :: int)"
  by (cases "x = 0") (simp_all add: signed_modulo_int_def)

lemma code_leap:
  assumes "1970 \<le> y" "y \<le> 2100"
  shows "(y smod 100 \<noteq> 0 \<and> y smod 4 = 0 \<or> y = 2000) \<longleftrightarrow> leap y"
proof (cases "y mod 100 = 0")
  case True
  then obtain k where "y = 100 * k" by (auto simp: dvd_def mod_eq_0_iff_dvd)
  then have "y = 2000 \<or> y = 2100" using assms by arith
  then show ?thesis by (auto simp: leap_def smod_eq_0)
next
  case False
  then show ?thesis using assms leap_in_range [of y] by (cases "y = 2100") (auto simp: smod_eq_0)
qed

lemma months_before:
  assumes "1 \<le> m" "m \<le> 12"
  shows "sum_list (take (nat (m - 1)) (month_lens y))
    = (if m = 1 then 0 else if m = 2 then 31 else if m = 3 then 59 else if m = 4 then 90
          else if m = 5 then 120 else if m = 6 then 151 else if m = 7 then 181 else if m = 8 then 212
          else if m = 9 then 243 else if m = 10 then 273 else if m = 11 then 304 else if m = 12 then 334
          else 0) + (if leap y \<and> m > 2 then 1 else 0)"
  using month_cases [OF assms] by (elim disjE) (simp_all add: month_lens_def)

lemma time_t_calendar:
  assumes "time_ok ts" and "1970 \<le> year ts"
  shows "syslogTime2time_t ts = Some (civil_secs ts - utc_offset ts)"
proof -
  have y: "1970 \<le> year ts" "year ts \<le> 2100" "\<not> (year ts < 1970 \<or> year ts > 2100)" "1 \<le> month ts" "month ts \<le> 12"
    using assms by (auto simp: time_ok_def)
  show ?thesis
    unfolding syslogTime2time_t_def if_not_P [OF y(3)] Let_def code_leap [OF y(1,2)] table_ok [OF y(1,2)]
      civil_secs_def civil_days_def months_before [OF y(4,5)]
    by (simp add: utc_offset_def algebra_simps)
qed

section \<open>Weekdays\<close>

lemma civil_days_eq:
  assumes "1970 \<le> y" "y \<le> 2100" "1 \<le> m" "m \<le> 12"
  shows "civil_days y m d = 365 * (y - 1970) + (y - 1969) div 4 + sum_list (take (nat (m - 1)) (month_lens y)) + d - 1"
proof -
  have "days_to_year (nat (y - 1970)) = 365 * (y - 1970) + (y - 1969) div 4"
    using assms by (simp add: days_to_year_eq)
  then show ?thesis by (simp add: civil_days_def)
qed

lemma months_nonneg: "0 \<le> sum_list (take k (month_lens y))"
  by (rule sum_list_nonneg) (auto dest!: in_set_takeD simp: month_lens_def split: if_splits)

lemma sdiv_eq: "0 \<le> x \<Longrightarrow> 0 < k \<Longrightarrow> x sdiv k = x div (k :: int)"
  by (rule sdiv_pos)

lemma year_days: "36525 * g div 100 = 365 * g + g div (4 :: int)"
proof -
  have "36525 * g = 25 * g + 365 * g * 100" by simp
  then have "36525 * g div 100 = 365 * g + 25 * g div 100" by (simp only: div_mult_self1_is_m div_mult_self1)
  also have "25 * g div 100 = g div 4" using div_mult_mult1 [of 25 g 4] by simp
  finally show ?thesis .
qed

lemma weekday_calendar:
  assumes ok: "time_ok ts" and y: "1970 \<le> year ts" "year ts < 2100 \<or> month ts < 3"
  shows "getWeekdayNbr ts = (civil_days (year ts) (month ts) (day ts) + 4) mod 7"
proof -
  have b: "year ts \<le> 2100" "1 \<le> month ts" "month ts \<le> 12" "1 \<le> day ts" using ok by (auto simp: time_ok_def)
  define g f where "g = (if month ts < 3 then year ts - 1 else year ts)" and
    "f = (if month ts < 3 then month ts + 13 else month ts + 1)"
  have gf: "0 \<le> g" "0 \<le> f" using y b by (auto simp: g_def f_def)
  have c: "civil_days (year ts) (month ts) (day ts) + 98494 + 63 = 365 * g + g div 4 + 306 * f div 10 + day ts - 621049"
  proof (cases "month ts < 3")
    case True
    have "(year ts - 1) div 4 = (year ts - 1969) div 4 + 492" by presburger
    moreover have "month ts = 1 \<or> month ts = 2" using True b by arith
    ultimately show ?thesis
      using civil_days_eq [OF y(1) b(1-3)] by (auto simp: g_def f_def month_lens_def)
  next
    case False
    then have "leap (year ts) \<longleftrightarrow> year ts mod 4 = 0" using y by (intro leap_in_range) auto
    moreover have "year ts div 4 = (year ts - 1969) div 4 + 492 + (if year ts mod 4 = 0 then 1 else 0)" by presburger
    ultimately show ?thesis
      using civil_days_eq [OF y(1) b(1-3)] month_cases [OF b(2,3)] False
      by (elim disjE) (simp_all add: g_def f_def month_lens_def)
  qed
  have "0 \<le> civil_days (year ts) (month ts) (day ts)"
    using y(1) b months_nonneg [of "nat (month ts - 1)" "year ts"] by (simp add: civil_days_eq)
  moreover have "getWeekdayNbr ts = (365 * g + g div 4 + 306 * f div 10 + day ts - 621049) smod 7"
  proof -
    have "getWeekdayNbr ts = ((36525 * g) sdiv 100 + (306 * f) sdiv 10 + day ts - 621049) smod 7"
      unfolding getWeekdayNbr_def Let_def g_def f_def by (cases "month ts < 3") simp_all
    moreover have "(36525 * g) sdiv 100 = 365 * g + g div 4" "(306 * f) sdiv 10 = 306 * f div 10"
      using gf by (simp_all only: sdiv_eq year_days mult_nonneg_nonneg zero_le_numeral zero_less_numeral)
    ultimately show ?thesis by simp
  qed
  ultimately have "getWeekdayNbr ts = (civil_days (year ts) (month ts) (day ts) + 98494 + 63) mod 7"
    unfolding c [symmetric] by (subst (asm) smod_eq_0) auto
  then show ?thesis by presburger
qed

section \<open>Conversion to UTC\<close>

lemma year_len_ge: "365 \<le> year_len y" "year_len y \<le> 366"
  by (simp_all add: year_len_def)

lemma days_to_year_mono: "m \<le> n \<Longrightarrow> days_to_year m \<le> days_to_year n"
proof (induction n)
  case (Suc n)
  then show ?case using year_len_ge [of "1970 + int n"] by (cases "m = Suc n") auto
qed simp

lemma gm_year_ok:
  "0 \<le> d \<Longrightarrow> y = 1970 + int n \<Longrightarrow> \<exists>n' d'. gm_year y d = (1970 + int n', d') \<and> 0 \<le> d' \<and> d' < year_len (1970 + int n')
     \<and> days_to_year n' + d' = days_to_year n + d"
proof (induction y d arbitrary: n rule: gm_year.induct)
  case (1 y d)
  show ?case
  proof (cases "d < year_len y")
    case True
    then show ?thesis using 1(2,3) by (intro exI [of _ n] exI [of _ d]) (simp add: gm_year.simps [of "1970 + int n" d])
  next
    case False
    obtain n' d' where "gm_year (y + 1) (d - year_len y) = (1970 + int n', d')" "0 \<le> d'"
       "d' < year_len (1970 + int n')" "days_to_year n' + d' = days_to_year (Suc n) + (d - year_len y)"
      using 1(1) [OF False, of "Suc n"] False 1(3) by auto
    moreover have "gm_year y d = gm_year (y + 1) (d - year_len y)"
      using False by (subst gm_year.simps) simp
    ultimately show ?thesis using 1(3) by (intro exI [of _ n'] exI [of _ d']) simp
  qed
qed

lemma gm_month_ok:
  "\<lbrakk>0 \<le> d; d < sum_list ls\<rbrakk> \<Longrightarrow> \<exists>k d'. gm_month ls m d = (m + int k, d') \<and> k < length ls
     \<and> 0 \<le> d' \<and> d' < ls ! k \<and> sum_list (take k ls) + d' = d"
proof (induction ls arbitrary: m d)
  case (Cons l ls)
  show ?case
  proof (cases "d < l")
    case True
    then show ?thesis using Cons.prems by (intro exI [of _ 0] exI [of _ d]) simp
  next
    case False
    then obtain k d' where "gm_month ls (m + 1) (d - l) = (m + 1 + int k, d')" "k < length ls"
       "0 \<le> d'" "d' < ls ! k" "sum_list (take k ls) + d' = d - l"
      using Cons.IH [of "d - l" "m + 1"] Cons.prems by auto
    then show ?thesis using False by (intro exI [of _ "Suc k"] exI [of _ d']) simp
  qed
qed simp

lemma month_lens_sum: "sum_list (month_lens y) = year_len y"
  by (simp add: month_lens_def year_len_def)

lemma month_lens_length: "length (month_lens y) = 12"
  by (simp add: month_lens_def)

lemma month_lens_le: "k < 12 \<Longrightarrow> month_lens y ! k \<le> 31"
  by (auto simp: month_lens_def less_Suc_eq numeral_eq_Suc)

text \<open>What \<open>gmtime_r\<close> computes, up to the year 2369.\<close>

lemma gmtime_ok:
  assumes "0 \<le> t" "t < 86400 * 146097"
  shows "\<exists>n. tm_year (gmtime_r t) + 1900 = 1970 + int n \<and> 0 \<le> tm_mon (gmtime_r t) \<and> tm_mon (gmtime_r t) \<le> 11
    \<and> 1 \<le> tm_mday (gmtime_r t) \<and> tm_mday (gmtime_r t) \<le> month_lens (1970 + int n) ! nat (tm_mon (gmtime_r t))
    \<and> days_to_year n + sum_list (take (nat (tm_mon (gmtime_r t))) (month_lens (1970 + int n)))
        + tm_mday (gmtime_r t) - 1 = t div 86400
    \<and> 3600 * tm_hour (gmtime_r t) + 60 * tm_min (gmtime_r t) + tm_sec (gmtime_r t) = t mod 86400
    \<and> 0 \<le> tm_hour (gmtime_r t) \<and> tm_hour (gmtime_r t) \<le> 23 \<and> 0 \<le> tm_min (gmtime_r t) \<and> tm_min (gmtime_r t) \<le> 59
    \<and> 0 \<le> tm_sec (gmtime_r t) \<and> tm_sec (gmtime_r t) \<le> 59"
proof -
  define days where "days = t div 86400"
  have d: "0 \<le> days" "days < 146097" using assms by (auto simp: days_def)
  obtain n yd where g: "gm_year 1970 days = (1970 + int n, yd)" "0 \<le> yd" "yd < year_len (1970 + int n)"
      "days_to_year n + yd = days"
    using gm_year_ok [of days 1970 0] d by auto
  obtain k md where m: "gm_month (month_lens (1970 + int n)) 0 yd = (int k, md)" "k < 12" "0 \<le> md"
      "md < month_lens (1970 + int n) ! k" "sum_list (take k (month_lens (1970 + int n))) + md = yd"
    using gm_month_ok [of yd "month_lens (1970 + int n)" 0, unfolded month_lens_sum month_lens_length] g(2,3)
    by auto
  define s where "s = t mod 86400"
  have s: "0 \<le> s" "s < 86400" by (simp_all add: s_def)
  define hh mm ss where "hh = s div 3600" and "mm = s div 60 mod 60" and "ss = s mod 60"
  have hms: "3600 * hh + 60 * mm + ss = s"
  proof -
    have "s div 3600 = s div 60 div 60" using zdiv_zmult2_eq [of 60 s 60] by simp
    then show ?thesis using mult_div_mod_eq [of 60 "s div 60"] mult_div_mod_eq [of 60 s]
      unfolding hh_def mm_def ss_def by linarith
  qed
  have r: "0 \<le> hh" "hh \<le> 23" "0 \<le> mm" "mm \<le> 59" "0 \<le> ss" "ss \<le> 59"
    using s by (simp_all add: pos_imp_zdiv_nonneg_iff hh_def mm_def ss_def)
  have e: "gmtime_r t = \<lparr>tm_sec = ss, tm_min = mm, tm_hour = hh, tm_mday = md + 1,
      tm_mon = int k, tm_year = 1970 + int n - 1900\<rparr>"
    using d by (simp add: gmtime_r_def days_def [symmetric] s_def [symmetric] g(1) m(1) Let_def
        hh_def [symmetric] mm_def [symmetric] ss_def [symmetric])
  show ?thesis
    unfolding e days_def [symmetric] s_def [symmetric] using m g(4) hms r by (intro exI [of _ n]) simp
qed

lemma civil_days_bound:
  assumes "time_ok ts" and "1970 \<le> year ts" "year ts \<le> 2099"
  shows "civil_days (year ts) (month ts) (day ts) \<le> 47482"
proof -
  have b: "1 \<le> month ts" "month ts \<le> 12" "day ts \<le> 31" using assms by (auto simp: time_ok_def)
  have "sum_list (take (nat (month ts - 1)) (month_lens (year ts))) \<le> 335"
    unfolding months_before [OF b(1,2)] by simp
  moreover have "days_to_year (nat (year ts - 1970)) \<le> days_to_year 129"
    using assms by (intro days_to_year_mono) auto
  moreover have "days_to_year 129 = 47117" by (simp add: days_to_year_eq)
  ultimately show ?thesis using b(3) by (simp add: civil_days_def)
qed

lemma utc_offset_bound: "time_ok ts \<Longrightarrow> \<bar>utc_offset ts\<bar> < 86400"
  by (auto simp: time_ok_def utc_offset_def)

lemma utc_conversion:
  assumes ok: "time_ok ts" and y: "1970 \<le> year ts" "year ts \<le> 2099" and t: "utc_offset ts \<le> civil_secs ts"
  shows "\<exists>u. timeConvertToUTC lt ts = Some u \<and> time_ok u \<and> 1970 \<le> year u \<and> utc_offset u = 0 \<and> OffsetMode u = 43
    \<and> day u \<le> month_lens (year u) ! nat (month u - 1)
    \<and> civil_secs u = civil_secs ts - utc_offset ts \<and> secfrac u = secfrac ts \<and> secfracPrecision u = 6"
proof -
  define t where "t = civil_secs ts - utc_offset ts"
  have b: "0 \<le> hour ts" "hour ts \<le> 23" "0 \<le> minute ts" "minute ts \<le> 59" "0 \<le> second ts" "second ts \<le> 60"
    using ok by (auto simp: time_ok_def)
  have t0: "0 \<le> t" "t < 86400 * 47484"
    using t utc_offset_bound [OF ok] civil_days_bound [OF ok y] b by (auto simp: t_def civil_secs_def)
  then obtain n where n: "tm_year (gmtime_r t) + 1900 = 1970 + int n" "0 \<le> tm_mon (gmtime_r t)" "tm_mon (gmtime_r t) \<le> 11"
    "1 \<le> tm_mday (gmtime_r t)" "tm_mday (gmtime_r t) \<le> month_lens (1970 + int n) ! nat (tm_mon (gmtime_r t))"
    "days_to_year n + sum_list (take (nat (tm_mon (gmtime_r t))) (month_lens (1970 + int n)))
        + tm_mday (gmtime_r t) - 1 = t div 86400"
    "3600 * tm_hour (gmtime_r t) + 60 * tm_min (gmtime_r t) + tm_sec (gmtime_r t) = t mod 86400"
    "0 \<le> tm_hour (gmtime_r t)" "tm_hour (gmtime_r t) \<le> 23" "0 \<le> tm_min (gmtime_r t)" "tm_min (gmtime_r t) \<le> 59"
    "0 \<le> tm_sec (gmtime_r t)" "tm_sec (gmtime_r t) \<le> 59"
    using gmtime_ok [of t] by auto
  have "days_to_year n \<le> t div 86400" using n(4,6) months_nonneg [of "nat (tm_mon (gmtime_r t))" "1970 + int n"] by linarith
  then have "days_to_year n < 47484" using t0 by linarith
  then have n': "n \<le> 130"
  proof (rule contrapos_pp)
    assume "\<not> n \<le> 130"
    then have "days_to_year (Suc 130) \<le> days_to_year n" by (intro days_to_year_mono) simp
    moreover have "days_to_year (Suc 130) = days_to_year 130 + year_len (1970 + int 130)" by (rule days_to_year.simps)
    moreover have "days_to_year 130 = 47482" by (simp add: days_to_year_eq)
    ultimately show "\<not> days_to_year n < 47484" using year_len_ge [of "1970 + int 130"] by linarith
  qed
  have md: "tm_mday (gmtime_r t) \<le> 31"
    using n(3,5) month_lens_le [of "nat (tm_mon (gmtime_r t))" "1970 + int n"] by linarith
  define u where "u = timeval2syslogTime lt (t, secfrac ts) 1"
  have tm: "intTiny (tm_mon (gmtime_r t) + 1) = tm_mon (gmtime_r t) + 1" "intTiny (tm_mday (gmtime_r t)) = tm_mday (gmtime_r t)"
    "intTiny (tm_hour (gmtime_r t)) = tm_hour (gmtime_r t)" "intTiny (tm_min (gmtime_r t)) = tm_min (gmtime_r t)"
    "intTiny (tm_sec (gmtime_r t)) = tm_sec (gmtime_r t)" "c_short (tm_year (gmtime_r t) + 1900) = 1970 + int n"
    "intTiny 0 = 0" "(0 :: int) smod 3600 sdiv 60 = 0" "(0 :: int) sdiv 3600 = 0"
    using n md n' by simp_all
  have u: "year u = 1970 + int n" "month u = tm_mon (gmtime_r t) + 1" "day u = tm_mday (gmtime_r t)"
    "hour u = tm_hour (gmtime_r t)" "minute u = tm_min (gmtime_r t)" "second u = tm_sec (gmtime_r t)"
    "secfrac u = secfrac ts" "secfracPrecision u = 6" "OffsetMode u = 43" "OffsetHour u = 0" "OffsetMinute u = 0"
    "timeType u = 2"
    by (simp_all add: u_def timeval2syslogTime_def Let_def tm)
  have "civil_days (year u) (month u) (day u) = t div 86400"
    using n(6) by (simp add: civil_days_def u)
  then have "civil_secs u = t"
    using n(7) mult_div_mod_eq [of 86400 t] unfolding civil_secs_def u(4-6) by linarith
  moreover have "timeConvertToUTC lt ts = Some u"
    by (simp add: timeConvertToUTC_def time_t_calendar [OF ok y(1)] u_def t_def)
  moreover have "time_ok u" using ok n md n' by (simp add: time_ok_def u)
  ultimately show ?thesis using n by (auto simp: u utc_offset_def t_def)
qed

section \<open>Properties\<close>

text \<open>C35: The seconds that \<open>syslogTime2time_t\<close> reads off its table of years are those of the
  Gregorian calendar, less the offset of the zone, for every well-formed timestamp from 1970
  to 2100.\<close>

theorem time_t_is_calendar:
  assumes "time_ok ts" and "1970 \<le> year ts"
  shows "syslogTime2time_t ts = Some (86400 * civil_days (year ts) (month ts) (day ts)
     + 3600 * hour ts + 60 * minute ts + second ts - utc_offset ts)"
  using time_t_calendar [OF assms] by (simp add: civil_secs_def)

text \<open>The weekday computed for a timestamp is that of the calendar, up to February 2100.\<close>

theorem weekday_is_calendar:
  assumes "time_ok ts" and "1970 \<le> year ts" and "year ts < 2100 \<or> month ts < 3"
  shows "getWeekdayNbr ts = (civil_days (year ts) (month ts) (day ts) + 4) mod 7"
  by (rule weekday_calendar [OF assms])

text \<open>C36: A timestamp that is not before 1970 is converted to the timestamp of the same second
  in UTC, a day that exists. The digits of the fraction are taken over as microseconds, so
  they are worth less if there were fewer than six of them.\<close>

theorem utc_conversion_keeps_second:
  assumes "time_ok ts" and "1970 \<le> year ts" "year ts \<le> 2099" and "utc_offset ts \<le> civil_secs ts"
  shows "\<exists>u. timeConvertToUTC lt ts = Some u \<and> time_ok u \<and> OffsetMode u = 43 \<and> utc_offset u = 0
    \<and> day u \<le> month_lens (year u) ! nat (month u - 1) \<and> syslogTime2time_t u = syslogTime2time_t ts
    \<and> secfrac u = secfrac ts \<and> secfracPrecision u = 6"
  using utc_conversion [OF assms, of lt] time_t_calendar [OF assms(1,2)] time_t_calendar by fastforce

lemma time_ex_year: "1970 \<le> year time_ex" "year time_ex \<le> 2099" "year time_ex < 2100 \<or> month time_ex < 3"
    "utc_offset time_ex \<le> civil_secs time_ex"
  by (simp_all add: time_ex_def utc_offset_def civil_secs_def civil_days_eq month_lens_def)

theorem time_t_is_calendar_witness: "syslogTime2time_t time_ex = Some 1065903255"
  using time_t_is_calendar [OF time_ex_valid(1) time_ex_year(1)]
  by (simp add: time_ex_def utc_offset_def civil_days_eq month_lens_def leap_def)

theorem weekday_is_calendar_witness: "getWeekdayNbr time_ex = 6"
  using weekday_is_calendar [OF time_ex_valid(1) time_ex_year(1,3)]
  by (simp add: time_ex_def civil_days_eq month_lens_def leap_def)

theorem utc_conversion_keeps_second_witness:
  "\<exists>u. timeConvertToUTC (\<lambda>t. (gmtime_r t, 0)) time_ex = Some u \<and> secfrac u = 3 \<and> secfracPrecision u = 6
     \<and> secfracPrecision time_ex = 3"
  using utc_conversion_keeps_second [OF time_ex_valid(1) time_ex_year(1,2,4), of "\<lambda>t. (gmtime_r t, 0)"]
  by (auto simp: time_ex_def)

end
