(* ===== verification/TimeText.thy ===== *)
theory TimeText
  imports Calendar
begin

text \<open>
  The texts of a message's timestamps for templates, runtime/msg.c: \<open>getTimeReported\<close>,
  \<open>getTimeGenerated\<close> and \<open>getTimeUTC\<close>, with the cached texts and the tables that weekdays,
  ordinals and weeks index.
\<close>

section \<open>Tables\<close>

definition one_digit :: "byte list list" where
  "one_digit = map (\<lambda>n. [dig n]) [0..9]"

definition two_digits :: "byte list list" where
  "two_digits = map two [0..99]"

definition wdayNames :: "byte list list" where
  "wdayNames = [lit ''Sun'', lit ''Mon'', lit ''Tue'', lit ''Wed'', lit ''Thu'', lit ''Fri'', lit ''Sat'']"

definition daysInYear :: "byte list list" where
  "daysInYear = map (\<lambda>n. dig (n div 100) # two n) [1..366]"

definition years :: "byte list list" where
  "years = map four [1967..2099]"

text \<open>An entry of a table of texts.\<close>

definition entry_of :: "byte list list \<Rightarrow> int \<Rightarrow> byte list option" where
  "entry_of tab i = (if i < 0 then None else c_get tab (nat i))"

section \<open>Formats\<close>

datatype tplFormatTypes =
    tplFmtDefault | tplFmtMySQLDate | tplFmtRFC3164Date | tplFmtRFC3339Date | tplFmtPgSQLDate
  | tplFmtSecFrac | tplFmtRFC3164BuggyDate | tplFmtUnixDate | tplFmtWDayName | tplFmtYear
  | tplFmtMonth | tplFmtDay | tplFmtHour | tplFmtMinute | tplFmtSecond | tplFmtTZOffsHour
  | tplFmtTZOffsMin | tplFmtTZOffsDirection | tplFmtWDay | tplFmtOrdinal | tplFmtWeek

text \<open>A timestamp of a message with its cached texts, without terminators. An empty text
  stands for a buffer that starts with 0.\<close>

record timecache =
  tstamp :: syslogTime
  text3164 :: "byte list option"
  text3339 :: "byte list option"
  textMySQL :: "byte list option"
  textPgSQL :: "byte list option"
  textSecFrac :: "byte list"
  textUnix :: "byte list"

text \<open>A formatted time in a buffer of so many bytes.\<close>

definition in_buf :: "nat \<Rightarrow> byte list \<times> int \<Rightarrow> byte list option" where
  "in_buf n r = (if length (fst r) \<le> n then Some (butlast (fst r)) else None)"

text \<open>The formats that need no buffer.\<close>

fun time_field :: "syslogTime \<Rightarrow> tplFormatTypes \<Rightarrow> byte list option" where
  "time_field t tplFmtWDayName = entry_of wdayNames (getWeekdayNbr t)"
| "time_field t tplFmtWDay = entry_of one_digit (getWeekdayNbr t)"
| "time_field t tplFmtMonth = entry_of two_digits (month t)"
| "time_field t tplFmtYear =
     (if year t \<ge> 1967 \<and> year t \<le> 2099 then entry_of years (year t - 1967)
      else Some (lit ''YEAR OUT OF RANGE(1967-2099)''))"
| "time_field t tplFmtDay = entry_of two_digits (day t)"
| "time_field t tplFmtHour = entry_of two_digits (hour t)"
| "time_field t tplFmtMinute = entry_of two_digits (minute t)"
| "time_field t tplFmtSecond = entry_of two_digits (second t)"
| "time_field t tplFmtTZOffsHour = entry_of two_digits (OffsetHour t)"
| "time_field t tplFmtTZOffsMin = entry_of two_digits (OffsetMinute t)"
| "time_field t tplFmtTZOffsDirection = Some (if OffsetMode t = 43 then [43] else [45])"
| "time_field t tplFmtOrdinal = Option.bind (getOrdinal t) (entry_of daysInYear)"
| "time_field t tplFmtWeek = Option.bind (getWeek t) (entry_of two_digits)"
| "time_field t _ = Some (lit ''INVALID eFmt OPTION!'')"

text \<open>The time a message carries; its texts of RFC 3164 and RFC 3339 have buffers in the
  message, \<open>mem\<close> is whether the others can be allocated.\<close>

fun getTimeReported :: "bool \<Rightarrow> timecache \<Rightarrow> tplFormatTypes \<Rightarrow> (byte list \<times> timecache) option" where
  "getTimeReported mem c tplFmtMySQLDate =
     (case textMySQL c of Some s \<Rightarrow> Some (s, c)
      | None \<Rightarrow> if \<not> mem then Some ([], c) else do {
          s \<leftarrow> in_buf 15 (formatTimestampToMySQL (tstamp c));
          Some (s, c\<lparr>textMySQL := Some s\<rparr>) })"
| "getTimeReported mem c tplFmtPgSQLDate =
     (case textPgSQL c of Some s \<Rightarrow> Some (s, c)
      | None \<Rightarrow> if \<not> mem then Some ([], c) else do {
          s \<leftarrow> in_buf 21 (formatTimestampToPgSQL (tstamp c));
          Some (s, c\<lparr>textPgSQL := Some s\<rparr>) })"
| "getTimeReported mem c tplFmtRFC3339Date =
     (case text3339 c of Some s \<Rightarrow> Some (s, c)
      | None \<Rightarrow> do {
          r \<leftarrow> formatTimestamp3339 (tstamp c);
          s \<leftarrow> in_buf 33 r;
          Some (s, c\<lparr>text3339 := Some s\<rparr>) })"
| "getTimeReported mem c tplFmtUnixDate =
     (if textUnix c \<noteq> [] then Some (textUnix c, c) else do {
        r \<leftarrow> formatTimestampUnix (tstamp c);
        s \<leftarrow> in_buf 12 r;
        Some (s, c\<lparr>textUnix := s\<rparr>) })"
| "getTimeReported mem c tplFmtSecFrac =
     (if textSecFrac c \<noteq> [] then Some (textSecFrac c, c) else do {
        r \<leftarrow> formatTimestampSecFrac (tstamp c);
        s \<leftarrow> in_buf 7 r;
        Some (s, c\<lparr>textSecFrac := s\<rparr>) })"
| "getTimeReported mem c eFmt =
     (if eFmt = tplFmtDefault \<or> eFmt = tplFmtRFC3164Date \<or> eFmt = tplFmtRFC3164BuggyDate then
        (case text3164 c of Some s \<Rightarrow> Some (s, c)
         | None \<Rightarrow> do {
             r \<leftarrow> formatTimestamp3164 (tstamp c) (eFmt = tplFmtRFC3164BuggyDate);
             s \<leftarrow> in_buf 16 r;
             Some (s, c\<lparr>text3164 := Some s\<rparr>) })
      else map_option (\<lambda>s. (s, c)) (time_field (tstamp c) eFmt))"

text \<open>The time a message was received, all buffers of which are allocated.\<close>

fun getTimeGenerated :: "bool \<Rightarrow> timecache \<Rightarrow> tplFormatTypes \<Rightarrow> (byte list \<times> timecache) option" where
  "getTimeGenerated mem c tplFmtRFC3339Date =
     (case text3339 c of Some s \<Rightarrow> Some (s, c)
      | None \<Rightarrow> if \<not> mem then Some ([], c) else do {
          r \<leftarrow> formatTimestamp3339 (tstamp c);
          s \<leftarrow> in_buf 33 r;
          Some (s, c\<lparr>text3339 := Some s\<rparr>) })"
| "getTimeGenerated mem c eFmt =
     (if eFmt = tplFmtDefault \<or> eFmt = tplFmtRFC3164Date \<or> eFmt = tplFmtRFC3164BuggyDate then
        (case text3164 c of Some s \<Rightarrow> Some (s, c)
         | None \<Rightarrow> if \<not> mem then Some ([], c) else do {
             r \<leftarrow> formatTimestamp3164 (tstamp c) (eFmt = tplFmtRFC3164BuggyDate);
             s \<leftarrow> in_buf 16 r;
             Some (s, c\<lparr>text3164 := Some s\<rparr>) })
      else getTimeReported mem c eFmt)"

text \<open>A timestamp converted to UTC: the text, and whether the caller must free it.\<close>

definition utc_text :: "syslogTime \<Rightarrow> tplFormatTypes \<Rightarrow> byte list option" where
  "utc_text t eFmt = (case eFmt of
       tplFmtDefault \<Rightarrow> Option.bind (formatTimestamp3164 t False) (in_buf 16)
     | tplFmtMySQLDate \<Rightarrow> in_buf 15 (formatTimestampToMySQL t)
     | tplFmtPgSQLDate \<Rightarrow> in_buf 21 (formatTimestampToPgSQL t)
     | tplFmtRFC3164Date \<Rightarrow> Option.bind (formatTimestamp3164 t False) (in_buf 16)
     | tplFmtRFC3164BuggyDate \<Rightarrow> Option.bind (formatTimestamp3164 t True) (in_buf 16)
     | tplFmtRFC3339Date \<Rightarrow> Option.bind (formatTimestamp3339 t) (in_buf 33)
     | tplFmtUnixDate \<Rightarrow> Option.bind (formatTimestampUnix t) (in_buf 12)
     | tplFmtSecFrac \<Rightarrow> Option.bind (formatTimestampSecFrac t) (in_buf 7)
     | _ \<Rightarrow> time_field t eFmt)"

text \<open>The formats that ask for their buffer before they write it; the others copy an entry of a
  table, which is read before the copy is allocated.\<close>

definition own_buffer :: "tplFormatTypes \<Rightarrow> bool" where
  "own_buffer eFmt = (eFmt \<in> {tplFmtDefault, tplFmtMySQLDate, tplFmtPgSQLDate, tplFmtRFC3164Date,
     tplFmtRFC3164BuggyDate, tplFmtRFC3339Date, tplFmtUnixDate, tplFmtSecFrac})"

definition getTimeUTC :: "bool \<Rightarrow> (int \<Rightarrow> tm \<times> int) \<Rightarrow> syslogTime \<Rightarrow> tplFormatTypes \<Rightarrow> (byte list \<times> bool) option" where
  "getTimeUTC mem lt pTmIn eFmt = do {
     t \<leftarrow> timeConvertToUTC lt pTmIn;
     s \<leftarrow> (if own_buffer eFmt \<and> \<not> mem then Some [] else utc_text t eFmt);
     Some (if mem then (s, True)
       else (lit ''internal error: invalid eFmt option or malloc problem'', False))
   }"

section \<open>What the indices are\<close>

lemma entry_of_in: "0 \<le> i \<Longrightarrow> nat i < length tab \<Longrightarrow> \<exists>s. entry_of tab i = Some s"
  by (simp add: entry_of_def)

definition wd_year :: "syslogTime \<Rightarrow> int" where
  "wd_year ts = (if month ts < 3 then year ts - 1 else year ts)"

definition wd_month :: "syslogTime \<Rightarrow> int" where
  "wd_month ts = (if month ts < 3 then month ts + 13 else month ts + 1)"

lemma weekday_eq:
  assumes "0 \<le> wd_year ts" and "0 \<le> wd_month ts"
  shows "getWeekdayNbr ts = (365 * wd_year ts + wd_year ts div 4 + 306 * wd_month ts div 10 + day ts - 621049) smod 7"
proof -
  have "getWeekdayNbr ts = ((36525 * wd_year ts) sdiv 100 + (306 * wd_month ts) sdiv 10 + day ts - 621049) smod 7"
    unfolding getWeekdayNbr_def Let_def wd_year_def wd_month_def by (cases "month ts < 3") simp_all
  moreover have "(36525 * wd_year ts) sdiv 100 = 365 * wd_year ts + wd_year ts div 4"
    "(306 * wd_month ts) sdiv 10 = 306 * wd_month ts div 10"
    using assms by (simp_all only: sdiv_eq year_days mult_nonneg_nonneg zero_le_numeral zero_less_numeral)
  ultimately show ?thesis by simp
qed

lemma wd_bounds:
  assumes "time_ok ts" and "1 \<le> year ts"
  shows "0 \<le> wd_year ts" "4 \<le> wd_month ts" "wd_month ts \<le> 15" "year ts - 1 \<le> wd_year ts" "wd_year ts \<le> year ts"
  using assms by (auto simp: wd_year_def wd_month_def time_ok_def)

lemma weekday_range:
  assumes "time_ok ts" and "1970 \<le> year ts"
  shows "0 \<le> getWeekdayNbr ts" "getWeekdayNbr ts \<le> 6"
proof -
  define s where "s = 365 * wd_year ts + wd_year ts div 4 + 306 * wd_month ts div 10 + day ts - 621049"
  have b: "1969 \<le> wd_year ts" "0 \<le> wd_month ts" "1 \<le> day ts"
    using wd_bounds [of ts] assms by (auto simp: time_ok_def)
  have "0 \<le> wd_year ts div 4" "0 \<le> 306 * wd_month ts div 10" using b by (simp_all add: pos_imp_zdiv_nonneg_iff)
  then have "0 \<le> s" using b unfolding s_def by linarith
  moreover have "getWeekdayNbr ts = s smod 7" unfolding s_def by (rule weekday_eq) (use b in simp_all)
  ultimately have "getWeekdayNbr ts = s mod 7" by (simp add: smod_eq_0)
  then show "0 \<le> getWeekdayNbr ts" "getWeekdayNbr ts \<le> 6" using pos_mod_bound [of 7 s] by simp_all
qed

text \<open>Seconds since the start of the year.\<close>

definition in_year :: "syslogTime \<Rightarrow> int" where
  "in_year ts = civil_secs ts - 86400 * civil_days (year ts) 1 1"

lemma ordinal_eq:
  assumes "time_ok ts" and "1970 \<le> year ts"
  shows "getOrdinal ts = Some ((in_year ts + (if OffsetMode ts = 43 then 2 - 2 * utc_offset ts else 1)) sdiv 86400)"
proof -
  have y: "1970 \<le> year ts" "year ts \<le> 2100" "\<not> (year ts < 1970 \<or> year ts > 2100)"
    using assms by (auto simp: time_ok_def)
  show ?thesis
    unfolding getOrdinal_def if_not_P [OF y(3)] time_t_calendar [OF assms] table_ok [OF y(1,2)]
    by (simp add: in_year_def civil_days_def utc_offset_def Let_def algebra_simps)
qed

lemma in_year_range:
  assumes "time_ok ts" and "1970 \<le> year ts"
  shows "0 \<le> in_year ts" "in_year ts \<le> 366 * 86400"
proof -
  have b: "1 \<le> month ts" "month ts \<le> 12" "1 \<le> day ts" "day ts \<le> 31" "0 \<le> hour ts" "hour ts \<le> 23" "0 \<le> minute ts"
    "minute ts \<le> 59" "0 \<le> second ts" "second ts \<le> 60"
    using assms by (auto simp: time_ok_def)
  have "sum_list (take (nat (month ts - 1)) (month_lens (year ts))) \<le> 335"
    unfolding months_before [OF b(1,2)] by simp
  then show "0 \<le> in_year ts" "in_year ts \<le> 366 * 86400"
    using b months_nonneg [of "nat (month ts - 1)" "year ts"]
    by (simp_all add: in_year_def civil_secs_def civil_days_def)
qed

lemma sdiv_neg: "x < 0 \<Longrightarrow> 0 < k \<Longrightarrow> x sdiv k = - ((- x) div (k :: int))"
  by (simp add: signed_divide_int_def)

lemma ordinal_range:
  assumes "time_ok ts" and "1970 \<le> year ts"
  shows "\<exists>x. getOrdinal ts = Some x \<and> - 1 \<le> x \<and> x \<le> 366"
proof -
  define z where "z = in_year ts + (if OffsetMode ts = 43 then 2 - 2 * utc_offset ts else 1)"
  have "- 172800 < z" "z \<le> 366 * 86400 + 2"
    using in_year_range [OF assms] utc_offset_bound [OF assms(1)] assms(1)
    by (auto simp: z_def utc_offset_def time_ok_def)
  then have "- 1 \<le> z sdiv 86400 \<and> z sdiv 86400 \<le> 366"
    using zdiv_mono1 [of z "366 * 86400 + 2" 86400] zdiv_mono1 [of "- z" 172799 86400]
    by (cases "0 \<le> z") (simp_all add: sdiv_eq sdiv_neg pos_imp_zdiv_nonneg_iff order_trans [of "-1" 0])
  then show ?thesis using ordinal_eq [OF assms] by (simp add: z_def)
qed

section \<open>The texts are defined\<close>

lemma tables_length: "length one_digit = 10" "length two_digits = 100" "length wdayNames = 7"
    "length daysInYear = 366" "length years = 133"
  by (simp_all add: one_digit_def two_digits_def wdayNames_def daysInYear_def years_def)

lemma week_range:
  assumes "time_ok ts" and "1970 \<le> year ts"
  shows "\<exists>w. getWeek ts = Some w \<and> 0 \<le> w \<and> w \<le> 54"
proof -
  obtain x where x: "getOrdinal ts = Some x" "- 1 \<le> x" "x \<le> 366" using ordinal_range [OF assms] by blast
  have "0 \<le> (x + 6) sdiv 7 \<and> (x + 6) sdiv 7 \<le> 53"
    using x zdiv_mono1 [of "x + 6" 372 7] by (simp add: sdiv_eq pos_imp_zdiv_nonneg_iff)
  then show ?thesis using x by (auto simp: getWeek_def Let_def)
qed

lemma time_field_defined:
  assumes "time_ok t" and "1970 \<le> year t" and "eFmt \<noteq> tplFmtOrdinal"
  shows "\<exists>s. time_field t eFmt = Some s"
proof -
  have b: "0 \<le> month t" "month t \<le> 99" "0 \<le> day t" "day t \<le> 99" "0 \<le> hour t" "hour t \<le> 99" "0 \<le> minute t"
    "minute t \<le> 99" "0 \<le> second t" "second t \<le> 99" "0 \<le> OffsetHour t" "OffsetHour t \<le> 99" "0 \<le> OffsetMinute t"
    "OffsetMinute t \<le> 99"
    using assms(1) by (auto simp: time_ok_def)
  obtain w where w: "getWeek t = Some w" "0 \<le> w" "w \<le> 54" using week_range [OF assms(1,2)] by blast
  show ?thesis
    using assms(3) b w weekday_range [OF assms(1,2)]
    by (cases eFmt) (auto simp: tables_length intro!: entry_of_in)
qed

lemma frac_text:
  assumes "time_ok t" and "frac_valid t" and "0 < secfracPrecision t"
  shows "\<exists>ds. fraction t = Some ds \<and> length ds \<le> 6"
  using fraction_ok [OF assms(2,3)] assms(1,2) by (auto simp: time_ok_def frac_valid_def)

lemma format3339_defined:
  assumes "time_ok t" and "frac_valid t"
  shows "\<exists>r. formatTimestamp3339 t = Some r \<and> length (fst r) \<le> 33"
proof -
  obtain fs where fs: "(if secfracPrecision t > 0 then map_option (\<lambda>ds. 46 # ds) (fraction t) else Some []) = Some fs"
    "length fs \<le> 7" using secfrac_read [OF assms(2,1)] by blast
  have "length (zone_text t) \<le> 6" by (simp add: zone_text_def two_def)
  then show ?thesis using fs by (auto simp: formatTimestamp3339_def Let_def four_def two_def)
qed

lemma formatUnix_defined:
  "time_ok t \<Longrightarrow> 1970 \<le> year t \<Longrightarrow> \<exists>r. formatTimestampUnix t = Some r \<and> length (fst r) \<le> 12"
  by (auto simp: formatTimestampUnix_def time_t_calendar)

lemma formatSecFrac_defined:
  "time_ok t \<Longrightarrow> frac_valid t \<Longrightarrow> \<exists>r. formatTimestampSecFrac t = Some r \<and> length (fst r) \<le> 7"
  using frac_text [of t] by (auto simp: formatTimestampSecFrac_def)

lemma formats_length:
  "length (fst (formatTimestampToMySQL t)) = 15" "length (fst (formatTimestampToPgSQL t)) = 20"
  by (simp_all add: formatTimestampToMySQL_def formatTimestampToPgSQL_def four_def two_def)

lemma format3164_defined:
  "time_ok t \<Longrightarrow> \<exists>r. formatTimestamp3164 t b = Some r \<and> length (fst r) = 16"
  using format_stamp3164 [of t b] by simp

lemma reported_defined:
  assumes "time_ok (tstamp c)" "1970 \<le> year (tstamp c)" "frac_valid (tstamp c)" "eFmt \<noteq> tplFmtOrdinal"
  shows "\<exists>r. getTimeReported mem c eFmt = Some r"
  using format3339_defined [OF assms(1,3)] formatUnix_defined [OF assms(1,2)] formatSecFrac_defined [OF assms(1,3)]
    format3164_defined [OF assms(1), of True] format3164_defined [OF assms(1), of False]
    time_field_defined [OF assms(1,2,4)] formats_length [of "tstamp c"]
  by (cases eFmt) (auto simp: in_buf_def split: option.split)

lemma generated_defined:
  assumes "time_ok (tstamp c)" "1970 \<le> year (tstamp c)" "frac_valid (tstamp c)" "eFmt \<noteq> tplFmtOrdinal"
  shows "\<exists>r. getTimeGenerated mem c eFmt = Some r"
  using format3339_defined [OF assms(1,3)] reported_defined [OF assms, of mem]
    format3164_defined [OF assms(1), of True] format3164_defined [OF assms(1), of False]
  by (cases eFmt) (auto simp: in_buf_def split: option.split)

section \<open>Properties\<close>

text \<open>C37: For a well-formed timestamp from 1970 on with at most six digits of the second, every
  time format of a template but the ordinal is produced inside its buffer and its table,
  from the time a message carries and from the time it was received.\<close>

theorem time_formats_defined:
  assumes "time_ok (tstamp c)" and "1970 \<le> year (tstamp c)" and "frac_valid (tstamp c)" and "eFmt \<noteq> tplFmtOrdinal"
  shows "getTimeReported mem c eFmt \<noteq> None \<and> getTimeGenerated mem c eFmt \<noteq> None"
  using reported_defined [OF assms] generated_defined [OF assms] by auto

text \<open>The ordinal of a day is looked up outside its table in two cases: early in a year
  with an offset of more than twelve hours ahead of UTC, and in the last second of a leap
  year in UTC or behind it.\<close>

theorem ordinal_leaves_table:
  assumes "time_ok t" and "1970 \<le> year t" and "tstamp c = t"
    and "OffsetMode t = 43 \<and> in_year t + 86402 \<le> 2 * utc_offset t
      \<or> OffsetMode t \<noteq> 43 \<and> in_year t = 366 * 86400 - 1"
  shows "getTimeReported mem c tplFmtOrdinal = None \<and> getTimeGenerated mem c tplFmtOrdinal = None"
  using assms(4)
proof
  assume off: "OffsetMode t = 43 \<and> in_year t + 86402 \<le> 2 * utc_offset t"
  define z where "z = in_year t + 2 - 2 * utc_offset t"
  have z: "z \<le> - 86400" using off by (simp add: z_def)
  have "1 \<le> - z div 86400" using z zdiv_mono1 [of 86400 "- z" 86400] by simp
  then have "z sdiv 86400 < 0" using z by (simp add: sdiv_neg)
  moreover have "getOrdinal t = Some (z sdiv 86400)"
    using ordinal_eq [OF assms(1,2)] off by (simp add: z_def algebra_simps)
  ultimately show ?thesis using assms(3) by (simp add: entry_of_def)
next
  assume "OffsetMode t \<noteq> 43 \<and> in_year t = 366 * 86400 - 1"
  then have "getOrdinal t = Some 366" using ordinal_eq [OF assms(1,2)] by (simp add: sdiv_eq)
  then show ?thesis using assms(3) by (simp add: entry_of_def tables_length)
qed

text \<open>For years before 1700, which the parser for RFC 3339 accepts, the name of the weekday
  is looked up in front of its table, except when the computed weekday is 0.\<close>

theorem weekday_leaves_table:
  assumes "time_ok t" and "1 \<le> year t" "year t < 1700" and "tstamp c = t" and "getWeekdayNbr t \<noteq> 0"
  shows "getTimeReported mem c tplFmtWDayName = None \<and> getTimeGenerated mem c tplFmtWDayName = None"
proof -
  define s where "s = 365 * wd_year t + wd_year t div 4 + 306 * wd_month t div 10 + day t - 621049"
  have b: "wd_year t \<le> 1699" "wd_month t \<le> 15" "day t \<le> 31" "0 \<le> wd_year t" "0 \<le> wd_month t"
    using wd_bounds [OF assms(1,2)] assms by (auto simp: time_ok_def)
  have m: "wd_year t \<le> 1699 \<and> wd_month t \<le> 13 \<or> wd_year t \<le> 1698"
    using assms(1,3) by (auto simp: wd_year_def wd_month_def time_ok_def)
  have "wd_year t div 4 \<le> 424" "306 * wd_month t div 10 \<le> 459" "wd_month t \<le> 13 \<Longrightarrow> 306 * wd_month t div 10 \<le> 397"
    using b zdiv_mono1 [of "wd_year t" 1699 4] zdiv_mono1 [of "306 * wd_month t" 4590 10]
      zdiv_mono1 [of "306 * wd_month t" 3978 10] by simp_all
  then have "s < 0" using m b unfolding s_def by linarith
  moreover have "getWeekdayNbr t = s smod 7" unfolding s_def by (rule weekday_eq [OF b(4,5)])
  ultimately have "getWeekdayNbr t = - ((- s) mod 7)" by (simp add: signed_modulo_int_def)
  then have "getWeekdayNbr t < 0" using assms(5) pos_mod_sign [of 7 "- s"] by linarith
  then show ?thesis using assms(4) by (simp add: entry_of_def)
qed

definition cache_ex :: "syslogTime \<Rightarrow> timecache" where
  "cache_ex t = \<lparr>tstamp = t, text3164 = None, text3339 = None, textMySQL = None, textPgSQL = None,
     textSecFrac = [], textUnix = []\<rparr>"

text \<open>New year in New Zealand, and a day in 1066.\<close>

definition newyear_ex :: syslogTime where
  "newyear_ex = time_ex\<lparr>month := 1, day := 1, hour := 0, minute := 0, second := 0, OffsetHour := 13\<rparr>"

definition old_ex :: syslogTime where
  "old_ex = time_ex\<lparr>year := 1066, day := 12\<rparr>"

theorem time_formats_defined_witness:
  "getTimeReported True (cache_ex time_ex) tplFmtRFC3339Date \<noteq> None \<and> getTimeGenerated True (cache_ex time_ex) tplFmtRFC3339Date \<noteq> None"
  using time_formats_defined [of "cache_ex time_ex" tplFmtRFC3339Date True] time_ex_valid time_ex_year(1)
  by (simp add: cache_ex_def)

theorem ordinal_leaves_table_witness: "getTimeReported True (cache_ex newyear_ex) tplFmtOrdinal = None"
proof -
  have "in_year newyear_ex + 86402 \<le> 2 * utc_offset newyear_ex"
    by (simp add: in_year_def civil_secs_def utc_offset_def newyear_ex_def time_ex_def)
  then show ?thesis
    using ordinal_leaves_table [of newyear_ex "cache_ex newyear_ex" True] time_ex_valid(1)
    by (simp add: cache_ex_def newyear_ex_def time_ex_def time_ok_def)
qed

theorem weekday_leaves_table_witness: "getTimeReported True (cache_ex old_ex) tplFmtWDayName = None"
proof -
  have "getWeekdayNbr old_ex \<noteq> 0"
    by (simp add: getWeekdayNbr_def old_ex_def time_ex_def signed_divide_int_def signed_modulo_int_def)
  then show ?thesis
    using weekday_leaves_table [of old_ex "cache_ex old_ex" True] time_ex_valid(1)
    by (simp add: cache_ex_def old_ex_def time_ex_def time_ok_def)
qed

end
