(* ===== verification/TagText.thy ===== *)
theory TagText
  imports MsgText
begin

text \<open>
  The tag that runtime/msg.c makes up for a message of protocol version 1.
\<close>

section \<open>The emulated tag\<close>

text \<open>C28: A message of protocol version 1 has no tag. The one that is made up of its application name
  and process id, \<open>app[procid]\<close>, is exact up to 511 characters. Above 512 characters the length that
  \<open>snprintf\<close> reports for the untruncated text is used to copy from the buffer of 512 bytes, which
  reads behind it.\<close>

theorem tag_emulation_over_reads:
  assumes "iProtocolVersion m = 1" "TAG m = []" "pCSAPPNAME m = Some app" "pCSPROCID m = Some procid" "procid \<noteq> [45]"
  shows "(length app + length procid + 2 \<le> 511 \<longrightarrow>
      getTAG True m = Some (app @ [91] @ procid @ [93], m\<lparr>TAG := app @ [91] @ procid @ [93], PROGNAME := None\<rparr>))
    \<and> (length app + length procid + 2 > 512 \<longrightarrow> getTAG True m = None)"
  using assms by (simp add: getTAG_def tryEmulateTAG_def getPROCID_def appname1_def MsgSetTAG_def Let_def)

theorem tag_emulation_over_reads_witness:
  "getTAG True ((pmsg_ex [])\<lparr>iProtocolVersion := 1, pCSAPPNAME := Some (replicate 600 97), pCSPROCID := Some [49]\<rparr>) = None"
  using tag_emulation_over_reads [of "(pmsg_ex [])\<lparr>iProtocolVersion := 1, pCSAPPNAME := Some (replicate 600 97),
    pCSPROCID := Some [49]\<rparr>" "replicate 600 97" "[49]"]
  by (simp add: pmsg_ex_def)

end
