(* ===== verification/Parser.thy ===== *)
theory Parser
  imports MsgText
begin

text \<open>
  The parser object of runtime/parser.c: decompression and sanitizing of a received message,
  its priority, and the list of parsers that is tried on it. The global settings are a
  record, the decompressor is a parameter.
\<close>

section \<open>Settings\<close>

record parser_cfg =
  DropTrailingLF :: bool
  SpaceLF :: bool
  EscapeControl :: bool
  Escape8Bit :: bool
  EscapeTab :: bool
  CStyle :: bool
  EscapePrefix :: byte
  MaxLine :: nat

definition RS_RET_EMPTY_MSG :: rsRetVal where
  "RS_RET_EMPTY_MSG = RS_RET_other (- 2143)"

section \<open>Decompression\<close>

definition uncompressMessage ::
    "bool \<Rightarrow> parser_cfg \<Rightarrow> (byte list \<Rightarrow> nat \<Rightarrow> byte list option) \<Rightarrow> pmsg \<Rightarrow> (rsRetVal \<times> pmsg) option" where
  "uncompressMessage mem cfg uncompress m =
     (if iLenRawMsg m > 0 then do {
        c \<leftarrow> c_get (pszRawMsg m) 0;
        if c = 122 then
          if \<not> mem then Some (RS_RET_OUT_OF_MEMORY, m)
          else (case uncompress (take (nat (iLenRawMsg m) - 1) (drop 1 (pszRawMsg m))) (MaxLine cfg) of
              None \<Rightarrow> Some (RS_RET_OK, m)
            | Some s \<Rightarrow> Some (RS_RET_OK, MsgSetRawMsg mem m s))
        else Some (RS_RET_OK, m)
      } else Some (RS_RET_OK, m))"

section \<open>Sanitizing\<close>

definition hexdigit :: "nat \<Rightarrow> byte" where
  "hexdigit n = (if n < 10 then of_nat (48 + n) else of_nat (55 + n))"

definition hex_escape :: "byte \<Rightarrow> byte list" where
  "hex_escape c = [hexdigit (unat c div 16), hexdigit (unat c mod 16)]"

definition octal_escape :: "byte \<Rightarrow> byte list" where
  "octal_escape c = [of_nat (48 + unat c div 64), of_nat (48 + unat c div 8 mod 8), of_nat (48 + unat c mod 8)]"

definition c_escape :: "byte \<Rightarrow> byte list" where
  "c_escape c =
     (if c = 0 then [48] else if c = 7 then [97] else if c = 8 then [98] else if c = 27 then [101]
      else if c = 12 then [102] else if c = 10 then [110] else if c = 13 then [114]
      else if c = 9 then [116] else if c = 11 then [118] else 120 # hex_escape c)"

text \<open>What the copy loop writes for a character. A control character that is not to be escaped
  is dropped.\<close>

definition esc :: "parser_cfg \<Rightarrow> byte \<Rightarrow> byte list" where
  "esc cfg c =
     (if c < 32 \<and> (c \<noteq> 9 \<or> EscapeTab cfg) then
        (if c = 0 \<or> EscapeControl cfg then
           (if CStyle cfg then 92 # c_escape c else EscapePrefix cfg # octal_escape c)
         else [])
      else if c > 127 \<and> Escape8Bit cfg then
        (if CStyle cfg then [92, 120] @ hex_escape c else EscapePrefix cfg # octal_escape c)
      else [c])"

function san_scan :: "parser_cfg \<Rightarrow> nat \<Rightarrow> byte list \<Rightarrow> nat \<Rightarrow> bool \<Rightarrow> (byte list \<times> nat \<times> bool) option" where
  "san_scan cfg lenMsg raw i bNeedSanitize =
     (if i < lenMsg then do {
        c \<leftarrow> c_get raw i;
        if c < 32 then
          if SpaceLF cfg \<and> c = 10 then do {
            raw \<leftarrow> c_set raw i 32;
            san_scan cfg lenMsg raw (Suc i) bNeedSanitize
          } else if c = 0 \<or> EscapeControl cfg then
            (if \<not> SpaceLF cfg then Some (raw, i, True) else san_scan cfg lenMsg raw (Suc i) True)
          else san_scan cfg lenMsg raw (Suc i) bNeedSanitize
        else if c > 127 \<and> Escape8Bit cfg then Some (raw, i, True)
        else san_scan cfg lenMsg raw (Suc i) bNeedSanitize
      } else Some (raw, i, bNeedSanitize))"
  by pat_completeness auto
termination by (relation "measure (\<lambda>(cfg, lenMsg, raw, i, b). lenMsg - i)") auto

declare san_scan.simps [simp del]

text \<open>\<open>room\<close> is \<open>maxDest - 3\<close>; \<open>sz\<close> is the size of the buffer written to.\<close>

function san_copy :: "parser_cfg \<Rightarrow> byte list \<Rightarrow> nat \<Rightarrow> nat \<Rightarrow> nat \<Rightarrow> nat \<Rightarrow> byte list \<Rightarrow> byte list option" where
  "san_copy cfg raw lenMsg room sz iSrc dst =
     (if iSrc < lenMsg \<and> length dst < room then do {
        c \<leftarrow> c_get raw iSrc;
        _ \<leftarrow> c_guard (length dst + length (esc cfg c) \<le> sz);
        san_copy cfg raw lenMsg room sz (Suc iSrc) (dst @ esc cfg c)
      } else Some dst)"
  by pat_completeness auto
termination by (relation "measure (\<lambda>(cfg, raw, lenMsg, room, sz, i, dst). lenMsg - i)") auto

declare san_copy.simps [simp del]

text \<open>The trailing 0 and the trailing LF.\<close>

definition san_trim :: "parser_cfg \<Rightarrow> byte list \<Rightarrow> nat \<Rightarrow> (byte list \<times> nat \<times> bool) option" where
  "san_trim cfg raw lenMsg = do {
     c \<leftarrow> c_get raw (lenMsg - 1);
     let (lenMsg, bUpdatedLen) = (if c = 0 then (lenMsg - 1, True) else (lenMsg, False));
     if DropTrailingLF cfg \<and> lenMsg > 0 then do {
       c \<leftarrow> c_get raw (lenMsg - 1);
       if c = 10 then do {
         raw \<leftarrow> c_set raw (lenMsg - 1) 0;
         Some (raw, lenMsg - 1, True)
       } else Some (raw, lenMsg, bUpdatedLen)
     } else Some (raw, lenMsg, bUpdatedLen)
   }"

definition SanitizeMsg :: "bool \<Rightarrow> parser_cfg \<Rightarrow> pmsg \<Rightarrow> (rsRetVal \<times> pmsg) option" where
  "SanitizeMsg mem cfg m = do {
     _ \<leftarrow> c_guard (iLenRawMsg m > 0);
     (raw, lenMsg, bUpdatedLen) \<leftarrow> san_trim cfg (pszRawMsg m) (nat (iLenRawMsg m));
     (raw, iSrc, bNeedSanitize) \<leftarrow> san_scan cfg lenMsg raw 0 False;
     let m = m\<lparr>pszRawMsg := raw\<rparr>;
     if \<not> bNeedSanitize then
       (if bUpdatedLen then map_option (Pair RS_RET_OK) (MsgSetRawMsgSize m lenMsg) else Some (RS_RET_OK, m))
     else do {
       let maxDest = min (lenMsg * 4) (MaxLine cfg);
       if maxDest \<ge> 32768 \<and> \<not> mem then Some (RS_RET_OUT_OF_MEMORY, m)
       else do {
         let sz = (if maxDest < 32768 then 32768 else maxDest + 1);
         let iSrc = min (iSrc - 1) maxDest;
         _ \<leftarrow> c_guard (iSrc \<le> length raw);
         dst \<leftarrow> san_copy cfg raw lenMsg (size_t (int maxDest - 3)) sz iSrc (take iSrc raw);
         _ \<leftarrow> c_guard (length dst < sz);
         Some (RS_RET_OK, MsgSetRawMsg mem m dst)
       }
     }
   }"

section \<open>The priority\<close>

text \<open>The loop \<open>while(--lenMsg > 0 && isdigit(*++msg) && pri <= LOG_MAXPRI)\<close>: the number read
  and the position it stops at.\<close>

function pri_loop :: "byte list \<Rightarrow> nat \<Rightarrow> int \<Rightarrow> int \<Rightarrow> (int \<times> nat) option" where
  "pri_loop raw p len pri =
     (if len - 1 > 0 then do {
        c \<leftarrow> c_get raw (Suc p);
        if isdigit c \<and> pri \<le> LOG_MAXPRI then pri_loop raw (Suc p) (len - 1) (10 * pri + (uint c - 48))
        else Some (pri, Suc p)
      } else Some (pri, p))"
  by pat_completeness auto
termination by (relation "measure (\<lambda>(raw, p, len, pri). nat len)") auto

declare pri_loop.simps [simp del]

definition ParsePRI :: "pmsg \<Rightarrow> (rsRetVal \<times> pmsg) option" where
  "ParsePRI m =
     (if has_flag m NO_PRI_IN_RAW then Some (RS_RET_OK, MsgSetAfterPRIOffs m 0)
      else do {
        c \<leftarrow> c_get (pszRawMsg m) 0;
        (pri, msg) \<leftarrow> (if c = 60 then do {
            (pri, msg) \<leftarrow> pri_loop (pszRawMsg m) 0 (iLenRawMsg m) 0;
            d \<leftarrow> c_get (pszRawMsg m) msg;
            let (pri, msg) = (if d = 62 then (pri, Suc msg) else (LOG_PRI_INVLD, msg));
            Some (if pri > LOG_MAXPRI then LOG_PRI_INVLD else pri, msg)
          } else Some (DEFUPRI, 0));
        let m = msgSetPRI m pri;
        Some (RS_RET_OK, MsgSetAfterPRIOffs m (if pri = LOG_PRI_INVLD then 0 else int msg))
      })"

section \<open>The list of parsers\<close>

record parser =
  bDoSanitazion :: bool
  bDoPRIParsing :: bool
  pm_parse :: "pmsg \<Rightarrow> (rsRetVal \<times> pmsg) option"

text \<open>The loop over the parsers: the code of the last one tried, or the error that ended it.\<close>

fun parseLoop :: "bool \<Rightarrow> parser_cfg \<Rightarrow> parser list \<Rightarrow> bool \<Rightarrow> bool \<Rightarrow> rsRetVal \<Rightarrow> pmsg
    \<Rightarrow> (rsRetVal \<times> pmsg) option" where
  "parseLoop mem cfg [] bIsSanitized bPRIisParsed localRet m = Some (localRet, m)"
| "parseLoop mem cfg (p # ps) bIsSanitized bPRIisParsed localRet m = do {
     (r, m1) \<leftarrow> (if bDoSanitazion p \<and> \<not> bIsSanitized then SanitizeMsg mem cfg m else Some (RS_RET_OK, m));
     if r \<noteq> RS_RET_OK then Some (r, m1) else do {
       let bSan = (bIsSanitized \<or> bDoSanitazion p);
       let bPri = (bDoSanitazion p \<and> \<not> bIsSanitized \<and> bDoPRIParsing p \<and> \<not> bPRIisParsed);
       (r2, m2) \<leftarrow> (if bPri then ParsePRI m1 else Some (RS_RET_OK, m1));
       if r2 \<noteq> RS_RET_OK then Some (r2, m2) else do {
         (ret, m3) \<leftarrow> pm_parse p m2;
         if ret \<noteq> RS_RET_COULD_NOT_PARSE then Some (ret, m3)
         else parseLoop mem cfg ps bSan (bPRIisParsed \<or> bPri) ret m3
       }
     }
   }"

definition ParseMsg ::
    "bool \<Rightarrow> parser_cfg \<Rightarrow> (byte list \<Rightarrow> nat \<Rightarrow> byte list option) \<Rightarrow> parser list \<Rightarrow> pmsg \<Rightarrow> (rsRetVal \<times> pmsg) option" where
  "ParseMsg mem cfg uncompress parsers m =
     (if iLenRawMsg m = 0 then Some (RS_RET_EMPTY_MSG, m)
      else do {
        (r, m1) \<leftarrow> uncompressMessage mem cfg uncompress m;
        if r \<noteq> RS_RET_OK then Some (r, m1) else do {
          (r2, m2) \<leftarrow> parseLoop mem cfg parsers False False RS_RET_ERR m1;
          if r2 \<noteq> RS_RET_OK then Some (r2, m2)
          else Some (RS_RET_OK, m2\<lparr>pflags := pflags m2 AND NOT NEEDS_PARSING\<rparr>)
        }
      })"

end
