(* ===== verification/ParsePri.thy ===== *)
theory ParsePri
  imports Parser
begin

text \<open>
  What runtime/parser.c reads as the priority of a message, digit by digit.
\<close>

section \<open>Priorities\<close>

lemma pri_loop_read:
  "0 \<le> pri \<Longrightarrow> \<forall>d \<in> set ds. isdigit d \<Longrightarrow> (rs \<noteq> [] \<longrightarrow> \<not> isdigit (hd rs)) \<Longrightarrow>
   \<exists>v q. pri_loop (pre @ c # ds @ rs @ [0]) (length pre) (1 + int (length ds) + int (length rs)) pri = Some (v, q)
     \<and> q < length (pre @ c # ds @ rs @ [0])
     \<and> (v > 191 \<and> dval pri ds > 191
        \<or> v = dval pri ds \<and> (pre @ c # ds @ rs @ [0]) ! q = (if rs = [] then last (c # ds) else hd rs)
          \<and> (rs \<noteq> [] \<longrightarrow> q = length pre + 1 + length ds))"
proof (induction ds arbitrary: pri pre c)
  case Nil
  then show ?case
    by (cases rs) (auto simp: pri_loop.simps [of "pre @ _"] nth_append dval_def)
next
  case (Cons d ds)
  let ?b = "pre @ c # d # ds @ rs @ [0]"
  have d: "48 \<le> uint d" "uint d \<le> 57" using Cons.prems(2) by (auto simp: isdigit_uint)
  show ?case
  proof (cases "pri \<le> 191")
    case True
    have "pri_loop ?b (length pre) (1 + int (length (d # ds)) + int (length rs)) pri
        = pri_loop ((pre @ [c]) @ d # ds @ rs @ [0]) (length (pre @ [c]))
           (1 + int (length ds) + int (length rs)) (10 * pri + (uint d - 48))"
      using True Cons.prems(2)
      by (subst pri_loop.simps) (simp add: nth_append LOG_MAXPRI_def algebra_simps)
    moreover obtain v q where "pri_loop ((pre @ [c]) @ d # ds @ rs @ [0]) (length (pre @ [c]))
           (1 + int (length ds) + int (length rs)) (10 * pri + (uint d - 48)) = Some (v, q)"
      and "q < length ((pre @ [c]) @ d # ds @ rs @ [0])"
      and "v > 191 \<and> dval (10 * pri + (uint d - 48)) ds > 191 \<or> v = dval (10 * pri + (uint d - 48)) ds
          \<and> ((pre @ [c]) @ d # ds @ rs @ [0]) ! q = (if rs = [] then last (d # ds) else hd rs)
          \<and> (rs \<noteq> [] \<longrightarrow> q = length (pre @ [c]) + 1 + length ds)"
      using Cons.IH [of "10 * pri + (uint d - 48)" "pre @ [c]" d] Cons.prems d by auto
    ultimately show ?thesis by (auto simp: dval_Cons mult.commute)
  next
    case False
    then have "pri_loop ?b (length pre) (1 + int (length (d # ds)) + int (length rs)) pri
        = Some (pri, Suc (length pre))"
      by (subst pri_loop.simps) (simp add: nth_append LOG_MAXPRI_def)
    moreover have "dval pri (d # ds) > 191"
      using dval_mono [of pri "d # ds"] Cons.prems False by auto
    ultimately show ?thesis using False by auto
  qed
qed

text \<open>C10: The priority of a message whose text starts with \<open><\<close> is the decimal number behind it
  if that is at most 191 and ended by \<open>>\<close>: facility and severity are its quotient and remainder
  by 8 and the message goes on behind the \<open>>\<close>. No digits count as 0. With any other text behind
  the \<open><\<close> the message gets the invalid facility 24, which the legacy parser does not parse, and
  without a \<open><\<close> the default, 13. Nothing is read outside the text.\<close>

theorem priority_parsed:
  assumes raw: "pszRawMsg m = s @ [0]" "iLenRawMsg m = int (length s)" and flag: "\<not> has_flag m NO_PRI_IN_RAW"
  defines "ds \<equiv> takeWhile isdigit (tl s)" and "rs \<equiv> dropWhile isdigit (tl s)"
  shows "ParsePRI m = Some (RS_RET_OK,
    if s = [] \<or> hd s \<noteq> 60 then m\<lparr>iFacility := 1, iSeverity := 5, offAfterPRI := 0\<rparr>
    else if rs \<noteq> [] \<and> hd rs = 62 \<and> dval 0 ds \<le> 191
    then m\<lparr>iFacility := dval 0 ds div 8, iSeverity := dval 0 ds mod 8,
           offAfterPRI := c_short (int (length ds) + 2)\<rparr>
    else m\<lparr>iFacility := 24, iSeverity := 7, offAfterPRI := 0\<rparr>)"
proof (cases "s = [] \<or> hd s \<noteq> 60")
  case True
  then have "(s @ [0]) ! 0 \<noteq> 60" by (cases s) auto
  then show ?thesis using True flag raw
    by (simp add: ParsePRI_def DEFUPRI_def LOG_PRI_INVLD_def LOG_MAXPRI_def msgSetPRI_def pri2fac_def
        MsgSetAfterPRIOffs_def c_short_def Let_def)
next
  case False
  then have s: "s = 60 # ds @ rs" by (cases s) (auto simp: ds_def rs_def)
  have digs: "\<forall>d \<in> set ds. isdigit d" by (auto simp: ds_def dest: set_takeWhileD)
  have rs: "rs \<noteq> [] \<longrightarrow> \<not> isdigit (hd rs)" unfolding rs_def using hd_dropWhile by blast
  obtain v q where loop: "pri_loop (s @ [0]) 0 (int (length s)) 0 = Some (v, q)" "q < length (s @ [0])"
    and v: "v > 191 \<and> dval 0 ds > 191 \<or> v = dval 0 ds
        \<and> (s @ [0]) ! q = (if rs = [] then last (60 # ds) else hd rs) \<and> (rs \<noteq> [] \<longrightarrow> q = 1 + length ds)"
    using pri_loop_read [of 0 ds rs "[]" 60] digs rs s by (auto simp: add.assoc)
  have "\<not> isdigit 62" by (simp add: isdigit_def)
  then have last: "last (60 # ds) \<noteq> 62" using digs last_in_set [of ds] by (cases "ds = []") fastforce+
  have pos: "0 \<le> dval 0 ds" using dval_mono [of 0 ds] digs by simp
  have s0: "(s @ [0]) ! 0 = 60" by (simp add: s)
  define c where "c = (s @ [0]) ! q"
  have code: "ParsePRI m = (let (pri, p) = (if c = 62 then (v, Suc q) else (LOG_PRI_INVLD, q));
      pri = (if pri > LOG_MAXPRI then LOG_PRI_INVLD else pri)
    in Some (RS_RET_OK, MsgSetAfterPRIOffs (msgSetPRI m pri) (if pri = LOG_PRI_INVLD then 0 else int p)))"
    using flag raw loop s0 by (simp add: ParsePRI_def c_def Let_def)
  have invalid: "ParsePRI m = Some (RS_RET_OK, m\<lparr>iFacility := 24, iSeverity := 7, offAfterPRI := 0\<rparr>)"
    if "c \<noteq> 62 \<or> v > 191"
    using that by (auto simp: code LOG_PRI_INVLD_def LOG_MAXPRI_def msgSetPRI_def pri2fac_def
        MsgSetAfterPRIOffs_def LOG_FAC_INVLD_def c_short_def)
  have valid: "ParsePRI m = Some (RS_RET_OK, m\<lparr>iFacility := v div 8, iSeverity := v mod 8, offAfterPRI := c_short (int (Suc q))\<rparr>)"
    if "c = 62" "v \<le> 191"
    using that zdiv_mono1 [of v 191 8] by (auto simp: Let_def code LOG_PRI_INVLD_def LOG_MAXPRI_def msgSetPRI_def pri2fac_def
        MsgSetAfterPRIOffs_def)
  have ne: "\<not> (s = [] \<or> hd s \<noteq> 60)" using False .
  show ?thesis
  proof (cases "rs \<noteq> [] \<and> hd rs = 62 \<and> dval 0 ds \<le> 191")
    case True
    then have "c = 62" "v = dval 0 ds" "q = 1 + length ds" using v by (auto simp: c_def)
    moreover have e: "int (Suc (Suc (length ds))) = int (length ds) + 2" by simp
    ultimately show ?thesis using valid ne True by (simp add: e del: of_nat_Suc)
  next
    case F: False
    then have "c \<noteq> 62 \<or> v > 191" using v last by (auto simp: c_def split: if_splits)
    then show ?thesis using invalid ne F by (simp only: if_False)
  qed
qed

theorem priority_parsed_witness:
  "ParsePRI (pmsg_ex [60, 49, 51, 62]) = Some (RS_RET_OK, (pmsg_ex [60, 49, 51, 62])\<lparr>iFacility := 1, iSeverity := 5, offAfterPRI := 4\<rparr>)"
  using priority_parsed [of "pmsg_ex [60, 49, 51, 62]" "[60, 49, 51, 62]"] by (simp add: isdigit_def dval_def)

end
