(* ===== verification/Sanitize.thy ===== *)
theory Sanitize
  imports Parser
begin

text \<open>
  What sanitizing in runtime/parser.c does to the text of a message: what asks for it, what is
  escaped and how, and what a configuration with \<open>SpaceLF\<close> leaves undone.
\<close>

section \<open>Sanitizing\<close>

text \<open>What asks for sanitizing, and the text without its trailing 0 and LF.\<close>

definition needs :: "parser_cfg \<Rightarrow> byte \<Rightarrow> bool" where
  "needs cfg c \<longleftrightarrow> c = 0 \<or> c < 32 \<and> EscapeControl cfg \<or> c > 127 \<and> Escape8Bit cfg"

definition trimmed :: "parser_cfg \<Rightarrow> byte list \<Rightarrow> byte list" where
  "trimmed cfg s =
     (let t = (if s \<noteq> [] \<and> last s = 0 then butlast s else s)
      in if DropTrailingLF cfg \<and> t \<noteq> [] \<and> last t = 10 then butlast t else t)"

lemma trim_ok:
  assumes s: "s \<noteq> []"
  shows "\<exists>ys b. san_trim cfg (s @ [0]) (length s) = Some (trimmed cfg s @ 0 # ys, length (trimmed cfg s), b)
    \<and> (\<not> b \<longrightarrow> trimmed cfg s = s)"
proof -
  obtain u x where u: "s = u @ [x]" using s by (cases s rule: rev_cases) auto
  show ?thesis
  proof (cases "x = 0")
    case False
    then show ?thesis
      by (auto simp: u san_trim_def trimmed_def nth_append list_update_append)
  next
    case True
    show ?thesis
    proof (cases u rule: rev_cases)
      case Nil
      then show ?thesis using True by (auto simp: u san_trim_def trimmed_def intro: exI [of _ True])
    next
      case (snoc w y)
      then show ?thesis using True
        by (auto simp: u san_trim_def trimmed_def nth_append list_update_append butlast_append Let_def)
    qed
  qed
qed

lemma esc_length: "length (esc cfg c) \<le> 4"
  by (simp add: esc_def c_escape_def octal_escape_def hex_escape_def)

text \<open>The copy loop never runs out of the buffer, and copies everything if there is room for four
  bytes per character.\<close>

lemma copy_bound:
  assumes "lenMsg \<le> length raw" and "length dst \<le> md" "room + 3 \<le> md" "md < sz"
  shows "\<exists>d. san_copy cfg raw lenMsg room sz i dst = Some d \<and> length d \<le> md"
  using assms
proof (induction cfg raw lenMsg room sz i dst rule: san_copy.induct)
  case (1 cfg raw lenMsg room sz i dst)
  show ?case
  proof (cases "i < lenMsg \<and> length dst < room")
    case True
    have "length dst + length (esc cfg (raw ! i)) \<le> md"
      using esc_length [of cfg "raw ! i"] True 1 by linarith
    then show ?thesis using True 1 by (subst san_copy.simps) auto
  qed (use 1 in \<open>subst san_copy.simps, auto\<close>)
qed

lemma copy_all:
  assumes "t = u @ v" "raw = t @ ys" and "length dst \<le> 4 * length u" "room = 4 * length t - 3" "4 * length t < sz"
  shows "san_copy cfg raw (length t) room sz (length u) dst = Some (dst @ concat (map (esc cfg) v))"
  using assms
proof (induction v arbitrary: u dst)
  case Nil
  then show ?case by (subst san_copy.simps) simp
next
  case (Cons x v)
  have l: "length (esc cfg x) \<le> 4" by (rule esc_length)
  then have "san_copy cfg raw (length t) room sz (length (u @ [x])) (dst @ esc cfg x)
      = Some ((dst @ esc cfg x) @ concat (map (esc cfg) v))"
    using Cons.prems by (intro Cons.IH) auto
  moreover have "san_copy cfg raw (length t) room sz (length u) dst
      = san_copy cfg raw (length t) room sz (length (u @ [x])) (dst @ esc cfg x)"
    using Cons.prems l by (subst san_copy.simps) (auto simp: nth_append)
  ultimately show ?case by simp
qed

text \<open>The scan: without \<open>SpaceLF\<close> it stops at the first character that asks for it.\<close>

lemma scan_stop:
  assumes "\<not> SpaceLF cfg" and "raw = u @ v @ ys"
  shows "san_scan cfg (length (u @ v)) raw (length u) False
    = Some (raw, length u + length (takeWhile (\<lambda>c. \<not> needs cfg c) v), \<exists>c \<in> set v. needs cfg c)"
  using assms
proof (induction v arbitrary: u)
  case Nil
  then show ?case by (subst san_scan.simps) simp
next
  case (Cons x v)
  have IH: "san_scan cfg (length ((u @ [x]) @ v)) raw (length (u @ [x])) False
      = Some (raw, length (u @ [x]) + length (takeWhile (\<lambda>c. \<not> needs cfg c) v), \<exists>c \<in> set v. needs cfg c)"
    using Cons.prems by (intro Cons.IH) auto
  have "\<not> (x < 32 \<and> 127 < x)" by (auto simp: word_less_def)
  then show ?case using Cons.prems IH
    by (subst san_scan.simps) (auto simp: nth_append needs_def)
qed

lemma esc_plain: "\<not> needs cfg c \<Longrightarrow> 32 \<le> c \<Longrightarrow> esc cfg c = [c]"
  by (auto simp: esc_def needs_def)


lemma trimmed_length: "length (trimmed cfg s) \<le> length s"
  by (auto simp: trimmed_def Let_def)

text \<open>The text the sanitizer leaves behind, with its length and its terminator.\<close>

definition raw_is :: "pmsg \<Rightarrow> byte list \<Rightarrow> bool" where
  "raw_is m s \<longleftrightarrow> iLenRawMsg m = int (length s) \<and> (\<exists>ys. pszRawMsg m = s @ 0 # ys)"

lemma raw_is_set: "(m::pmsg)\<lparr>pszRawMsg := x\<rparr>\<lparr>pszRawMsg := y\<rparr> = m\<lparr>pszRawMsg := y\<rparr>"
  by simp

lemma set_raw_is: "raw_is (MsgSetRawMsg True m s) s"
  by (simp add: raw_is_def MsgSetRawMsg_def Let_def)

lemma of_nat_ge: "32 \<le> n \<Longrightarrow> n < 256 \<Longrightarrow> (32 :: byte) \<le> of_nat n"
  by (simp add: word_le_nat_alt unat_of_nat)

lemma hexdigit_ge: "n < 16 \<Longrightarrow> 32 \<le> hexdigit n"
  by (auto simp: hexdigit_def intro!: of_nat_ge simp del: of_nat_add)

lemma unat_byte: "unat (c :: byte) < 256"
  using unsigned_less [of c] by simp

lemma hex_ge: "x \<in> set (hex_escape c) \<Longrightarrow> 32 \<le> x"
  using unat_byte [of c] by (auto simp: hex_escape_def intro!: hexdigit_ge)

lemma octal_ge: "x \<in> set (octal_escape c) \<Longrightarrow> 32 \<le> x"
  using unat_byte [of c] by (auto simp: octal_escape_def simp del: of_nat_add intro!: of_nat_ge)

lemma c_escape_ge: "x \<in> set (c_escape c) \<Longrightarrow> 32 \<le> x"
  using hex_ge by (auto simp: c_escape_def split: if_splits)

text \<open>No control character to be escaped is left by an escape.\<close>

definition plain :: "parser_cfg \<Rightarrow> byte \<Rightarrow> bool" where
  "plain cfg c \<longleftrightarrow> c \<noteq> 0 \<and> (EscapeControl cfg \<longrightarrow> c \<ge> 32 \<or> c = 9 \<and> \<not> EscapeTab cfg)"

lemma plain_ge: "32 \<le> c \<Longrightarrow> plain cfg c"
  by (auto simp: plain_def)

lemma plain_lits: "plain cfg 92" "plain cfg 120"
  by (simp_all add: plain_ge)

lemma plain_tab: "\<not> EscapeTab cfg \<Longrightarrow> plain cfg 9"
  by (simp add: plain_def)

lemma esc_plain_set: "EscapePrefix cfg \<ge> 32 \<Longrightarrow> x \<in> set (esc cfg c) \<Longrightarrow> plain cfg x"
  unfolding esc_def
  by (auto simp: plain_tab plain_lits split: if_splits
      intro: plain_ge octal_ge [THEN plain_ge] hex_ge [THEN plain_ge] c_escape_ge [THEN plain_ge])

lemma plain_unneeded: "\<not> needs cfg c \<Longrightarrow> plain cfg c"
  by (auto simp: needs_def plain_def)

lemma esc_unneeded: "EscapeControl cfg \<Longrightarrow> \<forall>c \<in> set s. \<not> needs cfg c \<Longrightarrow> concat (map (esc cfg) s) = s"
  by (induction s) (auto simp: esc_plain needs_def)

lemma sanitize_copy:
  assumes "iLenRawMsg m = int n" "0 < n" "san_trim cfg (pszRawMsg m) n = Some (raw, len, b)"
    and "san_scan cfg len raw 0 False = Some (raw', i, True)"
    and md: "md = min (len * 4) (MaxLine cfg)" and "i' = min (i - 1) md" "i' \<le> length raw'"
    and "sz = (if md < 32768 then 32768 else md + 1)"
    and "san_copy cfg raw' len (size_t (int md - 3)) sz i' (take i' raw') = Some dst" "length dst < sz"
  shows "SanitizeMsg True cfg m = Some (RS_RET_OK, MsgSetRawMsg True (m\<lparr>pszRawMsg := raw'\<rparr>) dst)"
  using assms(1-4,7,9-) unfolding SanitizeMsg_def assms(6,8)
  by (simp add: Let_def md [symmetric])

text \<open>C9: With enough memory and a limit of at least four times its length, a message that is
  sanitized without \<open>SpaceLF\<close> loses a trailing 0 and, if so configured, a trailing LF. If no
  character of the rest needs it, it is kept, otherwise it is escaped character by character
  from the one in front of the first that does. It then holds no 0, and with
  \<open>EscapeControl\<close> all of it is escaped and no control character is left but, if so configured,
  the tab.\<close>

theorem sanitized_text:
  assumes raw: "pszRawMsg m = s @ [0]" "iLenRawMsg m = int (length s)" and ne: "s \<noteq> []"
    and cfg: "\<not> SpaceLF cfg" "4 * length s \<le> MaxLine cfg" "MaxLine cfg < 2147483648" "EscapePrefix cfg \<ge> 32"
  defines "t \<equiv> trimmed cfg s"
  defines "k \<equiv> length (takeWhile (\<lambda>c. \<not> needs cfg c) t)"
  defines "t' \<equiv> (if k = length t then t else take (k - 1) t @ concat (map (esc cfg) (drop (k - 1) t)))"
  shows "\<exists>m'. SanitizeMsg True cfg m = Some (RS_RET_OK, m') \<and> raw_is m' t'
    \<and> (\<forall>c \<in> set t'. plain cfg c) \<and> (EscapeControl cfg \<longrightarrow> t' = concat (map (esc cfg) t))"
proof -
  obtain ys b where trim: "san_trim cfg (s @ [0]) (length s) = Some (t @ 0 # ys, length t, b)"
    and b: "\<not> b \<longrightarrow> t = s"
    using trim_ok [OF ne] unfolding t_def by blast
  have lt: "length t \<le> length s" unfolding t_def by (rule trimmed_length)
  have scan: "san_scan cfg (length t) (t @ 0 # ys) 0 False = Some (t @ 0 # ys, k, \<exists>c \<in> set t. needs cfg c)"
    using scan_stop [OF cfg(1), of _ "[]" t "0 # ys"] by (simp add: k_def)
  show ?thesis
  proof (cases "\<exists>c \<in> set t. needs cfg c")
    case False
    then have "k = length t" unfolding k_def by (metis takeWhile_eq_all_conv)
    then have t': "t' = t" by (simp add: t'_def)
    have size: "MsgSetRawMsgSize (m\<lparr>pszRawMsg := t @ 0 # ys\<rparr>) (length t)
        = Some (m\<lparr>iLenRawMsg := int (length t), pszRawMsg := t @ 0 # ys\<rparr>)"
      using raw lt by (simp add: MsgSetRawMsgSize_def list_update_append)
    have "SanitizeMsg True cfg m = Some (RS_RET_OK,
        if b then m\<lparr>iLenRawMsg := int (length t), pszRawMsg := t @ 0 # ys\<rparr> else m\<lparr>pszRawMsg := t @ 0 # ys\<rparr>)"
      using raw ne trim scan False by (simp add: SanitizeMsg_def size)
    moreover have "EscapeControl cfg \<Longrightarrow> concat (map (esc cfg) t) = t" using False by (intro esc_unneeded) auto
    ultimately show ?thesis using b raw False plain_unneeded by (auto simp: t' raw_is_def)
  next
    case True
    then have k: "k < length t" unfolding k_def
      by (metis length_takeWhile_le le_neq_implies_less takeWhile_eq_all_conv takeWhile_eq_take take_all_iff order_refl)
    define u v where "u = take (k - 1) t" and "v = drop (k - 1) t"
    have uv: "t = u @ v" "length u = k - 1" using k by (auto simp: u_def v_def)
    have "u = take (k - 1) (takeWhile (\<lambda>c. \<not> needs cfg c) t)"
      unfolding u_def k_def using k by (metis diff_le_self k_def takeWhile_eq_take take_take min.absorb1)
    then have nn: "\<not> needs cfg c" if "c \<in> set u" for c
      using that by (metis in_set_takeD set_takeWhileD)
    have t': "t' = u @ concat (map (esc cfg) v)" using k by (simp add: t'_def u_def v_def)
    have plain: "plain cfg c" if "c \<in> set t'" for c
      using that nn plain_unneeded esc_plain_set [OF cfg(4)] by (auto simp: t')
    have eq: "t' = concat (map (esc cfg) t)" if "EscapeControl cfg"
      using esc_unneeded [OF that, of u] nn uv(1) by (simp add: t')
    have d: "size_t (int (4 * length t) - 3) = 4 * length t - 3" using k lt cfg by (subst size_t_in) auto
    let ?sz = "if 4 * length t < 32768 then 32768 else 4 * length t + 1"
    have copy: "san_copy cfg (t @ 0 # ys) (length t) (4 * length t - 3) ?sz (length u) u = Some t'"
      using uv k unfolding t' by (intro copy_all) auto
    have "\<exists>d. san_copy cfg (t @ 0 # ys) (length t) (4 * length t - 3) ?sz (length u) u = Some d \<and> length d \<le> 4 * length t"
      using uv k by (intro copy_bound) auto
    then have lt': "length t' < ?sz" using copy by auto
    have "SanitizeMsg True cfg m = Some (RS_RET_OK, MsgSetRawMsg True (m\<lparr>pszRawMsg := t @ 0 # ys\<rparr>) t')"
    proof (rule sanitize_copy [OF raw(2) _ trim [folded raw(1)], of _ k "4 * length t" "length u" ?sz])
      show "san_scan cfg (length t) (t @ 0 # ys) 0 False = Some (t @ 0 # ys, k, True)" using scan True by simp
      show "4 * length t = min (length t * 4) (MaxLine cfg)" using lt cfg by simp
      show "length u = min (k - 1) (4 * length t)" using uv k by simp
      show "san_copy cfg (t @ 0 # ys) (length t) (size_t (int (4 * length t) - 3)) ?sz (length u)
          (take (length u) (t @ 0 # ys)) = Some t'"
        using copy d uv(1) by simp
    qed (use ne uv lt' in auto)
    then show ?thesis using set_raw_is plain eq by blast
  qed
qed


text \<open>With \<open>SpaceLF\<close> the scan goes on behind a control character.\<close>

definition spaced :: "byte \<Rightarrow> byte" where
  "spaced c = (if c = 10 then 32 else c)"

lemma scan_space:
  assumes "SpaceLF cfg" and "\<forall>c \<in> set v. \<not> (c > 127 \<and> Escape8Bit cfg)"
  shows "san_scan cfg (length (u @ v)) (u @ v @ ys) (length u) b
    = Some (u @ map spaced v @ ys, length (u @ v), b \<or> (\<exists>c \<in> set v. c \<noteq> 10 \<and> needs cfg c))"
  using assms(2)
proof (induction v arbitrary: u b)
  case Nil
  then show ?case by (subst san_scan.simps) simp
next
  case (Cons x v)
  have IH: "san_scan cfg (length (u @ x # v)) (u @ y # v @ ys) (Suc (length u)) b'
      = Some (u @ y # map spaced v @ ys, length (u @ x # v), b' \<or> (\<exists>c \<in> set v. c \<noteq> 10 \<and> needs cfg c))" for b' y
    using Cons.IH [of "u @ [y]" b'] Cons.prems by simp
  have "\<not> (x < 32 \<and> 127 < x)" by (auto simp: word_less_def)
  then show ?case using Cons.prems assms(1) IH
    by (subst san_scan.simps) (auto simp: nth_append list_update_append needs_def spaced_def)
qed

text \<open>C31: With \<open>SpaceLF\<close> a message is not sanitized but for its last character: if any other
  character than an LF asks for it, each LF is a space afterwards, the last character is
  escaped, and all others stay as they were, bytes 0 and control characters included.\<close>

theorem space_lf_skips_sanitizing:
  assumes raw: "pszRawMsg m = s @ [0]" "iLenRawMsg m = int (length s)" and ne: "s \<noteq> []"
    and cfg: "SpaceLF cfg" "4 * length s \<le> MaxLine cfg" "MaxLine cfg < 2147483648"
    and need: "\<exists>c \<in> set (trimmed cfg s). c \<noteq> 10 \<and> needs cfg c"
    and "\<forall>c \<in> set (trimmed cfg s). \<not> (c > 127 \<and> Escape8Bit cfg)"
  shows "\<exists>m'. SanitizeMsg True cfg m = Some (RS_RET_OK, m')
    \<and> raw_is m' (map spaced (butlast (trimmed cfg s)) @ esc cfg (spaced (last (trimmed cfg s))))"
proof -
  define t where "t = trimmed cfg s"
  define w where "w = map spaced t"
  obtain ys b where trim: "san_trim cfg (s @ [0]) (length s) = Some (t @ 0 # ys, length t, b)"
    using trim_ok [OF ne] unfolding t_def by blast
  have lt: "length t \<le> length s" unfolding t_def by (rule trimmed_length)
  have scan: "san_scan cfg (length t) (t @ 0 # ys) 0 False = Some (w @ 0 # ys, length t, True)"
    using scan_space [OF cfg(1) assms(8) [folded t_def], of "[]" "0 # ys" False] need
    by (simp add: t_def w_def)
  have t: "t \<noteq> []" using need by (auto simp: t_def)
  define u x where "u = map spaced (butlast t)" and "x = spaced (last t)"
  have w: "w = u @ [x]" using t by (metis append_butlast_last_id list.simps(8,9) map_append u_def w_def x_def)
  then have lu: "length u = length t - 1" by (simp add: u_def)
  then have lw: "length t = Suc (length u)" using t by (cases t) auto
  let ?sz = "if 4 * length t < 32768 then 32768 else 4 * length t + 1"
  have d: "size_t (int (4 * length t) - 3) = 4 * length w - 3"
    using t lt cfg by (subst size_t_in) (auto simp: w_def Suc_le_eq neq_Nil_conv)
  have "san_copy cfg (w @ 0 # ys) (length w) (4 * length w - 3) ?sz (length u) u = Some (u @ concat (map (esc cfg) [x]))"
    using w lw by (intro copy_all) (auto simp: w_def)
  then have copy: "san_copy cfg (w @ 0 # ys) (length t) (4 * length w - 3) ?sz (length u) u = Some (u @ esc cfg x)"
    by (simp add: w_def)
  have "SanitizeMsg True cfg m = Some (RS_RET_OK, MsgSetRawMsg True (m\<lparr>pszRawMsg := w @ 0 # ys\<rparr>) (u @ esc cfg x))"
  proof (rule sanitize_copy [OF raw(2) _ trim [folded raw(1)], of _ "length t" "4 * length t" "length u" ?sz])
    show "san_scan cfg (length t) (t @ 0 # ys) 0 False = Some (w @ 0 # ys, length t, True)" by (rule scan)
    show "4 * length t = min (length t * 4) (MaxLine cfg)" using lt cfg by simp
    show "length u = min (length t - 1) (4 * length t)" using lu by simp
    show "san_copy cfg (w @ 0 # ys) (length t) (size_t (int (4 * length t) - 3)) ?sz (length u)
        (take (length u) (w @ 0 # ys)) = Some (u @ esc cfg x)"
      using copy d w by simp
    show "length (u @ esc cfg x) < ?sz" using esc_length [of cfg x] lu t by (cases t) auto
  qed (use ne w in auto)
  then show ?thesis using set_raw_is unfolding u_def x_def t_def by blast
qed

definition parser_cfg_ex :: "bool \<Rightarrow> parser_cfg" where
  "parser_cfg_ex b = \<lparr>DropTrailingLF = True, SpaceLF = b, EscapeControl = True, Escape8Bit = False, EscapeTab = True,
     CStyle = False, EscapePrefix = 35, MaxLine = 8192\<rparr>"

theorem sanitized_text_witness:
  "\<exists>m'. SanitizeMsg True (parser_cfg_ex False) (pmsg_ex [97, 1, 10]) = Some (RS_RET_OK, m')
     \<and> raw_is m' [97, 35, 48, 48, 49]"
  using sanitized_text [of "pmsg_ex [97, 1, 10]" "[97, 1, 10]" "parser_cfg_ex False"]
  by (simp add: parser_cfg_ex_def trimmed_def needs_def esc_def octal_escape_def) blast

theorem space_lf_skips_sanitizing_witness:
  "\<exists>m'. SanitizeMsg True (parser_cfg_ex True) (pmsg_ex [1, 0, 98]) = Some (RS_RET_OK, m') \<and> raw_is m' [1, 0, 98]"
  using space_lf_skips_sanitizing [of "pmsg_ex [1, 0, 98]" "[1, 0, 98]" "parser_cfg_ex True"]
  by (simp add: parser_cfg_ex_def trimmed_def needs_def esc_def spaced_def)

end
