(* ===== verification/Parse5424.thy ===== *)
theory Parse5424
  imports Parser
begin

text \<open>
  The parser of tools/pmrfc5424.c. The parse pointer is a position in the raw message, the work
  buffer the text in it: a field that is not written leaves the one of the field before.
\<close>

section \<open>Fields\<close>

function parseRFCField :: "byte list \<Rightarrow> nat \<Rightarrow> int \<Rightarrow> byte list \<Rightarrow> (byte list \<times> nat \<times> int) option" where
  "parseRFCField raw p len res =
     (if len > 0 then do {
        c \<leftarrow> c_get raw p;
        if c = 32 then Some (res, Suc p, len - 1)
        else parseRFCField raw (Suc p) (len - 1) (res @ [c])
      } else Some (res, p, len))"
  by pat_completeness auto
termination by (relation "measure (\<lambda>(raw, p, len, res). nat len)") auto

declare parseRFCField.simps [simp del]

function sd_loop :: "byte list \<Rightarrow> nat \<Rightarrow> int \<Rightarrow> byte list \<Rightarrow> (byte list \<times> nat \<times> int) option" where
  "sd_loop raw p len res =
     (if len < 2 then
        (if len > 0 then do {
           c \<leftarrow> c_get raw p;
           Some (if c = 93 then (res @ [c], Suc p, len - 1) else (res, p, len))
         } else Some (res, p, len))
      else do {
        c \<leftarrow> c_get raw p;
        d \<leftarrow> c_get raw (Suc p);
        if c = 92 \<and> d = 93 then sd_loop raw (p + 2) (len - 2) (res @ [c, d])
        else if c = 93 \<and> d = 32 then Some (res @ [c], p + 2, len - 2)
        else sd_loop raw (Suc p) (len - 1) (res @ [c])
      })"
  by pat_completeness auto
termination by (relation "measure (\<lambda>(raw, p, len, res). nat len)") auto

declare sd_loop.simps [simp del]

text \<open>The buffer, the position and the length afterwards. The code that tells whether there was
  structured data is not looked at by the parser.\<close>

definition parseRFCStructuredData :: "byte list \<Rightarrow> nat \<Rightarrow> int \<Rightarrow> byte list \<Rightarrow> (byte list \<times> nat \<times> int) option" where
  "parseRFCStructuredData raw p len pBuf =
     (if len = 0 then Some (pBuf, p, len)
      else do {
        c \<leftarrow> c_get raw p;
        if c \<noteq> 91 \<and> c \<noteq> 45 then Some (pBuf, p, len)
        else do {
          (res, p, len) \<leftarrow> (if c = 45 then Some ([45], Suc p, len - 1) else sd_loop raw p len []);
          if len > 0 then do {
            d \<leftarrow> c_get raw p;
            Some (if d = 32 then (res, Suc p, len - 1) else (res, p, len))
          } else Some (res, p, len)
        }
      })"

section \<open>The parser\<close>

text \<open>The timestamp: whether to go on, and behind it.\<close>

definition stamp5424 :: "pmsg \<Rightarrow> nat \<Rightarrow> int \<Rightarrow> (bool \<times> pmsg \<times> nat \<times> int) option" where
  "stamp5424 m p len = do {
     nil \<leftarrow> (if len \<ge> 2 then do {
         c \<leftarrow> c_get (pszRawMsg m) p;
         d \<leftarrow> c_get (pszRawMsg m) (Suc p);
         Some (c = 45 \<and> d = 32)
       } else Some False);
     if nil then Some (True, m\<lparr>tTIMESTAMP := tRcvdAt m\<rparr>, p + 2, len - 2)
     else do {
       (r, t, p, len) \<leftarrow> ParseTIMESTAMP3339 (tTIMESTAMP m) (pszRawMsg m) p len;
       if r = RS_RET_OK
       then Some (True, m\<lparr>tTIMESTAMP := if has_flag m IGNDATE then tRcvdAt m else t\<rparr>, p, len)
       else Some (False, m\<lparr>tTIMESTAMP := t\<rparr>, p, len)
     }
   }"

text \<open>The fields from the host name to the structured data.\<close>

definition fields5424 :: "bool \<Rightarrow> pmsg \<Rightarrow> nat \<Rightarrow> int \<Rightarrow> (pmsg \<times> nat \<times> int) option" where
  "fields5424 mem m p len = do {
     (pBuf, p, len) \<leftarrow> parseRFCField (pszRawMsg m) p len [];
     m \<leftarrow> MsgSetHOSTNAME mem m (pBuf @ [0]) (length (c_text pBuf));
     (pBuf, p, len) \<leftarrow> parseRFCField (pszRawMsg m) p len [];
     let m = MsgSetAPPNAME m pBuf;
     (pBuf, p, len) \<leftarrow> parseRFCField (pszRawMsg m) p len [];
     let m = MsgSetPROCID m pBuf;
     (pBuf, p, len) \<leftarrow> parseRFCField (pszRawMsg m) p len [];
     let m = MsgSetMSGID m pBuf;
     (pBuf, p, len) \<leftarrow> parseRFCStructuredData (pszRawMsg m) p len pBuf;
     Some (MsgSetStructuredData m pBuf, p, len)
   }"

definition parse5424 :: "bool \<Rightarrow> pmsg \<Rightarrow> (rsRetVal \<times> pmsg) option" where
  "parse5424 mem m = do {
     _ \<leftarrow> c_guard (0 \<le> offAfterPRI m);
     let p = nat (offAfterPRI m);
     let len = iLenRawMsg m - offAfterPRI m;
     ours \<leftarrow> (if len < 2 then Some False else do {
         c \<leftarrow> c_get (pszRawMsg m) p;
         d \<leftarrow> c_get (pszRawMsg m) (Suc p);
         Some (c = 49 \<and> d = 32)
       });
     if \<not> ours then Some (RS_RET_COULD_NOT_PARSE, m)
     else do {
       let m = setProtocolVersion m 1;
       if \<not> mem then Some (RS_RET_OUT_OF_MEMORY, m)
       else do {
         (bContParse, m, p, len) \<leftarrow> stamp5424 m (p + 2) (len - 2);
         (m, p, len) \<leftarrow> (if bContParse then fields5424 mem m p len else Some (m, p, len));
         m \<leftarrow> MsgSetMSGoffs m (int p);
         Some (RS_RET_OK, m)
       }
     }
   }"

end
