(* ===== verification/Parse3164.thy ===== *)
theory Parse3164
  imports Parser
begin

text \<open>
  The parser of tools/pmrfc3164.c for legacy messages, the last one that is tried. The buffers
  for the host name and the tag hold 512 bytes each; what is written to them is a list.
\<close>

record instanceConf =
  bDetectYearAfterTimestamp :: bool
  bPermitSquareBracketsInHostname :: bool
  bPermitSlashesInHostname :: bool
  bPermitAtSignsInHostname :: bool
  bForceTagEndingByColon :: bool
  bRemoveMsgFirstSpace :: bool

definition isalnum :: "byte \<Rightarrow> bool" where
  "isalnum c \<longleftrightarrow> isalpha c \<or> isdigit c"

section \<open>Headerless messages\<close>

function blank_loop :: "byte list \<Rightarrow> nat \<Rightarrow> int \<Rightarrow> nat \<Rightarrow> nat option" where
  "blank_loop raw p len i =
     (if int i < len then do {
        c \<leftarrow> c_get raw (p + i);
        if c = 32 \<or> c = 9 then blank_loop raw p len (Suc i) else Some i
      } else Some i)"
  by pat_completeness auto
termination by (relation "measure (\<lambda>(raw, p, len, i). nat (len - int i))") auto

declare blank_loop.simps [simp del]

definition headerless :: "byte list \<Rightarrow> nat \<Rightarrow> int \<Rightarrow> bool option" where
  "headerless raw p len = do {
     i \<leftarrow> blank_loop raw p len 0;
     if int i < len then do {
       c \<leftarrow> c_get raw (p + i);
       Some (c = 123 \<or> c = 91)
     } else Some False
   }"

section \<open>The timestamp\<close>

definition stamp3164_any :: "tzinfo list \<Rightarrow> instanceConf \<Rightarrow> pmsg \<Rightarrow> nat \<Rightarrow> int \<Rightarrow> (pmsg \<times> nat \<times> int) option" where
  "stamp3164_any tzinfos inst m p len = do {
     let raw = pszRawMsg m;
     (r, t, p1, len1) \<leftarrow> ParseTIMESTAMP3339 (tTIMESTAMP m) raw p len;
     if r = RS_RET_OK then Some (m\<lparr>tTIMESTAMP := t\<rparr>, p1, len1)
     else do {
       (r, t, p2, len2) \<leftarrow> ParseTIMESTAMP3164 tzinfos t raw p1 len1 False (bDetectYearAfterTimestamp inst);
       if r = RS_RET_OK then do {
         c \<leftarrow> c_get (dfltTZ m) 0;
         t \<leftarrow> (if c \<noteq> 0 then applyDfltTZ t (dfltTZ m) else Some t);
         Some (m\<lparr>tTIMESTAMP := t\<rparr>, p2, len2)
       } else do {
         c \<leftarrow> c_get raw p2;
         if c = 32 \<and> len2 > 1 then do {
           (r, t, p3, len3) \<leftarrow> ParseTIMESTAMP3164 tzinfos t raw (Suc p2) (len2 - 1) False
             (bDetectYearAfterTimestamp inst);
           if r = RS_RET_OK then Some (m\<lparr>tTIMESTAMP := t\<rparr>, p3, len3)
           else Some (m\<lparr>tTIMESTAMP := t\<rparr>, p3 - 1, len3 + 1)
         } else Some (m\<lparr>tTIMESTAMP := t\<rparr>, p2, len2)
       }
     }
   }"

section \<open>The host name\<close>

definition host_char :: "instanceConf \<Rightarrow> bool \<Rightarrow> byte \<Rightarrow> bool" where
  "host_char inst bHadSBracket c \<longleftrightarrow> isalnum c \<or> c = 46 \<or> c = 95 \<or> c = 45 \<or> c = 93 \<and> bHadSBracket
     \<or> c = 64 \<and> bPermitAtSignsInHostname inst \<or> c = 47 \<and> bPermitSlashesInHostname inst"

text \<open>The index \<open>i\<close> is the length of what is in the buffer.\<close>

function host_loop :: "instanceConf \<Rightarrow> byte list \<Rightarrow> nat \<Rightarrow> int \<Rightarrow> bool \<Rightarrow> byte list \<Rightarrow> byte list option" where
  "host_loop inst raw p len bHadSBracket buf =
     (if int (length buf) < len then do {
        c \<leftarrow> c_get raw (p + length buf);
        if host_char inst bHadSBracket c \<and> length buf < 511 then do {
          d \<leftarrow> c_get raw (p + Suc (length buf));
          if d = 93 then Some (buf @ [c]) else host_loop inst raw p len bHadSBracket (buf @ [c])
        } else Some buf
      } else Some buf)"
  by pat_completeness auto
termination by (relation "measure (\<lambda>(inst, raw, p, len, b, buf). nat (len - int (length buf)))") auto

declare host_loop.simps [simp del]

text \<open>The host name ends with its terminator, which must be inside the buffer too.\<close>

definition parse_host :: "bool \<Rightarrow> instanceConf \<Rightarrow> pmsg \<Rightarrow> nat \<Rightarrow> int \<Rightarrow> (pmsg \<times> nat \<times> int) option" where
  "parse_host mem inst m p len = do {
     let raw = pszRawMsg m;
     bHadSBracket \<leftarrow> (if bPermitSquareBracketsInHostname inst then map_option (\<lambda>c. c = 91) (c_get raw p)
       else Some False);
     buf \<leftarrow> host_loop inst raw p len bHadSBracket (if bHadSBracket then [91] else []);
     if int (length buf) = len then do {
       _ \<leftarrow> c_guard (length buf < 512);
       m \<leftarrow> MsgSetHOSTNAME mem m (buf @ [0]) (length buf);
       Some (m, p + length buf, 0)
     } else do {
       (isHostName, buf) \<leftarrow> (if buf \<noteq> [] then do {
           (h, buf) \<leftarrow> (if bHadSBracket then do {
               c \<leftarrow> c_get raw (p + length buf);
               if c = 93 then do {
                 _ \<leftarrow> c_guard (length buf < 512);
                 Some (True, buf @ [93])
               } else Some (False, buf)
             } else do {
               c \<leftarrow> c_get raw (p + length buf - 1);
               Some (isalnum c, buf)
             });
           d \<leftarrow> c_get raw (p + length buf);
           Some (h \<and> d = 32, buf)
         } else Some (False, buf));
       if isHostName then do {
         _ \<leftarrow> c_guard (length buf < 512);
         m \<leftarrow> MsgSetHOSTNAME mem m (buf @ [0]) (length buf);
         Some (m, p + Suc (length buf), len - (int (length buf) + 1))
       } else Some (m, p, len)
     }
   }"

section \<open>The tag\<close>

function tag_loop :: "byte list \<Rightarrow> nat \<Rightarrow> int \<Rightarrow> byte list \<Rightarrow> (byte list \<times> nat \<times> int) option" where
  "tag_loop raw p len buf =
     (if len > 0 then do {
        c \<leftarrow> c_get raw p;
        if c \<noteq> 58 \<and> c \<noteq> 32 \<and> length buf < 510
        then tag_loop raw (Suc p) (len - 1) (buf @ [c]) else Some (buf, p, len)
      } else Some (buf, p, len))"
  by pat_completeness auto
termination by (relation "measure (\<lambda>(raw, p, len, buf). nat len)") auto

declare tag_loop.simps [simp del]

text \<open>The position behind the tag is an \<open>int\<close>: with \<open>bForceTagEndingByColon\<close> the pointer goes one
  character further back than to the start of what is no tag.\<close>

definition parse_tag :: "bool \<Rightarrow> instanceConf \<Rightarrow> pmsg \<Rightarrow> nat \<Rightarrow> int \<Rightarrow> (pmsg \<times> int \<times> int) option" where
  "parse_tag mem inst m p0 len0 = do {
     (buf, p, len) \<leftarrow> tag_loop (pszRawMsg m) p0 len0 [];
     colon \<leftarrow> (if len > 0 then map_option (\<lambda>c. c = 58) (c_get (pszRawMsg m) p) else Some False);
     let i = int (length buf);
     let (buf, p, len) =
       (if colon then (buf @ [58], int p + 1, len - 1)
        else if bForceTagEndingByColon inst then ([45], int p - (i + 1), len + (i + 1))
        else (buf, int p, len));
     m \<leftarrow> MsgSetTAG mem m (buf @ [0]) (length buf);
     Some (m, p, len)
   }"

section \<open>The parser\<close>

text \<open>What runs in front of \<open>finalize_it\<close>.\<close>

definition body3164 ::
    "bool \<Rightarrow> bool \<Rightarrow> tzinfo list \<Rightarrow> instanceConf \<Rightarrow> pmsg \<Rightarrow> nat \<Rightarrow> int \<Rightarrow> (pmsg \<times> int \<times> int) option" where
  "body3164 mem bParseHOSTNAMEandTAG tzinfos inst m p len =
     (if iFacility m = LOG_FAC_INVLD then Some (m, int p, len)
      else do {
        h \<leftarrow> headerless (pszRawMsg m) p len;
        if h then Some (m, int p, len)
        else do {
          (m, p, len) \<leftarrow> stamp3164_any tzinfos inst m p len;
          let m = (if has_flag m IGNDATE then m\<lparr>tTIMESTAMP := tRcvdAt m\<rparr> else m);
          if bParseHOSTNAMEandTAG \<and> \<not> has_flag m INTERNAL_MSG then do {
            (m, p, len) \<leftarrow> (if len > 0 \<and> has_flag m PARSE_HOSTNAME then parse_host mem inst m p len
              else Some (m, p, len));
            parse_tag mem inst m p len
          } else Some (m, int p, len)
        }
      })"

definition parse3164 ::
    "bool \<Rightarrow> bool \<Rightarrow> tzinfo list \<Rightarrow> instanceConf \<Rightarrow> pmsg \<Rightarrow> (rsRetVal \<times> pmsg) option" where
  "parse3164 mem bParseHOSTNAMEandTAG tzinfos inst m = do {
     _ \<leftarrow> c_guard (0 \<le> offAfterPRI m);
     (m, p, len) \<leftarrow> body3164 mem bParseHOSTNAMEandTAG tzinfos inst (setProtocolVersion m 0)
       (nat (offAfterPRI m)) (iLenRawMsg m - offAfterPRI m);
     p \<leftarrow> (if bRemoveMsgFirstSpace inst then do {
         _ \<leftarrow> c_guard (0 \<le> p);
         c \<leftarrow> c_get (pszRawMsg m) (nat p);
         Some (if c = 32 then p + 1 else p)
       } else Some p);
     m \<leftarrow> MsgSetMSGoffs m p;
     Some (RS_RET_OK, m)
   }"

end
