(* ===== verification/ParseSafe.thy ===== *)
theory ParseSafe
  imports ParsePri Sanitize Parse5424 Parse3164
begin

text \<open>
  Reception of a message from end to end: whatever text was received, sanitizing it, reading its
  priority and parsing it with the default list of parsers stay inside the text and leave a
  message whose MSG part lies inside it.
\<close>

section \<open>Sanitizing\<close>

text \<open>The raw message ends at its length; the parts that sanitizing leaves alone.\<close>

definition raw_ok :: "pmsg \<Rightarrow> nat \<Rightarrow> bool" where
  "raw_ok m n \<longleftrightarrow> iLenRawMsg m = int n \<and> ends_at (pszRawMsg m) n"

definition same_times :: "pmsg \<Rightarrow> pmsg \<Rightarrow> bool" where
  "same_times m m' \<longleftrightarrow> tTIMESTAMP m' = tTIMESTAMP m \<and> tRcvdAt m' = tRcvdAt m \<and> dfltTZ m' = dfltTZ m"

lemma trim_safe:
  assumes "ends_at raw n" and "0 < n"
  shows "\<exists>raw' len b. san_trim cfg raw n = Some (raw', len, b) \<and> length raw' = length raw \<and> len \<le> n
    \<and> raw' ! len = 0 \<and> (\<not> b \<longrightarrow> len = n)"
proof (cases "raw ! (n - 1) = 0")
  case True
  then show ?thesis using assms by (auto simp: san_trim_def ends_at_def)
next
  case False
  then show ?thesis using assms by (auto simp: san_trim_def ends_at_def)
qed

definition scanned :: "nat \<Rightarrow> byte list \<Rightarrow> nat \<Rightarrow> bool \<Rightarrow> (byte list \<times> nat \<times> bool) option \<Rightarrow> bool" where
  "scanned len raw i b r \<longleftrightarrow> (\<exists>raw' j nd. r = Some (raw', j, nd) \<and> length raw' = length raw
    \<and> (\<forall>k \<ge> len. raw' ! k = raw ! k) \<and> j \<le> max i len \<and> (nd \<longrightarrow> b \<or> i < len))"

lemma scanned_step:
  "\<lbrakk>scanned len raw1 (Suc i) b1 r; i < len; length raw1 = length raw; \<forall>k \<ge> len. raw1 ! k = raw ! k\<rbrakk>
   \<Longrightarrow> scanned len raw i b r"
  unfolding scanned_def by (elim exE conjE) (intro exI conjI, assumption, auto)

lemma scan_safe: "len \<le> length raw \<Longrightarrow> scanned len raw i b (san_scan cfg len raw i b)"
proof (induction cfg len raw i b rule: san_scan.induct)
  case (1 cfg len raw i b)
  show ?case
  proof (cases "i < len")
    case False
    then show ?thesis by (subst san_scan.simps) (simp add: scanned_def)
  next
    case i: True
    then have get: "c_get raw i = Some (raw ! i)" "c_set raw i 32 = Some (raw[i := 32])" using 1(5) by auto
    have stop: "scanned len raw i b (Some (raw, i, True))"
      using i by (auto simp: scanned_def intro: exI [of _ True])
    consider (lf) "raw ! i < 32" "SpaceLF cfg \<and> raw ! i = 10"
      | (stop) "raw ! i < 32" "\<not> (SpaceLF cfg \<and> raw ! i = 10)" "raw ! i = 0 \<or> EscapeControl cfg" "\<not> SpaceLF cfg"
      | (ctl) "raw ! i < 32" "\<not> (SpaceLF cfg \<and> raw ! i = 10)" "raw ! i = 0 \<or> EscapeControl cfg" "SpaceLF cfg"
      | (skip) "raw ! i < 32" "\<not> (SpaceLF cfg \<and> raw ! i = 10)" "\<not> (raw ! i = 0 \<or> EscapeControl cfg)"
      | (high) "\<not> raw ! i < 32" "raw ! i > 127 \<and> Escape8Bit cfg"
      | (plain) "\<not> raw ! i < 32" "\<not> (raw ! i > 127 \<and> Escape8Bit cfg)"
      by blast
    then show ?thesis
    proof cases
      case lf
      have "scanned len (raw[i := 32]) (Suc i) b (san_scan cfg len (raw[i := 32]) (Suc i) b)"
        using 1(1) [OF i get(1) lf get(2)] 1(5) by simp
      then have "scanned len raw i b (san_scan cfg len (raw[i := 32]) (Suc i) b)"
        by (rule scanned_step) (use i in auto)
      then show ?thesis using i get lf by (subst san_scan.simps) auto
    next
      case ctl
      then have "scanned len raw (Suc i) True (san_scan cfg len raw (Suc i) True)"
        using 1(2) [OF i get(1)] 1(5) by simp
      then have "scanned len raw i b (san_scan cfg len raw (Suc i) True)" by (rule scanned_step) (use i in auto)
      then show ?thesis using i get ctl by (subst san_scan.simps) auto
    next
      case skip
      then have "scanned len raw i b (san_scan cfg len raw (Suc i) b)"
        using scanned_step [OF 1(3) [OF i get(1) skip 1(5)] i] by simp
      then show ?thesis using i get skip by (subst san_scan.simps) auto
    next
      case plain
      then have "scanned len raw i b (san_scan cfg len raw (Suc i) b)"
        using scanned_step [OF 1(4) [OF i get(1) plain 1(5)] i] by simp
      then show ?thesis using i get plain by (subst san_scan.simps) auto
    qed (use i get stop in \<open>(subst san_scan.simps, auto)+\<close>)
  qed
qed

lemma raw_ok_set: "\<exists>n \<le> length s. raw_ok (MsgSetRawMsg mem m s) n"
  by (auto simp: raw_ok_def ends_at_def MsgSetRawMsg_def Let_def nth_append
      intro: exI [of _ "length s"] exI [of _ 100])

lemma same_times_set: "same_times m (MsgSetRawMsg mem m s)"
  by (simp add: same_times_def MsgSetRawMsg_def Let_def)

lemma sanitize_safe:
  assumes m: "raw_ok m n" "0 < n" and cfg: "3 \<le> MaxLine cfg" "MaxLine cfg < 2147483648"
  shows "\<exists>r m'. SanitizeMsg mem cfg m = Some (r, m') \<and> same_times m m'
    \<and> (r = RS_RET_OK \<longrightarrow> (\<exists>n' \<le> max n (MaxLine cfg). raw_ok m' n'))"
proof -
  obtain raw len b where trim: "san_trim cfg (pszRawMsg m) n = Some (raw, len, b)"
    and t: "length raw = length (pszRawMsg m)" "len \<le> n" "raw ! len = 0" "\<not> b \<longrightarrow> len = n"
    using trim_safe [of "pszRawMsg m" n cfg] m by (auto simp: raw_ok_def)
  have n: "iLenRawMsg m = int n" "n < length raw" using m t by (auto simp: raw_ok_def ends_at_def)
  obtain raw' i nd where scan: "san_scan cfg len raw 0 False = Some (raw', i, nd)"
    and s: "length raw' = length raw" "\<forall>k \<ge> len. raw' ! k = raw ! k" "i \<le> len" "nd \<longrightarrow> 0 < len"
    using scan_safe [of len raw 0 False cfg] t n by (auto simp: scanned_def)
  show ?thesis
  proof (cases nd)
    case False
    have "raw' ! len = 0" using s(2) t(3) by simp
    then have "raw'[len := 0] = raw'" by (metis list_update_id)
    then have size: "MsgSetRawMsgSize (m\<lparr>pszRawMsg := raw'\<rparr>) len = Some (m\<lparr>iLenRawMsg := int len, pszRawMsg := raw'\<rparr>)"
      using n s t by (simp add: MsgSetRawMsgSize_def)
    have "SanitizeMsg mem cfg m = Some (RS_RET_OK,
        if b then m\<lparr>iLenRawMsg := int len, pszRawMsg := raw'\<rparr> else m\<lparr>pszRawMsg := raw'\<rparr>)"
      using n m(2) trim scan False by (simp add: SanitizeMsg_def size)
    then show ?thesis using s t n
      by (auto simp: same_times_def raw_ok_def ends_at_def intro: exI [of _ len])
  next
    case True
    define md where "md = min (len * 4) (MaxLine cfg)"
    define sz where "sz = (if md < 32768 then 32768 else md + 1)"
    have md: "3 \<le> md" "md < 2147483648" "md < sz" using cfg s(4) True by (auto simp: md_def sz_def)
    define j where "j = min (i - 1) md"
    have j: "j \<le> length raw'" "length (take j raw') \<le> md" using s t n by (auto simp: j_def)
    have room: "size_t (int md - 3) + 3 \<le> md" using md by simp
    obtain dst where copy: "san_copy cfg raw' len (size_t (int md - 3)) sz j (take j raw') = Some dst" "length dst \<le> md"
      using copy_bound [OF _ j(2) room md(3), of len raw' cfg j] s t n by auto
    have "SanitizeMsg mem cfg m = (if md \<ge> 32768 \<and> \<not> mem then Some (RS_RET_OUT_OF_MEMORY, m\<lparr>pszRawMsg := raw'\<rparr>)
        else Some (RS_RET_OK, MsgSetRawMsg mem (m\<lparr>pszRawMsg := raw'\<rparr>) dst))"
      using n m(2) trim scan True copy j(1) md(3)
      by (simp add: SanitizeMsg_def Let_def md_def [symmetric] sz_def [symmetric] j_def [symmetric]
          del: One_nat_def)
    moreover have "\<exists>n' \<le> max n (MaxLine cfg). raw_ok (MsgSetRawMsg mem (m\<lparr>pszRawMsg := raw'\<rparr>) dst) n'"
    proof -
      obtain n' where "n' \<le> length dst" "raw_ok (MsgSetRawMsg mem (m\<lparr>pszRawMsg := raw'\<rparr>) dst) n'"
        using raw_ok_set by blast
      then show ?thesis using copy(2) by (intro exI [of _ n']) (auto simp: md_def le_max_iff_disj)
    qed
    moreover have "same_times m (m\<lparr>pszRawMsg := raw'\<rparr>)" "same_times m (MsgSetRawMsg mem (m\<lparr>pszRawMsg := raw'\<rparr>) dst)"
      using same_times_set [of "m\<lparr>pszRawMsg := raw'\<rparr>" mem dst] by (simp_all add: same_times_def)
    ultimately show ?thesis by auto
  qed
qed


section \<open>The priority\<close>

lemma pri_loop_safe:
  "\<lbrakk>ends_at raw n; int p + len \<le> int n; p \<le> n\<rbrakk> \<Longrightarrow> \<exists>v q. pri_loop raw p len pri = Some (v, q) \<and> q \<le> n"
proof (induction raw p len pri rule: pri_loop.induct)
  case (1 raw p len pri)
  show ?case
  proof (cases "len - 1 > 0")
    case True
    then have get: "c_get raw (Suc p) = Some (raw ! Suc p)" using 1(2,3) by (simp add: ends_at_def)
    show ?thesis
    proof (cases "isdigit (raw ! Suc p) \<and> pri \<le> LOG_MAXPRI")
      case d: True
      then show ?thesis using 1(1) [OF True get d] 1(2-4) True get by (subst pri_loop.simps) simp
    next
      case False
      then show ?thesis using True 1(2-4) get by (subst pri_loop.simps) auto
    qed
  qed (use 1 in \<open>subst pri_loop.simps, simp\<close>)
qed

definition off_ok :: "pmsg \<Rightarrow> nat \<Rightarrow> bool" where
  "off_ok m n \<longleftrightarrow> 0 \<le> offAfterPRI m \<and> offAfterPRI m \<le> int n"

lemma pri_safe:
  assumes m: "raw_ok m n" and n: "n \<le> 32766"
  shows "\<exists>m'. ParsePRI m = Some (RS_RET_OK, m') \<and> raw_ok m' n \<and> off_ok m' n \<and> same_times m m'
    \<and> pszRawMsg m' = pszRawMsg m"
proof (cases "has_flag m NO_PRI_IN_RAW")
  case True
  then show ?thesis using m
    by (simp add: ParsePRI_def MsgSetAfterPRIOffs_def raw_ok_def off_ok_def same_times_def)
next
  case False
  have e: "ends_at (pszRawMsg m) n" "iLenRawMsg m = int n" using m by (simp_all add: raw_ok_def)
  obtain v q where loop: "pri_loop (pszRawMsg m) 0 (iLenRawMsg m) 0 = Some (v, q)" "q \<le> n"
    using pri_loop_safe [OF e(1), of 0 "iLenRawMsg m" 0] e(2) by auto
  have g: "c_get (pszRawMsg m) 0 = Some (pszRawMsg m ! 0)" "c_get (pszRawMsg m) q = Some (pszRawMsg m ! q)"
    using e(1) loop(2) by (auto simp: ends_at_def intro!: c_get_in)
  have "Suc q \<le> n" if "pszRawMsg m ! q = 62"
    using that e(1) loop(2) by (cases "q = n") (auto simp: ends_at_def)
  then show ?thesis using False m n loop g
    by (auto simp: ParsePRI_def MsgSetAfterPRIOffs_def msgSetPRI_def raw_ok_def off_ok_def same_times_def Let_def)
qed

section \<open>RFC 5424\<close>

text \<open>A position in a text with the length that is left.\<close>

definition on :: "nat \<Rightarrow> nat \<Rightarrow> int \<Rightarrow> bool" where
  "on n p len \<longleftrightarrow> 0 \<le> len \<and> int p + len = int n"

lemma field_safe:
  "\<lbrakk>ends_at raw n; on n p len\<rbrakk> \<Longrightarrow> \<exists>f p' len'. parseRFCField raw p len res = Some (f, p', len') \<and> on n p' len'"
proof (induction raw p len res rule: parseRFCField.induct)
  case (1 raw p len res)
  show ?case
  proof (cases "len > 0")
    case True
    then have get: "c_get raw p = Some (raw ! p)" using 1(2,3) by (simp add: ends_at_def on_def)
    have "on n (Suc p) (len - 1)" using True 1(3) by (simp add: on_def)
    then show ?thesis using 1(1) [OF True get] 1(2) True get by (subst parseRFCField.simps) auto
  qed (use 1 in \<open>subst parseRFCField.simps, simp\<close>)
qed

lemma sd_safe:
  "\<lbrakk>ends_at raw n; on n p len\<rbrakk> \<Longrightarrow> \<exists>f p' len'. sd_loop raw p len res = Some (f, p', len') \<and> on n p' len'"
proof (induction raw p len res rule: sd_loop.induct)
  case (1 raw p len res)
  show ?case
  proof (cases "len < 2")
    case True
    then show ?thesis using 1(3,4) by (subst sd_loop.simps) (auto simp: ends_at_def on_def)
  next
    case False
    then have get: "c_get raw p = Some (raw ! p)" "c_get raw (Suc p) = Some (raw ! Suc p)"
      using 1(3,4) by (simp_all add: ends_at_def on_def)
    have "on n (Suc p) (len - 1)" "on n (p + 2) (len - 2)" using False 1(4) by (simp_all add: on_def)
    then show ?thesis using 1(1) [OF False get] 1(2) [OF False get] 1(3) False get
      by (subst sd_loop.simps) auto
  qed
qed

lemma structured_safe:
  assumes "ends_at raw n" and "on n p len"
  shows "\<exists>f p' len'. parseRFCStructuredData raw p len buf = Some (f, p', len') \<and> on n p' len'"
proof (cases "len = 0")
  case True
  then show ?thesis using assms by (simp add: parseRFCStructuredData_def)
next
  case False
  then have get: "c_get raw p = Some (raw ! p)" using assms by (auto simp: ends_at_def on_def)
  have next_on: "\<exists>f p' len'. (if l > 0 then do { d \<leftarrow> c_get raw q; Some (if d = 32 then (r, Suc q, l - 1) else (r, q, l)) }
      else Some (r, q, l)) = Some (f, p', len') \<and> on n p' len'" if "on n q l" for q l and r :: "byte list"
    using that assms(1) by (auto simp: on_def ends_at_def)
  obtain r q l where "sd_loop raw p len [] = Some (r, q, l)" "on n q l" using sd_safe [OF assms] by blast
  moreover have "on n (Suc p) (len - 1)" using False assms(2) by (auto simp: on_def)
  ultimately show ?thesis using False get assms(2) next_on [of q l r] next_on [of "Suc p" "len - 1" "[45]"]
    by (auto simp: parseRFCStructuredData_def)
qed

lemma offset_safe:
  assumes m: "raw_ok m n" and "n \<le> 32766" "0 \<le> p" "p \<le> int n + 1"
  shows "\<exists>m'. MsgSetMSGoffs m p = Some m' \<and> getMSG m' \<noteq> None"
proof (cases "p = int n + 1")
  case True
  then show ?thesis using assms by (simp add: MsgSetMSGoffs_def raw_ok_def getMSG_def)
next
  case False
  then have "MsgSetMSGoffs m p = Some (m\<lparr>offMSG := p, iLenMSG := int n - p\<rparr>)"
    using assms by (simp add: MsgSetMSGoffs_def raw_ok_def)
  moreover have "int n \<le> int (length (pszRawMsg m))" using m by (simp add: raw_ok_def ends_at_def)
  ultimately show ?thesis using False assms by (auto simp: getMSG_def)
qed

lemma host_safe:
  "len \<le> length buf \<Longrightarrow> \<exists>m'. MsgSetHOSTNAME mem m buf len = Some m' \<and> pszRawMsg m' = pszRawMsg m
     \<and> iLenRawMsg m' = iLenRawMsg m \<and> pflags m' = pflags m"
  by (simp add: MsgSetHOSTNAME_def Let_def)

lemma tag_safe:
  "len \<le> length buf \<Longrightarrow> \<exists>m'. MsgSetTAG mem m buf len = Some m' \<and> pszRawMsg m' = pszRawMsg m
     \<and> iLenRawMsg m' = iLenRawMsg m"
  by (simp add: MsgSetTAG_def Let_def)

lemma raw_ok_same: "raw_ok m n \<Longrightarrow> pszRawMsg m' = pszRawMsg m \<Longrightarrow> iLenRawMsg m' = iLenRawMsg m \<Longrightarrow> raw_ok m' n"
  by (simp add: raw_ok_def)

lemma fields_safe:
  assumes m: "raw_ok m n" and p: "on n p len"
  shows "\<exists>m' p' len'. fields5424 mem m p len = Some (m', p', len') \<and> raw_ok m' n \<and> on n p' len'"
proof -
  let ?raw = "pszRawMsg m"
  have e: "ends_at ?raw n" using m by (simp add: raw_ok_def)
  obtain f1 p1 l1 where 1: "parseRFCField ?raw p len [] = Some (f1, p1, l1)" "on n p1 l1"
    using field_safe [OF e p] by blast
  obtain f2 p2 l2 where 2: "parseRFCField ?raw p1 l1 [] = Some (f2, p2, l2)" "on n p2 l2"
    using field_safe [OF e 1(2)] by blast
  obtain f3 p3 l3 where 3: "parseRFCField ?raw p2 l2 [] = Some (f3, p3, l3)" "on n p3 l3"
    using field_safe [OF e 2(2)] by blast
  obtain f4 p4 l4 where 4: "parseRFCField ?raw p3 l3 [] = Some (f4, p4, l4)" "on n p4 l4"
    using field_safe [OF e 3(2)] by blast
  obtain f5 p5 l5 where 5: "parseRFCStructuredData ?raw p4 l4 f4 = Some (f5, p5, l5)" "on n p5 l5"
    using structured_safe [OF e 4(2)] by blast
  have "length (c_text f1) \<le> length (f1 @ [0])" by (simp add: c_text_def length_takeWhile_le le_SucI)
  then obtain m1 where m1: "MsgSetHOSTNAME mem m (f1 @ [0]) (length (c_text f1)) = Some m1"
    "pszRawMsg m1 = ?raw" "iLenRawMsg m1 = iLenRawMsg m"
    using host_safe by blast
  let ?m = "m1\<lparr>pCSAPPNAME := Some (c_text f2), pCSPROCID := Some (c_text f3), pCSMSGID := Some (c_text f4),
      pszStrucData := Some (c_text f5)\<rparr>"
  have "fields5424 mem m p len = Some (?m, p5, l5)"
    using 1(1) 2(1) 3(1) 4(1) 5(1) m1
    by (simp add: fields5424_def MsgSetAPPNAME_def MsgSetPROCID_def MsgSetMSGID_def MsgSetStructuredData_def)
  moreover have "raw_ok ?m n" using m1 by (intro raw_ok_same [OF m]) simp_all
  ultimately show ?thesis using 5(2) by blast
qed

lemma stamp5424_safe:
  assumes m: "raw_ok m n" "digits_fit (pszRawMsg m)" "time_ok (tTIMESTAMP m)" and p: "on n p len"
  shows "\<exists>b m' p' len'. stamp5424 m p len = Some (b, m', p', len') \<and> raw_ok m' n \<and> on n p' len'"
proof -
  have t: "text_ok (pszRawMsg m) n" using m by (simp add: raw_ok_def text_ok_def)
  have l: "len = int n - int p" "p \<le> n" using p by (auto simp: on_def)
  have get: "c_get (pszRawMsg m) p = Some (pszRawMsg m ! p)" "c_get (pszRawMsg m) (Suc p) = Some (pszRawMsg m ! Suc p)"
      "on n (p + 2) (len - 2)"
    if "2 \<le> len" using that t l by (auto simp: text_ok_def ends_at_def on_def)
  obtain r t' p' len' where parse: "ParseTIMESTAMP3339 (tTIMESTAMP m) (pszRawMsg m) p len = Some (r, t', p', len')"
      and p': "on n p' len'"
    using parse3339_ok [OF t l(2) m(3)] p unfolding l(1) parsed_ok_def by (fastforce simp: on_def)
  have raw: "raw_ok (m\<lparr>tTIMESTAMP := x\<rparr>) n" for x using m(1) by (simp add: raw_ok_def)
  show ?thesis using parse p' raw get by (auto simp: stamp5424_def)
qed

lemma parse5424_safe:
  assumes m: "raw_ok m n" "digits_fit (pszRawMsg m)" "time_ok (tTIMESTAMP m)" "off_ok m n" and n: "n \<le> 32766"
  shows "\<exists>r m'. parse5424 mem m = Some (r, m') \<and> (r = RS_RET_OK \<longrightarrow> getMSG m' \<noteq> None)
    \<and> (r = RS_RET_COULD_NOT_PARSE \<longrightarrow> m' = m)"
proof -
  define p where "p = nat (offAfterPRI m)"
  define len where "len = iLenRawMsg m - offAfterPRI m"
  have p: "on n p len" "0 \<le> offAfterPRI m" using m by (auto simp: on_def p_def len_def raw_ok_def off_ok_def)
  have e: "ends_at (pszRawMsg m) n" using m(1) by (simp add: raw_ok_def)
  have get: "c_get (pszRawMsg m) p = Some (pszRawMsg m ! p)" "c_get (pszRawMsg m) (Suc p) = Some (pszRawMsg m ! Suc p)"
    "on n (p + 2) (len - 2)" if "\<not> len < 2" using that e p(1) by (auto simp: ends_at_def on_def)
  let ?m = "setProtocolVersion m 1"
  have m1: "raw_ok ?m n" "digits_fit (pszRawMsg ?m)" "time_ok (tTIMESTAMP ?m)"
    using m by (simp_all add: setProtocolVersion_def raw_ok_def)
  have run: "\<exists>m'. (do {
         (bContParse, m, p, len) \<leftarrow> stamp5424 ?m (p + 2) (len - 2);
         (m, p, len) \<leftarrow> (if bContParse then fields5424 mem m p len else Some (m, p, len));
         m \<leftarrow> MsgSetMSGoffs m (int p);
         Some (RS_RET_OK, m)
       }) = Some (RS_RET_OK, m') \<and> getMSG m' \<noteq> None" if o: "on n (p + 2) (len - 2)"
  proof -
    obtain b m2 p2 l2 where s: "stamp5424 ?m (p + 2) (len - 2) = Some (b, m2, p2, l2)" "raw_ok m2 n" "on n p2 l2"
      using stamp5424_safe [OF m1 o] by blast
    obtain m3 p3 l3 where f: "(if b then fields5424 mem m2 p2 l2 else Some (m2, p2, l2)) = Some (m3, p3, l3)"
      "raw_ok m3 n" "on n p3 l3"
      using fields_safe [OF s(2,3), of mem] s(2,3) by (cases b) auto
    have "0 \<le> int p3" "int p3 \<le> int n + 1" using f(3) by (auto simp: on_def)
    then obtain m4 where "MsgSetMSGoffs m3 (int p3) = Some m4" "getMSG m4 \<noteq> None"
      using offset_safe [OF f(2) n] by blast
    then show ?thesis using s(1) f(1) by simp
  qed
  show ?thesis
    using p(2) get run by (auto simp: parse5424_def p_def [symmetric] len_def [symmetric] Let_def)
qed

section \<open>RFC 3164\<close>

text \<open>The length may be one too large, behind a timestamp with a year in front.\<close>

definition onx :: "nat \<Rightarrow> nat \<Rightarrow> int \<Rightarrow> bool" where
  "onx n p len \<longleftrightarrow> 0 \<le> len \<and> (int p + len = int n \<or> int p + len = int n + 1)"

lemma onx_get: "\<lbrakk>ends_at raw n; onx n p len; len > 0\<rbrakk> \<Longrightarrow> c_get raw p = Some (raw ! p) \<and> p \<le> n"
  by (auto simp: onx_def ends_at_def)

lemma blank_safe:
  "\<lbrakk>ends_at raw n; on n p len; int i \<le> len\<rbrakk> \<Longrightarrow> \<exists>j. blank_loop raw p len i = Some j \<and> int j \<le> len"
proof (induction raw p len i rule: blank_loop.induct)
  case (1 raw p len i)
  show ?case
  proof (cases "int i < len")
    case True
    then have get: "c_get raw (p + i) = Some (raw ! (p + i))" using 1(2,3) by (simp add: ends_at_def on_def)
    show ?thesis
    proof (cases "raw ! (p + i) = 32 \<or> raw ! (p + i) = 9")
      case b: True
      have "int (Suc i) \<le> len" using True by simp
      then show ?thesis using 1(1) [OF True get b] 1(2,3) True get b by (subst blank_loop.simps) simp
    qed (use True 1 get in \<open>subst blank_loop.simps, auto\<close>)
  qed (use 1 in \<open>subst blank_loop.simps, auto\<close>)
qed

lemma headerless_safe:
  assumes "ends_at raw n" and "on n p len"
  shows "\<exists>b. headerless raw p len = Some b"
proof -
  obtain i where "blank_loop raw p len 0 = Some i" "int i \<le> len"
    using blank_safe [OF assms, of 0] assms(2) by (auto simp: on_def)
  then show ?thesis using assms by (auto simp: headerless_def ends_at_def on_def)
qed

definition dflt_ok :: "pmsg \<Rightarrow> bool" where
  "dflt_ok m \<longleftrightarrow> dfltTZ m \<noteq> [] \<and> (hd (dfltTZ m) = 0 \<or> 6 \<le> length (dfltTZ m))"

lemma zone_applied:
  assumes "dflt_ok m"
  shows "\<exists>t'. (do { c \<leftarrow> c_get (dfltTZ m) 0; if c \<noteq> 0 then applyDfltTZ t (dfltTZ m) else Some t }) = Some t'"
proof (cases "hd (dfltTZ m) = 0")
  case True
  then show ?thesis using assms by (cases "dfltTZ m") (auto simp: dflt_ok_def)
next
  case False
  then have "6 \<le> length (dfltTZ m)" using assms by (simp add: dflt_ok_def)
  then have "c_get (dfltTZ m) k = Some (dfltTZ m ! k)" if "k < 6" for k using that by simp
  then show ?thesis by (simp add: applyDfltTZ_def)
qed

lemma any_stamp_safe:
  assumes m: "raw_ok m n" "digits_fit (pszRawMsg m)" "time_ok (tTIMESTAMP m)" "dflt_ok m" and tzs: "zones_ok tzs"
    and p: "on n p len"
  shows "\<exists>m' p' len'. stamp3164_any tzs inst m p len = Some (m', p', len') \<and> raw_ok m' n \<and> onx n p' len'"
proof -
  let ?raw = "pszRawMsg m" and ?y = "bDetectYearAfterTimestamp inst"
  have t: "text_ok ?raw n" using m by (simp add: raw_ok_def text_ok_def)
  have l: "len = int n - int p" "p \<le> n" using p by (auto simp: on_def)
  have raw: "raw_ok (m\<lparr>tTIMESTAMP := x\<rparr>) n" for x using m(1) by (simp add: raw_ok_def)
  have get: "c_get ?raw p = Some (?raw ! p)" using t l(2) by (auto simp: text_ok_def ends_at_def)
  have tries: "parsed_ok (\<lambda>t' p' len'. onx n p' len') (tTIMESTAMP m) q (int n - int q)
      (ParseTIMESTAMP3164 tzs (tTIMESTAMP m) ?raw q (int n - int q) False ?y)" if "q \<le> n" for q
    using parse3164_ok [OF t that m(3) tzs, of False ?y]
    by (auto simp: parsed_ok_def onx_def extra_def split: if_splits)
  consider (a) t' p' len' where "ParseTIMESTAMP3339 (tTIMESTAMP m) ?raw p len = Some (RS_RET_OK, t', p', len')" "onx n p' len'"
    | (b) "ParseTIMESTAMP3339 (tTIMESTAMP m) ?raw p len = Some (RS_RET_INVLD_TIME, tTIMESTAMP m, p, len)"
    using parse3339_ok [OF t l(2) m(3)] unfolding l(1) parsed_ok_def onx_def by force
  then show ?thesis
  proof cases
    case a
    then show ?thesis using raw by (simp add: stamp3164_any_def)
  next
    case b
    consider (c) t' p' len' where "ParseTIMESTAMP3164 tzs (tTIMESTAMP m) ?raw p len False ?y = Some (RS_RET_OK, t', p', len')" "onx n p' len'"
      | (d) "ParseTIMESTAMP3164 tzs (tTIMESTAMP m) ?raw p len False ?y = Some (RS_RET_INVLD_TIME, tTIMESTAMP m, p, len)"
      using tries [OF l(2)] unfolding l(1) parsed_ok_def by blast
    then show ?thesis
    proof cases
      case c
      obtain t2 where "(do { c \<leftarrow> c_get (dfltTZ m) 0; if c \<noteq> 0 then applyDfltTZ t' (dfltTZ m) else Some t' }) = Some t2"
        using zone_applied [OF m(4)] by blast
      then have "stamp3164_any tzs inst m p len = Some (m\<lparr>tTIMESTAMP := t2\<rparr>, p', len')"
        using b c(1) by (auto simp: stamp3164_any_def bind_eq_Some_conv)
      then show ?thesis using raw c(2) by blast
    next
      case d
      have o: "onx n p len" using p by (simp add: on_def onx_def)
      show ?thesis
      proof (cases "?raw ! p = 32 \<and> len > 1")
        case False
        then show ?thesis using b d get m(1) o by (auto simp: stamp3164_any_def)
      next
        case True
        then have q: "Suc p \<le> n" "len - 1 = int n - int (Suc p)" using l by auto
        have "parsed_ok (\<lambda>t' p' len'. onx n p' len') (tTIMESTAMP m) (Suc p) (len - 1)
            (ParseTIMESTAMP3164 tzs (tTIMESTAMP m) ?raw (Suc p) (len - 1) False ?y)"
          unfolding q(2) by (rule tries [OF q(1)])
        then show ?thesis using b d get raw m(1) o True by (auto simp: stamp3164_any_def parsed_ok_def)
      qed
    qed
  qed
qed

lemma host_char_nz: "host_char inst False c \<Longrightarrow> c \<noteq> 0"
  by (auto simp: host_char_def isalnum_def isalpha_def isdigit_def)

lemma host_loop_safe:
  "\<lbrakk>ends_at raw n; p + length buf \<le> n; length buf \<le> 511; \<not> br\<rbrakk>
   \<Longrightarrow> \<exists>b. host_loop inst raw p len br buf = Some b \<and> p + length b \<le> n \<and> length b \<le> 511"
proof (induction inst raw p len br buf rule: host_loop.induct)
  case (1 inst raw p len br buf)
  show ?case
  proof (cases "int (length buf) < len")
    case True
    have get: "c_get raw (p + length buf) = Some (raw ! (p + length buf))" using 1(2,3) by (simp add: ends_at_def)
    show ?thesis
    proof (cases "host_char inst br (raw ! (p + length buf)) \<and> length buf < 511")
      case h: True
      then have "raw ! (p + length buf) \<noteq> 0" using host_char_nz [of inst "raw ! (p + length buf)"] 1(5) by simp
      then have lt: "p + length buf < n" using 1(2,3) by (cases "p + length buf = n") (auto simp: ends_at_def)
      have get2: "c_get raw (p + Suc (length buf)) = Some (raw ! (p + Suc (length buf)))"
        using lt 1(2) by (simp add: ends_at_def)
      show ?thesis
      proof (cases "raw ! (p + Suc (length buf)) = 93")
        case True
        then show ?thesis using \<open>int (length buf) < len\<close> h lt get get2 by (subst host_loop.simps) simp
      next
        case False
        then show ?thesis
          using 1(1) [OF True get h get2 False] 1(2,5) True h lt get get2 by (subst host_loop.simps) simp
      qed
    qed (use True get 1(2-5) in \<open>subst host_loop.simps, auto\<close>)
  qed (use 1 in \<open>subst host_loop.simps, auto\<close>)
qed


lemma parse_host_safe:
  assumes m: "raw_ok m n" and p: "onx n p len" "len > 0" and inst: "\<not> bPermitSquareBracketsInHostname inst"
  shows "\<exists>m' p' len'. parse_host mem inst m p len = Some (m', p', len') \<and> raw_ok m' n \<and> onx n p' len'"
proof -
  let ?raw = "pszRawMsg m"
  have e: "ends_at ?raw n" using m by (simp add: raw_ok_def)
  have pn: "p \<le> n" using onx_get [OF e p] by simp
  obtain buf where loop: "host_loop inst ?raw p len False [] = Some buf" and b: "p + length buf \<le> n" "length buf \<le> 511"
    using host_loop_safe [OF e, of p "[]" False inst len] pn by auto
  obtain m1 where m1: "MsgSetHOSTNAME mem m (buf @ [0]) (length buf) = Some m1" "raw_ok m1 n"
    using host_safe [of "length buf" "buf @ [0]" mem m] raw_ok_same [OF m] by auto
  show ?thesis
  proof (cases "int (length buf) = len")
    case True
    then have "onx n (p + length buf) 0" using p b by (auto simp: onx_def)
    then show ?thesis using True inst loop b m1 by (simp add: parse_host_def Let_def)
  next
    case ne: False
    have get: "c_get ?raw (p + length buf) = Some (?raw ! (p + length buf))"
      "c_get ?raw (p + length buf - 1) = Some (?raw ! (p + length buf - 1))"
      using b e by (auto simp: ends_at_def)
    show ?thesis
    proof (cases "buf \<noteq> [] \<and> isalnum (?raw ! (p + length buf - 1)) \<and> ?raw ! (p + length buf) = 32")
      case True
      then have "p + length buf \<noteq> n" using e by (auto simp: ends_at_def)
      then have "onx n (p + Suc (length buf)) (len - (int (length buf) + 1))" using p(1) b by (auto simp: onx_def)
      then show ?thesis using True ne inst loop b m1 get by (simp add: parse_host_def Let_def)
    next
      case False
      then show ?thesis using ne inst loop m p(1) get
        by (cases "buf = []") (auto simp: parse_host_def Let_def)
    qed
  qed
qed

lemma tag_loop_safe:
  "\<lbrakk>ends_at raw n; onx n p len\<rbrakk> \<Longrightarrow> \<exists>b p' len'. tag_loop raw p len buf = Some (b, p', len') \<and> onx n p' len'"
proof (induction raw p len buf rule: tag_loop.induct)
  case (1 raw p len buf)
  show ?case
  proof (cases "len > 0")
    case True
    have get: "c_get raw p = Some (raw ! p)" using onx_get [OF 1(2,3) True] by simp
    have "onx n (Suc p) (len - 1)" using True 1(3) by (auto simp: onx_def)
    then show ?thesis using 1(1) [OF True get] 1(2,3) True get by (subst tag_loop.simps) auto
  qed (use 1 in \<open>subst tag_loop.simps, auto\<close>)
qed

definition inside :: "nat \<Rightarrow> int \<Rightarrow> bool" where
  "inside n p \<longleftrightarrow> 0 \<le> p \<and> p \<le> int n + 1"

lemma parse_tag_safe:
  assumes m: "raw_ok m n" and p: "onx n p len" and inst: "\<not> bForceTagEndingByColon inst"
  shows "\<exists>m' p' len'. parse_tag mem inst m p len = Some (m', p', len') \<and> raw_ok m' n \<and> inside n p'"
proof -
  let ?raw = "pszRawMsg m"
  have e: "ends_at ?raw n" using m by (simp add: raw_ok_def)
  obtain buf q l where loop: "tag_loop ?raw p len [] = Some (buf, q, l)" and q: "onx n q l"
    using tag_loop_safe [OF e p] by blast
  have set: "\<exists>m'. MsgSetTAG mem m (b @ [0]) (length b) = Some m' \<and> raw_ok m' n" for b
    using tag_safe [of "length b" "b @ [0]" mem m] raw_ok_same [OF m] by auto
  define c where "c \<longleftrightarrow> l > 0 \<and> ?raw ! q = 58"
  have colon: "(if l > 0 then map_option (\<lambda>c. c = 58) (c_get ?raw q) else Some False) = Some c" "c \<longrightarrow> l > 0"
    using onx_get [OF e q] by (auto simp: c_def)
  have "inside n (int q)" "c \<Longrightarrow> inside n (int q + 1)" using q colon(2) by (auto simp: inside_def onx_def)
  then show ?thesis
    using loop colon(1) inst set [of buf] set [of "buf @ [58]"] by (cases c) (auto simp: parse_tag_def Let_def)
qed

lemma body_safe:
  assumes m: "raw_ok m n" "digits_fit (pszRawMsg m)" "time_ok (tTIMESTAMP m)" "dflt_ok m" and tzs: "zones_ok tzs"
    and p: "on n p len" and inst: "\<not> bPermitSquareBracketsInHostname inst" "\<not> bForceTagEndingByColon inst"
  shows "\<exists>m' p' len'. body3164 mem bHT tzs inst m p len = Some (m', p', len') \<and> raw_ok m' n \<and> inside n p'"
proof -
  have e: "ends_at (pszRawMsg m) n" using m(1) by (simp add: raw_ok_def)
  have in0: "inside n (int p)" using p by (auto simp: inside_def on_def)
  obtain h where h: "headerless (pszRawMsg m) p len = Some h" using headerless_safe [OF e p] by blast
  obtain m1 p1 l1 where s: "stamp3164_any tzs inst m p len = Some (m1, p1, l1)" "raw_ok m1 n" "onx n p1 l1"
    using any_stamp_safe [OF m tzs p] by blast
  define m2 where "m2 = (if has_flag m1 IGNDATE then m1\<lparr>tTIMESTAMP := tRcvdAt m1\<rparr> else m1)"
  have m2: "raw_ok m2 n" using s(2) by (simp add: m2_def raw_ok_def)
  obtain m3 p3 l3 where f: "(if l1 > 0 \<and> has_flag m2 PARSE_HOSTNAME then parse_host mem inst m2 p1 l1
      else Some (m2, p1, l1)) = Some (m3, p3, l3)" "raw_ok m3 n" "onx n p3 l3"
  proof (cases "l1 > 0 \<and> has_flag m2 PARSE_HOSTNAME")
    case True
    then show ?thesis using parse_host_safe [OF m2 s(3) _ inst(1)] that by auto
  next
    case False
    then have "(if l1 > 0 \<and> has_flag m2 PARSE_HOSTNAME then parse_host mem inst m2 p1 l1
      else Some (m2, p1, l1)) = Some (m2, p1, l1)" by (simp only: if_False)
    then show ?thesis by (rule that [OF _ m2 s(3)])
  qed
  obtain m4 p4 l4 where g: "parse_tag mem inst m3 p3 l3 = Some (m4, p4, l4)" "raw_ok m4 n" "inside n p4"
    using parse_tag_safe [OF f(2,3) inst(2)] by blast
  have in1: "inside n (int p1)" using s(3) by (auto simp: inside_def onx_def)
  show ?thesis
    using h s(1) f(1) g m(1) m2 in0 in1
    by (cases "l1 > 0 \<and> has_flag m2 PARSE_HOSTNAME") (auto simp: body3164_def m2_def [symmetric] Let_def)
qed

lemma parse3164_safe:
  assumes m: "raw_ok m n" "digits_fit (pszRawMsg m)" "time_ok (tTIMESTAMP m)" "off_ok m n" "dflt_ok m"
    and tzs: "zones_ok tzs" and n: "n \<le> 32766"
    and inst: "\<not> bPermitSquareBracketsInHostname inst" "\<not> bForceTagEndingByColon inst" "\<not> bRemoveMsgFirstSpace inst"
  shows "\<exists>m'. parse3164 mem bHT tzs inst m = Some (RS_RET_OK, m') \<and> getMSG m' \<noteq> None"
proof -
  let ?m = "setProtocolVersion m 0"
  have m1: "raw_ok ?m n" "digits_fit (pszRawMsg ?m)" "time_ok (tTIMESTAMP ?m)" "dflt_ok ?m"
    using m by (simp_all add: setProtocolVersion_def raw_ok_def dflt_ok_def)
  have p: "on n (nat (offAfterPRI m)) (iLenRawMsg m - offAfterPRI m)"
    using m by (auto simp: on_def raw_ok_def off_ok_def)
  obtain m2 p2 l2 where b: "body3164 mem bHT tzs inst ?m (nat (offAfterPRI m)) (iLenRawMsg m - offAfterPRI m)
      = Some (m2, p2, l2)" "raw_ok m2 n" "inside n p2"
    using body_safe [OF m1 tzs p inst(1,2)] by blast
  obtain m3 where "MsgSetMSGoffs m2 p2 = Some m3" "getMSG m3 \<noteq> None"
    using offset_safe [OF b(2) n, of p2] b(3) by (auto simp: inside_def)
  then show ?thesis using b(1) m(4) inst(3) by (simp add: parse3164_def off_ok_def)
qed

section \<open>Reception\<close>

text \<open>The default list of parsers: both ask for sanitizing and for the priority to be read.\<close>

definition default_parsers :: "bool \<Rightarrow> bool \<Rightarrow> tzinfo list \<Rightarrow> instanceConf \<Rightarrow> parser list" where
  "default_parsers mem bHT tzs inst =
     [\<lparr>bDoSanitazion = True, bDoPRIParsing = True, pm_parse = parse5424 mem\<rparr>,
      \<lparr>bDoSanitazion = True, bDoPRIParsing = True, pm_parse = parse3164 mem bHT tzs inst\<rparr>]"

lemma uncompress_safe:
  assumes m: "raw_ok m n" "0 < n" and unc: "\<And>x k s. unc x k = Some s \<Longrightarrow> length s \<le> k"
    and ne: "pszRawMsg m ! 0 = 122 \<Longrightarrow> unc (take (nat (iLenRawMsg m) - 1) (drop 1 (pszRawMsg m))) (MaxLine cfg) \<noteq> Some []"
  shows "\<exists>r m'. uncompressMessage mem cfg unc m = Some (r, m')
    \<and> (r = RS_RET_OK \<longrightarrow> same_times m m' \<and> (\<exists>n' \<le> max n (MaxLine cfg). 0 < n' \<and> raw_ok m' n'))"
proof -
  have get: "c_get (pszRawMsg m) 0 = Some (pszRawMsg m ! 0)" "iLenRawMsg m > 0"
    using m by (auto simp: raw_ok_def ends_at_def intro!: c_get_in)
  have set: "\<exists>n' \<le> max n (MaxLine cfg). 0 < n' \<and> raw_ok (MsgSetRawMsg mem m s) n'" if "unc x (MaxLine cfg) = Some s" "s \<noteq> []" for x s
    using unc [OF that(1)] that(2)
    by (intro exI [of _ "if length s < 101 \<or> mem then length s else 100"])
      (auto simp: raw_ok_def ends_at_def MsgSetRawMsg_def Let_def nth_append le_max_iff_disj)
  have self: "\<exists>n' \<le> max n (MaxLine cfg). 0 < n' \<and> raw_ok m n'" using m by (intro exI [of _ n]) simp
  show ?thesis
    using get set self same_times_set ne
    by (auto simp: uncompressMessage_def same_times_def split: option.split)
qed

lemma parse_loop_safe:
  assumes m: "raw_ok m n" "0 < n" "n \<le> 32766" "time_ok (tTIMESTAMP m)" "dflt_ok m" and tzs: "zones_ok tzs"
    and cfg: "3 \<le> MaxLine cfg" "MaxLine cfg \<le> 32766"
    and digits: "\<And>m'. SanitizeMsg mem cfg m = Some (RS_RET_OK, m') \<Longrightarrow> digits_fit (pszRawMsg m')"
    and inst: "\<not> bPermitSquareBracketsInHostname inst" "\<not> bForceTagEndingByColon inst" "\<not> bRemoveMsgFirstSpace inst"
  shows "\<exists>r m'. parseLoop mem cfg (default_parsers mem bHT tzs inst) False False RS_RET_ERR m = Some (r, m')
    \<and> (r = RS_RET_OK \<longrightarrow> getMSG m' \<noteq> None)"
proof -
  obtain r m1 where san: "SanitizeMsg mem cfg m = Some (r, m1)" "same_times m m1"
    and ok: "r = RS_RET_OK \<longrightarrow> (\<exists>n' \<le> max n (MaxLine cfg). raw_ok m1 n')"
    using sanitize_safe [OF m(1,2), of cfg mem] cfg by auto
  show ?thesis
  proof (cases "r = RS_RET_OK")
    case False
    then show ?thesis using san by (simp add: default_parsers_def)
  next
    case True
    then obtain k where "k \<le> max n (MaxLine cfg)" and "raw_ok m1 k" using ok by blast
    then have k: "raw_ok m1 k" "k \<le> 32766" using m(3) cfg(2) by auto
    obtain m2 where pri: "ParsePRI m1 = Some (RS_RET_OK, m2)" "raw_ok m2 k" "off_ok m2 k" "same_times m1 m2"
        "pszRawMsg m2 = pszRawMsg m1"
      using pri_safe [OF k] by blast
    have d: "digits_fit (pszRawMsg m2)" using digits san(1) True pri(5) by simp
    have t: "time_ok (tTIMESTAMP m2)" "dflt_ok m2"
      using m(4,5) san(2) pri(4) by (simp_all add: same_times_def dflt_ok_def)
    obtain r5 m5 where p5: "parse5424 mem m2 = Some (r5, m5)" "r5 = RS_RET_OK \<longrightarrow> getMSG m5 \<noteq> None"
        "r5 = RS_RET_COULD_NOT_PARSE \<longrightarrow> m5 = m2"
      using parse5424_safe [OF pri(2) d t(1) pri(3) k(2)] by blast
    obtain m3 where p3: "parse3164 mem bHT tzs inst m2 = Some (RS_RET_OK, m3)" "getMSG m3 \<noteq> None"
      using parse3164_safe [OF pri(2) d t(1) pri(3) t(2) tzs k(2) inst] by blast
    show ?thesis using san(1) True pri(1) p5 p3 by (auto simp: default_parsers_def)
  qed
qed

text \<open>C6: Whatever text of at most 32766 bytes was received, parsing it with the default list of
  parsers never leaves the text: decompression, sanitizing under any settings, the priority and
  both parsers are defined, and a message that is accepted has its MSG part inside its text. The
  conditions: a compressed message does not decompress to nothing (the property on empty compressed
  messages says what happens then) and the decompressor respects the size of its buffer, as zlib
  documents; the maximum line length is 3 to 32766; the sanitized text has no run of digits that
  overflows the \<open>int\<close> of the number parser; the legacy parser runs with its default settings for
  brackets, colons and spaces; the message has valid default timestamps and the configured time
  zones are in range.\<close>

theorem received_message_parsed:
  assumes raw: "pszRawMsg m = s @ [0]" "iLenRawMsg m = int (length s)" "length s \<le> 32766"
    and time: "time_ok (tTIMESTAMP m)" and dflt: "dflt_ok m" and tzs: "zones_ok tzs"
    and cfg: "3 \<le> MaxLine cfg" "MaxLine cfg \<le> 32766"
    and unc: "\<And>x k t. uncompress x k = Some t \<Longrightarrow> length t \<le> k"
    and ne: "s \<noteq> [] \<and> hd s = 122 \<Longrightarrow> uncompress (tl s) (MaxLine cfg) \<noteq> Some []"
    and digits: "\<And>m1 m2. uncompressMessage mem cfg uncompress m = Some (RS_RET_OK, m1) \<Longrightarrow>
        SanitizeMsg mem cfg m1 = Some (RS_RET_OK, m2) \<Longrightarrow> digits_fit (pszRawMsg m2)"
    and inst: "\<not> bPermitSquareBracketsInHostname inst" "\<not> bForceTagEndingByColon inst" "\<not> bRemoveMsgFirstSpace inst"
  shows "\<exists>r m'. ParseMsg mem cfg uncompress (default_parsers mem bHT tzs inst) m = Some (r, m')
    \<and> (r = RS_RET_OK \<longrightarrow> getMSG m' \<noteq> None)"
proof (cases "s = []")
  case True
  then show ?thesis using raw by (simp add: ParseMsg_def RS_RET_EMPTY_MSG_def)
next
  case False
  have m: "raw_ok m (length s)" "0 < length s" using raw False by (simp_all add: raw_ok_def ends_at_def nth_append)
  have "take (nat (iLenRawMsg m) - 1) (drop 1 (pszRawMsg m)) = tl s" "pszRawMsg m ! 0 = hd s"
    using raw False by (cases s; simp)+
  with ne False have nz: "pszRawMsg m ! 0 = 122 \<Longrightarrow>
      uncompress (take (nat (iLenRawMsg m) - 1) (drop 1 (pszRawMsg m))) (MaxLine cfg) \<noteq> Some []" by simp
  obtain r m1 where u: "uncompressMessage mem cfg uncompress m = Some (r, m1)"
    and ok: "r = RS_RET_OK \<longrightarrow> same_times m m1 \<and> (\<exists>n' \<le> max (length s) (MaxLine cfg). 0 < n' \<and> raw_ok m1 n')"
    by (rule uncompress_safe [where mem = mem and cfg = cfg, OF m, of uncompress, THEN exE])
      (use unc nz in blast)+
  show ?thesis
  proof (cases "r = RS_RET_OK")
    case no: False
    then show ?thesis using u raw False by (simp add: ParseMsg_def)
  next
    case True
    then obtain n where "n \<le> max (length s) (MaxLine cfg)" and "raw_ok m1 n" "0 < n" "same_times m m1"
      using ok by blast
    then have n: "raw_ok m1 n" "0 < n" "n \<le> 32766" "same_times m m1" using raw(3) cfg(2) by auto
    have t: "time_ok (tTIMESTAMP m1)" "dflt_ok m1" using n(4) time dflt by (simp_all add: same_times_def dflt_ok_def)
    obtain r2 m2 where "parseLoop mem cfg (default_parsers mem bHT tzs inst) False False RS_RET_ERR m1 = Some (r2, m2)"
      "r2 = RS_RET_OK \<longrightarrow> getMSG m2 \<noteq> None"
      using parse_loop_safe [OF n(1-3) t tzs cfg _ inst] digits u True by blast
    moreover have "getMSG (m2\<lparr>pflags := x\<rparr>) = getMSG m2" for x by (simp add: getMSG_def)
    ultimately show ?thesis using u True raw False by (auto simp: ParseMsg_def)
  qed
qed

text \<open>C29: A compressed message that holds no text at all passes the check for an empty message,
  which is made in front of the decompression; sanitizing it then reads in front of the text.\<close>

theorem empty_compressed_message_underflows:
  assumes "pszRawMsg m = 122 # s @ [0]" "iLenRawMsg m = int (length s) + 1" "uncompress s (MaxLine cfg) = Some []"
  shows "ParseMsg True cfg uncompress (default_parsers True bHT tzs inst) m = None"
  using assms by (simp add: ParseMsg_def uncompressMessage_def MsgSetRawMsg_def default_parsers_def SanitizeMsg_def
      Let_def nat_add_distrib)

definition inst_default :: instanceConf where
  "inst_default = \<lparr>bDetectYearAfterTimestamp = True, bPermitSquareBracketsInHostname = False,
     bPermitSlashesInHostname = True, bPermitAtSignsInHostname = True, bForceTagEndingByColon = False,
     bRemoveMsgFirstSpace = False\<rparr>"

theorem received_message_parsed_witness:
  "\<exists>r m'. ParseMsg True (parser_cfg_ex False) (\<lambda>_ _. None) (default_parsers True True [] inst_default) (pmsg_ex [60, 49, 62, 120])
      = Some (r, m') \<and> (r = RS_RET_OK \<longrightarrow> getMSG m' \<noteq> None)"
proof (rule received_message_parsed [where s = "[60, 49, 62, 120]"])
  show "digits_fit (pszRawMsg m2)"
    if "uncompressMessage True (parser_cfg_ex False) (\<lambda>_ _. None) (pmsg_ex [60, 49, 62, 120]) = Some (RS_RET_OK, m1)"
      and "SanitizeMsg True (parser_cfg_ex False) m1 = Some (RS_RET_OK, m2)" for m1 m2
  proof -
    have "m1 = pmsg_ex [60, 49, 62, 120]" using that(1) by (simp add: uncompressMessage_def)
    then have "pszRawMsg m2 = [60, 49, 62, 120, 0]"
      using that(2) by (auto simp: SanitizeMsg_def san_trim_def san_scan.simps parser_cfg_ex_def Let_def)
    then show ?thesis by (intro digits_fitI) simp
  qed
qed (simp_all add: inst_default_def parser_cfg_ex_def time_ex_valid dflt_ok_def zones_ok_def)

theorem empty_compressed_message_underflows_witness:
  "ParseMsg True (parser_cfg_ex False) (\<lambda>_ _. Some []) (default_parsers True True [] inst_default) (pmsg_ex [122, 1]) = None"
  by (rule empty_compressed_message_underflows [of _ "[1]"]) simp_all

end
