(* ===== verification/Read5424.thy ===== *)
theory Read5424
  imports Parse5424
begin

text \<open>
  What the parser of tools/pmrfc5424.c reads from a message with a complete header, and what from
  one that has no structured data or is too long.
\<close>

section \<open>Fields\<close>

definition field :: "byte list \<Rightarrow> bool" where
  "field f \<longleftrightarrow> 32 \<notin> set f \<and> 0 \<notin> set f"

lemma c_text_field [simp]: "0 \<notin> set f \<Longrightarrow> c_text f = f"
  unfolding c_text_def by (subst takeWhile_eq_all_conv) auto

lemma field_read:
  assumes "32 \<notin> set f" and "suffix (f @ 32 # xs) buf" and "0 \<le> n"
  shows "parseRFCField buf (at buf (f @ 32 # xs)) (int (length f) + 1 + n) res = Some (res @ f, at buf xs, n)"
  using assms(1,2)
proof (induction f arbitrary: res)
  case Nil
  then show ?case using assms(3)
    by (subst parseRFCField.simps) (simp add: at_nth Suc_at)
next
  case (Cons c f)
  then show ?case using assms(3) suffix_next [of c "f @ 32 # xs" buf]
    by (subst parseRFCField.simps) (simp add: at_nth Suc_at algebra_simps)
qed

text \<open>What is read as structured data: a text that ends with the first \<open>]\<close> that neither has a
  backslash in front nor is followed by something else than a space.\<close>

fun sd_text :: "byte list \<Rightarrow> bool" where
  "sd_text [] = False"
| "sd_text [c] = (c = 93)"
| "sd_text (c # d # s) = (if c = 92 \<and> d = 93 then sd_text s else if c = 93 \<and> d = 32 then False else sd_text (d # s))"

lemma sd_read:
  assumes "sd_text s" and "suffix (s @ 32 # xs) buf" and "0 \<le> n"
  shows "sd_loop buf (at buf (s @ 32 # xs)) (int (length s) + 1 + n) res = Some (res @ s, at buf xs, n)"
  using assms(1,2)
proof (induction s arbitrary: res rule: sd_text.induct)
  case (2 c)
  then have "suffix (32 # xs) buf" "suffix (93 # 32 # xs) buf" using suffix_next by auto
  then have "c_get buf (at buf (93 # 32 # xs)) = Some 93" "c_get buf (Suc (at buf (93 # 32 # xs))) = Some 32"
      "at buf (93 # 32 # xs) + 2 = at buf xs"
    using Suc_at [of 93 "32 # xs" buf] Suc_at [of 32 xs buf] by (simp_all add: at_nth)
  then show ?case using 2(1) assms(3) by (subst sd_loop.simps) (simp del: One_nat_def)
next
  case (3 c d s)
  let ?r = "s @ 32 # xs"
  have s: "suffix (c # d # ?r) buf" "suffix (d # ?r) buf" "suffix ?r buf"
    using 3(4) suffix_next [of c "d # ?r" buf] suffix_next [of d ?r buf] by auto
  have g: "c_get buf (at buf (c # d # ?r)) = Some c" "c_get buf (Suc (at buf (c # d # ?r))) = Some d"
      "Suc (at buf (c # d # ?r)) = at buf (d # ?r)" "at buf (c # d # ?r) + 2 = at buf ?r"
    using Suc_at [OF s(1)] Suc_at [OF s(2)] by (simp_all add: at_nth s)
  show ?case
  proof (cases "c = 92 \<and> d = 93")
    case True
    then show ?thesis using 3(1) [of "res @ [92, 93]"] 3(3) s(3) g assms(3)
      by (subst sd_loop.simps) (simp add: algebra_simps)
  next
    case False
    then have "sd_text (d # s)" "\<not> (c = 93 \<and> d = 32)" using 3(3) by (auto split: if_splits)
    then show ?thesis using 3(2) [of "res @ [c]"] False s(2) g assms(3)
      by (subst sd_loop.simps) (auto simp: algebra_simps)
  qed
qed simp

definition sd_ok :: "byte list \<Rightarrow> bool" where
  "sd_ok sd \<longleftrightarrow> 0 \<notin> set sd \<and> (sd = [45] \<or> sd \<noteq> [] \<and> hd sd = 91 \<and> sd_text sd)"

text \<open>The text behind structured data and its space. Behind a \<open>]\<close> a second space is eaten.\<close>

definition behind_sd :: "byte list \<Rightarrow> byte list \<Rightarrow> byte list" where
  "behind_sd sd s = (if sd \<noteq> [45] \<and> s \<noteq> [] \<and> hd s = 32 then tl s else s)"

lemma structured_bracket:
  assumes "len \<noteq> 0" "c_get raw p = Some 91" "sd_loop raw p len [] = Some (res, q, n)"
  shows "parseRFCStructuredData raw p len pBuf
    = (if n > 0 then do { d \<leftarrow> c_get raw q; Some (if d = 32 then (res, Suc q, n - 1) else (res, q, n)) }
       else Some (res, q, n))"
  using assms by (simp add: parseRFCStructuredData_def)

lemma structured_read:
  assumes "sd_ok sd" and "suffix (sd @ 32 # s @ [0]) buf"
  shows "parseRFCStructuredData buf (at buf (sd @ 32 # s @ [0])) (int (length sd) + 1 + int (length s)) pBuf
    = Some (sd, at buf (behind_sd sd s @ [0]), int (length (behind_sd sd s)))"
proof (cases "sd = [45]")
  case True
  then have s: "suffix (45 # 32 # s @ [0]) buf" "suffix (32 # s @ [0]) buf"
    using assms(2) suffix_next [of 45 "32 # s @ [0]" buf] by auto
  have "c_get buf (at buf (45 # 32 # s @ [0])) = Some 45" "Suc (at buf (45 # 32 # s @ [0])) = at buf (32 # s @ [0])"
      "c_get buf (at buf (32 # s @ [0])) = Some 32" "Suc (at buf (32 # s @ [0])) = at buf (s @ [0])"
    using s by (simp_all add: at_nth Suc_at)
  then show ?thesis using True by (simp add: parseRFCStructuredData_def behind_sd_def)
next
  case False
  then obtain b where sd: "sd = 91 # b" "sd_text sd" using assms(1) by (cases sd) (auto simp: sd_ok_def)
  have h: "c_get buf (at buf (sd @ 32 # s @ [0])) = Some 91" using assms(2) sd(1) by (simp add: at_nth)
  have loop: "sd_loop buf (at buf (sd @ 32 # s @ [0])) (int (length sd) + 1 + int (length s)) []
      = Some (sd, at buf (s @ [0]), int (length s))"
    using sd_read [OF sd(2) assms(2), of "int (length s)" "[]"] by simp
  have s: "suffix (s @ [0]) buf" by (rule suffix_next [OF suffix_tail [OF assms(2)]])
  have l: "int (length sd) + 1 + int (length s) \<noteq> 0" by linarith
  note run = structured_bracket [OF l h loop, of pBuf]
  show ?thesis
  proof (cases s)
    case Nil
    then show ?thesis using False run by (simp add: behind_sd_def)
  next
    case (Cons x w)
    then have "c_get buf (at buf (s @ [0])) = Some x" "Suc (at buf (s @ [0])) = at buf (w @ [0])"
      using s by (simp_all add: at_nth Suc_at)
    then have "parseRFCStructuredData buf (at buf (sd @ 32 # s @ [0])) (int (length sd) + 1 + int (length s)) pBuf
        = Some (if x = 32 then (sd, at buf (w @ [0]), int (length w)) else (sd, at buf (s @ [0]), int (length s)))"
      unfolding run by (auto simp: Cons)
    then show ?thesis using False by (simp add: behind_sd_def Cons)
  qed
qed


section \<open>The header\<close>

text \<open>A message whose text behind its priority is a complete header and \<open>s\<close>.\<close>

definition msg5424 :: "pmsg \<Rightarrow> byte list \<Rightarrow> byte list \<Rightarrow> byte list \<Rightarrow> byte list \<Rightarrow> byte list \<Rightarrow> byte list \<Rightarrow> bool" where
  "msg5424 m tx host app procid msgid s \<longleftrightarrow>
     field host \<and> field app \<and> field procid \<and> field msgid
     \<and> drop (nat (offAfterPRI m)) (pszRawMsg m)
       = 49 # 32 # tx @ 32 # host @ 32 # app @ 32 # procid @ 32 # msgid @ 32 # s @ [0]
     \<and> 0 \<le> offAfterPRI m \<and> iLenRawMsg m = int (length (pszRawMsg m)) - 1"

text \<open>What is read from the header.\<close>

definition read5424 :: "pmsg \<Rightarrow> syslogTime \<Rightarrow> byte list \<Rightarrow> byte list \<Rightarrow> byte list \<Rightarrow> byte list \<Rightarrow> pmsg" where
  "read5424 m t host app procid msgid =
     m\<lparr>iProtocolVersion := 1,
       tTIMESTAMP := if has_flag m IGNDATE then tRcvdAt m else t\<lparr>timeType := 2, inUTC := inUTC (tTIMESTAMP m)\<rparr>,
       pszHOSTNAME := Some host, pCSAPPNAME := Some app, pCSPROCID := Some procid, pCSMSGID := Some msgid\<rparr>"

lemma stamp5424_printed:
  assumes t: "time_ok t" "year t < 2100" "frac_valid t" "zone_valid t"
    and tx: "formatTimestamp3339 t = Some (tx @ [0], k)" and buf: "suffix (tx @ 32 # xs) buf" and n: "0 \<le> n"
  shows "ParseTIMESTAMP3339 t0 buf (at buf (tx @ 32 # xs)) (int (length tx) + 1 + n)
     = Some (RS_RET_OK, t\<lparr>timeType := 2, inUTC := inUTC t0\<rparr>, at buf xs, n)"
    and "\<exists>c s. tx = c # s \<and> isdigit c"
proof -
  obtain fs where fs: "(if secfracPrecision t > 0 then map_option (\<lambda>ds. 46 # ds) (fraction t) else Some []) = Some fs"
    and read: "reads_frac t fs"
    using secfrac_read [OF t(3,1)] by blast
  have hd: "fs = [] \<or> hd fs = 46" using fs(1) by (auto split: if_splits)
  have tx: "tx = stamp3339 t fs"
    using tx fs(1) by (auto simp: formatTimestamp3339_def stamp3339_def Let_def split: if_splits)
  have prec: "intTiny (secfracPrecision t) = secfracPrecision t" using t(1) by (simp add: time_ok_def)
  have l: "int (length tx) + 1 + n = 19 + int (length fs) + zone_len t + (1 + n)"
    by (simp add: tx stamp3339_def four_def two_def zone_len_def zone_text_def)
  have "suffix (32 # xs) buf" by (rule suffix_tail [OF buf])
  then have "at buf (32 # xs) + 1 = at buf xs" using Suc_at by fastforce
  then show "ParseTIMESTAMP3339 t0 buf (at buf (tx @ 32 # xs)) (int (length tx) + 1 + n)
     = Some (RS_RET_OK, t\<lparr>timeType := 2, inUTC := inUTC t0\<rparr>, at buf xs, n)"
    unfolding l unfolding tx
    using parse_stamp3339 [OF t(1,2,4) read hd prec buf [unfolded tx], of "1 + n" xs t0] n by simp
  show "\<exists>c s. tx = c # s \<and> isdigit c"
    using dig_digit [of "year t sdiv 1000"] t(1)
    by (simp add: tx stamp3339_def four_def time_ok_def sdiv_pos pos_imp_zdiv_nonneg_iff)
qed


lemma stamp5424_read:
  assumes t: "time_ok t" "year t < 2100" "frac_valid t" "zone_valid t"
    and tx: "formatTimestamp3339 t = Some (tx @ [0], k)" and buf: "suffix (tx @ 32 # xs) (pszRawMsg m)"
    and n: "0 \<le> n"
  shows "stamp5424 m (at (pszRawMsg m) (tx @ 32 # xs)) (int (length tx) + 1 + n)
    = Some (True, m\<lparr>tTIMESTAMP := if has_flag m IGNDATE then tRcvdAt m
         else t\<lparr>timeType := 2, inUTC := inUTC (tTIMESTAMP m)\<rparr>\<rparr>, at (pszRawMsg m) xs, n)"
proof -
  let ?p = "at (pszRawMsg m) (tx @ 32 # xs)"
  obtain c s where c: "tx = c # s" "isdigit c" using stamp5424_printed(2) [OF t tx buf n] by blast
  obtain d ys where d: "s @ 32 # xs = d # ys" by (cases "s @ 32 # xs") auto
  have b: "suffix (c # d # ys) (pszRawMsg m)" using buf c(1) d by simp
  have e: "tx @ 32 # xs = c # d # ys" using c(1) d by simp
  have "c_get (pszRawMsg m) ?p = Some c" "c_get (pszRawMsg m) (Suc ?p) = Some d" "c \<noteq> 45"
    using at_nth [OF b] Suc_at [OF b] at_nth [OF suffix_next [OF b]] c(2) by (auto simp: e)
  then show ?thesis
    unfolding stamp5424_def stamp5424_printed(1) [OF t tx buf n] by simp
qed

lemma fields_read:
  assumes f: "field host" "field app" "field procid" "field msgid"
    and buf: "suffix (host @ 32 # app @ 32 # procid @ 32 # msgid @ 32 # xs) (pszRawMsg m)" and n: "0 \<le> n"
  shows "fields5424 True m (at (pszRawMsg m) (host @ 32 # app @ 32 # procid @ 32 # msgid @ 32 # xs))
       (int (length host) + 1 + (int (length app) + 1 + (int (length procid) + 1 + (int (length msgid) + 1 + n))))
    = do {
        (pBuf, p, len) \<leftarrow> parseRFCStructuredData (pszRawMsg m) (at (pszRawMsg m) xs) n msgid;
        Some (m\<lparr>pszHOSTNAME := Some host, pCSAPPNAME := Some app, pCSPROCID := Some procid,
          pCSMSGID := Some msgid, pszStrucData := Some (c_text pBuf)\<rparr>, p, len)
      }"
proof -
  note s2 = suffix_next [OF suffix_tail [OF buf]]
  note s3 = suffix_next [OF suffix_tail [OF s2]]
  note s4 = suffix_next [OF suffix_tail [OF s3]]
  have r: "32 \<notin> set host" "32 \<notin> set app" "32 \<notin> set procid" "32 \<notin> set msgid" 
    and z: "0 \<notin> set host" "0 \<notin> set app" "0 \<notin> set procid" "0 \<notin> set msgid"
    using f by (auto simp: field_def)
  have host: "MsgSetHOSTNAME True m (host @ [0]) (length host) = Some (m\<lparr>pszHOSTNAME := Some host\<rparr>)"
    by (simp add: MsgSetHOSTNAME_def Let_def)
  define n3 where "n3 = int (length msgid) + 1 + n"
  define n2 where "n2 = int (length procid) + 1 + n3"
  define n1 where "n1 = int (length app) + 1 + n2"
  have l: "0 \<le> n3" "0 \<le> n2" "0 \<le> n1" using n by (simp_all add: n3_def n2_def n1_def)
  note reads = field_read [OF r(1) buf l(3)] field_read [OF r(2) s2 l(2), folded n1_def]
    field_read [OF r(3) s3 l(1), folded n2_def] field_read [OF r(4) s4 n, folded n3_def]
  show ?thesis
    unfolding n3_def [symmetric] n2_def [symmetric] n1_def [symmetric] fields5424_def reads(1) bind.bind_lunit
      prod.case append_Nil c_text_field [OF z(1)] host
    by (simp add: reads(2-) MsgSetAPPNAME_def MsgSetPROCID_def MsgSetMSGID_def MsgSetStructuredData_def z split_def)
qed

lemma parse5424_run:
  assumes "0 \<le> offAfterPRI m" "\<not> iLenRawMsg m - offAfterPRI m < 2"
    and "c_get (pszRawMsg m) (nat (offAfterPRI m)) = Some 49"
    and "c_get (pszRawMsg m) (Suc (nat (offAfterPRI m))) = Some 32"
    and "stamp5424 (setProtocolVersion m 1) (nat (offAfterPRI m) + 2) (iLenRawMsg m - offAfterPRI m - 2)
      = Some (True, m2, p, n)"
  shows "parse5424 True m = do {
      (m, p, len) \<leftarrow> fields5424 True m2 p n;
      m' \<leftarrow> MsgSetMSGoffs m (int p);
      Some (RS_RET_OK, m')
    }"
  using assms by (simp add: parse5424_def)

lemma header5424_read:
  assumes t: "time_ok t" "year t < 2100" "frac_valid t" "zone_valid t"
    and tx: "formatTimestamp3339 t = Some (tx @ [0], k)"
    and m: "msg5424 m tx host app procid msgid s"
  shows "parse5424 True m = do {
      (pBuf, p, len) \<leftarrow> parseRFCStructuredData (pszRawMsg m) (at (pszRawMsg m) (s @ [0])) (int (length s)) msgid;
      m' \<leftarrow> MsgSetMSGoffs ((read5424 m t host app procid msgid)\<lparr>pszStrucData := Some (c_text pBuf)\<rparr>) (int p);
      Some (RS_RET_OK, m')
    }"
    and "suffix (s @ [0]) (pszRawMsg m)"
proof -
  let ?raw = "pszRawMsg m"
  define X2 where "X2 = host @ 32 # app @ 32 # procid @ 32 # msgid @ 32 # s @ [0]"
  define X1 where "X1 = tx @ 32 # X2"
  have f: "field host" "field app" "field procid" "field msgid" "0 \<le> offAfterPRI m"
    and W: "drop (nat (offAfterPRI m)) ?raw = 49 # 32 # X1" and il: "iLenRawMsg m = int (length ?raw) - 1"
    using m by (auto simp: msg5424_def X1_def X2_def)
  have lw: "length ?raw - nat (offAfterPRI m) = length (49 # 32 # X1)" using W by (metis length_drop)
  have s0: "suffix (49 # 32 # X1) ?raw" using suffix_drop [of "nat (offAfterPRI m)" ?raw] W by simp
  note s1 = suffix_next [OF s0]
  note s2 = suffix_next [OF s1]
  note s3 = suffix_next [OF suffix_tail [OF s2 [unfolded X1_def]]]
  have p: "nat (offAfterPRI m) = at ?raw (49 # 32 # X1)" using lw by (simp add: at_def)
  have g: "c_get ?raw (nat (offAfterPRI m)) = Some 49" "c_get ?raw (Suc (nat (offAfterPRI m))) = Some 32"
      "nat (offAfterPRI m) + 2 = at ?raw X1"
    using at_nth [OF s0] at_nth [OF s1] Suc_at [OF s0] Suc_at [OF s1] by (simp_all add: p)
  define n where "n = int (length host) + 1 + (int (length app) + 1 + (int (length procid) + 1
      + (int (length msgid) + 1 + int (length s))))"
  have n: "0 \<le> n" "iLenRawMsg m - offAfterPRI m - 2 = int (length tx) + 1 + n"
    "\<not> iLenRawMsg m - offAfterPRI m < 2"
    using il lw f(5) by (simp_all add: n_def X1_def X2_def)
  let ?m = "setProtocolVersion m 1"
  have raw: "pszRawMsg ?m = ?raw" by (simp add: setProtocolVersion_def)
  note stamp = stamp5424_read [where m = ?m, unfolded raw, OF t tx s2 [unfolded X1_def] n(1)]
  define m2 where "m2 = ?m\<lparr>tTIMESTAMP := if has_flag ?m IGNDATE then tRcvdAt ?m
         else t\<lparr>timeType := 2, inUTC := inUTC (tTIMESTAMP ?m)\<rparr>\<rparr>"
  have raw2: "pszRawMsg m2 = ?raw" by (simp add: m2_def setProtocolVersion_def)
  have fields: "fields5424 True m2 (at ?raw X2) n = do {
        (pBuf, p, len) \<leftarrow> parseRFCStructuredData ?raw (at ?raw (s @ [0])) (int (length s)) msgid;
        Some (m2\<lparr>pszHOSTNAME := Some host, pCSAPPNAME := Some app, pCSPROCID := Some procid,
          pCSMSGID := Some msgid, pszStrucData := Some (c_text pBuf)\<rparr>, p, len)
      }"
    unfolding n_def X2_def
    using fields_read [where m = m2, unfolded raw2, OF f(1-4) s3 [unfolded X2_def], of "int (length s)"] by simp
  have m2: "m2\<lparr>pszHOSTNAME := Some host, pCSAPPNAME := Some app, pCSPROCID := Some procid, pCSMSGID := Some msgid\<rparr>
      = read5424 m t host app procid msgid"
    by (simp add: m2_def read5424_def setProtocolVersion_def has_flag_def)
  note run = parse5424_run [OF f(5) n(3) g(1,2) stamp [folded X1_def n(2) g(3), folded m2_def]]
  show "parse5424 True m = do {
      (pBuf, p, len) \<leftarrow> parseRFCStructuredData ?raw (at ?raw (s @ [0])) (int (length s)) msgid;
      m' \<leftarrow> MsgSetMSGoffs ((read5424 m t host app procid msgid)\<lparr>pszStrucData := Some (c_text pBuf)\<rparr>) (int p);
      Some (RS_RET_OK, m')
    }"
    unfolding run fields m2 [symmetric] by (simp add: split_def)
  show "suffix (s @ [0]) ?raw"
    using suffix_next [OF suffix_tail [OF suffix_next [OF suffix_tail [OF suffix_next [OF suffix_tail
        [OF suffix_next [OF suffix_tail [OF s3 [unfolded X2_def]]]]]]]]] .
qed


section \<open>The message\<close>

lemma raw_read5424 [simp]:
  "pszRawMsg (read5424 m t host app procid msgid) = pszRawMsg m"
  "iLenRawMsg (read5424 m t host app procid msgid) = iLenRawMsg m"
  by (simp_all add: read5424_def)

text \<open>C7: A message with a complete RFC 5424 header (a timestamp as it is printed, fields without
  spaces, structured data or a \<open>-\<close>) whose MSG part begins within 32767 bytes is taken apart into
  exactly these parts: time, host name, application, process, message id, structured data and
  the MSG part. Behind structured data in brackets one more space is lost than behind a \<open>-\<close>.\<close>

theorem rfc5424_message_read:
  assumes t: "time_ok t" "year t < 2100" "frac_valid t" "zone_valid t"
    and tx: "formatTimestamp3339 t = Some (tx @ [0], k)"
    and m: "msg5424 m tx host app procid msgid (sd @ 32 # s)" and sd: "sd_ok sd"
    and short: "iLenRawMsg m \<le> 32767"
  shows "\<exists>off. parse5424 True m = Some (RS_RET_OK, (read5424 m t host app procid msgid)
      \<lparr>pszStrucData := Some sd, offMSG := off, iLenMSG := int (length (behind_sd sd s))\<rparr>)
    \<and> getMSG ((read5424 m t host app procid msgid)
      \<lparr>pszStrucData := Some sd, offMSG := off, iLenMSG := int (length (behind_sd sd s))\<rparr>) = Some (behind_sd sd s)"
proof -
  let ?raw = "pszRawMsg m"
  have suf: "suffix (sd @ 32 # s @ [0]) ?raw" using header5424_read(2) [OF t tx m] by simp
  have len: "int (length (sd @ 32 # s)) = int (length sd) + 1 + int (length s)" by simp
  have s: "suffix (s @ [0]) ?raw" by (rule suffix_next [OF suffix_tail [OF suf]])
  then have s': "suffix (behind_sd sd s @ [0]) ?raw"
    by (cases s) (auto simp: behind_sd_def intro: suffix_next)
  define m1 where "m1 = (read5424 m t host app procid msgid)\<lparr>pszStrucData := Some sd\<rparr>"
  have il: "iLenRawMsg m1 = int (length (pszRawMsg m1)) - 1" using m by (simp add: m1_def msg5424_def)
  then have "at (pszRawMsg m1) (behind_sd sd s @ [0]) \<le> 32767"
    using short by (simp add: at_def m1_def)
  then have set: "MsgSetMSGoffs m1 (int (at ?raw (behind_sd sd s @ [0])))
      = Some (m1\<lparr>offMSG := int (at ?raw (behind_sd sd s @ [0])), iLenMSG := int (length (behind_sd sd s))\<rparr>)"
    "getMSG (m1\<lparr>offMSG := int (at ?raw (behind_sd sd s @ [0])), iLenMSG := int (length (behind_sd sd s))\<rparr>)
      = Some (behind_sd sd s)"
    using offset_set [of "behind_sd sd s" m1] s' il by (simp_all add: m1_def)
  have z: "c_text sd = sd" using sd by (simp add: sd_ok_def)
  have "parse5424 True m = Some (RS_RET_OK,
      m1\<lparr>offMSG := int (at ?raw (behind_sd sd s @ [0])), iLenMSG := int (length (behind_sd sd s))\<rparr>)"
    unfolding header5424_read(1) [OF t tx m] len using structured_read [OF sd suf, of msgid] set(1)
    by (simp add: z m1_def)
  then show ?thesis using set(2) unfolding m1_def by (intro exI conjI)
qed

text \<open>C32: In a message without structured data (its text goes on behind the message id with
  neither a bracket nor a \<open>-\<close>) the work buffer still holds the message id, and this is taken
  as the structured data; what stands there is the MSG part.\<close>

theorem message_id_taken_as_structured_data:
  assumes t: "time_ok t" "year t < 2100" "frac_valid t" "zone_valid t"
    and tx: "formatTimestamp3339 t = Some (tx @ [0], k)"
    and m: "msg5424 m tx host app procid msgid s" and s: "s = [] \<or> hd s \<noteq> 91 \<and> hd s \<noteq> 45"
    and short: "iLenRawMsg m \<le> 32767"
  shows "\<exists>m'. parse5424 True m = Some (RS_RET_OK, m') \<and> pCSMSGID m' = Some msgid
    \<and> pszStrucData m' = Some msgid \<and> getMSG m' = Some s"
proof -
  let ?raw = "pszRawMsg m"
  have suf: "suffix (s @ [0]) ?raw" by (rule header5424_read(2) [OF t tx m])
  obtain x w where xw: "s @ [0] = x # w" by (cases "s @ [0]") auto
  have "s \<noteq> [] \<Longrightarrow> x = hd s" using xw by (cases s) auto
  then have sd: "parseRFCStructuredData ?raw (at ?raw (s @ [0])) (int (length s)) msgid
      = Some (msgid, at ?raw (s @ [0]), int (length s))"
    using s at_nth [OF suf [unfolded xw]] by (auto simp: parseRFCStructuredData_def xw)
  define m1 where "m1 = (read5424 m t host app procid msgid)\<lparr>pszStrucData := Some msgid\<rparr>"
  have il: "iLenRawMsg m1 = int (length (pszRawMsg m1)) - 1" using m by (simp add: m1_def msg5424_def)
  then have short1: "at (pszRawMsg m1) (s @ [0]) \<le> 32767" using short by (simp add: at_def m1_def)
  have suf1: "suffix (s @ [0]) (pszRawMsg m1)" using suf by (simp add: m1_def)
  have raw1: "pszRawMsg m1 = ?raw" by (simp add: m1_def)
  have z: "c_text msgid = msgid" using m by (simp add: msg5424_def field_def)
  have "parse5424 True m = Some (RS_RET_OK, m1\<lparr>offMSG := int (at ?raw (s @ [0])), iLenMSG := int (length s)\<rparr>)"
    unfolding header5424_read(1) [OF t tx m] using sd offset_set(1) [OF suf1 il short1, unfolded raw1]
    by (simp add: z m1_def)
  then show ?thesis using offset_set(2) [OF suf1 il short1, unfolded raw1]
    by (auto simp: m1_def read5424_def)
qed

text \<open>C30: The offset of the MSG part is stored in a \<open>short\<close>: if the header of a message takes
  from 32768 to 65535 bytes, the offset stored is negative, the length of the MSG part is more than the
  message has, and reading it leaves the message.\<close>

theorem long_header_negative_offset:
  assumes t: "time_ok t" "year t < 2100" "frac_valid t" "zone_valid t"
    and tx: "formatTimestamp3339 t = Some (tx @ [0], k)"
    and m: "msg5424 m tx host app procid msgid (45 # 32 # s)"
    and long: "32767 < iLenRawMsg m - int (length s)" "iLenRawMsg m - int (length s) < 65536"
  shows "\<exists>m'. parse5424 True m = Some (RS_RET_OK, m') \<and> offMSG m' < 0 \<and> iLenMSG m' > iLenRawMsg m'
    \<and> getMSG m' = None"
proof -
  let ?raw = "pszRawMsg m"
  have suf: "suffix ([45] @ 32 # s @ [0]) ?raw" using header5424_read(2) [OF t tx m] by simp
  have len: "int (length (45 # 32 # s)) = int (length [45 :: byte]) + 1 + int (length s)" by simp
  have b: "behind_sd [45] s = s" by (simp add: behind_sd_def)
  have sd: "sd_ok [45]" by (simp add: sd_ok_def)
  define p where "p = int (at ?raw (s @ [0]))"
  have lw: "length (s @ [0]) \<le> length ?raw"
    using suffix_next [OF suffix_tail [OF suf]] by (rule suffix_length_le)
  have p: "p = iLenRawMsg m - int (length s)" using m lw by (simp add: p_def at_def msg5424_def of_nat_diff)
  have neg: "c_short p = p - 65536"
  proof -
    have "(2 :: 16 word) ^ LENGTH(16) = 0" by (rule word_exp_length_eq_0)
    then have "(65536 :: 16 word) = 0" by simp
    then have "(word_of_int p :: 16 word) = word_of_int (p - 65536)" by simp
    then have "c_short p = c_short (p - 65536)" by (simp only: c_short_def)
    then show ?thesis using long p by simp
  qed
  define m1 where "m1 = (read5424 m t host app procid msgid)\<lparr>pszStrucData := Some [45]\<rparr>"
  define m2 where "m2 = m1\<lparr>offMSG := p - 65536, iLenMSG := iLenRawMsg m - (p - 65536)\<rparr>"
  have il: "iLenRawMsg m1 = iLenRawMsg m" "0 \<le> iLenRawMsg m" using m p long by (simp_all add: m1_def)
  have "p - 65536 < 0" using long p by simp
  then have "MsgSetMSGoffs m1 p = Some m2"
    using il \<open>p - 65536 < 0\<close> by (simp add: MsgSetMSGoffs_def neg m2_def Let_def)
  then have "parse5424 True m = Some (RS_RET_OK, m2)"
    unfolding header5424_read(1) [OF t tx m, simplified append_Cons append_Nil]
    using structured_read [OF sd suf, of msgid, unfolded b, folded p_def]
    by (simp add: m1_def c_text_def p_def [symmetric])
  moreover have "offMSG m2 < 0" "iLenMSG m2 > iLenRawMsg m2" "getMSG m2 = None"
    using long p il by (simp_all add: m2_def getMSG_def)
  ultimately show ?thesis by blast
qed

text \<open>An example: a header with the fields \<open>h\<close>, \<open>a\<close>, \<open>1\<close> and \<open>i\<close>.\<close>

definition raw5424_ex :: "byte list \<Rightarrow> byte list \<Rightarrow> byte list" where
  "raw5424_ex host s = 49 # 32 # stamp_ex @ 32 # host @ 32 # [97] @ 32 # [49] @ 32 # [105] @ 32 # s"

lemma msg5424_ex: "field host \<Longrightarrow> msg5424 (pmsg_ex (raw5424_ex host s)) stamp_ex host [97] [49] [105] s"
  by (simp add: msg5424_def field_def raw5424_ex_def)

theorem rfc5424_message_read_witness:
  "\<exists>m'. parse5424 True (pmsg_ex (raw5424_ex [104] [91, 120, 93, 32, 98])) = Some (RS_RET_OK, m')
     \<and> pszStrucData m' = Some [91, 120, 93] \<and> getMSG m' = Some [98]"
proof -
  have "field [104]" by (simp add: field_def)
  then show ?thesis
    using rfc5424_message_read [OF time_ex_valid stamp_ex_format msg5424_ex, of "[104]" "[91, 120, 93]" "[98]"]
    by (auto simp: sd_ok_def raw5424_ex_def stamp_ex_def behind_sd_def)
qed

theorem message_id_taken_as_structured_data_witness:
  "\<exists>m'. parse5424 True (pmsg_ex (raw5424_ex [104] [98])) = Some (RS_RET_OK, m') \<and> pCSMSGID m' = Some [105]
    \<and> pszStrucData m' = Some [105] \<and> getMSG m' = Some [98]"
  by (rule message_id_taken_as_structured_data [OF time_ex_valid stamp_ex_format msg5424_ex])
    (simp_all add: field_def raw5424_ex_def stamp_ex_def)

theorem long_header_negative_offset_witness:
  "\<exists>m'. parse5424 True (pmsg_ex (raw5424_ex (replicate 33000 104) [45, 32, 98])) = Some (RS_RET_OK, m')
    \<and> offMSG m' < 0 \<and> iLenMSG m' > iLenRawMsg m' \<and> getMSG m' = None"
proof -
  have "field (replicate 33000 104)" by (simp add: field_def)
  then show ?thesis
    using long_header_negative_offset [OF time_ex_valid stamp_ex_format msg5424_ex, of "replicate 33000 104" "[98]"]
    by (simp add: raw5424_ex_def stamp_ex_def)
qed

end
