(* ===== verification/Read3164.thy ===== *)
theory Read3164
  imports Parse3164
begin

text \<open>
  What the parser of tools/pmrfc3164.c reads from a legacy message, and where it leaves its
  buffers or the text.
\<close>

section \<open>The timestamp\<close>

lemma andThen_invalid [simp]: "andThen invalid_time f = invalid_time"
  by (simp add: andThen_def invalid_time_def)

lemma no_3339:
  assumes "suffix (c # xs) buf" "\<not> isdigit c" "c \<noteq> 45" "0 < len"
  shows "ParseTIMESTAMP3339 t buf (at buf (c # xs)) len = Some (RS_RET_INVLD_TIME, t, at buf (c # xs), len)"
proof -
  have "srSLMGParseInt32 buf (at buf (c # xs)) len = accept (0, at buf (c # xs), len)"
    using assms at_nth [OF assms(1)]
    by (subst srSLMGParseInt32_def, subst parse_digits.simps) (auto simp: accept_def isdigit_def)
  then have "date3339 buf (at buf (c # xs)) len = invalid_time"
    using assms(3,4) by (simp add: date3339_def eat_def look_at [OF assms(1)])
  then show ?thesis
    unfolding ParseTIMESTAMP3339_def by (simp only: andThen_invalid) (simp add: finalize_def invalid_time_def)
qed

lemma month_head:
  assumes "time_ok t"
  shows "\<exists>c s. stamp3164 t buggy = c # s \<and> c \<in> {65, 68, 70, 74, 77, 78, 79, 83}"
proof -
  obtain a b c where w: "monthNames ! nat (month t - 1) = [a, b, c]" "(a, b, c, month t) \<in> set month_words"
    using month_names [of "month t"] assms by (auto simp: time_ok_def)
  then show ?thesis by (auto simp: stamp3164_def month_words_def)
qed

definition read_time :: "syslogTime \<Rightarrow> syslogTime \<Rightarrow> syslogTime" where
  "read_time t0 t = t0\<lparr>timeType := 1, month := month t, day := day t, hour := hour t,
     minute := minute t, second := second t, secfrac := 0, secfracPrecision := 0\<rparr>"

lemma stamp3164_read:
  assumes t: "time_ok t" and inst: "\<not> bDetectYearAfterTimestamp inst" and tz: "dfltTZ m = 0 # z"
    and buf: "suffix (stamp3164 t buggy @ 32 # xs) (pszRawMsg m)" and n: "0 \<le> n"
  shows "headerless (pszRawMsg m) (at (pszRawMsg m) (stamp3164 t buggy @ 32 # xs)) (16 + n) = Some False"
    and "stamp3164_any tzs inst m (at (pszRawMsg m) (stamp3164 t buggy @ 32 # xs)) (16 + n)
      = Some (m\<lparr>tTIMESTAMP := read_time (tTIMESTAMP m) t\<rparr>, at (pszRawMsg m) xs, n)"
proof -
  let ?raw = "pszRawMsg m" and ?p = "at (pszRawMsg m) (stamp3164 t buggy @ 32 # xs)"
  obtain c s where c: "stamp3164 t buggy = c # s" "c \<in> {65, 68, 70, 74, 77, 78, 79, 83}"
    using month_head [OF t] by blast
  have b: "suffix (c # s @ 32 # xs) ?raw" using buf c(1) by simp
  have get: "c_get ?raw ?p = Some c" using at_nth [OF b] c(1) by simp
  show "headerless ?raw ?p (16 + n) = Some False"
    using get c(2) n by (auto simp: headerless_def blank_loop.simps [of _ _ _ 0])
  have d: "\<not> isdigit c" "c \<noteq> 45" using c(2) by (auto simp: isdigit_def)
  have no: "ParseTIMESTAMP3339 (tTIMESTAMP m) ?raw ?p (16 + n) = Some (RS_RET_INVLD_TIME, tTIMESTAMP m, ?p, 16 + n)"
    using no_3339 [OF b d, of "16 + n" "tTIMESTAMP m"] n c(1) by simp
  have x: "Suc (at ?raw (32 # xs)) = at ?raw xs" using Suc_at suffix_tail [OF buf] by blast
  have l: "15 + (1 + n) = 16 + n" by simp
  have yes: "ParseTIMESTAMP3164 tzs (tTIMESTAMP m) ?raw ?p (16 + n) False False
      = Some (RS_RET_OK, read_time (tTIMESTAMP m) t, at ?raw xs, n)"
    using parse_stamp3164 [OF t buf, of "1 + n" xs tzs "tTIMESTAMP m", unfolded l] n x by (simp add: read_time_def)
  show "stamp3164_any tzs inst m ?p (16 + n) = Some (m\<lparr>tTIMESTAMP := read_time (tTIMESTAMP m) t\<rparr>, at ?raw xs, n)"
    using inst by (simp add: stamp3164_any_def no yes tz)
qed

section \<open>Host name and tag\<close>

lemma host_loop_read:
  assumes "\<forall>c \<in> set hs. host_char inst br c \<and> c \<noteq> 93" and "length buf + length hs \<le> 511"
    and "x = 93 \<longrightarrow> hs \<noteq> []" and "x \<noteq> 93 \<longrightarrow> \<not> host_char inst br x" and "int (length buf + length hs) < len"
  shows "host_loop inst (pre @ buf @ hs @ x # xs) (length pre) len br buf = Some (buf @ hs)"
  using assms
proof (induction hs arbitrary: buf)
  case Nil
  then show ?case by (subst host_loop.simps) (simp add: nth_append)
next
  case (Cons c hs)
  have IH: "host_loop inst (pre @ (buf @ [c]) @ hs @ x # xs) (length pre) len br (buf @ [c]) = Some ((buf @ [c]) @ hs)"
    if "x = 93 \<longrightarrow> hs \<noteq> []"
    using Cons.prems that by (intro Cons.IH) auto
  show ?case
  proof (cases hs)
    case Nil
    then show ?thesis using Cons.prems IH by (subst host_loop.simps) (auto simp: nth_append)
  next
    case hs: (Cons d ds)
    then show ?thesis using Cons.prems IH by (subst host_loop.simps) (auto simp: nth_append)
  qed
qed

lemma tag_read:
  assumes "\<forall>c \<in> set tag. c \<noteq> 58 \<and> c \<noteq> 32" "length buf + length tag \<le> 510" "x = 58 \<or> x = 32"
    and "suffix (tag @ x # xs) raw" "0 \<le> n"
  shows "tag_loop raw (at raw (tag @ x # xs)) (int (length tag) + 1 + n) buf = Some (buf @ tag, at raw (x # xs), 1 + n)"
  using assms(1,2,4)
proof (induction tag arbitrary: buf)
  case Nil
  then show ?case using assms(3,5) by (subst tag_loop.simps) (auto simp: at_nth)
next
  case (Cons c tag)
  then show ?case using assms(5) suffix_next [of c "tag @ x # xs" raw]
    by (subst tag_loop.simps) (simp add: at_nth Suc_at algebra_simps)
qed


section \<open>The message\<close>

text \<open>A legacy message with a timestamp, whose host name and tag are to be read; \<open>r\<close> follows the
  timestamp.\<close>

definition msg3164 :: "pmsg \<Rightarrow> syslogTime \<Rightarrow> bool \<Rightarrow> byte list \<Rightarrow> bool" where
  "msg3164 m t buggy r \<longleftrightarrow>
     time_ok t \<and> hd (dfltTZ m) = 0 \<and> dfltTZ m \<noteq> [] \<and> iFacility m \<noteq> LOG_FAC_INVLD
     \<and> has_flag m PARSE_HOSTNAME \<and> \<not> has_flag m INTERNAL_MSG
     \<and> drop (nat (offAfterPRI m)) (pszRawMsg m) = stamp3164 t buggy @ 32 # r @ [0] \<and> 0 \<le> offAfterPRI m
     \<and> iLenRawMsg m = int (length (pszRawMsg m)) - 1"

definition timed :: "pmsg \<Rightarrow> syslogTime \<Rightarrow> pmsg" where
  "timed m t = m\<lparr>iProtocolVersion := 0,
     tTIMESTAMP := if has_flag m IGNDATE then tRcvdAt m else read_time (tTIMESTAMP m) t\<rparr>"

lemma raw_timed [simp]:
  "pszRawMsg (timed m t) = pszRawMsg m" "iLenRawMsg (timed m t) = iLenRawMsg m"
  "has_flag (timed m t) f = has_flag m f"
  by (simp_all add: timed_def has_flag_def)

lemma body_read:
  assumes m: "msg3164 m t buggy r" and inst: "\<not> bDetectYearAfterTimestamp inst" and r: "r \<noteq> []"
  shows "body3164 True True tzs inst (setProtocolVersion m 0) (nat (offAfterPRI m)) (iLenRawMsg m - offAfterPRI m)
    = do {
        (m', p, len) \<leftarrow> parse_host True inst (timed m t) (at (pszRawMsg m) (r @ [0])) (int (length r));
        parse_tag True inst m' p len
      }"
    and "suffix (r @ [0]) (pszRawMsg m)"
proof -
  let ?raw = "pszRawMsg m" and ?m = "setProtocolVersion m 0"
  have t: "time_ok t" and W: "drop (nat (offAfterPRI m)) ?raw = stamp3164 t buggy @ 32 # r @ [0]"
    and off: "0 \<le> offAfterPRI m" and il: "iLenRawMsg m = int (length ?raw) - 1"
    and fl: "iFacility m \<noteq> LOG_FAC_INVLD" "has_flag m PARSE_HOSTNAME" "\<not> has_flag m INTERNAL_MSG"
    using m by (auto simp: msg3164_def)
  obtain z where z: "dfltTZ ?m = 0 # z" using m by (cases "dfltTZ m") (auto simp: msg3164_def setProtocolVersion_def)
  have s: "suffix (stamp3164 t buggy @ 32 # r @ [0]) ?raw" using suffix_drop [of "nat (offAfterPRI m)" ?raw] W by simp
  have lw: "length ?raw - nat (offAfterPRI m) = length (stamp3164 t buggy @ 32 # r @ [0])" using W by (metis length_drop)
  then have p: "nat (offAfterPRI m) = at ?raw (stamp3164 t buggy @ 32 # r @ [0])" by (simp add: at_def)
  have l: "iLenRawMsg m - offAfterPRI m = 16 + int (length r)"
    using lw il off by (simp add: format_stamp3164(2) [OF t])
  have raw: "pszRawMsg ?m = ?raw" by (simp add: setProtocolVersion_def)
  note read = stamp3164_read [where m = ?m and n = "int (length r)", unfolded raw, OF t inst z s, simplified]
  have m1: "?m\<lparr>tTIMESTAMP := read_time (tTIMESTAMP ?m) t\<rparr> = m\<lparr>iProtocolVersion := 0, tTIMESTAMP := read_time (tTIMESTAMP m) t\<rparr>"
    by (simp add: setProtocolVersion_def)
  have fac: "iFacility ?m \<noteq> LOG_FAC_INVLD" using fl(1) by (simp add: setProtocolVersion_def)
  have flags: "has_flag (x\<lparr>tTIMESTAMP := y\<rparr>) f = has_flag x f" "has_flag (x\<lparr>iProtocolVersion := v\<rparr>) f = has_flag x f"
    for x :: pmsg and y v f
    by (simp_all add: has_flag_def)
  show "body3164 True True tzs inst ?m (nat (offAfterPRI m)) (iLenRawMsg m - offAfterPRI m)
    = do {
        (m', p, len) \<leftarrow> parse_host True inst (timed m t) (at ?raw (r @ [0])) (int (length r));
        parse_tag True inst m' p len
      }"
    unfolding p l body3164_def raw using fac fl(2,3) r
    by (simp add: read m1 flags timed_def Let_def)
  show "suffix (r @ [0]) ?raw" by (rule suffix_next [OF suffix_tail [OF s]])
qed

lemma host_read:
  assumes h: "\<forall>c \<in> set host. host_char inst False c" "host \<noteq> []" "isalnum (last host)" "length host \<le> 511"
    and raw: "pszRawMsg m = pre @ host @ 32 # xs" and len: "int (length host) + 1 \<le> len"
  shows "parse_host True inst m (length pre) len
    = Some (m\<lparr>pszHOSTNAME := Some host\<rparr>, length pre + Suc (length host), len - (int (length host) + 1))"
proof -
  have sp: "\<not> host_char inst False c" if "c \<in> {32, 91, 93}" for c
    using that by (auto simp: host_char_def isalnum_def isalpha_def isdigit_def)
  have nb: "c \<noteq> 93 \<and> c \<noteq> 91" if "c \<in> set host" for c using h(1) that sp by blast
  have hd: "hd host \<noteq> 91" using nb h(2) by auto
  have br: "(if bPermitSquareBracketsInHostname inst then map_option (\<lambda>c. c = 91) (c_get (pszRawMsg m) (length pre))
      else Some False) = Some False"
    using hd h(2) by (cases host) (auto simp: raw nth_append)
  have loop: "host_loop inst (pszRawMsg m) (length pre) len False [] = Some host"
    using host_loop_read [of host inst False "[]" 32 len pre xs] h sp nb len by (auto simp: raw)
  have g: "c_get (pszRawMsg m) (length pre + length host) = Some 32"
    by (simp add: raw nth_append)
  have g2: "c_get (pszRawMsg m) (length pre + length host - 1) = Some (last host)"
  proof -
    obtain u x where u: "host = u @ [x]" using h(2) by (cases host rule: rev_cases) auto
    show ?thesis by (simp add: raw u nth_append)
  qed
  show ?thesis
    unfolding parse_host_def Let_def br bind.bind_lunit
    using loop g g2 h len by (simp add: MsgSetHOSTNAME_def Let_def)
qed

lemma tag_set:
  assumes tag: "\<forall>c \<in> set tag. c \<noteq> 58 \<and> c \<noteq> 32" "length tag \<le> 510"
    and buf: "suffix (tag @ 58 # xs) (pszRawMsg m)" and n: "0 \<le> n"
  shows "parse_tag True inst m (at (pszRawMsg m) (tag @ 58 # xs)) (int (length tag) + 1 + n)
    = Some (m\<lparr>TAG := tag @ [58]\<rparr>, int (at (pszRawMsg m) xs), n)"
proof -
  have s: "suffix (58 # xs) (pszRawMsg m)" by (rule suffix_tail [OF buf])
  have "int (at (pszRawMsg m) (58 # xs)) + 1 = int (at (pszRawMsg m) xs)" using Suc_at [OF s] by linarith
  then show ?thesis
    using tag_read [OF tag(1) _ _ buf n, of "[]"] tag(2) at_nth [OF s] n
    by (simp add: parse_tag_def MsgSetTAG_def Let_def)
qed


text \<open>The space in front of the MSG part goes if so configured.\<close>

definition less_space :: "instanceConf \<Rightarrow> byte list \<Rightarrow> byte list" where
  "less_space inst s = (if bRemoveMsgFirstSpace inst \<and> s \<noteq> [] \<and> hd s = 32 then tl s else s)"

lemma first_space_read:
  assumes "suffix (s @ [0]) raw"
  shows "(if bRemoveMsgFirstSpace inst then do {
         _ \<leftarrow> c_guard (0 \<le> int (at raw (s @ [0])));
         c \<leftarrow> c_get raw (nat (int (at raw (s @ [0]))));
         Some (if c = 32 then int (at raw (s @ [0])) + 1 else int (at raw (s @ [0])))
       } else Some (int (at raw (s @ [0])))) = Some (int (at raw (less_space inst s @ [0])))"
    and "suffix (less_space inst s @ [0]) raw"
proof -
  obtain c r where r: "s @ [0] = c # r" by (cases "s @ [0]") auto
  have "c_get raw (at raw (s @ [0])) = Some c" "int (at raw (s @ [0])) + 1 = int (at raw r)" "suffix r raw"
    using assms Suc_at [of c r raw] suffix_next [of c r raw] by (auto simp: r at_nth)
  then show "(if bRemoveMsgFirstSpace inst then do {
         _ \<leftarrow> c_guard (0 \<le> int (at raw (s @ [0])));
         c \<leftarrow> c_get raw (nat (int (at raw (s @ [0]))));
         Some (if c = 32 then int (at raw (s @ [0])) + 1 else int (at raw (s @ [0])))
       } else Some (int (at raw (s @ [0])))) = Some (int (at raw (less_space inst s @ [0])))"
    and "suffix (less_space inst s @ [0]) raw"
    using r assms by (cases s; auto simp: less_space_def)+
qed

lemma parse3164_run:
  assumes "0 \<le> offAfterPRI m" and "body3164 True True tzs inst (setProtocolVersion m 0) (nat (offAfterPRI m))
      (iLenRawMsg m - offAfterPRI m) = Some (m1, int (at (pszRawMsg m1) (s @ [0])), l)"
    and s: "suffix (s @ [0]) (pszRawMsg m1)" "iLenRawMsg m1 = int (length (pszRawMsg m1)) - 1" "iLenRawMsg m1 \<le> 32767"
  defines "m' \<equiv> m1\<lparr>offMSG := int (at (pszRawMsg m1) (less_space inst s @ [0])), iLenMSG := int (length (less_space inst s))\<rparr>"
  shows "parse3164 True True tzs inst m = Some (RS_RET_OK, m')" and "getMSG m' = Some (less_space inst s)"
proof -
  have short: "at (pszRawMsg m1) (less_space inst s @ [0]) \<le> 32767" using s(2,3) by (simp add: at_def)
  show "parse3164 True True tzs inst m = Some (RS_RET_OK, m')"
    unfolding parse3164_def assms(2) bind.bind_lunit prod.case first_space_read(1) [OF s(1)]
    using assms(1) offset_set(1) [OF first_space_read(2) [OF s(1)] s(2) short] by (simp add: m'_def)
  show "getMSG m' = Some (less_space inst s)"
    unfolding m'_def by (rule offset_set(2) [OF first_space_read(2) [OF s(1)] s(2) short])
qed

text \<open>C8: A legacy message with a printed timestamp, a host name and a tag that ends with a colon is
  taken apart into these: the time of its timestamp with the year and zone of its reception, the host
  name, the tag with its colon, and what follows as the MSG part, without its first space if so
  configured.\<close>

theorem legacy_message_read:
  assumes m: "msg3164 m t buggy (host @ 32 # tag @ 58 # s)" and inst: "\<not> bDetectYearAfterTimestamp inst"
    and host: "\<forall>c \<in> set host. host_char inst False c" "host \<noteq> []" "isalnum (last host)" "length host \<le> 511"
    and tag: "\<forall>c \<in> set tag. c \<noteq> 58 \<and> c \<noteq> 32" "length tag \<le> 510" and short: "iLenRawMsg m \<le> 32767"
  shows "\<exists>m'. parse3164 True True tzs inst m = Some (RS_RET_OK, m') \<and> getMSG m' = Some (less_space inst s)
    \<and> (\<exists>off. m' = (timed m t)\<lparr>pszHOSTNAME := Some host, TAG := tag @ [58], offMSG := off,
         iLenMSG := int (length (less_space inst s))\<rparr>)"
proof -
  let ?raw = "pszRawMsg m" and ?r = "host @ 32 # tag @ 58 # s" and ?m1 = "(timed m t)\<lparr>pszHOSTNAME := Some host\<rparr>"
  have il: "iLenRawMsg m = int (length ?raw) - 1" "0 \<le> offAfterPRI m" using m by (simp_all add: msg3164_def)
  note body = body_read [OF m inst, simplified append_assoc append_Cons]
  have suf: "suffix (host @ 32 # tag @ 58 # s @ [0]) ?raw" using body(2) by simp
  then obtain pre where pre: "?raw = pre @ host @ 32 # tag @ 58 # s @ [0]" by (auto simp: suffix_def)
  have p: "at ?raw (?r @ [0]) = length pre" by (simp add: pre at_def)
  have ph: "parse_host True inst (timed m t) (length pre) (int (length ?r))
      = Some (?m1, length pre + Suc (length host), int (length tag) + 1 + int (length s))"
    using host_read [OF host, of "timed m t" pre "tag @ 58 # s @ [0]" "int (length ?r)"] pre by simp
  have raw1: "pszRawMsg ?m1 = ?raw" by simp
  have q: "length pre + Suc (length host) = at ?raw (tag @ 58 # s @ [0])" by (simp add: pre at_def)
  note s1 = suffix_next [OF suffix_tail [OF suf]]
  have tg: "parse_tag True inst ?m1 (at ?raw (tag @ 58 # s @ [0])) (int (length tag) + 1 + int (length s))
      = Some (?m1\<lparr>TAG := tag @ [58]\<rparr>, int (at ?raw (s @ [0])), int (length s))"
    using tag_set [OF tag, of "s @ [0]" ?m1 "int (length s)" inst] s1 unfolding raw1 by simp
  let ?m2 = "?m1\<lparr>TAG := tag @ [58]\<rparr>"
  have run: "body3164 True True tzs inst (setProtocolVersion m 0) (nat (offAfterPRI m)) (iLenRawMsg m - offAfterPRI m)
      = Some (?m2, int (at (pszRawMsg ?m2) (s @ [0])), int (length s))"
    using body(1) host(2) ph tg [folded q] p by simp
  have s2: "suffix (s @ [0]) (pszRawMsg ?m2)" using suffix_next [OF suffix_tail [OF s1]] by simp
  have l2: "iLenRawMsg ?m2 = int (length (pszRawMsg ?m2)) - 1" "iLenRawMsg ?m2 \<le> 32767" using il short by simp_all
  note read = parse3164_run [OF il(2) run s2 l2]
  show ?thesis by (rule exI, rule conjI, rule read(1), rule conjI, rule read(2), rule exI, rule refl)
qed

text \<open>C27: With brackets permitted in host names, a host name of 510 characters in brackets fills the
  buffer of 512 bytes, and its terminator is written behind the buffer.\<close>

theorem long_bracketed_hostname_overflows:
  assumes m: "msg3164 m t buggy (91 # h @ 93 # 32 # s)"
    and inst: "\<not> bDetectYearAfterTimestamp inst" "bPermitSquareBracketsInHostname inst"
    and h: "\<forall>c \<in> set h. host_char inst True c \<and> c \<noteq> 93" "length h = 510"
  shows "parse3164 True True tzs inst m = None"
proof -
  let ?raw = "pszRawMsg m" and ?r = "91 # h @ 93 # 32 # s"
  note body = body_read [OF m inst(1)]
  obtain pre where pre: "?raw = pre @ 91 # h @ 93 # 32 # s @ [0]" using body(2) by (auto simp: suffix_def)
  have p: "at ?raw (?r @ [0]) = length pre" by (simp add: pre at_def)
  have hn: "h \<noteq> []" using h(2) by auto
  have loop: "host_loop inst ?raw (length pre) (int (length ?r)) True [91] = Some (91 # h)"
    using host_loop_read [of h inst True "[91]" 93 "int (length ?r)" pre "32 # s @ [0]"] h hn by (auto simp: pre)
  have g: "c_get ?raw (length pre) = Some 91" "c_get ?raw (length pre + 511) = Some 93"
      "c_get ?raw (length pre + 512) = Some 32"
    using h(2) by (simp_all add: pre nth_append nth_Cons')
  have "parse_host True inst (timed m t) (length pre) (int (length ?r)) = None"
    using inst(2) loop g h(2) by (simp add: parse_host_def Let_def)
  then show ?thesis using body(1) p by (simp add: parse3164_def)
qed


text \<open>A character that begins no timestamp, no headerless message and no name of a month.\<close>

definition plain_start :: "byte \<Rightarrow> bool" where
  "plain_start c \<longleftrightarrow> isalpha c \<and> (\<forall>l \<in> {106, 102, 109, 97, 115, 111, 110, 100}. \<not> letter l c)"

lemma alpha_no_digit: "isalpha c \<Longrightarrow> \<not> isdigit c"
  by (auto simp: isalpha_def isdigit_def word_le_def)

lemma no_3164:
  assumes s: "suffix (c # xs) buf" and c: "plain_start c"
  shows "ParseTIMESTAMP3164 tzs t buf (at buf (c # xs)) len False b = Some (RS_RET_INVLD_TIME, t, at buf (c # xs), len)"
proof -
  have d: "\<not> (48 \<le> c \<and> c \<le> 57)" using c alpha_no_digit by (auto simp: plain_start_def isdigit_def)
  have "year_in_front buf (at buf (c # xs)) len = accept (0, at buf (c # xs), len)"
    unfolding year_in_front_def look_at [OF s] andThen_accept using d by (simp only: if_False)
  moreover have "month3164 buf (at buf (c # xs)) = invalid_time"
    unfolding month3164_def look_at [OF s] andThen_accept using c by (simp add: plain_start_def Let_def)
  ultimately have "andThen (check (\<not> len < 3)) (\<lambda>_. andThen (year_in_front buf (at buf (c # xs)) len) (\<lambda>(y, p, len).
      andThen (month3164 buf p) (f y len))) = invalid_time" for f :: "int \<Rightarrow> int \<Rightarrow> int \<times> nat \<Rightarrow> (syslogTime \<times> nat \<times> int) parsed"
    by (cases "len < 3") (simp_all add: check_def)
  note r = this
  show ?thesis
    unfolding ParseTIMESTAMP3164_def r by (simp add: finalize_def invalid_time_def)
qed

text \<open>If tags must end with a colon and a message without timestamp and host name begins with a
  word without one, the pointer is set back one character further than the word is long: the MSG part
  begins with the last character of the priority, and without a priority in front of the message.\<close>

theorem untagged_message_starts_too_early:
  assumes raw: "drop (nat (offAfterPRI m)) (pszRawMsg m) = c # w @ 32 # s @ [0]" "0 \<le> offAfterPRI m"
      "iLenRawMsg m = int (length (pszRawMsg m)) - 1" "iLenRawMsg m \<le> 32767"
    and c: "plain_start c" and w: "\<forall>x \<in> set w. x \<noteq> 58 \<and> x \<noteq> 32" "length w < 510"
    and fl: "iFacility m \<noteq> LOG_FAC_INVLD" "\<not> has_flag m PARSE_HOSTNAME" "\<not> has_flag m INTERNAL_MSG"
    and inst: "bForceTagEndingByColon inst" "\<not> bRemoveMsgFirstSpace inst"
  shows "\<exists>m'. parse3164 True True tzs inst m = Some (RS_RET_OK, m') \<and> TAG m' = [45] \<and> offMSG m' = offAfterPRI m - 1
    \<and> getMSG m' = (if offAfterPRI m = 0 then None
        else Some (pszRawMsg m ! nat (offAfterPRI m - 1) # c # w @ 32 # s))"
proof -
  let ?raw = "pszRawMsg m" and ?m = "setProtocolVersion m 0" and ?p = "nat (offAfterPRI m)"
  have suf: "suffix (c # w @ 32 # s @ [0]) ?raw" using suffix_drop [of ?p ?raw] raw(1) by simp
  have lw: "length ?raw - ?p = length (c # w @ 32 # s @ [0])" using raw(1) by (metis length_drop)
  then have p: "?p = at ?raw (c # w @ 32 # s @ [0])" by (simp add: at_def)
  define n where "n = int (length s)"
  have l: "iLenRawMsg m - offAfterPRI m = int (length (c # w)) + 1 + n"
    using lw raw(2,3) by (simp add: n_def)
  have c': "\<not> isdigit c" "c \<noteq> 45" "c \<noteq> 32" "c \<noteq> 9" "c \<noteq> 91" "c \<noteq> 123" "c \<noteq> 58"
    using c alpha_no_digit by (auto simp: plain_start_def isalpha_def)
  have get: "c_get ?raw (at ?raw (c # w @ 32 # s @ [0])) = Some c" by (rule at_nth [OF suf])
  have mf: "pszRawMsg ?m = ?raw" "iFacility ?m = iFacility m" "has_flag ?m f = has_flag m f" for f
    by (simp_all add: setProtocolVersion_def has_flag_def)
  let ?L = "int (length (c # w)) + 1 + n"
  have hl: "headerless ?raw (at ?raw (c # w @ 32 # s @ [0])) ?L = Some False"
    using get c' by (simp add: headerless_def blank_loop.simps [of _ _ _ 0] n_def)
  have L: "0 < ?L" by (simp add: n_def)
  have st: "stamp3164_any tzs inst ?m (at ?raw (c # w @ 32 # s @ [0])) ?L
      = Some (?m, at ?raw (c # w @ 32 # s @ [0]), ?L)"
    unfolding stamp3164_any_def Let_def mf no_3339 [OF suf c'(1,2) L] bind.bind_lunit prod.case no_3164 [OF suf c] get
    using c'(3) by simp
  define m1 where "m1 = (if has_flag m IGNDATE then ?m\<lparr>tTIMESTAMP := tRcvdAt ?m\<rparr> else ?m)"
  have m1: "pszRawMsg m1 = ?raw" "has_flag m1 f = has_flag m f" "iLenRawMsg m1 = iLenRawMsg m" for f
    by (simp_all add: m1_def setProtocolVersion_def has_flag_def)
  have tl: "tag_loop ?raw (at ?raw (c # w @ 32 # s @ [0])) ?L [] = Some (c # w, at ?raw (32 # s @ [0]), 1 + n)"
    using tag_read [of "c # w" "[]" 32 "s @ [0]" ?raw n] w c' suf by (simp add: n_def)
  have s32: "suffix (32 # s @ [0]) ?raw" using suffix_tail [of "c # w" "32 # s @ [0]" ?raw] suf by simp
  have q: "int (at ?raw (32 # s @ [0])) = offAfterPRI m + int (length (c # w))"
    using p lw raw(2) at_end [OF s32] at_end [OF suf] by simp
  have tg: "parse_tag True inst m1 (at ?raw (c # w @ 32 # s @ [0])) ?L
      = Some (m1\<lparr>TAG := [45]\<rparr>, offAfterPRI m - 1, n + 1 + (int (length (c # w)) + 1))"
    using tl at_nth [OF s32] inst q by (simp add: parse_tag_def m1 MsgSetTAG_def Let_def n_def)
  have body: "body3164 True True tzs inst ?m ?p (iLenRawMsg m - offAfterPRI m)
      = Some (m1\<lparr>TAG := [45]\<rparr>, offAfterPRI m - 1, n + 1 + (int (length (c # w)) + 1))"
    unfolding p l body3164_def mf hl st bind.bind_lunit prod.case m1_def [symmetric] Let_def using fl m1(2) tg by simp
  let ?m' = "m1\<lparr>TAG := [45], offMSG := offAfterPRI m - 1, iLenMSG := iLenRawMsg m - (offAfterPRI m - 1)\<rparr>"
  have "MsgSetMSGoffs (m1\<lparr>TAG := [45]\<rparr>) (offAfterPRI m - 1) = Some ?m'"
    using raw(2-4) l by (simp add: MsgSetMSGoffs_def m1 n_def Let_def)
  then have "parse3164 True True tzs inst m = Some (RS_RET_OK, ?m')"
    using raw(2) inst(2) body by (simp add: parse3164_def)
  moreover have "getMSG ?m' = Some (?raw ! nat (offAfterPRI m - 1) # c # w @ 32 # s)" if "offAfterPRI m \<noteq> 0"
  proof -
    define k where "k = nat (offAfterPRI m - 1)"
    have k: "offAfterPRI m = int (Suc k)" "?p = Suc k" using that raw(2) by (simp_all add: k_def)
    have "drop k ?raw = ?raw ! k # drop (Suc k) ?raw"
      by (rule take_Suc_drop_nth) (use lw k in simp)
    then have "drop k ?raw = ?raw ! k # c # w @ 32 # s @ [0]" using raw(1) k by simp
    moreover have "length ?raw = Suc k + (length w + length s + 3)" using lw k by simp
    ultimately have "getMSG ?m' = Some (?raw ! k # c # w @ 32 # s)"
      using k raw(3) by (intro getMSG_eq [where k = k and ys = "[0]"]) (simp_all add: m1)
    then show ?thesis by (simp add: k_def)
  qed
  moreover have "getMSG ?m' = None" if "offAfterPRI m = 0"
    using that raw(3) lw by (simp add: getMSG_def m1)
  ultimately show ?thesis by (intro exI [of _ ?m']) simp
qed

definition inst_ex :: "bool \<Rightarrow> bool \<Rightarrow> instanceConf" where
  "inst_ex br colon = \<lparr>bDetectYearAfterTimestamp = False, bPermitSquareBracketsInHostname = br,
     bPermitSlashesInHostname = False, bPermitAtSignsInHostname = False, bForceTagEndingByColon = colon,
     bRemoveMsgFirstSpace = True\<rparr>"

lemma msg3164_ex: "msg3164 (pmsg_ex (stamp3164 time_ex False @ 32 # r)) time_ex False r"
  by (simp add: msg3164_def time_ex_valid LOG_FAC_INVLD_def)

theorem legacy_message_read_witness:
  "\<exists>m'. parse3164 True True [] (inst_ex False False) (pmsg_ex (stamp3164 time_ex False @ 32 # [104] @ 32 # [116] @ 58 # [32, 98]))
      = Some (RS_RET_OK, m') \<and> pszHOSTNAME m' = Some [104] \<and> TAG m' = [116, 58] \<and> getMSG m' = Some [98]"
  using legacy_message_read [OF msg3164_ex, of "inst_ex False False" "[104]" "[116]" "[32, 98]" "[]"]
  by (auto simp: inst_ex_def host_char_def isalnum_def isalpha_def less_space_def format_stamp3164(2) [OF time_ex_valid(1)])

theorem long_bracketed_hostname_overflows_witness:
  "parse3164 True True [] (inst_ex True False) (pmsg_ex (stamp3164 time_ex False @ 32 # 91 # replicate 510 97 @ 93 # 32 # [])) = None"
  by (rule long_bracketed_hostname_overflows [OF msg3164_ex])
    (simp_all add: inst_ex_def host_char_def isalnum_def isalpha_def)

theorem untagged_message_starts_too_early_witness:
  "\<exists>m'. parse3164 True True [] ((inst_ex False True)\<lparr>bRemoveMsgFirstSpace := False\<rparr>)
      ((pmsg_ex [120, 32])\<lparr>pflags := 0\<rparr>) = Some (RS_RET_OK, m') \<and> offMSG m' = - 1 \<and> getMSG m' = None"
  using untagged_message_starts_too_early [of "(pmsg_ex [120, 32])\<lparr>pflags := 0\<rparr>" 120 "[]" "[]"
      "(inst_ex False True)\<lparr>bRemoveMsgFirstSpace := False\<rparr>" "[]"]
  by (auto simp: inst_ex_def plain_start_def isalpha_def letter_def has_flag_def LOG_FAC_INVLD_def)

end
