(* ===== verification/Spec2Isabelle.thy ===== *)
theory Spec2Isabelle
  imports PriSelect ExprSame Pipeline Action Ratelimit Hashtable EstrConv RelpOpen TimeText TagText ParseSafe Read5424 Read3164
begin

text \<open>
  Verification library for the log collector of this repository: rsyslog and the libraries
  vendored with it, all C code under src/rsyslog/vendored_src/. Paths below are relative to
  rsyslog/rsyslog/ there, unless they name another library.

  The path of a message. An input hands the bytes it received to the parser object
  (runtime/parser.c), which decompresses and sanitizes them, reads the priority and tries a
  list of parser modules (tools/pmrfc5424.c, tools/pmrfc3164.c); these use the timestamp
  parsers of runtime/datetime.c and fill the fields of the message (runtime/msg.c). The rate
  limiter (runtime/ratelimit.c) drops the message, folds it into a "repeated n times" summary
  or submits it, alone or collected in a multi-submit structure (tools/rsyslogd.c), to a queue
  (runtime/queue.c). A worker of the queue takes batches from it and gives them to the
  consumer; for an action queue this is the action engine (action.c), which calls the output
  module, retries and suspends it, and marks the elements of the batch as done; what is not
  done goes back to the queue. Messages are shared by reference counting all along this way.
  Between two hosts a message travels by the RELP protocol (librelp/librelp/src/): frames with
  transaction numbers, answered by the receiver and sent again when a connection is lost.

  Theories, in the order of imports:

  \<^item> \<open>Prelude\<close>: undefined behaviour as \<open>None\<close>, array accesses, C division, the return codes
    \<open>rsRetVal\<close>, list lemmas.
  \<^item> \<open>Msg\<close>: the heap of message objects, \<open>MsgAddRef\<close>, \<open>msgDestruct\<close>, \<open>MsgDup\<close>. \<open>refs_ok own h\<close>
    says that the references held, a multiset, are exactly those the counters count: a message
    is allocated if and only if somebody holds it, and its counter is the number of holders, so
    a lost reference breaks it as well as a doubled one.
  \<^item> \<open>QueueDriver\<close>: the two memory stores of a queue (\<open>farray\<close>, \<open>linklist\<close>: qAdd, qDeq, qDel,
    qConstruct, qDestruct of runtime/queue.c) and the locale \<open>queue_driver\<close>: what the queue
    relies on, stated by a representation of the content, its number of dequeued elements and
    the room. Both stores interpret it.
  \<^item> \<open>Queue\<close>: the queue object, from \<open>qqueueConstruct\<close> and \<open>qqueueStart\<close> to the enqueue
    operations: flow control, waiting for room, discarding, submission of batches. A wait is
    a list of events, each with what other threads did to the queue meanwhile; \<open>Waiting\<close>
    means that the list ended before the wait did.
  \<^item> \<open>QueuePhases\<close>: \<open>doEnqSingleObj\<close> cut at its waits (\<open>enqStart\<close>, \<open>enqWake\<close>), and that the pieces
    make up the whole.
  \<^item> \<open>QueueRefs\<close>: the invariant of the queue (\<open>q_inv\<close>: content, dequeued part, counters) and of
    all references (\<open>world_ok\<close>); the enqueue operations keep them and say on each return code
    who holds the message. A wait may change everything but the caller's own share: the others
    start from a share \<open>g\<close> of dequeued elements and references and end with another one
    (\<open>event_ok\<close>), so deleting their batches and releasing their references is covered. The
    lemmas of the locale are proved once for both stores.
  \<^item> \<open>QueueBatch\<close>: the consumer side: dequeuing into a batch, deleting or enqueuing again what
    was processed, the to-delete list, the dequeue window (\<open>RateLimiter\<close>), \<open>ConsumerReg\<close> and
    \<open>ConsumerDA\<close>.
  \<^item> \<open>BatchRefs\<close>: what these do: a batch is what \<open>deqTake\<close> takes (the waiting elements the
    discard check passes, up to the batch size), deletion puts the unfinished elements back
    (\<open>retried\<close>), and every reference is accounted for. \<open>has_room\<close> says when no retry is refused:
    below the bound and either below the discard mark or of severities that are kept.
  \<^item> \<open>Action\<close>: one action on one worker: its state machine (ready, in transaction, retry,
    suspended, data failure), \<open>actionDoRetry\<close>, the transactional and the plain way to execute
    a message, \<open>actionCommit\<close>, batches, worker table and parameter arrays, and the submission
    rules (every n-th, once per interval, mark messages). The output module, the templates,
    the clock and the sleep are the record \<open>actenv\<close> of functions on a state of their own.
    Loops that may not end are \<open>partial_function (option)\<close>: \<open>None\<close> is undefined or not
    returning, and both kinds of theorems are there, of ending and of not ending. That retries
    are bounded is stated by two counters of the environment, of the questions to the module and
    of the sleeps (\<open>counts\<close>).
  \<^item> \<open>Ratelimit\<close>: the rate limiter and the submission functions; the target queue is the record
    \<open>submit_env\<close>.
  \<^item> \<open>Hashtable\<close>: runtime/hashtable.c and hashtable_itr.c. The locale \<open>ht_keys\<close> is what the
    table relies on (equality is an equivalence, equal keys have equal hashes); it is
    interpreted by the two functions for string keys.
  \<^item> \<open>Estr\<close>, \<open>EstrConv\<close>: libestr/libestr/src/string.c, strings with 32 bit lengths over a buffer
    of cells that may be unwritten.

  \<^item> \<open>WorkerTurn\<close>, \<open>PipePhases\<close>, \<open>Pipeline\<close>: the components together. \<open>WorkerTurn\<close> states as the
    locale \<open>batch_consumer\<close> what a queue needs of its consumer and shows it of the action engine.
    \<open>PipePhases\<close> cuts a worker's turn into its elements and at its waits (\<open>elemStart\<close>, \<open>elemWake\<close>,
    \<open>turnEnd\<close>). \<open>Pipeline\<close> is a step relation of any number of inputs and workers on one queue
    in which every wait is a state of its own and any other thread may step before the call goes
    on, in the locale \<open>worker_pool\<close>, interpreted for both stores with the action engine as
    consumer. It starts from a queue that \<open>qqueueConstruct\<close> and \<open>qqueueStart\<close> made. A consumer
    that does not return makes no step: the machine says nothing about it, \<open>Action\<close> does.
  \<^item> \<open>Bytes\<close>: bytes, buffers, \<open>memcpy\<close>, character classes and decimal text.
  \<^item> \<open>RelpFrame\<close>, \<open>RelpWire\<close>: librelp/librelp/src/relpframe.c, building frames and the machine
    that reads them octet by octet, and both together. The locale \<open>frame_dispatcher\<close> is what
    the reader needs of the code that handles a frame.
  \<^item> \<open>RelpOffers\<close>: offers.c, the lists of offers and their text.
  \<^item> \<open>RelpSess\<close>, \<open>RelpCmd\<close>, \<open>RelpSend\<close>: relpsess.c, sendbuf.c, sendq.c, the command handlers
    (copen.c, cclose.c, cserverclose.c, scsyslog.c, scrsp.c) and the dispatcher of relp.c. The socket is a record of the
    answers of the operating system, what was sent is a list of bytes.
  \<^item> \<open>RelpServer\<close>, \<open>RelpClient\<close>, \<open>RelpOpen\<close>: what a server, a client and both together do. The
    server's dispatcher interprets \<open>frame_dispatcher\<close> with the invariant of its session.
  \<^item> \<open>DateParse\<close>, \<open>DateSafe\<close>, \<open>DateFormat\<close>, \<open>Calendar\<close>: runtime/datetime.c, the parsers of
    timestamps, that they stay in their text, the printers and their round trips, and the
    conversions to and from seconds against a calendar defined by counting days.
  \<^item> \<open>TimeText\<close>: \<open>getTimeReported\<close>, \<open>getTimeGenerated\<close> and \<open>getTimeUTC\<close> of runtime/msg.c with
    their caches and tables.
  \<^item> \<open>MsgText\<close>, \<open>TagText\<close>: the content of a message, runtime/msg.c: raw text, offsets, header
    fields, and the fields made up of others (tag, program name, process id).
  \<^item> \<open>Parser\<close>, \<open>ParsePri\<close>, \<open>Sanitize\<close>: runtime/parser.c. The record \<open>parser_cfg\<close> holds the global
    settings it asks for; zlib's \<open>uncompress\<close> is a parameter.
  \<^item> \<open>Parse5424\<close>, \<open>Read5424\<close>, \<open>Parse3164\<close>, \<open>Read3164\<close>: the two parser modules and what they read
    from well-formed messages.
  \<^item> \<open>ParseSafe\<close>: reception from end to end with the default list of parsers.
  \<^item> \<open>PriFilter\<close>, \<open>PriSelect\<close>: priority filters, grammar/rainerscript.c and runtime/conf.c: the
    mask of a filter, the operations on it, and the decoder of the traditional selectors against
    their documented meaning.
  \<^item> \<open>ScriptVal\<close>, \<open>ScriptFun\<close>, \<open>ScriptFunOk\<close>: the values of RainerScript (grammar/rainerscript.c),
    their conversions and comparisons, the functions on texts and numbers and what they compute.
  \<^item> \<open>Expr\<close>, \<open>ExprOpt\<close>, \<open>ExprSame\<close>: expressions, \<open>cnfexprEval\<close>, the optimizer \<open>cnfexprOptimize\<close> and
    that it keeps the meaning of an expression. Its conditions are \<open>opt_ok\<close>: they leave out the
    constants, arrays and names for which the two differ. The message gives facility and
    severity; other properties, JSON variables and the functions not modelled are given by the
    record \<open>evalctx\<close>.

  What the lemmas show. For the queue: no undefined behaviour and an exact account of the
  references on any return code, first in first out, batches are prefixes of what the discard
  check passes, unfinished elements come back in order; and the ways in which the code
  falls short of this (elements discarded at dequeue stay counted, the last message of a
  destroyed queue leaks, batches are deleted without regard to their order, unlimited queues
  block full-delay inputs, elements to retry are dropped on a full queue, a
  re-enqueue that is cut off leaks its reference). For the action engine: retries end after
  exactly the configured number of sleeps or earlier if the module plays by the rules, never end
  if it does not; a suspended action is left alone, except by the commit; parameters to retry
  are overwritten with several templates. For the limiter: exactly the burst passes and everything else is
  counted, every dropped message is reported, the reduction of repetitions hands out its summary
  and accounts for each reference. For the table: operations refine those
  of a map, iterators visit everything once. For libestr: in-bounds appends, lexicographic
  comparison, round trip of numbers, expansion of escape sequences; and the inputs for which
  the code leaves its buffers. For the pipeline: in no interleaving of inputs and workers is an operation of the
  queue undefined or a reference lost, and the to-delete list is never used. For librelp: frames survive building and reading, a new number patched into a
  frame gives the frame built with it, no octets a server receives lead to undefined behaviour,
  messages arrive once, in order and are acknowledged, what was not acknowledged is sent again,
  sessions open; and what happens when memory or numbers run out, a send fails or a peer stops
  reading. For timestamps: parsers stay in their text and return only well-formed timestamps,
  printing and parsing are inverse, the calendar is the Gregorian one, every format stays in
  its tables but the ordinal. For parsing: no received text leads out of its bounds with the
  default settings of the legacy parser, for texts and settings up to 32766 bytes, digit runs that
  fit and a compressed text that is not empty (the decompressor is only assumed to keep to the
  room it is given), the parsers read from a message exactly its parts, sanitizing leaves no
  control characters; and the settings and inputs for which this fails (\<open>SpaceLF\<close>, empty
  compressed texts, headers above 32767 bytes, messages without structured data, long tags,
  bracketed host names). For the rule language: selectors are decoded to the mask that the
  documentation describes, the optimizer replaces an expression only by one with the same value
  (or truth, where only that counts), fields, replacement of single bytes and addresses are what
  they should be; and the texts and arguments with which these functions leave their buffers.

  Bounds and fuel. Machine integers are words of their width where the code depends on it
  (counters of the limiter, hash values, lengths of libestr, the 16 bit resume counter); the
  \<open>int\<close> of queue sizes and times is unbounded here, which is exact while sizes stay below two
  to the 31. There is no fuel in a model of code: \<open>it_walk\<close> in \<open>Hashtable\<close> is a caller of the
  iterator, and its bound is shown to be enough.

  Not modelled. Disk queues, the stream class and everything else that is file or socket I/O:
  their behaviour is that of the operating system. Thread creation and cancellation: an
  operation under a mutex is cut only where it waits, what others do in between is in the wait
  events and the step relation of \<open>Pipeline\<close>. TLS in librelp and the network drivers, and the creation of
  sockets. The lexer, grammar, objects and statements of the configuration language, the construction of
  objects from it, and the template engine: the components take their settings as records and the rendered
  templates as a parameter. The output and input modules: the action engine is proved for
  any module. Lookup tables, statistics, the JSON variables of a message, libfastjson,
  liblognorm and librdkafka are not covered.
\<close>

end
